(* ===== verification/Prelude.thy ===== *)
theory Prelude
  imports Main "HOL-Library.Char_ord" "HOL-Library.List_Lexorder" "HOL-Library.Product_Lexorder"
begin

text \<open>
  Shared vocabulary of the development: SQL tables as lists of rows (lookup by key, conditional
  update, delete), transactions that roll back when they throw, the generic transition system with
  its invariant rule, and the collections of rewrite rules the component theories extend.
\<close>

named_theorems op_defs \<open>definitions of the repository operations\<close>
named_theorems frame \<open>which tables and columns an operation leaves alone\<close>

type_synonym uuid = string
type_synonym instant = int \<comment> \<open>milliseconds since the epoch\<close>

section \<open>Tables\<close>

text \<open>
  A table is the list of its rows. \<open>row key t k\<close> is \<open>SELECT ... WHERE key = k LIMIT 1\<close>,
  \<open>upd P f t\<close> is \<open>UPDATE ... SET f WHERE P\<close>, \<open>del P t\<close> is \<open>DELETE ... WHERE P\<close>; an
  \<open>INSERT\<close> appends a row.
\<close>

definition row :: "('r \<Rightarrow> 'k) \<Rightarrow> 'r list \<Rightarrow> 'k \<Rightarrow> 'r option" where
  "row key t k = find (\<lambda>r. key r = k) t"

definition upd :: "('r \<Rightarrow> bool) \<Rightarrow> ('r \<Rightarrow> 'r) \<Rightarrow> 'r list \<Rightarrow> 'r list" where
  "upd P f t = map (\<lambda>r. if P r then f r else r) t"

definition del :: "('r \<Rightarrow> bool) \<Rightarrow> 'r list \<Rightarrow> 'r list" where
  "del P t = filter (\<lambda>r. \<not> P r) t"

lemma row_Nil [simp]: "row key [] k = None"
  by (simp add: row_def)

lemma row_Cons [simp]: "row key (r # t) k = (if key r = k then Some r else row key t k)"
  by (simp add: row_def)

lemma row_None_iff: "row key t k = None \<longleftrightarrow> k \<notin> key ` set t"
  by (auto simp: row_def find_None_iff)

lemma row_SomeD: "row key t k = Some r \<Longrightarrow> r \<in> set t \<and> key r = k"
  by (induction t) (auto split: if_splits)

lemma row_key: "row key t k = Some r \<Longrightarrow> key r = k"
  using row_SomeD by fast

lemma row_mem: "distinct (map key t) \<Longrightarrow> r \<in> set t \<Longrightarrow> row key t (key r) = Some r"
  by (induction t) (auto simp: image_iff)

lemma row_append:
  "row key (t @ [r]) k = (case row key t k of Some x \<Rightarrow> Some x | None \<Rightarrow> if key r = k then Some r else None)"
  by (induction t) auto

lemma row_append_new:
  "key r \<notin> key ` set t \<Longrightarrow> row key (t @ [r]) k = (if k = key r then Some r else row key t k)"
  by (induction t) auto

lemma upd_Nil [simp]: "upd P f [] = []"
  by (simp add: upd_def)

lemma upd_Cons [simp]: "upd P f (r # t) = (if P r then f r else r) # upd P f t"
  by (simp add: upd_def)

lemma set_upd: "x \<in> set (upd P f t) \<longleftrightarrow> (\<exists>r \<in> set t. x = (if P r then f r else r))"
  by (auto simp: upd_def)

lemma map_key_upd [simp]: "(\<And>r. key (f r) = key r) \<Longrightarrow> map key (upd P f t) = map key t"
  by (induction t) auto

lemma key_image_upd: "(\<And>r. key (f r) = key r) \<Longrightarrow> key ` set (upd P f t) = key ` set t"
  by (metis map_key_upd set_map)

lemma row_upd:
  "(\<And>r. key (f r) = key r) \<Longrightarrow>
   row key (upd P f t) k = map_option (\<lambda>r. if P r then f r else r) (row key t k)"
  by (induction t) auto

lemma row_upd_other:
  "(\<And>r. key (f r) = key r) \<Longrightarrow> (\<And>r. P r \<Longrightarrow> key r \<noteq> k) \<Longrightarrow> row key (upd P f t) k = row key t k"
  by (induction t) auto

lemma upd_id: "(\<And>r. r \<in> set t \<Longrightarrow> \<not> P r) \<Longrightarrow> upd P f t = t"
  by (induction t) auto

lemma length_upd [simp]: "length (upd P f t) = length t"
  by (simp add: upd_def)

lemma set_del: "x \<in> set (del P t) \<longleftrightarrow> x \<in> set t \<and> \<not> P x"
  by (simp add: del_def)

lemma row_del:
  "distinct (map key t) \<Longrightarrow>
   row key (del P t) k = (case row key t k of None \<Rightarrow> None | Some r \<Rightarrow> if P r then None else Some r)"
proof (induction t)
  case Nil
  then show ?case by (simp add: del_def)
next
  case (Cons a t)
  show ?case
  proof (cases "key a = k")
    case True
    with Cons.prems have "k \<notin> key ` set t" and "k \<notin> key ` set (del P t)"
      by (auto simp: set_del)
    then have "row key t k = None" and "row key (del P t) k = None"
      by (simp_all add: row_None_iff)
    with True show ?thesis by (auto simp: del_def)
  next
    case False
    with Cons show ?thesis by (auto simp: del_def)
  qed
qed

lemma distinct_map_del: "distinct (map key t) \<Longrightarrow> distinct (map key (del P t))"
  by (simp add: del_def distinct_map_filter)

lemma distinct_map_append:
  "distinct (map key (t @ [r])) \<longleftrightarrow> distinct (map key t) \<and> key r \<notin> key ` set t"
  by auto

section \<open>Transactions\<close>

text \<open>
  The errors a statement or the surrounding code can throw: the SQLSTATE classes the code tells
  apart (with the constraint's name, as \<open>pgConstraintViolation\<close> reads it), the retryable
  concurrency failures, and a plain \<open>Error\<close> with its message.
\<close>

datatype db_error =
    Unique_violation string
  | Check_violation string
  | Foreign_key_violation string
  | Deadlock_detected
  | Serialization_failure
  | App_error string

type_synonym ('s, 'a) tx = "'s \<Rightarrow> db_error + ('a \<times> 's)"

definition ret :: "'a \<Rightarrow> ('s, 'a) tx" where
  "ret a = (\<lambda>s. Inr (a, s))"

definition throw :: "db_error \<Rightarrow> ('s, 'a) tx" where
  "throw e = (\<lambda>s. Inl e)"

definition andThen :: "('s, 'a) tx \<Rightarrow> ('a \<Rightarrow> ('s, 'b) tx) \<Rightarrow> ('s, 'b) tx" where
  "andThen m f = (\<lambda>s. case m s of Inl e \<Rightarrow> Inl e | Inr (a, s') \<Rightarrow> f a s')"

text \<open>\<open>db.transaction(fn)\<close>: a throw rolls every statement back, otherwise the changes commit.\<close>

definition transaction :: "('s, 'a) tx \<Rightarrow> 's \<Rightarrow> (db_error + 'a) \<times> 's" where
  "transaction m s = (case m s of Inl e \<Rightarrow> (Inl e, s) | Inr (a, s') \<Rightarrow> (Inr a, s'))"

lemma ret_simp [simp]: "ret a s = Inr (a, s)"
  by (simp add: ret_def)

lemma throw_simp [simp]: "throw e s = Inl e"
  by (simp add: throw_def)

lemma andThen_simp [simp]: "andThen m f s = (case m s of Inl e \<Rightarrow> Inl e | Inr (a, s') \<Rightarrow> f a s')"
  by (simp add: andThen_def)

lemma transaction_rollback: "m s = Inl e \<Longrightarrow> transaction m s = (Inl e, s)"
  by (simp add: transaction_def)

lemma transaction_commit: "m s = Inr (a, s') \<Longrightarrow> transaction m s = (Inr a, s')"
  by (simp add: transaction_def)

text \<open>The state after a transaction keeps whatever the successful body keeps.\<close>

lemma transaction_keeps:
  "I s \<Longrightarrow> (\<And>a s'. m s = Inr (a, s') \<Longrightarrow> I s') \<Longrightarrow> I (snd (transaction m s))"
  by (auto simp: transaction_def split: sum.splits prod.splits)

section \<open>Transition systems\<close>

text \<open>
  The contract between a component's step relation and its invariant; every state reached from an
  initial state then satisfies the invariant.
\<close>

inductive reach :: "('s \<Rightarrow> bool) \<Rightarrow> ('s \<Rightarrow> 's \<Rightarrow> bool) \<Rightarrow> 's \<Rightarrow> bool" for init step where
  reach_init: "init s \<Longrightarrow> reach init step s"
| reach_step: "reach init step s \<Longrightarrow> step s t \<Longrightarrow> reach init step t"

locale transition_system =
  fixes init :: "'s \<Rightarrow> bool" and step :: "'s \<Rightarrow> 's \<Rightarrow> bool" and inv :: "'s \<Rightarrow> bool"
  assumes init_inv: "init s \<Longrightarrow> inv s"
    and step_inv: "inv s \<Longrightarrow> step s t \<Longrightarrow> inv t"
begin

lemma reach_inv: "reach init step s \<Longrightarrow> inv s"
  by (induction rule: reach.induct) (auto intro: init_inv step_inv)

lemma run_inv: "step\<^sup>*\<^sup>* s t \<Longrightarrow> inv s \<Longrightarrow> inv t"
  by (induction rule: rtranclp_induct) (auto intro: step_inv)

end

end
