(* ===== verification/Schema.thy ===== *)
theory Schema
  imports Complex_Main Prelude
begin

text \<open>
  The Postgres schema (\<open>apps/api/src/db/schema.ts\<close>, migrations 0006 to 0017): one record per
  table, one datatype per \<open>CHECK (... IN ...)\<close> column, and the database as the record of its
  tables. Timestamps are milliseconds, \<open>float8\<close> columns are reals, int columns are unbounded
  integers; every nullable column is an option.
\<close>

section \<open>Column types\<close>

datatype user_role = RoleClient | RoleDriver
datatype user_status = UserActive | UserSuspended | UserDeleted

datatype ride_status =
  Requested | Dispatching | Accepted | En_route | Arrived | In_progress
  | Completed | Cancelled | No_driver | No_show

datatype ride_type = Normal | SharedType | Scheduled

datatype pool_state =
  PoolOpen | ClosedFull | ClosedStarted | ClosedTimeout | PoolAborted | PoolCompleted

datatype offer_state = Offered | OfferAccepted | OfferDeclined | OfferExpired | OfferRevoked

datatype stop_type = Pickup | Dropoff

datatype actor = ActorClient | ActorDriver

datatype idem_operation = OpSolo | OpScheduled | OpShared

text \<open>A trip in either table; an offer or a guard row names exactly one of them.\<close>

datatype trip_ref = Solo uuid | Shared uuid

primrec tripId :: "trip_ref \<Rightarrow> uuid" where
  "tripId (Solo r) = r"
| "tripId (Shared p) = p"

instantiation ride_status :: enum
begin

definition "enum_ride_status =
  [Requested, Dispatching, Accepted, En_route, Arrived, In_progress, Completed, Cancelled, No_driver, No_show]"
definition "enum_all_ride_status P \<longleftrightarrow> list_all P (enum_class.enum :: ride_status list)"
definition "enum_ex_ride_status P \<longleftrightarrow> list_ex P (enum_class.enum :: ride_status list)"

instance
proof
  show univ: "UNIV = set (enum_class.enum :: ride_status list)"
    using ride_status.nchotomy by (auto simp: enum_ride_status_def)
  show "distinct (enum_class.enum :: ride_status list)"
    by (simp add: enum_ride_status_def)
  show "enum_class.enum_all P = Ball UNIV P" for P :: "ride_status \<Rightarrow> bool"
    by (simp add: univ enum_all_ride_status_def list_all_iff)
  show "enum_class.enum_ex P = Bex UNIV P" for P :: "ride_status \<Rightarrow> bool"
    by (simp add: univ enum_ex_ride_status_def list_ex_iff)
qed

end

instantiation pool_state :: enum
begin

definition "enum_pool_state =
  [PoolOpen, ClosedFull, ClosedStarted, ClosedTimeout, PoolAborted, PoolCompleted]"
definition "enum_all_pool_state P \<longleftrightarrow> list_all P (enum_class.enum :: pool_state list)"
definition "enum_ex_pool_state P \<longleftrightarrow> list_ex P (enum_class.enum :: pool_state list)"

instance
proof
  show univ: "UNIV = set (enum_class.enum :: pool_state list)"
    using pool_state.nchotomy by (auto simp: enum_pool_state_def)
  show "distinct (enum_class.enum :: pool_state list)"
    by (simp add: enum_pool_state_def)
  show "enum_class.enum_all P = Ball UNIV P" for P :: "pool_state \<Rightarrow> bool"
    by (simp add: univ enum_all_pool_state_def list_all_iff)
  show "enum_class.enum_ex P = Bex UNIV P" for P :: "pool_state \<Rightarrow> bool"
    by (simp add: univ enum_ex_pool_state_def list_ex_iff)
qed

end

section \<open>Accounts\<close>

record app_user =
  u_id :: uuid
  u_role :: user_role
  u_status :: user_status

datatype vehicle_type = AutoRickshaw | Bike | CabHatch | CabSedan

record vehicle =
  v_id :: uuid
  v_driverId :: uuid
  v_type :: vehicle_type
  v_regNo :: string
  v_make :: "string option"
  v_model :: "string option"
  v_color :: "string option"
  v_seats :: int
  v_active :: bool
  v_createdAt :: instant

section \<open>Trips\<close>

record ride =
  r_id :: uuid
  r_passengerId :: uuid
  r_originLat :: real
  r_originLng :: real
  r_destLat :: real
  r_destLng :: real
  r_fareCents :: int
  r_status :: ride_status
  r_type :: ride_type
  r_scheduledFor :: "instant option"
  r_idempotencyKey :: string
  r_idempotencyOperation :: idem_operation
  r_requestFingerprint :: "string option"
  r_driverId :: "uuid option"
  r_acceptedAt :: "instant option"
  r_enRouteAt :: "instant option"
  r_arrivedAt :: "instant option"
  r_startedAt :: "instant option"
  r_completedAt :: "instant option"
  r_cancelledAt :: "instant option"
  r_cancelledBy :: "actor option"
  r_cancelReason :: "string option"
  r_dispatchGeneration :: int
  r_updatedAt :: instant

record shared_ride =
  p_rideId :: uuid
  p_seatCount :: int
  p_maxSeats :: int
  p_poolState :: pool_state
  p_poolOpenedAt :: instant
  p_poolClosedAt :: "instant option"
  p_detourBudgetM :: int
  p_originLat :: real
  p_originLng :: real
  p_destLat :: real
  p_destLng :: real
  p_claimedByDriverId :: "uuid option"
  p_claimedAt :: "instant option"
  p_completedAt :: "instant option"
  p_dispatchGeneration :: int
  p_stateVersion :: int
  p_updatedAt :: instant

record ride_stop =
  s_rideId :: uuid
  s_sequenceIndex :: int
  s_passengerId :: uuid
  s_type :: stop_type
  s_lat :: real
  s_lng :: real
  s_confirmedAt :: "instant option"

record pool_member =
  m_poolId :: uuid
  m_passengerId :: uuid
  m_seats :: int
  m_originLat :: real
  m_originLng :: real
  m_destLat :: real
  m_destLng :: real
  m_agreedFareCents :: "int option"
  m_idempotencyKey :: "string option"
  m_active :: bool
  m_joinedAt :: instant
  m_leftAt :: "instant option"

section \<open>Dispatch\<close>

record offer =
  o_id :: uuid
  o_trip :: trip_ref
  o_driverId :: uuid
  o_generation :: int
  o_waveNumber :: int
  o_state :: offer_state
  o_offeredAt :: instant
  o_expiresAt :: instant
  o_resolvedAt :: "instant option"

record assignment =
  a_driverId :: uuid
  a_trip :: trip_ref
  a_offerId :: "uuid option"
  a_generation :: int
  a_assignedAt :: instant

section \<open>Outbox and idempotency\<close>

text \<open>
  The four topics of the registry; the column itself is text, so a row can carry another name.
  A payload field that does not parse as an instant is \<open>None\<close>.
\<close>

datatype topic =
    RideDispatchRequested
  | RideWakeSchedule
  | PoolDispatchRequested
  | PoolExpireSchedule
  | OtherTopic string

datatype aggregate_type = AggRide | AggSharedRide

datatype payload =
    DispatchRide uuid
  | WakeAt "instant option"
  | DispatchPool uuid pool_state
  | ExpireAt "instant option"
  | OtherPayload

record outbox_row =
  x_id :: uuid
  x_topic :: topic
  x_aggregateType :: aggregate_type
  x_aggregateId :: uuid
  x_generation :: int
  x_payload :: payload
  x_dedupeKey :: string
  x_availableAt :: instant
  x_attempts :: nat
  x_maxAttempts :: nat
  x_lastError :: "string option"
  x_leaseToken :: "uuid option"
  x_leasedUntil :: "instant option"
  x_processedAt :: "instant option"
  x_failedAt :: "instant option"

datatype seat_mode = SeatOpened | SeatSlotted

text \<open>The replayable body of a shared create (\<open>CreateRideResponse\<close>, rides.controller.ts).\<close>

record seat_response =
  sr_sharedRideId :: uuid
  sr_passengerId :: uuid
  sr_mode :: seat_mode
  sr_poolStatus :: pool_state
  sr_perSeatPrice :: int
  sr_seatMultiplier :: "real option"
  sr_detourFactor :: "real option"

datatype idem_state = IdemPending | IdemCompleted

record idem_record =
  i_principalId :: uuid
  i_operation :: idem_operation
  i_key :: string
  i_fingerprint :: string
  i_state :: idem_state
  i_resourceId :: "uuid option"
  i_response :: "seat_response option"
  i_createdAt :: instant
  i_completedAt :: "instant option"

section \<open>The database\<close>

record db =
  users :: "app_user list"
  drivers :: "uuid list" \<comment> \<open>the primary keys of table \<open>driver\<close>\<close>
  vehicles :: "vehicle list"
  rides :: "ride list"
  shared_rides :: "shared_ride list"
  ride_stops :: "ride_stop list"
  pool_members :: "pool_member list"
  offers :: "offer list"
  assignments :: "assignment list"
  outbox :: "outbox_row list"
  idem :: "idem_record list"

abbreviation ride_row :: "db \<Rightarrow> uuid \<Rightarrow> ride option" where
  "ride_row s i \<equiv> row r_id (rides s) i"

abbreviation pool_row :: "db \<Rightarrow> uuid \<Rightarrow> shared_ride option" where
  "pool_row s i \<equiv> row p_rideId (shared_rides s) i"

abbreviation offer_row :: "db \<Rightarrow> uuid \<Rightarrow> offer option" where
  "offer_row s i \<equiv> row o_id (offers s) i"

section \<open>JavaScript arithmetic\<close>

text \<open>\<open>Math.round\<close> rounds halves up, also below zero.\<close>

definition jsRound :: "real \<Rightarrow> int" where
  "jsRound x = \<lfloor>x + 1 / 2\<rfloor>"

lemma jsRound_of_int [simp]: "jsRound (of_int i) = i"
  by (simp add: jsRound_def floor_eq_iff)

lemma jsRound_numeral [simp]: "jsRound (numeral n) = numeral n"
  using jsRound_of_int [of "numeral n"] by simp

lemma jsRound_mono: "x \<le> y \<Longrightarrow> jsRound x \<le> jsRound y"
  by (simp add: jsRound_def floor_mono)

section \<open>Identifiers\<close>

text \<open>
  The shape check \<open>isUuid\<close> (offer.repository.ts): 8-4-4-4-12 hexadecimal digits, either case.
\<close>

definition isHex :: "char \<Rightarrow> bool" where
  "isHex c \<longleftrightarrow> c \<in> set ''0123456789abcdefABCDEF''"

fun uuid_groups :: "nat list \<Rightarrow> string \<Rightarrow> bool" where
  "uuid_groups [] cs \<longleftrightarrow> cs = []"
| "uuid_groups [n] cs \<longleftrightarrow> length cs = n \<and> list_all isHex cs"
| "uuid_groups (n # m # ns) cs \<longleftrightarrow>
     n < length cs \<and> list_all isHex (take n cs) \<and> cs ! n = CHR ''-'' \<and> uuid_groups (m # ns) (drop (Suc n) cs)"

definition isUuid :: "string \<Rightarrow> bool" where
  "isUuid cs \<longleftrightarrow> uuid_groups [8, 4, 4, 4, 12] cs"

lemma uuid_groups_chars: "uuid_groups ns cs \<Longrightarrow> c \<in> set cs \<Longrightarrow> isHex c \<or> c = CHR ''-''"
proof (induction ns cs rule: uuid_groups.induct)
  case (3 n m ns cs)
  have "set cs = set (take n cs) \<union> set (drop n cs)"
    by (metis append_take_drop_id set_append)
  moreover have "drop n cs = cs ! n # drop (Suc n) cs"
    using "3.prems"(1) Cons_nth_drop_Suc [of n cs] by (simp del: Cons_nth_drop_Suc)
  ultimately show ?case
    using "3.IH" "3.prems" by (auto simp: list_all_iff)
qed (auto simp: list_all_iff)

lemma isUuid_no_colon: "isUuid cs \<Longrightarrow> CHR '':'' \<notin> set cs"
proof
  assume "isUuid cs" and "CHR '':'' \<in> set cs"
  then have "isHex (CHR '':'')"
    unfolding isUuid_def by (blast dest: uuid_groups_chars)
  then show False by (simp add: isHex_def)
qed

lemma uuid_groups_length: "uuid_groups ns cs \<Longrightarrow> ns \<noteq> [] \<Longrightarrow> length cs = sum_list ns + (length ns - 1)"
  by (induction ns cs rule: uuid_groups.induct) auto

lemma isUuid_length: "isUuid cs \<Longrightarrow> length cs = 36"
  unfolding isUuid_def by (drule uuid_groups_length) simp_all

text \<open>Ten distinct well-formed ids, for the concrete runs of the witnesses.\<close>

definition mk_uuid :: "char \<Rightarrow> uuid" where
  "mk_uuid c = ''00000000-0000-4000-8000-00000000000'' @ [c]"

lemma isUuid_mk [simp]: "isHex c \<Longrightarrow> isUuid (mk_uuid c)"
  by (simp add: isUuid_def mk_uuid_def isHex_def)

lemma mk_uuid_inject [simp]: "mk_uuid c = mk_uuid d \<longleftrightarrow> c = d"
  by (simp add: mk_uuid_def)

end
