(* ===== verification/Trips.thy ===== *)
theory Trips
  imports Schema
begin

text \<open>
  What the two trip tables say together. A trip is a row of \<open>rides\<close> or of \<open>shared_rides\<close>; three
  functions read the tables the way dispatch sees them: who drives a trip (\<open>trip_driver\<close>), which
  generation it can be offered at (\<open>disp\<close>), and who the exclusivity table binds to it
  (\<open>guard_of\<close>). The lemmas compute them after a row update. The second half models the row
  triggers of migrations 0016 and 0017 that every statement on the pool tables runs.
\<close>

section \<open>Status classes\<close>

primrec active_status :: "ride_status \<Rightarrow> bool" where
  "active_status Requested = False"
| "active_status Dispatching = False"
| "active_status Accepted = True"
| "active_status En_route = True"
| "active_status Arrived = True"
| "active_status In_progress = True"
| "active_status Completed = False"
| "active_status Cancelled = False"
| "active_status No_driver = False"
| "active_status No_show = False"

primrec terminal_pool :: "pool_state \<Rightarrow> bool" where
  "terminal_pool PoolOpen = False"
| "terminal_pool ClosedFull = False"
| "terminal_pool ClosedStarted = False"
| "terminal_pool ClosedTimeout = False"
| "terminal_pool PoolAborted = True"
| "terminal_pool PoolCompleted = True"

text \<open>\<open>CLAIMABLE_POOL_STATES\<close> (assignment.repository.ts)\<close>

primrec claimable_pool :: "pool_state \<Rightarrow> bool" where
  "claimable_pool PoolOpen = False"
| "claimable_pool ClosedFull = True"
| "claimable_pool ClosedStarted = False"
| "claimable_pool ClosedTimeout = True"
| "claimable_pool PoolAborted = False"
| "claimable_pool PoolCompleted = False"

section \<open>Views\<close>

definition solo_driver :: "ride \<Rightarrow> uuid option" where
  "solo_driver r = (if active_status (r_status r) then r_driverId r else None)"

definition pool_driver :: "shared_ride \<Rightarrow> uuid option" where
  "pool_driver p = (if terminal_pool (p_poolState p) then None else p_claimedByDriverId p)"

definition solo_disp :: "ride \<Rightarrow> int option" where
  "solo_disp r = (if r_status r = Requested \<and> r_driverId r = None then Some (r_dispatchGeneration r) else None)"

definition pool_disp :: "shared_ride \<Rightarrow> int option" where
  "pool_disp p =
     (if claimable_pool (p_poolState p) \<and> p_claimedByDriverId p = None then Some (p_dispatchGeneration p) else None)"

fun trip_driver :: "db \<Rightarrow> trip_ref \<Rightarrow> uuid option" where
  "trip_driver s (Solo i) = Option.bind (ride_row s i) solo_driver"
| "trip_driver s (Shared i) = Option.bind (pool_row s i) pool_driver"

fun disp :: "db \<Rightarrow> trip_ref \<Rightarrow> int option" where
  "disp s (Solo i) = Option.bind (ride_row s i) solo_disp"
| "disp s (Shared i) = Option.bind (pool_row s i) pool_disp"

definition guard_of :: "db \<Rightarrow> trip_ref \<Rightarrow> uuid option" where
  "guard_of s t = map_option a_driverId (row a_trip (assignments s) t)"

definition is_live :: "offer \<Rightarrow> bool" where
  "is_live ofr \<longleftrightarrow> o_state ofr = Offered"

text \<open>The views depend on their tables only.\<close>

lemma trip_driver_cong: "rides s = rides s' \<Longrightarrow> shared_rides s = shared_rides s' \<Longrightarrow> trip_driver s = trip_driver s'"
  by (rule ext, rename_tac t, case_tac t) simp_all

lemma disp_cong: "rides s = rides s' \<Longrightarrow> shared_rides s = shared_rides s' \<Longrightarrow> disp s = disp s'"
  by (rule ext, rename_tac t, case_tac t) simp_all

lemma guard_of_cong: "assignments s = assignments s' \<Longrightarrow> guard_of s = guard_of s'"
  by (simp add: guard_of_def fun_eq_iff)

lemmas view_cong = trip_driver_cong disp_cong guard_of_cong

text \<open>One ride row changes: its view changes, every other trip's stays.\<close>

lemma trip_driver_ride:
  assumes "rides s' = upd P f (rides s)" "shared_rides s' = shared_rides s"
    and "\<And>r. r_id (f r) = r_id r" "\<And>r. P r \<Longrightarrow> r_id r = i" "ride_row s i = Some r" "P r"
  shows "trip_driver s' = (trip_driver s)(Solo i := solo_driver (f r))"
proof
  fix t
  show "trip_driver s' t = ((trip_driver s)(Solo i := solo_driver (f r))) t"
  proof (cases t)
    case (Solo j)
    show ?thesis
    proof (cases "j = i")
      case True
      with Solo assms show ?thesis by (simp add: row_upd)
    next
      case False
      then have "row r_id (upd P f (rides s)) j = row r_id (rides s) j"
        using assms by (intro row_upd_other) auto
      with Solo False assms show ?thesis by simp
    qed
  qed (use assms in simp)
qed

lemma disp_ride:
  assumes "rides s' = upd P f (rides s)" "shared_rides s' = shared_rides s"
    and "\<And>r. r_id (f r) = r_id r" "\<And>r. P r \<Longrightarrow> r_id r = i" "ride_row s i = Some r" "P r"
  shows "disp s' = (disp s)(Solo i := solo_disp (f r))"
proof
  fix t
  show "disp s' t = ((disp s)(Solo i := solo_disp (f r))) t"
  proof (cases t)
    case (Solo j)
    show ?thesis
    proof (cases "j = i")
      case True
      with Solo assms show ?thesis by (simp add: row_upd)
    next
      case False
      then have "row r_id (upd P f (rides s)) j = row r_id (rides s) j"
        using assms by (intro row_upd_other) auto
      with Solo False assms show ?thesis by simp
    qed
  qed (use assms in simp)
qed

lemma trip_driver_pool:
  assumes "shared_rides s' = upd P f (shared_rides s)" "rides s' = rides s"
    and "\<And>r. p_rideId (f r) = p_rideId r" "\<And>r. P r \<Longrightarrow> p_rideId r = i" "pool_row s i = Some p" "P p"
  shows "trip_driver s' = (trip_driver s)(Shared i := pool_driver (f p))"
proof
  fix t
  show "trip_driver s' t = ((trip_driver s)(Shared i := pool_driver (f p))) t"
  proof (cases t)
    case (Shared j)
    show ?thesis
    proof (cases "j = i")
      case True
      with Shared assms show ?thesis by (simp add: row_upd)
    next
      case False
      then have "row p_rideId (upd P f (shared_rides s)) j = row p_rideId (shared_rides s) j"
        using assms by (intro row_upd_other) auto
      with Shared False assms show ?thesis by simp
    qed
  qed (use assms in simp)
qed

lemma disp_pool:
  assumes "shared_rides s' = upd P f (shared_rides s)" "rides s' = rides s"
    and "\<And>r. p_rideId (f r) = p_rideId r" "\<And>r. P r \<Longrightarrow> p_rideId r = i" "pool_row s i = Some p" "P p"
  shows "disp s' = (disp s)(Shared i := pool_disp (f p))"
proof
  fix t
  show "disp s' t = ((disp s)(Shared i := pool_disp (f p))) t"
  proof (cases t)
    case (Shared j)
    show ?thesis
    proof (cases "j = i")
      case True
      with Shared assms show ?thesis by (simp add: row_upd)
    next
      case False
      then have "row p_rideId (upd P f (shared_rides s)) j = row p_rideId (shared_rides s) j"
        using assms by (intro row_upd_other) auto
      with Shared False assms show ?thesis by simp
    qed
  qed (use assms in simp)
qed

text \<open>A new row: only its own trip's view can change.\<close>

lemma views_new_ride:
  assumes "rides s' = rides s @ [r]" "shared_rides s' = shared_rides s" "r_id r \<notin> r_id ` set (rides s)"
  shows "trip_driver s' = (trip_driver s)(Solo (r_id r) := solo_driver r)"
    and "disp s' = (disp s)(Solo (r_id r) := solo_disp r)"
proof -
  have *: "ride_row s' j = (if j = r_id r then Some r else ride_row s j)" for j
    using assms by (simp add: row_append_new)
  show "trip_driver s' = (trip_driver s)(Solo (r_id r) := solo_driver r)"
    by (rule ext, rename_tac t, case_tac t) (simp_all add: * assms(2))
  show "disp s' = (disp s)(Solo (r_id r) := solo_disp r)"
    by (rule ext, rename_tac t, case_tac t) (simp_all add: * assms(2))
qed

lemma views_new_pool:
  assumes "shared_rides s' = shared_rides s @ [p]" "rides s' = rides s" "p_rideId p \<notin> p_rideId ` set (shared_rides s)"
  shows "trip_driver s' = (trip_driver s)(Shared (p_rideId p) := pool_driver p)"
    and "disp s' = (disp s)(Shared (p_rideId p) := pool_disp p)"
proof -
  have *: "pool_row s' j = (if j = p_rideId p then Some p else pool_row s j)" for j
    using assms by (simp add: row_append_new)
  show "trip_driver s' = (trip_driver s)(Shared (p_rideId p) := pool_driver p)"
    by (rule ext, rename_tac t, case_tac t) (simp_all add: * assms(2))
  show "disp s' = (disp s)(Shared (p_rideId p) := pool_disp p)"
    by (rule ext, rename_tac t, case_tac t) (simp_all add: * assms(2))
qed

section \<open>Triggers of the pool tables\<close>

text \<open>
  Every \<open>UPDATE\<close> of a \<open>shared_rides\<close> row bumps its \<open>state_version\<close>; a change of \<open>pool_state\<close>
  into a terminal state deactivates the pool's members in the same statement.
\<close>

definition bump :: "(shared_ride \<Rightarrow> shared_ride) \<Rightarrow> shared_ride \<Rightarrow> shared_ride" where
  "bump f p = (f p)\<lparr>p_stateVersion := p_stateVersion p + 1\<rparr>"

definition releases :: "(shared_ride \<Rightarrow> bool) \<Rightarrow> (shared_ride \<Rightarrow> shared_ride) \<Rightarrow> shared_ride list \<Rightarrow> pool_member \<Rightarrow> bool" where
  "releases P f t m \<longleftrightarrow>
     m_active m \<and> (\<exists>p \<in> set t. p_rideId p = m_poolId m \<and> P p
       \<and> terminal_pool (p_poolState (f p)) \<and> p_poolState (f p) \<noteq> p_poolState p)"

definition update_pools :: "(shared_ride \<Rightarrow> bool) \<Rightarrow> (shared_ride \<Rightarrow> shared_ride) \<Rightarrow> instant \<Rightarrow> db \<Rightarrow> db" where
  "update_pools P f now s =
     s\<lparr>shared_rides := upd P (bump f) (shared_rides s),
       pool_members := upd (releases P f (shared_rides s)) (\<lambda>m. m\<lparr>m_active := False, m_leftAt := Some now\<rparr>)
         (pool_members s)\<rparr>"

lemma bump_sel [simp]:
  "p_stateVersion (bump f p) = p_stateVersion p + 1"
  "p_rideId (bump f p) = p_rideId (f p)"
  "p_poolState (bump f p) = p_poolState (f p)"
  "p_claimedByDriverId (bump f p) = p_claimedByDriverId (f p)"
  "p_dispatchGeneration (bump f p) = p_dispatchGeneration (f p)"
  "p_seatCount (bump f p) = p_seatCount (f p)"
  "p_maxSeats (bump f p) = p_maxSeats (f p)"
  "p_poolClosedAt (bump f p) = p_poolClosedAt (f p)"
  by (simp_all add: bump_def)

lemma pool_views_bump [simp]:
  "pool_driver (bump f p) = pool_driver (f p)"
  "pool_disp (bump f p) = pool_disp (f p)"
  by (simp_all add: pool_driver_def pool_disp_def)

lemma update_pools_sel [simp]:
  "rides (update_pools P f now s) = rides s"
  "offers (update_pools P f now s) = offers s"
  "assignments (update_pools P f now s) = assignments s"
  "outbox (update_pools P f now s) = outbox s"
  "ride_stops (update_pools P f now s) = ride_stops s"
  "users (update_pools P f now s) = users s"
  "drivers (update_pools P f now s) = drivers s"
  "vehicles (update_pools P f now s) = vehicles s"
  "idem (update_pools P f now s) = idem s"
  "shared_rides (update_pools P f now s) = upd P (bump f) (shared_rides s)"
  by (simp_all add: update_pools_def)

end
