(* ===== verification/Assignments.thy ===== *)
theory Assignments
  imports Trips
begin

text \<open>
  \<open>DriverAssignmentRepository\<close> (assignment.repository.ts): the exclusivity guard
  \<open>driver_active_assignment\<close> with its unique keys, the claim statements of the two trip tables,
  the abort of an unclaimed pool and the driver's eligibility. Each operation comes with what it
  does to the views of \<open>Trips\<close>.
\<close>

section \<open>The guard\<close>

text \<open>
  The insert as Postgres runs it: the row check, then the unique indexes in the order of their
  creation (the primary key first), then the foreign keys.
\<close>

definition trip_exists :: "db \<Rightarrow> trip_ref \<Rightarrow> bool" where
  "trip_exists s t = (case t of Solo i \<Rightarrow> ride_row s i \<noteq> None | Shared i \<Rightarrow> pool_row s i \<noteq> None)"

definition taken_constraint :: "trip_ref \<Rightarrow> string" where
  "taken_constraint t = (case t of
       Solo i \<Rightarrow> ''driver_active_assignment_solo_ride_id_key''
     | Shared i \<Rightarrow> ''driver_active_assignment_shared_ride_id_key'')"

definition insert_assignment :: "assignment \<Rightarrow> (db, unit) tx" where
  "insert_assignment a s =
     (if a_generation a < 1 then Inl (Check_violation ''driver_active_assignment_generation_check'')
      else if a_driverId a \<in> a_driverId ` set (assignments s) then
        Inl (Unique_violation ''driver_active_assignment_pkey'')
      else if a_trip a \<in> a_trip ` set (assignments s) then Inl (Unique_violation (taken_constraint (a_trip a)))
      else if a_offerId a \<noteq> None \<and> a_offerId a \<in> a_offerId ` set (assignments s) then
        Inl (Unique_violation ''driver_active_assignment_offer_id_key'')
      else if a_driverId a \<notin> set (drivers s) then
        Inl (Foreign_key_violation ''driver_active_assignment_driver_id_fkey'')
      else if \<not> trip_exists s (a_trip a) then Inl (Foreign_key_violation ''driver_active_assignment_trip_fkey'')
      else Inr ((), s\<lparr>assignments := assignments s @ [a]\<rparr>))"

datatype acquire_outcome = AcquireOk | AcquireBusy | AcquireTaken

text \<open>The savepoint: an expected unique violation becomes an outcome, anything else is rethrown.\<close>

definition acquire :: "uuid \<Rightarrow> trip_ref \<Rightarrow> uuid option \<Rightarrow> int \<Rightarrow> instant \<Rightarrow> (db, acquire_outcome) tx" where
  "acquire d t off g now s =
     (case insert_assignment \<lparr>a_driverId = d, a_trip = t, a_offerId = off, a_generation = g, a_assignedAt = now\<rparr> s of
        Inr (_, s') \<Rightarrow> Inr (AcquireOk, s')
      | Inl (Unique_violation c) \<Rightarrow>
          (if c = ''driver_active_assignment_pkey'' then Inr (AcquireBusy, s)
           else if c = ''driver_active_assignment_solo_ride_id_key''
                \<or> c = ''driver_active_assignment_shared_ride_id_key'' then Inr (AcquireTaken, s)
           else Inl (Unique_violation c))
      | Inl e \<Rightarrow> Inl e)"

definition binds :: "uuid \<Rightarrow> trip_ref \<Rightarrow> assignment \<Rightarrow> bool" where
  "binds d t a \<longleftrightarrow> a_driverId a = d \<and> a_trip a = t"

definition release :: "uuid \<Rightarrow> trip_ref \<Rightarrow> db \<Rightarrow> bool \<times> db" where
  "release d t s = (list_ex (binds d t) (assignments s), s\<lparr>assignments := del (binds d t) (assignments s)\<rparr>)"

definition findByDriver :: "db \<Rightarrow> uuid \<Rightarrow> assignment option" where
  "findByDriver s d = row a_driverId (assignments s) d"

definition findByTrip :: "db \<Rightarrow> trip_ref \<Rightarrow> assignment option" where
  "findByTrip s t = row a_trip (assignments s) t"

definition listAll :: "db \<Rightarrow> assignment list" where
  "listAll s = assignments s"

definition lockSoloTrip :: "db \<Rightarrow> uuid \<Rightarrow> ride option" where
  "lockSoloTrip s i = ride_row s i"

definition lockSharedTrip :: "db \<Rightarrow> uuid \<Rightarrow> shared_ride option" where
  "lockSharedTrip s i = pool_row s i"

section \<open>Claims\<close>

definition claimable_ride :: "uuid \<Rightarrow> ride \<Rightarrow> bool" where
  "claimable_ride i r \<longleftrightarrow> r_id r = i \<and> r_status r = Requested \<and> r_driverId r = None"

definition bind_ride :: "uuid \<Rightarrow> int \<Rightarrow> instant \<Rightarrow> ride \<Rightarrow> ride" where
  "bind_ride d g now r =
     r\<lparr>r_status := Accepted, r_driverId := Some d, r_acceptedAt := Some now, r_updatedAt := now,
       r_dispatchGeneration := max (r_dispatchGeneration r) g\<rparr>"

definition claimSoloRow :: "uuid \<Rightarrow> uuid \<Rightarrow> int \<Rightarrow> instant \<Rightarrow> (db, ride) tx" where
  "claimSoloRow i d g now s =
     (case find (claimable_ride i) (rides s) of
        None \<Rightarrow> Inl (App_error ''claimSoloRow: ride is not claimable'')
      | Some r \<Rightarrow> Inr (bind_ride d g now r, s\<lparr>rides := upd (claimable_ride i) (bind_ride d g now) (rides s)\<rparr>))"

definition claimable_at :: "uuid \<Rightarrow> int \<Rightarrow> shared_ride \<Rightarrow> bool" where
  "claimable_at i g p \<longleftrightarrow>
     p_rideId p = i \<and> p_claimedByDriverId p = None \<and> claimable_pool (p_poolState p) \<and> p_dispatchGeneration p = g"

definition claimSharedRow :: "uuid \<Rightarrow> uuid \<Rightarrow> int \<Rightarrow> instant \<Rightarrow> (db, unit) tx" where
  "claimSharedRow i d g now s =
     (if list_ex (claimable_at i g) (shared_rides s)
      then Inr ((), update_pools (claimable_at i g)
             (\<lambda>p. p\<lparr>p_claimedByDriverId := Some d, p_claimedAt := Some now, p_updatedAt := now\<rparr>) now s)
      else Inl (App_error ''claimSharedRow: pool is not claimable''))"

definition abortUnclaimedPool :: "uuid \<Rightarrow> int \<Rightarrow> instant \<Rightarrow> db \<Rightarrow> bool \<times> db" where
  "abortUnclaimedPool i g now s =
     (list_ex (claimable_at i g) (shared_rides s),
      update_pools (claimable_at i g) (\<lambda>p. p\<lparr>p_poolState := PoolAborted, p_updatedAt := now\<rparr>) now s)"

section \<open>Eligibility\<close>

datatype driver_eligibility = EligibleOk | DriverIneligible | VehicleCapacity

definition max_active_seats :: "db \<Rightarrow> uuid \<Rightarrow> int option" where
  "max_active_seats s d =
     (case map v_seats (filter (\<lambda>v. v_driverId v = d \<and> v_active v) (vehicles s)) of
        [] \<Rightarrow> None | n # ns \<Rightarrow> Some (foldr max ns n))"

definition driverEligibility :: "db \<Rightarrow> uuid \<Rightarrow> int \<Rightarrow> driver_eligibility" where
  "driverEligibility s d seatsNeeded =
     (case row u_id (users s) d of
        None \<Rightarrow> DriverIneligible
      | Some u \<Rightarrow>
          if u_status u = UserActive \<and> u_role u = RoleDriver \<and> d \<in> set (drivers s)
          then if seatsNeeded \<le> (case max_active_seats s d of None \<Rightarrow> 0 | Some n \<Rightarrow> n)
               then EligibleOk else VehicleCapacity
          else DriverIneligible)"

section \<open>Effects\<close>

text \<open>The guard table's own keys: one row per driver, one row per trip.\<close>

definition guard_keys :: "db \<Rightarrow> bool" where
  "guard_keys s \<longleftrightarrow>
     distinct (map a_driverId (assignments s)) \<and> distinct (map a_trip (assignments s))
     \<and> (\<forall>a \<in> set (assignments s). 1 \<le> a_generation a)"

lemma acquire_cases:
  assumes "acquire d t off g now s = Inr (out, s')"
  obtains (ok) "out = AcquireOk" "1 \<le> g" "d \<notin> a_driverId ` set (assignments s)" "t \<notin> a_trip ` set (assignments s)"
      "d \<in> set (drivers s)" "trip_exists s t"
      "s' = s\<lparr>assignments := assignments s @ [\<lparr>a_driverId = d, a_trip = t, a_offerId = off, a_generation = g,
         a_assignedAt = now\<rparr>]\<rparr>"
  | (busy) "out = AcquireBusy" "s' = s" "d \<in> a_driverId ` set (assignments s)"
  | (taken) "out = AcquireTaken" "s' = s" "t \<in> a_trip ` set (assignments s)" "d \<notin> a_driverId ` set (assignments s)"
  using assms
  by (auto simp: acquire_def insert_assignment_def taken_constraint_def split: if_splits trip_ref.splits)

text \<open>What \<open>acquire\<close> decides when nothing is malformed: the driver's row first, then the trip's.\<close>

lemma acquire_decides:
  assumes "1 \<le> g" "d \<in> set (drivers s)" "trip_exists s t"
    and "off = None \<or> off \<notin> a_offerId ` set (assignments s)"
  shows "\<exists>s'. acquire d t off g now s = Inr
     (if d \<in> a_driverId ` set (assignments s) then AcquireBusy
      else if t \<in> a_trip ` set (assignments s) then AcquireTaken else AcquireOk, s')"
  using assms
  by (auto simp: acquire_def insert_assignment_def taken_constraint_def split: trip_ref.splits)

lemma guard_of_None: "guard_of s t = None \<longleftrightarrow> t \<notin> a_trip ` set (assignments s)"
  by (simp add: guard_of_def row_None_iff)

lemma guard_of_SomeD: "guard_of s t = Some d \<Longrightarrow> \<exists>a \<in> set (assignments s). a_driverId a = d \<and> a_trip a = t"
  by (auto simp: guard_of_def dest: row_SomeD)

lemma guard_of_mem:
  "guard_keys s \<Longrightarrow> a \<in> set (assignments s) \<Longrightarrow> guard_of s (a_trip a) = Some (a_driverId a)"
  by (simp add: guard_of_def row_mem guard_keys_def)

lemma busy_iff: "guard_keys s \<Longrightarrow> d \<in> a_driverId ` set (assignments s) \<longleftrightarrow> d \<in> ran (guard_of s)"
  by (auto simp: ran_def dest: guard_of_SomeD) (metis guard_of_mem)

lemma acquire_effect:
  assumes "acquire d t off g now s = Inr (AcquireOk, s')"
  shows "guard_of s' = (guard_of s)(t \<mapsto> d)"
    and "guard_keys s \<Longrightarrow> guard_keys s'"
    and "s' = s\<lparr>assignments := assignments s'\<rparr>"
  using assms
  by (cases rule: acquire_cases; auto simp: guard_of_def row_append_new guard_keys_def fun_eq_iff)+

lemma acquire_not_ok: "acquire d t off g now s = Inr (out, s') \<Longrightarrow> out \<noteq> AcquireOk \<Longrightarrow> s' = s"
  by (erule acquire_cases) simp_all

lemma guard_inj:
  "guard_keys s \<Longrightarrow> guard_of s t = Some d \<Longrightarrow> guard_of s u = Some d \<Longrightarrow> t = u"
  by (auto simp: guard_keys_def distinct_map dest!: guard_of_SomeD) (metis inj_onD)

lemma release_effect:
  assumes "guard_keys s"
  shows "guard_of (snd (release d t s)) = (if guard_of s t = Some d then (guard_of s)(t := None) else guard_of s)"
    and "guard_keys (snd (release d t s))"
proof -
  have "distinct (map a_trip (assignments s))" using assms by (simp add: guard_keys_def)
  then have *: "row a_trip (del (binds d t) (assignments s)) u =
      (case row a_trip (assignments s) u of None \<Rightarrow> None | Some a \<Rightarrow> if binds d t a then None else Some a)" for u
    by (rule row_del)
  show "guard_of (snd (release d t s)) = (if guard_of s t = Some d then (guard_of s)(t := None) else guard_of s)"
    by (rule ext) (auto simp: release_def guard_of_def * binds_def split: option.splits dest: row_key)
  show "guard_keys (snd (release d t s))"
    using assms by (auto simp: guard_keys_def release_def distinct_map_del set_del)
qed

lemma release_frame: "snd (release d t s) = s\<lparr>assignments := assignments (snd (release d t s))\<rparr>"
  by (simp add: release_def)

lemma release_sel [simp]:
  "rides (snd (release d t s)) = rides s" "shared_rides (snd (release d t s)) = shared_rides s"
  "offers (snd (release d t s)) = offers s" "outbox (snd (release d t s)) = outbox s"
  "pool_members (snd (release d t s)) = pool_members s" "ride_stops (snd (release d t s)) = ride_stops s"
  "users (snd (release d t s)) = users s" "drivers (snd (release d t s)) = drivers s"
  "vehicles (snd (release d t s)) = vehicles s" "idem (snd (release d t s)) = idem s"
  by (simp_all add: release_def)

text \<open>A late release for another trip never frees the driver's current one.\<close>

lemma release_other_trip:
  "guard_keys s \<Longrightarrow> guard_of s u = Some d \<Longrightarrow> t \<noteq> u \<Longrightarrow> guard_of (snd (release d t s)) u = Some d"
  by (simp add: release_effect)

lemma bind_ride_sel [simp]:
  "r_id (bind_ride d g now r) = r_id r" "r_status (bind_ride d g now r) = Accepted"
  "r_driverId (bind_ride d g now r) = Some d" "r_type (bind_ride d g now r) = r_type r"
  "r_dispatchGeneration (bind_ride d g now r) = max (r_dispatchGeneration r) g"
  "r_passengerId (bind_ride d g now r) = r_passengerId r"
  by (simp_all add: bind_ride_def)

lemma claimable_ride_find:
  "find (claimable_ride i) t = Some r \<Longrightarrow> claimable_ride i r \<and> r \<in> set t"
  by (auto simp: find_Some_iff)

lemma claimable_ride_row:
  assumes d: "distinct (map r_id t)"
  shows "find (claimable_ride i) t = Some r \<longleftrightarrow> row r_id t i = Some r \<and> r_status r = Requested \<and> r_driverId r = None"
proof
  assume "find (claimable_ride i) t = Some r"
  then show "row r_id t i = Some r \<and> r_status r = Requested \<and> r_driverId r = None"
    using row_mem [OF d, of r] claimable_ride_find [of i t r] by (simp add: claimable_ride_def)
next
  assume r: "row r_id t i = Some r \<and> r_status r = Requested \<and> r_driverId r = None"
  then have "r \<in> set t" "claimable_ride i r"
    using row_SomeD [of r_id t i r] by (simp_all add: claimable_ride_def)
  then obtain r' where r': "find (claimable_ride i) t = Some r'"
    by (cases "find (claimable_ride i) t") (auto simp: find_None_iff)
  then have "r' = r"
    using r row_mem [OF d, of r'] claimable_ride_find [OF r'] by (simp add: claimable_ride_def)
  with r' show "find (claimable_ride i) t = Some r" by simp
qed

lemma claimSoloRow_effect:
  assumes "claimSoloRow i d g now s = Inr (r', s')" "distinct (map r_id (rides s))"
  obtains r where "ride_row s i = Some r" "r_status r = Requested" "r_driverId r = None" "r' = bind_ride d g now r"
    "s' = s\<lparr>rides := upd (claimable_ride i) (bind_ride d g now) (rides s)\<rparr>"
    "trip_driver s' = (trip_driver s)(Solo i \<mapsto> d)" "disp s' = (disp s)(Solo i := None)"
proof -
  from assms obtain r where r: "ride_row s i = Some r" "r_status r = Requested" "r_driverId r = None"
      "r' = bind_ride d g now r" "s' = s\<lparr>rides := upd (claimable_ride i) (bind_ride d g now) (rides s)\<rparr>"
    by (auto simp: claimSoloRow_def claimable_ride_row split: option.splits)
  have c: "claimable_ride i r" using r(1-3) row_key [OF r(1)] by (simp add: claimable_ride_def)
  have "trip_driver s' = (trip_driver s)(Solo i := solo_driver (bind_ride d g now r))"
    by (rule trip_driver_ride [where P = "claimable_ride i"]) (simp_all add: r c, simp add: claimable_ride_def)
  moreover have "disp s' = (disp s)(Solo i := solo_disp (bind_ride d g now r))"
    by (rule disp_ride [where P = "claimable_ride i"]) (simp_all add: r c, simp add: claimable_ride_def)
  ultimately show ?thesis using r that by (simp add: solo_driver_def solo_disp_def)
qed

lemma claimable_at_row:
  assumes "distinct (map p_rideId t)"
  shows "list_ex (claimable_at i g) t \<longleftrightarrow>
     (\<exists>p. row p_rideId t i = Some p \<and> p_claimedByDriverId p = None \<and> claimable_pool (p_poolState p)
        \<and> p_dispatchGeneration p = g)"
proof
  assume "list_ex (claimable_at i g) t"
  then obtain p where "p \<in> set t" "claimable_at i g p" by (auto simp: list_ex_iff)
  then show "\<exists>p. row p_rideId t i = Some p \<and> p_claimedByDriverId p = None \<and> claimable_pool (p_poolState p)
      \<and> p_dispatchGeneration p = g"
    using row_mem [OF assms, of p] by (auto simp: claimable_at_def)
next
  assume "\<exists>p. row p_rideId t i = Some p \<and> p_claimedByDriverId p = None \<and> claimable_pool (p_poolState p)
      \<and> p_dispatchGeneration p = g"
  then show "list_ex (claimable_at i g) t"
    by (auto simp: list_ex_iff claimable_at_def dest!: row_SomeD)
qed

lemma claimSharedRow_effect:
  assumes "claimSharedRow i d g now s = Inr (u, s')" "distinct (map p_rideId (shared_rides s))"
  obtains p where "pool_row s i = Some p" "p_claimedByDriverId p = None" "claimable_pool (p_poolState p)"
    "p_dispatchGeneration p = g"
    "s' = update_pools (claimable_at i g)
       (\<lambda>p. p\<lparr>p_claimedByDriverId := Some d, p_claimedAt := Some now, p_updatedAt := now\<rparr>) now s"
    "trip_driver s' = (trip_driver s)(Shared i \<mapsto> d)" "disp s' = (disp s)(Shared i := None)"
proof -
  let ?f = "\<lambda>p. p\<lparr>p_claimedByDriverId := Some d, p_claimedAt := Some now, p_updatedAt := now\<rparr>"
  from assms obtain p where p: "pool_row s i = Some p" "p_claimedByDriverId p = None" "claimable_pool (p_poolState p)"
      "p_dispatchGeneration p = g" "s' = update_pools (claimable_at i g) ?f now s"
    by (auto simp: claimSharedRow_def claimable_at_row split: if_splits)
  have c: "claimable_at i g p" using p row_key [OF p(1)] by (simp add: claimable_at_def)
  have "trip_driver s' = (trip_driver s)(Shared i := pool_driver (bump ?f p))"
    by (rule trip_driver_pool [where P = "claimable_at i g"]) (simp_all add: p c, simp add: claimable_at_def)
  moreover have "disp s' = (disp s)(Shared i := pool_disp (bump ?f p))"
    by (rule disp_pool [where P = "claimable_at i g"]) (simp_all add: p c, simp add: claimable_at_def)
  ultimately show ?thesis using p that by (cases "p_poolState p") (simp_all add: pool_driver_def pool_disp_def)
qed

lemma abortUnclaimedPool_effect:
  assumes "distinct (map p_rideId (shared_rides s))" "fst (abortUnclaimedPool i g now s)"
  shows "trip_driver (snd (abortUnclaimedPool i g now s)) = (trip_driver s)(Shared i := None)"
    and "disp (snd (abortUnclaimedPool i g now s)) = (disp s)(Shared i := None)"
    and "disp s (Shared i) = Some g" and "trip_driver s (Shared i) = None"
proof -
  let ?f = "\<lambda>p. p\<lparr>p_poolState := PoolAborted, p_updatedAt := now\<rparr>" and ?s' = "snd (abortUnclaimedPool i g now s)"
  from assms obtain p where p: "pool_row s i = Some p" "p_claimedByDriverId p = None" "claimable_pool (p_poolState p)"
      "p_dispatchGeneration p = g"
    by (auto simp: abortUnclaimedPool_def claimable_at_row)
  have c: "claimable_at i g p" using p row_key [OF p(1)] by (simp add: claimable_at_def)
  have "trip_driver ?s' = (trip_driver s)(Shared i := pool_driver (bump ?f p))"
    by (rule trip_driver_pool [where P = "claimable_at i g"])
      (simp_all add: abortUnclaimedPool_def p c, simp add: claimable_at_def)
  moreover have "disp ?s' = (disp s)(Shared i := pool_disp (bump ?f p))"
    by (rule disp_pool [where P = "claimable_at i g"])
      (simp_all add: abortUnclaimedPool_def p c, simp add: claimable_at_def)
  ultimately show "trip_driver ?s' = (trip_driver s)(Shared i := None)" "disp ?s' = (disp s)(Shared i := None)"
    by (simp_all add: pool_driver_def pool_disp_def)
  show "disp s (Shared i) = Some g" "trip_driver s (Shared i) = None"
    using p by (simp_all add: pool_disp_def pool_driver_def)
qed

lemma abortUnclaimedPool_no:
  "\<not> fst (abortUnclaimedPool i g now s) \<Longrightarrow>
   trip_driver (snd (abortUnclaimedPool i g now s)) = trip_driver s
   \<and> disp (snd (abortUnclaimedPool i g now s)) = disp s
   \<and> shared_rides (snd (abortUnclaimedPool i g now s)) = shared_rides s"
proof -
  assume "\<not> fst (abortUnclaimedPool i g now s)"
  then have *: "shared_rides (snd (abortUnclaimedPool i g now s)) = shared_rides s"
    by (auto simp: abortUnclaimedPool_def list_ex_iff intro: upd_id)
  moreover have "rides (snd (abortUnclaimedPool i g now s)) = rides s"
    by (simp add: abortUnclaimedPool_def)
  ultimately show ?thesis by (metis trip_driver_cong disp_cong)
qed

end
