(* ===== verification/Offers.thy ===== *)
theory Offers
  imports Assignments
begin

text \<open>
  \<open>DispatchOfferRepository\<close> (offer.repository.ts): the authoritative \<open>dispatch_offer\<close> table. \<open>ct\<close>
  is \<open>clock_timestamp()\<close>, \<open>now\<close> the transaction's \<open>now()\<close>, \<open>locked\<close> the rows another transaction
  holds (\<open>SKIP LOCKED\<close>), \<open>oid\<close> the id \<open>gen_random_uuid()\<close> returns.
\<close>

section \<open>Operations\<close>

definition lapsed :: "instant \<Rightarrow> offer \<Rightarrow> bool" where
  "lapsed ct ofr \<longleftrightarrow> o_expiresAt ofr \<le> ct"

definition resolve :: "offer_state \<Rightarrow> instant \<Rightarrow> offer \<Rightarrow> offer" where
  "resolve st ct ofr = ofr\<lparr>o_state := st, o_resolvedAt := Some ct\<rparr>"

definition dispatchable :: "db \<Rightarrow> trip_ref \<Rightarrow> int \<Rightarrow> bool" where
  "dispatchable s t g =
     (case t of
        Solo i \<Rightarrow> list_ex (\<lambda>r. r_id r = i \<and> r_status r = Requested \<and> r_driverId r = None
                              \<and> r_dispatchGeneration r = g) (rides s)
      | Shared i \<Rightarrow> list_ex (\<lambda>p. p_rideId p = i \<and> claimable_pool (p_poolState p)
                              \<and> p_claimedByDriverId p = None \<and> p_dispatchGeneration p = g) (shared_rides s))"

definition insert_offer :: "offer \<Rightarrow> (db, bool) tx" where
  "insert_offer n s =
     (if o_generation n < 1 then Inl (Check_violation ''dispatch_offer_generation_check'')
      else if o_waveNumber n < 1 then Inl (Check_violation ''dispatch_offer_wave_check'')
      else if o_expiresAt n \<le> o_offeredAt n then Inl (Check_violation ''dispatch_offer_expiry_check'')
      else if list_ex (\<lambda>x. o_id x = o_id n
                 \<or> o_trip x = o_trip n \<and> o_generation x = o_generation n \<and> o_driverId x = o_driverId n
                 \<or> is_live x \<and> is_live n \<and> o_driverId x = o_driverId n) (offers s) then Inr (False, s)
      else if o_driverId n \<notin> set (drivers s) then Inl (Foreign_key_violation ''dispatch_offer_driver_id_fkey'')
      else Inr (True, s\<lparr>offers := offers s @ [n]\<rparr>))"

definition expire_own_lapsed :: "uuid \<Rightarrow> uuid set \<Rightarrow> instant \<Rightarrow> db \<Rightarrow> db" where
  "expire_own_lapsed d locked ct s =
     s\<lparr>offers := upd (\<lambda>x. o_driverId x = d \<and> is_live x \<and> lapsed ct x \<and> o_id x \<notin> locked)
                 (resolve OfferExpired ct) (offers s)\<rparr>"

definition new_offer :: "trip_ref \<Rightarrow> uuid \<Rightarrow> int \<Rightarrow> int \<Rightarrow> real \<Rightarrow> uuid \<Rightarrow> instant \<Rightarrow> offer" where
  "new_offer t d g w ttlMs oid now =
     \<lparr>o_id = oid, o_trip = t, o_driverId = d, o_generation = g, o_waveNumber = w, o_state = Offered,
      o_offeredAt = now, o_expiresAt = now + max 1 (jsRound ttlMs), o_resolvedAt = None\<rparr>"

definition createOffer ::
  "trip_ref \<Rightarrow> uuid \<Rightarrow> int \<Rightarrow> int \<Rightarrow> real \<Rightarrow> uuid set \<Rightarrow> uuid \<Rightarrow> instant \<Rightarrow> instant \<Rightarrow> (db, (uuid \<times> instant) option) tx" where
  "createOffer t d g w ttlMs locked oid now ct s =
     (if \<not> dispatchable s t g then Inr (None, s)
      else let n = new_offer t d g w ttlMs oid now in
        (case insert_offer n (expire_own_lapsed d locked ct s) of
           Inl e \<Rightarrow> Inl e
         | Inr (inserted, s') \<Rightarrow> Inr (if inserted then Some (oid, o_expiresAt n) else None, s')))"

definition findForDriver :: "db \<Rightarrow> uuid \<Rightarrow> uuid \<Rightarrow> offer option" where
  "findForDriver s i d =
     (if \<not> isUuid i \<or> \<not> isUuid d then None else find (\<lambda>x. o_id x = i \<and> o_driverId x = d) (offers s))"

definition lockForUpdate :: "db \<Rightarrow> uuid \<Rightarrow> offer option" where
  "lockForUpdate s i = (if \<not> isUuid i then None else offer_row s i)"

definition resolveLive :: "uuid \<Rightarrow> offer_state \<Rightarrow> instant \<Rightarrow> db \<Rightarrow> bool \<times> db" where
  "resolveLive i st ct s =
     (list_ex (\<lambda>x. o_id x = i \<and> is_live x) (offers s),
      s\<lparr>offers := upd (\<lambda>x. o_id x = i \<and> is_live x) (resolve st ct) (offers s)\<rparr>)"

text \<open>
  \<open>markAccepted\<close> meets the partial unique index: one accepted offer per trip and generation.
\<close>

definition accept_conflict :: "uuid \<Rightarrow> db \<Rightarrow> bool" where
  "accept_conflict i s \<longleftrightarrow>
     list_ex (\<lambda>x. o_id x = i \<and> is_live x
       \<and> list_ex (\<lambda>y. o_state y = OfferAccepted \<and> o_trip y = o_trip x \<and> o_generation y = o_generation x) (offers s))
       (offers s)"

definition markAccepted :: "uuid \<Rightarrow> instant \<Rightarrow> (db, unit) tx" where
  "markAccepted i ct s =
     (if accept_conflict i s then Inl (Unique_violation ''dispatch_offer_one_accept_uq'')
      else let (ok, s') = resolveLive i OfferAccepted ct s
      in if ok then Inr ((), s') else Inl (App_error ''dispatch_offer is not live; cannot accept''))"

datatype decline_result = Declined | DeclineNotLive | DeclineNotFound

definition decline :: "uuid \<Rightarrow> uuid \<Rightarrow> instant \<Rightarrow> db \<Rightarrow> decline_result \<times> db" where
  "decline i d ct s =
     (if \<not> isUuid i \<or> \<not> isUuid d then (DeclineNotFound, s)
      else let own = (\<lambda>x. o_id x = i \<and> o_driverId x = d);
               s' = s\<lparr>offers := upd (\<lambda>x. own x \<and> is_live x) (resolve OfferDeclined ct) (offers s)\<rparr>
           in (if list_ex (\<lambda>x. own x \<and> is_live x) (offers s) then Declined
               else if list_ex own (offers s) then DeclineNotLive else DeclineNotFound, s'))"

definition live_for :: "trip_ref \<Rightarrow> uuid option \<Rightarrow> offer \<Rightarrow> bool" where
  "live_for t ex x \<longleftrightarrow> o_trip x = t \<and> is_live x \<and> ex \<noteq> Some (o_id x)"

definition revokeLiveForTrip :: "trip_ref \<Rightarrow> uuid option \<Rightarrow> instant \<Rightarrow> db \<Rightarrow> (uuid \<times> uuid) list \<times> db" where
  "revokeLiveForTrip t ex ct s =
     (map (\<lambda>x. (o_id x, o_driverId x)) (filter (live_for t ex) (offers s)),
      s\<lparr>offers := upd (live_for t ex) (resolve OfferRevoked ct) (offers s)\<rparr>)"

definition expireLapsed :: "uuid set \<Rightarrow> instant \<Rightarrow> db \<Rightarrow> nat \<times> db" where
  "expireLapsed locked ct s =
     (let P = (\<lambda>x. is_live x \<and> lapsed ct x \<and> o_id x \<notin> locked)
      in (length (filter P (offers s)), s\<lparr>offers := upd P (resolve OfferExpired ct) (offers s)\<rparr>))"

definition offeredDriverIds :: "db \<Rightarrow> trip_ref \<Rightarrow> int \<Rightarrow> uuid list" where
  "offeredDriverIds s t g = map o_driverId (filter (\<lambda>x. o_trip x = t \<and> o_generation x = g) (offers s))"

text \<open>\<open>[...new Set(xs)]\<close> keeps the first occurrence of each element, in order.\<close>

fun first_occurrences :: "'a list \<Rightarrow> 'a list" where
  "first_occurrences [] = []"
| "first_occurrences (x # xs) = x # filter (\<lambda>y. y \<noteq> x) (first_occurrences xs)"

definition candidate_ok :: "db \<Rightarrow> int \<Rightarrow> instant \<Rightarrow> uuid \<Rightarrow> bool" where
  "candidate_ok s seatsNeeded ct d \<longleftrightarrow>
     list_ex (\<lambda>u. u_id u = d \<and> u_status u = UserActive \<and> u_role u = RoleDriver) (users s)
     \<and> d \<in> set (drivers s)
     \<and> \<not> list_ex (\<lambda>a. a_driverId a = d) (assignments s)
     \<and> \<not> list_ex (\<lambda>x. o_driverId x = d \<and> is_live x \<and> \<not> lapsed ct x) (offers s)
     \<and> list_ex (\<lambda>v. v_driverId v = d \<and> v_active v \<and> seatsNeeded \<le> v_seats v) (vehicles s)"

definition eligibleCandidates :: "db \<Rightarrow> uuid list \<Rightarrow> int \<Rightarrow> instant \<Rightarrow> uuid list" where
  "eligibleCandidates s candidateIds seatsNeeded ct =
     filter (candidate_ok s seatsNeeded ct) (first_occurrences (filter isUuid candidateIds))"

section \<open>The offer table's invariant\<close>

text \<open>
  Unique ids, one live offer per driver, positive generations, an end after the start, a resolution
  instant exactly on resolved offers; and every live offer is for a trip that is dispatchable at
  the offer's generation.
\<close>

definition offer_keys :: "db \<Rightarrow> bool" where
  "offer_keys s \<longleftrightarrow>
     distinct (map o_id (offers s)) \<and> distinct (map o_driverId (filter is_live (offers s)))
     \<and> (\<forall>x \<in> set (offers s). 1 \<le> o_generation x \<and> o_offeredAt x < o_expiresAt x
          \<and> (is_live x \<longleftrightarrow> o_resolvedAt x = None))"

definition live_current :: "db \<Rightarrow> bool" where
  "live_current s \<longleftrightarrow> (\<forall>x \<in> set (offers s). is_live x \<longrightarrow> disp s (o_trip x) = Some (o_generation x))"

lemma resolve_sel [simp]:
  "o_id (resolve st ct x) = o_id x" "o_driverId (resolve st ct x) = o_driverId x"
  "o_trip (resolve st ct x) = o_trip x" "o_generation (resolve st ct x) = o_generation x"
  "o_state (resolve st ct x) = st" "o_resolvedAt (resolve st ct x) = Some ct"
  "o_offeredAt (resolve st ct x) = o_offeredAt x" "o_expiresAt (resolve st ct x) = o_expiresAt x"
  by (simp_all add: resolve_def)

lemma is_live_resolve [simp]: "is_live (resolve st ct x) \<longleftrightarrow> st = Offered"
  by (simp add: is_live_def)

lemma live_upd_resolve:
  "st \<noteq> Offered \<Longrightarrow> filter is_live (upd P (resolve st ct) t) = filter (\<lambda>x. is_live x \<and> \<not> P x) t"
  by (induction t) auto

lemma offer_keys_resolve:
  assumes "offer_keys s" "st \<noteq> Offered" "offers s' = upd P (resolve st ct) (offers s)" "\<And>x. P x \<Longrightarrow> is_live x"
  shows "offer_keys s'"
proof -
  have "distinct (map o_driverId (filter (\<lambda>x. is_live x \<and> \<not> P x) (offers s)))"
    using assms(1) distinct_map_filter [of o_driverId "filter is_live (offers s)" "\<lambda>x. \<not> P x"]
    by (simp add: offer_keys_def conj_commute)
  with assms show ?thesis
    by (auto simp: offer_keys_def live_upd_resolve set_upd map_key_upd)
qed

lemma live_current_resolve:
  "live_current s \<Longrightarrow> st \<noteq> Offered \<Longrightarrow> offers s' = upd P (resolve st ct) (offers s) \<Longrightarrow> disp s' = disp s \<Longrightarrow> live_current s'"
  by (auto simp: live_current_def set_upd split: if_splits)

text \<open>When a trip's live offers are all resolved, its generation may change.\<close>

lemma live_current_revoke:
  assumes "live_current s" "st \<noteq> Offered" "offers s' = upd P (resolve st ct) (offers s)" "disp s' = (disp s)(t := g)"
    and "\<And>x. x \<in> set (offers s) \<Longrightarrow> is_live x \<Longrightarrow> o_trip x = t \<Longrightarrow> P x"
  shows "live_current s'"
  unfolding live_current_def
proof (intro ballI impI)
  fix x assume "x \<in> set (offers s')" and live: "is_live x"
  then obtain r where "r \<in> set (offers s)" "x = (if P r then resolve st ct r else r)"
    using assms(3) by (auto simp: set_upd)
  moreover from this live assms(2) have "\<not> P r" by auto
  ultimately show "disp s' (o_trip x) = Some (o_generation x)"
    using assms live by (auto simp: live_current_def)
qed

lemma offer_keys_cong: "offers s' = offers s \<Longrightarrow> offer_keys s' = offer_keys s"
  by (simp add: offer_keys_def)

lemma live_current_cong: "offers s' = offers s \<Longrightarrow> disp s' = disp s \<Longrightarrow> live_current s' = live_current s"
  by (simp add: live_current_def)

lemma revoke_sel [simp]:
  "offers (snd (revokeLiveForTrip t ex ct s)) = upd (live_for t ex) (resolve OfferRevoked ct) (offers s)"
  "rides (snd (revokeLiveForTrip t ex ct s)) = rides s"
  "shared_rides (snd (revokeLiveForTrip t ex ct s)) = shared_rides s"
  "assignments (snd (revokeLiveForTrip t ex ct s)) = assignments s"
  "outbox (snd (revokeLiveForTrip t ex ct s)) = outbox s"
  "pool_members (snd (revokeLiveForTrip t ex ct s)) = pool_members s"
  "ride_stops (snd (revokeLiveForTrip t ex ct s)) = ride_stops s"
  "users (snd (revokeLiveForTrip t ex ct s)) = users s" "drivers (snd (revokeLiveForTrip t ex ct s)) = drivers s"
  "vehicles (snd (revokeLiveForTrip t ex ct s)) = vehicles s" "idem (snd (revokeLiveForTrip t ex ct s)) = idem s"
  by (simp_all add: revokeLiveForTrip_def)

lemma resolveLive_sel [simp]:
  "offers (snd (resolveLive i st ct s)) = upd (\<lambda>x. o_id x = i \<and> is_live x) (resolve st ct) (offers s)"
  "rides (snd (resolveLive i st ct s)) = rides s" "shared_rides (snd (resolveLive i st ct s)) = shared_rides s"
  "assignments (snd (resolveLive i st ct s)) = assignments s" "outbox (snd (resolveLive i st ct s)) = outbox s"
  "pool_members (snd (resolveLive i st ct s)) = pool_members s" "ride_stops (snd (resolveLive i st ct s)) = ride_stops s"
  "users (snd (resolveLive i st ct s)) = users s" "drivers (snd (resolveLive i st ct s)) = drivers s"
  "vehicles (snd (resolveLive i st ct s)) = vehicles s" "idem (snd (resolveLive i st ct s)) = idem s"
  by (simp_all add: resolveLive_def)

section \<open>Effects\<close>

lemma dispatchable_disp:
  assumes "distinct (map r_id (rides s))" "distinct (map p_rideId (shared_rides s))"
  shows "dispatchable s t g \<longleftrightarrow> disp s t = Some g"
proof (cases t)
  case (Solo i)
  have "list_ex (\<lambda>r. r_id r = i \<and> r_status r = Requested \<and> r_driverId r = None \<and> r_dispatchGeneration r = g) (rides s)
      \<longleftrightarrow> (\<exists>r. ride_row s i = Some r \<and> solo_disp r = Some g)"
    using row_mem [OF assms(1)] by (auto simp: list_ex_iff solo_disp_def dest!: row_SomeD split: if_splits)
  with Solo show ?thesis by (auto simp: dispatchable_def bind_eq_Some_conv)
next
  case (Shared i)
  have "list_ex (\<lambda>p. p_rideId p = i \<and> claimable_pool (p_poolState p) \<and> p_claimedByDriverId p = None
        \<and> p_dispatchGeneration p = g) (shared_rides s)
      \<longleftrightarrow> (\<exists>p. pool_row s i = Some p \<and> pool_disp p = Some g)"
    using row_mem [OF assms(2)] by (auto simp: list_ex_iff pool_disp_def dest!: row_SomeD split: if_splits)
  with Shared show ?thesis by (auto simp: dispatchable_def bind_eq_Some_conv)
qed

lemma insert_offer_cases:
  assumes "insert_offer n s = Inr (b, s')"
  obtains (conflict) "b = False" "s' = s"
  | (new) "b = True" "s' = s\<lparr>offers := offers s @ [n]\<rparr>" "1 \<le> o_generation n" "o_offeredAt n < o_expiresAt n"
      "o_id n \<notin> o_id ` set (offers s)" "o_driverId n \<in> set (drivers s)"
      "is_live n \<Longrightarrow> o_driverId n \<notin> o_driverId ` set (filter is_live (offers s))"
proof (cases b)
  case False
  with assms conflict show thesis by (auto simp: insert_offer_def split: if_splits)
next
  case True
  with assms show thesis
    by (intro new) (auto simp: insert_offer_def list_ex_iff split: if_splits)
qed

lemma createOffer_ok:
  assumes "createOffer t d g w ttlMs locked oid now ct s = Inr (res, s')"
    and keys: "offer_keys s" and cur: "live_current s"
    and d: "distinct (map r_id (rides s))" "distinct (map p_rideId (shared_rides s))"
  shows "offer_keys s' \<and> live_current s' \<and> s' = s\<lparr>offers := offers s'\<rparr>"
proof (cases "dispatchable s t g")
  case False
  with assms show ?thesis by (simp add: createOffer_def)
next
  case True
  let ?e = "expire_own_lapsed d locked ct s" and ?n = "new_offer t d g w ttlMs oid now"
  have oe: "offers ?e = upd (\<lambda>x. o_driverId x = d \<and> is_live x \<and> lapsed ct x \<and> o_id x \<notin> locked)
      (resolve OfferExpired ct) (offers s)"
    by (simp add: expire_own_lapsed_def)
  have e: "offer_keys ?e"
    by (rule offer_keys_resolve [OF keys _ oe]) auto
  have ed: "disp ?e = disp s" by (rule disp_cong) (simp_all add: expire_own_lapsed_def)
  have ec: "live_current ?e"
    by (rule live_current_resolve [OF cur _ oe ed]) simp
  from True assms(1) obtain b where ins: "insert_offer ?n ?e = Inr (b, s')"
    by (auto simp: createOffer_def Let_def split: sum.splits)
  then show ?thesis
  proof (cases rule: insert_offer_cases)
    case conflict
    with e ec show ?thesis by (simp add: expire_own_lapsed_def)
  next
    case new
    have "disp s' = disp s" by (rule disp_cong) (simp_all add: new(2) expire_own_lapsed_def)
    moreover have "disp s t = Some g" using True d by (simp add: dispatchable_disp)
    ultimately have "live_current s'"
      using ec ed by (auto simp: live_current_def new(2) new_offer_def)
    moreover have "offer_keys s'"
      using e new(3-5,7) by (auto simp: offer_keys_def new(2)) (auto simp: new_offer_def is_live_def)
    ultimately show ?thesis by (simp add: new(2) expire_own_lapsed_def)
  qed
qed

text \<open>An operation that only resolves live offers keeps the table's invariant.\<close>

lemma resolve_only_ok:
  assumes "offer_keys s" "live_current s" "st \<noteq> Offered" "s' = s\<lparr>offers := upd P (resolve st ct) (offers s)\<rparr>"
    and "\<And>x. P x \<Longrightarrow> is_live x"
  shows "offer_keys s' \<and> live_current s' \<and> s' = s\<lparr>offers := offers s'\<rparr>"
proof -
  have "disp s' = disp s" by (rule disp_cong) (simp_all add: assms(4))
  moreover have "offers s' = upd P (resolve st ct) (offers s)" by (simp add: assms(4))
  ultimately show ?thesis
    using assms offer_keys_resolve [of s st s' P ct] live_current_resolve [of s st s' P ct] by simp
qed

lemma decline_ok:
  assumes "offer_keys s" "live_current s"
  shows "offer_keys (snd (decline i d ct s)) \<and> live_current (snd (decline i d ct s))
   \<and> snd (decline i d ct s) = s\<lparr>offers := offers (snd (decline i d ct s))\<rparr>"
proof (cases "isUuid i \<and> isUuid d")
  case True
  then have "snd (decline i d ct s) = s\<lparr>offers := upd (\<lambda>x. (o_id x = i \<and> o_driverId x = d) \<and> is_live x)
      (resolve OfferDeclined ct) (offers s)\<rparr>"
    by (simp add: decline_def Let_def)
  then show ?thesis by (rule resolve_only_ok [OF assms, rotated]) auto
qed (use assms in \<open>auto simp: decline_def\<close>)

lemma expireLapsed_ok:
  assumes "offer_keys s" "live_current s"
  shows "offer_keys (snd (expireLapsed locked ct s)) \<and> live_current (snd (expireLapsed locked ct s))
   \<and> snd (expireLapsed locked ct s) = s\<lparr>offers := offers (snd (expireLapsed locked ct s))\<rparr>"
proof -
  have "snd (expireLapsed locked ct s) = s\<lparr>offers := upd (\<lambda>x. is_live x \<and> lapsed ct x \<and> o_id x \<notin> locked)
      (resolve OfferExpired ct) (offers s)\<rparr>"
    by (simp add: expireLapsed_def Let_def)
  then show ?thesis by (rule resolve_only_ok [OF assms, rotated]) auto
qed

lemma revoke_keys: "offer_keys s \<Longrightarrow> offer_keys (snd (revokeLiveForTrip t ex ct s))"
  by (rule offer_keys_resolve [OF _ _ revoke_sel(1)]) (auto simp: live_for_def)

lemma set_first_occurrences [simp]: "set (first_occurrences xs) = set xs"
  by (induction xs) auto

lemma distinct_first_occurrences [simp]: "distinct (first_occurrences xs)"
  by (induction xs) auto

end
