(* ===== verification/Dispatch_Spec.thy ===== *)
theory Dispatch_Spec
  imports Offers
begin

text \<open>
  What dispatch promises, apart from how the tables hold it. The abstract state says who drives
  each trip, at which generation each trip can be offered, and which offers are live; the steps
  are the only ways it may change. \<open>core_ok\<close> is the coupling with the database: the exclusivity
  table and the trip tables agree, and every live offer is current. The component theories prove
  that each transaction keeps \<open>core_ok\<close> and refines abstract steps.
\<close>

section \<open>Abstract machine\<close>

record dispatch_state =
  holder :: "trip_ref \<Rightarrow> uuid option"
  current :: "trip_ref \<Rightarrow> int option"
  live :: "(uuid \<times> uuid \<times> trip_ref \<times> int) set" \<comment> \<open>offer, driver, trip, generation\<close>

definition of_trip :: "trip_ref \<Rightarrow> (uuid \<times> uuid \<times> trip_ref \<times> int) set" where
  "of_trip t = {l. fst (snd (snd l)) = t}"

inductive spec_step :: "dispatch_state \<Rightarrow> dispatch_state \<Rightarrow> bool" where
  spec_open: "holder d t = None \<Longrightarrow> current d t = None \<Longrightarrow>
     spec_step d (d\<lparr>current := (current d)(t \<mapsto> g)\<rparr>)"
| spec_offer: "current d t = Some g \<Longrightarrow> \<forall>l \<in> live d. fst (snd l) \<noteq> dr \<Longrightarrow>
     spec_step d (d\<lparr>live := insert (oid, dr, t, g) (live d)\<rparr>)"
| spec_drop: "L \<subseteq> live d \<Longrightarrow> spec_step d (d\<lparr>live := L\<rparr>)"
| spec_advance: "current d t = Some g \<Longrightarrow> g < h \<Longrightarrow> L \<subseteq> live d - of_trip t \<Longrightarrow>
     spec_step d (d\<lparr>current := (current d)(t \<mapsto> h), live := L\<rparr>)"
| spec_claim: "current d t = Some g \<Longrightarrow> dr \<notin> ran (holder d) \<Longrightarrow> L \<subseteq> live d - of_trip t \<Longrightarrow>
     spec_step d (d\<lparr>holder := (holder d)(t \<mapsto> dr), current := (current d)(t := None), live := L\<rparr>)"
| spec_finish: "L \<subseteq> live d - of_trip t \<Longrightarrow>
     spec_step d (d\<lparr>holder := (holder d)(t := None), current := (current d)(t := None), live := L\<rparr>)"

inductive_cases spec_stepE: "spec_step d d'"

definition spec_init :: "dispatch_state \<Rightarrow> bool" where
  "spec_init d \<longleftrightarrow> (\<forall>t. holder d t = None) \<and> (\<forall>t. current d t = None) \<and> live d = {}"

definition driver_unique :: "(uuid \<times> uuid \<times> trip_ref \<times> int) set \<Rightarrow> bool" where
  "driver_unique L \<longleftrightarrow> (\<forall>l \<in> L. \<forall>m \<in> L. fst (snd l) = fst (snd m) \<longrightarrow> l = m)"

definition spec_ok :: "dispatch_state \<Rightarrow> bool" where
  "spec_ok d \<longleftrightarrow>
     (\<forall>t u dr. holder d t = Some dr \<longrightarrow> holder d u = Some dr \<longrightarrow> t = u)
     \<and> (\<forall>t. holder d t \<noteq> None \<longrightarrow> current d t = None)
     \<and> (\<forall>(oid, dr, t, g) \<in> live d. current d t = Some g)
     \<and> driver_unique (live d)"

lemma driver_unique_subset: "driver_unique M \<Longrightarrow> L \<subseteq> M \<Longrightarrow> driver_unique L"
  by (auto simp: driver_unique_def)

lemma driver_unique_minus: "driver_unique M \<Longrightarrow> L \<subseteq> M - N \<Longrightarrow> driver_unique L"
  by (erule driver_unique_subset) blast

lemma driver_unique_insert: "driver_unique M \<Longrightarrow> \<forall>l \<in> M. fst (snd l) \<noteq> fst (snd x) \<Longrightarrow> driver_unique (insert x M)"
  by (auto simp: driver_unique_def)

lemma spec_okI:
  assumes "\<And>t u dr. holder d t = Some dr \<Longrightarrow> holder d u = Some dr \<Longrightarrow> t = u"
    and "\<And>t dr. holder d t = Some dr \<Longrightarrow> current d t = None"
    and "\<And>oid dr t g. (oid, dr, t, g) \<in> live d \<Longrightarrow> current d t = Some g"
    and "driver_unique (live d)"
  shows "spec_ok d"
  using assms unfolding spec_ok_def by blast

lemma spec_okD:
  assumes "spec_ok d"
  shows "holder d t = Some dr \<Longrightarrow> holder d u = Some dr \<Longrightarrow> t = u"
    and "holder d t = Some dr \<Longrightarrow> current d t = None"
    and "(oid, dr, t, g) \<in> live d \<Longrightarrow> current d t = Some g"
    and "driver_unique (live d)"
  using assms unfolding spec_ok_def by (blast, blast, fast, blast)

lemma spec_step_ok: "spec_step d d' \<Longrightarrow> spec_ok d \<Longrightarrow> spec_ok d'"
proof (induction rule: spec_step.induct)
  case (spec_open d t g)
  note ok = spec_okD [OF spec_open(3)]
  show ?case by (rule spec_okI) (use spec_open ok in \<open>auto split: if_splits\<close>)
next
  case (spec_offer d t g dr oid)
  note ok = spec_okD [OF spec_offer(3)]
  show ?case by (rule spec_okI) (use spec_offer(1,2) ok in \<open>auto intro!: driver_unique_insert split: if_splits\<close>)
next
  case (spec_drop L d)
  note ok = spec_okD [OF spec_drop(2)]
  show ?case by (rule spec_okI) (use spec_drop(1) ok in \<open>auto dest: subsetD intro: driver_unique_subset\<close>)
next
  case (spec_advance d t g h L)
  note ok = spec_okD [OF spec_advance(4)]
  show ?case
    by (rule spec_okI) (use spec_advance(1-3) ok in \<open>auto simp: of_trip_def split: if_splits dest: subsetD intro: driver_unique_minus\<close>)
next
  case (spec_claim d t g dr L)
  note ok = spec_okD [OF spec_claim(4)]
  show ?case
    by (rule spec_okI) (use spec_claim(1-3) ok in \<open>auto simp: of_trip_def ran_def split: if_splits dest: subsetD intro: driver_unique_minus\<close>)
next
  case (spec_finish L d t)
  note ok = spec_okD [OF spec_finish(2)]
  show ?case
    by (rule spec_okI) (use spec_finish(1) ok in \<open>auto simp: of_trip_def split: if_splits dest: subsetD intro: driver_unique_minus\<close>)
qed

interpretation spec: transition_system spec_init spec_step spec_ok
proof unfold_locales
  show "spec_ok d" if "spec_init d" for d
    using that by (simp add: spec_init_def spec_ok_def driver_unique_def)
  show "spec_ok d'" if "spec_ok d" "spec_step d d'" for d d'
    using that by (blast intro: spec_step_ok)
qed

section \<open>Coupling\<close>

definition live_set :: "db \<Rightarrow> (uuid \<times> uuid \<times> trip_ref \<times> int) set" where
  "live_set s = (\<lambda>x. (o_id x, o_driverId x, o_trip x, o_generation x)) ` set (filter is_live (offers s))"

definition abs_dispatch :: "db \<Rightarrow> dispatch_state" where
  "abs_dispatch s = \<lparr>holder = trip_driver s, current = disp s, live = live_set s\<rparr>"

definition core_ok :: "db \<Rightarrow> bool" where
  "core_ok s \<longleftrightarrow>
     distinct (map r_id (rides s)) \<and> distinct (map p_rideId (shared_rides s))
     \<and> guard_keys s \<and> offer_keys s \<and> live_current s \<and> guard_of s = trip_driver s"

definition refines :: "db \<Rightarrow> db \<Rightarrow> bool" where
  "refines s s' \<longleftrightarrow> core_ok s' \<and> spec_step\<^sup>*\<^sup>* (abs_dispatch s) (abs_dispatch s')"

lemma abs_sel [simp]:
  "holder (abs_dispatch s) = trip_driver s" "current (abs_dispatch s) = disp s" "live (abs_dispatch s) = live_set s"
  by (simp_all add: abs_dispatch_def)

lemma live_set_iff:
  "(oid, dr, t, g) \<in> live_set s \<longleftrightarrow>
   (\<exists>x \<in> set (offers s). is_live x \<and> o_id x = oid \<and> o_driverId x = dr \<and> o_trip x = t \<and> o_generation x = g)"
  by (auto simp: live_set_def)

lemma live_current_set: "live_current s \<longleftrightarrow> (\<forall>(oid, dr, t, g) \<in> live_set s. disp s t = Some g)"
  by (auto simp: live_current_def live_set_def)

lemma live_set_cong: "offers s' = offers s \<Longrightarrow> live_set s' = live_set s"
  by (simp add: live_set_def)

text \<open>Revoking all of a trip's live offers empties its share of the live set.\<close>

lemma live_set_resolve:
  "offers s' = upd P (resolve st ct) (offers s) \<Longrightarrow> st \<noteq> Offered \<Longrightarrow> live_set s' \<subseteq> live_set s"
  by (auto simp: live_set_def live_upd_resolve)

lemma live_set_revoke: "live_set (snd (revokeLiveForTrip t None ct s)) = live_set s - of_trip t"
  by (auto simp: live_set_def live_upd_resolve live_for_def of_trip_def)

lemma no_live_offers: "core_ok s \<Longrightarrow> disp s t = None \<Longrightarrow> live_set s \<inter> of_trip t = {}"
  by (auto simp: core_ok_def live_current_set of_trip_def)

lemma core_disp_holder: "trip_driver s t = Some d \<Longrightarrow> core_ok s \<Longrightarrow> t \<in> a_trip ` set (assignments s)"
  unfolding core_ok_def by (metis guard_of_None option.distinct(1))

lemma live_current_mono: "live_current s \<Longrightarrow> live_set s' \<subseteq> live_set s \<Longrightarrow> disp s' = disp s \<Longrightarrow> live_current s'"
  unfolding live_current_set by fastforce

lemma live_current_changed:
  assumes "live_current s" "live_set s' \<subseteq> live_set s - of_trip t" "disp s' = (disp s)(t := v)"
  shows "live_current s'"
  unfolding live_current_set
proof clarify
  fix oid dr u g assume "(oid, dr, u, g) \<in> live_set s'"
  with assms(2) have "(oid, dr, u, g) \<in> live_set s" "u \<noteq> t" by (auto simp: of_trip_def)
  with assms(1,3) show "disp s' u = Some g" by (auto simp: live_current_set)
qed

text \<open>One rule per abstract step: what a transaction has to show of its effect on the views.\<close>

lemma refines_keep:
  assumes "core_ok s" "map r_id (rides s') = map r_id (rides s)" "map p_rideId (shared_rides s') = map p_rideId (shared_rides s)"
    and "trip_driver s' = trip_driver s" "disp s' = disp s" "assignments s' = assignments s"
    and "offer_keys s'" "live_set s' \<subseteq> live_set s"
  shows "refines s s'"
proof -
  have "core_ok s'"
    using assms guard_of_cong [of s' s] live_current_mono [of s s'] by (simp add: core_ok_def guard_keys_def)
  moreover have "abs_dispatch s' = (abs_dispatch s)\<lparr>live := live_set s'\<rparr>"
    using assms(4,5) by (simp add: abs_dispatch_def)
  then have "spec_step (abs_dispatch s) (abs_dispatch s')"
    using spec_drop [of "live_set s'" "abs_dispatch s"] assms(8) by simp
  ultimately show ?thesis by (simp add: refines_def)
qed

lemma refines_claim:
  assumes "core_ok s" "map r_id (rides s') = map r_id (rides s)" "map p_rideId (shared_rides s') = map p_rideId (shared_rides s)"
    and "disp s t = Some g" "trip_driver s' = (trip_driver s)(t \<mapsto> dr)" "disp s' = (disp s)(t := None)"
    and "guard_of s' = (guard_of s)(t \<mapsto> dr)" "guard_keys s'" "dr \<notin> ran (guard_of s)"
    and "offer_keys s'" "live_set s' \<subseteq> live_set s - of_trip t"
  shows "refines s s'"
proof -
  have "core_ok s'"
    using assms live_current_changed [of s s' t None] by (simp add: core_ok_def)
  moreover have "spec_step (abs_dispatch s) (abs_dispatch s')"
    using spec_claim [of "abs_dispatch s" t g dr "live_set s'"] assms by (simp add: abs_dispatch_def core_ok_def)
  ultimately show ?thesis by (simp add: refines_def)
qed

lemma refines_finish:
  assumes "core_ok s" "map r_id (rides s') = map r_id (rides s)" "map p_rideId (shared_rides s') = map p_rideId (shared_rides s)"
    and "trip_driver s' = (trip_driver s)(t := None)" "disp s' = (disp s)(t := None)"
    and "guard_of s' = (guard_of s)(t := None)" "guard_keys s'"
    and "offer_keys s'" "live_set s' \<subseteq> live_set s - of_trip t"
  shows "refines s s'"
proof -
  have "core_ok s'"
    using assms live_current_changed [of s s' t None] by (simp add: core_ok_def)
  moreover have "spec_step (abs_dispatch s) (abs_dispatch s')"
    using spec_finish [of "live_set s'" "abs_dispatch s" t] assms by (simp add: abs_dispatch_def)
  ultimately show ?thesis by (simp add: refines_def)
qed

lemma refines_advance:
  assumes "core_ok s" "map r_id (rides s') = map r_id (rides s)" "map p_rideId (shared_rides s') = map p_rideId (shared_rides s)"
    and "disp s t = Some g" "g < h" "trip_driver s' = trip_driver s" "disp s' = (disp s)(t \<mapsto> h)"
    and "assignments s' = assignments s" "offer_keys s'" "live_set s' \<subseteq> live_set s - of_trip t"
  shows "refines s s'"
proof -
  have "core_ok s'"
    using assms guard_of_cong [of s' s] live_current_changed [of s s' t "Some h"]
    by (simp add: core_ok_def guard_keys_def)
  moreover have "spec_step (abs_dispatch s) (abs_dispatch s')"
    using spec_advance [of "abs_dispatch s" t g h "live_set s'"] assms by (simp add: abs_dispatch_def)
  ultimately show ?thesis by (simp add: refines_def)
qed

lemma refines_open:
  assumes "core_ok s" "distinct (map r_id (rides s'))" "distinct (map p_rideId (shared_rides s'))"
    and "trip_driver s t = None" "disp s t = None" "trip_driver s' = trip_driver s" "disp s' = (disp s)(t \<mapsto> g)"
    and "assignments s' = assignments s" "offers s' = offers s"
  shows "refines s s'"
proof -
  have "core_ok s'"
    using assms guard_of_cong [of s' s] live_set_cong [of s' s] no_live_offers [OF assms(1,5)]
      live_current_changed [of s s' t "Some g"] offer_keys_cong [of s' s]
    by (simp add: core_ok_def guard_keys_def) blast
  moreover have "spec_step (abs_dispatch s) (abs_dispatch s')"
    using spec_open [of "abs_dispatch s" t g] assms live_set_cong [of s' s] by (simp add: abs_dispatch_def)
  ultimately show ?thesis by (simp add: refines_def)
qed

lemma refines_same:
  assumes "core_ok s" "rides s' = rides s" "shared_rides s' = shared_rides s" "assignments s' = assignments s"
    and "offers s' = offers s"
  shows "refines s s'"
proof (rule refines_keep [OF assms(1)])
  show "trip_driver s' = trip_driver s" "disp s' = disp s"
    using assms by (auto intro: trip_driver_cong disp_cong)
  show "offer_keys s'" using assms(1) offer_keys_cong [OF assms(5)] by (simp add: core_ok_def)
  show "live_set s' \<subseteq> live_set s" using live_set_cong [OF assms(5)] by simp
qed (simp_all add: assms)

lemma refines_refl: "core_ok s \<Longrightarrow> refines s s"
  by (rule refines_same) simp_all

lemma refines_trans: "refines s t \<Longrightarrow> refines t u \<Longrightarrow> refines s u"
  unfolding refines_def by (meson rtranclp_trans)

lemma refinesD: "refines s s' \<Longrightarrow> core_ok s'"
  by (simp add: refines_def)

text \<open>The offer table's own operations.\<close>

lemma offers_only_refines:
  assumes "core_ok s" "offer_keys s'" "s' = s\<lparr>offers := os\<rparr>" "live_set s' \<subseteq> live_set s"
  shows "refines s s'"
proof (rule refines_keep [OF assms(1) _ _ _ _ _ assms(2,4)])
  show "trip_driver s' = trip_driver s" by (rule trip_driver_cong) (simp_all add: assms(3))
  show "disp s' = disp s" by (rule disp_cong) (simp_all add: assms(3))
qed (simp_all add: assms(3))

lemma resolve_refines:
  assumes "core_ok s" "st \<noteq> Offered" "s' = s\<lparr>offers := upd P (resolve st ct) (offers s)\<rparr>" "\<And>x. P x \<Longrightarrow> is_live x"
  shows "refines s s'"
proof (rule offers_only_refines [OF assms(1) _ assms(3)])
  have *: "offers s' = upd P (resolve st ct) (offers s)" by (simp add: assms(3))
  show "live_set s' \<subseteq> live_set s" by (rule live_set_resolve [OF * assms(2)])
  show "offer_keys s'" using assms(1) by (auto simp: core_ok_def intro: offer_keys_resolve [OF _ assms(2) * assms(4)])
qed

lemma decline_refines:
  assumes "core_ok s"
  shows "refines s (snd (decline i d ct s))"
proof (cases "isUuid i \<and> isUuid d")
  case True
  then have "snd (decline i d ct s) = s\<lparr>offers := upd (\<lambda>x. (o_id x = i \<and> o_driverId x = d) \<and> is_live x)
      (resolve OfferDeclined ct) (offers s)\<rparr>"
    by (simp add: decline_def Let_def)
  then show ?thesis by (rule resolve_refines [OF assms, rotated]) simp_all
qed (use assms in \<open>auto simp: decline_def intro: refines_refl\<close>)

lemma expireLapsed_refines:
  assumes "core_ok s"
  shows "refines s (snd (expireLapsed locked ct s))"
proof -
  have "snd (expireLapsed locked ct s) = s\<lparr>offers := upd (\<lambda>x. is_live x \<and> lapsed ct x \<and> o_id x \<notin> locked)
      (resolve OfferExpired ct) (offers s)\<rparr>"
    by (simp add: expireLapsed_def Let_def)
  then show ?thesis by (rule resolve_refines [OF assms, rotated]) simp_all
qed

lemma createOffer_refines:
  assumes "createOffer t d g w ttlMs locked oid now ct s = Inr (res, s')" "core_ok s"
  shows "refines s s'"
proof (cases "dispatchable s t g")
  case False
  with assms show ?thesis by (simp add: createOffer_def refines_refl)
next
  case True
  let ?e = "expire_own_lapsed d locked ct s" and ?n = "new_offer t d g w ttlMs oid now"
  have e: "refines s ?e"
    by (rule resolve_refines [OF assms(2) _ expire_own_lapsed_def]) auto
  from True assms(1) obtain b where ins: "insert_offer ?n ?e = Inr (b, s')"
    by (auto simp: createOffer_def Let_def split: sum.splits)
  then show ?thesis
  proof (cases rule: insert_offer_cases)
    case conflict
    with e show ?thesis by simp
  next
    case new
    have d: "disp ?e t = Some g"
      using True assms(2) disp_cong [of ?e s] by (simp add: dispatchable_disp core_ok_def expire_own_lapsed_def)
    have v: "trip_driver s' = trip_driver ?e" "disp s' = disp ?e" "guard_of s' = guard_of ?e"
      by (rule view_cong, simp_all add: new(2))+
    have "core_ok s'"
    proof -
      have "offer_keys s' \<and> live_current s'"
        using createOffer_ok [OF assms(1)] assms(2) by (simp add: core_ok_def)
      then show ?thesis
        using refinesD [OF e] v by (simp add: core_ok_def new(2) guard_keys_def)
    qed
    moreover have "spec_step (abs_dispatch ?e) (abs_dispatch s')"
    proof -
      have "is_live ?n" by (simp add: is_live_def new_offer_def)
      then have "live_set s' = insert (oid, d, t, g) (live_set ?e)" "\<forall>l \<in> live_set ?e. fst (snd l) \<noteq> d"
        using new(7) by (auto simp: live_set_def new(2) new_offer_def)
      then show ?thesis
        using spec_offer [of "abs_dispatch ?e" t g d oid] d v by (simp add: abs_dispatch_def)
    qed
    ultimately show ?thesis using e by (auto simp: refines_def)
  qed
qed

end
