(* ===== verification/Job_Ids.thy ===== *)
theory Job_Ids
  imports Schema
begin

text \<open>
  Names derived from ids: the outbox deduplication key (\<open>outbox.types.ts\<close>) and the BullMQ job
  ids (\<open>outbox.jobs.ts\<close>). Both are plain string templates, so what makes them keys is that they
  are injective on well-formed arguments.
\<close>

section \<open>Decimal rendering of integers\<close>

definition digit :: "nat \<Rightarrow> char" where
  "digit d = char_of (48 + d)"

fun show_nat :: "nat \<Rightarrow> string" where
  "show_nat n = (if n < 10 then [digit n] else show_nat (n div 10) @ [digit (n mod 10)])"

declare show_nat.simps [simp del]

definition show_int :: "int \<Rightarrow> string" where
  "show_int i = (if i < 0 then CHR ''-'' # show_nat (nat (- i)) else show_nat (nat i))"

definition read_nat :: "string \<Rightarrow> nat" where
  "read_nat cs = foldl (\<lambda>a c. 10 * a + (of_char c - 48)) 0 cs"

lemma of_char_digit [simp]: "d < 10 \<Longrightarrow> (of_char (digit d) :: nat) = 48 + d"
  by (simp add: digit_def)

lemma read_nat_append: "read_nat (cs @ [c]) = 10 * read_nat cs + (of_char c - 48)"
  by (simp add: read_nat_def)

lemma read_show_nat [simp]: "read_nat (show_nat n) = n"
proof (induction n rule: show_nat.induct)
  case (1 n)
  show ?case
  proof (cases "n < 10")
    case True
    then show ?thesis by (simp add: show_nat.simps [of n] read_nat_def)
  next
    case False
    with 1 have "read_nat (show_nat (n div 10)) = n div 10" by simp
    with False show ?thesis by (simp add: show_nat.simps [of n] read_nat_append)
  qed
qed

lemma show_nat_inject [simp]: "show_nat m = show_nat n \<longleftrightarrow> m = n"
  by (metis read_show_nat)

lemma show_nat_chars: "c \<in> set (show_nat n) \<Longrightarrow> 48 \<le> (of_char c :: nat) \<and> (of_char c :: nat) \<le> 57"
proof (induction n rule: show_nat.induct)
  case (1 n)
  show ?case
  proof (cases "n < 10")
    case True
    with "1.prems" show ?thesis by (simp add: show_nat.simps [of n])
  next
    case False
    have "n mod 10 < 10" by simp
    with False 1 show ?thesis by (auto simp: show_nat.simps [of n])
  qed
qed

lemma show_int_inject: "0 \<le> i \<Longrightarrow> 0 \<le> j \<Longrightarrow> show_int i = show_int j \<longleftrightarrow> i = j"
  by (auto simp: show_int_def)

lemma show_int_no_colon: "CHR '':'' \<notin> set (show_int i)"
  using show_nat_chars [of "CHR '':''"] by (auto simp: show_int_def)

section \<open>The outbox deduplication key\<close>

primrec topic_name :: "topic \<Rightarrow> string" where
  "topic_name RideDispatchRequested = ''ride.dispatch.requested''"
| "topic_name RideWakeSchedule = ''ride.wake.schedule''"
| "topic_name PoolDispatchRequested = ''pool.dispatch.requested''"
| "topic_name PoolExpireSchedule = ''pool.expire.schedule''"
| "topic_name (OtherTopic n) = n"

primrec known_topic :: "topic \<Rightarrow> bool" where
  "known_topic RideDispatchRequested = True"
| "known_topic RideWakeSchedule = True"
| "known_topic PoolDispatchRequested = True"
| "known_topic PoolExpireSchedule = True"
| "known_topic (OtherTopic n) = False"

definition outboxDedupeKey :: "topic \<Rightarrow> uuid \<Rightarrow> int \<Rightarrow> string" where
  "outboxDedupeKey t i g = topic_name t @ '':'' @ i @ '':g'' @ show_int g"

lemma split_at_sep:
  "c \<notin> set xs \<Longrightarrow> c \<notin> set ys \<Longrightarrow> xs @ c # us = ys @ c # vs \<Longrightarrow> xs = ys \<and> us = vs"
proof (induction xs arbitrary: ys)
  case Nil
  then show ?case by (cases ys) auto
next
  case (Cons x xs)
  then show ?case by (cases ys) auto
qed

lemma known_topic_no_colon: "known_topic t \<Longrightarrow> CHR '':'' \<notin> set (topic_name t)"
  by (cases t) auto

lemma topic_name_inject: "known_topic t \<Longrightarrow> known_topic u \<Longrightarrow> topic_name t = topic_name u \<Longrightarrow> t = u"
  by (cases t; cases u) auto

lemma outboxDedupeKey_inject:
  assumes "known_topic t" "known_topic u" "isUuid i" "isUuid j" "0 \<le> g" "0 \<le> h"
    and eq: "outboxDedupeKey t i g = outboxDedupeKey u j h"
  shows "t = u \<and> i = j \<and> g = h"
proof -
  have "topic_name t = topic_name u \<and> i @ CHR '':'' # ''g'' @ show_int g = j @ CHR '':'' # ''g'' @ show_int h"
    using eq assms(1,2) by (intro split_at_sep) (simp_all add: outboxDedupeKey_def known_topic_no_colon)
  moreover from this have "i = j \<and> ''g'' @ show_int g = ''g'' @ show_int h"
    using assms(3,4) by (intro split_at_sep [where c = "CHR '':''"]) (simp_all add: isUuid_no_colon)
  ultimately show ?thesis
    using assms by (simp add: topic_name_inject show_int_inject)
qed

section \<open>Job ids\<close>

datatype dispatch_kind = KindSolo | KindPool

definition dispatchStartJobId :: "uuid \<Rightarrow> int \<Rightarrow> string" where
  "dispatchStartJobId i g = ''dispatch-start-'' @ i @ ''-g'' @ show_int g"

definition wave2JobId :: "uuid \<Rightarrow> int \<Rightarrow> string" where
  "wave2JobId i g = ''dispatch-wave2-'' @ i @ ''-g'' @ show_int g"

definition hardFailJobId :: "uuid \<Rightarrow> int \<Rightarrow> string" where
  "hardFailJobId i g = ''dispatch-hardfail-'' @ i @ ''-g'' @ show_int g"

definition scheduledWakeJobId :: "uuid \<Rightarrow> int \<Rightarrow> string" where
  "scheduledWakeJobId i g = ''scheduled-wake-'' @ i @ ''-g'' @ show_int g"

definition poolExpireJobId :: "uuid \<Rightarrow> string" where
  "poolExpireJobId i = ''pool-expire-'' @ i"

definition legacyWave2JobId :: "uuid \<Rightarrow> string" where
  "legacyWave2JobId i = ''dispatch:wave2-timeout:'' @ i"

definition legacyHardFailJobId :: "uuid \<Rightarrow> string" where
  "legacyHardFailJobId i = ''dispatch:hard-fail:'' @ i"

definition legacyWakeJobId :: "uuid \<Rightarrow> string" where
  "legacyWakeJobId i = ''scheduled:wake:'' @ i"

definition legacyPoolExpireJobId :: "uuid \<Rightarrow> string" where
  "legacyPoolExpireJobId i = ''pool:expire:'' @ i"

lemmas job_id_defs =
  dispatchStartJobId_def wave2JobId_def hardFailJobId_def scheduledWakeJobId_def poolExpireJobId_def

lemma job_ids_no_colon:
  assumes "isUuid i"
  shows "CHR '':'' \<notin> set (dispatchStartJobId i g) \<union> set (wave2JobId i g) \<union> set (hardFailJobId i g)
    \<union> set (scheduledWakeJobId i g) \<union> set (poolExpireJobId i)"
  using isUuid_no_colon [OF assms] show_int_no_colon [of g] by (simp add: job_id_defs)

lemma tagged_inject:
  assumes "isUuid i" "isUuid j" "0 \<le> g" "0 \<le> h"
    and "p @ i @ ''-g'' @ show_int g = p @ j @ ''-g'' @ show_int h"
  shows "i = j \<and> g = h"
proof -
  from assms have "i @ ''-g'' @ show_int g = j @ ''-g'' @ show_int h" and "length i = length j"
    by (simp_all add: isUuid_length)
  then have "i = j" and "''-g'' @ show_int g = ''-g'' @ show_int h"
    by (auto dest: append_eq_append_conv [THEN iffD1, rotated])
  with assms show ?thesis by (simp add: show_int_inject)
qed

text \<open>The three job kinds of the \<open>dispatch\<close> queue, named by what they stand for.\<close>

datatype dispatch_job = StartJob uuid int | Wave2Job uuid int | HardFailJob uuid int

primrec dispatch_job_id :: "dispatch_job \<Rightarrow> string" where
  "dispatch_job_id (StartJob i g) = dispatchStartJobId i g"
| "dispatch_job_id (Wave2Job i g) = wave2JobId i g"
| "dispatch_job_id (HardFailJob i g) = hardFailJobId i g"

primrec well_formed_job :: "dispatch_job \<Rightarrow> bool" where
  "well_formed_job (StartJob i g) \<longleftrightarrow> isUuid i \<and> 0 \<le> g"
| "well_formed_job (Wave2Job i g) \<longleftrightarrow> isUuid i \<and> 0 \<le> g"
| "well_formed_job (HardFailJob i g) \<longleftrightarrow> isUuid i \<and> 0 \<le> g"

lemma dispatch_job_id_inject:
  "well_formed_job a \<Longrightarrow> well_formed_job b \<Longrightarrow> dispatch_job_id a = dispatch_job_id b \<Longrightarrow> a = b"
  using tagged_inject [of _ _ _ _ "[]"] by (cases a; cases b) (auto simp: job_id_defs)

end
