(* ===== verification/Outbox.thy ===== *)
theory Outbox
  imports Job_Ids
begin

text \<open>
  The transactional outbox (\<open>modules/outbox\<close>): the writer \<open>enqueueOutbox\<close> that runs inside a
  business transaction, the lease / ack / fail / rearm protocol of \<open>OutboxRepository\<close>, and one
  drain pass of \<open>OutboxRelay\<close>. Publication goes to BullMQ, which is not part of the repository:
  the relay's output is the list of \<open>queue.add\<close> calls it made, and whether a call succeeds is
  the environment's choice.
\<close>

section \<open>Writer\<close>

record message =
  g_topic :: topic
  g_aggregateType :: aggregate_type
  g_aggregateId :: uuid
  g_generation :: int
  g_payload :: payload
  g_availableAt :: "instant option"

definition message_key :: "message \<Rightarrow> string" where
  "message_key m = outboxDedupeKey (g_topic m) (g_aggregateId m) (g_generation m)"

definition new_outbox_row :: "message \<Rightarrow> uuid \<Rightarrow> instant \<Rightarrow> outbox_row" where
  "new_outbox_row m xid now =
     \<lparr>x_id = xid, x_topic = g_topic m, x_aggregateType = g_aggregateType m,
      x_aggregateId = g_aggregateId m, x_generation = g_generation m, x_payload = g_payload m,
      x_dedupeKey = message_key m, x_availableAt = (case g_availableAt m of None \<Rightarrow> now | Some t \<Rightarrow> t), x_attempts = 0, x_maxAttempts = 10,
      x_lastError = None, x_leaseToken = None, x_leasedUntil = None, x_processedAt = None,
      x_failedAt = None\<rparr>"

text \<open>\<open>INSERT ... ON CONFLICT (dedupe_key) DO NOTHING RETURNING id\<close>; true when the row is new.\<close>

definition enqueueOutbox :: "message \<Rightarrow> uuid \<Rightarrow> instant \<Rightarrow> (db, bool) tx" where
  "enqueueOutbox m xid now s =
     (if g_generation m < 0 then Inl (Check_violation ''outbox_generation_check'')
      else if message_key m \<in> x_dedupeKey ` set (outbox s) then Inr (False, s)
      else if xid \<in> x_id ` set (outbox s) then Inl (Unique_violation ''outbox_pkey'')
      else Inr (True, s\<lparr>outbox := outbox s @ [new_outbox_row m xid now]\<rparr>))"

definition has_intent :: "outbox_row list \<Rightarrow> topic \<Rightarrow> uuid \<Rightarrow> int \<Rightarrow> bool" where
  "has_intent t tp i g \<longleftrightarrow> (\<exists>x \<in> set t. x_topic x = tp \<and> x_aggregateId x = i \<and> x_generation x = g)"

text \<open>What every row keeps: its key is the key of its own columns, keys and ids are unique.\<close>

definition outbox_keys :: "outbox_row list \<Rightarrow> bool" where
  "outbox_keys t \<longleftrightarrow>
     distinct (map x_id t) \<and> distinct (map x_dedupeKey t)
     \<and> (\<forall>x \<in> set t. x_dedupeKey x = outboxDedupeKey (x_topic x) (x_aggregateId x) (x_generation x)
          \<and> known_topic (x_topic x) \<and> isUuid (x_aggregateId x) \<and> 0 \<le> x_generation x)"

lemma new_outbox_row_sel [simp]:
  "x_id (new_outbox_row m xid now) = xid"
  "x_topic (new_outbox_row m xid now) = g_topic m"
  "x_aggregateId (new_outbox_row m xid now) = g_aggregateId m"
  "x_generation (new_outbox_row m xid now) = g_generation m"
  "x_payload (new_outbox_row m xid now) = g_payload m"
  "x_dedupeKey (new_outbox_row m xid now) = message_key m"
  "x_processedAt (new_outbox_row m xid now) = None"
  "x_failedAt (new_outbox_row m xid now) = None"
  "x_leaseToken (new_outbox_row m xid now) = None"
  "x_leasedUntil (new_outbox_row m xid now) = None"
  by (simp_all add: new_outbox_row_def)

lemma enqueueOutbox_cases:
  assumes "enqueueOutbox m xid now s = Inr (b, s')"
  obtains (dup) "b = False" "s' = s" "message_key m \<in> x_dedupeKey ` set (outbox s)"
  | (new) "b = True" "s' = s\<lparr>outbox := outbox s @ [new_outbox_row m xid now]\<rparr>" "0 \<le> g_generation m"
      "message_key m \<notin> x_dedupeKey ` set (outbox s)" "xid \<notin> x_id ` set (outbox s)"
  using assms by (auto simp: enqueueOutbox_def split: if_splits)

lemma enqueueOutbox_frame:
  "enqueueOutbox m xid now s = Inr (b, s') \<Longrightarrow> s' = s\<lparr>outbox := outbox s'\<rparr>"
  by (erule enqueueOutbox_cases) simp_all

lemma enqueueOutbox_mono:
  "enqueueOutbox m xid now s = Inr (b, s') \<Longrightarrow> has_intent (outbox s) tp i g \<Longrightarrow> has_intent (outbox s') tp i g"
  by (erule enqueueOutbox_cases) (auto simp: has_intent_def)

lemma enqueueOutbox_keys:
  assumes "enqueueOutbox m xid now s = Inr (b, s')" "outbox_keys (outbox s)"
    and "known_topic (g_topic m)" "isUuid (g_aggregateId m)"
  shows "outbox_keys (outbox s')"
  using assms(1)
proof (cases rule: enqueueOutbox_cases)
  case new
  with assms(2-) show ?thesis by (auto simp: outbox_keys_def message_key_def)
qed (use assms in simp)

text \<open>After the call the intent exists, whether this call or an earlier one wrote it.\<close>

lemma enqueueOutbox_has_intent:
  assumes "enqueueOutbox m xid now s = Inr (b, s')" "outbox_keys (outbox s)"
    and "known_topic (g_topic m)" "isUuid (g_aggregateId m)" "0 \<le> g_generation m"
  shows "has_intent (outbox s') (g_topic m) (g_aggregateId m) (g_generation m)"
  using assms(1)
proof (cases rule: enqueueOutbox_cases)
  case dup
  then obtain x where "x \<in> set (outbox s)" "x_dedupeKey x = message_key m" by auto
  with assms(2-) dup show ?thesis
    unfolding outbox_keys_def has_intent_def message_key_def
    by (metis outboxDedupeKey_inject)
next
  case new
  then show ?thesis by (simp add: has_intent_def)
qed

section \<open>Repository: lease, ack, fail, rearm\<close>

definition due :: "instant \<Rightarrow> outbox_row \<Rightarrow> bool" where
  "due now x \<longleftrightarrow>
     x_processedAt x = None \<and> x_failedAt x = None \<and> x_availableAt x \<le> now
     \<and> (case x_leasedUntil x of None \<Rightarrow> True | Some u \<Rightarrow> u < now)"

text \<open>
  The inner select: due rows in \<open>available_at\<close> order, at most \<open>limit\<close>. \<open>locked\<close> names the rows
  another transaction holds, which \<open>SKIP LOCKED\<close> leaves out; \<open>tok\<close> is the generated token of
  each row.
\<close>

definition lease_ids :: "nat \<Rightarrow> uuid set \<Rightarrow> instant \<Rightarrow> outbox_row list \<Rightarrow> uuid list" where
  "lease_ids limit locked now t =
     map x_id (take limit (sort_key x_availableAt (filter (\<lambda>x. due now x \<and> x_id x \<notin> locked) t)))"

definition take_lease :: "int \<Rightarrow> (uuid \<Rightarrow> uuid) \<Rightarrow> instant \<Rightarrow> outbox_row \<Rightarrow> outbox_row" where
  "take_lease leaseMs tok now x =
     x\<lparr>x_leaseToken := Some (tok (x_id x)), x_leasedUntil := Some (now + leaseMs),
       x_attempts := Suc (x_attempts x)\<rparr>"

definition lease ::
  "nat \<Rightarrow> int \<Rightarrow> uuid set \<Rightarrow> (uuid \<Rightarrow> uuid) \<Rightarrow> instant \<Rightarrow> outbox_row list \<Rightarrow> outbox_row list \<times> outbox_row list" where
  "lease limit leaseMs locked tok now t =
     (let ids = set (lease_ids limit locked now t)
      in (map (take_lease leaseMs tok now) (filter (\<lambda>x. x_id x \<in> ids) t),
          upd (\<lambda>x. x_id x \<in> ids) (take_lease leaseMs tok now) t))"

definition owns :: "uuid \<Rightarrow> uuid \<Rightarrow> outbox_row \<Rightarrow> bool" where
  "owns i token x \<longleftrightarrow>
     x_id x = i \<and> x_leaseToken x = Some token \<and> x_processedAt x = None \<and> x_failedAt x = None"

definition ack :: "uuid \<Rightarrow> uuid \<Rightarrow> instant \<Rightarrow> outbox_row list \<Rightarrow> bool \<times> outbox_row list" where
  "ack i token now t =
     (list_ex (owns i token) t,
      upd (owns i token)
        (\<lambda>x. x\<lparr>x_processedAt := Some now, x_leaseToken := None, x_leasedUntil := None,
               x_lastError := None\<rparr>) t)"

datatype fail_outcome = FailRetry | FailExhausted | LostLease

text \<open>Back-off of \<open>least(2^attempts, 300)\<close> seconds; exhausted at \<open>max_attempts\<close> or when permanent.\<close>

definition backoff_ms :: "nat \<Rightarrow> int" where
  "backoff_ms attempts = min (2 ^ attempts) 300 * 1000"

definition fail_row :: "string \<Rightarrow> bool \<Rightarrow> instant \<Rightarrow> outbox_row \<Rightarrow> outbox_row" where
  "fail_row err permanent now x =
     x\<lparr>x_lastError := Some (take 2000 err),
       x_availableAt := now + backoff_ms (x_attempts x),
       x_failedAt := (if permanent \<or> x_maxAttempts x \<le> x_attempts x then Some now else None),
       x_leaseToken := None, x_leasedUntil := None\<rparr>"

definition fail ::
  "uuid \<Rightarrow> uuid \<Rightarrow> string \<Rightarrow> bool \<Rightarrow> instant \<Rightarrow> outbox_row list \<Rightarrow> fail_outcome \<times> outbox_row list" where
  "fail i token err permanent now t =
     ((case find (owns i token) t of
         None \<Rightarrow> LostLease
       | Some x \<Rightarrow> if x_failedAt (fail_row err permanent now x) = None then FailRetry else FailExhausted),
      upd (owns i token) (fail_row err permanent now) t)"

definition intent_of :: "topic \<Rightarrow> uuid \<Rightarrow> int \<Rightarrow> outbox_row \<Rightarrow> bool" where
  "intent_of tp i g x \<longleftrightarrow> x_topic x = tp \<and> x_aggregateId x = i \<and> x_generation x = g"

definition settled :: "outbox_row \<Rightarrow> bool" where
  "settled x \<longleftrightarrow> x_processedAt x \<noteq> None \<or> x_failedAt x \<noteq> None"

definition rearm :: "topic \<Rightarrow> uuid \<Rightarrow> int \<Rightarrow> instant \<Rightarrow> outbox_row list \<Rightarrow> bool \<times> outbox_row list" where
  "rearm tp i g now t =
     (list_ex (intent_of tp i g) t,
      upd (\<lambda>x. intent_of tp i g x \<and> settled x)
        (\<lambda>x. x\<lparr>x_processedAt := None, x_failedAt := None, x_attempts := 0, x_availableAt := now,
               x_leaseToken := None, x_leasedUntil := None\<rparr>) t)"

record outbox_stats =
  st_pending :: nat
  st_oldestPendingAgeMs :: "int option"
  st_exhausted :: nat

definition stats :: "instant \<Rightarrow> outbox_row list \<Rightarrow> outbox_stats" where
  "stats now t =
     (let pending = filter (\<lambda>x. x_processedAt x = None \<and> x_failedAt x = None) t;
          ages = map x_availableAt (filter (\<lambda>x. x_availableAt x \<le> now) pending)
      in \<lparr>st_pending = length pending,
          st_oldestPendingAgeMs = (case ages of [] \<Rightarrow> None | a # as \<Rightarrow> Some (max 0 (now - foldr min as a))),
          st_exhausted = length (filter (\<lambda>x. x_failedAt x \<noteq> None) t)\<rparr>)"

end
