(* ===== verification/Rides.thy ===== *)
theory Rides
  imports Dispatch_Spec Outbox
begin

text \<open>
  Solo rides: \<open>RidesRepository\<close> (rides.repository.ts) and \<open>RideStateMachine\<close>
  (ride-state-machine.service.ts). Every operation is the body of its database transaction; what
  the service delivers after commit is returned as a list of effects. \<open>clk\<close> is the process clock
  (\<open>new Date()\<close>), \<open>now\<close> and \<open>ct\<close> the database's.
\<close>

section \<open>Constants\<close>

definition operationForType :: "ride_type \<Rightarrow> idem_operation" where
  "operationForType t = (if t = Scheduled then OpScheduled else OpSolo)"

definition CLIENT_CANCELLABLE :: "ride_status set" where
  "CLIENT_CANCELLABLE = {Requested, Dispatching, Accepted, En_route, Arrived}"

definition DRIVER_CANCELLABLE :: "ride_status set" where
  "DRIVER_CANCELLABLE = {Requested, Dispatching, Accepted, En_route, Arrived, In_progress}"

definition TERMINAL_STATUSES :: "ride_status set" where
  "TERMINAL_STATUSES = {Completed, Cancelled, No_show}"

primrec stamp_for_status :: "ride_status \<Rightarrow> instant \<Rightarrow> ride \<Rightarrow> ride" where
  "stamp_for_status Requested clk r = r"
| "stamp_for_status Dispatching clk r = r"
| "stamp_for_status Accepted clk r = r"
| "stamp_for_status En_route clk r = r\<lparr>r_enRouteAt := Some clk\<rparr>"
| "stamp_for_status Arrived clk r = r\<lparr>r_arrivedAt := Some clk\<rparr>"
| "stamp_for_status In_progress clk r = r\<lparr>r_startedAt := Some clk\<rparr>"
| "stamp_for_status Completed clk r = r\<lparr>r_completedAt := Some clk\<rparr>"
| "stamp_for_status Cancelled clk r = r"
| "stamp_for_status No_driver clk r = r"
| "stamp_for_status No_show clk r = r"

section \<open>Create\<close>

record create_params =
  cp_passengerId :: uuid
  cp_originLat :: real
  cp_originLng :: real
  cp_destLat :: real
  cp_destLng :: real
  cp_fareCents :: int
  cp_idempotencyKey :: string
  cp_type :: "ride_type option"
  cp_scheduledFor :: "instant option"
  cp_idempotencyOperation :: "idem_operation option"
  cp_requestFingerprint :: "string option"

definition cp_rideType :: "create_params \<Rightarrow> ride_type" where
  "cp_rideType p = (case cp_type p of None \<Rightarrow> Normal | Some t \<Rightarrow> t)"

definition cp_operation :: "create_params \<Rightarrow> idem_operation" where
  "cp_operation p =
     (case cp_idempotencyOperation p of None \<Rightarrow> operationForType (cp_rideType p) | Some oper \<Rightarrow> oper)"

definition in_scope :: "uuid \<Rightarrow> idem_operation \<Rightarrow> string \<Rightarrow> ride \<Rightarrow> bool" where
  "in_scope passenger oper key r \<longleftrightarrow>
     r_passengerId r = passenger \<and> r_idempotencyOperation r = oper \<and> r_idempotencyKey r = key"

definition new_ride :: "create_params \<Rightarrow> uuid \<Rightarrow> instant \<Rightarrow> ride" where
  "new_ride p rid now =
     \<lparr>r_id = rid, r_passengerId = cp_passengerId p, r_originLat = cp_originLat p, r_originLng = cp_originLng p,
      r_destLat = cp_destLat p, r_destLng = cp_destLng p, r_fareCents = cp_fareCents p, r_status = Requested,
      r_type = cp_rideType p, r_scheduledFor = cp_scheduledFor p, r_idempotencyKey = cp_idempotencyKey p,
      r_idempotencyOperation = cp_operation p, r_requestFingerprint = cp_requestFingerprint p,
      r_driverId = None, r_acceptedAt = None, r_enRouteAt = None, r_arrivedAt = None, r_startedAt = None,
      r_completedAt = None, r_cancelledAt = None, r_cancelledBy = None, r_cancelReason = None,
      r_dispatchGeneration = (if cp_rideType p = Scheduled then 0 else 1), r_updatedAt = now\<rparr>"

definition insert_ride :: "ride \<Rightarrow> (db, bool) tx" where
  "insert_ride r s =
     (if r_idempotencyOperation r = OpShared then Inl (Check_violation ''rides_idempotency_operation_check'')
      else if list_ex (in_scope (r_passengerId r) (r_idempotencyOperation r) (r_idempotencyKey r)) (rides s)
      then Inr (False, s)
      else if r_id r \<in> r_id ` set (rides s) then Inl (Unique_violation ''rides_pkey'')
      else if r_passengerId r \<notin> u_id ` set (users s) then Inl (Foreign_key_violation ''rides_passenger_id_fkey'')
      else Inr (True, s\<lparr>rides := rides s @ [r]\<rparr>))"

definition ride_dispatch_message :: "uuid \<Rightarrow> int \<Rightarrow> message" where
  "ride_dispatch_message rid g =
     \<lparr>g_topic = RideDispatchRequested, g_aggregateType = AggRide, g_aggregateId = rid, g_generation = g,
      g_payload = DispatchRide rid, g_availableAt = None\<rparr>"

definition wake_message :: "uuid \<Rightarrow> instant \<Rightarrow> message" where
  "wake_message rid scheduledFor =
     \<lparr>g_topic = RideWakeSchedule, g_aggregateType = AggRide, g_aggregateId = rid, g_generation = 1,
      g_payload = WakeAt (Some scheduledFor), g_availableAt = None\<rparr>"

text \<open>The transaction of \<open>create\<close>: \<open>None\<close> when the scope is taken already.\<close>

definition create_tx :: "create_params \<Rightarrow> uuid \<Rightarrow> uuid \<Rightarrow> instant \<Rightarrow> (db, ride option) tx" where
  "create_tx p rid xid now =
     andThen (insert_ride (new_ride p rid now)) (\<lambda>inserted.
       if \<not> inserted then ret None
       else andThen
         (if cp_rideType p = Scheduled
          then (case cp_scheduledFor p of
                  None \<Rightarrow> throw (App_error ''scheduled ride requires scheduledFor'')
                | Some t \<Rightarrow> enqueueOutbox (wake_message rid t) xid now)
          else enqueueOutbox (ride_dispatch_message rid 1) xid now)
         (\<lambda>_. ret (Some (new_ride p rid now))))"

definition findById :: "db \<Rightarrow> uuid \<Rightarrow> ride option" where
  "findById s i = ride_row s i"

definition findByIdempotencyScope :: "db \<Rightarrow> uuid \<Rightarrow> idem_operation \<Rightarrow> string \<Rightarrow> (ride \<times> string option) option" where
  "findByIdempotencyScope s passenger oper key =
     map_option (\<lambda>r. (r, r_requestFingerprint r)) (find (in_scope passenger oper key) (rides s))"

text \<open>The result: the row, whether this call created it, and the stored fingerprint.\<close>

definition create :: "create_params \<Rightarrow> uuid \<Rightarrow> uuid \<Rightarrow> instant \<Rightarrow> (db, ride \<times> bool \<times> string option) tx" where
  "create p rid xid now s =
     (case create_tx p rid xid now s of
        Inl e \<Rightarrow> Inl e
      | Inr (Some r, s') \<Rightarrow> Inr ((r, True, cp_requestFingerprint p), s')
      | Inr (None, s') \<Rightarrow>
          (case findByIdempotencyScope s' (cp_passengerId p) (cp_operation p) (cp_idempotencyKey p) of
             None \<Rightarrow> Inl (App_error ''idempotency conflict without a matching ride'')
           | Some (r, fp) \<Rightarrow> Inr ((r, False, fp), s')))"

section \<open>Claim, give up\<close>

definition claimSolo :: "uuid \<Rightarrow> uuid \<Rightarrow> instant \<Rightarrow> instant \<Rightarrow> (db, ride option) tx" where
  "claimSolo i d now ct s =
     (case lockSoloTrip s i of
        None \<Rightarrow> Inr (None, s)
      | Some r \<Rightarrow>
          if r_status r \<noteq> Requested \<or> r_driverId r \<noteq> None then Inr (None, s)
          else let g = max (r_dispatchGeneration r) 1 in
            (case acquire d (Solo i) None g now s of
               Inl e \<Rightarrow> Inl e
             | Inr (out, s1) \<Rightarrow>
                 if out \<noteq> AcquireOk then Inr (None, s1)
                 else (case claimSoloRow i d g now s1 of
                         Inl e \<Rightarrow> Inl e
                       | Inr (r', s2) \<Rightarrow> Inr (Some r', snd (revokeLiveForTrip (Solo i) None ct s2)))))"

definition set_ride :: "uuid \<Rightarrow> (ride \<Rightarrow> ride) \<Rightarrow> db \<Rightarrow> db" where
  "set_ride i f s = s\<lparr>rides := upd (\<lambda>r. r_id r = i) f (rides s)\<rparr>"

definition markNoDriver ::
  "uuid \<Rightarrow> int option \<Rightarrow> instant \<Rightarrow> instant \<Rightarrow> db \<Rightarrow> (ride \<times> (uuid \<times> uuid) list) option \<times> db" where
  "markNoDriver i gen now ct s =
     (case lockSoloTrip s i of
        None \<Rightarrow> (None, s)
      | Some r \<Rightarrow>
          if r_status r \<noteq> Requested \<or> r_driverId r \<noteq> None then (None, s)
          else if gen \<noteq> None \<and> gen \<noteq> Some (r_dispatchGeneration r) then (None, s)
          else let f = (\<lambda>r. r\<lparr>r_status := No_driver, r_updatedAt := now\<rparr>);
                   (revoked, s') = revokeLiveForTrip (Solo i) None ct (set_ride i f s)
               in (Some (f r, revoked), s'))"

section \<open>Forward transitions and cancellation\<close>

datatype ride_error = NotFound | NotOwner | InvalidTransition | NoShowTooEarly | UnknownEvent

definition advance_ride :: "ride_status \<Rightarrow> instant \<Rightarrow> ride \<Rightarrow> ride" where
  "advance_ride to clk r = stamp_for_status to clk (r\<lparr>r_status := to, r_updatedAt := clk\<rparr>)"

definition transition :: "uuid \<Rightarrow> uuid \<Rightarrow> ride_status \<Rightarrow> ride_status \<Rightarrow> instant \<Rightarrow> db \<Rightarrow> (ride_error + ride) \<times> db" where
  "transition i d fromStatus toStatus clk s =
     (case ride_row s i of
        None \<Rightarrow> (Inl NotFound, s)
      | Some r \<Rightarrow>
          if r_driverId r \<noteq> Some d then (Inl NotOwner, s)
          else if r_status r \<noteq> fromStatus then (Inl InvalidTransition, s)
          else let s1 = set_ride i (advance_ride toStatus clk) s;
                   s2 = (if toStatus \<in> TERMINAL_STATUSES then snd (release d (Solo i) s1) else s1)
               in (Inr (advance_ride toStatus clk r), s2))"

definition cancel_ride :: "ride_status \<Rightarrow> actor \<Rightarrow> string option \<Rightarrow> instant \<Rightarrow> ride \<Rightarrow> ride" where
  "cancel_ride to who reason clk r =
     r\<lparr>r_status := to, r_cancelledAt := Some clk, r_cancelledBy := Some who, r_cancelReason := reason,
       r_updatedAt := clk\<rparr>"

text \<open>Who may cancel and where it lands, before anything is written.\<close>

definition cancel_target :: "actor \<Rightarrow> uuid \<Rightarrow> bool \<Rightarrow> int \<Rightarrow> instant \<Rightarrow> ride \<Rightarrow> ride_error + ride_status" where
  "cancel_target who actorId isNoShow noShowWaitMs clk r =
     (if (case who of ActorClient \<Rightarrow> r_passengerId r \<noteq> actorId | ActorDriver \<Rightarrow> r_driverId r \<noteq> Some actorId)
      then Inl NotOwner
      else if isNoShow then
        (if r_status r \<noteq> Arrived then Inl InvalidTransition
         else (case r_arrivedAt r of
                 None \<Rightarrow> Inl NoShowTooEarly
               | Some a \<Rightarrow> if clk - a < noShowWaitMs then Inl NoShowTooEarly else Inr No_show))
      else if r_status r \<notin> (case who of ActorClient \<Rightarrow> CLIENT_CANCELLABLE | ActorDriver \<Rightarrow> DRIVER_CANCELLABLE)
      then Inl InvalidTransition
      else Inr Cancelled)"

definition cancel ::
  "uuid \<Rightarrow> actor \<Rightarrow> uuid \<Rightarrow> bool \<Rightarrow> string option \<Rightarrow> int \<Rightarrow> instant \<Rightarrow> instant \<Rightarrow> db
   \<Rightarrow> (ride_error + ride \<times> (uuid \<times> uuid) list) \<times> db" where
  "cancel i who actorId isNoShow reason noShowWaitMs clk ct s =
     (case ride_row s i of
        None \<Rightarrow> (Inl NotFound, s)
      | Some r \<Rightarrow>
          (case cancel_target who actorId isNoShow noShowWaitMs clk r of
             Inl e \<Rightarrow> (Inl e, s)
           | Inr to \<Rightarrow>
               let s1 = set_ride i (cancel_ride to who reason clk) s;
                   (revoked, s2) = revokeLiveForTrip (Solo i) None ct s1;
                   s3 = (case r_driverId r of None \<Rightarrow> s2 | Some d \<Rightarrow> snd (release d (Solo i) s2))
               in (Inr (cancel_ride to who reason clk r, revoked), s3)))"

section \<open>State machine service\<close>

datatype ride_effect =
    RideStateChanged uuid ride_status actor
  | OfferRevokedNotice uuid uuid uuid \<comment> \<open>driver, offer, ride\<close>
  | ClearCurrentRide uuid uuid \<comment> \<open>driver, ride\<close>
  | RideCancelledEvent uuid "uuid option" int

definition transition_spec :: "string \<Rightarrow> (ride_status \<times> ride_status) option" where
  "transition_spec ev =
     (if ev = ''start_en_route'' then Some (Accepted, En_route)
      else if ev = ''mark_arrived'' then Some (En_route, Arrived)
      else if ev = ''start_ride'' then Some (Arrived, In_progress)
      else if ev = ''end_ride'' then Some (In_progress, Completed)
      else None)"

definition applyEvent ::
  "uuid \<Rightarrow> uuid \<Rightarrow> string \<Rightarrow> instant \<Rightarrow> db \<Rightarrow> ((ride_error + ride) \<times> ride_effect list) \<times> db" where
  "applyEvent i d ev clk s =
     (case transition_spec ev of
        None \<Rightarrow> ((Inl UnknownEvent, []), s)
      | Some (fromStatus, toStatus) \<Rightarrow>
          (case transition i d fromStatus toStatus clk s of
             (Inl e, s') \<Rightarrow> ((Inl e, []), s')
           | (Inr r, s') \<Rightarrow>
               ((Inr r, RideStateChanged i (r_status r) ActorDriver
                        # (if r_status r = Completed then [ClearCurrentRide d i] else [])), s')))"

definition cancelService ::
  "uuid \<Rightarrow> actor \<Rightarrow> uuid \<Rightarrow> bool \<Rightarrow> string option \<Rightarrow> int \<Rightarrow> instant \<Rightarrow> instant \<Rightarrow> db
   \<Rightarrow> ((ride_error + ride) \<times> ride_effect list) \<times> db" where
  "cancelService i who actorId isNoShow reason noShowWaitMs clk ct s =
     (case cancel i who actorId isNoShow reason noShowWaitMs clk ct s of
        (Inl e, s') \<Rightarrow> ((Inl e, []), s')
      | (Inr (r, revoked), s') \<Rightarrow>
          ((Inr r,
            RideStateChanged i (r_status r) who
            # map (\<lambda>(oid, d). OfferRevokedNotice d oid i) revoked
            @ (case r_driverId r of None \<Rightarrow> [] | Some d \<Rightarrow> [ClearCurrentRide d i])
            @ [RideCancelledEvent i (r_driverId r) (r_dispatchGeneration r)]), s'))"

end
