(* ===== verification/Ride_Lifecycle.thy ===== *)
theory Ride_Lifecycle
  imports Rides
begin

text \<open>
  Correctness of the solo ride operations: the shape every row keeps (status, driver, timestamps,
  generation), what each transaction does to the dispatch views, and that each refines the abstract
  dispatch machine.
\<close>

section \<open>Row shape\<close>

definition past :: "ride_status set \<Rightarrow> instant option \<Rightarrow> ride \<Rightarrow> bool" where
  "past S stamp r \<longleftrightarrow> (r_status r \<in> S \<longrightarrow> stamp \<noteq> None)"

definition ride_shape :: "ride \<Rightarrow> bool" where
  "ride_shape r \<longleftrightarrow>
     r_status r \<noteq> Dispatching
     \<and> 0 \<le> r_dispatchGeneration r
     \<and> (r_type r \<noteq> Scheduled \<longrightarrow> 1 \<le> r_dispatchGeneration r)
     \<and> (r_type r = Scheduled \<longrightarrow> r_scheduledFor r \<noteq> None)
     \<and> (r_status r \<in> {Requested, No_driver} \<longrightarrow> r_driverId r = None)
     \<and> (r_status r \<in> {Accepted, En_route, Arrived, In_progress, Completed, No_show} \<longrightarrow>
          r_driverId r \<noteq> None \<and> r_acceptedAt r \<noteq> None \<and> 1 \<le> r_dispatchGeneration r)
     \<and> past {En_route, Arrived, In_progress, Completed, No_show} (r_enRouteAt r) r
     \<and> past {Arrived, In_progress, Completed, No_show} (r_arrivedAt r) r
     \<and> past {In_progress, Completed} (r_startedAt r) r
     \<and> past {Completed} (r_completedAt r) r
     \<and> (r_status r \<in> {Cancelled, No_show} \<longleftrightarrow> r_cancelledAt r \<noteq> None)
     \<and> (r_status r \<in> {Cancelled, No_show} \<longleftrightarrow> r_cancelledBy r \<noteq> None)"

definition scope_of :: "ride \<Rightarrow> uuid \<times> idem_operation \<times> string" where
  "scope_of r = (r_passengerId r, r_idempotencyOperation r, r_idempotencyKey r)"

definition rides_ok :: "db \<Rightarrow> bool" where
  "rides_ok s \<longleftrightarrow>
     distinct (map r_id (rides s)) \<and> distinct (map scope_of (rides s)) \<and> (\<forall>r \<in> set (rides s). ride_shape r)"

lemma rides_ok_cong: "rides s' = rides s \<Longrightarrow> rides_ok s' = rides_ok s"
  by (simp add: rides_ok_def)

lemma rides_ok_row: "rides_ok s \<Longrightarrow> ride_row s i = Some r \<Longrightarrow> ride_shape r \<and> r_id r = i \<and> r \<in> set (rides s)"
  by (auto simp: rides_ok_def dest: row_SomeD)

text \<open>A row update that keeps the identifying columns and the shape keeps the table.\<close>

lemma rides_ok_upd:
  assumes "rides_ok s" "rides s' = upd P f (rides s)" "\<And>r. r_id (f r) = r_id r" "\<And>r. scope_of (f r) = scope_of r"
    and "\<And>r. r \<in> set (rides s) \<Longrightarrow> P r \<Longrightarrow> ride_shape r \<Longrightarrow> ride_shape (f r)"
  shows "rides_ok s'"
  using assms by (auto simp: rides_ok_def set_upd)

section \<open>Row functions\<close>

lemma advance_ride_sel [simp]:
  "r_id (advance_ride to clk r) = r_id r" "r_status (advance_ride to clk r) = to"
  "r_driverId (advance_ride to clk r) = r_driverId r" "scope_of (advance_ride to clk r) = scope_of r"
  "r_dispatchGeneration (advance_ride to clk r) = r_dispatchGeneration r"
  "r_type (advance_ride to clk r) = r_type r" "r_passengerId (advance_ride to clk r) = r_passengerId r"
  by (cases to; simp add: advance_ride_def scope_of_def)+

lemma cancel_ride_sel [simp]:
  "r_id (cancel_ride to who reason clk r) = r_id r" "r_status (cancel_ride to who reason clk r) = to"
  "r_driverId (cancel_ride to who reason clk r) = r_driverId r"
  "scope_of (cancel_ride to who reason clk r) = scope_of r"
  "r_dispatchGeneration (cancel_ride to who reason clk r) = r_dispatchGeneration r"
  "r_passengerId (cancel_ride to who reason clk r) = r_passengerId r"
  by (simp_all add: cancel_ride_def scope_of_def)

lemma set_ride_sel [simp]:
  "rides (set_ride i f s) = upd (\<lambda>r. r_id r = i) f (rides s)"
  "shared_rides (set_ride i f s) = shared_rides s" "assignments (set_ride i f s) = assignments s"
  "offers (set_ride i f s) = offers s" "outbox (set_ride i f s) = outbox s"
  "pool_members (set_ride i f s) = pool_members s" "ride_stops (set_ride i f s) = ride_stops s"
  "users (set_ride i f s) = users s" "drivers (set_ride i f s) = drivers s"
  "vehicles (set_ride i f s) = vehicles s" "idem (set_ride i f s) = idem s"
  by (simp_all add: set_ride_def)

lemma transition_specD:
  "transition_spec ev = Some (a, b) \<Longrightarrow>
   (a, b) \<in> {(Accepted, En_route), (En_route, Arrived), (Arrived, In_progress), (In_progress, Completed)}"
  by (auto simp: transition_spec_def split: if_splits)

lemma advance_shape:
  assumes "ride_shape r" "(r_status r, to) \<in>
    {(Accepted, En_route), (En_route, Arrived), (Arrived, In_progress), (In_progress, Completed)}"
  shows "ride_shape (advance_ride to clk r)"
proof -
  from assms(2) consider "r_status r = Accepted" "to = En_route" | "r_status r = En_route" "to = Arrived"
    | "r_status r = Arrived" "to = In_progress" | "r_status r = In_progress" "to = Completed"
    by blast
  then show ?thesis
    by cases (use assms(1) in \<open>auto simp: ride_shape_def past_def advance_ride_def\<close>)
qed

lemma cancel_targetD:
  assumes "cancel_target who actorId isNoShow wait clk r = Inr to"
  shows "to = No_show \<and> r_status r = Arrived \<or> to = Cancelled \<and> r_status r \<in> DRIVER_CANCELLABLE"
  using assms
  by (auto simp: cancel_target_def CLIENT_CANCELLABLE_def DRIVER_CANCELLABLE_def
      split: if_splits actor.splits option.splits)

lemma cancel_shape:
  assumes "ride_shape r" "cancel_target who actorId isNoShow wait clk r = Inr to"
  shows "ride_shape (cancel_ride to who reason clk r)"
  using cancel_targetD [OF assms(2)]
proof
  assume "to = No_show \<and> r_status r = Arrived"
  with assms(1) show ?thesis by (simp add: ride_shape_def past_def cancel_ride_def)
next
  assume "to = Cancelled \<and> r_status r \<in> DRIVER_CANCELLABLE"
  with assms(1) show ?thesis
    by (cases "r_status r") (simp_all add: ride_shape_def past_def cancel_ride_def)
qed

section \<open>Create\<close>

lemma create_tx_cases:
  assumes "create_tx p rid xid now s = Inr (res, s')"
  obtains (replay) "res = None" "s' = s"
      "list_ex (in_scope (cp_passengerId p) (cp_operation p) (cp_idempotencyKey p)) (rides s)"
  | (new) m b where "res = Some (new_ride p rid now)" "rid \<notin> r_id ` set (rides s)"
      "\<not> list_ex (in_scope (cp_passengerId p) (cp_operation p) (cp_idempotencyKey p)) (rides s)"
      "cp_passengerId p \<in> u_id ` set (users s)" "cp_operation p \<noteq> OpShared"
      "cp_rideType p = Scheduled \<longrightarrow> cp_scheduledFor p \<noteq> None"
      "m = (if cp_rideType p = Scheduled then wake_message rid (the (cp_scheduledFor p)) else ride_dispatch_message rid 1)"
      "enqueueOutbox m xid now (s\<lparr>rides := rides s @ [new_ride p rid now]\<rparr>) = Inr (b, s')"
proof -
  have sel: "r_id (new_ride p rid now) = rid" "r_passengerId (new_ride p rid now) = cp_passengerId p"
      "r_idempotencyOperation (new_ride p rid now) = cp_operation p"
      "r_idempotencyKey (new_ride p rid now) = cp_idempotencyKey p"
    by (simp_all add: new_ride_def)
  from assms obtain i s1 where i: "insert_ride (new_ride p rid now) s = Inr (i, s1)"
    by (auto simp: create_tx_def split: sum.splits)
  show thesis
  proof (cases i)
    case False
    with assms i show thesis
      by (intro replay) (auto simp: create_tx_def insert_ride_def sel split: if_splits)
  next
    case True
    with i have s1: "s1 = s\<lparr>rides := rides s @ [new_ride p rid now]\<rparr>"
      and pre: "rid \<notin> r_id ` set (rides s)" "cp_passengerId p \<in> u_id ` set (users s)" "cp_operation p \<noteq> OpShared"
        "\<not> list_ex (in_scope (cp_passengerId p) (cp_operation p) (cp_idempotencyKey p)) (rides s)"
      by (auto simp: insert_ride_def sel split: if_splits)
    define m where "m = (if cp_rideType p = Scheduled then wake_message rid (the (cp_scheduledFor p))
        else ride_dispatch_message rid 1)"
    have sch: "cp_rideType p = Scheduled \<longrightarrow> cp_scheduledFor p \<noteq> None"
      using assms i True by (auto simp: create_tx_def split: option.splits)
    have "create_tx p rid xid now s = (case enqueueOutbox m xid now s1 of
        Inl e \<Rightarrow> Inl e | Inr (b, s'') \<Rightarrow> Inr (Some (new_ride p rid now), s''))"
      using i True sch by (auto simp: create_tx_def m_def split: sum.splits)
    with assms obtain b where e: "enqueueOutbox m xid now s1 = Inr (b, s')" and res: "res = Some (new_ride p rid now)"
      by (simp split: sum.splits prod.splits)
    show thesis by (rule new [OF res pre(1) pre(4) pre(2,3) sch m_def e [unfolded s1]])
  qed
qed

lemma new_ride_shape: "cp_rideType p = Scheduled \<longrightarrow> cp_scheduledFor p \<noteq> None \<Longrightarrow> ride_shape (new_ride p rid now)"
  by (auto simp: ride_shape_def past_def new_ride_def)

lemma create_tx_ok:
  assumes "create_tx p rid xid now s = Inr (res, s')" "core_ok s" "rides_ok s"
  shows "refines s s' \<and> rides_ok s'"
  using assms(1)
proof (cases rule: create_tx_cases)
  case replay
  with assms show ?thesis by (simp add: refines_refl)
next
  case (new m b)
  let ?s1 = "s\<lparr>rides := rides s @ [new_ride p rid now]\<rparr>" and ?r = "new_ride p rid now"
  have rid: "r_id ?r = rid" by (simp add: new_ride_def)
  have s': "rides s' = rides s @ [?r]" "shared_rides s' = shared_rides s" "assignments s' = assignments s"
      "offers s' = offers s"
    using new(8) by (auto elim!: enqueueOutbox_cases)
  have "ride_row s rid = None" using new(2) by (simp add: row_None_iff)
  then have n: "trip_driver s (Solo rid) = None" "disp s (Solo rid) = None" by simp_all
  have "trip_driver s' = (trip_driver s)(Solo rid := None)" "disp s' = (disp s)(Solo rid \<mapsto> r_dispatchGeneration ?r)"
    using views_new_ride [OF s'(1,2)] new(2)
    by (simp_all add: rid) (simp_all add: solo_driver_def solo_disp_def new_ride_def)
  then have "refines s s'"
    using assms(2) s' n new(2) rid
    by (intro refines_open [of s s' "Solo rid" "r_dispatchGeneration ?r"])
      (auto simp: core_ok_def fun_upd_idem)
  moreover have "rides_ok s'"
    using assms(3) new(2,3) new_ride_shape [OF new(6)] rid
    by (auto simp: rides_ok_def s' list_ex_iff in_scope_def scope_of_def) (auto simp: new_ride_def)
  ultimately show ?thesis by simp
qed

lemma create_ok:
  assumes "create p rid xid now s = Inr (res, s')" "core_ok s" "rides_ok s"
  shows "refines s s' \<and> rides_ok s'"
proof -
  from assms(1) obtain r where "create_tx p rid xid now s = Inr (r, s')"
    by (auto simp: create_def split: sum.splits option.splits)
  then show ?thesis using assms(2,3) by (rule create_tx_ok)
qed

section \<open>Claim\<close>

lemma bind_ride_shape: "ride_shape r \<Longrightarrow> r_status r = Requested \<Longrightarrow> 1 \<le> g \<Longrightarrow> ride_shape (bind_ride d g now r)"
  by (simp add: ride_shape_def past_def bind_ride_def) (auto simp: max_def)

text \<open>
  The common core of every solo claim: guard acquired, row bound, the trip's offers revoked except
  possibly the winner, which is accepted.
\<close>

lemma solo_claim_refines:
  assumes "core_ok s" "rides_ok s" "acquire d (Solo i) off g now s = Inr (AcquireOk, s1)"
    and "claimSoloRow i d g now s1 = Inr (r', s2)"
    and "s3 = s2\<lparr>offers := offers s3\<rparr>" "offer_keys s3" "live_set s3 \<subseteq> live_set s - of_trip (Solo i)"
  shows "refines s s3 \<and> rides_ok s3"
proof -
  have s1': "rides s1 = rides s" "shared_rides s1 = shared_rides s"
    using assms(3) by (auto elim!: acquire_cases)
  have g: "1 \<le> g" and free: "d \<notin> a_driverId ` set (assignments s)"
    using assms(3) by (auto elim: acquire_cases)
  have "distinct (map r_id (rides s1))" using assms(1) s1' by (simp add: core_ok_def)
  from assms(4) this obtain r where r: "ride_row s1 i = Some r" "r_status r = Requested" "r_driverId r = None"
      "s2 = s1\<lparr>rides := upd (claimable_ride i) (bind_ride d g now) (rides s1)\<rparr>"
      "trip_driver s2 = (trip_driver s1)(Solo i \<mapsto> d)" "disp s2 = (disp s1)(Solo i := None)"
    by (rule claimSoloRow_effect)
  obtain os where s3: "s3 = s2\<lparr>offers := os\<rparr>" using assms(5) by blast
  have v1: "trip_driver s1 = trip_driver s" "disp s1 = disp s"
    using s1' by (auto intro: trip_driver_cong disp_cong)
  have v3: "trip_driver s3 = trip_driver s2" "disp s3 = disp s2" "guard_of s3 = guard_of s1"
    by (rule trip_driver_cong disp_cong guard_of_cong; simp add: s3 r(4))+
  have "refines s s3"
  proof (rule refines_claim [OF assms(1)])
    show "disp s (Solo i) = Some (r_dispatchGeneration r)" using r(1-3) s1' by (simp add: solo_disp_def)
    show "trip_driver s3 = (trip_driver s)(Solo i \<mapsto> d)" "disp s3 = (disp s)(Solo i := None)"
      using v1 v3 r(5,6) by simp_all
    show "guard_of s3 = (guard_of s)(Solo i \<mapsto> d)"
      using v3 acquire_effect(1) [OF assms(3)] by simp
    show "guard_keys s3"
      using acquire_effect(2) [OF assms(3)] assms(1) by (simp add: core_ok_def guard_keys_def s3 r(4))
    show "d \<notin> ran (guard_of s)" using free assms(1) by (simp add: busy_iff core_ok_def)
    show "offer_keys s3" "live_set s3 \<subseteq> live_set s - of_trip (Solo i)" by fact+
  qed (simp_all add: s3 r(4) s1')
  moreover have "rides_ok s3"
  proof (rule rides_ok_upd [OF assms(2)])
    show "rides s3 = upd (claimable_ride i) (bind_ride d g now) (rides s)" by (simp add: s3 r(4) s1')
    show "ride_shape (bind_ride d g now x)" if "claimable_ride i x" "ride_shape x" for x
      using that g by (simp add: bind_ride_shape claimable_ride_def)
  qed (simp_all add: scope_of_def bind_ride_def)
  ultimately show ?thesis by simp
qed

lemma claimSolo_ok:
  assumes "claimSolo i d now ct s = Inr (res, s')" "core_ok s" "rides_ok s"
  shows "refines s s' \<and> rides_ok s'"
proof (cases res)
  case None
  with assms have "s' = s"
    by (auto simp: claimSolo_def Let_def split: option.splits if_splits sum.splits dest: acquire_not_ok)
  with assms show ?thesis by (simp add: refines_refl)
next
  case (Some r')
  with assms(1) obtain g s1 s2 where a: "acquire d (Solo i) None g now s = Inr (AcquireOk, s1)"
      and c: "claimSoloRow i d g now s1 = Inr (r', s2)" and s': "s' = snd (revokeLiveForTrip (Solo i) None ct s2)"
    by (auto simp: claimSolo_def Let_def split: option.splits if_splits sum.splits)
  have o2: "offers s2 = offers s"
    using a c by (auto simp: claimSoloRow_def elim!: acquire_cases split: option.splits)
  show ?thesis
  proof (rule solo_claim_refines [OF assms(2,3) a c])
    show "s' = s2\<lparr>offers := offers s'\<rparr>" by (simp add: s' revokeLiveForTrip_def)
    show "offer_keys s'"
      unfolding s' using assms(2) o2 by (intro revoke_keys) (simp add: core_ok_def offer_keys_cong [OF o2])
    show "live_set s' \<subseteq> live_set s - of_trip (Solo i)"
      by (simp add: s' live_set_revoke live_set_cong [OF o2])
  qed
qed

section \<open>Leaving the dispatchable and the active states\<close>

text \<open>
  A solo ride whose new row is neither driven nor dispatchable, with its live offers gone and its
  guard row released.
\<close>

lemma solo_finish_refines:
  assumes "core_ok s" "ride_row s i = Some r" "\<And>r. r_id (f r) = r_id r"
    and "solo_driver (f r) = None" "solo_disp (f r) = None"
    and "rides s' = upd (\<lambda>r. r_id r = i) f (rides s)" "shared_rides s' = shared_rides s"
    and "guard_of s' = (guard_of s)(Solo i := None)" "guard_keys s'"
    and "offer_keys s'" "live_set s' \<subseteq> live_set s - of_trip (Solo i)"
  shows "refines s s'"
proof (rule refines_finish [OF assms(1)])
  show "trip_driver s' = (trip_driver s)(Solo i := None)"
    using trip_driver_ride [OF assms(6,7,3) _ assms(2)] assms(4) row_key [OF assms(2)] by simp
  show "disp s' = (disp s)(Solo i := None)"
    using disp_ride [OF assms(6,7,3) _ assms(2)] assms(5) row_key [OF assms(2)] by simp
qed (use assms in simp_all)

lemma guard_clear:
  assumes "core_ok s" "guard_of s' = guard_of s" "trip_driver s t = None"
  shows "guard_of s' = (guard_of s)(t := None)"
  using assms by (simp add: core_ok_def fun_eq_iff)

lemma guard_released:
  assumes "core_ok s" "assignments s1 = assignments s" "trip_driver s t = Some d"
  shows "guard_of (snd (release d t s1)) = (guard_of s)(t := None)" "guard_keys (snd (release d t s1))"
proof -
  have k: "guard_keys s1" using assms by (simp add: core_ok_def guard_keys_def)
  have "guard_of s1 = guard_of s" using assms(2) by (rule guard_of_cong)
  moreover have "guard_of s t = Some d" using assms(1,3) by (simp add: core_ok_def)
  ultimately show "guard_of (snd (release d t s1)) = (guard_of s)(t := None)"
    using release_effect(1) [OF k] by simp
  show "guard_keys (snd (release d t s1))" by (rule release_effect(2) [OF k])
qed

lemma markNoDriver_ok:
  assumes "core_ok s" "rides_ok s"
  shows "refines s (snd (markNoDriver i gen now ct s)) \<and> rides_ok (snd (markNoDriver i gen now ct s))"
proof (cases "fst (markNoDriver i gen now ct s)")
  case None
  then have "snd (markNoDriver i gen now ct s) = s"
    by (auto simp: markNoDriver_def Let_def split: option.splits if_splits prod.splits)
  with assms show ?thesis by (simp add: refines_refl)
next
  case (Some x)
  let ?f = "\<lambda>r. r\<lparr>r_status := No_driver, r_updatedAt := now\<rparr>" and ?s1 = "set_ride i (\<lambda>r. r\<lparr>r_status := No_driver, r_updatedAt := now\<rparr>) s"
  from Some obtain r where r: "ride_row s i = Some r" "r_status r = Requested" "r_driverId r = None"
      and s': "snd (markNoDriver i gen now ct s) = snd (revokeLiveForTrip (Solo i) None ct ?s1)"
    by (auto simp: markNoDriver_def lockSoloTrip_def Let_def split: option.splits if_splits prod.splits)
  have o1: "offers ?s1 = offers s" by simp
  have "refines s (snd (revokeLiveForTrip (Solo i) None ct ?s1))"
  proof (rule solo_finish_refines [OF assms(1) r(1), where f = ?f])
    show "guard_of (snd (revokeLiveForTrip (Solo i) None ct ?s1)) = (guard_of s)(Solo i := None)"
      using r by (intro guard_clear [OF assms(1)] guard_of_cong) (simp_all add: solo_driver_def)
    show "offer_keys (snd (revokeLiveForTrip (Solo i) None ct ?s1))"
      using assms(1) by (intro revoke_keys) (simp add: core_ok_def offer_keys_cong [OF o1])
  qed (use assms(1) in \<open>simp_all add: solo_driver_def solo_disp_def live_set_revoke live_set_cong [OF o1]
      core_ok_def guard_keys_def\<close>)
  moreover have "rides_ok (snd (revokeLiveForTrip (Solo i) None ct ?s1))"
  proof (rule rides_ok_upd [OF assms(2), where f = ?f])
    show "ride_shape (?f x)" if "x \<in> set (rides s)" "r_id x = i" "ride_shape x" for x
    proof -
      have "x = r" using that(1,2) r(1) row_mem [of r_id "rides s" x] assms(2) by (simp add: rides_ok_def)
      with that(3) r show ?thesis by (auto simp: ride_shape_def past_def)
    qed
  qed (simp_all add: scope_of_def)
  ultimately show ?thesis by (simp add: s')
qed

section \<open>Transitions\<close>

lemma transition_cases:
  assumes "transition i d a b clk s = (res, s')"
  obtains (err) e where "res = Inl e" "s' = s"
  | (ok) r where "res = Inr (advance_ride b clk r)" "ride_row s i = Some r" "r_driverId r = Some d" "r_status r = a"
      "s' = (let s1 = set_ride i (advance_ride b clk) s
             in if b \<in> TERMINAL_STATUSES then snd (release d (Solo i) s1) else s1)"
  using assms by (auto simp: transition_def Let_def split: option.splits if_splits)

lemma transition_ok:
  assumes "transition i d a b clk s = (res, s')" "core_ok s" "rides_ok s"
    and ab: "(a, b) \<in> {(Accepted, En_route), (En_route, Arrived), (Arrived, In_progress), (In_progress, Completed)}"
  shows "refines s s' \<and> rides_ok s'"
  using assms(1)
proof (cases rule: transition_cases)
  case err
  with assms show ?thesis by (simp add: refines_refl)
next
  case (ok r)
  let ?f = "advance_ride b clk" and ?s1 = "set_ride i (advance_ride b clk) s"
  have rs: "rides s' = upd (\<lambda>r. r_id r = i) ?f (rides s)" "shared_rides s' = shared_rides s" "offers s' = offers s"
    by (simp_all add: ok(5) Let_def)
  have "rides_ok s'"
  proof (rule rides_ok_upd [OF assms(3) rs(1)])
    show "ride_shape (?f x)" if "x \<in> set (rides s)" "r_id x = i" "ride_shape x" for x
    proof -
      have "x = r" using that(1,2) ok(2) row_mem [of r_id "rides s" x] assms(3) by (simp add: rides_ok_def)
      with that(3) ok(4) ab show ?thesis by (auto intro: advance_shape)
    qed
  qed simp_all
  moreover have "refines s s'"
  proof (cases "b = Completed")
    case True
    with ab ok(4) have st: "r_status r = In_progress" by auto
    have s': "s' = snd (release d (Solo i) ?s1)" using True by (simp add: ok(5) TERMINAL_STATUSES_def)
    have td: "trip_driver s (Solo i) = Some d" "disp s (Solo i) = None"
      using ok(2,3) st by (simp_all add: solo_driver_def solo_disp_def)
    show ?thesis
    proof (rule solo_finish_refines [OF assms(2) ok(2) _ _ _ rs(1,2)])
      show "guard_of s' = (guard_of s)(Solo i := None)" "guard_keys s'"
        unfolding s' using guard_released [OF assms(2) _ td(1), of ?s1] by simp_all
      show "offer_keys s'" using assms(2) offer_keys_cong [OF rs(3)] by (simp add: core_ok_def)
      show "live_set s' \<subseteq> live_set s - of_trip (Solo i)"
        using no_live_offers [OF assms(2) td(2)] live_set_cong [OF rs(3)] by auto
    qed (simp_all add: True solo_driver_def solo_disp_def)
  next
    case False
    with ab ok(4) have act: "active_status (r_status r)" "active_status b" "b \<notin> TERMINAL_STATUSES"
      by (auto simp: TERMINAL_STATUSES_def)
    then have s': "s' = ?s1" by (simp add: ok(5))
    have "trip_driver s' = (trip_driver s)(Solo i := solo_driver (?f r))"
      and "disp s' = (disp s)(Solo i := solo_disp (?f r))"
      using trip_driver_ride [OF rs(1,2) _ _ ok(2)] disp_ride [OF rs(1,2) _ _ ok(2)] row_key [OF ok(2)] by simp_all
    moreover have "solo_driver (?f r) = trip_driver s (Solo i)" "solo_disp (?f r) = disp s (Solo i)"
      using act ok(2,3) by (auto simp: solo_driver_def solo_disp_def)
    ultimately have v: "trip_driver s' = trip_driver s" "disp s' = disp s"
      by (simp_all add: fun_upd_idem)
    show ?thesis
      by (rule refines_keep [OF assms(2) _ _ v])
        (use assms(2) offer_keys_cong [OF rs(3)] live_set_cong [OF rs(3)] in \<open>simp_all add: s' core_ok_def\<close>)
  qed
  ultimately show ?thesis by simp
qed

lemma applyEvent_ok:
  assumes "core_ok s" "rides_ok s"
  shows "refines s (snd (applyEvent i d ev clk s)) \<and> rides_ok (snd (applyEvent i d ev clk s))"
proof (cases "transition_spec ev")
  case None
  with assms show ?thesis by (simp add: applyEvent_def refines_refl)
next
  case (Some ab)
  obtain a b where ab: "ab = (a, b)" by force
  obtain res s' where t: "transition i d a b clk s = (res, s')" by force
  then have "snd (applyEvent i d ev clk s) = s'"
    using Some ab by (auto simp: applyEvent_def split: sum.splits)
  then show ?thesis
    using transition_ok [OF t assms] transition_specD [of ev a b] Some ab by simp
qed

section \<open>Cancellation\<close>

lemma cancel_cases:
  assumes "cancel i who actorId isNoShow reason wait clk ct s = (res, s')"
  obtains (err) e where "res = Inl e" "s' = s"
  | (ok) r to where "ride_row s i = Some r" "cancel_target who actorId isNoShow wait clk r = Inr to"
      "res = Inr (cancel_ride to who reason clk r, fst (revokeLiveForTrip (Solo i) None ct s))"
      "s' = (let s2 = snd (revokeLiveForTrip (Solo i) None ct (set_ride i (cancel_ride to who reason clk) s))
             in case r_driverId r of None \<Rightarrow> s2 | Some d \<Rightarrow> snd (release d (Solo i) s2))"
proof (cases "ride_row s i")
  case None
  with assms show thesis by (intro err [of NotFound]) (simp_all add: cancel_def)
next
  case (Some r)
  show thesis
  proof (cases "cancel_target who actorId isNoShow wait clk r")
    case (Inl e)
    with assms Some show thesis by (intro err [of e]) (simp_all add: cancel_def)
  next
    case (Inr to)
    with assms Some show thesis
      by (intro ok [OF Some Inr]; cases "r_driverId r")
        (simp_all add: cancel_def Let_def split_beta revokeLiveForTrip_def)
  qed
qed

lemma cancel_ok:
  assumes "cancel i who actorId isNoShow reason wait clk ct s = (res, s')" "core_ok s" "rides_ok s"
  shows "refines s s' \<and> rides_ok s'"
  using assms(1)
proof (cases rule: cancel_cases)
  case err
  with assms show ?thesis by (simp add: refines_refl)
next
  case (ok r to)
  let ?f = "cancel_ride to who reason clk"
  let ?s1 = "set_ride i ?f s" and ?s2 = "snd (revokeLiveForTrip (Solo i) None ct (set_ride i ?f s))"
  have o1: "offers ?s1 = offers s" by simp
  have rs: "rides s' = upd (\<lambda>r. r_id r = i) ?f (rides s)" "shared_rides s' = shared_rides s" "offers s' = offers ?s2"
    by (simp_all add: ok(4) Let_def split: option.splits)
  have shape: "ride_shape r" using rides_ok_row [OF assms(3) ok(1)] by simp
  have to: "to \<in> {Cancelled, No_show}" using cancel_targetD [OF ok(2)] by auto
  have "rides_ok s'"
  proof (rule rides_ok_upd [OF assms(3) rs(1)])
    show "ride_shape (?f x)" if "x \<in> set (rides s)" "r_id x = i" "ride_shape x" for x
    proof -
      have "x = r" using that(1,2) ok(1) row_mem [of r_id "rides s" x] assms(3) by (simp add: rides_ok_def)
      with that(3) ok(2) show ?thesis by (auto intro: cancel_shape)
    qed
  qed simp_all
  moreover have "refines s s'"
  proof (rule solo_finish_refines [OF assms(2) ok(1) _ _ _ rs(1,2)])
    show "solo_driver (?f r) = None" "solo_disp (?f r) = None"
      using to by (auto simp: solo_driver_def solo_disp_def)
    have k: "offer_keys ?s2" using assms(2) by (intro revoke_keys) (simp add: core_ok_def offer_keys_cong [OF o1])
    then show "offer_keys s'" by (simp add: offer_keys_cong [OF rs(3)])
    show "live_set s' \<subseteq> live_set s - of_trip (Solo i)"
      by (simp add: live_set_cong [OF rs(3)] live_set_revoke live_set_cong [OF o1])
    have "guard_of s' = (guard_of s)(Solo i := None) \<and> guard_keys s'"
    proof (cases "r_driverId r")
      case None
      then have "trip_driver s (Solo i) = None" using ok(1) by (simp add: solo_driver_def)
      moreover have "assignments s' = assignments s" using None by (simp add: ok(4))
      ultimately show ?thesis
        using guard_clear [OF assms(2) guard_of_cong, of s' "Solo i"] assms(2)
        by (simp add: core_ok_def guard_keys_def)
    next
      case (Some d)
      then have s': "s' = snd (release d (Solo i) ?s2)" by (simp add: ok(4))
      have "active_status (r_status r)"
        using cancel_targetD [OF ok(2)] shape Some
        by (cases "r_status r") (simp_all add: ride_shape_def DRIVER_CANCELLABLE_def)
      then have "trip_driver s (Solo i) = Some d" using Some ok(1) by (simp add: solo_driver_def)
      then show ?thesis unfolding s' using guard_released [OF assms(2), of ?s2] by simp
    qed
    then show "guard_of s' = (guard_of s)(Solo i := None)" "guard_keys s'" by simp_all
  qed simp
  ultimately show ?thesis by simp
qed

lemma cancelService_snd:
  "snd (cancelService i who actorId isNoShow reason wait clk ct s) = snd (cancel i who actorId isNoShow reason wait clk ct s)"
  by (auto simp: cancelService_def split: prod.splits sum.splits)

end
