(* ===== verification/Outbox_Relay.thy ===== *)
theory Outbox_Relay
  imports Outbox
begin

text \<open>
  \<open>OutboxRelay\<close> (outbox.relay.ts): topic to job translation and the lease, publish, ack pass; the
  lease protocol as a transition system with its row invariant; what fencing, exclusive leases
  and acknowledged-only-after-published mean for the table.
\<close>

section \<open>Jobs\<close>

datatype job_data =
    StartData dispatch_kind uuid int
  | WakeData uuid int
  | ExpireData uuid
  | Wave2Data dispatch_kind uuid int
  | HardFailData dispatch_kind uuid int

record job =
  j_queue :: string
  j_name :: string
  j_id :: string
  j_data :: job_data
  j_delay :: int

definition start_job :: "dispatch_kind \<Rightarrow> uuid \<Rightarrow> int \<Rightarrow> job" where
  "start_job k i g =
     \<lparr>j_queue = ''dispatch'', j_name = ''dispatch:start'', j_id = dispatchStartJobId i g,
      j_data = StartData k i g, j_delay = 0\<rparr>"

text \<open>\<open>ScheduledDispatchService.scheduleWake\<close>: \<open>leadMs\<close> before the pickup, never in the past.\<close>

definition scheduleWake :: "int \<Rightarrow> instant \<Rightarrow> uuid \<Rightarrow> instant \<Rightarrow> int \<Rightarrow> job" where
  "scheduleWake leadMs now i scheduledFor g =
     \<lparr>j_queue = ''scheduled-dispatch'', j_name = ''scheduled:wake'', j_id = scheduledWakeJobId i g,
      j_data = WakeData i g, j_delay = max 0 (scheduledFor - leadMs - now)\<rparr>"

definition expire_job :: "instant \<Rightarrow> uuid \<Rightarrow> instant \<Rightarrow> job" where
  "expire_job now i expireAt =
     \<lparr>j_queue = ''matching'', j_name = ''pool:expire'', j_id = poolExpireJobId i,
      j_data = ExpireData i, j_delay = max 0 (expireAt - now)\<rparr>"

text \<open>
  \<open>publish\<close>: the job of a row, or the message of the \<open>PermanentPublishError\<close> when the topic is
  unknown or the payload's instant does not parse.
\<close>

definition publish :: "int \<Rightarrow> instant \<Rightarrow> outbox_row \<Rightarrow> string + job" where
  "publish leadMs now x =
     (case x_topic x of
        RideDispatchRequested \<Rightarrow> Inr (start_job KindSolo (x_aggregateId x) (x_generation x))
      | PoolDispatchRequested \<Rightarrow> Inr (start_job KindPool (x_aggregateId x) (x_generation x))
      | RideWakeSchedule \<Rightarrow>
          (case x_payload x of
             WakeAt (Some t) \<Rightarrow> Inr (scheduleWake leadMs now (x_aggregateId x) t (x_generation x))
           | _ \<Rightarrow> Inl ''invalid_payload:scheduledFor'')
      | PoolExpireSchedule \<Rightarrow>
          (case x_payload x of
             ExpireAt (Some t) \<Rightarrow> Inr (expire_job now (x_aggregateId x) t)
           | _ \<Rightarrow> Inl ''invalid_payload:expireAt'')
      | OtherTopic n \<Rightarrow> Inl ''unknown_topic'')"

section \<open>One drain pass\<close>

text \<open>
  The environment of a pass: the clock at each row, the message \<open>queue.add\<close> fails with (if it
  fails), and whether the ack or fail statement itself is lost.
\<close>

record relay_env =
  e_leadMs :: int
  e_clock :: "uuid \<Rightarrow> instant"
  e_addError :: "job \<Rightarrow> string option"
  e_ackLost :: "uuid \<Rightarrow> bool"
  e_failLost :: "uuid \<Rightarrow> bool"

record drain_state =
  d_table :: "outbox_row list"
  d_jobs :: "job list"
  d_published :: nat
  d_failed :: nat

definition recordFailure :: "relay_env \<Rightarrow> outbox_row \<Rightarrow> string \<Rightarrow> bool \<Rightarrow> drain_state \<Rightarrow> drain_state" where
  "recordFailure e x err permanent d =
     d\<lparr>d_failed := Suc (d_failed d),
       d_table := (if e_failLost e (x_id x) then d_table d
                   else snd (fail (x_id x) (the (x_leaseToken x)) err permanent (e_clock e (x_id x)) (d_table d)))\<rparr>"

definition recordPublished :: "relay_env \<Rightarrow> outbox_row \<Rightarrow> job \<Rightarrow> drain_state \<Rightarrow> drain_state" where
  "recordPublished e x j d =
     d\<lparr>d_published := Suc (d_published d), d_jobs := d_jobs d @ [j],
       d_table := (if e_ackLost e (x_id x) then d_table d
                   else snd (ack (x_id x) (the (x_leaseToken x)) (e_clock e (x_id x)) (d_table d)))\<rparr>"

definition drain_row :: "relay_env \<Rightarrow> outbox_row \<Rightarrow> drain_state \<Rightarrow> drain_state" where
  "drain_row e x d =
     (case publish (e_leadMs e) (e_clock e (x_id x)) x of
        Inl err \<Rightarrow> recordFailure e x err True d
      | Inr j \<Rightarrow>
          (case e_addError e j of
             Some err \<Rightarrow> recordFailure e x err False d
           | None \<Rightarrow> recordPublished e x j d))"

definition drain ::
  "relay_env \<Rightarrow> uuid set \<Rightarrow> (uuid \<Rightarrow> uuid) \<Rightarrow> instant \<Rightarrow> outbox_row list \<Rightarrow> drain_state" where
  "drain e locked tok now t =
     (let (rows, t') = lease 50 30000 locked tok now t
      in fold (drain_row e) rows \<lparr>d_table = t', d_jobs = [], d_published = 0, d_failed = 0\<rparr>)"

section \<open>The lease protocol as a transition system\<close>

definition row_ok :: "outbox_row \<Rightarrow> bool" where
  "row_ok x \<longleftrightarrow>
     \<not> (x_processedAt x \<noteq> None \<and> x_failedAt x \<noteq> None)
     \<and> (x_leaseToken x = None \<longleftrightarrow> x_leasedUntil x = None)
     \<and> (settled x \<longrightarrow> x_leaseToken x = None)"

definition table_ok :: "outbox_row list \<Rightarrow> bool" where
  "table_ok t \<longleftrightarrow> distinct (map x_id t) \<and> (\<forall>x \<in> set t. row_ok x)"

inductive relay_step :: "outbox_row list \<Rightarrow> outbox_row list \<Rightarrow> bool" where
  step_enqueue: "xid \<notin> x_id ` set t \<Longrightarrow> relay_step t (t @ [new_outbox_row m xid now])"
| step_lease: "relay_step t (snd (lease limit leaseMs locked tok now t))"
| step_ack: "relay_step t (snd (ack i token now t))"
| step_fail: "relay_step t (snd (fail i token err permanent now t))"
| step_rearm: "relay_step t (snd (rearm tp i g now t))"

inductive_cases relay_stepE: "relay_step t t'"

lemma upd_ok:
  "table_ok t \<Longrightarrow> (\<And>x. x_id (f x) = x_id x) \<Longrightarrow> (\<And>x. row_ok x \<Longrightarrow> P x \<Longrightarrow> row_ok (f x)) \<Longrightarrow> table_ok (upd P f t)"
  by (auto simp: table_ok_def set_upd)

lemma lease_id_due:
  "distinct (map x_id t) \<Longrightarrow> x \<in> set t \<Longrightarrow> x_id x \<in> set (lease_ids limit locked now t) \<Longrightarrow>
   due now x \<and> x_id x \<notin> locked"
  unfolding lease_ids_def
  by (auto dest!: in_set_takeD dest: distinct_map [THEN iffD1] simp: inj_on_eq_iff)

lemma lease_ok:
  assumes "table_ok t"
  shows "table_ok (snd (lease limit leaseMs locked tok now t))"
proof -
  let ?ids = "set (lease_ids limit locked now t)"
  have d: "distinct (map x_id t)" using assms by (simp add: table_ok_def)
  have "row_ok (take_lease leaseMs tok now x)" if "x \<in> set t" "x_id x \<in> ?ids" for x
    using lease_id_due [OF d that] by (auto simp: row_ok_def settled_def take_lease_def due_def)
  with assms show ?thesis
    by (auto simp: table_ok_def lease_def Let_def set_upd map_key_upd take_lease_def)
qed

lemma relay_step_ok: "relay_step t t' \<Longrightarrow> table_ok t \<Longrightarrow> table_ok t'"
proof (induction rule: relay_step.induct)
  case (step_enqueue xid t m now)
  then show ?case by (auto simp: table_ok_def row_ok_def settled_def)
next
  case (step_ack t i token now)
  then show ?case
    by (auto simp: ack_def row_ok_def owns_def settled_def intro!: upd_ok)
next
  case (step_fail t i token err permanent now)
  then show ?case
    by (auto simp: fail_def fail_row_def row_ok_def owns_def settled_def intro!: upd_ok)
next
  case (step_rearm t tp i g now)
  then show ?case
    by (auto simp: rearm_def row_ok_def settled_def intro!: upd_ok)
qed (rule lease_ok)

interpretation relay: transition_system "\<lambda>t. t = []" relay_step table_ok
proof unfold_locales
  show "table_ok s" if "s = []" for s
    using that by (simp add: table_ok_def)
  show "table_ok t" if "table_ok s" "relay_step s t" for s t
    using that by (blast intro: relay_step_ok)
qed

section \<open>Leases\<close>

lemma lease_fst: "x \<in> set (fst (lease limit leaseMs locked tok now t)) \<longleftrightarrow>
   (\<exists>y \<in> set t. x_id y \<in> set (lease_ids limit locked now t) \<and> x = take_lease leaseMs tok now y)"
  by (auto simp: lease_def Let_def)

lemma take_lease_sel [simp]:
  "x_id (take_lease ms tok now x) = x_id x"
  "x_topic (take_lease ms tok now x) = x_topic x"
  "x_aggregateId (take_lease ms tok now x) = x_aggregateId x"
  "x_generation (take_lease ms tok now x) = x_generation x"
  "x_payload (take_lease ms tok now x) = x_payload x"
  "x_processedAt (take_lease ms tok now x) = x_processedAt x"
  "x_failedAt (take_lease ms tok now x) = x_failedAt x"
  "x_availableAt (take_lease ms tok now x) = x_availableAt x"
  "x_maxAttempts (take_lease ms tok now x) = x_maxAttempts x"
  "x_attempts (take_lease ms tok now x) = Suc (x_attempts x)"
  "x_leaseToken (take_lease ms tok now x) = Some (tok (x_id x))"
  "x_leasedUntil (take_lease ms tok now x) = Some (now + ms)"
  by (simp_all add: take_lease_def)

lemma publish_take_lease [simp]: "publish lead now' (take_lease ms tok now x) = publish lead now' x"
  by (cases "x_topic x") (simp_all add: publish_def split: payload.splits option.splits)

lemma lease_ids_mem: "i \<in> set (lease_ids limit locked now t) \<Longrightarrow> i \<in> x_id ` set t"
  by (auto simp: lease_ids_def dest!: in_set_takeD)

lemma lease_length: "length (fst (lease limit leaseMs locked tok now t)) \<le> limit" if "distinct (map x_id t)"
proof -
  let ?f = "filter (\<lambda>x. x_id x \<in> set (lease_ids limit locked now t)) t"
  have "length (fst (lease limit leaseMs locked tok now t)) = card (x_id ` set ?f)"
    using that distinct_card [of "map x_id ?f"] by (simp add: lease_def Let_def distinct_map_filter)
  also have "x_id ` set ?f \<subseteq> set (lease_ids limit locked now t)" by auto
  then have "card (x_id ` set ?f) \<le> card (set (lease_ids limit locked now t))"
    by (rule card_mono [rotated]) simp
  also have "\<dots> \<le> limit"
    using card_length [of "lease_ids limit locked now t"] by (simp add: lease_ids_def)
  finally show ?thesis by simp
qed

lemma no_owner_upd: "\<not> list_ex (owns i token) t \<Longrightarrow> upd (owns i token) f t = t"
  by (rule upd_id) (auto simp: list_ex_iff)

lemma ack_not_owner: "\<not> list_ex (owns i token) t \<Longrightarrow> ack i token now t = (False, t)"
  by (simp add: ack_def no_owner_upd)

lemma fail_not_owner: "\<not> list_ex (owns i token) t \<Longrightarrow> fail i token err permanent now t = (LostLease, t)"
  by (auto simp: fail_def no_owner_upd list_ex_iff split: option.splits dest: find_Some_iff [THEN iffD1])

text \<open>
  A relay that lost its lease: the row was leased again with another token, so neither its late
  ack nor its late failure report finds the row.
\<close>

lemma relet_row_not_owned:
  assumes "i \<in> set (lease_ids limit locked now t)" "tok i \<noteq> token"
  shows "\<not> list_ex (owns i token) (snd (lease limit leaseMs locked tok now t))"
proof
  assume "list_ex (owns i token) (snd (lease limit leaseMs locked tok now t))"
  then obtain r y where "r = (if x_id y \<in> set (lease_ids limit locked now t) then take_lease leaseMs tok now y else y)"
      "x_id r = i" "x_leaseToken r = Some token"
    by (auto simp: list_ex_iff lease_def Let_def set_upd owns_def)
  then show False using assms by (cases "x_id y \<in> set (lease_ids limit locked now t)") auto
qed

section \<open>A drain pass\<close>

definition acked_published :: "relay_env \<Rightarrow> outbox_row list \<Rightarrow> outbox_row list \<Rightarrow> drain_state \<Rightarrow> bool" where
  "acked_published e t0 rows d \<longleftrightarrow>
     (\<forall>x' \<in> set (d_table d). x_processedAt x' \<noteq> None \<longrightarrow>
        (\<exists>x \<in> set t0. x_id x = x_id x' \<and> x_processedAt x \<noteq> None)
      \<or> (\<exists>x \<in> set rows. x_id x = x_id x' \<and>
           (\<exists>j \<in> set (d_jobs d). publish (e_leadMs e) (e_clock e (x_id x)) x = Inr j)))"

lemma fail_processed:
  "x' \<in> set (snd (fail i token err permanent now t)) \<Longrightarrow> x_processedAt x' \<noteq> None \<Longrightarrow> x' \<in> set t"
  by (auto simp: fail_def fail_row_def set_upd owns_def)

lemma ack_processed:
  "x' \<in> set (snd (ack i token now t)) \<Longrightarrow> x_processedAt x' \<noteq> None \<Longrightarrow> x' \<in> set t \<or> x_id x' = i"
  by (auto simp: ack_def set_upd owns_def split: if_splits)

lemma drain_row_acked_published:
  assumes "x \<in> set rows" "acked_published e t0 rows d"
  shows "acked_published e t0 rows (drain_row e x d)"
proof (cases "publish (e_leadMs e) (e_clock e (x_id x)) x")
  case (Inl err)
  with assms show ?thesis
    by (auto simp: drain_row_def recordFailure_def acked_published_def dest: fail_processed)
next
  case (Inr j)
  show ?thesis
  proof (cases "e_addError e j")
    case None
    with Inr have d': "drain_row e x d = recordPublished e x j d" by (simp add: drain_row_def)
    have jobs: "set (d_jobs d) \<subseteq> set (d_jobs (recordPublished e x j d))"
      and j: "j \<in> set (d_jobs (recordPublished e x j d))"
      by (auto simp: recordPublished_def)
    have tab: "x' \<in> set (d_table d) \<or> x_id x' = x_id x"
      if "x' \<in> set (d_table (recordPublished e x j d))" "x_processedAt x' \<noteq> None" for x'
      using that by (auto simp: recordPublished_def dest: ack_processed split: if_splits)
    show ?thesis
      unfolding d' acked_published_def
    proof (intro ballI impI)
      fix x' assume x': "x' \<in> set (d_table (recordPublished e x j d))" "x_processedAt x' \<noteq> None"
      show "(\<exists>x \<in> set t0. x_id x = x_id x' \<and> x_processedAt x \<noteq> None)
        \<or> (\<exists>y \<in> set rows. x_id y = x_id x' \<and> (\<exists>k \<in> set (d_jobs (recordPublished e x j d)).
             publish (e_leadMs e) (e_clock e (x_id y)) y = Inr k))"
        using tab [OF x']
      proof
        assume "x' \<in> set (d_table d)"
        with assms(2) x'(2) jobs show ?thesis unfolding acked_published_def by blast
      next
        assume "x_id x' = x_id x"
        with assms(1) Inr j show ?thesis by metis
      qed
    qed
  next
    case (Some err)
    with Inr assms show ?thesis
      by (auto simp: drain_row_def recordFailure_def acked_published_def dest: fail_processed)
  qed
qed

lemma fold_drain_acked_published:
  "set xs \<subseteq> set rows \<Longrightarrow> acked_published e t0 rows d \<Longrightarrow> acked_published e t0 rows (fold (drain_row e) xs d)"
  by (rule fold_invariant [where Q = "\<lambda>x. x \<in> set rows"]) (auto intro: drain_row_acked_published)

lemma drain_row_counts:
  "d_published (drain_row e x d) + d_failed (drain_row e x d) = Suc (d_published d + d_failed d)"
  "length (d_jobs (drain_row e x d)) - d_published (drain_row e x d) = length (d_jobs d) - d_published d"
  by (auto simp: drain_row_def recordFailure_def recordPublished_def split: sum.splits option.splits)

lemma fold_drain_counts:
  "d_published (fold (drain_row e) xs d) + d_failed (fold (drain_row e) xs d) = d_published d + d_failed d + length xs"
  by (induction xs arbitrary: d) (simp_all add: drain_row_counts(1))

section \<open>Retry budget and crash loops\<close>

text \<open>
  \<open>crash_run n\<close> is the table after a relay died \<open>n\<close> times between lease and ack: each time the
  lease has run out before the next relay takes the row. \<open>retry_run n\<close> is the table after \<open>n\<close>
  passes in which \<open>queue.add\<close> failed and the failure was recorded, 300 seconds apart.
\<close>

primrec crash_run :: "nat \<Rightarrow> int \<Rightarrow> (uuid \<Rightarrow> uuid) \<Rightarrow> instant \<Rightarrow> outbox_row list \<Rightarrow> outbox_row list" where
  "crash_run 0 ms tok now t = t"
| "crash_run (Suc n) ms tok now t = snd (lease 50 ms {} tok (now + int n * (ms + 1)) (crash_run n ms tok now t))"

primrec retry_run :: "nat \<Rightarrow> string \<Rightarrow> (uuid \<Rightarrow> uuid) \<Rightarrow> instant \<Rightarrow> uuid \<Rightarrow> outbox_row list \<Rightarrow> outbox_row list" where
  "retry_run 0 err tok now i t = t"
| "retry_run (Suc n) err tok now i t =
     (let clk = now + int n * 300000
      in snd (fail i (tok i) err False clk
           (snd (lease 50 30000 {} tok clk (retry_run n err tok now i t)))))"

lemma lease_singleton:
  "0 < limit \<Longrightarrow> x_id x \<notin> locked \<Longrightarrow>
   snd (lease limit ms locked tok now [x]) = [if due now x then take_lease ms tok now x else x]"
  by (cases limit) (auto simp: lease_def lease_ids_def Let_def)

lemma crash_run_row:
  assumes "0 \<le> ms" "g_availableAt m = None"
  shows "\<exists>x. crash_run n ms tok now [new_outbox_row m xid now] = [x] \<and> x_attempts x = n
    \<and> x_processedAt x = None \<and> x_failedAt x = None \<and> due (now + int n * (ms + 1)) x"
proof (induction n)
  case 0
  show ?case using assms(2) by (simp add: due_def new_outbox_row_def)
next
  case (Suc n)
  then obtain x where x: "crash_run n ms tok now [new_outbox_row m xid now] = [x]" "x_attempts x = n"
      "x_processedAt x = None" "x_failedAt x = None" "due (now + int n * (ms + 1)) x"
    by blast
  from x(5) have "x_availableAt x \<le> now + int n * (ms + 1)" by (simp add: due_def)
  with assms have "x_availableAt x \<le> now + int (Suc n) * (ms + 1)" by (simp add: algebra_simps)
  with x assms show ?case
    by (simp add: lease_singleton due_def algebra_simps)
qed

lemma retry_run_row:
  "g_availableAt m = None \<Longrightarrow> n \<le> 10 \<Longrightarrow> \<exists>x. retry_run n err tok now xid [new_outbox_row m xid now] = [x] \<and> x_id x = xid
    \<and> x_attempts x = n \<and> x_maxAttempts x = 10 \<and> x_processedAt x = None
    \<and> (x_failedAt x = None \<longleftrightarrow> n < 10) \<and> x_leasedUntil x = None
    \<and> x_availableAt x \<le> now + int n * 300000"
proof (induction n)
  case 0
  then show ?case by (simp add: new_outbox_row_def)
next
  case (Suc n)
  then obtain x where x: "retry_run n err tok now xid [new_outbox_row m xid now] = [x]" "x_id x = xid"
      "x_attempts x = n" "x_maxAttempts x = 10" "x_processedAt x = None" "x_failedAt x = None"
      "x_leasedUntil x = None" "x_availableAt x \<le> now + int n * 300000"
    by auto
  then have "due (now + int n * 300000) x" by (simp add: due_def)
  moreover have "backoff_ms (Suc n) \<le> 300000" by (simp add: backoff_ms_def)
  ultimately show ?case
    using x Suc.prems by (auto simp: Let_def lease_singleton fail_def owns_def fail_row_def)
qed

section \<open>Properties\<close>

text \<open>C28: A drain pass stamps \<open>processed_at\<close> only on rows whose job the queue accepted during
  this very pass (or that were stamped before it): for every processed row afterwards there is a
  row of the initial table with the same id that was processed already, or that published to a job
  in the pass's \<open>queue.add\<close> list. Whatever the environment loses, an intent is never marked done
  without its job existing.\<close>

lemma drain_acks_only_published:
  assumes "x' \<in> set (d_table (drain e locked tok now t))" "x_processedAt x' \<noteq> None"
  shows "\<exists>x \<in> set t. x_id x = x_id x' \<and>
    (x_processedAt x \<noteq> None
     \<or> (\<exists>j \<in> set (d_jobs (drain e locked tok now t)). publish (e_leadMs e) (e_clock e (x_id x)) x = Inr j))"
proof -
  define rows where "rows = fst (lease 50 30000 locked tok now t)"
  define t1 where "t1 = snd (lease 50 30000 locked tok now t)"
  let ?d0 = "\<lparr>d_table = t1, d_jobs = [], d_published = 0, d_failed = 0\<rparr>"
  have d: "drain e locked tok now t = fold (drain_row e) rows ?d0"
    by (simp add: drain_def rows_def t1_def split_beta)
  have "\<exists>x \<in> set t. x_id x = x_id y \<and> x_processedAt x \<noteq> None" if "y \<in> set t1" "x_processedAt y \<noteq> None" for y
    using that by (force simp: t1_def lease_def Let_def set_upd split: if_splits)
  then have "acked_published e t rows ?d0"
    by (simp add: acked_published_def)
  then have "acked_published e t rows (drain e locked tok now t)"
    unfolding d by (rule fold_drain_acked_published [rotated]) simp
  with assms consider (old) "\<exists>x \<in> set t. x_id x = x_id x' \<and> x_processedAt x \<noteq> None"
    | (new) x j where "x \<in> set rows" "x_id x = x_id x'" "j \<in> set (d_jobs (drain e locked tok now t))"
        "publish (e_leadMs e) (e_clock e (x_id x)) x = Inr j"
    unfolding acked_published_def by blast
  then show ?thesis
  proof cases
    case new
    then obtain y where "y \<in> set t" "x = take_lease 30000 tok now y"
      by (auto simp: rows_def lease_fst)
    with new show ?thesis by (intro bexI [of _ y]) auto
  qed auto
qed

text \<open>A pass publishes or fails every row it leased, and leases at most 50.\<close>

lemma drain_accounts_for_every_lease:
  "d_published (drain e locked tok now t) + d_failed (drain e locked tok now t)
   = length (fst (lease 50 30000 locked tok now t))"
  by (simp add: drain_def split_beta fold_drain_counts)

text \<open>A lease is exclusive until it expires: a second relay that leases at or before the
  first lease's end takes none of its rows.\<close>

lemma leases_are_exclusive:
  assumes "distinct (map x_id t)" "now2 \<le> now1 + leaseMs"
  shows "set (lease_ids limit2 locked2 now2 (snd (lease limit1 leaseMs locked1 tok now1 t)))
     \<inter> set (lease_ids limit1 locked1 now1 t) = {}"
proof -
  let ?t1 = "snd (lease limit1 leaseMs locked1 tok now1 t)"
  have d1: "distinct (map x_id ?t1)"
    using assms(1) by (simp add: lease_def Let_def map_key_upd)
  have False if i: "i \<in> set (lease_ids limit2 locked2 now2 ?t1)" "i \<in> set (lease_ids limit1 locked1 now1 t)" for i
  proof -
    obtain y where y: "y \<in> set ?t1" "x_id y = i" using lease_ids_mem [OF i(1)] by auto
    then have "due now2 y" using lease_id_due [OF d1 y(1)] i(1) by auto
    moreover from y i(2) have "x_leasedUntil y = Some (now1 + leaseMs)"
      by (simp add: lease_def Let_def set_upd) (metis take_lease_sel(1,12))
    ultimately show False using assms(2) by (simp add: due_def)
  qed
  then show ?thesis by blast
qed

text \<open>A relay whose lease ran out and was taken over is fenced: its late ack and its late
  failure report find no row and change nothing.\<close>

lemma stale_relay_is_fenced:
  assumes "i \<in> set (lease_ids limit locked now t)" "tok i \<noteq> token"
    and "t' = snd (lease limit leaseMs locked tok now t)"
  shows "ack i token now' t' = (False, t') \<and> fail i token err permanent now' t' = (LostLease, t')"
  using relet_row_not_owned [of i limit locked now t tok token leaseMs] assms(1,2) by (simp add: assms(3) ack_not_owner fail_not_owner)

text \<open>Every table the relay protocol reaches (enqueue, lease, ack, fail, rearm in any order)
  has unique ids, no row both processed and failed, a lease token exactly when there is a lease
  end, and no lease on a settled row.\<close>

lemma relay_tables_ok: "reach (\<lambda>t. t = []) relay_step t \<Longrightarrow> table_ok t"
  by (rule relay.reach_inv)

text \<open>The retry budget: a row whose publications keep failing transiently stays retryable for
  nine failures and is marked failed by the tenth, \<open>max_attempts\<close>.\<close>

lemma tenth_failure_exhausts:
  assumes "g_availableAt m = None" "n \<le> 10"
  shows "\<exists>x. retry_run n err tok now xid [new_outbox_row m xid now] = [x] \<and> x_attempts x = n
    \<and> (x_failedAt x \<noteq> None \<longleftrightarrow> n = 10)"
  using retry_run_row [OF assms, of err tok now xid] assms by fastforce

text \<open>A relay that dies between lease and ack is another matter: the lease statement never
  looks at \<open>max_attempts\<close>, so a row that kills every relay is leased again without bound, its
  attempt counter past any limit and \<open>failed_at\<close> never set.\<close>

lemma crash_loop_never_exhausts:
  assumes "0 \<le> ms" "g_availableAt m = None"
  shows "\<exists>x. crash_run n ms tok now [new_outbox_row m xid now] = [x] \<and> x_attempts x = n
    \<and> x_failedAt x = None \<and> due (now + int n * (ms + 1)) x"
  using crash_run_row [OF assms, of n tok now xid] by blast

text \<open>Enqueueing is idempotent: a second enqueue of the same topic, aggregate and generation
  after a first successful one inserts nothing and leaves the database as it is.\<close>

lemma enqueue_twice:
  assumes "enqueueOutbox m xid now s = Inr (b, s')"
    and "g_topic m' = g_topic m" "g_aggregateId m' = g_aggregateId m" "g_generation m' = g_generation m"
  shows "enqueueOutbox m' xid' now' s' = Inr (False, s')"
  using assms(1)
  by (cases rule: enqueueOutbox_cases)
    (use assms in \<open>auto simp: enqueueOutbox_def message_key_def split: if_splits\<close>)

text \<open>The deduplication key determines its intent.\<close>

lemma dedupe_key_determines_intent:
  assumes "known_topic t" "known_topic u" "isUuid i" "isUuid j" "0 \<le> g" "0 \<le> h"
    and "outboxDedupeKey t i g = outboxDedupeKey u j h"
  shows "t = u \<and> i = j \<and> g = h"
  using assms by (rule outboxDedupeKey_inject)

text \<open>Two different jobs of the dispatch queue never share a job id, and no job id contains
  the colon BullMQ forbids.\<close>

lemma dispatch_job_ids_unique:
  assumes "well_formed_job a" "well_formed_job b"
  shows "(dispatch_job_id a = dispatch_job_id b \<longleftrightarrow> a = b) \<and> CHR '':'' \<notin> set (dispatch_job_id a)"
proof -
  have "CHR '':'' \<notin> set (dispatch_job_id a)"
    using assms(1) job_ids_no_colon by (cases a) auto
  then show ?thesis using assms dispatch_job_id_inject by blast
qed

section \<open>Concrete runs\<close>

definition wit_message :: message where
  "wit_message = \<lparr>g_topic = RideDispatchRequested, g_aggregateType = AggRide, g_aggregateId = mk_uuid CHR ''1'',
     g_generation = 1, g_payload = DispatchRide (mk_uuid CHR ''1''), g_availableAt = None\<rparr>"

definition wit_row :: outbox_row where
  "wit_row = new_outbox_row wit_message (mk_uuid CHR ''a'') 0"

definition wit_env :: relay_env where
  "wit_env = \<lparr>e_leadMs = 0, e_clock = (\<lambda>_. 5), e_addError = (\<lambda>_. None), e_ackLost = (\<lambda>_. False),
     e_failLost = (\<lambda>_. False)\<rparr>"

lemma wit_lease: "lease 50 30000 {} mk 5 [wit_row] = ([take_lease 30000 mk 5 wit_row], [take_lease 30000 mk 5 wit_row])"
  by (simp add: lease_def lease_ids_def due_def wit_row_def wit_message_def new_outbox_row_def Let_def)

lemma wit_drain:
  "d_table (drain wit_env {} mk 5 [wit_row])
   = [(take_lease 30000 mk 5 wit_row)\<lparr>x_processedAt := Some 5, x_leaseToken := None, x_leasedUntil := None,
        x_lastError := None\<rparr>]"
  by (simp add: drain_def wit_lease drain_row_def wit_env_def publish_def recordPublished_def ack_def owns_def)
    (simp add: wit_row_def wit_message_def new_outbox_row_def publish_def recordPublished_def ack_def owns_def)

lemma drain_acks_only_published_witness:
  "\<exists>x \<in> set [wit_row]. x_id x = mk_uuid CHR ''a'' \<and>
    (x_processedAt x \<noteq> None
     \<or> (\<exists>j \<in> set (d_jobs (drain wit_env {} (\<lambda>i. i) 5 [wit_row])).
          publish 0 5 x = Inr j))"
  using drain_acks_only_published
      [of "(take_lease 30000 (\<lambda>i. i) 5 wit_row)\<lparr>x_processedAt := Some 5, x_leaseToken := None,
             x_leasedUntil := None, x_lastError := None\<rparr>" wit_env "{}" "\<lambda>i. i" 5 "[wit_row]"]
  unfolding wit_drain by (simp add: wit_env_def wit_row_def)

lemma relay_tables_ok_witness: "table_ok [wit_row]"
proof -
  have "relay_step [] [wit_row]"
    using step_enqueue [of "mk_uuid CHR ''a''" "[]" wit_message 0] by (simp add: wit_row_def)
  then have "reach (\<lambda>t. t = []) relay_step [wit_row]"
    by (blast intro: reach_step reach_init)
  then show ?thesis by (rule relay_tables_ok)
qed

lemma tenth_failure_exhausts_witness:
  "\<exists>x. retry_run 10 ''down'' (\<lambda>i. i) 0 (mk_uuid CHR ''a'') [wit_row] = [x] \<and> x_attempts x = 10
    \<and> x_failedAt x \<noteq> None"
  using tenth_failure_exhausts [of wit_message 10 "''down''" "\<lambda>i. i" 0 "mk_uuid CHR ''a''"]
  by (simp add: wit_row_def wit_message_def)

definition empty_db :: db where
  "empty_db = \<lparr>users = [], drivers = [], vehicles = [], rides = [], shared_rides = [], ride_stops = [],
     pool_members = [], offers = [], assignments = [], outbox = [], idem = []\<rparr>"

lemma dedupe_key_determines_intent_witness:
  "RideDispatchRequested = RideDispatchRequested \<and> mk_uuid CHR ''1'' = mk_uuid CHR ''1'' \<and> (1::int) = 1"
  by (rule dedupe_key_determines_intent) (simp_all add: isHex_def)

end
