(* ===== verification/Env_Config.thy ===== *)
theory Env_Config
  imports Schema
begin

text \<open>
  Numeric configuration (common/utils/env.ts). A JavaScript number is finite, infinite or NaN; a
  string setting is given by whether it is blank and by the number \<open>Number()\<close> reads from it.
\<close>

datatype js_number = Fin real | Infinite | NaN

datatype raw_value =
    RawAbsent \<comment> \<open>undefined or null\<close>
  | RawNumber js_number
  | RawText bool js_number \<comment> \<open>blank after trim, value of Number(raw)\<close>
  | RawOther

record number_options =
  n_integer :: bool
  n_min :: "real option"
  n_max :: "real option"

datatype config_error = NotFinite | NotInteger | TooSmall | TooLarge | Blank | NotNumeric

definition toNumber :: "raw_value \<Rightarrow> config_error + js_number" where
  "toNumber raw =
     (case raw of
        RawNumber n \<Rightarrow> Inr n
      | RawText blank n \<Rightarrow> if blank then Inl Blank else Inr n
      | RawAbsent \<Rightarrow> Inl NotNumeric
      | RawOther \<Rightarrow> Inl NotNumeric)"

definition parseNumberConfig :: "raw_value \<Rightarrow> real \<Rightarrow> number_options \<Rightarrow> config_error + real" where
  "parseNumberConfig raw defaultValue opts =
     (case (if raw = RawAbsent then Inr (Fin defaultValue) else toNumber raw) of
        Inl e \<Rightarrow> Inl e
      | Inr (Fin x) \<Rightarrow>
          if n_integer opts \<and> x \<noteq> real_of_int \<lfloor>x\<rfloor> then Inl NotInteger
          else if (case n_min opts of None \<Rightarrow> False | Some l \<Rightarrow> x < l) then Inl TooSmall
          else if (case n_max opts of None \<Rightarrow> False | Some h \<Rightarrow> h < x) then Inl TooLarge
          else Inr x
      | Inr _ \<Rightarrow> Inl NotFinite)"

definition getNumber :: "(string \<Rightarrow> raw_value) \<Rightarrow> string \<Rightarrow> real \<Rightarrow> number_options \<Rightarrow> config_error + real" where
  "getNumber config key defaultValue opts = parseNumberConfig (config key) defaultValue opts"

definition in_range :: "number_options \<Rightarrow> real \<Rightarrow> bool" where
  "in_range opts x \<longleftrightarrow>
     (n_integer opts \<longrightarrow> x \<in> Ints) \<and> (\<forall>l. n_min opts = Some l \<longrightarrow> l \<le> x) \<and> (\<forall>h. n_max opts = Some h \<longrightarrow> x \<le> h)"

lemma parseNumberConfig_in_range: "parseNumberConfig raw d opts = Inr x \<Longrightarrow> in_range opts x"
proof -
  assume *: "parseNumberConfig raw d opts = Inr x"
  have i: "y = real_of_int \<lfloor>y\<rfloor> \<Longrightarrow> y \<in> Ints" for y by (metis Ints_of_int)
  from * show ?thesis
    by (auto simp: parseNumberConfig_def in_range_def split: sum.splits js_number.splits if_splits option.splits intro: i)
qed

lemma getNumber_in_range: "getNumber config key d opts = Inr x \<Longrightarrow> in_range opts x"
  unfolding getNumber_def by (rule parseNumberConfig_in_range)

end
