(* ===== verification/Scheduled.thy ===== *)
theory Scheduled
  imports Ride_Lifecycle Outbox_Relay Env_Config
begin

text \<open>
  Scheduled rides (modules/scheduled, dispatch-start.service.ts): the wake that moves a ride from
  generation 0 to 1, the re-arm that gives a ride whose window closed a new generation and a new
  work intent, the window's configuration, and the removal of a pending wake job.
\<close>

section \<open>Window\<close>

record scheduled_window =
  w_waveOneMs :: real
  w_hardFailMs :: real

definition scheduledWindowFromConfig :: "(string \<Rightarrow> raw_value) \<Rightarrow> config_error + scheduled_window" where
  "scheduledWindowFromConfig config =
     (case getNumber config ''SCHEDULED_DISPATCH_WINDOW_MS'' 240000
             \<lparr>n_integer = True, n_min = Some 1, n_max = None\<rparr> of
        Inl e \<Rightarrow> Inl e
      | Inr h \<Rightarrow>
          (case getNumber config ''SCHEDULED_DISPATCH_WAVE_ONE_MS'' (real_of_int \<lfloor>h / 2\<rfloor>)
                  \<lparr>n_integer = True, n_min = Some 1, n_max = Some h\<rparr> of
             Inl e \<Rightarrow> Inl e
           | Inr w \<Rightarrow> Inr \<lparr>w_waveOneMs = w, w_hardFailMs = h\<rparr>))"

section \<open>Re-arm\<close>

record retry_result =
  rr_rideId :: uuid
  rr_passengerId :: uuid
  rr_previousGeneration :: int
  rr_generation :: int
  rr_retryCount :: int
  rr_firstRetry :: bool
  rr_revokedOffers :: "(uuid \<times> uuid) list"

definition rearmable :: "int option \<Rightarrow> ride \<Rightarrow> bool" where
  "rearmable expected r \<longleftrightarrow>
     r_type r = Scheduled \<and> r_status r = Requested \<and> r_driverId r = None \<and> 1 \<le> r_dispatchGeneration r
     \<and> (expected = None \<or> expected = Some (r_dispatchGeneration r))"

definition set_generation :: "int \<Rightarrow> instant \<Rightarrow> ride \<Rightarrow> ride" where
  "set_generation g now r = r\<lparr>r_dispatchGeneration := g, r_updatedAt := now\<rparr>"

definition rearmScheduledRide ::
  "uuid \<Rightarrow> int option \<Rightarrow> uuid \<Rightarrow> instant \<Rightarrow> instant \<Rightarrow> (db, retry_result option) tx" where
  "rearmScheduledRide i expected xid now ct s =
     (case ride_row s i of
        None \<Rightarrow> Inr (None, s)
      | Some r \<Rightarrow>
          if \<not> rearmable expected r then Inr (None, s)
          else let g = r_dispatchGeneration r + 1;
                   s1 = s\<lparr>rides := upd (\<lambda>x. r_id x = i \<and> r_dispatchGeneration x = r_dispatchGeneration r)
                           (set_generation g now) (rides s)\<rparr>;
                   (revoked, s2) = revokeLiveForTrip (Solo i) None ct s1
               in (case enqueueOutbox (ride_dispatch_message i g) xid now s2 of
                     Inl e \<Rightarrow> Inl e
                   | Inr (_, s3) \<Rightarrow>
                       Inr (Some \<lparr>rr_rideId = i, rr_passengerId = r_passengerId r,
                              rr_previousGeneration = r_dispatchGeneration r, rr_generation = g,
                              rr_retryCount = g - 1, rr_firstRetry = (g = 2), rr_revokedOffers = revoked\<rparr>, s3)))"

section \<open>Wake\<close>

definition wakeable :: "uuid \<Rightarrow> int \<Rightarrow> ride \<Rightarrow> bool" where
  "wakeable i g r \<longleftrightarrow>
     r_id r = i \<and> r_type r = Scheduled \<and> r_status r = Requested \<and> r_dispatchGeneration r \<in> {g - 1, g}"

text \<open>The guarded \<open>UPDATE\<close> of \<open>DispatchStartService.wakeScheduled\<close>; false means a stale wake.\<close>

definition wake_update :: "uuid \<Rightarrow> int \<Rightarrow> instant \<Rightarrow> db \<Rightarrow> bool \<times> db" where
  "wake_update i g now s =
     (list_ex (wakeable i g) (rides s), s\<lparr>rides := upd (wakeable i g) (set_generation g now) (rides s)\<rparr>)"

text \<open>A legacy wake job carries no generation and means 1 (scheduled.processor.ts).\<close>

definition wake_generation :: "int option \<Rightarrow> int" where
  "wake_generation g = (case g of None \<Rightarrow> 1 | Some g \<Rightarrow> g)"

text \<open>
  \<open>cancelWake\<close>: the generation-1 job and the legacy job; \<open>pending\<close> are the job ids the queue knows
  and \<open>removable\<close> those it lets go (an active or finished job stays).
\<close>

definition cancelWake :: "uuid \<Rightarrow> (string \<Rightarrow> bool) \<Rightarrow> string set \<Rightarrow> bool \<times> string set" where
  "cancelWake i removable pending =
     (let ids = {j \<in> {scheduledWakeJobId i 1, legacyWakeJobId i}. j \<in> pending \<and> removable j}
      in (ids \<noteq> {}, pending - ids))"

section \<open>Correctness\<close>

lemma set_generation_sel [simp]:
  "r_id (set_generation g now r) = r_id r" "r_status (set_generation g now r) = r_status r"
  "r_driverId (set_generation g now r) = r_driverId r" "r_type (set_generation g now r) = r_type r"
  "r_dispatchGeneration (set_generation g now r) = g" "scope_of (set_generation g now r) = scope_of r"
  by (simp_all add: set_generation_def scope_of_def)

lemma set_generation_shape: "ride_shape r \<Longrightarrow> 1 \<le> g \<Longrightarrow> ride_shape (set_generation g now r)"
  by (cases "r_status r") (simp_all add: ride_shape_def past_def set_generation_def)

lemma enqueue_sel:
  assumes "enqueueOutbox m xid now s = Inr (b, s')"
  shows "rides s' = rides s" "shared_rides s' = shared_rides s" "assignments s' = assignments s"
    "offers s' = offers s" "pool_members s' = pool_members s" "ride_stops s' = ride_stops s"
    "users s' = users s" "drivers s' = drivers s"
  using assms by (auto elim: enqueueOutbox_cases)

lemma rearm_cases:
  assumes "rearmScheduledRide i expected xid now ct s = Inr (res, s')"
  obtains (none) "res = None" "s' = s"
  | (retry) r s2 b where "ride_row s i = Some r" "rearmable expected r"
      "res = Some \<lparr>rr_rideId = i, rr_passengerId = r_passengerId r, rr_previousGeneration = r_dispatchGeneration r,
         rr_generation = r_dispatchGeneration r + 1, rr_retryCount = r_dispatchGeneration r,
         rr_firstRetry = (r_dispatchGeneration r = 1),
         rr_revokedOffers = map (\<lambda>x. (o_id x, o_driverId x)) (filter (live_for (Solo i) None) (offers s))\<rparr>"
      "s2 = snd (revokeLiveForTrip (Solo i) None ct
         (s\<lparr>rides := upd (\<lambda>x. r_id x = i \<and> r_dispatchGeneration x = r_dispatchGeneration r)
              (set_generation (r_dispatchGeneration r + 1) now) (rides s)\<rparr>))"
      "enqueueOutbox (ride_dispatch_message i (r_dispatchGeneration r + 1)) xid now s2 = Inr (b, s')"
proof (cases "ride_row s i")
  case None
  with assms show thesis by (intro none) (auto simp: rearmScheduledRide_def)
next
  case (Some r)
  show thesis
  proof (cases "rearmable expected r")
    case False
    with assms Some show thesis by (intro none) (auto simp: rearmScheduledRide_def)
  next
    case True
    let ?s2 = "snd (revokeLiveForTrip (Solo i) None ct
         (s\<lparr>rides := upd (\<lambda>x. r_id x = i \<and> r_dispatchGeneration x = r_dispatchGeneration r)
              (set_generation (r_dispatchGeneration r + 1) now) (rides s)\<rparr>))"
    obtain b s3 where e: "enqueueOutbox (ride_dispatch_message i (r_dispatchGeneration r + 1)) xid now ?s2 = Inr (b, s3)"
      using assms Some True
      by (auto simp: rearmScheduledRide_def Let_def revokeLiveForTrip_def split: sum.splits prod.splits)
    with assms Some True have "s3 = s'"
      by (simp add: rearmScheduledRide_def Let_def revokeLiveForTrip_def)
    with assms Some True e show thesis
      by (intro retry [OF Some True _ refl, of b]) (simp_all add: rearmScheduledRide_def Let_def revokeLiveForTrip_def)
  qed
qed

lemma rearm_ok:
  assumes "rearmScheduledRide i expected xid now ct s = Inr (res, s')" "core_ok s" "rides_ok s"
  shows "refines s s' \<and> rides_ok s'"
  using assms(1)
proof (cases rule: rearm_cases)
  case none
  with assms show ?thesis by (simp add: refines_refl)
next
  case (retry r s2 b)
  let ?P = "\<lambda>x. r_id x = i \<and> r_dispatchGeneration x = r_dispatchGeneration r"
  let ?f = "set_generation (r_dispatchGeneration r + 1) now"
  note sel = enqueue_sel [OF retry(5)]
  have rs: "rides s' = upd ?P ?f (rides s)" "shared_rides s' = shared_rides s" "assignments s' = assignments s"
      "offers s' = upd (live_for (Solo i) None) (resolve OfferRevoked ct) (offers s)"
    by (simp_all add: sel retry(4))
  have P: "?P r" and rq: "r_status r = Requested" "r_driverId r = None" "1 \<le> r_dispatchGeneration r"
    using retry(1,2) row_key [OF retry(1)] by (simp_all add: rearmable_def)
  have td: "trip_driver s' = (trip_driver s)(Solo i := solo_driver (?f r))"
    by (rule trip_driver_ride [OF rs(1,2) _ _ retry(1) P]) simp_all
  have di: "disp s' = (disp s)(Solo i := solo_disp (?f r))"
    by (rule disp_ride [OF rs(1,2) _ _ retry(1) P]) simp_all
  have "refines s s'"
  proof (rule refines_advance [OF assms(2)])
    show "disp s (Solo i) = Some (r_dispatchGeneration r)" using retry(1) rq by (simp add: solo_disp_def)
    show "trip_driver s' = trip_driver s"
      using td retry(1) rq by (simp add: solo_driver_def fun_eq_iff)
    show "disp s' = (disp s)(Solo i \<mapsto> r_dispatchGeneration r + 1)"
      using di rq by (simp add: solo_disp_def)
    show "offer_keys s'"
      using assms(2) revoke_keys [of s "Solo i" None ct] offer_keys_cong [of s' "snd (revokeLiveForTrip (Solo i) None ct s)"]
      by (simp add: rs(4) core_ok_def)
    show "live_set s' \<subseteq> live_set s - of_trip (Solo i)"
      using live_set_revoke [of "Solo i" ct s] live_set_cong [of s' "snd (revokeLiveForTrip (Solo i) None ct s)"]
      by (simp add: rs(4))
  qed (simp_all add: rs)
  moreover have "rides_ok s'"
    by (rule rides_ok_upd [OF assms(3) rs(1)]) (use rq in \<open>simp_all add: set_generation_shape\<close>)
  ultimately show ?thesis by simp
qed

text \<open>The wake of generation 1: a ride at 0 has no offers, a ride at 1 stays as it is.\<close>

lemma wake_ok:
  assumes "core_ok s" "rides_ok s"
  shows "refines s (snd (wake_update i 1 now s)) \<and> rides_ok (snd (wake_update i 1 now s))"
proof -
  let ?s' = "snd (wake_update i 1 now s)"
  have rs: "rides ?s' = upd (wakeable i 1) (set_generation 1 now) (rides s)" "shared_rides ?s' = shared_rides s"
      "assignments ?s' = assignments s" "offers ?s' = offers s"
    by (simp_all add: wake_update_def)
  have ok: "offer_keys ?s'" "live_set ?s' \<subseteq> live_set s"
    using assms(1) offer_keys_cong [OF rs(4)] live_set_cong [OF rs(4)] by (simp_all add: core_ok_def)
  have "rides_ok ?s'"
    by (rule rides_ok_upd [OF assms(2) rs(1)]) (simp_all add: set_generation_shape)
  moreover have "refines s ?s'"
  proof (cases "\<exists>r. ride_row s i = Some r \<and> wakeable i 1 r")
    case False
    then have "\<not> wakeable i 1 r" if "r \<in> set (rides s)" for r
      using that row_mem [of r_id "rides s" r] assms(1) by (auto simp: core_ok_def wakeable_def)
    then have "rides ?s' = rides s" unfolding rs(1) by (intro upd_id) simp
    then show ?thesis using rs by (intro refines_same [OF assms(1)])
  next
    case True
    then obtain r where r: "ride_row s i = Some r" "wakeable i 1 r" by blast
    have shape: "ride_shape r" using rides_ok_row [OF assms(2) r(1)] by simp
    then have rq: "r_status r = Requested" "r_driverId r = None"
      using r(2) by (simp_all add: wakeable_def ride_shape_def)
    have td: "trip_driver ?s' = (trip_driver s)(Solo i := solo_driver (set_generation 1 now r))"
      by (rule trip_driver_ride [OF rs(1,2) _ _ r]) (simp_all add: wakeable_def)
    have di: "disp ?s' = (disp s)(Solo i := solo_disp (set_generation 1 now r))"
      by (rule disp_ride [OF rs(1,2) _ _ r]) (simp_all add: wakeable_def)
    have td': "trip_driver ?s' = trip_driver s"
      using td r(1) rq by (simp add: solo_driver_def fun_eq_iff)
    have di': "disp ?s' = (disp s)(Solo i \<mapsto> 1)" using di rq by (simp add: solo_disp_def)
    have cur: "disp s (Solo i) = Some (r_dispatchGeneration r)" using r(1) rq by (simp add: solo_disp_def)
    show ?thesis
    proof (cases "r_dispatchGeneration r = 1")
      case True
      then have "disp ?s' = disp s" using di' cur by (simp add: fun_upd_idem)
      then show ?thesis by (intro refines_keep [OF assms(1)]) (use td' ok in \<open>simp_all add: rs\<close>)
    next
      case False
      then have g0: "r_dispatchGeneration r = 0" using r(2) by (simp add: wakeable_def)
      have "live_set s \<inter> of_trip (Solo i) = {}"
      proof -
        have "x \<notin> of_trip (Solo i)" if "x \<in> live_set s" for x
        proof
          assume "x \<in> of_trip (Solo i)"
          with that obtain ofr where "ofr \<in> set (offers s)" "is_live ofr" "o_trip ofr = Solo i"
            by (auto simp: live_set_def of_trip_def)
          then have "o_generation ofr = 0" "1 \<le> o_generation ofr"
            using assms(1) cur g0 by (auto simp: core_ok_def live_current_def offer_keys_def)
          then show False by simp
        qed
        then show ?thesis by blast
      qed
      then have "live_set ?s' \<subseteq> live_set s - of_trip (Solo i)" using live_set_cong [OF rs(4)] by auto
      then show ?thesis
        by (intro refines_advance [OF assms(1) _ _ cur, of ?s' 1]) (use td' di' ok g0 in \<open>simp_all add: rs\<close>)
    qed
  qed
  ultimately show ?thesis by simp
qed

text \<open>The window is an integer number of milliseconds, wave 2 opens within it.\<close>

lemma scheduledWindow_bounds:
  assumes "scheduledWindowFromConfig config = Inr w"
  shows "1 \<le> w_waveOneMs w \<and> w_waveOneMs w \<le> w_hardFailMs w \<and> w_hardFailMs w \<in> Ints \<and> w_waveOneMs w \<in> Ints"
  using assms
  by (auto simp: scheduledWindowFromConfig_def in_range_def split: sum.splits dest!: getNumber_in_range)

end
