(* ===== verification/Ride_Stops.thy ===== *)
theory Ride_Stops
  imports Trips
begin

text \<open>
  \<open>RideStopRepository\<close> (ride-stop.repository.ts): a pool's persisted itinerary and the two pool
  state changes that stop confirmations make.
\<close>

definition findByRideId :: "db \<Rightarrow> uuid \<Rightarrow> ride_stop list" where
  "findByRideId s i = sort_key s_sequenceIndex (filter (\<lambda>x. s_rideId x = i) (ride_stops s))"

definition pending_at :: "uuid \<Rightarrow> int \<Rightarrow> ride_stop \<Rightarrow> bool" where
  "pending_at i n x \<longleftrightarrow> s_rideId x = i \<and> s_sequenceIndex x = n \<and> s_confirmedAt x = None"

definition confirm :: "uuid \<Rightarrow> int \<Rightarrow> instant \<Rightarrow> db \<Rightarrow> ride_stop option \<times> db" where
  "confirm i n now s =
     (map_option (\<lambda>x. x\<lparr>s_confirmedAt := Some now\<rparr>) (find (pending_at i n) (ride_stops s)),
      s\<lparr>ride_stops := upd (pending_at i n) (\<lambda>x. x\<lparr>s_confirmedAt := Some now\<rparr>) (ride_stops s)\<rparr>)"

definition countPending :: "db \<Rightarrow> uuid \<Rightarrow> nat" where
  "countPending s i = length (filter (\<lambda>x. s_rideId x = i \<and> s_confirmedAt x = None) (ride_stops s))"

definition countAll :: "db \<Rightarrow> uuid \<Rightarrow> nat" where
  "countAll s i = length (filter (\<lambda>x. s_rideId x = i) (ride_stops s))"

definition completable :: "uuid \<Rightarrow> shared_ride \<Rightarrow> bool" where
  "completable i p \<longleftrightarrow> p_rideId p = i \<and> p_poolState p \<in> {ClosedFull, ClosedTimeout, ClosedStarted}"

definition markRideCompleted :: "uuid \<Rightarrow> instant \<Rightarrow> db \<Rightarrow> instant option \<times> db" where
  "markRideCompleted i now s =
     ((if list_ex (completable i) (shared_rides s) then Some now else None),
      update_pools (completable i)
        (\<lambda>p. p\<lparr>p_poolState := PoolCompleted, p_completedAt := Some now, p_updatedAt := now\<rparr>) now s)"

definition startable :: "uuid \<Rightarrow> shared_ride \<Rightarrow> bool" where
  "startable i p \<longleftrightarrow> p_rideId p = i \<and> p_poolState p \<in> {ClosedFull, ClosedTimeout}"

definition markRideStarted :: "uuid \<Rightarrow> instant \<Rightarrow> db \<Rightarrow> db" where
  "markRideStarted i now s =
     update_pools (startable i) (\<lambda>p. p\<lparr>p_poolState := ClosedStarted, p_updatedAt := now\<rparr>) now s"

lemma confirm_sel [simp]:
  "rides (snd (confirm i n now s)) = rides s" "shared_rides (snd (confirm i n now s)) = shared_rides s"
  "offers (snd (confirm i n now s)) = offers s" "assignments (snd (confirm i n now s)) = assignments s"
  "outbox (snd (confirm i n now s)) = outbox s" "pool_members (snd (confirm i n now s)) = pool_members s"
  "users (snd (confirm i n now s)) = users s" "drivers (snd (confirm i n now s)) = drivers s"
  "ride_stops (snd (confirm i n now s)) = upd (pending_at i n) (\<lambda>x. x\<lparr>s_confirmedAt := Some now\<rparr>) (ride_stops s)"
  by (simp_all add: confirm_def)

end
