(* ===== verification/Protocol.thy ===== *)
theory Protocol
  imports Schema
begin

text \<open>
  The vocabulary of the realtime protocol (realtime.protocol.ts) and of the accept decision
  (dispatch.types.ts): the refusal reasons, the outcome a driver is shown for each, the version
  that orders a solo ride's statuses, and the broadcast view of a pool.
\<close>

datatype accept_failure =
    OfferNotFound | OfferExpiredF | OfferDeclinedF | OfferRevokedF | OfferStale
  | TripTaken | TripNotClaimable | ItineraryMissing
  | DriverBusy | DriverIneligibleF | VehicleCapacityF | Conflict

record accept_ok =
  ac_trip :: trip_ref
  ac_generation :: int
  ac_replay :: bool

type_synonym accept_result = "accept_failure + accept_ok"

datatype offer_outcome = Assigned | Lost | ExpiredOutcome | RevokedOutcome | Rejected

primrec outcomeForAcceptFailure :: "accept_failure \<Rightarrow> offer_outcome" where
  "outcomeForAcceptFailure TripTaken = Lost"
| "outcomeForAcceptFailure OfferExpiredF = ExpiredOutcome"
| "outcomeForAcceptFailure OfferStale = ExpiredOutcome"
| "outcomeForAcceptFailure OfferRevokedF = RevokedOutcome"
| "outcomeForAcceptFailure TripNotClaimable = RevokedOutcome"
| "outcomeForAcceptFailure OfferNotFound = Rejected"
| "outcomeForAcceptFailure OfferDeclinedF = Rejected"
| "outcomeForAcceptFailure ItineraryMissing = Rejected"
| "outcomeForAcceptFailure DriverBusy = Rejected"
| "outcomeForAcceptFailure DriverIneligibleF = Rejected"
| "outcomeForAcceptFailure VehicleCapacityF = Rejected"
| "outcomeForAcceptFailure Conflict = Rejected"

primrec rideStatusVersion :: "ride_status \<Rightarrow> nat" where
  "rideStatusVersion Requested = 1"
| "rideStatusVersion Dispatching = 2"
| "rideStatusVersion Accepted = 3"
| "rideStatusVersion En_route = 4"
| "rideStatusVersion Arrived = 5"
| "rideStatusVersion In_progress = 6"
| "rideStatusVersion Completed = 10"
| "rideStatusVersion Cancelled = 10"
| "rideStatusVersion No_driver = 10"
| "rideStatusVersion No_show = 10"

definition terminal_ride :: "ride_status \<Rightarrow> bool" where
  "terminal_ride st \<longleftrightarrow> st \<in> {Completed, Cancelled, No_driver, No_show}"

record pool_update =
  pu_sharedRideId :: uuid
  pu_version :: int
  pu_seatCount :: int
  pu_maxSeats :: int
  pu_poolStatus :: pool_state
  pu_terminal :: bool
  pu_driverId :: "uuid option"

definition poolUpdatePayload :: "shared_ride \<Rightarrow> pool_update" where
  "poolUpdatePayload p =
     \<lparr>pu_sharedRideId = p_rideId p, pu_version = p_stateVersion p, pu_seatCount = p_seatCount p,
      pu_maxSeats = p_maxSeats p, pu_poolStatus = p_poolState p,
      pu_terminal = (p_poolState p \<in> {PoolAborted, PoolCompleted}), pu_driverId = p_claimedByDriverId p\<rparr>"

end
