(* ===== verification/Dispatch.thy ===== *)
theory Dispatch
  imports Scheduled Ride_Stops Protocol
begin

text \<open>
  \<open>DispatchService\<close> (dispatch.service.ts): the accept transaction with its bounded retry, the
  waves of offers, the wave and hard-fail timers, and \<open>DispatchStartService\<close>. What a handler
  delivers or enqueues after its transactions is a list of effects; Redis and BullMQ are outside
  the repository, so the geo search is the argument \<open>geo\<close> and queue calls are effects.
\<close>

section \<open>Accept\<close>

text \<open>\<open>withTxRetry\<close>: retry a deadlock or serialization victim at most \<open>k\<close> more times.\<close>

definition isRetryableTxError :: "db_error \<Rightarrow> bool" where
  "isRetryableTxError e \<longleftrightarrow> e = Deadlock_detected \<or> e = Serialization_failure"

fun retry_from :: "nat \<Rightarrow> nat \<Rightarrow> (nat \<Rightarrow> 's \<Rightarrow> (db_error + 'a) \<times> 's) \<Rightarrow> 'a \<Rightarrow> 's \<Rightarrow> (db_error + 'a) \<times> 's" where
  "retry_from k attempt run exhausted s =
     (case run attempt s of
        (Inr a, s') \<Rightarrow> (Inr a, s')
      | (Inl e, s') \<Rightarrow>
          if \<not> isRetryableTxError e then (Inl e, s')
          else (case k of 0 \<Rightarrow> (Inr exhausted, s') | Suc k' \<Rightarrow> retry_from k' (Suc attempt) run exhausted s'))"

declare retry_from.simps [simp del]

definition withTxRetry :: "(nat \<Rightarrow> 's \<Rightarrow> (db_error + 'a) \<times> 's) \<Rightarrow> 'a \<Rightarrow> nat \<Rightarrow> 's \<Rightarrow> (db_error + 'a) \<times> 's" where
  "withTxRetry run exhausted maxRetries s = retry_from maxRetries 0 run exhausted s"

type_synonym accept_outcome = "accept_result \<times> (uuid \<times> uuid) list"

definition rejected :: "accept_failure \<Rightarrow> accept_outcome" where
  "rejected r = (Inl r, [])"

text \<open>Step 1: the trip row's driver and generation, \<open>None\<close> when the row is gone.\<close>

definition lock_trip :: "db \<Rightarrow> trip_ref \<Rightarrow> (uuid option \<times> int) option" where
  "lock_trip s t =
     (case t of
        Solo i \<Rightarrow> map_option (\<lambda>r. (r_driverId r, r_dispatchGeneration r)) (lockSoloTrip s i)
      | Shared i \<Rightarrow> map_option (\<lambda>p. (p_claimedByDriverId p, p_dispatchGeneration p)) (lockSharedTrip s i))"

text \<open>Step 5: the trip's state, and the seats the driver's vehicle needs.\<close>

definition trip_check :: "db \<Rightarrow> trip_ref \<Rightarrow> accept_failure + int" where
  "trip_check s t =
     (case t of
        Solo i \<Rightarrow>
          (case lockSoloTrip s i of
             None \<Rightarrow> Inl TripNotClaimable
           | Some r \<Rightarrow>
               if r_driverId r \<noteq> None then Inl TripTaken
               else if r_status r \<noteq> Requested then Inl TripNotClaimable
               else Inr 1)
      | Shared i \<Rightarrow>
          (case lockSharedTrip s i of
             None \<Rightarrow> Inl TripNotClaimable
           | Some p \<Rightarrow>
               if p_claimedByDriverId p \<noteq> None then Inl TripTaken
               else if \<not> claimable_pool (p_poolState p) then Inl TripNotClaimable
               else if p_seatCount p < 1 \<or> int (countAll s i) \<noteq> 2 * p_seatCount p then Inl ItineraryMissing
               else Inr (p_seatCount p)))"

primrec eligibility_failure :: "driver_eligibility \<Rightarrow> accept_failure option" where
  "eligibility_failure EligibleOk = None"
| "eligibility_failure DriverIneligible = Some DriverIneligibleF"
| "eligibility_failure VehicleCapacity = Some VehicleCapacityF"

text \<open>What an offer that is neither live nor accepted answers (step 3).\<close>

definition resolved_failure :: "offer_state \<Rightarrow> uuid option \<Rightarrow> uuid \<Rightarrow> accept_failure" where
  "resolved_failure st takenBy d =
     (if st = OfferRevoked \<and> takenBy \<noteq> None \<and> takenBy \<noteq> Some d then TripTaken
      else case st of
          OfferDeclined \<Rightarrow> OfferDeclinedF
        | OfferExpired \<Rightarrow> OfferExpiredF
        | _ \<Rightarrow> OfferRevokedF)"

text \<open>Steps 7 and 8: guard, trip row, winning offer, losing offers.\<close>

definition claim_steps :: "offer \<Rightarrow> uuid \<Rightarrow> trip_ref \<Rightarrow> instant \<Rightarrow> instant \<Rightarrow> (db, accept_outcome) tx" where
  "claim_steps ofr d t now ct s =
     (case acquire d t (Some (o_id ofr)) (o_generation ofr) now s of
        Inl e \<Rightarrow> Inl e
      | Inr (AcquireBusy, s1) \<Rightarrow> Inr (rejected DriverBusy, s1)
      | Inr (AcquireTaken, s1) \<Rightarrow> Inr (rejected TripTaken, s1)
      | Inr (AcquireOk, s1) \<Rightarrow>
          (case (case t of Solo i \<Rightarrow> andThen (claimSoloRow i d (o_generation ofr) now) (\<lambda>_. ret ())
                         | Shared i \<Rightarrow> claimSharedRow i d (o_generation ofr) now) s1 of
             Inl e \<Rightarrow> Inl e
           | Inr (_, s2) \<Rightarrow>
               (case markAccepted (o_id ofr) ct s2 of
                  Inl e \<Rightarrow> Inl e
                | Inr (_, s3) \<Rightarrow>
                    (let (revoked, s4) = revokeLiveForTrip t (Some (o_id ofr)) ct s3
                     in Inr ((Inr \<lparr>ac_trip = t, ac_generation = o_generation ofr, ac_replay = False\<rparr>, revoked), s4)))))"

definition acceptInTx :: "uuid \<Rightarrow> uuid \<Rightarrow> trip_ref \<Rightarrow> instant \<Rightarrow> instant \<Rightarrow> (db, accept_outcome) tx" where
  "acceptInTx oid d t now ct s =
     (case lock_trip s t of
        None \<Rightarrow> Inr (rejected TripNotClaimable, s)
      | Some (takenBy, tripGen) \<Rightarrow>
     (case lockForUpdate s oid of
        None \<Rightarrow> Inr (rejected OfferNotFound, s)
      | Some ofr \<Rightarrow>
          if o_driverId ofr \<noteq> d then Inr (rejected OfferNotFound, s)
          else if o_state ofr = OfferAccepted then
            (case findByTrip s t of
               Some g \<Rightarrow>
                 if a_driverId g = d \<and> a_generation g = o_generation ofr
                 then Inr ((Inr \<lparr>ac_trip = t, ac_generation = o_generation ofr, ac_replay = True\<rparr>, []), s)
                 else Inr (rejected TripNotClaimable, s)
             | None \<Rightarrow> Inr (rejected TripNotClaimable, s))
          else if o_state ofr \<noteq> Offered then Inr (rejected (resolved_failure (o_state ofr) takenBy d), s)
          else if lapsed ct ofr then Inr (rejected OfferExpiredF, snd (resolveLive oid OfferExpired ct s))
          else if o_generation ofr \<noteq> tripGen then Inr (rejected OfferStale, snd (resolveLive oid OfferRevoked ct s))
          else
            (case trip_check s t of
               Inl r \<Rightarrow> Inr (rejected r, s)
             | Inr seatsNeeded \<Rightarrow>
                 (case eligibility_failure (driverEligibility s d seatsNeeded) of
                    Some r \<Rightarrow> Inr (rejected r, s)
                  | None \<Rightarrow> claim_steps ofr d t now ct s))))"

section \<open>Effects\<close>

datatype revoke_reason = Taken | Revoked | Unavailable

datatype effect =
    EmitRideOffer uuid uuid trip_ref instant int \<comment> \<open>driver, offer, trip, expiry, wave\<close>
  | EmitOfferAccepted uuid uuid trip_ref
  | EmitOutcome uuid uuid offer_outcome "trip_ref option"
  | EmitOfferRevoked uuid uuid "trip_ref option" revoke_reason
  | EmitRideState uuid ride_status nat
  | EmitNoDriver uuid uuid \<comment> \<open>passenger, ride\<close>
  | EmitDispatchRetry uuid uuid int \<comment> \<open>passenger, ride, retry count\<close>
  | SetCurrentRide uuid uuid
  | ProjectPool uuid
  | PublishPoolUpdate uuid
  | RemoveJob string
  | AddJob job

definition notifyAcceptRejected :: "uuid \<Rightarrow> uuid \<Rightarrow> trip_ref option \<Rightarrow> accept_failure \<Rightarrow> effect list" where
  "notifyAcceptRejected d oid t reason =
     (if \<not> isUuid d then []
      else [EmitOfferRevoked d oid t (if reason = TripTaken then Taken else Unavailable),
            EmitOutcome d oid (outcomeForAcceptFailure reason) t])"

definition notifyRevoked :: "trip_ref \<Rightarrow> (uuid \<times> uuid) list \<Rightarrow> revoke_reason \<Rightarrow> effect list" where
  "notifyRevoked t revoked reason =
     concat (map (\<lambda>(oid, d).
       [EmitOfferRevoked d oid (Some t) reason,
        EmitOutcome d oid (if reason = Taken then Lost else RevokedOutcome) (Some t)]) revoked)"

definition removeTimers :: "uuid \<Rightarrow> int option \<Rightarrow> effect list" where
  "removeTimers i g =
     map RemoveJob ([legacyWave2JobId i, legacyHardFailJobId i]
       @ (case g of None \<Rightarrow> [] | Some g \<Rightarrow> if 1 \<le> g then [wave2JobId i g, hardFailJobId i g] else []))"

definition releaseDispatch :: "db \<Rightarrow> uuid \<Rightarrow> int option \<Rightarrow> effect list" where
  "releaseDispatch s i g =
     removeTimers i (case g of Some g \<Rightarrow> Some g | None \<Rightarrow> map_option r_dispatchGeneration (findById s i))"

definition afterAccepted :: "uuid \<Rightarrow> uuid \<Rightarrow> accept_ok \<Rightarrow> (uuid \<times> uuid) list \<Rightarrow> effect list" where
  "afterAccepted d oid r revoked =
     (let t = ac_trip r; i = tripId t; shared = (case t of Solo _ \<Rightarrow> False | Shared _ \<Rightarrow> True)
      in [SetCurrentRide d i]
         @ (if ac_replay r then [] else removeTimers i (Some (ac_generation r)))
         @ (if shared then [ProjectPool i] else [])
         @ [EmitOfferAccepted d oid t, EmitOutcome d oid Assigned (Some t)]
         @ (if ac_replay r then []
            else notifyRevoked t revoked Taken
                 @ (if shared then [PublishPoolUpdate i] else [EmitRideState i Accepted (rideStatusVersion Accepted)])))"

text \<open>
  \<open>acceptOffer\<close>: \<open>abort n\<close> is the concurrency failure Postgres aborts attempt \<open>n\<close> with, if any;
  the two clocks are those of attempt \<open>n\<close>.
\<close>

definition acceptOffer ::
  "uuid \<Rightarrow> uuid \<Rightarrow> (nat \<Rightarrow> db_error option) \<Rightarrow> (nat \<Rightarrow> instant) \<Rightarrow> (nat \<Rightarrow> instant) \<Rightarrow> db
   \<Rightarrow> (db_error + accept_result \<times> effect list) \<times> db" where
  "acceptOffer oid d abort now ct s =
     (if \<not> isUuid oid \<or> \<not> isUuid d
      then (Inr (Inl OfferNotFound, notifyAcceptRejected d oid None OfferNotFound), s)
      else
        (case findForDriver s oid d of
           None \<Rightarrow> (Inr (Inl OfferNotFound, notifyAcceptRejected d oid None OfferNotFound), s)
         | Some seen \<Rightarrow>
             (case withTxRetry
                     (\<lambda>n s. case abort n of
                         Some e \<Rightarrow> (Inl e, s)
                       | None \<Rightarrow> transaction (acceptInTx oid d (o_trip seen) (now n) (ct n)) s)
                     (rejected Conflict) 2 s of
                (Inl e, s') \<Rightarrow> (Inl e, s')
              | (Inr (Inr ok, revoked), s') \<Rightarrow> (Inr (Inr ok, afterAccepted d oid ok revoked), s')
              | (Inr (Inl reason, revoked), s') \<Rightarrow>
                  (Inr (Inl reason,
                        if reason = Conflict then [] else notifyAcceptRejected d oid (Some (o_trip seen)) reason), s'))))"

section \<open>Waves\<close>

record dispatch_params =
  k1 :: nat
  k2 :: nat
  r1Meters :: real
  r2Meters :: real
  waveOneTimeoutMs :: int
  hardFailMs :: int
  scheduledWindow :: "int \<times> int" \<comment> \<open>wave-2 delay and window of a scheduled ride\<close>

record wave_env =
  e_geo :: "real \<Rightarrow> real \<Rightarrow> real \<Rightarrow> nat \<Rightarrow> uuid list" \<comment> \<open>lng, lat, radius, COUNT\<close>
  e_ct :: instant
  e_locked :: "uuid \<Rightarrow> uuid set"
  e_oid :: "uuid \<Rightarrow> uuid"
  e_now :: "uuid \<Rightarrow> instant"
  e_clk :: "uuid \<Rightarrow> instant"
  e_addFails :: "job \<Rightarrow> bool"

definition waveParams :: "dispatch_params \<Rightarrow> int \<Rightarrow> nat \<times> real" where
  "waveParams c w = (if w = 1 then (k1 c, r1Meters c) else (k2 c, r2Meters c))"

definition selectCandidates ::
  "wave_env \<Rightarrow> db \<Rightarrow> trip_ref \<Rightarrow> int \<Rightarrow> real \<Rightarrow> real \<Rightarrow> nat \<Rightarrow> real \<Rightarrow> int \<Rightarrow> uuid list" where
  "selectCandidates e s t g lat lng k radius seatsNeeded =
     (let offered = remdups (offeredDriverIds s t g);
          raw = e_geo e lng lat radius (k * 4 + length offered);
          fresh = filter (\<lambda>d. d \<notin> set offered) raw
      in take k (eligibleCandidates s fresh seatsNeeded (e_ct e)))"

text \<open>
  A handler's result: the error it threw, if any, and the effects it had until then.
\<close>

type_synonym handler_result = "(db_error option \<times> effect list) \<times> db"

text \<open>The loop over the candidates: one transaction each, a \<open>null\<close> offer is skipped.\<close>

fun offer_loop :: "wave_env \<Rightarrow> trip_ref \<Rightarrow> int \<Rightarrow> int \<Rightarrow> uuid list \<Rightarrow> db \<Rightarrow> handler_result" where
  "offer_loop e t g w [] s = ((None, []), s)"
| "offer_loop e t g w (d # ds) s =
     (case createOffer t d g w 12000 (e_locked e d) (e_oid e d) (e_now e d) (e_clk e d) s of
        Inl err \<Rightarrow> ((Some err, []), s)
      | Inr (None, s') \<Rightarrow> offer_loop e t g w ds s'
      | Inr (Some (oid, expiresAt), s') \<Rightarrow>
          (case offer_loop e t g w ds s' of
             ((err, effs), s'') \<Rightarrow> ((err, EmitRideOffer d oid t expiresAt w # effs), s'')))"

definition timer_jobs :: "dispatch_params \<Rightarrow> uuid \<Rightarrow> dispatch_kind \<Rightarrow> int \<Rightarrow> bool \<Rightarrow> job list" where
  "timer_jobs c i kind g scheduled =
     (let (wave, hard) = (if scheduled then scheduledWindow c else (waveOneTimeoutMs c, hardFailMs c))
      in [\<lparr>j_queue = ''dispatch'', j_name = ''dispatch:wave-timeout'', j_id = wave2JobId i g,
           j_data = Wave2Data kind i g, j_delay = wave\<rparr>,
          \<lparr>j_queue = ''dispatch'', j_name = ''dispatch:hard-fail'', j_id = hardFailJobId i g,
           j_data = HardFailData kind i g, j_delay = hard\<rparr>])"

fun add_jobs :: "wave_env \<Rightarrow> job list \<Rightarrow> db_error option \<times> effect list" where
  "add_jobs e [] = (None, [])"
| "add_jobs e (j # js) =
     (if e_addFails e j then (Some (App_error ''queue.add failed''), [])
      else case add_jobs e js of (err, effs) \<Rightarrow> (err, AddJob j # effs))"

definition scheduleTimers ::
  "dispatch_params \<Rightarrow> wave_env \<Rightarrow> uuid \<Rightarrow> dispatch_kind \<Rightarrow> int \<Rightarrow> bool \<Rightarrow> db_error option \<times> effect list" where
  "scheduleTimers c e i kind g scheduled = add_jobs e (timer_jobs c i kind g scheduled)"

definition with_timers :: "handler_result \<Rightarrow> db_error option \<times> effect list \<Rightarrow> handler_result" where
  "with_timers r timers =
     (case r of
        ((Some e, effs), s) \<Rightarrow> ((Some e, effs), s)
      | ((None, effs), s) \<Rightarrow> ((fst timers, effs @ snd timers), s))"

definition runSoloWave ::
  "dispatch_params \<Rightarrow> wave_env \<Rightarrow> ride \<Rightarrow> int \<Rightarrow> int \<Rightarrow> db \<Rightarrow> handler_result" where
  "runSoloWave c e r w g s =
     (if g < 1 then ((Some (App_error ''runSoloWave: no dispatch generation''), []), s)
      else let (k, radius) = waveParams c w;
               ds = selectCandidates e s (Solo (r_id r)) g (r_originLat r) (r_originLng r) k radius 1
           in with_timers (offer_loop e (Solo (r_id r)) g w ds s)
                (if w = 1 then scheduleTimers c e (r_id r) KindSolo g (r_type r = Scheduled) else (None, [])))"

definition runPoolWave ::
  "dispatch_params \<Rightarrow> wave_env \<Rightarrow> shared_ride \<Rightarrow> int \<Rightarrow> int \<Rightarrow> db \<Rightarrow> handler_result" where
  "runPoolWave c e p w g s =
     (if g < 1 then ((Some (App_error ''runPoolWave: no dispatch generation''), []), s)
      else let (k, radius) = waveParams c w;
               ds = (if p_seatCount p < 1 \<or> int (length (findByRideId s (p_rideId p))) \<noteq> 2 * p_seatCount p then []
                     else selectCandidates e s (Shared (p_rideId p)) g (p_originLat p) (p_originLng p) k radius
                            (p_seatCount p))
           in with_timers (offer_loop e (Shared (p_rideId p)) g w ds s)
                (if w = 1 then scheduleTimers c e (p_rideId p) KindPool g False else (None, [])))"

section \<open>Timers\<close>

text \<open>A job from before Stage C has no kind (a pool) and no generation (the current one).\<close>

record timer_job =
  tj_rideId :: uuid
  tj_waveNumber :: int
  tj_kind :: "dispatch_kind option"
  tj_generation :: "int option"

definition job_generation :: "timer_job \<Rightarrow> int \<Rightarrow> int" where
  "job_generation j cur = (case tj_generation j of None \<Rightarrow> cur | Some g \<Rightarrow> g)"

definition handleWaveTimeout ::
  "dispatch_params \<Rightarrow> wave_env \<Rightarrow> timer_job \<Rightarrow> db \<Rightarrow> handler_result" where
  "handleWaveTimeout c e j s =
     (let w = (if tj_waveNumber j = 1 then 1 else 2) in
      if tj_kind j = Some KindSolo then
        (case findById s (tj_rideId j) of
           None \<Rightarrow> ((None, []), s)
         | Some r \<Rightarrow>
             if r_status r \<noteq> Requested \<or> r_driverId r \<noteq> None then ((None, []), s)
             else let g = job_generation j (r_dispatchGeneration r) in
               if g \<noteq> r_dispatchGeneration r \<or> g < 1 then ((None, []), s)
               else runSoloWave c e r w g s)
      else
        (case pool_row s (tj_rideId j) of
           None \<Rightarrow> ((None, []), s)
         | Some p \<Rightarrow>
             if p_claimedByDriverId p \<noteq> None \<or> \<not> claimable_pool (p_poolState p) then ((None, []), s)
             else let g = job_generation j (p_dispatchGeneration p) in
               if g \<noteq> p_dispatchGeneration p \<or> g < 1 then ((None, []), s)
               else runPoolWave c e p w g s))"

definition retryScheduledRide ::
  "uuid \<Rightarrow> int option \<Rightarrow> uuid \<Rightarrow> instant \<Rightarrow> instant \<Rightarrow> db \<Rightarrow> handler_result" where
  "retryScheduledRide i g xid now ct s =
     (case transaction (rearmScheduledRide i g xid now ct) s of
        (Inl e, s') \<Rightarrow> ((Some e, []), s')
      | (Inr None, s') \<Rightarrow> ((None, []), s')
      | (Inr (Some r), s') \<Rightarrow>
          ((None, notifyRevoked (Solo i) (rr_revokedOffers r) Revoked
                @ (if rr_firstRetry r then [EmitDispatchRetry (rr_passengerId r) i (rr_retryCount r)] else [])
                @ removeTimers i (Some (rr_previousGeneration r))), s'))"

text \<open>The pool's hard-fail transaction: abort at the job's generation, revoke the live offers.\<close>

definition abort_tx :: "uuid \<Rightarrow> int option \<Rightarrow> instant \<Rightarrow> instant \<Rightarrow> db \<Rightarrow> (int \<times> (uuid \<times> uuid) list) option \<times> db" where
  "abort_tx i gen now ct s =
     (case lockSharedTrip s i of
        None \<Rightarrow> (None, s)
      | Some p \<Rightarrow>
          let g = (case gen of None \<Rightarrow> p_dispatchGeneration p | Some g \<Rightarrow> g) in
          if g \<noteq> p_dispatchGeneration p \<or> g < 1 then (None, s)
          else (case abortUnclaimedPool i g now s of
                  (False, s1) \<Rightarrow> (None, s1)
                | (True, s1) \<Rightarrow> let (revoked, s2) = revokeLiveForTrip (Shared i) None ct s1 in (Some (g, revoked), s2)))"

definition handleHardFail ::
  "timer_job \<Rightarrow> uuid \<Rightarrow> instant \<Rightarrow> instant \<Rightarrow> db \<Rightarrow> handler_result" where
  "handleHardFail j xid now ct s =
     (let i = tj_rideId j in
      if tj_kind j = Some KindSolo then
        (if (case findById s i of None \<Rightarrow> False | Some r \<Rightarrow> r_type r = Scheduled)
         then retryScheduledRide i (tj_generation j) xid now ct s
         else (case markNoDriver i (tj_generation j) now ct s of
                 (None, s') \<Rightarrow> ((None, []), s')
               | (Some (r, revoked), s') \<Rightarrow>
                   ((None, notifyRevoked (Solo i) revoked Revoked
                         @ [EmitNoDriver (r_passengerId r) i, EmitRideState i No_driver (rideStatusVersion No_driver)]
                         @ removeTimers i (Some (r_dispatchGeneration r))), s')))
      else
        (case abort_tx i (tj_generation j) now ct s of
           (None, s') \<Rightarrow> ((None, []), s')
         | (Some (g, revoked), s') \<Rightarrow>
             ((None, notifyRevoked (Shared i) revoked Revoked @ removeTimers i (Some g)
                   @ [ProjectPool i, PublishPoolUpdate i]), s')))"

section \<open>Dispatch start\<close>

datatype start_outcome = Started | Stale

definition startSolo ::
  "dispatch_params \<Rightarrow> wave_env \<Rightarrow> uuid \<Rightarrow> int \<Rightarrow> db \<Rightarrow> start_outcome \<times> handler_result" where
  "startSolo c e i g s =
     (case findById s i of
        None \<Rightarrow> (Stale, ((None, []), s))
      | Some r \<Rightarrow>
          if r_status r \<noteq> Requested \<or> r_dispatchGeneration r \<noteq> g then (Stale, ((None, []), s))
          else Pair Started (runSoloWave c e r 1 g s))"

definition startPool ::
  "dispatch_params \<Rightarrow> wave_env \<Rightarrow> uuid \<Rightarrow> int \<Rightarrow> db \<Rightarrow> start_outcome \<times> handler_result" where
  "startPool c e i g s =
     (case pool_row s i of
        None \<Rightarrow> (Stale, ((None, []), s))
      | Some p \<Rightarrow>
          if \<not> (p_poolState p \<in> {ClosedFull, ClosedTimeout} \<and> p_claimedByDriverId p = None
                 \<and> p_dispatchGeneration p = g)
          then (Stale, ((None, []), s))
          else Pair Started (runPoolWave c e p 1 g s))"

definition wakeScheduled ::
  "dispatch_params \<Rightarrow> wave_env \<Rightarrow> uuid \<Rightarrow> int \<Rightarrow> instant \<Rightarrow> db \<Rightarrow> start_outcome \<times> handler_result" where
  "wakeScheduled c e i g now s =
     (case wake_update i g now s of
        (False, s') \<Rightarrow> (Stale, ((None, []), s'))
      | (True, s') \<Rightarrow> startSolo c e i g s')"

text \<open>The \<open>dispatch\<close> queue's worker (dispatch.processor.ts) on the three job kinds.\<close>

fun process_job ::
  "dispatch_params \<Rightarrow> wave_env \<Rightarrow> uuid \<Rightarrow> instant \<Rightarrow> instant \<Rightarrow> job_data \<Rightarrow> db \<Rightarrow> handler_result" where
  "process_job c e xid now ct (StartData k i g) s =
     snd (if k = KindPool then startPool c e i g s else startSolo c e i g s)"
| "process_job c e xid now ct (Wave2Data k i g) s =
     handleWaveTimeout c e \<lparr>tj_rideId = i, tj_waveNumber = 2, tj_kind = Some k, tj_generation = Some g\<rparr> s"
| "process_job c e xid now ct (HardFailData k i g) s =
     handleHardFail \<lparr>tj_rideId = i, tj_waveNumber = 2, tj_kind = Some k, tj_generation = Some g\<rparr> xid now ct s"
| "process_job c e xid now ct (WakeData i g) s = ((None, []), s)"
| "process_job c e xid now ct (ExpireData i) s = ((None, []), s)"

end
