(* ===== verification/Idempotency.thy ===== *)
theory Idempotency
  imports Schema
begin

text \<open>
  The account-scoped idempotency contract (idempotency.ts) and the durable record of a shared
  create (\<open>IdempotencyRepository\<close>, idempotency.repository.ts): the primary key lets one first use
  win, an abandoned claim is taken over by the same request only, and a completed record replays.
  SHA-256 is not part of the repository, so the digest is the argument \<open>sha\<close> of the fingerprint.
\<close>

section \<open>Keys and fingerprints\<close>

datatype http_error =
    Bad_request string
  | Conflict_error string
  | Unprocessable string
  | Not_found_error string
  | Forbidden_error string

text \<open>\<open>KEY_PATTERN\<close>: 1 to 128 characters from \<open>0x21\<close> to \<open>0x7e\<close>; an absent or empty header is no key.\<close>

definition key_char :: "char \<Rightarrow> bool" where
  "key_char c \<longleftrightarrow> 33 \<le> (of_char c :: nat) \<and> (of_char c :: nat) \<le> 126"

definition parseIdempotencyKey :: "string option \<Rightarrow> bool \<Rightarrow> http_error + string option" where
  "parseIdempotencyKey raw required =
     (case raw of
        None \<Rightarrow> if required then Inl (Bad_request ''idempotency_key_required'') else Inr None
      | Some k \<Rightarrow>
          if k = '''' then (if required then Inl (Bad_request ''idempotency_key_required'') else Inr None)
          else if length k \<le> 128 \<and> list_all key_char k then Inr (Some k)
          else Inl (Bad_request ''idempotency_key_invalid''))"

text \<open>
  \<open>Number(n).toFixed(6)\<close> for a coordinate: the sign, then the micro-degrees rounded half up.
\<close>

definition coord :: "real \<Rightarrow> bool \<times> int" where
  "coord n = (n < 0, \<lfloor>\<bar>n\<bar> * 10 ^ 6 + 1 / 2\<rfloor>)"

text \<open>
  The raw \<open>scheduledFor\<close> text and the epoch instant \<open>new Date\<close> reads from it, if it parses.
\<close>

record fingerprint_input =
  fi_originLat :: real
  fi_originLng :: real
  fi_destLat :: real
  fi_destLng :: real
  fi_scheduledFor :: "(string \<times> instant option) option"

datatype canonical_time = NullTime | TextTime string | MsTime instant

type_synonym canonical =
  "idem_operation \<times> ((bool \<times> int) \<times> (bool \<times> int)) \<times> ((bool \<times> int) \<times> (bool \<times> int)) \<times> canonical_time"

definition canonical_intent :: "idem_operation \<Rightarrow> fingerprint_input \<Rightarrow> canonical" where
  "canonical_intent oper f =
     (oper, (coord (fi_originLat f), coord (fi_originLng f)), (coord (fi_destLat f), coord (fi_destLng f)),
      if oper \<noteq> OpScheduled then NullTime
      else case fi_scheduledFor f of
          None \<Rightarrow> NullTime
        | Some (txt, ms) \<Rightarrow> (case ms of Some t \<Rightarrow> MsTime t | None \<Rightarrow> TextTime txt))"

definition requestFingerprint :: "(canonical \<Rightarrow> string) \<Rightarrow> idem_operation \<Rightarrow> fingerprint_input \<Rightarrow> string" where
  "requestFingerprint sha oper f = sha (canonical_intent oper f)"

definition fingerprintMatches :: "string option \<Rightarrow> string \<Rightarrow> bool" where
  "fingerprintMatches stored incoming \<longleftrightarrow> stored = None \<or> stored = Some incoming"

definition PENDING_RECLAIM_AFTER_MS :: int where
  "PENDING_RECLAIM_AFTER_MS = 60000"

section \<open>Repository\<close>

record idem_scope =
  sc_principalId :: uuid
  sc_operation :: idem_operation
  sc_key :: string

definition scopeWhere :: "idem_scope \<Rightarrow> idem_record \<Rightarrow> bool" where
  "scopeWhere sc r \<longleftrightarrow>
     i_principalId r = sc_principalId sc \<and> i_operation r = sc_operation sc \<and> i_key r = sc_key sc"

definition new_claim :: "idem_scope \<Rightarrow> string \<Rightarrow> instant \<Rightarrow> idem_record" where
  "new_claim sc fp now =
     \<lparr>i_principalId = sc_principalId sc, i_operation = sc_operation sc, i_key = sc_key sc, i_fingerprint = fp,
      i_state = IdemPending, i_resourceId = None, i_response = None, i_createdAt = now, i_completedAt = None\<rparr>"

text \<open>\<open>INSERT ... ON CONFLICT DO NOTHING\<close>, then the foreign key; true when the row is new.\<close>

definition insert_claim :: "idem_scope \<Rightarrow> string \<Rightarrow> instant \<Rightarrow> (db, bool) tx" where
  "insert_claim sc fp now s =
     (if list_ex (scopeWhere sc) (idem s) then Inr (False, s)
      else if sc_principalId sc \<notin> u_id ` set (users s)
      then Inl (Foreign_key_violation ''idempotency_record_principal_id_fkey'')
      else Inr (True, s\<lparr>idem := idem s @ [new_claim sc fp now]\<rparr>))"

definition stale_claim :: "idem_scope \<Rightarrow> string \<Rightarrow> instant \<Rightarrow> idem_record \<Rightarrow> bool" where
  "stale_claim sc fp clk r \<longleftrightarrow>
     scopeWhere sc r \<and> i_state r = IdemPending \<and> i_fingerprint r = fp
     \<and> i_createdAt r < clk - PENDING_RECLAIM_AFTER_MS"

definition reclaimStale :: "idem_scope \<Rightarrow> string \<Rightarrow> instant \<Rightarrow> instant \<Rightarrow> db \<Rightarrow> instant option \<times> db" where
  "reclaimStale sc fp clk now s =
     (map_option i_createdAt (List.find (stale_claim sc fp clk) (idem s)),
      s\<lparr>idem := upd (stale_claim sc fp clk) (\<lambda>r. r\<lparr>i_createdAt := now\<rparr>) (idem s)\<rparr>)"

definition find_claim :: "idem_scope \<Rightarrow> db \<Rightarrow> idem_record option" where
  "find_claim sc s = List.find (scopeWhere sc) (idem s)"

datatype idem_claim =
    Claimed
  | Reclaimed instant
  | Existing string idem_state "uuid option" "seat_response option"

text \<open>
  \<open>claim\<close> is three statements, each its own transaction; \<open>other1\<close> and \<open>other2\<close> are what concurrent
  sessions commit in between.
\<close>

definition claim ::
  "idem_scope \<Rightarrow> string \<Rightarrow> instant \<Rightarrow> instant \<Rightarrow> (db \<Rightarrow> db) \<Rightarrow> (db \<Rightarrow> db) \<Rightarrow> (db, idem_claim) tx" where
  "claim sc fp clk now other1 other2 s =
     (case insert_claim sc fp now s of
        Inl e \<Rightarrow> Inl e
      | Inr (True, s') \<Rightarrow> Inr (Claimed, s')
      | Inr (False, s') \<Rightarrow>
          (case reclaimStale sc fp clk now (other1 s') of
             (Some t, s2) \<Rightarrow> Inr (Reclaimed t, s2)
           | (None, s2) \<Rightarrow>
               let s3 = other2 s2 in
               (case find_claim sc s3 of
                  None \<Rightarrow> Inr (Existing fp IdemPending None None, s3)
                | Some r \<Rightarrow> Inr (Existing (i_fingerprint r) (i_state r) (i_resourceId r) (i_response r), s3))))"

definition completeIn :: "idem_scope \<Rightarrow> uuid \<Rightarrow> seat_response \<Rightarrow> instant \<Rightarrow> db \<Rightarrow> db" where
  "completeIn sc rid resp clk s =
     s\<lparr>idem := upd (scopeWhere sc)
        (\<lambda>r. r\<lparr>i_state := IdemCompleted, i_resourceId := Some rid, i_response := Some resp, i_completedAt := Some clk\<rparr>)
        (idem s)\<rparr>"

definition release_claim :: "idem_scope \<Rightarrow> db \<Rightarrow> db" where
  "release_claim sc s = s\<lparr>idem := del (\<lambda>r. scopeWhere sc r \<and> i_state r = IdemPending) (idem s)\<rparr>"

section \<open>Correctness\<close>

lemma completeIn_sel [simp]:
  "rides (completeIn sc rid resp clk s) = rides s" "shared_rides (completeIn sc rid resp clk s) = shared_rides s"
  "offers (completeIn sc rid resp clk s) = offers s" "assignments (completeIn sc rid resp clk s) = assignments s"
  "outbox (completeIn sc rid resp clk s) = outbox s" "pool_members (completeIn sc rid resp clk s) = pool_members s"
  "ride_stops (completeIn sc rid resp clk s) = ride_stops s" "users (completeIn sc rid resp clk s) = users s"
  "drivers (completeIn sc rid resp clk s) = drivers s" "vehicles (completeIn sc rid resp clk s) = vehicles s"
  by (simp_all add: completeIn_def)

definition scope_key :: "idem_record \<Rightarrow> uuid \<times> idem_operation \<times> string" where
  "scope_key r = (i_principalId r, i_operation r, i_key r)"

text \<open>The table's shape: one row per scope; a completed row carries its result, a pending one none.\<close>

definition claim_shape :: "idem_record \<Rightarrow> bool" where
  "claim_shape r \<longleftrightarrow> (i_state r = IdemCompleted) = (i_response r \<noteq> None)
     \<and> (i_state r = IdemCompleted) = (i_resourceId r \<noteq> None)"

definition idem_ok :: "db \<Rightarrow> bool" where
  "idem_ok s \<longleftrightarrow> distinct (map scope_key (idem s)) \<and> (\<forall>r \<in> set (idem s). claim_shape r)"

lemma claim_shape_simps [simp]:
  "claim_shape (new_claim sc fp now)"
  "claim_shape (r\<lparr>i_createdAt := t\<rparr>) = claim_shape r"
  "claim_shape (r\<lparr>i_state := IdemCompleted, i_resourceId := Some rid, i_response := Some resp, i_completedAt := c\<rparr>)"
  by (simp_all add: claim_shape_def new_claim_def)

lemma scopeWhere_key: "scopeWhere sc = (\<lambda>r. scope_key r = (sc_principalId sc, sc_operation sc, sc_key sc))"
  by (simp add: scopeWhere_def scope_key_def fun_eq_iff)

lemma new_claim_key [simp]: "scope_key (new_claim sc fp now) = (sc_principalId sc, sc_operation sc, sc_key sc)"
  by (simp add: scope_key_def new_claim_def)

lemma insert_claim_ok: "insert_claim sc fp now s = Inr (b, s') \<Longrightarrow> idem_ok s \<Longrightarrow> idem_ok s'"
  by (auto simp: insert_claim_def idem_ok_def scopeWhere_key list_ex_iff split: if_splits) blast

lemma reclaim_ok: "idem_ok s \<Longrightarrow> idem_ok (snd (reclaimStale sc fp clk now s))"
  by (auto simp: reclaimStale_def idem_ok_def set_upd map_key_upd scope_key_def)

lemma completeIn_ok: "idem_ok s \<Longrightarrow> idem_ok (completeIn sc rid resp clk s)"
  by (auto simp: completeIn_def idem_ok_def set_upd map_key_upd scope_key_def)

lemma release_claim_ok: "idem_ok s \<Longrightarrow> idem_ok (release_claim sc s)"
  by (auto simp: release_claim_def idem_ok_def set_del distinct_map_del)

lemma idem_ok_cong: "idem s' = idem s \<Longrightarrow> idem_ok s' = idem_ok s"
  by (simp add: idem_ok_def)

text \<open>In a well-formed table a scope names at most one row.\<close>

lemma find_claim_row: "find_claim sc s = row scope_key (idem s) (sc_principalId sc, sc_operation sc, sc_key sc)"
  by (simp add: find_claim_def row_def scopeWhere_key)

lemma find_claim_mem: "idem_ok s \<Longrightarrow> r \<in> set (idem s) \<Longrightarrow> scopeWhere sc r \<Longrightarrow> find_claim sc s = Some r"
  using row_mem [of scope_key "idem s" r] by (simp add: find_claim_row scopeWhere_key idem_ok_def)

lemma find_claim_upd:
  "(\<And>r. scope_key (f r) = scope_key r) \<Longrightarrow>
   List.find (scopeWhere sc) (upd P f t) = map_option (\<lambda>r. if P r then f r else r) (List.find (scopeWhere sc) t)"
  using row_upd [of scope_key f P t "(sc_principalId sc, sc_operation sc, sc_key sc)"]
  by (simp add: row_def scopeWhere_key)

lemma find_claim_SomeD: "find_claim sc s = Some r \<Longrightarrow> r \<in> set (idem s) \<and> scopeWhere sc r"
  by (auto simp: find_claim_def find_Some_iff)

section \<open>The claim protocol as a contract\<close>

text \<open>
  What the shared create relies on: the first claim wins, a second one sees it, a completed scope
  replays its response for ever, and a release frees only what was never completed.
\<close>

locale claim_store =
  fixes ok :: "'s \<Rightarrow> bool"
    and claimed :: "idem_scope \<Rightarrow> string \<Rightarrow> 's \<Rightarrow> 's option" \<comment> \<open>\<open>None\<close>: the scope is taken\<close>
    and look :: "idem_scope \<Rightarrow> 's \<Rightarrow> (string \<times> seat_response option) option"
    and finish :: "idem_scope \<Rightarrow> uuid \<Rightarrow> seat_response \<Rightarrow> 's \<Rightarrow> 's"
    and abandon :: "idem_scope \<Rightarrow> 's \<Rightarrow> 's"
  assumes claimed_ok: "ok s \<Longrightarrow> claimed sc fp s = Some s' \<Longrightarrow> ok s'"
    and claimed_new: "ok s \<Longrightarrow> claimed sc fp s = Some s' \<Longrightarrow> look sc s = None \<and> look sc s' = Some (fp, None)"
    and claimed_taken: "ok s \<Longrightarrow> look sc s \<noteq> None \<Longrightarrow> claimed sc fp s = None"
    and claimed_other: "ok s \<Longrightarrow> claimed sc fp s = Some s' \<Longrightarrow> look sc s' = Some x \<Longrightarrow> sc' \<noteq> sc \<Longrightarrow> look sc' s' = look sc' s"
    and finish_ok: "ok s \<Longrightarrow> ok (finish sc rid resp s)"
    and finish_look: "ok s \<Longrightarrow> look sc (finish sc rid resp s) = map_option (\<lambda>(fp, _). (fp, Some resp)) (look sc s)"
    and finish_other: "ok s \<Longrightarrow> sc' \<noteq> sc \<Longrightarrow> look sc' (finish sc rid resp s) = look sc' s"
    and abandon_ok: "ok s \<Longrightarrow> ok (abandon sc s)"
    and abandon_completed: "ok s \<Longrightarrow> look sc s = Some (fp, Some resp) \<Longrightarrow> look sc (abandon sc s) = Some (fp, Some resp)"
    and abandon_pending: "ok s \<Longrightarrow> look sc s = Some (fp, None) \<Longrightarrow> look sc (abandon sc s) = None"
    and abandon_other: "ok s \<Longrightarrow> sc' \<noteq> sc \<Longrightarrow> look sc' (abandon sc s) = look sc' s"
begin

text \<open>Claim, finish, and any later abandon of the scope: the response stays, the scope stays taken.\<close>

lemma completed_survives:
  assumes "ok s" "claimed sc fp s = Some s1"
  shows "look sc (abandon sc (finish sc rid resp s1)) = Some (fp, Some resp)"
    and "claimed sc fp' (abandon sc (finish sc rid resp s1)) = None"
proof -
  have ok1: "ok s1" using assms by (rule claimed_ok)
  then have f: "look sc (finish sc rid resp s1) = Some (fp, Some resp)"
    using claimed_new [OF assms] by (simp add: finish_look)
  then show "look sc (abandon sc (finish sc rid resp s1)) = Some (fp, Some resp)"
    using ok1 by (simp add: abandon_completed finish_ok)
  then show "claimed sc fp' (abandon sc (finish sc rid resp s1)) = None"
    using ok1 by (intro claimed_taken) (simp_all add: abandon_ok finish_ok)
qed

text \<open>A failed attempt that abandons its claim leaves the scope free, every other scope as it was.\<close>

lemma failed_attempt_frees:
  assumes "ok s" "claimed sc fp s = Some s1"
  shows "look sc (abandon sc s1) = None" and "sc' \<noteq> sc \<Longrightarrow> look sc' (abandon sc s1) = look sc' s"
proof -
  have ok1: "ok s1" using assms by (rule claimed_ok)
  show "look sc (abandon sc s1) = None"
    using claimed_new [OF assms] ok1 by (simp add: abandon_pending)
  show "look sc' (abandon sc s1) = look sc' s" if "sc' \<noteq> sc"
    using that claimed_new [OF assms] claimed_other [OF assms] ok1 by (simp add: abandon_other)
qed

end

definition claim_now :: "instant \<Rightarrow> idem_scope \<Rightarrow> string \<Rightarrow> db \<Rightarrow> db option" where
  "claim_now now sc fp s = (case insert_claim sc fp now s of Inr (True, s') \<Rightarrow> Some s' | _ \<Rightarrow> None)"

definition claim_look :: "idem_scope \<Rightarrow> db \<Rightarrow> (string \<times> seat_response option) option" where
  "claim_look sc s = map_option (\<lambda>r. (i_fingerprint r, i_response r)) (find_claim sc s)"

lemma find_claim_append:
  "find_claim sc (s\<lparr>idem := idem s @ [r]\<rparr>) =
     (case find_claim sc s of Some x \<Rightarrow> Some x | None \<Rightarrow> if scopeWhere sc r then Some r else None)"
  by (simp add: find_claim_row row_append scopeWhere_key)

lemma find_claim_None: "find_claim sc s = None \<longleftrightarrow> \<not> list_ex (scopeWhere sc) (idem s)"
  by (auto simp: find_claim_def find_None_iff list_ex_iff)

lemma claim_now_cases:
  "claim_now now sc fp s = Some s' \<longleftrightarrow>
   find_claim sc s = None \<and> sc_principalId sc \<in> u_id ` set (users s) \<and> s' = s\<lparr>idem := idem s @ [new_claim sc fp now]\<rparr>"
  by (auto simp: claim_now_def insert_claim_def find_claim_None split: if_splits)

lemma scope_eqI: "scopeWhere sc r \<Longrightarrow> scopeWhere sc' r \<Longrightarrow> sc = (sc' :: idem_scope)"
  by (cases sc; cases sc') (simp add: scopeWhere_def)

lemma new_claim_scope [simp]: "scopeWhere sc' (new_claim sc fp now) \<longleftrightarrow> sc' = (sc :: idem_scope)"
  by (cases sc; cases sc') (auto simp: scopeWhere_def new_claim_def)

lemma find_claim_complete:
  "find_claim sc' (completeIn sc rid resp clk s) = map_option (\<lambda>r. if scopeWhere sc r
     then r\<lparr>i_state := IdemCompleted, i_resourceId := Some rid, i_response := Some resp, i_completedAt := Some clk\<rparr>
     else r) (find_claim sc' s)"
  unfolding find_claim_def completeIn_def by (simp add: find_claim_upd scope_key_def)

lemma find_claim_release:
  assumes "idem_ok s"
  shows "find_claim sc' (release_claim sc s) =
    (case find_claim sc' s of None \<Rightarrow> None
       | Some r \<Rightarrow> if scopeWhere sc r \<and> i_state r = IdemPending then None else Some r)"
  using row_del [of scope_key "idem s"] assms
  by (simp add: find_claim_row release_claim_def idem_ok_def)

interpretation seat_claims: claim_store idem_ok "claim_now now" claim_look
    "\<lambda>sc rid resp. completeIn sc rid resp clk" release_claim
proof unfold_locales
  fix s s' :: db and sc sc' :: idem_scope and fp rid resp x
  assume ok: "idem_ok s"
  have shape: "find_claim sc s = Some r \<Longrightarrow> (i_state r = IdemPending) = (i_response r = None)" for r
    using ok by (cases "i_state r") (auto simp: idem_ok_def claim_shape_def dest!: find_claim_SomeD)
  show "idem_ok (completeIn sc rid resp clk s)" using ok by (rule completeIn_ok)
  show "idem_ok (release_claim sc s)" using ok by (rule release_claim_ok)
  show "claim_look sc (completeIn sc rid resp clk s) = map_option (\<lambda>(fp, _). (fp, Some resp)) (claim_look sc s)"
    by (cases "find_claim sc s") (auto simp: claim_look_def find_claim_complete dest: find_claim_SomeD)
  show "claim_look sc' (completeIn sc rid resp clk s) = claim_look sc' s" if "sc' \<noteq> sc"
    using that by (cases "find_claim sc' s") (auto simp: claim_look_def find_claim_complete dest: find_claim_SomeD scope_eqI)
  show "claim_now now sc fp s = None" if "claim_look sc s \<noteq> None"
    using that by (cases "claim_now now sc fp s") (auto simp: claim_look_def claim_now_cases)
  show "claim_look sc (release_claim sc s) = Some (fp, Some resp)" if "claim_look sc s = Some (fp, Some resp)"
    using that shape by (auto simp: claim_look_def find_claim_release [OF ok])
  show "claim_look sc (release_claim sc s) = None" if "claim_look sc s = Some (fp, None)"
    using that shape by (auto simp: claim_look_def find_claim_release [OF ok] dest: find_claim_SomeD)
  show "claim_look sc' (release_claim sc s) = claim_look sc' s" if "sc' \<noteq> sc"
    using that ok by (cases "find_claim sc' s") (auto simp: claim_look_def find_claim_release dest: find_claim_SomeD scope_eqI)
  assume c: "claim_now now sc fp s = Some s'"
  then show "idem_ok s'"
    using ok by (auto simp: claim_now_def split: sum.splits bool.splits prod.splits intro: insert_claim_ok)
  show "claim_look sc s = None \<and> claim_look sc s' = Some (fp, None)"
    using c by (auto simp: claim_now_cases claim_look_def find_claim_append) (simp_all add: new_claim_def)
  show "claim_look sc' s' = claim_look sc' s" if "sc' \<noteq> sc"
    using that c by (auto simp: claim_now_cases claim_look_def find_claim_append split: option.splits)
qed

end
