(* ===== verification/Itinerary.thy ===== *)
theory Itinerary
  imports Schema "HOL-Library.Multiset"
begin

text \<open>
  The itinerary of a closing pool (itinerary.ts): pickups by distance from the pool's anchor,
  dropoffs by nearest neighbour from the last pickup, ties by passenger id. The functions take the
  distance as an argument; \<open>computeStops\<close> is the instance at the code's great-circle distance.
  Coordinates are real numbers where the code computes with doubles.
\<close>

record seat_member =
  mb_passengerId :: uuid
  mb_originLat :: real
  mb_originLng :: real
  mb_destLat :: real
  mb_destLng :: real
  mb_joinedAt :: instant

record offer_stop =
  os_type :: stop_type
  os_lat :: real
  os_lng :: real
  os_passengerId :: uuid
  os_sequenceIndex :: int

definition haversineM :: "real \<Rightarrow> real \<Rightarrow> real \<Rightarrow> real \<Rightarrow> real" where
  "haversineM lat1 lng1 lat2 lng2 =
     (let dPhi = (lat2 - lat1) * pi / 180; dLam = (lng2 - lng1) * pi / 180;
          phi1 = lat1 * pi / 180; phi2 = lat2 * pi / 180;
          a = sin (dPhi / 2) ^ 2 + cos phi1 * cos phi2 * sin (dLam / 2) ^ 2
      in 2 * 6371000 * arcsin (sqrt a))"

type_synonym distance = "real \<Rightarrow> real \<Rightarrow> real \<Rightarrow> real \<Rightarrow> real"

definition sortPickupsByDistance :: "distance \<Rightarrow> seat_member list \<Rightarrow> real \<Rightarrow> real \<Rightarrow> seat_member list" where
  "sortPickupsByDistance dst members refLng refLat =
     sort_key (\<lambda>m. (dst refLat refLng (mb_originLat m) (mb_originLng m), mb_passengerId m)) members"

text \<open>
  The inner loop: the first index of least distance; \<open>bestD = None\<close> is the initial infinity.
\<close>

fun scan_nearest :: "(seat_member \<Rightarrow> real) \<Rightarrow> nat \<Rightarrow> nat \<Rightarrow> real option \<Rightarrow> seat_member list \<Rightarrow> nat" where
  "scan_nearest d i best bestD [] = best"
| "scan_nearest d i best bestD (m # ms) =
     (if (case bestD of None \<Rightarrow> True | Some b \<Rightarrow> d m < b)
      then scan_nearest d (Suc i) i (Some (d m)) ms
      else scan_nearest d (Suc i) best bestD ms)"

definition nearest_index :: "distance \<Rightarrow> real \<Rightarrow> real \<Rightarrow> seat_member list \<Rightarrow> nat" where
  "nearest_index dst lat lng ms = scan_nearest (\<lambda>m. dst lat lng (mb_destLat m) (mb_destLng m)) 0 0 None ms"

lemma scan_nearest_range: "scan_nearest d i best bestD ms = best \<or> scan_nearest d i best bestD ms < i + length ms"
proof (induction ms arbitrary: i best bestD)
  case (Cons m ms)
  show ?case
    using Cons.IH [of "Suc i" i "Some (d m)"] Cons.IH [of "Suc i" best bestD] by auto
qed simp

lemma nearest_index_less: "ms \<noteq> [] \<Longrightarrow> nearest_index dst lat lng ms < length ms"
  unfolding nearest_index_def
  using scan_nearest_range [of "\<lambda>m. dst lat lng (mb_destLat m) (mb_destLng m)" 0 0 None ms] by auto

function nearest_neighbour :: "distance \<Rightarrow> real \<Rightarrow> real \<Rightarrow> seat_member list \<Rightarrow> seat_member list" where
  "nearest_neighbour dst lat lng remaining =
     (if remaining = [] then []
      else let best = nearest_index dst lat lng remaining; m = remaining ! best
           in m # nearest_neighbour dst (mb_destLat m) (mb_destLng m)
                    (take best remaining @ drop (Suc best) remaining))"
  by auto
termination
proof (relation "measure (\<lambda>(dst, lat, lng, ms). length ms)")
  fix dst lat lng and remaining :: "seat_member list" and best m
  assume "remaining \<noteq> []" and b: "best = nearest_index dst lat lng remaining"
  then have "best < length remaining" using nearest_index_less by simp
  then show "((dst, mb_destLat m, mb_destLng m, take best remaining @ drop (Suc best) remaining),
      dst, lat, lng, remaining) \<in> measure (\<lambda>(dst, lat, lng, ms). length ms)"
    by simp
qed simp

declare nearest_neighbour.simps [simp del]

definition orderDropoffsNearestNeighbour ::
  "distance \<Rightarrow> seat_member list \<Rightarrow> real \<Rightarrow> real \<Rightarrow> seat_member list" where
  "orderDropoffsNearestNeighbour dst members startLat startLng =
     nearest_neighbour dst startLat startLng (sort_key mb_passengerId members)"

definition pickup_stop :: "seat_member \<Rightarrow> nat \<Rightarrow> offer_stop" where
  "pickup_stop m seq = \<lparr>os_type = Pickup, os_lat = mb_originLat m, os_lng = mb_originLng m,
     os_passengerId = mb_passengerId m, os_sequenceIndex = int seq\<rparr>"

definition dropoff_stop :: "seat_member \<Rightarrow> nat \<Rightarrow> offer_stop" where
  "dropoff_stop m seq = \<lparr>os_type = Dropoff, os_lat = mb_destLat m, os_lng = mb_destLng m,
     os_passengerId = mb_passengerId m, os_sequenceIndex = int seq\<rparr>"

definition computeStops_by :: "distance \<Rightarrow> real \<Rightarrow> real \<Rightarrow> seat_member list \<Rightarrow> offer_stop list" where
  "computeStops_by dst originLat originLng members =
     (let pickups = sortPickupsByDistance dst members originLng originLat;
          dropoffs = (if pickups = [] then []
            else let lst = last pickups
                 in orderDropoffsNearestNeighbour dst pickups (mb_originLat lst) (mb_originLng lst))
      in map (\<lambda>(m, i). pickup_stop m i) (zip pickups [0..<length pickups])
         @ map (\<lambda>(m, i). dropoff_stop m i)
             (zip dropoffs [length pickups..<length pickups + length dropoffs]))"

definition computeStops :: "real \<Rightarrow> real \<Rightarrow> seat_member list \<Rightarrow> offer_stop list" where
  "computeStops = computeStops_by haversineM"

section \<open>Correctness\<close>

lemma mset_remove_nth: "i < length xs \<Longrightarrow> mset xs = add_mset (xs ! i) (mset (take i xs @ drop (Suc i) xs))"
proof -
  assume "i < length xs"
  then have "xs = take i xs @ xs ! i # drop (Suc i) xs" by (rule id_take_nth_drop)
  then have "mset xs = mset (take i xs @ xs ! i # drop (Suc i) xs)" by simp
  then show ?thesis by simp
qed

lemma mset_nearest_neighbour [simp]: "mset (nearest_neighbour dst lat lng ms) = mset ms"
proof (induction dst lat lng ms rule: nearest_neighbour.induct)
  case (1 dst lat lng ms)
  show ?case
  proof (cases "ms = []")
    case False
    let ?b = "nearest_index dst lat lng ms"
    show ?thesis
      using 1 [OF False refl refl] False mset_remove_nth [OF nearest_index_less [OF False], of dst lat lng]
      by (simp add: nearest_neighbour.simps [of dst lat lng ms] Let_def)
  qed (simp add: nearest_neighbour.simps)
qed

lemma pickups_mset [simp]: "mset (sortPickupsByDistance dst ms lng lat) = mset ms"
  by (simp add: sortPickupsByDistance_def)

lemma dropoffs_mset [simp]: "mset (orderDropoffsNearestNeighbour dst ms lat lng) = mset ms"
  by (simp add: orderDropoffsNearestNeighbour_def)

lemma pickups_length [simp]: "length (sortPickupsByDistance dst ms lng lat) = length ms"
  by (simp add: sortPickupsByDistance_def)

lemma dropoffs_length [simp]: "length (orderDropoffsNearestNeighbour dst ms lat lng) = length ms"
  using mset_eq_length [OF dropoffs_mset] .

text \<open>The members in the order they are picked up and in the order they are dropped off.\<close>

lemma computeStops_split:
  obtains ps ds where "mset ps = mset ms" "mset ds = mset ms"
    "computeStops_by dst lat lng ms =
       map (\<lambda>(m, i). pickup_stop m i) (zip ps [0..<length ms])
       @ map (\<lambda>(m, i). dropoff_stop m i) (zip ds [length ms..<2 * length ms])"
proof (cases "ms = []")
  case True
  then show thesis
    by (intro that [of "[]" "[]"]) (simp_all add: computeStops_by_def sortPickupsByDistance_def)
next
  case False
  let ?ps = "sortPickupsByDistance dst ms lng lat"
  let ?ds = "orderDropoffsNearestNeighbour dst ?ps (mb_originLat (last ?ps)) (mb_originLng (last ?ps))"
  have "?ps \<noteq> []" using False pickups_length [of dst ms lng lat] by (metis length_0_conv)
  then show thesis
    by (intro that [of ?ps ?ds]) (simp_all add: computeStops_by_def Let_def mult_2)
qed

lemma stops_length [simp]: "length (computeStops_by dst lat lng ms) = 2 * length ms"
  by (rule computeStops_split [of ms dst lat lng]) (auto dest!: mset_eq_length)

lemma map_zip_const: "length xs = length ys \<Longrightarrow> (\<And>x y. f (x, y) = g x) \<Longrightarrow> map f (zip xs ys) = map g xs"
  by (induction xs ys rule: list_induct2) simp_all

lemma map_zip_snd: "length xs = length ys \<Longrightarrow> (\<And>x y. f (x, y) = g y) \<Longrightarrow> map f (zip xs ys) = map g ys"
  by (induction xs ys rule: list_induct2) simp_all

lemma stops_sequence: "map os_sequenceIndex (computeStops_by dst lat lng ms) = map int [0..<2 * length ms]"
proof (rule computeStops_split [of ms dst lat lng])
  fix ps ds :: "seat_member list"
  assume m: "mset ps = mset ms" "mset ds = mset ms"
    and c: "computeStops_by dst lat lng ms =
       map (\<lambda>(m, i). pickup_stop m i) (zip ps [0..<length ms])
       @ map (\<lambda>(m, i). dropoff_stop m i) (zip ds [length ms..<2 * length ms])"
  have l: "length ps = length ms" "length ds = length ms" using m by (auto dest: mset_eq_length)
  have "[0..<2 * length ms] = [0..<length ms] @ [length ms..<2 * length ms]"
    by (metis le_add1 mult_2 upt_add_eq_append zero_le)
  moreover have "map (os_sequenceIndex \<circ> (\<lambda>(m, i). pickup_stop m i)) (zip ps [0..<length ms]) = map int [0..<length ms]"
    using l by (intro map_zip_snd) (simp_all add: pickup_stop_def)
  moreover have "map (os_sequenceIndex \<circ> (\<lambda>(m, i). dropoff_stop m i)) (zip ds [length ms..<2 * length ms])
      = map int [length ms..<2 * length ms]"
    using l by (intro map_zip_snd) (simp_all add: dropoff_stop_def)
  ultimately show ?thesis by (simp add: c)
qed

lemma stops_types: "map os_type (computeStops_by dst lat lng ms) = replicate (length ms) Pickup @ replicate (length ms) Dropoff"
proof (rule computeStops_split [of ms dst lat lng])
  fix ps ds :: "seat_member list"
  assume m: "mset ps = mset ms" "mset ds = mset ms"
    and c: "computeStops_by dst lat lng ms =
       map (\<lambda>(m, i). pickup_stop m i) (zip ps [0..<length ms])
       @ map (\<lambda>(m, i). dropoff_stop m i) (zip ds [length ms..<2 * length ms])"
  have l: "length ps = length ms" "length ds = length ms" using m by (auto dest: mset_eq_length)
  have "map (os_type \<circ> (\<lambda>(m, i). pickup_stop m i)) (zip ps [0..<length ms]) = map (\<lambda>_. Pickup) ps"
    using l by (intro map_zip_const) (simp_all add: pickup_stop_def)
  moreover have "map (os_type \<circ> (\<lambda>(m, i). dropoff_stop m i)) (zip ds [length ms..<2 * length ms]) = map (\<lambda>_. Dropoff) ds"
    using l by (intro map_zip_const) (simp_all add: dropoff_stop_def)
  ultimately show ?thesis using l by (simp add: c map_replicate_const)
qed

lemma stops_passengers:
  "mset (map os_passengerId (take (length ms) (computeStops_by dst lat lng ms))) = image_mset mb_passengerId (mset ms)"
  "mset (map os_passengerId (drop (length ms) (computeStops_by dst lat lng ms))) = image_mset mb_passengerId (mset ms)"
proof -
  obtain ps ds where m: "mset ps = mset ms" "mset ds = mset ms"
    and c: "computeStops_by dst lat lng ms =
       map (\<lambda>(m, i). pickup_stop m i) (zip ps [0..<length ms])
       @ map (\<lambda>(m, i). dropoff_stop m i) (zip ds [length ms..<2 * length ms])"
    by (rule computeStops_split)
  have l: "length ps = length ms" "length ds = length ms" using m by (auto dest: mset_eq_length)
  have "map (os_passengerId \<circ> (\<lambda>(m, i). pickup_stop m i)) (zip ps [0..<length ms]) = map mb_passengerId ps"
    using l by (intro map_zip_const) (simp_all add: pickup_stop_def)
  moreover have "map (os_passengerId \<circ> (\<lambda>(m, i). dropoff_stop m i)) (zip ds [length ms..<2 * length ms]) = map mb_passengerId ds"
    using l by (intro map_zip_const) (simp_all add: dropoff_stop_def)
  ultimately show "mset (map os_passengerId (take (length ms) (computeStops_by dst lat lng ms))) = image_mset mb_passengerId (mset ms)"
    and "mset (map os_passengerId (drop (length ms) (computeStops_by dst lat lng ms))) = image_mset mb_passengerId (mset ms)"
    using l m by (simp_all add: c)
qed

text \<open>The result does not depend on the order in which the members are listed.\<close>

lemma sort_key_mset_cong:
  fixes f :: "'a \<Rightarrow> 'b::linorder"
  assumes "mset xs = mset ys" "inj_on f (set xs)"
  shows "sort_key f xs = sort_key f ys"
  using assms by (intro sort_key_inj_key_eq) simp_all

lemma computeStops_permute:
  assumes "mset xs = mset ys" "distinct (map mb_passengerId xs)"
  shows "computeStops_by dst lat lng xs = computeStops_by dst lat lng ys"
proof -
  have "inj_on mb_passengerId (set xs)" using assms(2) by (simp add: distinct_map)
  then have "inj_on (\<lambda>m. (dst lat lng (mb_originLat m) (mb_originLng m), mb_passengerId m)) (set xs)"
    by (auto simp: inj_on_def)
  then have "sortPickupsByDistance dst xs lng lat = sortPickupsByDistance dst ys lng lat"
    unfolding sortPickupsByDistance_def by (rule sort_key_mset_cong [OF assms(1)])
  then show ?thesis by (simp add: computeStops_by_def)
qed

text \<open>Greedy choice: the next dropoff is nearest among those left.\<close>

lemma scan_nearest_min:
  assumes "best < length pre" "d (pre ! best) = b" "\<forall>m \<in> set pre. b \<le> d m"
  shows "\<forall>m \<in> set (pre @ ms). d ((pre @ ms) ! scan_nearest d (length pre) best (Some b) ms) \<le> d m"
  using assms
proof (induction ms arbitrary: pre best b)
  case Nil
  then show ?case by simp
next
  case (Cons m ms)
  show ?case
  proof (cases "d m < b")
    case True
    with Cons.prems have "\<forall>x \<in> set (pre @ [m]). d m \<le> d x" by fastforce
    then show ?thesis
      using Cons.IH [of "length pre" "pre @ [m]" "d m"] True by (simp add: nth_append)
  next
    case False
    with Cons.prems show ?thesis
      using Cons.IH [of best "pre @ [m]" b] by (simp add: nth_append)
  qed
qed

lemma nearest_index_min:
  assumes "m \<in> set ms"
  shows "dst lat lng (mb_destLat (ms ! nearest_index dst lat lng ms)) (mb_destLng (ms ! nearest_index dst lat lng ms))
    \<le> dst lat lng (mb_destLat m) (mb_destLng m)"
proof -
  obtain a as where ms: "ms = a # as" using assms by (cases ms) auto
  show ?thesis
    using scan_nearest_min [of 0 "[a]" "\<lambda>m. dst lat lng (mb_destLat m) (mb_destLng m)" _ as] assms
    by (auto simp: ms nearest_index_def)
qed

end
