(* ===== verification/Pools.thy ===== *)
theory Pools
  imports Dispatch Idempotency Itinerary
begin

text \<open>
  Shared pools: \<open>PoolMembershipRepository\<close> (pool-membership.repository.ts) with the triggers its
  inserts run, \<open>SharedRideRepository\<close> (shared-ride.repository.ts) and \<open>PoolLifecycleService\<close>
  (pool-lifecycle.service.ts). Opening, joining and closing a pool are each one transaction; what
  follows the commit is a list of effects.
\<close>

section \<open>Membership\<close>

definition MAX_SAFE_INTEGER :: int where
  "MAX_SAFE_INTEGER = 2 ^ 53 - 1"

definition member_of :: "pool_member \<Rightarrow> seat_member" where
  "member_of m = \<lparr>mb_passengerId = m_passengerId m, mb_originLat = m_originLat m, mb_originLng = m_originLng m,
     mb_destLat = m_destLat m, mb_destLng = m_destLng m, mb_joinedAt = m_joinedAt m\<rparr>"

definition members_of :: "db \<Rightarrow> uuid \<Rightarrow> pool_member list" where
  "members_of s i = filter (\<lambda>m. m_poolId m = i) (pool_members s)"

definition lockPool :: "db \<Rightarrow> uuid \<Rightarrow> shared_ride option" where
  "lockPool s i = pool_row s i"

definition listMembers :: "db \<Rightarrow> uuid \<Rightarrow> seat_member list" where
  "listMembers s i = map member_of (sort_key (\<lambda>m. (m_joinedAt m, m_passengerId m)) (members_of s i))"

text \<open>
  The insert statement: the \<open>BEFORE\<close> triggers in name order (agreed fare, open pool), the column's
  range and check, the unique indexes, the passenger's foreign key, and the \<open>AFTER\<close> trigger that
  adds the seat to the pool, where the capacity check fires.
\<close>

definition member_pk :: "pool_member \<Rightarrow> uuid \<times> uuid" where
  "member_pk m = (m_poolId m, m_passengerId m)"

definition seat_row :: "pool_member \<Rightarrow> shared_ride \<Rightarrow> bool" where
  "seat_row m p \<longleftrightarrow> p_rideId p = m_poolId m"

definition add_seat :: "pool_member \<Rightarrow> instant \<Rightarrow> shared_ride \<Rightarrow> shared_ride" where
  "add_seat m now p = p\<lparr>p_seatCount := p_seatCount p + m_seats m, p_updatedAt := now\<rparr>"

definition insert_member_row :: "pool_member \<Rightarrow> instant \<Rightarrow> (db, unit) tx" where
  "insert_member_row m now s =
     (case m_agreedFareCents m of
        None \<Rightarrow> Inl (Check_violation ''pool_member_agreed_fare_required'')
      | Some fare \<Rightarrow>
     (case pool_row s (m_poolId m) of
        None \<Rightarrow> Inl (Check_violation ''pool_member_pool_open'')
      | Some p \<Rightarrow>
          if p_poolState p \<noteq> PoolOpen then Inl (Check_violation ''pool_member_pool_open'')
          else if 2 ^ 31 \<le> fare then Inl (App_error ''integer out of range'')
          else if fare < 0 then Inl (Check_violation ''pool_member_agreed_fare_check'')
          else if m_seats m \<noteq> 1 then Inl (Check_violation ''pool_member_one_seat_check'')
          else if member_pk m \<in> member_pk ` set (pool_members s) then Inl (Unique_violation ''pool_member_pkey'')
          else if m_idempotencyKey m \<noteq> None
                  \<and> list_ex (\<lambda>x. m_passengerId x = m_passengerId m \<and> m_idempotencyKey x = m_idempotencyKey m)
                      (pool_members s)
          then Inl (Unique_violation ''pool_member_idempotency_uq'')
          else if list_ex (\<lambda>x. m_passengerId x = m_passengerId m \<and> m_active x) (pool_members s)
          then Inl (Unique_violation ''pool_member_one_active_pool_uq'')
          else if m_passengerId m \<notin> u_id ` set (users s)
          then Inl (Foreign_key_violation ''pool_member_passenger_id_fkey'')
          else if p_maxSeats p < p_seatCount p + m_seats m
          then Inl (Check_violation ''shared_rides_seat_capacity_check'')
          else Inr ((), update_pools (seat_row m) (add_seat m now) now
                          (s\<lparr>pool_members := pool_members s @ [m]\<rparr>))))"

datatype insert_failure = AlreadyMember | PassengerHasActivePool | PoolFull | PoolClosed | IdempotentReplay

datatype insert_result = Seated int | NotSeated insert_failure "uuid option"

text \<open>The rows the classification reads; the code scans them for the first match of each kind.\<close>

definition duplicate_rows :: "pool_member \<Rightarrow> db \<Rightarrow> pool_member list" where
  "duplicate_rows m s =
     filter (\<lambda>x. m_passengerId x = m_passengerId m
        \<and> (m_poolId x = m_poolId m \<or> m_active x
           \<or> m_idempotencyKey m \<noteq> None \<and> m_idempotencyKey x = m_idempotencyKey m)) (pool_members s)"

definition keyed :: "pool_member \<Rightarrow> bool" where
  "keyed m \<longleftrightarrow> m_idempotencyKey m \<noteq> None \<and> m_idempotencyKey m \<noteq> Some ''''"

definition classifyDuplicate :: "pool_member \<Rightarrow> string \<Rightarrow> db \<Rightarrow> insert_result" where
  "classifyDuplicate m c s =
     (let rows = duplicate_rows m s;
          byKey = (if keyed m then List.find (\<lambda>x. m_idempotencyKey x = m_idempotencyKey m) rows else None);
          samePool = List.find (\<lambda>x. m_poolId x = m_poolId m) rows;
          active = List.find m_active rows
      in case byKey of
           Some x \<Rightarrow> NotSeated IdempotentReplay (Some (m_poolId x))
         | None \<Rightarrow>
             if (case samePool of None \<Rightarrow> False | Some x \<Rightarrow> \<not> keyed m \<or> \<not> m_active x)
             then NotSeated AlreadyMember (Some (m_poolId m))
             else (case active of
                     Some x \<Rightarrow> NotSeated PassengerHasActivePool (Some (m_poolId x))
                   | None \<Rightarrow>
                       if c = ''pool_member_idempotency_uq'' then NotSeated IdempotentReplay None
                       else if c = ''pool_member_pkey'' \<and> \<not> keyed m
                       then NotSeated AlreadyMember (Some (m_poolId m))
                       else NotSeated PassengerHasActivePool None))"

definition insertMember :: "pool_member \<Rightarrow> instant \<Rightarrow> (db, insert_result) tx" where
  "insertMember m now s =
     (case m_agreedFareCents m of
        None \<Rightarrow> Inl (App_error ''insertMember: invalid agreed fare'')
      | Some fare \<Rightarrow>
          if fare < 0 \<or> MAX_SAFE_INTEGER < fare then Inl (App_error ''insertMember: invalid agreed fare'')
          else (case insert_member_row m now s of
                  Inr (_, s') \<Rightarrow>
                    Inr (Seated (case pool_row s' (m_poolId m) of None \<Rightarrow> 0 | Some p \<Rightarrow> p_seatCount p), s')
                | Inl (Check_violation c) \<Rightarrow>
                    if c = ''pool_member_pool_open'' then Inr (NotSeated PoolClosed None, s)
                    else if c = ''shared_rides_seat_capacity_check'' then Inr (NotSeated PoolFull None, s)
                    else Inl (Check_violation c)
                | Inl (Unique_violation c) \<Rightarrow>
                    if c \<in> {''pool_member_pkey'', ''pool_member_one_active_pool_uq'', ''pool_member_idempotency_uq''}
                    then Inr (classifyDuplicate m c s, s)
                    else Inl (Unique_violation c)
                | Inl e \<Rightarrow> Inl e))"

section \<open>Seat lookups\<close>

record seat_lookup =
  sl_poolId :: uuid
  sl_poolState :: pool_state
  sl_opened :: bool
  sl_agreedFareCents :: "int option"

definition seat_of :: "db \<Rightarrow> pool_member \<Rightarrow> seat_lookup option" where
  "seat_of s m =
     map_option (\<lambda>p. \<lparr>sl_poolId = m_poolId m, sl_poolState = p_poolState p,
         sl_opened = (\<not> list_ex (\<lambda>x. m_poolId x = m_poolId m
            \<and> (m_joinedAt x, m_passengerId x) < (m_joinedAt m, m_passengerId m)) (pool_members s)),
         sl_agreedFareCents = m_agreedFareCents m\<rparr>) (pool_row s (m_poolId m))"

definition findByIdempotencyKey :: "db \<Rightarrow> uuid \<Rightarrow> string \<Rightarrow> seat_lookup option" where
  "findByIdempotencyKey s pid key =
     Option.bind (List.find (\<lambda>m. m_passengerId m = pid \<and> m_idempotencyKey m = Some key) (pool_members s)) (seat_of s)"

definition findSeat :: "db \<Rightarrow> uuid \<Rightarrow> uuid \<Rightarrow> seat_lookup option" where
  "findSeat s i pid =
     Option.bind (List.find (\<lambda>m. m_poolId m = i \<and> m_passengerId m = pid) (pool_members s)) (seat_of s)"

definition findActiveForPassenger :: "db \<Rightarrow> uuid \<Rightarrow> (uuid \<times> pool_state) option" where
  "findActiveForPassenger s pid =
     Option.bind (List.find (\<lambda>m. m_passengerId m = pid \<and> m_active m) (pool_members s))
       (\<lambda>m. map_option (\<lambda>p. (m_poolId m, p_poolState p)) (pool_row s (m_poolId m)))"

section \<open>Itinerary\<close>

definition stop_row :: "uuid \<Rightarrow> offer_stop \<Rightarrow> ride_stop" where
  "stop_row i st = \<lparr>s_rideId = i, s_sequenceIndex = os_sequenceIndex st, s_passengerId = os_passengerId st,
     s_type = os_type st, s_lat = os_lat st, s_lng = os_lng st, s_confirmedAt = None\<rparr>"

definition stop_pk :: "ride_stop \<Rightarrow> uuid \<times> int" where
  "stop_pk x = (s_rideId x, s_sequenceIndex x)"

definition insertItinerary :: "uuid \<Rightarrow> offer_stop list \<Rightarrow> (db, unit) tx" where
  "insertItinerary i stops s =
     (if stops = [] then Inr ((), s)
      else let rows = map (stop_row i) stops in
        if \<not> distinct (map stop_pk (ride_stops s @ rows)) then Inl (Unique_violation ''ride_stops_pkey'')
        else if pool_row s i = None then Inl (Foreign_key_violation ''ride_stops_ride_id_fkey'')
        else Inr ((), s\<lparr>ride_stops := ride_stops s @ rows\<rparr>))"

section \<open>Pool rows\<close>

definition new_pool ::
  "uuid \<Rightarrow> real \<Rightarrow> real \<Rightarrow> real \<Rightarrow> real \<Rightarrow> int \<Rightarrow> int \<Rightarrow> int \<Rightarrow> instant \<Rightarrow> shared_ride" where
  "new_pool i oLat oLng dLat dLng maxSeats budget timeoutMs now =
     \<lparr>p_rideId = i, p_seatCount = 0, p_maxSeats = maxSeats, p_poolState = PoolOpen, p_poolOpenedAt = now,
      p_poolClosedAt = Some (now + timeoutMs), p_detourBudgetM = budget, p_originLat = oLat, p_originLng = oLng,
      p_destLat = dLat, p_destLng = dLng, p_claimedByDriverId = None, p_claimedAt = None, p_completedAt = None,
      p_dispatchGeneration = 0, p_stateVersion = 0, p_updatedAt = now\<rparr>"

definition insertOpenPool :: "shared_ride \<Rightarrow> (db, unit) tx" where
  "insertOpenPool p s =
     (if p_maxSeats p < 1 then Inl (Check_violation ''shared_rides_max_seats_check'')
      else if p_rideId p \<in> p_rideId ` set (shared_rides s) then Inl (Unique_violation ''shared_rides_pkey'')
      else Inr ((), s\<lparr>shared_rides := shared_rides s @ [p]\<rparr>))"

definition open_at :: "uuid \<Rightarrow> shared_ride \<Rightarrow> bool" where
  "open_at i p \<longleftrightarrow> p_rideId p = i \<and> p_poolState p = PoolOpen"

definition close_row :: "pool_state \<Rightarrow> instant \<Rightarrow> shared_ride \<Rightarrow> shared_ride" where
  "close_row reason now p =
     p\<lparr>p_poolState := reason, p_poolClosedAt := Some now, p_dispatchGeneration := p_dispatchGeneration p + 1,
       p_updatedAt := now\<rparr>"

definition closeOpen :: "uuid \<Rightarrow> pool_state \<Rightarrow> instant \<Rightarrow> db \<Rightarrow> int option \<times> db" where
  "closeOpen i reason now s =
     (map_option (\<lambda>p. p_dispatchGeneration p + 1) (List.find (open_at i) (shared_rides s)),
      update_pools (open_at i) (close_row reason now) now s)"

definition empty_open :: "uuid \<Rightarrow> shared_ride \<Rightarrow> bool" where
  "empty_open i p \<longleftrightarrow> open_at i p \<and> p_seatCount p = 0"

definition abortEmptyOpen :: "uuid \<Rightarrow> instant \<Rightarrow> db \<Rightarrow> bool \<times> db" where
  "abortEmptyOpen i now s =
     (list_ex (empty_open i) (shared_rides s),
      update_pools (empty_open i)
        (\<lambda>p. p\<lparr>p_poolState := PoolAborted, p_poolClosedAt := Some now, p_updatedAt := now\<rparr>) now s)"

definition listNonTerminalIds :: "db \<Rightarrow> uuid list" where
  "listNonTerminalIds s =
     map p_rideId (filter (\<lambda>p. p_poolState p \<in> {PoolOpen, ClosedFull, ClosedTimeout, ClosedStarted}) (shared_rides s))"

text \<open>PostGIS is outside the repository: \<open>near\<close> is \<open>ST_DWithin(..., 1500)\<close> of the two centroids.\<close>

definition findCandidates :: "(shared_ride \<Rightarrow> bool) \<Rightarrow> db \<Rightarrow> shared_ride list" where
  "findCandidates near s =
     filter (\<lambda>p. near p \<and> p_poolState p = PoolOpen \<and> p_seatCount p < p_maxSeats p) (shared_rides s)"

section \<open>Closure\<close>

definition pool_dispatch_message :: "uuid \<Rightarrow> int \<Rightarrow> pool_state \<Rightarrow> message" where
  "pool_dispatch_message i g reason =
     \<lparr>g_topic = PoolDispatchRequested, g_aggregateType = AggSharedRide, g_aggregateId = i, g_generation = g,
      g_payload = DispatchPool i reason, g_availableAt = None\<rparr>"

definition pool_expire_message :: "uuid \<Rightarrow> instant \<Rightarrow> message" where
  "pool_expire_message i expireAt =
     \<lparr>g_topic = PoolExpireSchedule, g_aggregateType = AggSharedRide, g_aggregateId = i, g_generation = 0,
      g_payload = ExpireAt (Some expireAt), g_availableAt = None\<rparr>"

text \<open>\<open>closeInTxn\<close>: guarded close, itinerary of the committed members, dispatch intent.\<close>

definition closeInTxn :: "shared_ride \<Rightarrow> pool_state \<Rightarrow> uuid \<Rightarrow> instant \<Rightarrow> (db, int option) tx" where
  "closeInTxn pool reason xid now s =
     (case closeOpen (p_rideId pool) reason now s of
        (None, s1) \<Rightarrow> Inr (None, s1)
      | (Some g, s1) \<Rightarrow>
          (case insertItinerary (p_rideId pool)
                  (computeStops (p_originLat pool) (p_originLng pool) (listMembers s1 (p_rideId pool))) s1 of
             Inl e \<Rightarrow> Inl e
           | Inr (_, s2) \<Rightarrow>
               (case enqueueOutbox (pool_dispatch_message (p_rideId pool) g reason) xid now s2 of
                  Inl e \<Rightarrow> Inl e
                | Inr (_, s3) \<Rightarrow> Inr (Some g, s3))))"

section \<open>Seats\<close>

record seat_quote =
  sq_perSeatPrice :: int
  sq_seatMultiplier :: real
  sq_detourFactor :: real

record fare_context =
  fc_poolId :: uuid
  fc_passengerId :: uuid
  fc_seatCount :: int
  fc_originLat :: real
  fc_originLng :: real
  fc_destLat :: real
  fc_destLng :: real
  fc_stops :: "offer_stop list"

type_synonym quoter = "fare_context \<Rightarrow> db_error + seat_quote"

record seat_outcome =
  so_sharedRideId :: uuid
  so_mode :: seat_mode
  so_poolStatus :: pool_state
  so_seatCount :: int
  so_quote :: seat_quote

type_synonym seat_idempotency = "(idem_scope \<times> (seat_outcome \<Rightarrow> seat_response)) option"

definition seat_key :: "seat_idempotency \<Rightarrow> string option" where
  "seat_key ik = map_option (\<lambda>(sc, _). sc_key sc) ik"

definition complete_seat :: "seat_idempotency \<Rightarrow> uuid \<Rightarrow> seat_outcome \<Rightarrow> instant \<Rightarrow> db \<Rightarrow> db" where
  "complete_seat ik i out clk s =
     (case ik of None \<Rightarrow> s | Some (sc, resp) \<Rightarrow> completeIn sc i (resp out) clk s)"

definition new_member :: "uuid \<Rightarrow> seat_member \<Rightarrow> int \<Rightarrow> string option \<Rightarrow> instant \<Rightarrow> pool_member" where
  "new_member i j fare key now =
     \<lparr>m_poolId = i, m_passengerId = mb_passengerId j, m_seats = 1, m_originLat = mb_originLat j,
      m_originLng = mb_originLng j, m_destLat = mb_destLat j, m_destLng = mb_destLng j,
      m_agreedFareCents = Some fare, m_idempotencyKey = key, m_active = True, m_joinedAt = now, m_leftAt = None\<rparr>"

definition seat_context :: "uuid \<Rightarrow> seat_member \<Rightarrow> int \<Rightarrow> real \<Rightarrow> real \<Rightarrow> seat_member list \<Rightarrow> fare_context" where
  "seat_context i j n anchorLat anchorLng members =
     \<lparr>fc_poolId = i, fc_passengerId = mb_passengerId j, fc_seatCount = n,
      fc_originLat = mb_originLat j, fc_originLng = mb_originLng j, fc_destLat = mb_destLat j, fc_destLng = mb_destLng j,
      fc_stops = computeStops anchorLat anchorLng members\<rparr>"

subsection \<open>Open\<close>

record open_params =
  op_maxSeats :: int
  op_detourBudgetM :: int
  op_opener :: seat_member

datatype open_reject = OpenActivePool "uuid option" | OpenReplay "uuid option" | OpenConflict

record opened =
  on_seatCount :: int
  on_poolClosedAt :: instant
  on_quote :: seat_quote

text \<open>
  A \<open>PoolOpenRejectedError\<close> rolls the transaction back: it is a result with the state as it was.
\<close>

definition open_tx ::
  "open_params \<Rightarrow> uuid \<Rightarrow> uuid \<Rightarrow> int \<Rightarrow> quoter \<Rightarrow> seat_idempotency \<Rightarrow> instant \<Rightarrow> instant \<Rightarrow> (db, open_reject + opened) tx" where
  "open_tx o_p i xid timeoutMs quote ik now clk s =
     (let j = op_opener o_p;
          p = new_pool i (mb_originLat j) (mb_originLng j) (mb_destLat j) (mb_destLng j) (op_maxSeats o_p)
                (op_detourBudgetM o_p) timeoutMs now
      in case insertOpenPool p s of
           Inl e \<Rightarrow> Inl e
         | Inr (_, s1) \<Rightarrow>
        (case quote (seat_context i j 1 (mb_originLat j) (mb_originLng j) [j]) of
           Inl e \<Rightarrow> Inl e
         | Inr q \<Rightarrow>
        (case insertMember (new_member i j (sq_perSeatPrice q) (seat_key ik) now) now s1 of
           Inl e \<Rightarrow> Inl e
         | Inr (NotSeated PassengerHasActivePool ex, _) \<Rightarrow> Inr (Inl (OpenActivePool ex), s)
         | Inr (NotSeated IdempotentReplay ex, _) \<Rightarrow> Inr (Inl (OpenReplay ex), s)
         | Inr (NotSeated _ _, _) \<Rightarrow> Inl (App_error ''openPool: unexpected opener rejection'')
         | Inr (Seated n, s2) \<Rightarrow>
        (case enqueueOutbox (pool_expire_message i (now + timeoutMs)) xid now s2 of
           Inl e \<Rightarrow> Inl e
         | Inr (_, s3) \<Rightarrow>
             Inr (Inr \<lparr>on_seatCount = n, on_poolClosedAt = now + timeoutMs, on_quote = q\<rparr>,
               complete_seat ik i \<lparr>so_sharedRideId = i, so_mode = SeatOpened, so_poolStatus = PoolOpen,
                 so_seatCount = n, so_quote = q\<rparr> clk s3)))))"

subsection \<open>Join\<close>

datatype join_reject = JoinInsert insert_failure | JoinNotFound | JoinConflict

record joined =
  jn_closedFull :: bool
  jn_seatCount :: int
  jn_quote :: seat_quote

type_synonym join_result = "(join_reject \<times> uuid option) + joined"

text \<open>Seat the joiner at the quoted fare; close the pool in the same transaction when full.\<close>

definition seat_joiner ::
  "shared_ride \<Rightarrow> seat_member \<Rightarrow> seat_quote \<Rightarrow> seat_idempotency \<Rightarrow> uuid \<Rightarrow> instant \<Rightarrow> instant \<Rightarrow> (db, join_result) tx" where
  "seat_joiner pool j q ik xid now clk s =
     (case insertMember (new_member (p_rideId pool) j (sq_perSeatPrice q) (seat_key ik) now) now s of
        Inl e \<Rightarrow> Inl e
      | Inr (NotSeated r ex, s1) \<Rightarrow> Inr (Inl (JoinInsert r, ex), s1)
      | Inr (Seated n, s1) \<Rightarrow>
          (case (if p_maxSeats pool \<le> n then closeInTxn pool ClosedFull xid now s1 else Inr (None, s1)) of
             Inl e \<Rightarrow> Inl e
           | Inr (g, s2) \<Rightarrow>
               Inr (Inr \<lparr>jn_closedFull = (g \<noteq> None), jn_seatCount = n, jn_quote = q\<rparr>,
                 complete_seat ik (p_rideId pool) \<lparr>so_sharedRideId = p_rideId pool, so_mode = SeatSlotted,
                   so_poolStatus = (if g \<noteq> None then ClosedFull else PoolOpen), so_seatCount = n, so_quote = q\<rparr>
                   clk s2)))"

definition join_tx ::
  "uuid \<Rightarrow> seat_member \<Rightarrow> quoter \<Rightarrow> seat_idempotency \<Rightarrow> uuid \<Rightarrow> instant \<Rightarrow> instant \<Rightarrow> (db, join_result) tx" where
  "join_tx i j quote ik xid now clk s =
     (case lockPool s i of
        None \<Rightarrow> Inr (Inl (JoinNotFound, None), s)
      | Some pool \<Rightarrow>
          if p_poolState pool \<noteq> PoolOpen then Inr (Inl (JoinInsert PoolClosed, None), s)
          else if p_maxSeats pool \<le> p_seatCount pool then Inr (Inl (JoinInsert PoolFull, None), s)
          else
            (case quote (seat_context i j (p_seatCount pool + 1) (p_originLat pool) (p_originLng pool)
                    (filter (\<lambda>m. mb_passengerId m \<noteq> mb_passengerId j) (listMembers s i) @ [j])) of
               Inl e \<Rightarrow> Inl e
             | Inr q \<Rightarrow> seat_joiner pool j q ik xid now clk s))"

subsection \<open>Timeout\<close>

datatype close_result = CloseClosed | CloseNotOpen | CloseAbortedEmpty

definition close_tx :: "uuid \<Rightarrow> pool_state \<Rightarrow> uuid \<Rightarrow> instant \<Rightarrow> (db, close_result) tx" where
  "close_tx i reason xid now s =
     (case lockPool s i of
        None \<Rightarrow> Inr (CloseNotOpen, s)
      | Some pool \<Rightarrow>
          if p_poolState pool \<noteq> PoolOpen then Inr (CloseNotOpen, s)
          else if p_seatCount pool = 0 then
            (case abortEmptyOpen i now s of (done, s') \<Rightarrow> Inr (if done then CloseAbortedEmpty else CloseNotOpen, s'))
          else (case closeInTxn pool reason xid now s of
                  Inl e \<Rightarrow> Inl e
                | Inr (g, s') \<Rightarrow> Inr (if g = None then CloseNotOpen else CloseClosed, s')))"

section \<open>Service\<close>

definition inTx :: "(nat \<Rightarrow> db_error option) \<Rightarrow> (nat \<Rightarrow> (db, 'a) tx) \<Rightarrow> 'a \<Rightarrow> db \<Rightarrow> (db_error + 'a) \<times> db" where
  "inTx abort body onConflict s =
     retry_from 2 0
       (\<lambda>n s. case abort n of Some e \<Rightarrow> (Inl e, s) | None \<Rightarrow> transaction (body n) s) onConflict s"

datatype pool_effect =
    WriteProjection shared_ride
  | JoinPoolRoom uuid uuid \<comment> \<open>passenger, pool\<close>
  | PoolUpdateEvent pool_update
  | KickRelay

text \<open>
  \<open>afterCommit\<close>: best effort from the re-read row (\<open>None\<close> when the re-read failed).
\<close>

definition emitPoolUpdate :: "shared_ride \<Rightarrow> pool_effect list" where
  "emitPoolUpdate p =
     (if p_poolState p \<in> {PoolOpen, ClosedFull, ClosedTimeout} then [PoolUpdateEvent (poolUpdatePayload p)] else [])"

definition afterCommit :: "shared_ride option \<Rightarrow> uuid \<Rightarrow> uuid option \<Rightarrow> bool \<Rightarrow> pool_effect list" where
  "afterCommit reread i joiner kick =
     (case reread of None \<Rightarrow> [] | Some p \<Rightarrow> [WriteProjection p])
     @ (case joiner of None \<Rightarrow> [] | Some pid \<Rightarrow> [JoinPoolRoom pid i])
     @ (case reread of None \<Rightarrow> [] | Some p \<Rightarrow> emitPoolUpdate p)
     @ (if kick then [KickRelay] else [])"

definition openPool ::
  "open_params \<Rightarrow> uuid \<Rightarrow> uuid \<Rightarrow> int \<Rightarrow> quoter \<Rightarrow> seat_idempotency \<Rightarrow> (nat \<Rightarrow> db_error option) \<Rightarrow> (nat \<Rightarrow> instant)
   \<Rightarrow> (nat \<Rightarrow> instant) \<Rightarrow> (db \<Rightarrow> uuid \<Rightarrow> shared_ride option) \<Rightarrow> db
   \<Rightarrow> (db_error + ((open_reject + opened) \<times> pool_effect list)) \<times> db" where
  "openPool o_p i xid timeoutMs quote ik abort now clk reread s =
     (case inTx abort (\<lambda>n. open_tx o_p i xid timeoutMs quote ik (now n) (clk n)) (Inl OpenConflict) s of
        (Inl e, s') \<Rightarrow> (Inl e, s')
      | (Inr (Inl r), s') \<Rightarrow> (Inr (Inl r, []), s')
      | (Inr (Inr c), s') \<Rightarrow>
          (Inr (Inr c, afterCommit (reread s' i) i (Some (mb_passengerId (op_opener o_p))) True), s'))"

definition joinPool ::
  "uuid \<Rightarrow> seat_member \<Rightarrow> quoter \<Rightarrow> seat_idempotency \<Rightarrow> uuid \<Rightarrow> (nat \<Rightarrow> db_error option) \<Rightarrow> (nat \<Rightarrow> instant)
   \<Rightarrow> (nat \<Rightarrow> instant) \<Rightarrow> (db \<Rightarrow> uuid \<Rightarrow> shared_ride option) \<Rightarrow> db
   \<Rightarrow> (db_error + (join_result \<times> pool_effect list)) \<times> db" where
  "joinPool i j quote ik xid abort now clk reread s =
     (case inTx abort (\<lambda>n. join_tx i j quote ik xid (now n) (clk n)) (Inl (JoinConflict, None)) s of
        (Inl e, s') \<Rightarrow> (Inl e, s')
      | (Inr (Inl r), s') \<Rightarrow> (Inr (Inl r, []), s')
      | (Inr (Inr c), s') \<Rightarrow>
          (Inr (Inr c, afterCommit (reread s' i) i (Some (mb_passengerId j)) (jn_closedFull c)), s'))"

definition closeIfOpen ::
  "uuid \<Rightarrow> pool_state \<Rightarrow> uuid \<Rightarrow> (nat \<Rightarrow> db_error option) \<Rightarrow> (nat \<Rightarrow> instant)
   \<Rightarrow> (db \<Rightarrow> uuid \<Rightarrow> shared_ride option) \<Rightarrow> db \<Rightarrow> (db_error + (close_result \<times> pool_effect list)) \<times> db" where
  "closeIfOpen i reason xid abort now reread s =
     (case inTx abort (\<lambda>n s. case close_tx i reason xid (now n) s of
                Inl e \<Rightarrow> Inl e | Inr (r, s') \<Rightarrow> Inr (Some r, s')) None s of
        (Inl e, s') \<Rightarrow> (Inl e, s')
      | (Inr None, s') \<Rightarrow> (Inl (App_error ''closeIfOpen: transaction retries exhausted''), s')
      | (Inr (Some r), s') \<Rightarrow>
          (Inr (r, case r of CloseClosed \<Rightarrow> afterCommit (reread s' i) i None True
                   | CloseAbortedEmpty \<Rightarrow> afterCommit (reread s' i) i None False
                   | CloseNotOpen \<Rightarrow> []), s'))"

text \<open>The \<open>matching\<close> queue's worker (pool-expire.processor.ts).\<close>

definition process_expire ::
  "string \<Rightarrow> uuid \<Rightarrow> uuid \<Rightarrow> (nat \<Rightarrow> db_error option) \<Rightarrow> (nat \<Rightarrow> instant) \<Rightarrow> (db \<Rightarrow> uuid \<Rightarrow> shared_ride option) \<Rightarrow> db
   \<Rightarrow> db_error option \<times> db" where
  "process_expire name i xid abort now reread s =
     (if name \<noteq> ''pool:expire'' then (None, s)
      else case closeIfOpen i ClosedTimeout xid abort now reread s of
          (Inl e, s') \<Rightarrow> (Some e, s')
        | (Inr _, s') \<Rightarrow> (None, s'))"

end
