(* ===== verification/Dispatch_Facts.thy ===== *)
theory Dispatch_Facts
  imports Dispatch
begin

text \<open>
  Correctness of dispatch: the accept transaction refines the abstract claim, a live offer is
  always accepted unless the driver cannot take the trip, an acceptance replays, and every wave and
  timer handler keeps the coupling invariant.
\<close>

section \<open>Accept\<close>

lemma live_in_resolve: "x \<in> set (upd P (resolve st ct) t) \<Longrightarrow> is_live x \<Longrightarrow> st \<noteq> Offered \<Longrightarrow> x \<in> set t \<and> \<not> P x"
  unfolding set_upd by (metis is_live_resolve)

lemma resolve_compose_live:
  fixes s s1 s2 :: db
  assumes "offers s1 = offers s" "offers s2 = upd (live_for t (Some i)) (resolve OfferRevoked ct)
      (upd (\<lambda>x. o_id x = i \<and> is_live x) (resolve OfferAccepted ct) (offers s1))"
  shows "live_set s2 \<subseteq> live_set s - of_trip t"
proof
  fix l assume "l \<in> live_set s2"
  then obtain x where x: "x \<in> set (offers s2)" "is_live x" "l = (o_id x, o_driverId x, o_trip x, o_generation x)"
    by (auto simp: live_set_def)
  from x(1) [unfolded assms(2)] x(2)
  have x1: "x \<in> set (upd (\<lambda>x. o_id x = i \<and> is_live x) (resolve OfferAccepted ct) (offers s1))"
    and n: "\<not> live_for t (Some i) x"
    using live_in_resolve [of x "live_for t (Some i)" OfferRevoked ct] by blast+
  from x1 x(2) have "x \<in> set (offers s1)" "o_id x \<noteq> i"
    using live_in_resolve [of x _ OfferAccepted ct] by blast+
  with n x(2,3) assms(1) show "l \<in> live_set s - of_trip t"
    by (auto simp: live_for_def live_set_def of_trip_def)
qed

lemma resolve_compose_keys:
  fixes s s1 s2 :: db
  assumes "offer_keys s" "offers s1 = offers s" "offers s2 = upd (live_for t (Some i)) (resolve OfferRevoked ct)
      (upd (\<lambda>x. o_id x = i \<and> is_live x) (resolve OfferAccepted ct) (offers s1))"
  shows "offer_keys s2"
proof -
  let ?m = "snd (resolveLive i OfferAccepted ct s1)"
  have "offer_keys s1" using assms(1) offer_keys_cong [OF assms(2)] by simp
  then have "offer_keys ?m" by (rule offer_keys_resolve [OF _ _ resolveLive_sel(1)]) auto
  then have "offer_keys (snd (revokeLiveForTrip t (Some i) ct ?m))" by (rule revoke_keys)
  then show ?thesis by (simp add: offer_keys_def assms(3))
qed

lemma markAccepted_cases:
  "markAccepted i ct s = Inr (u, s') \<Longrightarrow>
   s' = snd (resolveLive i OfferAccepted ct s) \<and> list_ex (\<lambda>x. o_id x = i \<and> is_live x) (offers s)"
  by (auto simp: markAccepted_def resolveLive_def Let_def split: if_splits)

text \<open>What a successful claim went through.\<close>

lemma claim_steps_cases:
  assumes "claim_steps ofr d t now ct s = Inr ((res, revoked), s')"
  obtains (busy) "res = Inl DriverBusy" "revoked = []" "s' = s" "d \<in> a_driverId ` set (assignments s)"
  | (taken) "res = Inl TripTaken" "revoked = []" "s' = s" "t \<in> a_trip ` set (assignments s)"
  | (ok) s1 s2 where "acquire d t (Some (o_id ofr)) (o_generation ofr) now s = Inr (AcquireOk, s1)"
      "case t of Solo i \<Rightarrow> \<exists>r. claimSoloRow i d (o_generation ofr) now s1 = Inr (r, s2)
        | Shared i \<Rightarrow> claimSharedRow i d (o_generation ofr) now s1 = Inr ((), s2)"
      "res = Inr \<lparr>ac_trip = t, ac_generation = o_generation ofr, ac_replay = False\<rparr>"
      "s' = snd (revokeLiveForTrip t (Some (o_id ofr)) ct (snd (resolveLive (o_id ofr) OfferAccepted ct s2)))"
      "revoked = fst (revokeLiveForTrip t (Some (o_id ofr)) ct (snd (resolveLive (o_id ofr) OfferAccepted ct s2)))"
proof -
  from assms obtain out s1 where a: "acquire d t (Some (o_id ofr)) (o_generation ofr) now s = Inr (out, s1)"
    by (auto simp: claim_steps_def split: sum.splits)
  show thesis
  proof (cases out)
    case AcquireBusy
    with a assms show thesis
      by (intro busy) (auto simp: claim_steps_def rejected_def elim: acquire_cases)
  next
    case AcquireTaken
    with a assms show thesis
      by (intro taken) (auto simp: claim_steps_def rejected_def elim: acquire_cases)
  next
    case AcquireOk
    let ?c = "(case t of Solo i \<Rightarrow> andThen (claimSoloRow i d (o_generation ofr) now) (\<lambda>_. ret ())
        | Shared i \<Rightarrow> claimSharedRow i d (o_generation ofr) now) s1"
    from a AcquireOk assms obtain u s2 where c: "?c = Inr (u, s2)"
      by (auto simp: claim_steps_def split: sum.splits)
    with a AcquireOk assms obtain v s3 where m: "markAccepted (o_id ofr) ct s2 = Inr (v, s3)"
      by (auto simp: claim_steps_def split: sum.splits)
    have "case t of Solo i \<Rightarrow> \<exists>r. claimSoloRow i d (o_generation ofr) now s1 = Inr (r, s2)
        | Shared i \<Rightarrow> claimSharedRow i d (o_generation ofr) now s1 = Inr ((), s2)"
      using c by (cases t) (auto split: sum.splits)
    with a AcquireOk c m assms show thesis
      by (intro ok [of s1 s2]) (auto simp: claim_steps_def split_beta dest!: markAccepted_cases)
  qed
qed

lemma claimSoloRow_sel:
  "claimSoloRow i d g now s = Inr (r, s') \<Longrightarrow>
   offers s' = offers s \<and> assignments s' = assignments s \<and> shared_rides s' = shared_rides s
   \<and> outbox s' = outbox s \<and> pool_members s' = pool_members s \<and> ride_stops s' = ride_stops s
   \<and> users s' = users s \<and> drivers s' = drivers s"
  by (auto simp: claimSoloRow_def split: option.splits)

lemma claimSharedRow_sel:
  "claimSharedRow i d g now s = Inr (u, s') \<Longrightarrow>
   offers s' = offers s \<and> assignments s' = assignments s \<and> rides s' = rides s
   \<and> outbox s' = outbox s \<and> ride_stops s' = ride_stops s \<and> users s' = users s \<and> drivers s' = drivers s"
  by (auto simp: claimSharedRow_def split: if_splits)

lemma acquire_sel:
  "acquire d t off g now s = Inr (out, s') \<Longrightarrow>
   rides s' = rides s \<and> shared_rides s' = shared_rides s \<and> offers s' = offers s \<and> outbox s' = outbox s
   \<and> pool_members s' = pool_members s \<and> ride_stops s' = ride_stops s \<and> users s' = users s \<and> drivers s' = drivers s"
  by (auto elim: acquire_cases)

lemma shared_claim_refines:
  assumes "core_ok s" "acquire d (Shared i) off g now s = Inr (AcquireOk, s1)"
    and "claimSharedRow i d g now s1 = Inr (u, s2)"
    and "s3 = s2\<lparr>offers := os\<rparr>" "offer_keys s3" "live_set s3 \<subseteq> live_set s - of_trip (Shared i)"
  shows "refines s s3"
proof -
  note s1 = acquire_sel [OF assms(2)]
  have free: "d \<notin> a_driverId ` set (assignments s)"
    using assms(2) by (auto elim: acquire_cases)
  have "distinct (map p_rideId (shared_rides s1))" using assms(1) s1 by (simp add: core_ok_def)
  from assms(3) this obtain p where p: "pool_row s1 i = Some p" "p_claimedByDriverId p = None"
      "claimable_pool (p_poolState p)" "p_dispatchGeneration p = g"
      "s2 = update_pools (claimable_at i g)
         (\<lambda>p. p\<lparr>p_claimedByDriverId := Some d, p_claimedAt := Some now, p_updatedAt := now\<rparr>) now s1"
      "trip_driver s2 = (trip_driver s1)(Shared i \<mapsto> d)" "disp s2 = (disp s1)(Shared i := None)"
    by (rule claimSharedRow_effect)
  have v1: "trip_driver s1 = trip_driver s" "disp s1 = disp s"
    using s1 by (auto intro: trip_driver_cong disp_cong)
  have v3: "trip_driver s3 = trip_driver s2" "disp s3 = disp s2" "guard_of s3 = guard_of s1"
    by (rule trip_driver_cong disp_cong guard_of_cong; simp add: assms(4) p(5))+
  show ?thesis
  proof (rule refines_claim [OF assms(1)])
    show "disp s (Shared i) = Some g" using p(1-4) s1 by (simp add: pool_disp_def)
    show "trip_driver s3 = (trip_driver s)(Shared i \<mapsto> d)" "disp s3 = (disp s)(Shared i := None)"
      using v1 v3 p(6,7) by simp_all
    show "guard_of s3 = (guard_of s)(Shared i \<mapsto> d)"
      using v3 acquire_effect(1) [OF assms(2)] by simp
    show "guard_keys s3"
      using acquire_effect(2) [OF assms(2)] assms(1) by (simp add: core_ok_def guard_keys_def assms(4) p(5))
    show "d \<notin> ran (guard_of s)" using free assms(1) by (simp add: busy_iff core_ok_def)
    show "offer_keys s3" "live_set s3 \<subseteq> live_set s - of_trip (Shared i)" by fact+
  qed (simp_all add: assms(4) p(5) s1)
qed

lemma claim_steps_ok:
  assumes "claim_steps ofr d t now ct s = Inr ((res, revoked), s')" "core_ok s" "rides_ok s"
  shows "refines s s' \<and> rides_ok s'"
  using assms(1)
proof (cases rule: claim_steps_cases)
  case (ok s1 s2)
  have o1: "offers s1 = offers s" using acquire_sel [OF ok(1)] by simp
  have o2: "offers s2 = offers s"
    using ok(2) o1 claimSoloRow_sel claimSharedRow_sel by (cases t) fastforce+
  have s': "offers s' = upd (live_for t (Some (o_id ofr))) (resolve OfferRevoked ct)
      (upd (\<lambda>x. o_id x = o_id ofr \<and> is_live x) (resolve OfferAccepted ct) (offers s2))"
    by (simp add: ok(4))
  have keys: "offer_keys s'"
    using assms(2) by (intro resolve_compose_keys [OF _ o2 s']) (simp add: core_ok_def)
  have live: "live_set s' \<subseteq> live_set s - of_trip t"
    by (rule resolve_compose_live [OF o2 s'])
  show ?thesis
  proof (cases t)
    case (Solo i)
    then obtain r where r: "claimSoloRow i d (o_generation ofr) now s1 = Inr (r, s2)" using ok(2) by auto
    show ?thesis
    proof (rule solo_claim_refines [OF assms(2,3) ok(1) [unfolded Solo] r])
      show "s' = s2\<lparr>offers := offers s'\<rparr>" by (simp add: ok(4) revokeLiveForTrip_def resolveLive_def)
    qed (use keys live Solo in simp_all)
  next
    case (Shared i)
    then have r: "claimSharedRow i d (o_generation ofr) now s1 = Inr ((), s2)" using ok(2) by simp
    have "refines s s'"
    proof (rule shared_claim_refines [OF assms(2) ok(1) [unfolded Shared] r])
      show "s' = s2\<lparr>offers := offers s'\<rparr>" by (simp add: ok(4) revokeLiveForTrip_def resolveLive_def)
    qed (use keys live Shared in simp_all)
    moreover have "rides s' = rides s"
      using acquire_sel [OF ok(1)] claimSharedRow_sel [OF r] by (simp add: ok(4))
    ultimately show ?thesis using assms(3) rides_ok_cong by blast
  qed
qed (use assms in \<open>simp_all add: refines_refl\<close>)

lemma resolveLive_refines:
  assumes "core_ok s" "st \<noteq> Offered"
  shows "refines s (snd (resolveLive i st ct s))"
proof -
  have "snd (resolveLive i st ct s) = s\<lparr>offers := upd (\<lambda>x. o_id x = i \<and> is_live x) (resolve st ct) (offers s)\<rparr>"
    by (simp add: resolveLive_def)
  then show ?thesis by (rule resolve_refines [OF assms]) simp
qed

text \<open>Where the accept transaction ends up: unchanged, one offer resolved, or through the claim.\<close>

lemma acceptInTx_cases:
  assumes "acceptInTx oid d t now ct s = Inr ((res, revoked), s')"
  obtains (same) "s' = s" "revoked = []"
  | (expired) "res = Inl OfferExpiredF" "revoked = []" "s' = snd (resolveLive oid OfferExpired ct s)"
  | (stale) "res = Inl OfferStale" "revoked = []" "s' = snd (resolveLive oid OfferRevoked ct s)"
  | (claim) ofr seats where "offer_row s oid = Some ofr" "isUuid oid" "o_driverId ofr = d" "o_state ofr = Offered"
      "\<not> lapsed ct ofr" "trip_check s t = Inr seats" "driverEligibility s d seats = EligibleOk"
      "claim_steps ofr d t now ct s = Inr ((res, revoked), s')"
proof -
  have e: "eligibility_failure q = None \<Longrightarrow> q = EligibleOk" for q by (cases q) simp_all
  from assms show thesis
    unfolding acceptInTx_def rejected_def lockForUpdate_def
    by (auto split: option.splits if_splits sum.splits prod.splits intro: same expired stale claim dest: e)
qed

lemma acceptInTx_ok:
  assumes "acceptInTx oid d t now ct s = Inr ((res, revoked), s')" "core_ok s" "rides_ok s"
  shows "refines s s' \<and> rides_ok s'"
  using assms(1)
proof (cases rule: acceptInTx_cases)
  case claim
  show ?thesis by (rule claim_steps_ok [OF claim(8) assms(2,3)])
next
  case expired
  then show ?thesis
    using assms(2,3) resolveLive_refines [OF assms(2), of OfferExpired oid ct]
      rides_ok_cong [of "snd (resolveLive oid OfferExpired ct s)" s] by simp
next
  case stale
  then show ?thesis
    using assms(2,3) resolveLive_refines [OF assms(2), of OfferRevoked oid ct]
      rides_ok_cong [of "snd (resolveLive oid OfferRevoked ct s)" s] by simp
qed (use assms(2,3) in \<open>simp add: refines_refl\<close>)

subsection \<open>What a live offer is answered\<close>

lemma disp_facts:
  assumes "disp s t = Some g"
  shows "trip_driver s t = None" "trip_exists s t" "\<exists>tb. lock_trip s t = Some (None, g)"
  using assms
  by (cases t; auto simp: trip_exists_def lock_trip_def lockSoloTrip_def lockSharedTrip_def bind_eq_Some_conv
      solo_disp_def pool_disp_def solo_driver_def pool_driver_def split: if_splits)+

text \<open>Accepted offers belong to trips that left the dispatchable states; a guard row's offer is accepted.\<close>

definition accept_inv :: "db \<Rightarrow> bool" where
  "accept_inv s \<longleftrightarrow>
     (\<forall>x \<in> set (offers s). trip_exists s (o_trip x))
     \<and> (\<forall>x \<in> set (offers s). o_state x = OfferAccepted \<longrightarrow> disp s (o_trip x) = None)
     \<and> (\<forall>a \<in> set (assignments s). \<forall>oid. a_offerId a = Some oid \<longrightarrow>
          (\<exists>x \<in> set (offers s). o_id x = oid \<and> o_state x = OfferAccepted \<and> o_trip x = a_trip a
             \<and> o_driverId x = a_driverId a \<and> o_generation x = a_generation a))"

text \<open>The trip's own demands: seats for a solo ride is one, a pool needs its itinerary.\<close>

definition itinerary_complete :: "db \<Rightarrow> trip_ref \<Rightarrow> bool" where
  "itinerary_complete s t =
     (case t of Solo _ \<Rightarrow> True
      | Shared i \<Rightarrow> (case pool_row s i of None \<Rightarrow> False
          | Some p \<Rightarrow> 1 \<le> p_seatCount p \<and> int (countAll s i) = 2 * p_seatCount p))"

definition seats_needed :: "db \<Rightarrow> trip_ref \<Rightarrow> int" where
  "seats_needed s t = (case t of Solo _ \<Rightarrow> 1
     | Shared i \<Rightarrow> (case pool_row s i of None \<Rightarrow> 0 | Some p \<Rightarrow> p_seatCount p))"

lemma trip_check_disp:
  "disp s t = Some g \<Longrightarrow>
   trip_check s t = (if itinerary_complete s t then Inr (seats_needed s t) else Inl ItineraryMissing)"
  by (cases t; auto simp: trip_check_def lockSoloTrip_def lockSharedTrip_def bind_eq_Some_conv solo_disp_def
      pool_disp_def itinerary_complete_def seats_needed_def split: if_splits)

lemma eligible_driver: "driverEligibility s d n = EligibleOk \<Longrightarrow> d \<in> set (drivers s)"
  by (auto simp: driverEligibility_def split: option.splits if_splits)

lemma claim_live:
  assumes "core_ok s" "accept_inv s" "ofr \<in> set (offers s)" "is_live ofr" "o_trip ofr = t"
    and "d \<in> set (drivers s)" "d \<notin> ran (guard_of s)"
  shows "\<exists>revoked s'. claim_steps ofr d t now ct s =
    Inr ((Inr \<lparr>ac_trip = t, ac_generation = o_generation ofr, ac_replay = False\<rparr>, revoked), s')"
proof -
  have cur: "disp s t = Some (o_generation ofr)" using assms by (auto simp: core_ok_def live_current_def)
  note df = disp_facts [OF cur]
  have gk: "guard_keys s" and g: "1 \<le> o_generation ofr" using assms by (auto simp: core_ok_def offer_keys_def)
  have "guard_of s t = None" using df(1) assms(1) by (simp add: core_ok_def)
  then have free: "t \<notin> a_trip ` set (assignments s)" by (simp add: guard_of_None)
  have busy: "d \<notin> a_driverId ` set (assignments s)" using assms(7) gk by (simp add: busy_iff)
  have fresh: "Some (o_id ofr) \<notin> a_offerId ` set (assignments s)"
  proof
    assume "Some (o_id ofr) \<in> a_offerId ` set (assignments s)"
    then obtain x where x: "x \<in> set (offers s)" "o_id x = o_id ofr" "o_state x = OfferAccepted"
      using assms(2) unfolding accept_inv_def by (smt (verit) imageE)
    then have "x = ofr"
      using assms(1,3) by (auto simp: core_ok_def offer_keys_def distinct_map dest: inj_onD)
    with x assms(4) show False by (simp add: is_live_def)
  qed
  obtain s1 where a: "acquire d t (Some (o_id ofr)) (o_generation ofr) now s = Inr (AcquireOk, s1)"
    using acquire_decides [OF g assms(6) df(2), of "Some (o_id ofr)" now] free busy fresh by auto
  note s1 = acquire_sel [OF a]
  have cur1: "disp s1 t = Some (o_generation ofr)" using cur s1 disp_cong [of s1 s] by simp
  have d1: "distinct (map r_id (rides s1))" "distinct (map p_rideId (shared_rides s1))"
    using assms(1) s1 by (simp_all add: core_ok_def)
  obtain s2 where c: "(case t of Solo i \<Rightarrow> andThen (claimSoloRow i d (o_generation ofr) now) (\<lambda>_. ret ())
        | Shared i \<Rightarrow> claimSharedRow i d (o_generation ofr) now) s1 = Inr ((), s2)" and o2: "offers s2 = offers s1"
  proof (cases t)
    case (Solo i)
    then obtain r where "ride_row s1 i = Some r" "r_status r = Requested" "r_driverId r = None"
      using cur1 by (auto simp: bind_eq_Some_conv solo_disp_def split: if_splits)
    then have "find (claimable_ride i) (rides s1) = Some r" using claimable_ride_row [OF d1(1)] by simp
    with Solo that show thesis by (simp add: claimSoloRow_def)
  next
    case (Shared i)
    then have "list_ex (claimable_at i (o_generation ofr)) (shared_rides s1)"
      using cur1 claimable_at_row [OF d1(2)] by (auto simp: bind_eq_Some_conv pool_disp_def split: if_splits)
    with Shared that show thesis by (simp add: claimSharedRow_def)
  qed
  have "\<not> accept_conflict (o_id ofr) s2"
  proof
    assume "accept_conflict (o_id ofr) s2"
    then obtain x y where xy: "x \<in> set (offers s)" "is_live x" "y \<in> set (offers s)" "o_state y = OfferAccepted"
        "o_trip y = o_trip x"
      using o2 s1 by (auto simp: accept_conflict_def list_ex_iff)
    then have "disp s (o_trip x) = None" using assms(2) by (auto simp: accept_inv_def)
    with xy(1,2) assms(1) show False by (auto simp: core_ok_def live_current_def)
  qed
  moreover have "list_ex (\<lambda>x. o_id x = o_id ofr \<and> is_live x) (offers s2)"
    using assms(3,4) o2 s1 by (auto simp: list_ex_iff)
  ultimately obtain s3 where "markAccepted (o_id ofr) ct s2 = Inr ((), s3)"
    by (simp add: markAccepted_def resolveLive_def)
  with a c show ?thesis by (simp add: claim_steps_def split_beta)
qed

definition live_answer :: "db \<Rightarrow> uuid \<Rightarrow> trip_ref \<Rightarrow> int \<Rightarrow> accept_result" where
  "live_answer s d t g =
     (if \<not> itinerary_complete s t then Inl ItineraryMissing
      else case eligibility_failure (driverEligibility s d (seats_needed s t)) of
        Some r \<Rightarrow> Inl r
      | None \<Rightarrow> if d \<in> ran (guard_of s) then Inl DriverBusy
                else Inr \<lparr>ac_trip = t, ac_generation = g, ac_replay = False\<rparr>)"

lemma accept_live_answer:
  assumes "core_ok s" "accept_inv s" "offer_row s oid = Some ofr" "isUuid oid" "is_live ofr" "\<not> lapsed ct ofr"
  shows "\<exists>revoked s'. acceptInTx oid (o_driverId ofr) (o_trip ofr) now ct s =
    Inr ((live_answer s (o_driverId ofr) (o_trip ofr) (o_generation ofr), revoked), s')"
proof -
  let ?d = "o_driverId ofr" and ?t = "o_trip ofr"
  have ofr: "ofr \<in> set (offers s)" "o_id ofr = oid" using row_SomeD [OF assms(3)] by simp_all
  then have cur: "disp s ?t = Some (o_generation ofr)" using assms(1,5) by (auto simp: core_ok_def live_current_def)
  have st: "o_state ofr = Offered" using assms(5) by (simp add: is_live_def)
  have lock: "lock_trip s ?t = Some (None, o_generation ofr)" using disp_facts(3) [OF cur] by simp
  note unfolded = acceptInTx_def lock lockForUpdate_def assms(3,4,6) st trip_check_disp [OF cur] live_answer_def
  show ?thesis
  proof (cases "itinerary_complete s ?t \<and> driverEligibility s ?d (seats_needed s ?t) = EligibleOk")
    case True
    have acc: "acceptInTx oid ?d ?t now ct s = claim_steps ofr ?d ?t now ct s"
      using True by (simp add: unfolded)
    have dr: "?d \<in> set (drivers s)" using True eligible_driver by blast
    show ?thesis
    proof (cases "?d \<in> ran (guard_of s)")
      case False
      then show ?thesis
        using claim_live [OF assms(1,2) ofr(1) assms(5) refl dr, of now ct] True by (simp add: acc live_answer_def)
    next
      case busy: True
      then have "?d \<in> a_driverId ` set (assignments s)" using assms(1) by (simp add: busy_iff core_ok_def)
      moreover have "1 \<le> o_generation ofr" using assms(1) ofr(1) by (auto simp: core_ok_def offer_keys_def)
      ultimately have "acquire ?d ?t (Some (o_id ofr)) (o_generation ofr) now s = Inr (AcquireBusy, s)"
        by (simp add: acquire_def insert_assignment_def)
      with busy True show ?thesis by (simp add: acc live_answer_def claim_steps_def rejected_def)
    qed
  next
    case False
    then show ?thesis
      by (cases "driverEligibility s ?d (seats_needed s ?t)") (auto simp: unfolded rejected_def)
  qed
qed

subsection \<open>Replay\<close>

lemma claim_trip_kept:
  "case t of Solo i \<Rightarrow> \<exists>r. claimSoloRow i d g now s1 = Inr (r, s2) | Shared i \<Rightarrow> claimSharedRow i d g now s1 = Inr ((), s2) \<Longrightarrow>
   trip_exists s1 t \<Longrightarrow> trip_exists s2 t"
  by (cases t) (auto simp: trip_exists_def claimSoloRow_def claimSharedRow_def row_upd bind_ride_def
      split: option.splits if_splits)

lemma trip_exists_lock: "trip_exists s t \<longleftrightarrow> lock_trip s t \<noteq> None"
  by (cases t) (auto simp: trip_exists_def lock_trip_def lockSoloTrip_def lockSharedTrip_def)

lemma trip_exists_cong: "rides s' = rides s \<Longrightarrow> shared_rides s' = shared_rides s \<Longrightarrow> trip_exists s' t = trip_exists s t"
  by (cases t) (simp_all add: trip_exists_def)

lemma accept_replay:
  assumes "acceptInTx oid d t now ct s = Inr ((Inr r, revoked), s')" "core_ok s"
  shows "acceptInTx oid d t now' ct' s' = Inr ((Inr (r\<lparr>ac_replay := True\<rparr>), []), s')"
  using assms(1)
proof (cases rule: acceptInTx_cases)
  case same
  from assms(1) same obtain ofr g tb where "lock_trip s t = Some tb" "lockForUpdate s oid = Some ofr"
      "o_driverId ofr = d" "o_state ofr = OfferAccepted" "findByTrip s t = Some g" "a_driverId g = d"
      "a_generation g = o_generation ofr" "r = \<lparr>ac_trip = t, ac_generation = o_generation ofr, ac_replay = True\<rparr>"
  proof -
    have ns: "claim_steps x d t now ct s \<noteq> Inr ((Inr r, rv), s)" for x rv
    proof
      assume c: "claim_steps x d t now ct s = Inr ((Inr r, rv), s)"
      then show False
      proof (cases rule: claim_steps_cases)
        case (ok s1 s2)
        have "assignments s2 = assignments s1"
          using ok(2) claimSoloRow_sel claimSharedRow_sel by (cases t) fastforce+
        moreover have "length (assignments s1) = Suc (length (assignments s))"
          using ok(1) by (auto elim: acquire_cases)
        ultimately show False using arg_cong [OF ok(4), of assignments] by simp
      qed simp_all
    qed
    with assms(1) [unfolded same] that show thesis
      by (auto simp: acceptInTx_def rejected_def split: option.splits if_splits sum.splits prod.splits)
  qed
  with same show ?thesis by (cases tb) (simp add: acceptInTx_def)
next
  case (claim ofr seats)
  from claim(8) show ?thesis
  proof (cases rule: claim_steps_cases)
    case (ok s1 s2)
    have te: "trip_exists s' t"
    proof -
      have "trip_exists s t" using ok(1) by (auto elim: acquire_cases)
      then have "trip_exists s1 t" using trip_exists_cong [of s1 s t] acquire_sel [OF ok(1)] by simp
      with ok(2) have "trip_exists s2 t" by (rule claim_trip_kept)
      then show ?thesis using trip_exists_cong [of s' s2 t] by (simp add: ok(4))
    qed
    have o2: "offers s2 = offers s" "assignments s2 = assignments s1"
      using ok(2) acquire_sel [OF ok(1)] claimSoloRow_sel claimSharedRow_sel by (cases t; fastforce)+
    have "offer_row s' oid = Some (resolve OfferAccepted ct ofr)"
      using claim(1,4) by (simp add: ok(4) o2 row_upd live_for_def is_live_def row_key [OF claim(1)])
    moreover have "\<exists>g. findByTrip s' t = Some g \<and> a_driverId g = d \<and> a_generation g = o_generation ofr"
      using ok(1) by (auto elim!: acquire_cases simp: findByTrip_def ok(4) o2 row_append_new)
    moreover have "r = \<lparr>ac_trip = t, ac_generation = o_generation ofr, ac_replay = False\<rparr>"
      using ok(3) by simp
    ultimately show ?thesis
      using te claim(2,3) by (auto simp: acceptInTx_def lockForUpdate_def trip_exists_lock)
  qed simp_all
qed simp_all

section \<open>Waves\<close>

lemma createOffer_frame:
  "createOffer t d g w ttl locked oid now ct s = Inr (res, s') \<Longrightarrow> s' = s\<lparr>offers := offers s'\<rparr>"
  by (auto simp: createOffer_def Let_def expire_own_lapsed_def elim!: insert_offer_cases split: if_splits sum.splits)

lemma offers_frame_trans: "s' = s\<lparr>offers := offers s'\<rparr> \<Longrightarrow> s'' = s'\<lparr>offers := offers s''\<rparr> \<Longrightarrow> s'' = s\<lparr>offers := offers s''\<rparr>"
  by (metis db.update_convs(8) db.surjective)

lemma offer_loop_ok:
  assumes "core_ok s"
  shows "refines s (snd (offer_loop e t g w ds s))
    \<and> snd (offer_loop e t g w ds s) = s\<lparr>offers := offers (snd (offer_loop e t g w ds s))\<rparr>"
  using assms
proof (induction ds arbitrary: s)
  case Nil
  then show ?case by (simp add: refines_refl)
next
  case (Cons d ds)
  show ?case
  proof (cases "createOffer t d g w 12000 (e_locked e d) (e_oid e d) (e_now e d) (e_clk e d) s")
    case (Inl err)
    with Cons.prems show ?thesis by (simp add: refines_refl)
  next
    case (Inr x)
    obtain res s1 where x: "x = (res, s1)" by force
    have r: "refines s s1" by (rule createOffer_refines [OF Inr [unfolded x] Cons.prems])
    have os: "s1 = s\<lparr>offers := offers s1\<rparr>" by (rule createOffer_frame [OF Inr [unfolded x]])
    note IH = Cons.IH [OF refinesD [OF r]]
    have "snd (offer_loop e t g w (d # ds) s) = snd (offer_loop e t g w ds s1)"
      by (cases res) (simp_all add: Inr x split_beta)
    with IH refines_trans [OF r] offers_frame_trans [OF os] show ?thesis by simp
  qed
qed

lemma offer_loop_rides: "core_ok s \<Longrightarrow> rides (snd (offer_loop e t g w ds s)) = rides s"
  using offer_loop_ok [of s e t g w ds] by (metis db.select_convs(4) db.surjective db.update_convs(8))

text \<open>Each offer sent goes to a driver of the list, once, and the loop sends no more than the list is long.\<close>

fun offered_to :: "effect \<Rightarrow> uuid list" where
  "offered_to (EmitRideOffer d oid t x w) = [d]"
| "offered_to _ = []"

lemma offer_loop_sends:
  "\<exists>bs. length bs = length ds \<and>
     concat (map offered_to (snd (fst (offer_loop e t g w ds s)))) = map fst (filter snd (zip ds bs))"
proof (induction ds arbitrary: s)
  case (Cons d ds)
  show ?case
  proof (cases "createOffer t d g w 12000 (e_locked e d) (e_oid e d) (e_now e d) (e_clk e d) s")
    case (Inl err)
    then show ?thesis by (intro exI [of _ "replicate (Suc (length ds)) False"]) (auto simp: filter_empty_conv set_zip)
  next
    case (Inr x)
    obtain res s1 where x: "x = (res, s1)" by force
    obtain bs where bs: "length bs = length ds"
      "concat (map offered_to (snd (fst (offer_loop e t g w ds s1)))) = map fst (filter snd (zip ds bs))"
      using Cons.IH by blast
    show ?thesis
      using bs by (cases res) (auto simp: Inr x split_beta intro: exI [of _ "False # bs"] exI [of _ "True # bs"])
  qed
qed simp

text \<open>Timers are not offers.\<close>

lemma add_jobs_no_offers: "concat (map offered_to (snd (add_jobs e js))) = []"
  by (induction js) (simp_all add: split_beta)

lemma with_timers_offers:
  assumes "concat (map offered_to (snd ts)) = []"
  shows "concat (map offered_to (snd (fst (with_timers x ts)))) = concat (map offered_to (snd (fst x)))"
  using assms by (auto simp: with_timers_def split: prod.splits option.splits)

lemma scheduleTimers_no_offers [simp]: "concat (map offered_to (snd (scheduleTimers c e i k g b))) = []"
  unfolding scheduleTimers_def by (rule add_jobs_no_offers)

lemma distinct_map_fst_zip_filter: "distinct xs \<Longrightarrow> distinct (map fst (filter P (zip xs ys)))"
  by (induction xs ys rule: list_induct2') (auto dest: set_zip_leftD)

lemma selectCandidates_props:
  "length (selectCandidates e s t g lat lng k radius n) \<le> k"
  "distinct (selectCandidates e s t g lat lng k radius n)"
  "d \<in> set (selectCandidates e s t g lat lng k radius n) \<Longrightarrow>
     d \<notin> set (offeredDriverIds s t g) \<and> candidate_ok s n (e_ct e) d \<and> isUuid d"
  by (auto simp: selectCandidates_def Let_def eligibleCandidates_def dest!: in_set_takeD)

lemma with_timers_snd: "snd (with_timers r ts) = snd r"
  by (auto simp: with_timers_def split: prod.splits option.splits)

lemma runSoloWave_ok: "core_ok s \<Longrightarrow> refines s (snd (runSoloWave c e r w g s)) \<and> rides (snd (runSoloWave c e r w g s)) = rides s"
  using offer_loop_ok [of s e] offer_loop_rides [of s e]
  by (auto simp: runSoloWave_def split_beta Let_def with_timers_snd refines_refl)

lemma runPoolWave_ok: "core_ok s \<Longrightarrow> refines s (snd (runPoolWave c e p w g s)) \<and> rides (snd (runPoolWave c e p w g s)) = rides s"
  using offer_loop_ok [of s e] offer_loop_rides [of s e]
  by (auto simp: runPoolWave_def split_beta Let_def with_timers_snd refines_refl)

section \<open>Timers\<close>

lemma abort_tx_refines:
  assumes "core_ok s"
  shows "refines s (snd (abort_tx i gen now ct s)) \<and> rides (snd (abort_tx i gen now ct s)) = rides s"
proof -
  have d: "distinct (map p_rideId (shared_rides s))" using assms by (simp add: core_ok_def)
  consider (none) "snd (abort_tx i gen now ct s) = s"
    | (no) g where "\<not> fst (abortUnclaimedPool i g now s)" "snd (abort_tx i gen now ct s) = snd (abortUnclaimedPool i g now s)"
    | (yes) g where "fst (abortUnclaimedPool i g now s)"
        "snd (abort_tx i gen now ct s) = snd (revokeLiveForTrip (Shared i) None ct (snd (abortUnclaimedPool i g now s)))"
  proof (cases "lockSharedTrip s i")
    case None
    then show thesis by (intro none) (simp add: abort_tx_def)
  next
    case (Some p)
    define g where "g = (case gen of None \<Rightarrow> p_dispatchGeneration p | Some g \<Rightarrow> g)"
    obtain b s1 where a: "abortUnclaimedPool i g now s = (b, s1)" by force
    show thesis
    proof (cases "g \<noteq> p_dispatchGeneration p \<or> g < 1")
      case True
      with Some g_def show thesis by (intro none) (auto simp: abort_tx_def Let_def)
    next
      case False
      then have "abort_tx i gen now ct s = (case (b, s1) of (False, s1) \<Rightarrow> (None, s1)
          | (True, s1) \<Rightarrow> let (revoked, s2) = revokeLiveForTrip (Shared i) None ct s1 in (Some (p_dispatchGeneration p, revoked), s2))"
        using Some False a by (cases gen) (simp_all add: abort_tx_def g_def)
      then show thesis using no [of g] yes [of g] by (cases b) (simp_all add: a split_beta)
    qed
  qed
  then show ?thesis
  proof cases
    case none
    with assms show ?thesis by (simp add: refines_refl)
  next
    case no
    note eqs = abortUnclaimedPool_no [OF no(1)]
    have sel: "rides (snd (abortUnclaimedPool i g now s)) = rides s" "offers (snd (abortUnclaimedPool i g now s)) = offers s"
        "assignments (snd (abortUnclaimedPool i g now s)) = assignments s"
      by (simp_all add: abortUnclaimedPool_def)
    then have "refines s (snd (abortUnclaimedPool i g now s))"
      using eqs by (intro refines_same [OF assms]) simp_all
    with no sel show ?thesis by simp
  next
    case yes
    let ?s1 = "snd (abortUnclaimedPool i g now s)" and ?s2 = "snd (revokeLiveForTrip (Shared i) None ct (snd (abortUnclaimedPool i g now s)))"
    note eff = abortUnclaimedPool_effect [OF d yes(1)]
    have sel: "rides ?s1 = rides s" "offers ?s1 = offers s" "assignments ?s1 = assignments s"
        "map p_rideId (shared_rides ?s1) = map p_rideId (shared_rides s)"
      by (simp_all add: abortUnclaimedPool_def)
    have v: "trip_driver ?s2 = trip_driver ?s1" "disp ?s2 = disp ?s1" "guard_of ?s2 = guard_of s"
      by (rule trip_driver_cong disp_cong guard_of_cong; simp add: sel)+
    have "refines s ?s2"
    proof (rule refines_finish [OF assms])
      show "trip_driver ?s2 = (trip_driver s)(Shared i := None)" "disp ?s2 = (disp s)(Shared i := None)"
        using v eff by simp_all
      show "guard_of ?s2 = (guard_of s)(Shared i := None)"
        using v(3) eff(4) by (intro guard_clear [OF assms]) simp_all
      show "offer_keys ?s2" using assms by (intro revoke_keys) (simp add: core_ok_def offer_keys_cong [OF sel(2)])
      show "live_set ?s2 \<subseteq> live_set s - of_trip (Shared i)"
        by (simp add: live_set_revoke live_set_cong [OF sel(2)])
    qed (use assms sel in \<open>simp_all add: core_ok_def guard_keys_def\<close>)
    with yes sel show ?thesis by simp
  qed
qed

lemma retryScheduledRide_ok:
  assumes "core_ok s" "rides_ok s"
  shows "refines s (snd (retryScheduledRide i g xid now ct s)) \<and> rides_ok (snd (retryScheduledRide i g xid now ct s))"
proof (cases "rearmScheduledRide i g xid now ct s")
  case (Inl e)
  with assms show ?thesis by (simp add: retryScheduledRide_def transaction_def refines_refl)
next
  case (Inr x)
  obtain res s' where x: "x = (res, s')" by force
  have "snd (retryScheduledRide i g xid now ct s) = s'"
    by (cases res) (simp_all add: retryScheduledRide_def transaction_def Inr x)
  with rearm_ok [OF Inr [unfolded x] assms] show ?thesis by simp
qed

lemma handleHardFail_ok:
  assumes "core_ok s" "rides_ok s"
  shows "refines s (snd (handleHardFail j xid now ct s)) \<and> rides_ok (snd (handleHardFail j xid now ct s))"
proof -
  let ?i = "tj_rideId j"
  consider (retry) "snd (handleHardFail j xid now ct s) = snd (retryScheduledRide ?i (tj_generation j) xid now ct s)"
    | (mark) "snd (handleHardFail j xid now ct s) = snd (markNoDriver ?i (tj_generation j) now ct s)"
    | (abort) "snd (handleHardFail j xid now ct s) = snd (abort_tx ?i (tj_generation j) now ct s)"
  proof (cases "tj_kind j = Some KindSolo")
    case True
    show thesis
    proof (cases "case findById s ?i of None \<Rightarrow> False | Some r \<Rightarrow> r_type r = Scheduled")
      case sched: True
      with True show thesis by (intro retry) (simp add: handleHardFail_def)
    next
      case False
      with True show thesis
        by (intro mark) (simp add: handleHardFail_def Let_def split_beta split: option.splits)
    qed
  next
    case False
    then show thesis
      by (intro abort) (simp add: handleHardFail_def Let_def split_beta split: option.splits)
  qed
  then show ?thesis
  proof cases
    case abort
    with abort_tx_refines [OF assms(1), of ?i "tj_generation j" now ct] assms(2) show ?thesis
      by (metis rides_ok_cong)
  qed (use assms retryScheduledRide_ok markNoDriver_ok in simp_all)
qed

lemma handleWaveTimeout_ok:
  assumes "core_ok s"
  shows "refines s (snd (handleWaveTimeout c e j s)) \<and> rides (snd (handleWaveTimeout c e j s)) = rides s"
  using assms runSoloWave_ok [OF assms] runPoolWave_ok [OF assms]
  by (auto simp: handleWaveTimeout_def Let_def refines_refl split: option.splits)

lemma startSolo_ok:
  "core_ok s \<Longrightarrow> refines s (snd (snd (startSolo c e i g s))) \<and> rides (snd (snd (startSolo c e i g s))) = rides s"
  using runSoloWave_ok [of s] by (auto simp: startSolo_def refines_refl split: option.splits)

lemma startPool_ok:
  "core_ok s \<Longrightarrow> refines s (snd (snd (startPool c e i g s))) \<and> rides (snd (snd (startPool c e i g s))) = rides s"
  using runPoolWave_ok [of s] by (auto simp: startPool_def refines_refl split: option.splits)

section \<open>Stale jobs\<close>

lemma update_pools_none:
  assumes "\<And>p. p \<in> set (shared_rides s) \<Longrightarrow> \<not> P p"
  shows "update_pools P f now s = s"
proof -
  have "upd P (bump f) (shared_rides s) = shared_rides s" using assms by (intro upd_id)
  moreover have "upd (releases P f (shared_rides s)) g (pool_members s) = pool_members s" for g
    using assms by (intro upd_id) (auto simp: releases_def)
  ultimately show ?thesis by (simp add: update_pools_def)
qed

definition trip_of :: "dispatch_kind \<Rightarrow> uuid \<Rightarrow> trip_ref" where
  "trip_of k i = (case k of KindSolo \<Rightarrow> Solo i | KindPool \<Rightarrow> Shared i)"

lemma stale_solo: "disp s (Solo i) \<noteq> Some g \<Longrightarrow> ride_row s i = Some r \<Longrightarrow> r_status r = Requested \<Longrightarrow>
    r_driverId r = None \<Longrightarrow> r_dispatchGeneration r \<noteq> g"
  by (auto simp: solo_disp_def)

lemma stale_pool: "disp s (Shared i) \<noteq> Some g \<Longrightarrow> pool_row s i = Some p \<Longrightarrow> claimable_pool (p_poolState p) \<Longrightarrow>
    p_claimedByDriverId p = None \<Longrightarrow> p_dispatchGeneration p \<noteq> g"
  by (auto simp: pool_disp_def)

lemma stale_start:
  assumes "rides_ok s" "disp s (trip_of k i) \<noteq> Some g"
  shows "process_job c e xid now ct (StartData k i g) s = ((None, []), s)"
proof (cases k)
  case KindSolo
  have "\<not> (r_status r = Requested \<and> r_dispatchGeneration r = g)" if "ride_row s i = Some r" for r
  proof
    assume *: "r_status r = Requested \<and> r_dispatchGeneration r = g"
    moreover from * have "r_driverId r = None" using rides_ok_row [OF assms(1) that] by (simp add: ride_shape_def)
    ultimately have "disp s (Solo i) = Some g" using that by (simp add: solo_disp_def)
    with assms(2) KindSolo show False by (simp add: trip_of_def)
  qed
  with KindSolo show ?thesis
    by (auto simp: startSolo_def findById_def split: option.splits)
next
  case KindPool
  then show ?thesis
    using assms by (auto simp: startPool_def trip_of_def pool_disp_def split: option.splits)
qed

lemma stale_wave:
  assumes "disp s (trip_of k i) \<noteq> Some g"
  shows "process_job c e xid now ct (Wave2Data k i g) s = ((None, []), s)"
  using assms by (cases k) (auto simp: handleWaveTimeout_def findById_def trip_of_def job_generation_def
      solo_disp_def pool_disp_def split: option.splits)

lemma stale_hardfail:
  assumes "core_ok s" "disp s (trip_of k i) \<noteq> Some g"
  shows "process_job c e xid now ct (HardFailData k i g) s = ((None, []), s)"
proof (cases k)
  case KindSolo
  then have d: "disp s (Solo i) \<noteq> Some g" using assms by (simp add: trip_of_def)
  have m: "markNoDriver i (Some g) now ct s = (None, s)"
    using d stale_solo [OF d] by (auto simp: markNoDriver_def lockSoloTrip_def split: option.splits)
  have "rearmScheduledRide i (Some g) xid now ct s = Inr (None, s)"
    using stale_solo [OF d] by (auto simp: rearmScheduledRide_def rearmable_def split: option.splits)
  with m KindSolo show ?thesis
    by (simp add: handleHardFail_def retryScheduledRide_def transaction_def)
next
  case KindPool
  then have d: "disp s (Shared i) \<noteq> Some g" using assms by (simp add: trip_of_def)
  have "\<not> claimable_at i g p" if "p \<in> set (shared_rides s)" for p
  proof
    assume c: "claimable_at i g p"
    then have "pool_row s i = Some p"
      using row_mem [of p_rideId "shared_rides s" p] that assms(1) by (simp add: claimable_at_def core_ok_def)
    with c d show False by (auto simp: claimable_at_def pool_disp_def)
  qed
  then have "abortUnclaimedPool i g now s = (False, s)"
    by (auto simp: abortUnclaimedPool_def list_ex_iff update_pools_none)
  with KindPool show ?thesis
    by (auto simp: handleHardFail_def abort_tx_def Let_def split: option.splits)
qed

section \<open>The bounded retry\<close>

lemma retry_from_inv:
  "(\<And>n s. I s \<Longrightarrow> I (snd (run n s))) \<Longrightarrow> I s \<Longrightarrow> I (snd (retry_from k n run x s))"
proof (induction k arbitrary: n s)
  case 0
  have "I (snd (run n s))" using 0 by blast
  then show ?case by (auto simp: retry_from.simps [of 0] split: prod.splits sum.splits)
next
  case (Suc k)
  obtain r s' where r: "run n s = (r, s')" by force
  have s': "I s'" using Suc.prems(1) [OF Suc.prems(2), of n] r by simp
  then have "I (snd (retry_from k (Suc n) run x s'))" using Suc by blast
  with s' r show ?case by (auto simp: retry_from.simps [of "Suc k"] split: sum.splits)
qed

text \<open>Attempts that are aborted leave no trace: the first one that runs decides.\<close>

lemma retry_from_first:
  assumes "j \<le> k" "\<And>m. n \<le> m \<Longrightarrow> m < n + j \<Longrightarrow> \<exists>e. isRetryableTxError e \<and> run m s = (Inl e, s)"
    and "run (n + j) s = (Inr a, s')"
  shows "retry_from k n run x s = (Inr a, s')"
  using assms
proof (induction j arbitrary: k n)
  case 0
  then show ?case by (simp add: retry_from.simps [of k])
next
  case (Suc j)
  obtain k' where k: "k = Suc k'" using Suc.prems(1) by (cases k) simp_all
  obtain e where "isRetryableTxError e" "run n s = (Inl e, s)" using Suc.prems(2) [of n] by auto
  moreover have "retry_from k' (Suc n) run x s = (Inr a, s')"
    using Suc.prems k by (intro Suc.IH) (auto simp: add.commute)
  ultimately show ?case by (simp add: retry_from.simps [of "Suc k'"] k)
qed

lemma retry_from_exhausted:
  assumes "\<And>m. n \<le> m \<Longrightarrow> m \<le> n + k \<Longrightarrow> \<exists>e. isRetryableTxError e \<and> run m s = (Inl e, s)"
  shows "retry_from k n run x s = (Inr x, s)"
  using assms
proof (induction k arbitrary: n)
  case 0
  then obtain e where "isRetryableTxError e" "run n s = (Inl e, s)" by force
  then show ?case by (simp add: retry_from.simps [of 0])
next
  case (Suc k)
  obtain e where "isRetryableTxError e" "run n s = (Inl e, s)" using Suc.prems [of n] by auto
  moreover have "retry_from k (Suc n) run x s = (Inr x, s)" using Suc by simp
  ultimately show ?case by (simp add: retry_from.simps [of "Suc k"])
qed

lemma acceptOffer_inv:
  assumes "\<And>t n s r s'. I s \<Longrightarrow> acceptInTx oid d t (now n) (ct n) s = Inr (r, s') \<Longrightarrow> I s'" "I s"
  shows "I (snd (acceptOffer oid d abort now ct s))"
proof (cases "isUuid oid \<and> isUuid d \<and> findForDriver s oid d \<noteq> None")
  case False
  with assms(2) show ?thesis by (auto simp: acceptOffer_def split: option.splits)
next
  case True
  then obtain seen where seen: "findForDriver s oid d = Some seen" by blast
  let ?run = "\<lambda>n s. case abort n of Some e \<Rightarrow> (Inl e, s)
      | None \<Rightarrow> transaction (acceptInTx oid d (o_trip seen) (now n) (ct n)) s"
  have "I (snd (?run n s))" if "I s" for n s
    using that assms(1) by (auto simp: transaction_def split: option.splits sum.splits)
  then have "I (snd (retry_from 2 0 ?run (rejected Conflict) s))"
    using assms(2) by (rule retry_from_inv)
  with True seen show ?thesis
    by (auto simp: acceptOffer_def withTxRetry_def split: prod.splits sum.splits)
qed

lemma acceptOffer_ok:
  assumes "core_ok s" "rides_ok s"
  shows "refines s (snd (acceptOffer oid d abort now ct s)) \<and> rides_ok (snd (acceptOffer oid d abort now ct s))"
proof (rule acceptOffer_inv [where I = "\<lambda>u. refines s u \<and> rides_ok u"])
  fix t n u r u'
  assume "refines s u \<and> rides_ok u" "acceptInTx oid d t (now n) (ct n) u = Inr (r, u')"
  then show "refines s u' \<and> rides_ok u'"
    using acceptInTx_ok [of oid d t "now n" "ct n" u "fst r" "snd r" u'] by (auto dest: refinesD intro: refines_trans)
qed (use assms in \<open>simp add: refines_refl\<close>)

end
