(* ===== verification/Pool_Facts.thy ===== *)
theory Pool_Facts
  imports Pools Dispatch_Facts
begin

text \<open>
  Correctness of the pools: the shape of a pool with its members and its itinerary, that every pool
  operation keeps it, and how each operation refines the abstract dispatch machine.
\<close>

section \<open>Shape of a pool\<close>

definition confirmed_count :: "ride_stop list \<Rightarrow> nat" where
  "confirmed_count sts = length (filter (\<lambda>x. s_confirmedAt x \<noteq> None) sts)"

text \<open>Stops are confirmed from the front.\<close>

definition in_order :: "ride_stop list \<Rightarrow> bool" where
  "in_order sts \<longleftrightarrow>
     map (\<lambda>x. s_confirmedAt x \<noteq> None) sts
       = replicate (confirmed_count sts) True @ replicate (length sts - confirmed_count sts) False"

lemma unconfirmed [simp]:
  "confirmed_count [] = 0" "in_order []"
  by (simp_all add: confirmed_count_def in_order_def)

lemma fresh_stops:
  "list_all (\<lambda>x. s_confirmedAt x = None) sts \<Longrightarrow> confirmed_count sts = 0 \<and> in_order sts"
  by (induction sts) (auto simp: confirmed_count_def in_order_def)

text \<open>One pickup and one dropoff per member, all pickups first, numbered from 0.\<close>

definition itinerary_shape :: "pool_member list \<Rightarrow> ride_stop list \<Rightarrow> bool" where
  "itinerary_shape ms sts \<longleftrightarrow>
     map s_sequenceIndex sts = map int [0..<2 * length ms]
     \<and> map s_type sts = replicate (length ms) Pickup @ replicate (length ms) Dropoff
     \<and> mset (map s_passengerId (take (length ms) sts)) = mset (map m_passengerId ms)
     \<and> mset (map s_passengerId (drop (length ms) sts)) = mset (map m_passengerId ms)"

primrec progress_ok :: "pool_state \<Rightarrow> nat \<Rightarrow> nat \<Rightarrow> bool" where
  "progress_ok PoolOpen k n = (k = 0)"
| "progress_ok ClosedFull k n = (k = 0)"
| "progress_ok ClosedTimeout k n = (k = 0)"
| "progress_ok ClosedStarted k n = (1 \<le> k \<and> k < n)"
| "progress_ok PoolCompleted k n = (k = n)"
| "progress_ok PoolAborted k n = (k = 0)"

definition pool_shape :: "shared_ride \<Rightarrow> pool_member list \<Rightarrow> ride_stop list \<Rightarrow> bool" where
  "pool_shape p ms sts \<longleftrightarrow>
     p_seatCount p = int (length ms) \<and> p_seatCount p \<le> p_maxSeats p
     \<and> (\<forall>m \<in> set ms. m_active m = (\<not> terminal_pool (p_poolState p)))
     \<and> in_order sts \<and> progress_ok (p_poolState p) (confirmed_count sts) (length sts)
     \<and> (p_claimedByDriverId p \<noteq> None \<longleftrightarrow>
          p_poolState p \<in> {ClosedStarted, PoolCompleted}
          \<or> p_claimedByDriverId p \<noteq> None \<and> p_poolState p \<in> {ClosedFull, ClosedTimeout})
     \<and> (if p_poolState p = PoolOpen then p_dispatchGeneration p = 0 \<and> sts = []
        else if p_poolState p = PoolAborted then p_dispatchGeneration p \<in> {0, 1}
        else p_dispatchGeneration p = 1 \<and> ms \<noteq> [] \<and> itinerary_shape ms sts)"

definition member_shape :: "pool_member \<Rightarrow> bool" where
  "member_shape m \<longleftrightarrow> m_seats m = 1 \<and> (m_active m \<longleftrightarrow> m_leftAt m = None)
     \<and> (case m_agreedFareCents m of None \<Rightarrow> False | Some f \<Rightarrow> 0 \<le> f \<and> f < 2 ^ 31)"

definition members_ok :: "db \<Rightarrow> bool" where
  "members_ok s \<longleftrightarrow>
     distinct (map member_pk (pool_members s))
     \<and> distinct (map m_passengerId (filter m_active (pool_members s)))
     \<and> distinct (map (\<lambda>m. (m_passengerId m, m_idempotencyKey m))
         (filter (\<lambda>m. m_idempotencyKey m \<noteq> None) (pool_members s)))
     \<and> (\<forall>m \<in> set (pool_members s). m_poolId m \<in> p_rideId ` set (shared_rides s) \<and> member_shape m)"

definition stops_ok :: "db \<Rightarrow> bool" where
  "stops_ok s \<longleftrightarrow> distinct (map stop_pk (ride_stops s)) \<and> s_rideId ` set (ride_stops s) \<subseteq> p_rideId ` set (shared_rides s)"

definition pools_ok :: "db \<Rightarrow> bool" where
  "pools_ok s \<longleftrightarrow>
     distinct (map p_rideId (shared_rides s)) \<and> members_ok s \<and> stops_ok s
     \<and> (\<forall>p \<in> set (shared_rides s). pool_shape p (members_of s (p_rideId p)) (findByRideId s (p_rideId p)))"

lemma pools_ok_row:
  "pools_ok s \<Longrightarrow> pool_row s i = Some p \<Longrightarrow> pool_shape p (members_of s i) (findByRideId s i)"
  by (auto simp: pools_ok_def dest!: row_SomeD)

lemma pools_ok_cong:
  "shared_rides s' = shared_rides s \<Longrightarrow> pool_members s' = pool_members s \<Longrightarrow> ride_stops s' = ride_stops s
   \<Longrightarrow> pools_ok s' = pools_ok s"
  by (simp add: pools_ok_def members_ok_def stops_ok_def members_of_def findByRideId_def)

section \<open>Lists under keyed updates\<close>

lemma filter_upd: "(\<And>x. R (f x) = R x) \<Longrightarrow> filter R (upd P f t) = upd P f (filter R t)"
  by (induction t) auto

lemma insort_key_upd:
  "(\<And>x. k (f x) = k x) \<Longrightarrow>
   insort_key k (if P x then f x else x) (upd P f ys) = upd P f (insort_key k x ys)"
  by (induction ys) auto

lemma sort_key_upd: "(\<And>x. k (f x) = k x) \<Longrightarrow> sort_key k (upd P f t) = upd P f (sort_key k t)"
  by (induction t) (auto simp flip: insort_key_upd)

lemma findByRideId_upd:
  assumes "ride_stops s' = upd P f (ride_stops s)" "\<And>x. s_rideId (f x) = s_rideId x"
    and "\<And>x. s_sequenceIndex (f x) = s_sequenceIndex x"
  shows "findByRideId s' i = upd P f (findByRideId s i)"
  unfolding findByRideId_def assms(1) by (simp add: filter_upd sort_key_upd assms(2,3))

lemma members_of_upd:
  "pool_members s' = upd P f (pool_members s) \<Longrightarrow> (\<And>m. m_poolId (f m) = m_poolId m) \<Longrightarrow>
   members_of s' i = upd P f (members_of s i)"
  by (simp add: members_of_def filter_upd)

lemma members_of_ids: "m \<in> set (members_of s i) \<Longrightarrow> m_poolId m = i"
  by (simp add: members_of_def)

lemma findByRideId_set: "set (findByRideId s i) = {x \<in> set (ride_stops s). s_rideId x = i}"
  by (auto simp: findByRideId_def)

lemma findByRideId_length: "length (findByRideId s i) = countAll s i"
  by (simp add: findByRideId_def countAll_def)

text \<open>One pool row changes, with its members or its stops.\<close>

lemma pools_ok_change:
  assumes ok: "pools_ok s" and row: "pool_row s i = Some p"
    and rs: "shared_rides s' = upd (\<lambda>x. p_rideId x = i) f (shared_rides s)" "\<And>x. p_rideId (f x) = p_rideId x"
    and other: "\<And>j. j \<noteq> i \<Longrightarrow> members_of s' j = members_of s j" "\<And>j. j \<noteq> i \<Longrightarrow> findByRideId s' j = findByRideId s j"
    and shape: "pool_shape (f p) (members_of s' i) (findByRideId s' i)" and tables: "members_ok s'" "stops_ok s'"
  shows "pools_ok s'"
proof -
  have "pool_shape q (members_of s' (p_rideId q)) (findByRideId s' (p_rideId q))" if q: "q \<in> set (shared_rides s')" for q
  proof -
    obtain x where x: "x \<in> set (shared_rides s)" "q = (if p_rideId x = i then f x else x)"
      using q by (auto simp: rs(1) set_upd)
    show ?thesis
    proof (cases "p_rideId x = i")
      case True
      then have "x = p" using x(1) row row_mem [of p_rideId "shared_rides s" x] ok by (simp add: pools_ok_def)
      with True x(2) shape rs(2) show ?thesis by simp
    next
      case False
      with x ok other show ?thesis by (simp add: pools_ok_def)
    qed
  qed
  with ok tables show ?thesis by (simp add: pools_ok_def rs map_key_upd)
qed

text \<open>A guarded update of the pool the guard holds of is an update by id.\<close>

lemma upd_guard_id:
  assumes "distinct (map p_rideId t)" "row p_rideId t i = Some p" "P p" "\<And>x. P x \<Longrightarrow> p_rideId x = i"
  shows "upd P f t = upd (\<lambda>x. p_rideId x = i) f t"
proof -
  have "P x = (p_rideId x = i)" if "x \<in> set t" for x
    using row_mem [OF assms(1) that] assms(2-4) by (metis option.inject)
  then show ?thesis by (simp add: upd_def)
qed

lemma stops_ok_cong:
  "ride_stops s' = ride_stops s \<Longrightarrow> p_rideId ` set (shared_rides s') = p_rideId ` set (shared_rides s) \<Longrightarrow> stops_ok s' = stops_ok s"
  by (simp add: stops_ok_def)

definition leave :: "instant \<Rightarrow> pool_member \<Rightarrow> pool_member" where
  "leave now m = m\<lparr>m_active := False, m_leftAt := Some now\<rparr>"

lemma leave_sel [simp]:
  "m_poolId (leave now m) = m_poolId m" "m_passengerId (leave now m) = m_passengerId m"
  "\<not> m_active (leave now m)" "m_seats (leave now m) = m_seats m" "m_leftAt (leave now m) = Some now"
  "m_agreedFareCents (leave now m) = m_agreedFareCents m" "m_idempotencyKey (leave now m) = m_idempotencyKey m"
  "member_pk (leave now m) = member_pk m"
  by (simp_all add: leave_def member_pk_def)

lemma member_shape_leave [simp]: "member_shape m \<Longrightarrow> member_shape (leave now m)"
  by (simp add: member_shape_def)

lemma update_pools_members:
  "pool_members (update_pools P f now s) = upd (releases P f (shared_rides s)) (leave now) (pool_members s)"
  by (simp add: update_pools_def leave_def [abs_def])

lemma filter_active_leave: "filter m_active (upd P (leave now) t) = filter (\<lambda>m. m_active m \<and> \<not> P m) t"
  by (induction t) auto

lemma members_ok_leave:
  assumes "members_ok s" "pool_members s' = upd P (leave now) (pool_members s)"
    and "p_rideId ` set (shared_rides s') = p_rideId ` set (shared_rides s)"
  shows "members_ok s'"
proof -
  have "distinct (map m_passengerId (filter (\<lambda>m. m_active m \<and> \<not> P m) (pool_members s)))"
    using assms(1) distinct_map_filter [of m_passengerId "filter m_active (pool_members s)" "\<lambda>m. \<not> P m"]
    by (simp add: members_ok_def conj_commute)
  moreover have "map (\<lambda>m. (m_passengerId m, m_idempotencyKey m)) (filter (\<lambda>m. m_idempotencyKey m \<noteq> None) (pool_members s'))
      = map (\<lambda>m. (m_passengerId m, m_idempotencyKey m)) (filter (\<lambda>m. m_idempotencyKey m \<noteq> None) (pool_members s))"
    unfolding assms(2) by (simp add: filter_upd map_key_upd)
  ultimately show ?thesis
    using assms by (auto simp: members_ok_def filter_active_leave map_key_upd set_upd)
qed

text \<open>An update of one pool row, as the triggers run it.\<close>

lemma pools_ok_update:
  assumes ok: "pools_ok s" and row: "pool_row s i = Some p" and P: "P p" "\<And>x. P x \<Longrightarrow> p_rideId x = i"
    and f: "\<And>x. p_rideId (f x) = p_rideId x" and s': "s' = update_pools P f now s"
    and shape: "pool_shape (bump f p)
       (if terminal_pool (p_poolState (f p)) \<and> p_poolState (f p) \<noteq> p_poolState p
        then upd m_active (leave now) (members_of s i) else members_of s i) (findByRideId s i)"
  shows "pools_ok s'"
proof -
  have d: "distinct (map p_rideId (shared_rides s))" using ok by (simp add: pools_ok_def)
  let ?t = "terminal_pool (p_poolState (f p)) \<and> p_poolState (f p) \<noteq> p_poolState p"
  have rel: "releases P f (shared_rides s) m \<longleftrightarrow> m_active m \<and> m_poolId m = i \<and> ?t" for m
  proof -
    have "x = p" if "x \<in> set (shared_rides s)" "P x" for x
      using that P(2) row row_mem [OF d that(1)] by simp
    moreover have "p \<in> set (shared_rides s)" "p_rideId p = i" using row_SomeD [OF row] by simp_all
    ultimately show ?thesis using P(1) unfolding releases_def by metis
  qed
  have ms: "pool_members s' = upd (releases P f (shared_rides s)) (leave now) (pool_members s)"
    unfolding s' by (rule update_pools_members)
  have ids: "p_rideId ` set (shared_rides s') = p_rideId ` set (shared_rides s)"
    by (simp add: s' f key_image_upd)
  have mo: "members_of s' j = upd (releases P f (shared_rides s)) (leave now) (members_of s j)" for j
    by (rule members_of_upd [OF ms]) simp
  show ?thesis
  proof (rule pools_ok_change [OF ok row])
    show "shared_rides s' = upd (\<lambda>x. p_rideId x = i) (bump f) (shared_rides s)"
      using upd_guard_id [where P = P, OF d row P] by (simp add: s')
    show "p_rideId (bump f x) = p_rideId x" for x by (simp add: f)
    show "members_of s' j = members_of s j" if "j \<noteq> i" for j
      unfolding mo using that by (intro upd_id) (auto simp: rel dest: members_of_ids)
    show "findByRideId s' j = findByRideId s j" for j by (simp add: findByRideId_def s')
    then have st: "findByRideId s' i = findByRideId s i" .
    have "members_of s' i = (if ?t then upd m_active (leave now) (members_of s i) else members_of s i)"
    proof (cases ?t)
      case True
      have "releases P f (shared_rides s) m = m_active m" if "m \<in> set (members_of s i)" for m
        using True that by (simp add: rel members_of_ids)
      then show ?thesis using True unfolding mo by (simp add: upd_def)
    next
      case False
      then show ?thesis unfolding mo by (auto simp: rel intro: upd_id)
    qed
    then show "pool_shape (bump f p) (members_of s' i) (findByRideId s' i)" using shape st by simp
    show "members_ok s'" using ok ids by (intro members_ok_leave [OF _ ms]) (simp_all add: pools_ok_def)
    show "stops_ok s'" using ok stops_ok_cong [OF _ ids] by (simp add: pools_ok_def s')
  qed
qed

section \<open>Seats\<close>

lemma update_pools_members_same:
  "(\<And>p. P p \<Longrightarrow> p_poolState (f p) = p_poolState p) \<Longrightarrow> pool_members (update_pools P f now s) = pool_members s"
  by (simp add: update_pools_members, rule upd_id) (auto simp: releases_def)

lemma add_seat_sel [simp]:
  "p_rideId (add_seat m now p) = p_rideId p" "p_poolState (add_seat m now p) = p_poolState p"
  "p_seatCount (add_seat m now p) = p_seatCount p + m_seats m" "p_maxSeats (add_seat m now p) = p_maxSeats p"
  "p_claimedByDriverId (add_seat m now p) = p_claimedByDriverId p"
  "p_dispatchGeneration (add_seat m now p) = p_dispatchGeneration p"
  by (simp_all add: add_seat_def)

lemma insert_member_row_cases:
  assumes "insert_member_row m now s = Inr (u, s')"
  obtains p f where "pool_row s (m_poolId m) = Some p" "p_poolState p = PoolOpen" "m_agreedFareCents m = Some f"
    "0 \<le> f" "f < 2 ^ 31" "m_seats m = 1" "p_seatCount p < p_maxSeats p" "member_pk m \<notin> member_pk ` set (pool_members s)"
    "m_idempotencyKey m \<noteq> None \<Longrightarrow> (m_passengerId m, m_idempotencyKey m) \<notin>
       (\<lambda>m. (m_passengerId m, m_idempotencyKey m)) ` set (pool_members s)"
    "m_passengerId m \<notin> m_passengerId ` set (filter m_active (pool_members s))" "m_passengerId m \<in> u_id ` set (users s)"
    "s' = update_pools (seat_row m) (add_seat m now) now (s\<lparr>pool_members := pool_members s @ [m]\<rparr>)"
    "pool_members s' = pool_members s @ [m]"
proof -
  obtain f where f: "m_agreedFareCents m = Some f"
    using assms by (cases "m_agreedFareCents m") (auto simp: insert_member_row_def)
  obtain p where p: "pool_row s (m_poolId m) = Some p"
    using assms f by (cases "pool_row s (m_poolId m)") (auto simp: insert_member_row_def)
  have s': "s' = update_pools (seat_row m) (add_seat m now) now (s\<lparr>pool_members := pool_members s @ [m]\<rparr>)"
    using assms f p by (simp add: insert_member_row_def split: if_splits)
  have "pool_members s' = pool_members s @ [m]" by (simp add: s' update_pools_members_same)
  with assms f p s' show thesis
    by (intro that [OF p _ f]) (auto simp: insert_member_row_def list_ex_iff split: if_splits)
qed

lemma insert_member_ok:
  assumes "insert_member_row m now s = Inr (u, s')" "pools_ok s" "m_active m" "m_leftAt m = None"
  shows "pools_ok s'"
  using assms(1)
proof (cases rule: insert_member_row_cases)
  case (1 p f)
  let ?i = "m_poolId m"
  have rs: "shared_rides s' = upd (\<lambda>x. p_rideId x = ?i) (bump (add_seat m now)) (shared_rides s)"
    by (simp add: 1(12) seat_row_def [abs_def])
  have ids: "p_rideId ` set (shared_rides s') = p_rideId ` set (shared_rides s)" by (simp add: rs key_image_upd)
  have st: "ride_stops s' = ride_stops s" by (simp add: 1(12))
  have mo: "members_of s' j = members_of s j @ (if j = ?i then [m] else [])" for j
    by (auto simp: members_of_def 1(13))
  have fs: "findByRideId s' j = findByRideId s j" for j by (simp add: findByRideId_def st)
  show ?thesis
  proof (rule pools_ok_change [OF assms(2) 1(1) rs])
    have "pool_shape p (members_of s ?i) (findByRideId s ?i)" by (rule pools_ok_row [OF assms(2) 1(1)])
    then show "pool_shape (bump (add_seat m now) p) (members_of s' ?i) (findByRideId s' ?i)"
      using 1(2,6,7) assms(3) fs by (simp add: pool_shape_def mo)
    have "?i \<in> p_rideId ` set (shared_rides s)" using row_SomeD [OF 1(1)] by force
    moreover have "member_shape m" using 1(3-6) assms(3,4) by (simp add: member_shape_def)
    ultimately show "members_ok s'"
      using assms(2) 1(8-10) by (auto simp: members_ok_def pools_ok_def 1(13) ids)
    show "stops_ok s'" using assms(2) stops_ok_cong [OF st ids] by (simp add: pools_ok_def)
  qed (simp_all add: mo fs)
qed

text \<open>A seat changes no view of dispatch.\<close>

lemma pool_update_views:
  assumes "distinct (map p_rideId (shared_rides s))" "pool_row s i = Some p"
    and "shared_rides s' = upd (\<lambda>x. p_rideId x = i) f (shared_rides s)" "rides s' = rides s"
    and "\<And>x. p_rideId (f x) = p_rideId x"
  shows "trip_driver s' = (trip_driver s)(Shared i := pool_driver (f p))"
    and "disp s' = (disp s)(Shared i := pool_disp (f p))"
  using trip_driver_pool [OF assms(3,4,5) _ assms(2)] disp_pool [OF assms(3,4,5) _ assms(2)] row_key [OF assms(2)]
  by simp_all

lemma views_same_refines:
  assumes "core_ok s" "distinct (map r_id (rides s'))" "distinct (map p_rideId (shared_rides s'))"
    and "trip_driver s' = trip_driver s" "disp s' = disp s" "assignments s' = assignments s" "offers s' = offers s"
  shows "refines s s'"
proof -
  have "core_ok s'"
    using assms guard_of_cong [of s' s] live_current_cong [of s' s] offer_keys_cong [of s' s]
    by (simp add: core_ok_def guard_keys_def)
  moreover have "abs_dispatch s' = abs_dispatch s"
    using assms live_set_cong [of s' s] by (simp add: abs_dispatch_def)
  ultimately show ?thesis by (simp add: refines_def)
qed

lemma insert_member_refines:
  assumes "insert_member_row m now s = Inr (u, s')" "core_ok s"
  shows "refines s s'"
  using assms(1)
proof (cases rule: insert_member_row_cases)
  case (1 p f)
  have rs: "shared_rides s' = upd (\<lambda>x. p_rideId x = m_poolId m) (bump (add_seat m now)) (shared_rides s)"
    by (simp add: 1(12) seat_row_def [abs_def])
  have d: "distinct (map p_rideId (shared_rides s))" using assms(2) by (simp add: core_ok_def)
  have "trip_driver s' = (trip_driver s)(Shared (m_poolId m) := pool_driver (bump (add_seat m now) p))"
    and "disp s' = (disp s)(Shared (m_poolId m) := pool_disp (bump (add_seat m now) p))"
    by (rule pool_update_views [OF d 1(1) rs]; simp add: 1(12))+
  moreover have "pool_driver (bump (add_seat m now) p) = trip_driver s (Shared (m_poolId m))"
    and "pool_disp (bump (add_seat m now) p) = disp s (Shared (m_poolId m))"
    using 1(1) by (simp_all add: pool_driver_def pool_disp_def)
  ultimately show ?thesis
    using assms(2) by (intro views_same_refines) (simp_all add: 1(12) core_ok_def map_key_upd fun_upd_idem)
qed

lemma insertMember_cases:
  assumes "insertMember m now s = Inr (res, s')"
  obtains (no) r ex where "res = NotSeated r ex" "s' = s"
  | (seated) p where "res = Seated (p_seatCount p + 1)" "insert_member_row m now s = Inr ((), s')"
      "pool_row s (m_poolId m) = Some p"
proof (cases "insert_member_row m now s")
  case (Inl e)
  have "\<exists>r ex. classifyDuplicate m c s = NotSeated r ex" for c
    by (auto simp: classifyDuplicate_def Let_def split: option.splits)
  with Inl assms have "(\<exists>r ex. res = NotSeated r ex) \<and> s' = s"
    by (auto simp: insertMember_def split: option.splits if_splits db_error.splits)
  then show thesis using no by blast
next
  case (Inr x)
  obtain u where x: "x = (u, s')"
    using assms Inr by (cases x) (auto simp: insertMember_def split: option.splits if_splits)
  from Inr [unfolded x] show thesis
  proof (cases rule: insert_member_row_cases)
    case (1 p f)
    have "pool_row s' (m_poolId m) = Some (bump (add_seat m now) p)"
      using 1(1) row_key [OF 1(1)] by (simp add: 1(12) row_upd seat_row_def)
    then show thesis
      using assms Inr x 1(1,6) by (intro seated [of p]) (auto simp: insertMember_def split: option.splits if_splits)
  qed
qed

section \<open>Closure\<close>

lemma stop_row_sel [simp]:
  "s_rideId (stop_row i st) = i" "s_sequenceIndex (stop_row i st) = os_sequenceIndex st"
  "s_passengerId (stop_row i st) = os_passengerId st" "s_type (stop_row i st) = os_type st"
  "s_confirmedAt (stop_row i st) = None"
  by (simp_all add: stop_row_def)

lemma close_row_sel [simp]:
  "p_rideId (close_row reason now p) = p_rideId p" "p_poolState (close_row reason now p) = reason"
  "p_seatCount (close_row reason now p) = p_seatCount p" "p_maxSeats (close_row reason now p) = p_maxSeats p"
  "p_claimedByDriverId (close_row reason now p) = p_claimedByDriverId p"
  "p_dispatchGeneration (close_row reason now p) = p_dispatchGeneration p + 1"
  by (simp_all add: close_row_def)

lemma member_of_pid [simp]: "mb_passengerId (member_of m) = m_passengerId m"
  by (simp add: member_of_def)

lemma listMembers_mset: "image_mset mb_passengerId (mset (listMembers s i)) = mset (map m_passengerId (members_of s i))"
  by (simp add: listMembers_def image_mset.compositionality comp_def)

lemma listMembers_length [simp]: "length (listMembers s i) = length (members_of s i)"
  by (simp add: listMembers_def)

text \<open>The stops computed for the committed members have the itinerary's shape.\<close>

lemma computed_shape:
  "itinerary_shape (members_of s i) (map (stop_row i) (computeStops lat lng (listMembers s i)))"
proof -
  let ?ms = "listMembers s i" and ?sts = "computeStops lat lng (listMembers s i)"
  have "mset (map s_passengerId (take (length ?ms) (map (stop_row i) ?sts))) = mset (map m_passengerId (members_of s i))"
    and "mset (map s_passengerId (drop (length ?ms) (map (stop_row i) ?sts))) = mset (map m_passengerId (members_of s i))"
    using stops_passengers [of ?ms haversineM lat lng]
    by (simp_all add: computeStops_def take_map drop_map comp_def listMembers_mset)
  then show ?thesis
    using stops_sequence [of haversineM lat lng ?ms] stops_types [of haversineM lat lng ?ms]
    by (simp add: itinerary_shape_def computeStops_def comp_def)
qed

lemma sort_key_sorted: "sorted (map k xs) \<Longrightarrow> sort_key k xs = xs"
  by (rule sort_key_id_if_sorted)

lemma open_at_id:
  "distinct (map p_rideId t) \<Longrightarrow> row p_rideId t i = Some p \<Longrightarrow> p_poolState p = PoolOpen \<Longrightarrow>
   upd (open_at i) f t = upd (\<lambda>x. p_rideId x = i) f t"
  by (rule upd_guard_id) (auto simp: open_at_def dest: row_key)

lemma closeInTxn_cases:
  assumes "closeInTxn pool reason xid now s = Inr (g, s')" "pool_row s (p_rideId pool) = Some pool"
    "p_poolState pool = PoolOpen" "distinct (map p_rideId (shared_rides s))"
  obtains b s1 stops where "g = Some (p_dispatchGeneration pool + 1)"
    "s1 = update_pools (open_at (p_rideId pool)) (close_row reason now) now s"
    "stops = computeStops (p_originLat pool) (p_originLng pool) (listMembers s1 (p_rideId pool))"
    "enqueueOutbox (pool_dispatch_message (p_rideId pool) (p_dispatchGeneration pool + 1) reason) xid now
       (s1\<lparr>ride_stops := ride_stops s1 @ map (stop_row (p_rideId pool)) stops\<rparr>) = Inr (b, s')"
    "stops \<noteq> [] \<longrightarrow> distinct (map stop_pk (ride_stops s1 @ map (stop_row (p_rideId pool)) stops))"
proof -
  let ?i = "p_rideId pool"
  let ?s1 = "update_pools (open_at ?i) (close_row reason now) now s"
  let ?st = "computeStops (p_originLat pool) (p_originLng pool) (listMembers ?s1 ?i)"
  have "List.find (open_at ?i) (shared_rides s) = Some pool"
  proof -
    have "pool \<in> set (shared_rides s)" "open_at ?i pool"
      using row_SomeD [OF assms(2)] assms(3) by (simp_all add: open_at_def)
    moreover from this obtain q where q: "List.find (open_at ?i) (shared_rides s) = Some q"
      by (cases "List.find (open_at ?i) (shared_rides s)") (auto simp: find_None_iff)
    moreover from q have "q \<in> set (shared_rides s)" "p_rideId q = ?i"
      by (auto simp: find_Some_iff open_at_def)
    ultimately show ?thesis using row_mem [OF assms(4), of q] assms(2) by (metis option.inject)
  qed
  then have c: "closeOpen ?i reason now s = (Some (p_dispatchGeneration pool + 1), ?s1)"
    by (simp add: closeOpen_def)
  obtain u s2 where ins: "insertItinerary ?i ?st ?s1 = Inr (u, s2)"
    using assms(1) by (cases "insertItinerary ?i ?st ?s1") (auto simp: closeInTxn_def c)
  have s2: "s2 = ?s1\<lparr>ride_stops := ride_stops ?s1 @ map (stop_row ?i) ?st\<rparr>"
    "?st \<noteq> [] \<longrightarrow> distinct (map stop_pk (ride_stops ?s1 @ map (stop_row ?i) ?st))"
    using ins by (auto simp: insertItinerary_def Let_def split: if_splits)
  obtain b where e: "enqueueOutbox (pool_dispatch_message ?i (p_dispatchGeneration pool + 1) reason) xid now s2 = Inr (b, s')"
    and g: "g = Some (p_dispatchGeneration pool + 1)"
    using assms(1) ins by (auto simp: closeInTxn_def c split: sum.splits)
  show thesis by (rule that [OF g refl refl e [unfolded s2(1)] s2(2)])
qed

lemma closeInTxn_ok:
  assumes c: "closeInTxn pool reason xid now s = Inr (g, s')" and row: "pool_row s (p_rideId pool) = Some pool"
    and st: "p_poolState pool = PoolOpen" and ok: "pools_ok s" and r: "claimable_pool reason" and n: "0 < p_seatCount pool"
  shows "pools_ok s'"
proof -
  have d: "distinct (map p_rideId (shared_rides s))" using ok by (simp add: pools_ok_def)
  let ?i = "p_rideId pool"
  from c row st d obtain b s1 stops where s1: "s1 = update_pools (open_at ?i) (close_row reason now) now s"
    and stops: "stops = computeStops (p_originLat pool) (p_originLng pool) (listMembers s1 ?i)"
    and enq: "enqueueOutbox (pool_dispatch_message ?i (p_dispatchGeneration pool + 1) reason) xid now
       (s1\<lparr>ride_stops := ride_stops s1 @ map (stop_row ?i) stops\<rparr>) = Inr (b, s')"
    and dist: "stops \<noteq> [] \<longrightarrow> distinct (map stop_pk (ride_stops s1 @ map (stop_row ?i) stops))"
    by (rule closeInTxn_cases)
  note sel = enqueue_sel [OF enq]
  have nt: "\<not> terminal_pool reason" using r by (cases reason) simp_all
  have shape: "pool_shape pool (members_of s ?i) (findByRideId s ?i)" by (rule pools_ok_row [OF ok row])
  then have no: "findByRideId s ?i = []" and g0: "p_dispatchGeneration pool = 0" using st by (simp_all add: pool_shape_def)
  have pm: "pool_members s' = pool_members s"
    using sel nt by (simp add: s1 update_pools_members, intro upd_id) (auto simp: releases_def)
  then have mo: "members_of s' j = members_of s j" "members_of s1 j = members_of s j" for j
    using sel by (simp_all add: members_of_def)
  have rs: "shared_rides s' = upd (\<lambda>x. p_rideId x = ?i) (bump (close_row reason now)) (shared_rides s)"
    using open_at_id [OF d row] st sel by (simp add: s1)
  have ids: "p_rideId ` set (shared_rides s') = p_rideId ` set (shared_rides s)" by (simp add: rs key_image_upd)
  have rst: "ride_stops s' = ride_stops s @ map (stop_row ?i) stops" using sel by (simp add: s1)
  have nil: "filter (\<lambda>x. s_rideId x = ?i) (ride_stops s) = []"
    using no by (metis findByRideId_def length_0_conv length_sort)
  have itin: "itinerary_shape (members_of s ?i) (map (stop_row ?i) stops)"
    using computed_shape [of s1 ?i "p_originLat pool" "p_originLng pool"] by (simp add: stops mo)
  have fs: "findByRideId s' ?i = map (stop_row ?i) stops"
  proof -
    have "sorted (map s_sequenceIndex (map (stop_row ?i) stops))"
      using itin by (simp add: itinerary_shape_def sorted_map sorted_wrt_upt)
    then have "sort_key s_sequenceIndex (map (stop_row ?i) stops) = map (stop_row ?i) stops" by (rule sort_key_sorted)
    moreover have "filter (\<lambda>x. s_rideId x = ?i) (map (stop_row ?i) stops) = map (stop_row ?i) stops"
      by (simp add: filter_map comp_def)
    ultimately show ?thesis by (simp add: findByRideId_def rst nil)
  qed
  have len: "length stops = 2 * length (members_of s ?i)" using stops by (simp add: computeStops_def mo)
  have ne: "members_of s ?i \<noteq> []" using shape n by (auto simp: pool_shape_def)
  show ?thesis
  proof (rule pools_ok_change [OF ok row rs])
    show "findByRideId s' j = findByRideId s j" if "j \<noteq> ?i" for j
      using that by (simp add: findByRideId_def rst filter_map comp_def)
    have "confirmed_count (map (stop_row ?i) stops) = 0 \<and> in_order (map (stop_row ?i) stops)"
      by (rule fresh_stops) (simp add: list_all_iff)
    then show "pool_shape (bump (close_row reason now) pool) (members_of s' ?i) (findByRideId s' ?i)"
      using shape st nt r ne itin g0 unfolding fs mo
      by (cases reason) (simp_all add: pool_shape_def)
    show "members_ok s'" using ok by (simp add: pools_ok_def members_ok_def pm ids)
    have "stops \<noteq> []" using len ne by auto
    then show "stops_ok s'"
      using ok dist row_SomeD [OF row] by (auto simp: pools_ok_def stops_ok_def rst ids s1)
  qed (simp_all add: mo)
qed

lemma closeInTxn_refines:
  assumes c: "closeInTxn pool reason xid now s = Inr (g, s')" and row: "pool_row s (p_rideId pool) = Some pool"
    and st: "p_poolState pool = PoolOpen" "p_claimedByDriverId pool = None" and core: "core_ok s" and r: "claimable_pool reason"
  shows "refines s s'"
proof -
  have d: "distinct (map p_rideId (shared_rides s))" using core by (simp add: core_ok_def)
  let ?i = "p_rideId pool"
  from c row st(1) d obtain b s1 stops where s1: "s1 = update_pools (open_at ?i) (close_row reason now) now s"
    and enq: "enqueueOutbox (pool_dispatch_message ?i (p_dispatchGeneration pool + 1) reason) xid now
       (s1\<lparr>ride_stops := ride_stops s1 @ map (stop_row ?i) stops\<rparr>) = Inr (b, s')"
    by (rule closeInTxn_cases) blast
  note sel = enqueue_sel [OF enq]
  have rs: "shared_rides s' = upd (\<lambda>x. p_rideId x = ?i) (bump (close_row reason now)) (shared_rides s)"
    using open_at_id [OF d row] st sel by (simp add: s1)
  have rd: "rides s' = rides s" using sel by (simp add: s1)
  have "\<not> terminal_pool reason" using r by (cases reason) simp_all
  then have v: "trip_driver s' = (trip_driver s)(Shared ?i := None)"
      "disp s' = (disp s)(Shared ?i \<mapsto> p_dispatchGeneration pool + 1)"
    using pool_update_views [OF d row rs rd] st r by (simp_all add: pool_driver_def pool_disp_def)
  have n: "trip_driver s (Shared ?i) = None" "disp s (Shared ?i) = None"
    using row st by (simp_all add: pool_driver_def pool_disp_def)
  show ?thesis
  proof (rule refines_open [OF core _ _ n _ v(2)])
    show "trip_driver s' = trip_driver s" using v(1) n(1) by (simp add: fun_upd_idem)
  qed (use core sel d in \<open>simp_all add: rs rd s1 core_ok_def map_key_upd\<close>)
qed

section \<open>Whole transactions\<close>

lemma complete_seat_sel [simp]:
  "rides (complete_seat ik i out clk s) = rides s" "shared_rides (complete_seat ik i out clk s) = shared_rides s"
  "offers (complete_seat ik i out clk s) = offers s" "assignments (complete_seat ik i out clk s) = assignments s"
  "outbox (complete_seat ik i out clk s) = outbox s" "pool_members (complete_seat ik i out clk s) = pool_members s"
  "ride_stops (complete_seat ik i out clk s) = ride_stops s" "users (complete_seat ik i out clk s) = users s"
  "drivers (complete_seat ik i out clk s) = drivers s"
  by (simp_all add: complete_seat_def split: option.splits)

lemma complete_seat_pools [simp]: "pools_ok (complete_seat ik i out clk s) = pools_ok s"
  by (rule pools_ok_cong) simp_all

lemma complete_seat_refines: "refines s s' \<Longrightarrow> refines s (complete_seat ik i out clk s')"
  using refinesD by (blast intro: refines_trans refines_same complete_seat_sel)

lemma enqueue_pools: "enqueueOutbox m xid now s = Inr (b, s') \<Longrightarrow> pools_ok s' = pools_ok s"
  using enqueue_sel by (intro pools_ok_cong) blast+

lemma enqueue_refines: "enqueueOutbox m xid now s = Inr (b, s') \<Longrightarrow> core_ok s \<Longrightarrow> refines s s'"
  using enqueue_sel by (intro refines_same) blast+

lemma new_pool_sel [simp]:
  "p_rideId (new_pool i a b c e mx bud tmo now) = i" "p_poolState (new_pool i a b c e mx bud tmo now) = PoolOpen"
  "p_seatCount (new_pool i a b c e mx bud tmo now) = 0" "p_maxSeats (new_pool i a b c e mx bud tmo now) = mx"
  "p_claimedByDriverId (new_pool i a b c e mx bud tmo now) = None"
  "p_dispatchGeneration (new_pool i a b c e mx bud tmo now) = 0"
  by (simp_all add: new_pool_def)

lemma insertOpenPool_ok:
  assumes "insertOpenPool p s = Inr (u, s')" "pools_ok s" "p_poolState p = PoolOpen" "p_seatCount p = 0"
    and "p_claimedByDriverId p = None" "p_dispatchGeneration p = 0"
  shows "pools_ok s'"
proof -
  have n: "p_rideId p \<notin> p_rideId ` set (shared_rides s)" "1 \<le> p_maxSeats p"
      "s' = s\<lparr>shared_rides := shared_rides s @ [p]\<rparr>"
    using assms(1) by (auto simp: insertOpenPool_def split: if_splits)
  have "members_of s (p_rideId p) = []"
    using n(1) assms(2) unfolding members_of_def filter_empty_conv pools_ok_def members_ok_def by metis
  moreover have "filter (\<lambda>x. s_rideId x = p_rideId p) (ride_stops s) = []"
    using n(1) assms(2) by (auto simp: filter_empty_conv pools_ok_def stops_ok_def) (metis image_eqI subsetD)
  then have "findByRideId s (p_rideId p) = []" by (simp add: findByRideId_def)
  moreover have "members_of s' = members_of s" "findByRideId s' = findByRideId s"
    by (simp_all add: fun_eq_iff members_of_def findByRideId_def n(3))
  ultimately have "pool_shape q (members_of s' (p_rideId q)) (findByRideId s' (p_rideId q))"
    if "q \<in> set (shared_rides s')" for q
    using that assms n(2) by (auto simp: n(3) pools_ok_def pool_shape_def [of p])
  moreover have "members_ok s'" "stops_ok s'"
    using assms(2) by (auto simp: n(3) pools_ok_def members_ok_def stops_ok_def)
  ultimately show ?thesis using assms(2) n(1) by (simp add: pools_ok_def n(3))
qed

lemma insertOpenPool_refines:
  assumes "insertOpenPool p s = Inr (u, s')" "core_ok s" "p_poolState p = PoolOpen" "p_claimedByDriverId p = None"
  shows "refines s s'"
proof -
  have n: "p_rideId p \<notin> p_rideId ` set (shared_rides s)" "s' = s\<lparr>shared_rides := shared_rides s @ [p]\<rparr>"
    using assms(1) by (auto simp: insertOpenPool_def split: if_splits)
  have "trip_driver s' = (trip_driver s)(Shared (p_rideId p) := pool_driver p)"
      "disp s' = (disp s)(Shared (p_rideId p) := pool_disp p)"
    by (rule views_new_pool; simp add: n)+
  moreover have "pool_row s (p_rideId p) = None" using n(1) by (simp add: row_None_iff)
  ultimately have "trip_driver s' = trip_driver s" "disp s' = disp s"
    using assms(3,4) by (simp_all add: pool_driver_def pool_disp_def fun_upd_idem)
  then show ?thesis
    using assms(2) n(1) by (intro views_same_refines) (simp_all add: n(2) core_ok_def)
qed

lemma new_member_sel [simp]:
  "m_poolId (new_member i j fare key now) = i" "m_passengerId (new_member i j fare key now) = mb_passengerId j"
  "m_active (new_member i j fare key now)" "m_leftAt (new_member i j fare key now) = None"
  "m_agreedFareCents (new_member i j fare key now) = Some fare" "m_idempotencyKey (new_member i j fare key now) = key"
  "m_seats (new_member i j fare key now) = 1"
  by (simp_all add: new_member_def)

text \<open>What a committed open wrote.\<close>

lemma open_tx_cases:
  assumes "open_tx o_p i xid tmo quote ik now clk s = Inr (res, s')"
  obtains (reject) r where "res = Inl r" "s' = s" "r \<noteq> OpenConflict"
  | (opened) s1 s2 s3 q b where "insertOpenPool (new_pool i (mb_originLat (op_opener o_p)) (mb_originLng (op_opener o_p))
        (mb_destLat (op_opener o_p)) (mb_destLng (op_opener o_p)) (op_maxSeats o_p) (op_detourBudgetM o_p) tmo now) s
        = Inr ((), s1)"
      "quote (seat_context i (op_opener o_p) 1 (mb_originLat (op_opener o_p)) (mb_originLng (op_opener o_p)) [op_opener o_p])
        = Inr q"
      "insert_member_row (new_member i (op_opener o_p) (sq_perSeatPrice q) (seat_key ik) now) now s1 = Inr ((), s2)"
      "enqueueOutbox (pool_expire_message i (now + tmo)) xid now s2 = Inr (b, s3)"
      "res = Inr \<lparr>on_seatCount = 1, on_poolClosedAt = now + tmo, on_quote = q\<rparr>"
      "s' = complete_seat ik i \<lparr>so_sharedRideId = i, so_mode = SeatOpened, so_poolStatus = PoolOpen,
         so_seatCount = 1, so_quote = q\<rparr> clk s3"
proof -
  let ?j = "op_opener o_p"
  let ?p = "new_pool i (mb_originLat ?j) (mb_originLng ?j) (mb_destLat ?j) (mb_destLng ?j) (op_maxSeats o_p)
     (op_detourBudgetM o_p) tmo now"
  obtain s1 where s1: "insertOpenPool ?p s = Inr ((), s1)"
    using assms by (cases "insertOpenPool ?p s") (auto simp: open_tx_def Let_def)
  obtain q where q: "quote (seat_context i ?j 1 (mb_originLat ?j) (mb_originLng ?j) [?j]) = Inr q"
    using assms s1 by (cases "quote (seat_context i ?j 1 (mb_originLat ?j) (mb_originLng ?j) [?j])")
      (auto simp: open_tx_def Let_def)
  let ?m = "new_member i ?j (sq_perSeatPrice q) (seat_key ik) now"
  obtain ires s2 where ins: "insertMember ?m now s1 = Inr (ires, s2)"
    using assms s1 q by (cases "insertMember ?m now s1") (auto simp: open_tx_def Let_def)
  have row: "pool_row s1 i = Some ?p"
    using s1 by (auto simp: insertOpenPool_def row_append_new row_None_iff split: if_splits)
  from ins show thesis
  proof (cases rule: insertMember_cases)
    case (no r ex)
    then show thesis
      using assms s1 q ins by (cases r) (auto simp: open_tx_def Let_def intro: reject)
  next
    case (seated p)
    then have "p_seatCount p = 0" using row by auto
    then have one: "ires = Seated 1" using seated(1) by simp
    obtain b s3 where e: "enqueueOutbox (pool_expire_message i (now + tmo)) xid now s2 = Inr (b, s3)"
      using assms s1 q ins one
      by (cases "enqueueOutbox (pool_expire_message i (now + tmo)) xid now s2") (auto simp: open_tx_def Let_def)
    show thesis
      using assms s1 q ins one e by (intro opened [OF s1 q seated(2) e]) (auto simp: open_tx_def Let_def)
  qed
qed

lemma open_tx_ok:
  assumes "open_tx o_p i xid tmo quote ik now clk s = Inr (res, s')" "core_ok s" "pools_ok s"
  shows "refines s s' \<and> pools_ok s' \<and> rides s' = rides s"
  using assms(1)
proof (cases rule: open_tx_cases)
  case (reject r)
  with assms show ?thesis by (simp add: refines_refl)
next
  case (opened s1 s2 s3 q b)
  have 1: "refines s s1" by (rule insertOpenPool_refines [OF opened(1) assms(2)]) simp_all
  have 2: "refines s1 s2" by (rule insert_member_refines [OF opened(3) refinesD [OF 1]])
  have 3: "refines s2 s3" by (rule enqueue_refines [OF opened(4) refinesD [OF 2]])
  have "pools_ok s1" by (rule insertOpenPool_ok [OF opened(1) assms(3)]) simp_all
  then have "pools_ok s2" by (rule insert_member_ok [OF opened(3)]) simp_all
  then have "pools_ok s3" using enqueue_pools [OF opened(4)] by simp
  moreover have "rides s1 = rides s" using opened(1) by (auto simp: insertOpenPool_def split: if_splits)
  moreover have "rides s2 = rides s1" using opened(3) by (rule insert_member_row_cases) simp
  moreover have "rides s3 = rides s2" using enqueue_sel [OF opened(4)] by simp
  ultimately show ?thesis
    using complete_seat_refines [OF refines_trans [OF refines_trans [OF 1 2] 3]] by (simp add: opened(6))
qed

lemma seat_joiner_cases:
  assumes "seat_joiner pool j q ik xid now clk s = Inr (res, s')"
  obtains (no) r ex where "res = Inl (JoinInsert r, ex)" "s' = s"
  | (seated) p s1 g s2 where "insert_member_row (new_member (p_rideId pool) j (sq_perSeatPrice q) (seat_key ik) now) now s = Inr ((), s1)"
      "pool_row s (p_rideId pool) = Some p"
      "(if p_maxSeats pool \<le> p_seatCount p + 1 then closeInTxn pool ClosedFull xid now s1 else Inr (None, s1)) = Inr (g, s2)"
      "res = Inr \<lparr>jn_closedFull = (g \<noteq> None), jn_seatCount = p_seatCount p + 1, jn_quote = q\<rparr>"
      "s' = complete_seat ik (p_rideId pool) \<lparr>so_sharedRideId = p_rideId pool, so_mode = SeatSlotted,
         so_poolStatus = (if g \<noteq> None then ClosedFull else PoolOpen), so_seatCount = p_seatCount p + 1, so_quote = q\<rparr> clk s2"
proof -
  let ?m = "new_member (p_rideId pool) j (sq_perSeatPrice q) (seat_key ik) now"
  obtain ires s1 where ins: "insertMember ?m now s = Inr (ires, s1)"
    using assms by (cases "insertMember ?m now s") (auto simp: seat_joiner_def)
  from ins show thesis
  proof (cases rule: insertMember_cases)
    case no
    with assms ins show thesis by (auto simp: seat_joiner_def intro: that(1))
  next
    case (seated p)
    let ?c = "if p_maxSeats pool \<le> p_seatCount p + 1 then closeInTxn pool ClosedFull xid now s1 else Inr (None, s1)"
    obtain g s2 where c: "?c = Inr (g, s2)"
      using assms ins seated(1) by (cases ?c) (auto simp: seat_joiner_def)
    show thesis
      using assms ins seated(1) c seated(3) by (intro that(2) [OF seated(2) _ c]) (auto simp: seat_joiner_def)
  qed
qed

lemma join_tx_cases:
  assumes "join_tx i j quote ik xid now clk s = Inr (res, s')"
  obtains (no) r where "res = Inl r" "s' = s"
  | (seat) pool q where "pool_row s i = Some pool" "p_poolState pool = PoolOpen" "p_seatCount pool < p_maxSeats pool"
      "quote (seat_context i j (p_seatCount pool + 1) (p_originLat pool) (p_originLng pool)
         (filter (\<lambda>m. mb_passengerId m \<noteq> mb_passengerId j) (listMembers s i) @ [j])) = Inr q"
      "seat_joiner pool j q ik xid now clk s = Inr (res, s')"
  using assms by (auto simp: join_tx_def lockPool_def split: option.splits if_splits sum.splits)

lemma join_tx_ok:
  assumes "join_tx i j quote ik xid now clk s = Inr (res, s')" "core_ok s" "pools_ok s"
  shows "refines s s' \<and> pools_ok s' \<and> rides s' = rides s"
  using assms(1)
proof (cases rule: join_tx_cases)
  case (no r)
  with assms show ?thesis by (simp add: refines_refl)
next
  case (seat pool q)
  from seat(5) show ?thesis
  proof (cases rule: seat_joiner_cases)
    case no
    with assms show ?thesis by (simp add: refines_refl)
  next
    case (seated p s1 g s2)
    have i: "p_rideId pool = i" using seat(1) row_key by fast
    let ?m = "new_member i j (sq_perSeatPrice q) (seat_key ik) now"
    have ins: "insert_member_row ?m now s = Inr ((), s1)" using seated(1) i by simp
    have 1: "refines s s1" by (rule insert_member_refines [OF ins assms(2)])
    have ok1: "pools_ok s1" by (rule insert_member_ok [OF ins assms(3)]) simp_all
    have rd: "rides s1 = rides s" using ins by (rule insert_member_row_cases) simp
    have row1: "pool_row s1 i = Some (bump (add_seat ?m now) pool)"
      using ins
    proof (cases rule: insert_member_row_cases)
      case (1 p f)
      then show ?thesis using seat(1) i by (simp add: row_upd seat_row_def)
    qed
    have "refines s1 s2 \<and> pools_ok s2 \<and> rides s2 = rides s1"
    proof (cases "p_maxSeats pool \<le> p_seatCount p + 1")
      case False
      with seated(3) ok1 refinesD [OF 1] show ?thesis by (simp add: refines_refl)
    next
      case True
      let ?pool = "bump (add_seat ?m now) pool"
      have "p_originLat ?pool = p_originLat pool" "p_originLng ?pool = p_originLng pool" "p_rideId ?pool = p_rideId pool"
        by (simp_all add: bump_def add_seat_def)
      then have same: "closeInTxn pool r xid now s = closeInTxn ?pool r xid now s" for r s
        unfolding closeInTxn_def by metis
      with True seated(3) have c: "closeInTxn ?pool ClosedFull xid now s1 = Inr (g, s2)" by simp
      have row: "pool_row s1 (p_rideId ?pool) = Some ?pool" using row1 i by simp
      have sh: "pool_shape ?pool (members_of s1 i) (findByRideId s1 i)" by (rule pools_ok_row [OF ok1 row1])
      have st: "p_poolState ?pool = PoolOpen" "p_claimedByDriverId ?pool = None"
        using sh seat(2) by (simp_all add: pool_shape_def)
      have shp: "pool_shape pool (members_of s i) (findByRideId s i)" by (rule pools_ok_row [OF assms(3) seat(1)])
      have n: "0 < p_seatCount ?pool" using shp by (simp add: pool_shape_def)
      have "distinct (map p_rideId (shared_rides s1))" using ok1 by (simp add: pools_ok_def)
      from closeInTxn_cases [OF c row st(1) this] obtain b s0 stops where "rides s0 = rides s1"
          "enqueueOutbox (pool_dispatch_message i (p_dispatchGeneration ?pool + 1) ClosedFull) xid now
             (s0\<lparr>ride_stops := ride_stops s0 @ map (stop_row i) stops\<rparr>) = Inr (b, s2)"
        using i by (metis bump_sel(2) add_seat_sel(1) update_pools_sel(1))
      then have "rides s2 = rides s1" using enqueue_sel(1) by fastforce
      then show ?thesis
        using closeInTxn_ok [OF c row st(1) ok1 _ n] closeInTxn_refines [OF c row st refinesD [OF 1]] by simp
    qed
    then show ?thesis
      using rd complete_seat_refines [OF refines_trans [OF 1]] by (simp add: seated(5))
  qed
qed

lemma abortEmptyOpen_ok:
  assumes "core_ok s" "pools_ok s" "pool_row s i = Some p" "p_poolState p = PoolOpen" "p_seatCount p = 0"
  shows "refines s (snd (abortEmptyOpen i now s)) \<and> pools_ok (snd (abortEmptyOpen i now s))"
proof -
  let ?f = "\<lambda>p. p\<lparr>p_poolState := PoolAborted, p_poolClosedAt := Some now, p_updatedAt := now\<rparr>"
  let ?s' = "snd (abortEmptyOpen i now s)"
  have d: "distinct (map p_rideId (shared_rides s))" using assms(2) by (simp add: pools_ok_def)
  have P: "empty_open i p" using assms(3-5) row_key [OF assms(3)] by (simp add: empty_open_def open_at_def)
  have s': "?s' = update_pools (empty_open i) ?f now s" by (simp add: abortEmptyOpen_def)
  have shape: "pool_shape p (members_of s i) (findByRideId s i)" by (rule pools_ok_row [OF assms(2,3)])
  have rs: "shared_rides ?s' = upd (\<lambda>x. p_rideId x = i) (bump ?f) (shared_rides s)"
    using upd_guard_id [where P = "empty_open i", OF d assms(3) P] by (simp add: s' empty_open_def open_at_def)
  have v: "trip_driver ?s' = (trip_driver s)(Shared i := None)" "disp ?s' = (disp s)(Shared i := None)"
    using pool_update_views [OF d assms(3) rs] by (simp_all add: s' pool_driver_def pool_disp_def)
  have "trip_driver s (Shared i) = None" "disp s (Shared i) = None"
    using assms(3,4) shape by (simp_all add: pool_shape_def pool_driver_def pool_disp_def)
  then have "refines s ?s'"
    using assms(1) v by (intro views_same_refines) (simp_all add: s' core_ok_def map_key_upd fun_upd_idem)
  moreover have "pools_ok ?s'"
    by (rule pools_ok_update [OF assms(2,3) P _ _ s'])
      (use shape assms(4,5) in \<open>simp_all add: empty_open_def open_at_def pool_shape_def\<close>)
  ultimately show ?thesis by simp
qed

lemma close_tx_ok:
  assumes "close_tx i reason xid now s = Inr (res, s')" "core_ok s" "pools_ok s" "claimable_pool reason"
  shows "refines s s' \<and> pools_ok s' \<and> rides s' = rides s"
proof (cases "pool_row s i")
  case None
  with assms show ?thesis by (simp add: close_tx_def lockPool_def refines_refl)
next
  case (Some p)
  have i: "p_rideId p = i" using Some row_key by fast
  have sh: "pool_shape p (members_of s i) (findByRideId s i)" by (rule pools_ok_row [OF assms(3) Some])
  show ?thesis
  proof (cases "p_poolState p = PoolOpen")
    case False
    with assms Some show ?thesis by (simp add: close_tx_def lockPool_def refines_refl)
  next
    case st: True
    show ?thesis
    proof (cases "p_seatCount p = 0")
      case True
      with assms(1) Some st have "s' = snd (abortEmptyOpen i now s)"
        by (simp add: close_tx_def lockPool_def split: prod.splits)
      then show ?thesis
        using abortEmptyOpen_ok [OF assms(2,3) Some st True, of now] by (simp add: abortEmptyOpen_def)
    next
      case False
      obtain g where c: "closeInTxn p reason xid now s = Inr (g, s')"
        using assms(1) Some st False by (auto simp: close_tx_def lockPool_def split: sum.splits)
      have row: "pool_row s (p_rideId p) = Some p" using Some i by simp
      have cl: "p_claimedByDriverId p = None" and n: "0 < p_seatCount p"
        using sh st False by (simp_all add: pool_shape_def)
      have d: "distinct (map p_rideId (shared_rides s))" using assms(3) by (simp add: pools_ok_def)
      have "rides s' = rides s"
        by (rule closeInTxn_cases [OF c row st d]) (auto dest!: enqueue_sel(1))
      then show ?thesis
        using closeInTxn_ok [OF c row st assms(3,4) n] closeInTxn_refines [OF c row st cl assms(2,4)] by simp
    qed
  qed
qed

section \<open>Claim and abort\<close>

lemma claimSharedRow_pools:
  assumes "claimSharedRow i d g now s = Inr (u, s')" "pools_ok s"
  shows "pools_ok s'"
proof -
  have d: "distinct (map p_rideId (shared_rides s))" using assms(2) by (simp add: pools_ok_def)
  from assms(1) d obtain p where p: "pool_row s i = Some p" "p_claimedByDriverId p = None"
      "claimable_pool (p_poolState p)" "p_dispatchGeneration p = g"
      "s' = update_pools (claimable_at i g)
         (\<lambda>p. p\<lparr>p_claimedByDriverId := Some d, p_claimedAt := Some now, p_updatedAt := now\<rparr>) now s"
    by (rule claimSharedRow_effect)
  have P: "claimable_at i g p" using p row_key [OF p(1)] by (simp add: claimable_at_def)
  have "pool_shape p (members_of s i) (findByRideId s i)" by (rule pools_ok_row [OF assms(2) p(1)])
  then show ?thesis
    by (intro pools_ok_update [OF assms(2) p(1) P _ _ p(5)])
      (use p(3) in \<open>cases "p_poolState p"; simp add: claimable_at_def pool_shape_def\<close>)+
qed

lemma abortUnclaimedPool_pools:
  assumes "pools_ok s"
  shows "pools_ok (snd (abortUnclaimedPool i g now s))"
proof (cases "fst (abortUnclaimedPool i g now s)")
  case False
  then have none: "\<And>p. p \<in> set (shared_rides s) \<Longrightarrow> \<not> claimable_at i g p"
    by (auto simp: abortUnclaimedPool_def list_ex_iff)
  then have "shared_rides (snd (abortUnclaimedPool i g now s)) = shared_rides s"
    by (auto simp: abortUnclaimedPool_def intro: upd_id)
  moreover have "pool_members (snd (abortUnclaimedPool i g now s)) = pool_members s"
    using none by (auto simp: abortUnclaimedPool_def update_pools_members releases_def intro!: upd_id)
  ultimately show ?thesis using assms pools_ok_cong by (metis abortUnclaimedPool_def snd_conv update_pools_sel(5))
next
  case True
  have d: "distinct (map p_rideId (shared_rides s))" using assms by (simp add: pools_ok_def)
  with True obtain p where p: "pool_row s i = Some p" "p_claimedByDriverId p = None" "claimable_pool (p_poolState p)"
      "p_dispatchGeneration p = g"
    by (auto simp: abortUnclaimedPool_def claimable_at_row)
  have P: "claimable_at i g p" using p row_key [OF p(1)] by (simp add: claimable_at_def)
  have s': "snd (abortUnclaimedPool i g now s) =
      update_pools (claimable_at i g) (\<lambda>p. p\<lparr>p_poolState := PoolAborted, p_updatedAt := now\<rparr>) now s"
    by (simp add: abortUnclaimedPool_def)
  have sh: "pool_shape p (members_of s i) (findByRideId s i)" by (rule pools_ok_row [OF assms p(1)])
  have leave: "\<forall>m \<in> set (upd m_active (leave now) (members_of s i)). \<not> m_active m"
    by (auto simp: upd_def)
  show ?thesis
    by (rule pools_ok_update [OF assms p(1) P _ _ s'])
      (use sh p leave in \<open>cases "p_poolState p"; simp add: claimable_at_def pool_shape_def\<close>)+
qed

lemma claim_steps_pools:
  assumes "claim_steps ofr d t now ct s = Inr ((res, revoked), s')" "pools_ok s"
  shows "pools_ok s'"
  using assms(1)
proof (cases rule: claim_steps_cases)
  case (ok s1 s2)
  have 1: "pools_ok s1"
    using ok(1)
  proof (cases rule: acquire_cases)
    case ok
    then show ?thesis using assms(2) pools_ok_cong [of s1 s] by simp
  qed (use assms(2) in simp_all)
  have "pools_ok s2"
  proof (cases t)
    case (Solo i)
    with ok(2) obtain r where "claimSoloRow i d (o_generation ofr) now s1 = Inr (r, s2)" by auto
    then have "shared_rides s2 = shared_rides s1" "pool_members s2 = pool_members s1" "ride_stops s2 = ride_stops s1"
      using claimSoloRow_sel by blast+
    with 1 show ?thesis using pools_ok_cong [of s2 s1] by simp
  next
    case (Shared i)
    with ok(2) 1 show ?thesis by (auto intro: claimSharedRow_pools)
  qed
  then show ?thesis using pools_ok_cong [of s' s2] by (simp add: ok(4))
qed (use assms in simp_all)

lemma acceptInTx_pools:
  assumes "acceptInTx oid d t now ct s = Inr ((res, revoked), s')" "pools_ok s"
  shows "pools_ok s'"
  using assms(1)
proof (cases rule: acceptInTx_cases)
  case claim
  show ?thesis by (rule claim_steps_pools [OF claim(8) assms(2)])
next
  case expired
  then show ?thesis using assms(2) pools_ok_cong [of s' s] by simp
next
  case stale
  then show ?thesis using assms(2) pools_ok_cong [of s' s] by simp
qed (use assms(2) in simp)

lemma revoke_pools [simp]: "pools_ok (snd (revokeLiveForTrip t ex ct s)) = pools_ok s"
  by (rule pools_ok_cong) simp_all

lemma abort_tx_pools: "pools_ok s \<Longrightarrow> pools_ok (snd (abort_tx i gen now ct s))"
  using abortUnclaimedPool_pools [of s i _ now]
  by (auto simp: abort_tx_def Let_def split: option.splits prod.splits bool.splits)
    (metis revoke_pools snd_conv)+

text \<open>With its itinerary in place, a claimable pool always passes the itinerary check.\<close>

lemma pools_itinerary_complete:
  assumes "pools_ok s" "disp s t = Some g"
  shows "itinerary_complete s t"
proof (cases t)
  case (Shared i)
  with assms(2) obtain p where p: "pool_row s i = Some p" "pool_disp p = Some g" by (auto simp: bind_eq_Some_conv)
  then have "claimable_pool (p_poolState p)" by (auto simp: pool_disp_def split: if_splits)
  moreover have "pool_shape p (members_of s i) (findByRideId s i)" by (rule pools_ok_row [OF assms(1) p(1)])
  ultimately have "itinerary_shape (members_of s i) (findByRideId s i)" "members_of s i \<noteq> []"
      "p_seatCount p = int (length (members_of s i))"
    by (cases "p_poolState p"; simp add: pool_shape_def)+
  moreover from this have "length (findByRideId s i) = 2 * length (members_of s i)"
    by (metis itinerary_shape_def length_map length_upt diff_zero)
  ultimately show ?thesis
    using p(1) Shared by (simp add: itinerary_complete_def findByRideId_length Suc_leI)
qed (simp add: itinerary_complete_def)

end
