(* ===== verification/Stop_Confirmation.thy ===== *)
theory Stop_Confirmation
  imports Pool_Facts
begin

text \<open>
  \<open>RideLifecycleService.confirmStop\<close> (ride-lifecycle.service.ts): one stop of a claimed pool is
  confirmed in itinerary order; the first pickup starts the pool, the last stop completes it and
  releases the driver in the same transaction.
\<close>

section \<open>Transaction\<close>

datatype confirm_failure = StopNotFound | StopNotOwner | StopWrongType | StopOutOfOrder

record confirm_ok =
  cf_stop :: ride_stop
  cf_pendingAfter :: int
  cf_rideCompleted :: bool
  cf_duplicate :: bool
  cf_completedAt :: "instant option"
  cf_version :: int
  cf_poolStateChanged :: bool

definition touch_row :: "instant \<Rightarrow> shared_ride \<Rightarrow> shared_ride" where
  "touch_row now p = p\<lparr>p_updatedAt := now\<rparr>"

definition touchPool :: "uuid \<Rightarrow> instant \<Rightarrow> (db, int) tx" where
  "touchPool i now s =
     (let s' = update_pools (\<lambda>p. p_rideId p = i) (touch_row now) now s
      in case pool_row s' i of
           None \<Rightarrow> Inl (App_error ''confirmStop: pool vanished under the pool lock'')
         | Some p \<Rightarrow> Inr (p_stateVersion p, s'))"

text \<open>The writes after the checks: stamp, start or complete (and release), touch.\<close>

definition confirm_writes ::
  "uuid \<Rightarrow> uuid \<Rightarrow> int \<Rightarrow> stop_type \<Rightarrow> ride_stop list \<Rightarrow> instant \<Rightarrow> (db, confirm_ok) tx" where
  "confirm_writes i d n ty stops now s =
     (case confirm i n now s of
        (None, _) \<Rightarrow> Inl (App_error ''confirmStop: stop changed under the pool lock'')
      | (Some stop, s1) \<Rightarrow>
          let first = (ty = Pickup \<and> list_all (\<lambda>x. s_confirmedAt x = None) stops);
              s2 = (if first then markRideStarted i now s1 else s1);
              pendingAfter = int (length (filter (\<lambda>x. s_confirmedAt x = None) stops)) - 1;
              (completedAt, s3) = (if pendingAfter = 0 then markRideCompleted i now s2 else (None, s2))
          in if pendingAfter = 0 \<and> completedAt = None
             then Inl (App_error ''confirmStop: claimed pool could not be completed'')
             else let s4 = (if pendingAfter = 0 then snd (release d (Shared i) s3) else s3)
               in (case touchPool i now s4 of
                     Inl e \<Rightarrow> Inl e
                   | Inr (v, s5) \<Rightarrow>
                       Inr (\<lparr>cf_stop = stop, cf_pendingAfter = pendingAfter, cf_rideCompleted = (pendingAfter = 0),
                              cf_duplicate = False, cf_completedAt = completedAt, cf_version = v,
                              cf_poolStateChanged = (first \<or> pendingAfter = 0)\<rparr>, s5)))"

definition confirm_tx ::
  "uuid \<Rightarrow> uuid \<Rightarrow> int \<Rightarrow> stop_type \<Rightarrow> instant \<Rightarrow> (db, confirm_failure + confirm_ok) tx" where
  "confirm_tx i d n ty now s =
     (case lockSharedTrip s i of
        None \<Rightarrow> Inr (Inl StopNotFound, s)
      | Some pool \<Rightarrow>
          if p_claimedByDriverId pool \<noteq> Some d then Inr (Inl StopNotOwner, s)
          else let stops = findByRideId s i in
            (case List.find (\<lambda>x. s_sequenceIndex x = n) stops of
               None \<Rightarrow> Inr (Inl StopNotFound, s)
             | Some target \<Rightarrow>
                 if s_type target \<noteq> ty then Inr (Inl StopWrongType, s)
                 else if s_confirmedAt target \<noteq> None then
                   Inr (Inr \<lparr>cf_stop = target,
                     cf_pendingAfter = int (length (filter (\<lambda>x. s_confirmedAt x = None) stops)),
                     cf_rideCompleted = (p_poolState pool = PoolCompleted), cf_duplicate = True,
                     cf_completedAt = None, cf_version = p_stateVersion pool, cf_poolStateChanged = False\<rparr>, s)
                 else if (case List.find (\<lambda>x. s_confirmedAt x = None) stops of
                            None \<Rightarrow> True | Some first \<Rightarrow> s_sequenceIndex first \<noteq> n)
                 then Inr (Inl StopOutOfOrder, s)
                 else andThen (confirm_writes i d n ty stops now) (\<lambda>c. ret (Inr c)) s))"

section \<open>After the commit\<close>

datatype stop_effect =
    ProjectPoolRow uuid
  | ClearDriverRide uuid uuid
  | RideCompletedEvent uuid instant
  | PublishUpdate uuid
  | EchoStop uuid stop_type uuid int uuid instant bool int \<comment> \<open>driver, event, ride, stop, passenger, at, done, version\<close>

definition confirmStop ::
  "uuid \<Rightarrow> uuid \<Rightarrow> int \<Rightarrow> stop_type \<Rightarrow> instant \<Rightarrow> instant \<Rightarrow> db
   \<Rightarrow> (db_error + (confirm_failure + confirm_ok) \<times> stop_effect list) \<times> db" where
  "confirmStop i d n ty now clk s =
     (case transaction (confirm_tx i d n ty now) s of
        (Inl e, s') \<Rightarrow> (Inl e, s')
      | (Inr (Inl r), s') \<Rightarrow> (Inr (Inl r, []), s')
      | (Inr (Inr c), s') \<Rightarrow>
          (Inr (Inr c,
             (if cf_poolStateChanged c then [ProjectPoolRow i] else [])
             @ (case cf_completedAt c of None \<Rightarrow> [] | Some t \<Rightarrow> [ClearDriverRide d i, RideCompletedEvent i t])
             @ (if cf_duplicate c then [] else [PublishUpdate i])
             @ [EchoStop d ty i n (s_passengerId (cf_stop c))
                  (case s_confirmedAt (cf_stop c) of None \<Rightarrow> clk | Some t \<Rightarrow> t) (cf_rideCompleted c) (cf_version c)]), s'))"

section \<open>The itinerary under a confirmation\<close>

lemma in_orderI:
  assumes "map (\<lambda>x. s_confirmedAt x \<noteq> None) sts = replicate k True @ replicate m False"
  shows "confirmed_count sts = k \<and> in_order sts \<and> length sts = k + m"
proof -
  have "length (filter (\<lambda>b. b) (map (\<lambda>x. s_confirmedAt x \<noteq> None) sts)) = k" unfolding assms by simp
  then have k: "confirmed_count sts = k" by (simp add: confirmed_count_def filter_map comp_def)
  have l: "length sts = k + m" using arg_cong [OF assms, of length] by simp
  show ?thesis using assms k l by (simp add: in_order_def)
qed

lemma in_order_nth:
  assumes "in_order sts" "j < length sts"
  shows "s_confirmedAt (sts ! j) \<noteq> None \<longleftrightarrow> j < confirmed_count sts"
proof -
  have "(s_confirmedAt (sts ! j) \<noteq> None) = (map (\<lambda>x. s_confirmedAt x \<noteq> None) sts) ! j" using assms(2) by simp
  also have "\<dots> = (replicate (confirmed_count sts) True @ replicate (length sts - confirmed_count sts) False) ! j"
    using assms(1) by (simp add: in_order_def)
  finally show ?thesis using assms(2) by (auto simp: nth_append)
qed

lemma confirmed_count_le: "confirmed_count sts \<le> length sts"
  by (simp add: confirmed_count_def)

lemma pending_length: "length (filter (\<lambda>x. s_confirmedAt x = None) sts) = length sts - confirmed_count sts"
  unfolding confirmed_count_def using sum_length_filter_compl [of "\<lambda>x. s_confirmedAt x \<noteq> None" sts] by simp

lemma find_first_pending:
  assumes "in_order sts" "List.find (\<lambda>x. s_confirmedAt x = None) sts = Some x"
  shows "confirmed_count sts < length sts \<and> x = sts ! confirmed_count sts"
proof -
  from assms(2) obtain j where j: "j < length sts" "s_confirmedAt (sts ! j) = None" "x = sts ! j"
      "\<forall>l < j. s_confirmedAt (sts ! l) \<noteq> None"
    by (auto simp: find_Some_iff)
  then have "confirmed_count sts \<le> j" using in_order_nth [OF assms(1) j(1)] by simp
  moreover have "\<not> confirmed_count sts < j"
  proof
    assume l: "confirmed_count sts < j"
    then have "s_confirmedAt (sts ! confirmed_count sts) \<noteq> None" using j(4) by blast
    then show False using in_order_nth [OF assms(1), of "confirmed_count sts"] l j(1) by simp
  qed
  ultimately show ?thesis using j(1,3) by simp
qed

lemma itinerary_length: "itinerary_shape ms sts \<Longrightarrow> length sts = 2 * length ms"
  unfolding itinerary_shape_def by (metis length_map length_upt diff_zero)

lemma itinerary_index:
  "itinerary_shape ms sts \<Longrightarrow> j < length sts \<Longrightarrow> s_sequenceIndex (sts ! j) = int j"
proof -
  assume a: "itinerary_shape ms sts" "j < length sts"
  then have m: "map s_sequenceIndex sts = map int [0..<2 * length ms]" by (simp add: itinerary_shape_def)
  have "length sts = 2 * length ms" using a(1) by (rule itinerary_length)
  with a m show ?thesis by (metis add_0 length_map length_upt nth_map nth_upt diff_zero)
qed

definition stamp :: "instant \<Rightarrow> ride_stop \<Rightarrow> ride_stop" where
  "stamp now x = x\<lparr>s_confirmedAt := Some now\<rparr>"

lemma stamp_sel [simp]:
  "s_rideId (stamp now x) = s_rideId x" "s_sequenceIndex (stamp now x) = s_sequenceIndex x"
  "s_type (stamp now x) = s_type x" "s_passengerId (stamp now x) = s_passengerId x"
  "s_confirmedAt (stamp now x) = Some now" "stop_pk (stamp now x) = stop_pk x"
  by (simp_all add: stamp_def stop_pk_def)

text \<open>Confirming the first pending stop moves the front by one and changes nothing else.\<close>

lemma stamp_front:
  fixes now :: instant
  assumes sh: "itinerary_shape ms sts" "in_order sts" "confirmed_count sts < length sts"
    and ride: "\<forall>x \<in> set sts. s_rideId x = i"
  defines "u \<equiv> upd (pending_at i (int (confirmed_count sts))) (stamp now) sts"
  shows "u = sts[confirmed_count sts := stamp now (sts ! confirmed_count sts)]"
    and "confirmed_count u = Suc (confirmed_count sts)" "in_order u" "length u = length sts" "itinerary_shape ms u"
proof -
  let ?k = "confirmed_count sts"
  have P: "pending_at i (int ?k) (sts ! j) \<longleftrightarrow> j = ?k" if "j < length sts" for j
    using that itinerary_index [OF sh(1) that] in_order_nth [OF sh(2) that] ride
    by (auto simp: pending_at_def)
  show u: "u = sts[?k := stamp now (sts ! ?k)]"
  proof (rule nth_equalityI)
    show "length u = length (sts[?k := stamp now (sts ! ?k)])" by (simp add: u_def)
    show "u ! j = sts[?k := stamp now (sts ! ?k)] ! j" if "j < length u" for j
      using that P by (simp add: u_def upd_def nth_list_update)
  qed
  have "map (\<lambda>x. s_confirmedAt x \<noteq> None) u
      = (replicate ?k True @ replicate (length sts - ?k) False)[?k := True]"
    using sh(2) by (simp add: u map_update in_order_def)
  also have "\<dots> = replicate (Suc ?k) True @ replicate (length sts - Suc ?k) False"
  proof -
    obtain m where m: "length sts - ?k = Suc m" using sh(3) by (metis Suc_diff_Suc)
    then have "length sts - Suc ?k = m" by simp
    with m show ?thesis by (simp add: list_update_append replicate_append_same)
  qed
  finally show "confirmed_count u = Suc ?k" "in_order u" using in_orderI by blast+
  show "length u = length sts" by (simp add: u_def)
  have "map s_sequenceIndex u = map s_sequenceIndex sts" "map s_type u = map s_type sts"
      "map s_passengerId u = map s_passengerId sts"
    by (simp_all add: u_def)
  then show "itinerary_shape ms u"
    using sh(1) unfolding itinerary_shape_def take_map [symmetric] drop_map [symmetric] by simp
qed

section \<open>Correctness\<close>

lemma upd_upd: "(\<And>x. P (f x) = P x) \<Longrightarrow> upd P g (upd P f t) = upd P (\<lambda>x. g (f x)) t"
  by (simp add: upd_def comp_def)

text \<open>What a first confirmation found: the front of the itinerary, with the type asked for.\<close>

lemma confirm_tx_cases:
  assumes "confirm_tx i d n ty now s = Inr (res, s')"
  obtains (same) "s' = s"
  | (new) p t x c where "pool_row s i = Some p" "p_claimedByDriverId p = Some d"
      "List.find (\<lambda>x. s_sequenceIndex x = n) (findByRideId s i) = Some t" "s_type t = ty"
      "List.find (\<lambda>x. s_confirmedAt x = None) (findByRideId s i) = Some x" "s_sequenceIndex x = n"
      "confirm_writes i d n ty (findByRideId s i) now s = Inr (c, s')" "res = Inr c"
proof (cases "s' = s")
  case False
  from assms False obtain p where p: "pool_row s i = Some p" "p_claimedByDriverId p = Some d"
    by (auto simp: confirm_tx_def lockSharedTrip_def split: option.splits if_splits)
  let ?sts = "findByRideId s i"
  from assms False p obtain t where t: "List.find (\<lambda>x. s_sequenceIndex x = n) ?sts = Some t" "s_type t = ty"
      "s_confirmedAt t = None"
    by (auto simp: confirm_tx_def lockSharedTrip_def Let_def split: option.splits if_splits)
  from assms False p t obtain x where x: "List.find (\<lambda>x. s_confirmedAt x = None) ?sts = Some x" "s_sequenceIndex x = n"
    by (auto simp: confirm_tx_def lockSharedTrip_def Let_def split: option.splits if_splits)
  from assms p t x obtain c where c: "confirm_writes i d n ty ?sts now s = Inr (c, s')" "res = Inr c"
    by (auto simp: confirm_tx_def lockSharedTrip_def Let_def split: sum.splits)
  show thesis by (rule new [OF p t(1,2) x c])
qed (use same in blast)

lemma claimed_shape:
  assumes "pools_ok s" "pool_row s i = Some p" "p_claimedByDriverId p = Some d"
  shows "itinerary_shape (members_of s i) (findByRideId s i)" "in_order (findByRideId s i)"
    "members_of s i \<noteq> []" "p_seatCount p = int (length (members_of s i))"
    "p_poolState p \<in> {ClosedFull, ClosedTimeout, ClosedStarted, PoolCompleted}"
    "progress_ok (p_poolState p) (confirmed_count (findByRideId s i)) (length (findByRideId s i))"
  using pools_ok_row [OF assms(1,2)] assms(3) by (cases "p_poolState p"; simp add: pool_shape_def)+

lemma confirm_front:
  assumes "pools_ok s" "pool_row s i = Some p" "p_claimedByDriverId p = Some d"
    and "List.find (\<lambda>x. s_sequenceIndex x = n) (findByRideId s i) = Some t"
    and "List.find (\<lambda>x. s_confirmedAt x = None) (findByRideId s i) = Some x" "s_sequenceIndex x = n"
  shows "confirmed_count (findByRideId s i) < length (findByRideId s i)"
    and "n = int (confirmed_count (findByRideId s i))" "t = findByRideId s i ! confirmed_count (findByRideId s i)"
proof -
  let ?sts = "findByRideId s i" and ?k = "confirmed_count (findByRideId s i)"
  note sh = claimed_shape [OF assms(1-3)]
  show k: "?k < length ?sts" using find_first_pending [OF sh(2) assms(5)] by simp
  have x: "x = ?sts ! ?k" using find_first_pending [OF sh(2) assms(5)] by simp
  then show n: "n = int ?k" using itinerary_index [OF sh(1) k] assms(6) by simp
  from assms(4) obtain j where j: "j < length ?sts" "s_sequenceIndex (?sts ! j) = n" "t = ?sts ! j"
    by (auto simp: find_Some_iff)
  then show "t = ?sts ! ?k" using itinerary_index [OF sh(1) j(1)] n by simp
qed

text \<open>The three ways a confirmation ends: the pool starts, it goes on, it completes.\<close>

definition start_row :: "instant \<Rightarrow> shared_ride \<Rightarrow> shared_ride" where
  "start_row now p = p\<lparr>p_poolState := ClosedStarted, p_updatedAt := now\<rparr>"

definition complete_row :: "instant \<Rightarrow> shared_ride \<Rightarrow> shared_ride" where
  "complete_row now p = p\<lparr>p_poolState := PoolCompleted, p_completedAt := Some now, p_updatedAt := now\<rparr>"

definition confirmed_db :: "uuid \<Rightarrow> uuid \<Rightarrow> nat \<Rightarrow> nat \<Rightarrow> instant \<Rightarrow> db \<Rightarrow> db" where
  "confirmed_db i d k len now s =
     (let s1 = s\<lparr>ride_stops := upd (pending_at i (int k)) (stamp now) (ride_stops s)\<rparr>;
          s2 = (if k = 0 then update_pools (startable i) (start_row now) now s1 else s1);
          s3 = (if Suc k = len then update_pools (completable i) (complete_row now) now s2 else s2);
          s4 = (if Suc k = len then snd (release d (Shared i) s3) else s3)
      in update_pools (\<lambda>p. p_rideId p = i) (touch_row now) now s4)"

lemma first_is_pickup:
  assumes "itinerary_shape ms sts" "ms \<noteq> []" "in_order sts" "confirmed_count sts < length sts"
  shows "s_type (sts ! confirmed_count sts) = Pickup \<and> list_all (\<lambda>x. s_confirmedAt x = None) sts
    \<longleftrightarrow> confirmed_count sts = 0"
proof -
  have "list_all (\<lambda>x. s_confirmedAt x = None) sts \<longleftrightarrow> confirmed_count sts = 0"
    by (auto simp: confirmed_count_def list_all_iff filter_empty_conv)
  moreover have "s_type (sts ! 0) = Pickup"
  proof -
    have "map s_type sts ! 0 = Pickup" using assms(1,2) by (cases ms) (simp_all add: itinerary_shape_def)
    then show ?thesis using assms(4) by (cases sts) simp_all
  qed
  ultimately show ?thesis by auto
qed

lemma confirm_writes_db:
  assumes c: "confirm_writes i d n ty (findByRideId s i) now s = Inr (c, s')"
    and ok: "pools_ok s" "pool_row s i = Some p" "p_claimedByDriverId p = Some d"
    and k: "confirmed_count (findByRideId s i) < length (findByRideId s i)"
      "n = int (confirmed_count (findByRideId s i))"
      "ty = s_type (findByRideId s i ! confirmed_count (findByRideId s i))"
  shows "s' = confirmed_db i d (confirmed_count (findByRideId s i)) (length (findByRideId s i)) now s"
    and "cf_rideCompleted c = (Suc (confirmed_count (findByRideId s i)) = length (findByRideId s i))"
    and "cf_pendingAfter c = int (length (findByRideId s i)) - int (confirmed_count (findByRideId s i)) - 1"
proof -
  let ?sts = "findByRideId s i" and ?k = "confirmed_count (findByRideId s i)" and ?len = "length (findByRideId s i)"
  note sh = claimed_shape [OF ok]
  let ?first = "ty = Pickup \<and> list_all (\<lambda>x. s_confirmedAt x = None) ?sts"
  have first: "?first = (?k = 0)" using first_is_pickup [OF sh(1,3,2) k(1)] k(3) by simp
  have pa: "int (length (filter (\<lambda>x. s_confirmedAt x = None) ?sts)) - 1 = int ?len - int ?k - 1"
    using k(1) by (simp add: pending_length)
  have last: "(int ?len - int ?k - 1 = 0) = (Suc ?k = ?len)" using k(1) by auto
  let ?s1 = "s\<lparr>ride_stops := upd (pending_at i n) (stamp now) (ride_stops s)\<rparr>"
  obtain x where s1: "confirm i n now s = (Some x, ?s1)"
    using c by (cases "confirm i n now s") (auto simp: confirm_writes_def confirm_def stamp_def [abs_def] split: option.splits)
  let ?s2 = "if ?k = 0 then markRideStarted i now ?s1 else ?s1"
  let ?r = "if Suc ?k = ?len then markRideCompleted i now ?s2 else (None, ?s2)"
  let ?s4 = "if Suc ?k = ?len then snd (release d (Shared i) (snd ?r)) else snd ?r"
  have t: "touchPool i now ?s4 = Inr (cf_version c, s')" and "cf_rideCompleted c = (Suc ?k = ?len)"
      "cf_pendingAfter c = int ?len - int ?k - 1"
    using c unfolding confirm_writes_def s1 first pa last
    by (auto simp: Let_def split_beta first pa last split: sum.splits if_splits)
  then show "cf_rideCompleted c = (Suc ?k = ?len)" "cf_pendingAfter c = int ?len - int ?k - 1" by simp_all
  have "s' = update_pools (\<lambda>p. p_rideId p = i) (touch_row now) now ?s4"
    using t by (auto simp: touchPool_def Let_def split: option.splits)
  moreover have "markRideStarted i now s0 = update_pools (startable i) (start_row now) now s0" for s0
    by (simp add: markRideStarted_def start_row_def [abs_def])
  moreover have "snd (markRideCompleted i now s0) = update_pools (completable i) (complete_row now) now s0" for s0
    by (simp add: markRideCompleted_def complete_row_def [abs_def])
  ultimately show "s' = confirmed_db i d ?k ?len now s"
    by (simp add: confirmed_db_def Let_def k(2))
qed

lemma row_ops_sel [simp]:
  "p_rideId (start_row now p) = p_rideId p" "p_poolState (start_row now p) = ClosedStarted"
  "p_rideId (complete_row now p) = p_rideId p" "p_poolState (complete_row now p) = PoolCompleted"
  "p_rideId (touch_row now p) = p_rideId p" "p_poolState (touch_row now p) = p_poolState p"
  "p_seatCount (start_row now p) = p_seatCount p" "p_maxSeats (start_row now p) = p_maxSeats p"
  "p_claimedByDriverId (start_row now p) = p_claimedByDriverId p" "p_dispatchGeneration (start_row now p) = p_dispatchGeneration p"
  "p_seatCount (complete_row now p) = p_seatCount p" "p_maxSeats (complete_row now p) = p_maxSeats p"
  "p_claimedByDriverId (complete_row now p) = p_claimedByDriverId p" "p_dispatchGeneration (complete_row now p) = p_dispatchGeneration p"
  "p_seatCount (touch_row now p) = p_seatCount p" "p_maxSeats (touch_row now p) = p_maxSeats p"
  "p_claimedByDriverId (touch_row now p) = p_claimedByDriverId p" "p_dispatchGeneration (touch_row now p) = p_dispatchGeneration p"
  by (simp_all add: start_row_def complete_row_def touch_row_def)

text \<open>The row change each case makes.\<close>

definition confirm_row :: "nat \<Rightarrow> nat \<Rightarrow> instant \<Rightarrow> shared_ride \<Rightarrow> shared_ride" where
  "confirm_row k len now p =
     bump (touch_row now)
       (if Suc k = len then bump (complete_row now) p else if k = 0 then bump (start_row now) p else p)"

lemma confirm_row_sel [simp]:
  "p_rideId (confirm_row k len now p) = p_rideId p"
  "p_poolState (confirm_row k len now p) =
     (if Suc k = len then PoolCompleted else if k = 0 then ClosedStarted else p_poolState p)"
  "p_seatCount (confirm_row k len now p) = p_seatCount p" "p_maxSeats (confirm_row k len now p) = p_maxSeats p"
  "p_claimedByDriverId (confirm_row k len now p) = p_claimedByDriverId p"
  "p_dispatchGeneration (confirm_row k len now p) = p_dispatchGeneration p"
  by (simp_all add: confirm_row_def)

lemma confirmed_db_rows:
  assumes d: "distinct (map p_rideId (shared_rides s))" and row: "pool_row s i = Some p"
    and st: "k = 0 \<longrightarrow> p_poolState p \<in> {ClosedFull, ClosedTimeout}"
      "k \<noteq> 0 \<longrightarrow> p_poolState p = ClosedStarted" and len: "2 \<le> len" "k < len"
  shows "shared_rides (confirmed_db i dr k len now s) = upd (\<lambda>x. p_rideId x = i) (confirm_row k len now) (shared_rides s)"
    and "pool_members (confirmed_db i dr k len now s) = upd (\<lambda>m. Suc k = len \<and> m_active m \<and> m_poolId m = i) (leave now) (pool_members s)"
    and "ride_stops (confirmed_db i dr k len now s) = upd (pending_at i (int k)) (stamp now) (ride_stops s)"
    and "assignments (confirmed_db i dr k len now s) = (if Suc k = len then del (binds dr (Shared i)) (assignments s) else assignments s)"
    and "rides (confirmed_db i dr k len now s) = rides s" "offers (confirmed_db i dr k len now s) = offers s"
    and "outbox (confirmed_db i dr k len now s) = outbox s" "users (confirmed_db i dr k len now s) = users s"
    and "drivers (confirmed_db i dr k len now s) = drivers s" "idem (confirmed_db i dr k len now s) = idem s"
proof -
  let ?s' = "confirmed_db i dr k len now s"
  let ?t = "\<lambda>p. p_rideId p = i"
  show "ride_stops ?s' = upd (pending_at i (int k)) (stamp now) (ride_stops s)" "rides ?s' = rides s"
    "offers ?s' = offers s" "outbox ?s' = outbox s" "users ?s' = users s" "drivers ?s' = drivers s" "idem ?s' = idem s"
    "assignments ?s' = (if Suc k = len then del (binds dr (Shared i)) (assignments s) else assignments s)"
    by (simp_all add: confirmed_db_def Let_def release_def)
  have i: "p_rideId p = i" "p \<in> set (shared_rides s)" using row_SomeD [OF row] by simp_all
  have start: "upd (startable i) f (shared_rides s) = upd ?t f (shared_rides s)" if "k = 0" for f
    by (rule upd_guard_id [OF d row]) (use st(1) that i in \<open>auto simp: startable_def\<close>)
  have comp: "upd (completable i) f (shared_rides s) = upd ?t f (shared_rides s)" if "k \<noteq> 0" for f
    by (rule upd_guard_id [OF d row]) (use st(2) that i in \<open>auto simp: completable_def\<close>)
  have touch: "upd ?t (bump (touch_row now)) (upd ?t f (shared_rides s)) = upd ?t (\<lambda>x. bump (touch_row now) (f x)) (shared_rides s)"
    if "\<And>x. p_rideId (f x) = p_rideId x" for f
    by (rule upd_upd) (simp add: that)
  have tm: "pool_members (update_pools ?t (touch_row now) now s0) = pool_members s0" for s0
    by (rule update_pools_members_same) simp
  consider (start) "k = 0" "Suc k \<noteq> len" | (mid) "k \<noteq> 0" "Suc k \<noteq> len" | (last) "k \<noteq> 0" "Suc k = len"
    using len by fastforce
  note cases = this
  show "shared_rides ?s' = upd ?t (confirm_row k len now) (shared_rides s)"
    by (cases rule: cases)
      (simp_all add: confirmed_db_def Let_def release_def start comp touch confirm_row_def [abs_def])
  show "pool_members ?s' = upd (\<lambda>m. Suc k = len \<and> m_active m \<and> m_poolId m = i) (leave now) (pool_members s)"
  proof (cases rule: cases)
    case start
    have "pool_members (update_pools (startable i) (start_row now) now s0) = pool_members s0" for s0
      by (simp add: update_pools_members, rule upd_id) (simp add: releases_def)
    with start show ?thesis by (simp add: confirmed_db_def Let_def tm upd_id)
  next
    case mid
    then show ?thesis by (simp add: confirmed_db_def Let_def tm upd_id)
  next
    case last
    have "releases (completable i) (complete_row now) (shared_rides s) m = (m_active m \<and> m_poolId m = i)" for m
    proof -
      have p: "x = p" if "x \<in> set (shared_rides s)" "completable i x" for x
        using that row row_mem [OF d that(1)] by (simp add: completable_def)
      have c: "completable i p" "p_poolState p = ClosedStarted" using last st i by (simp_all add: completable_def)
      show ?thesis
      proof
        assume r: "releases (completable i) (complete_row now) (shared_rides s) m"
        then obtain q where "q \<in> set (shared_rides s)" "completable i q" "p_rideId q = m_poolId m"
          by (auto simp: releases_def)
        moreover have "m_active m" using r by (simp add: releases_def)
        ultimately show "m_active m \<and> m_poolId m = i" using p i(1) by metis
      next
        assume "m_active m \<and> m_poolId m = i"
        then show "releases (completable i) (complete_row now) (shared_rides s) m"
          unfolding releases_def using c i by (intro conjI bexI [of _ p]) simp_all
      qed
    qed
    with last show ?thesis
      by (simp add: confirmed_db_def Let_def release_def tm) (simp add: update_pools_members upd_def)
  qed
qed

lemma confirmed_db_ok:
  assumes core: "core_ok s" and ok: "pools_ok s" and row: "pool_row s i = Some p" "p_claimedByDriverId p = Some d"
    and k: "k = confirmed_count (findByRideId s i)" "k < length (findByRideId s i)"
    and s': "s' = confirmed_db i d k (length (findByRideId s i)) now s"
  shows "refines s s' \<and> pools_ok s'"
proof -
  let ?sts = "findByRideId s i" and ?len = "length (findByRideId s i)" and ?ms = "members_of s i"
  have dist: "distinct (map p_rideId (shared_rides s))" using ok by (simp add: pools_ok_def)
  note sh = claimed_shape [OF ok row] and shape = pools_ok_row [OF ok row(1)]
  have len: "?len = 2 * length ?ms" using sh(1) by (rule itinerary_length)
  then have len2: "2 \<le> ?len" using sh(3) by (cases ?ms) simp_all
  have st: "k = 0 \<longrightarrow> p_poolState p \<in> {ClosedFull, ClosedTimeout}" "k \<noteq> 0 \<longrightarrow> p_poolState p = ClosedStarted"
    using sh(5,6) k len2 by auto
  note eq = confirmed_db_rows [OF dist row(1) st len2 k(2), of d now, folded s']
  have ids: "p_rideId ` set (shared_rides s') = p_rideId ` set (shared_rides s)" by (simp add: eq(1) key_image_upd)
  have fs: "findByRideId s' j = upd (pending_at i (int k)) (stamp now) (findByRideId s j)" for j
    by (rule findByRideId_upd [OF eq(3)]) simp_all
  have mo: "members_of s' j = upd (\<lambda>m. Suc k = ?len \<and> m_active m \<and> m_poolId m = i) (leave now) (members_of s j)" for j
    by (rule members_of_upd [OF eq(2)]) (rule leave_sel(1))
  have ride: "\<forall>x \<in> set ?sts. s_rideId x = i" by (simp add: findByRideId_set)
  note front = stamp_front [OF sh(1,2) k(2) [unfolded k(1)] ride, of now, folded k(1), folded fs]
  have act: "\<forall>m \<in> set ?ms. m_active m" using shape st by (cases "k = 0") (auto simp: pool_shape_def)
  have "pools_ok s'"
  proof (rule pools_ok_change [OF ok row(1) eq(1)])
    show "members_of s' j = members_of s j" if "j \<noteq> i" for j
      unfolding mo using that by (intro upd_id) (auto dest: members_of_ids)
    show "findByRideId s' j = findByRideId s j" if "j \<noteq> i" for j
      unfolding fs using that by (intro upd_id) (auto simp: findByRideId_set pending_at_def)
    have ms: "map m_passengerId (members_of s' i) = map m_passengerId ?ms" "length (members_of s' i) = length ?ms"
      by (simp_all add: mo)
    have m_act: "\<forall>m \<in> set (members_of s' i). m_active m = (Suc k \<noteq> ?len)"
      using act unfolding mo by (auto simp: set_upd members_of_ids split: if_splits)
    have it: "itinerary_shape (members_of s' i) (findByRideId s' i)"
      using front(5) ms by (simp add: itinerary_shape_def)
    have prog: "progress_ok (p_poolState (confirm_row k ?len now p)) (Suc k) ?len"
      using st k(2) len2 by auto
    show "pool_shape (confirm_row k ?len now p) (members_of s' i) (findByRideId s' i)"
      unfolding pool_shape_def front(2,4)
      using shape st sh(3-5) row(2) ms m_act it prog front(3)
      by (auto simp: pool_shape_def)
    show "members_ok s'" using ok by (intro members_ok_leave [OF _ eq(2) ids]) (simp add: pools_ok_def)
    show "stops_ok s'"
      using ok by (auto simp: pools_ok_def stops_ok_def eq(3) ids map_key_upd key_image_upd)
  qed simp
  moreover have "refines s s'"
  proof -
    have v: "trip_driver s' = (trip_driver s)(Shared i := pool_driver (confirm_row k ?len now p))"
      "disp s' = (disp s)(Shared i := pool_disp (confirm_row k ?len now p))"
      by (rule pool_update_views [OF dist row(1) eq(1)]; simp add: eq(5))+
    have old: "trip_driver s (Shared i) = Some d" "disp s (Shared i) = None"
      using row st by (cases "k = 0"; auto simp: pool_driver_def pool_disp_def)+
    have ids': "map r_id (rides s') = map r_id (rides s)" "map p_rideId (shared_rides s') = map p_rideId (shared_rides s)"
      by (simp_all add: eq(1,5))
    show ?thesis
    proof (cases "Suc k = ?len")
      case True
      have g: "guard_of s' = (guard_of s)(Shared i := None)" "guard_keys s'"
        using guard_released [OF core _ old(1), of s] eq(4) True guard_of_cong [of s' "snd (release d (Shared i) s)"]
        by (simp_all add: release_def guard_keys_def)
      show ?thesis
      proof (rule refines_finish [OF core ids' _ _ g])
        show "trip_driver s' = (trip_driver s)(Shared i := None)" "disp s' = (disp s)(Shared i := None)"
          using v True by (simp_all add: pool_driver_def pool_disp_def)
        show "offer_keys s'" using core offer_keys_cong [OF eq(6)] by (simp add: core_ok_def)
        show "live_set s' \<subseteq> live_set s - of_trip (Shared i)"
          using no_live_offers [OF core old(2)] live_set_cong [OF eq(6)] by auto
      qed
    next
      case False
      have "\<not> terminal_pool (p_poolState (confirm_row k ?len now p))" using False st by auto
      then have "trip_driver s' = trip_driver s" "disp s' = disp s"
        using v old row(2) False st by (simp_all add: pool_driver_def pool_disp_def fun_upd_idem)
      then show ?thesis
        using core eq(4,6) ids' False
        by (intro views_same_refines) (simp_all add: core_ok_def)
    qed
  qed
  ultimately show ?thesis by simp
qed

lemma confirm_tx_ok:
  assumes "confirm_tx i d n ty now s = Inr (res, s')" "core_ok s" "pools_ok s"
  shows "refines s s' \<and> pools_ok s' \<and> rides s' = rides s"
  using assms(1)
proof (cases rule: confirm_tx_cases)
  case same
  with assms show ?thesis by (simp add: refines_refl)
next
  case (new p t x c)
  let ?sts = "findByRideId s i"
  note fr = confirm_front [OF assms(3) new(1,2,3,5,6)]
  have "ty = s_type (?sts ! confirmed_count ?sts)" using new(4) fr(3) by simp
  then have s': "s' = confirmed_db i d (confirmed_count ?sts) (length ?sts) now s"
    by (rule confirm_writes_db(1) [OF new(7) assms(3) new(1,2) fr(1,2)])
  show ?thesis
    using confirmed_db_ok [OF assms(2,3) new(1,2) refl fr(1) s'] by (simp add: s' confirmed_db_def Let_def)
qed

end
