(* ===== verification/Evolution.thy ===== *)
theory Evolution
  imports Stop_Confirmation
begin

text \<open>
  How rows may change over time, whatever the operation: tables only grow, identifying and priced
  columns are fixed, statuses and generations only move forward, settled offers and confirmed stops
  stay. Each transaction of the model evolves the database; the system theory composes them.
\<close>

section \<open>Growing tables\<close>

definition grows :: "('r \<Rightarrow> 'r \<Rightarrow> bool) \<Rightarrow> 'r list \<Rightarrow> 'r list \<Rightarrow> bool" where
  "grows R t t' \<longleftrightarrow> length t \<le> length t' \<and> (\<forall>n < length t. R (t ! n) (t' ! n))"

lemma grows_refl [simp, intro]: "(\<And>r. R r r) \<Longrightarrow> grows R t t"
  by (simp add: grows_def)

lemma grows_upd: "(\<And>r. R r r) \<Longrightarrow> (\<And>r. r \<in> set t \<Longrightarrow> P r \<Longrightarrow> R r (f r)) \<Longrightarrow> grows R t (upd P f t)"
  by (simp add: grows_def upd_def)

lemma grows_append: "(\<And>r. R r r) \<Longrightarrow> grows R t (t @ u)"
  by (simp add: grows_def nth_append)

lemma grows_trans:
  assumes "\<And>x y z. R x y \<Longrightarrow> R y z \<Longrightarrow> R x z" "grows R t u" "grows R u v"
  shows "grows R t v"
  unfolding grows_def
proof (intro conjI allI impI)
  show "length t \<le> length v" using assms(2,3) by (simp add: grows_def)
  show "R (t ! n) (v ! n)" if "n < length t" for n
    using assms(1) [of "t ! n" "u ! n" "v ! n"] assms(2,3) that by (simp add: grows_def)
qed

lemma grows_nth: "grows R t t' \<Longrightarrow> n < length t \<Longrightarrow> n < length t' \<and> R (t ! n) (t' ! n)"
  by (simp add: grows_def)

lemma grows_mem: "grows R t t' \<Longrightarrow> r \<in> set t \<Longrightarrow> \<exists>r' \<in> set t'. R r r'"
  using grows_nth by (metis in_set_conv_nth)

lemma grows_row:
  assumes "grows R t t'" "\<And>x y. R x y \<Longrightarrow> key y = key x" "distinct (map key t')" "row key t k = Some r"
  shows "\<exists>r'. row key t' k = Some r' \<and> R r r'"
proof -
  obtain r' where r': "r' \<in> set t'" "R r r'" using grows_mem [OF assms(1)] row_SomeD [OF assms(4)] by blast
  then have "row key t' k = Some r'"
    using row_mem [OF assms(3) r'(1)] assms(2) [OF r'(2)] row_key [OF assms(4)] by simp
  then show ?thesis using r'(2) by blast
qed

section \<open>Rows\<close>

text \<open>What a ride was booked as.\<close>

definition ride_booking where
  "ride_booking r = (r_id r, r_passengerId r, (r_originLat r, r_originLng r), (r_destLat r, r_destLng r),
     r_fareCents r, r_type r, r_scheduledFor r, scope_of r, r_requestFingerprint r)"

definition ride_evolves :: "ride \<Rightarrow> ride \<Rightarrow> bool" where
  "ride_evolves r r' \<longleftrightarrow>
     ride_booking r' = ride_booking r \<and> r_dispatchGeneration r \<le> r_dispatchGeneration r'
     \<and> rideStatusVersion (r_status r) \<le> rideStatusVersion (r_status r')
     \<and> (terminal_ride (r_status r) \<longrightarrow> r_status r' = r_status r)
     \<and> (r_driverId r \<noteq> None \<longrightarrow> r_driverId r' = r_driverId r)
     \<and> (solo_disp r' \<noteq> None \<longrightarrow> solo_disp r \<noteq> None)"

primrec pool_rank :: "pool_state \<Rightarrow> nat" where
  "pool_rank PoolOpen = 0"
| "pool_rank ClosedFull = 1"
| "pool_rank ClosedTimeout = 1"
| "pool_rank ClosedStarted = 2"
| "pool_rank PoolCompleted = 3"
| "pool_rank PoolAborted = 3"

definition pool_route where
  "pool_route p = (p_rideId p, p_maxSeats p, p_detourBudgetM p, (p_originLat p, p_originLng p), (p_destLat p, p_destLng p))"

definition pool_evolves :: "shared_ride \<Rightarrow> shared_ride \<Rightarrow> bool" where
  "pool_evolves p p' \<longleftrightarrow>
     pool_route p' = pool_route p \<and> p_stateVersion p \<le> p_stateVersion p' \<and> p_seatCount p \<le> p_seatCount p'
     \<and> p_dispatchGeneration p \<le> p_dispatchGeneration p' \<and> pool_rank (p_poolState p) \<le> pool_rank (p_poolState p')
     \<and> (terminal_pool (p_poolState p) \<longrightarrow> p_poolState p' = p_poolState p)
     \<and> (p_claimedByDriverId p \<noteq> None \<longrightarrow> p_claimedByDriverId p' = p_claimedByDriverId p)
     \<and> (pool_disp p' \<noteq> None \<longrightarrow> p_poolState p = PoolOpen \<or> pool_disp p \<noteq> None)
     \<and> (p_stateVersion p' = p_stateVersion p \<longrightarrow> p' = p)"

text \<open>A seat: who, where, at which fare, under which key.\<close>

definition seat where
  "seat m = (member_pk m, m_seats m, (m_originLat m, m_originLng m), (m_destLat m, m_destLng m),
     m_agreedFareCents m, m_idempotencyKey m, m_joinedAt m)"

definition member_evolves :: "pool_member \<Rightarrow> pool_member \<Rightarrow> bool" where
  "member_evolves m m' \<longleftrightarrow> seat m' = seat m \<and> (m_active m' \<longrightarrow> m_active m)"

definition stop_evolves :: "ride_stop \<Rightarrow> ride_stop \<Rightarrow> bool" where
  "stop_evolves x x' \<longleftrightarrow> x' = x \<or> s_confirmedAt x = None \<and> (\<exists>t. x' = stamp t x)"

definition offer_evolves :: "offer \<Rightarrow> offer \<Rightarrow> bool" where
  "offer_evolves x x' \<longleftrightarrow> x' = x \<or> is_live x \<and> (\<exists>st t. st \<noteq> Offered \<and> x' = resolve st t x)"

lemma evolves_refls [simp, intro]:
  "ride_evolves r r" "pool_evolves p p" "member_evolves m m" "stop_evolves x x" "offer_evolves y y"
  by (simp_all add: ride_evolves_def pool_evolves_def member_evolves_def stop_evolves_def offer_evolves_def)

lemma ride_evolves_trans:
  assumes xy: "ride_evolves x y" and yz: "ride_evolves y z"
  shows "ride_evolves x z"
proof -
  note x = xy [unfolded ride_evolves_def] and y = yz [unfolded ride_evolves_def]
  have terminal: "r_status z = r_status x" if "terminal_ride (r_status x)"
  proof -
    have "r_status y = r_status x" using x that by blast
    then show ?thesis using y that by simp
  qed
  have driver: "r_driverId z = r_driverId x" if "r_driverId x \<noteq> None"
  proof -
    have "r_driverId y = r_driverId x" using x that by blast
    then show ?thesis using y that by simp
  qed
  have disp: "solo_disp z \<noteq> None \<longrightarrow> solo_disp x \<noteq> None" using x y by blast
  have "ride_booking z = ride_booking x" "r_dispatchGeneration x \<le> r_dispatchGeneration z"
    "rideStatusVersion (r_status x) \<le> rideStatusVersion (r_status z)"
    using x y by simp_all
  then show ?thesis using terminal driver disp unfolding ride_evolves_def by blast
qed

lemma pool_rank_0: "pool_rank st = 0 \<longleftrightarrow> st = PoolOpen"
  by (cases st) simp_all

lemma pool_evolves_open: "pool_evolves p p' \<Longrightarrow> p_poolState p' = PoolOpen \<Longrightarrow> p_poolState p = PoolOpen"
  unfolding pool_evolves_def by (metis le_zero_eq pool_rank_0)

lemma pool_evolves_trans:
  assumes xy: "pool_evolves x y" and yz: "pool_evolves y z"
  shows "pool_evolves x z"
proof -
  note x = xy [unfolded pool_evolves_def] and y = yz [unfolded pool_evolves_def]
  have terminal: "p_poolState z = p_poolState x" if "terminal_pool (p_poolState x)"
  proof -
    have "p_poolState y = p_poolState x" using x that by blast
    then show ?thesis using y that by simp
  qed
  have driver: "p_claimedByDriverId z = p_claimedByDriverId x" if "p_claimedByDriverId x \<noteq> None"
  proof -
    have "p_claimedByDriverId y = p_claimedByDriverId x" using x that by blast
    then show ?thesis using y that by simp
  qed
  have disp: "pool_disp z \<noteq> None \<longrightarrow> p_poolState x = PoolOpen \<or> pool_disp x \<noteq> None"
    using x y pool_evolves_open [OF xy] by blast
  have "pool_route z = pool_route x" "p_stateVersion x \<le> p_stateVersion z" "p_seatCount x \<le> p_seatCount z"
    "p_dispatchGeneration x \<le> p_dispatchGeneration z" "pool_rank (p_poolState x) \<le> pool_rank (p_poolState z)"
    using x y by simp_all
  moreover have "p_stateVersion z = p_stateVersion x \<longrightarrow> z = x"
  proof
    assume "p_stateVersion z = p_stateVersion x"
    then have "p_stateVersion y = p_stateVersion x \<and> p_stateVersion z = p_stateVersion y" using x y by simp
    then show "z = x" using x y by simp
  qed
  ultimately show ?thesis using terminal driver disp unfolding pool_evolves_def by blast
qed

lemma member_evolves_trans: "member_evolves x y \<Longrightarrow> member_evolves y z \<Longrightarrow> member_evolves x z"
  by (auto simp: member_evolves_def)

lemma stop_evolves_trans: "stop_evolves x y \<Longrightarrow> stop_evolves y z \<Longrightarrow> stop_evolves x z"
  by (auto simp: stop_evolves_def)

lemma offer_evolves_trans: "offer_evolves x y \<Longrightarrow> offer_evolves y z \<Longrightarrow> offer_evolves x z"
  by (auto simp: offer_evolves_def)

section \<open>Databases\<close>

definition evolves :: "db \<Rightarrow> db \<Rightarrow> bool" where
  "evolves s s' \<longleftrightarrow>
     grows ride_evolves (rides s) (rides s') \<and> grows pool_evolves (shared_rides s) (shared_rides s')
     \<and> grows member_evolves (pool_members s) (pool_members s') \<and> grows stop_evolves (ride_stops s) (ride_stops s')
     \<and> grows offer_evolves (offers s) (offers s')"

lemma evolves_refl [simp]: "evolves s s"
  by (simp add: evolves_def)

lemma evolves_trans: "evolves s t \<Longrightarrow> evolves t u \<Longrightarrow> evolves s u"
  unfolding evolves_def
  by (meson grows_trans ride_evolves_trans pool_evolves_trans member_evolves_trans stop_evolves_trans offer_evolves_trans)

lemma evolves_same:
  "rides s' = rides s \<Longrightarrow> shared_rides s' = shared_rides s \<Longrightarrow> pool_members s' = pool_members s \<Longrightarrow>
   ride_stops s' = ride_stops s \<Longrightarrow> offers s' = offers s \<Longrightarrow> evolves s s'"
  by (simp add: evolves_def)

text \<open>One table at a time.\<close>

lemma offer_evolves_resolve: "is_live x \<Longrightarrow> st \<noteq> Offered \<Longrightarrow> offer_evolves x (resolve st t x)"
  by (auto simp: offer_evolves_def)

lemma evolves_offers:
  assumes "offers s' = upd P (resolve st ct) (offers s)" "\<And>x. P x \<Longrightarrow> is_live x" "st \<noteq> Offered"
    and "rides s' = rides s" "shared_rides s' = shared_rides s" "pool_members s' = pool_members s" "ride_stops s' = ride_stops s"
  shows "evolves s s'"
  using assms by (auto simp: evolves_def intro!: grows_upd offer_evolves_resolve)

lemma evolves_rides:
  assumes "rides s' = upd P f (rides s)" "\<And>r. r \<in> set (rides s) \<Longrightarrow> P r \<Longrightarrow> ride_evolves r (f r)"
    and "offers s' = offers s" "shared_rides s' = shared_rides s" "pool_members s' = pool_members s" "ride_stops s' = ride_stops s"
  shows "evolves s s'"
  using assms by (auto simp: evolves_def intro!: grows_upd)

lemma leave_evolves [simp]: "member_evolves m (leave now m)"
  by (simp add: member_evolves_def seat_def member_pk_def leave_def)

lemma evolves_pools:
  assumes "\<And>p. p \<in> set (shared_rides s) \<Longrightarrow> P p \<Longrightarrow> pool_evolves p (bump f p)"
  shows "evolves s (update_pools P f now s)"
  using assms by (auto simp: evolves_def update_pools_members intro!: grows_upd)

lemma revoke_evolves: "evolves s (snd (revokeLiveForTrip t ex ct s))"
  by (rule evolves_offers [OF revoke_sel(1)]) (auto simp: live_for_def)

lemma resolveLive_evolves: "st \<noteq> Offered \<Longrightarrow> evolves s (snd (resolveLive i st ct s))"
  by (rule evolves_offers [OF resolveLive_sel(1)]) (auto simp: resolveLive_def)

lemma release_evolves: "evolves s (snd (release d t s))"
  by (rule evolves_same) simp_all

lemma enqueue_evolves: "enqueueOutbox m xid now s = Inr (b, s') \<Longrightarrow> evolves s s'"
  using enqueue_sel by (intro evolves_same) blast+

section \<open>Solo operations\<close>

lemma create_tx_evolves:
  assumes "create_tx p rid xid now s = Inr (res, s')"
  shows "evolves s s'"
  using assms
proof (cases rule: create_tx_cases)
  case (new m b)
  have "evolves s (s\<lparr>rides := rides s @ [new_ride p rid now]\<rparr>)"
    by (simp add: evolves_def grows_append)
  then show ?thesis using enqueue_evolves [OF new(8)] by (rule evolves_trans)
qed simp

lemma bind_evolves: "claimable_ride i r \<Longrightarrow> ride_evolves r (bind_ride d g now r)"
  by (auto simp: claimable_ride_def ride_evolves_def ride_booking_def scope_of_def bind_ride_def terminal_ride_def
      solo_disp_def)

lemma claimSoloRow_evolves: "claimSoloRow i d g now s = Inr (r, s') \<Longrightarrow> evolves s s'"
  by (auto simp: claimSoloRow_def split: option.splits intro!: evolves_rides bind_evolves)

lemma acquire_evolves: "acquire d t off g now s = Inr (out, s') \<Longrightarrow> evolves s s'"
  by (erule acquire_cases) (auto intro: evolves_same)

lemma claimSolo_evolves:
  assumes "claimSolo i d now ct s = Inr (res, s')"
  shows "evolves s s'"
proof (cases res)
  case None
  with assms have "s' = s"
    by (auto simp: claimSolo_def Let_def split: option.splits if_splits sum.splits dest: acquire_not_ok)
  then show ?thesis by simp
next
  case (Some r')
  with assms obtain g s1 s2 where "acquire d (Solo i) None g now s = Inr (AcquireOk, s1)"
      "claimSoloRow i d g now s1 = Inr (r', s2)" "s' = snd (revokeLiveForTrip (Solo i) None ct s2)"
    by (auto simp: claimSolo_def Let_def split: option.splits if_splits sum.splits)
  then show ?thesis
    by (metis acquire_evolves claimSoloRow_evolves revoke_evolves evolves_trans)
qed

text \<open>A statement on the row with a given id, found in a given state.\<close>

lemma set_ride_evolves:
  assumes "distinct (map r_id (rides s))" "ride_row s i = Some r" "ride_evolves r (f r)"
  shows "evolves s (set_ride i f s)"
proof (rule evolves_rides)
  show "ride_evolves x (f x)" if "x \<in> set (rides s)" "r_id x = i" for x
    using that assms row_mem [OF assms(1) that(1)] by simp
qed simp_all

lemma markNoDriver_evolves:
  assumes "distinct (map r_id (rides s))"
  shows "evolves s (snd (markNoDriver i gen now ct s))"
proof (cases "fst (markNoDriver i gen now ct s)")
  case None
  then have "snd (markNoDriver i gen now ct s) = s"
    by (auto simp: markNoDriver_def Let_def split: option.splits if_splits prod.splits)
  then show ?thesis by simp
next
  case (Some x)
  let ?f = "\<lambda>r. r\<lparr>r_status := No_driver, r_updatedAt := now\<rparr>"
  from Some obtain r where r: "ride_row s i = Some r" "r_status r = Requested" "r_driverId r = None"
      and s': "snd (markNoDriver i gen now ct s) = snd (revokeLiveForTrip (Solo i) None ct (set_ride i ?f s))"
    by (auto simp: markNoDriver_def lockSoloTrip_def Let_def split: option.splits if_splits prod.splits)
  have "ride_evolves r (?f r)"
    using r by (simp add: ride_evolves_def ride_booking_def scope_of_def terminal_ride_def solo_disp_def)
  then show ?thesis
    unfolding s' by (rule evolves_trans [OF set_ride_evolves [OF assms r(1)] revoke_evolves])
qed

lemma advance_booking: "ride_booking (advance_ride b clk r) = ride_booking r"
  by (cases b) (simp_all add: ride_booking_def advance_ride_def scope_of_def)

lemma advance_evolves:
  assumes "(r_status r, b) \<in> {(Accepted, En_route), (En_route, Arrived), (Arrived, In_progress), (In_progress, Completed)}"
  shows "ride_evolves r (advance_ride b clk r)"
  using assms by (auto simp: ride_evolves_def advance_booking terminal_ride_def solo_disp_def)

lemma transition_evolves:
  assumes "transition i d a b clk s = (res, s')" "distinct (map r_id (rides s))"
    and "(a, b) \<in> {(Accepted, En_route), (En_route, Arrived), (Arrived, In_progress), (In_progress, Completed)}"
  shows "evolves s s'"
  using assms(1)
proof (cases rule: transition_cases)
  case (ok r)
  have "evolves s (set_ride i (advance_ride b clk) s)"
    using assms(3) ok(4) by (intro set_ride_evolves [OF assms(2) ok(2)] advance_evolves) simp
  then show ?thesis
    using evolves_trans [OF _ release_evolves] by (auto simp: ok(5) Let_def)
qed simp

lemma applyEvent_evolves:
  assumes "distinct (map r_id (rides s))"
  shows "evolves s (snd (applyEvent i d ev clk s))"
proof (cases "transition_spec ev")
  case None
  then show ?thesis by (simp add: applyEvent_def)
next
  case (Some ab)
  obtain a b where ab: "ab = (a, b)" by force
  obtain res s' where t: "transition i d a b clk s = (res, s')" by force
  then have "snd (applyEvent i d ev clk s) = s'"
    using Some ab by (auto simp: applyEvent_def split: sum.splits)
  then show ?thesis
    using transition_evolves [OF t assms] transition_specD [of ev a b] Some ab by simp
qed

lemma cancel_evolves_row:
  assumes "cancel_target who actorId isNoShow wait clk r = Inr to"
  shows "ride_evolves r (cancel_ride to who reason clk r)"
  using cancel_targetD [OF assms]
  by (cases "r_status r") (auto simp: ride_evolves_def ride_booking_def cancel_ride_def terminal_ride_def solo_disp_def
      DRIVER_CANCELLABLE_def scope_of_def)

lemma cancel_evolves:
  assumes "cancel i who actorId isNoShow reason wait clk ct s = (res, s')" "distinct (map r_id (rides s))"
  shows "evolves s s'"
  using assms(1)
proof (cases rule: cancel_cases)
  case (ok r to)
  have "evolves s (set_ride i (cancel_ride to who reason clk) s)"
    by (rule set_ride_evolves [OF assms(2) ok(1)]) (rule cancel_evolves_row [OF ok(2)])
  then have "evolves s (snd (revokeLiveForTrip (Solo i) None ct (set_ride i (cancel_ride to who reason clk) s)))"
    by (rule evolves_trans [OF _ revoke_evolves])
  then show ?thesis
    using evolves_trans [OF _ release_evolves] by (auto simp: ok(4) Let_def split: option.splits)
qed simp

lemma set_generation_evolves:
  "r_dispatchGeneration r \<le> g \<Longrightarrow> r_status r = Requested \<Longrightarrow> ride_evolves r (set_generation g now r)"
  by (auto simp: ride_evolves_def ride_booking_def scope_of_def set_generation_def solo_disp_def terminal_ride_def)

lemma rearm_evolves:
  assumes "rearmScheduledRide i expected xid now ct s = Inr (res, s')" "distinct (map r_id (rides s))"
  shows "evolves s s'"
  using assms(1)
proof (cases rule: rearm_cases)
  case (retry r s2 b)
  let ?g = "r_dispatchGeneration r + 1"
  let ?s1 = "s\<lparr>rides := upd (\<lambda>x. r_id x = i \<and> r_dispatchGeneration x = r_dispatchGeneration r)
      (set_generation ?g now) (rides s)\<rparr>"
  have "evolves s ?s1"
  proof (rule evolves_rides)
    show "ride_evolves x (set_generation ?g now x)"
      if "x \<in> set (rides s)" "r_id x = i \<and> r_dispatchGeneration x = r_dispatchGeneration r" for x
    proof -
      have "x = r" using that row_mem [OF assms(2) that(1)] retry(1) by simp
      then show ?thesis using retry(2) by (intro set_generation_evolves) (simp_all add: rearmable_def)
    qed
  qed simp_all
  then have "evolves s s2"
    unfolding retry(4) by (rule evolves_trans [OF _ revoke_evolves])
  then show ?thesis using enqueue_evolves [OF retry(5)] by (rule evolves_trans)
qed simp

lemma wake_evolves: "evolves s (snd (wake_update i g now s))"
  by (rule evolves_rides [where P = "wakeable i g"])
    (auto simp: wake_update_def wakeable_def intro!: set_generation_evolves)

section \<open>Offers and accept\<close>

lemma createOffer_evolves:
  assumes "createOffer t d g w ttlMs locked oid now ct s = Inr (res, s')"
  shows "evolves s s'"
proof -
  let ?e = "expire_own_lapsed d locked ct s"
  have e: "evolves s ?e"
    by (rule evolves_offers [where P = "\<lambda>x. o_driverId x = d \<and> is_live x \<and> lapsed ct x \<and> o_id x \<notin> locked"])
      (auto simp: expire_own_lapsed_def)
  show ?thesis
  proof (cases "dispatchable s t g")
    case False
    with assms show ?thesis by (simp add: createOffer_def)
  next
    case True
    with assms obtain b where ins: "insert_offer (new_offer t d g w ttlMs oid now) ?e = Inr (b, s')"
      by (auto simp: createOffer_def Let_def split: sum.splits)
    then show ?thesis
    proof (cases rule: insert_offer_cases)
      case conflict
      with e show ?thesis by simp
    next
      case new
      have "evolves ?e s'" by (simp add: new(2) evolves_def grows_append)
      with e show ?thesis by (rule evolves_trans)
    qed
  qed
qed

lemma decline_evolves: "evolves s (snd (decline i d ct s))"
proof (cases "isUuid i \<and> isUuid d")
  case True
  show ?thesis
    by (rule evolves_offers [where P = "\<lambda>x. (o_id x = i \<and> o_driverId x = d) \<and> is_live x"])
      (use True in \<open>auto simp: decline_def Let_def\<close>)
qed (auto simp: decline_def)

lemma expireLapsed_evolves: "evolves s (snd (expireLapsed locked ct s))"
  by (rule evolves_offers [where P = "\<lambda>x. is_live x \<and> lapsed ct x \<and> o_id x \<notin> locked"])
    (auto simp: expireLapsed_def Let_def)

lemma claim_pool_evolves:
  "claimable_at i g p \<Longrightarrow>
   pool_evolves p (bump (\<lambda>p. p\<lparr>p_claimedByDriverId := Some d, p_claimedAt := Some now, p_updatedAt := now\<rparr>) p)"
  by (auto simp: claimable_at_def pool_evolves_def pool_route_def bump_def pool_disp_def)

lemma claimSharedRow_evolves: "claimSharedRow i d g now s = Inr (u, s') \<Longrightarrow> evolves s s'"
  by (auto simp: claimSharedRow_def split: if_splits intro!: evolves_pools claim_pool_evolves)

lemma claim_steps_evolves:
  assumes "claim_steps ofr d t now ct s = Inr ((res, revoked), s')"
  shows "evolves s s'"
  using assms
proof (cases rule: claim_steps_cases)
  case (ok s1 s2)
  have "evolves s s1" using ok(1) by (rule acquire_evolves)
  moreover have "evolves s1 s2"
    using ok(2) by (cases t) (auto intro: claimSoloRow_evolves claimSharedRow_evolves)
  moreover have "evolves s2 s'"
    unfolding ok(4) by (rule evolves_trans [OF resolveLive_evolves revoke_evolves]) simp
  ultimately show ?thesis by (blast intro: evolves_trans)
qed simp_all

lemma acceptInTx_evolves:
  assumes "acceptInTx oid d t now ct s = Inr ((res, revoked), s')"
  shows "evolves s s'"
  using assms by (cases rule: acceptInTx_cases) (auto intro: resolveLive_evolves claim_steps_evolves)

section \<open>Pools\<close>

lemma insertOpenPool_evolves: "insertOpenPool p s = Inr (u, s') \<Longrightarrow> evolves s s'"
  by (auto simp: insertOpenPool_def evolves_def grows_append split: if_splits)

lemma insert_member_evolves:
  assumes "insert_member_row m now s = Inr (u, s')"
  shows "evolves s s'"
  using assms
proof (cases rule: insert_member_row_cases)
  case (1 p f)
  have "pool_evolves x (bump (add_seat m now) x)" for x
    using 1(6) by (auto simp: pool_evolves_def pool_route_def bump_def add_seat_def pool_disp_def)
  then have "evolves (s\<lparr>pool_members := pool_members s @ [m]\<rparr>) s'"
    unfolding 1(12) by (intro evolves_pools)
  moreover have "evolves s (s\<lparr>pool_members := pool_members s @ [m]\<rparr>)"
    by (simp add: evolves_def grows_append)
  ultimately show ?thesis by (blast intro: evolves_trans)
qed

lemma close_evolves: "open_at i p \<Longrightarrow> pool_evolves p (bump (close_row reason now) p)"
  by (auto simp: open_at_def pool_evolves_def pool_route_def bump_def close_row_def)

lemma closeInTxn_evolves:
  assumes "closeInTxn pool reason xid now s = Inr (g, s')" "pool_row s (p_rideId pool) = Some pool"
    "p_poolState pool = PoolOpen" "distinct (map p_rideId (shared_rides s))"
  shows "evolves s s'"
  using assms
proof (rule closeInTxn_cases)
  fix b s1 stops
  assume s1: "s1 = update_pools (open_at (p_rideId pool)) (close_row reason now) now s"
    and e: "enqueueOutbox (pool_dispatch_message (p_rideId pool) (p_dispatchGeneration pool + 1) reason) xid now
       (s1\<lparr>ride_stops := ride_stops s1 @ map (stop_row (p_rideId pool)) stops\<rparr>) = Inr (b, s')"
  have "evolves s s1" unfolding s1 by (rule evolves_pools) (rule close_evolves)
  moreover have "evolves s1 (s1\<lparr>ride_stops := ride_stops s1 @ map (stop_row (p_rideId pool)) stops\<rparr>)"
    by (simp add: evolves_def grows_append)
  ultimately show ?thesis using enqueue_evolves [OF e] by (blast intro: evolves_trans)
qed

lemma complete_seat_evolves: "evolves s (complete_seat ik i out clk s)"
  by (rule evolves_same) simp_all

lemma open_tx_evolves:
  assumes "open_tx o_p i xid tmo quote ik now clk s = Inr (res, s')"
  shows "evolves s s'"
  using assms
proof (cases rule: open_tx_cases)
  case (opened s1 s2 s3 q b)
  then show ?thesis
    by (metis insertOpenPool_evolves insert_member_evolves enqueue_evolves complete_seat_evolves evolves_trans)
qed simp

lemma join_tx_evolves:
  assumes "join_tx i j quote ik xid now clk s = Inr (res, s')" "pools_ok s"
  shows "evolves s s'"
  using assms(1)
proof (cases rule: join_tx_cases)
  case (seat pool q)
  from seat(5) show ?thesis
  proof (cases rule: seat_joiner_cases)
    case (seated p s1 g s2)
    have i: "p_rideId pool = i" using seat(1) row_key by fast
    let ?m = "new_member i j (sq_perSeatPrice q) (seat_key ik) now"
    have ins: "insert_member_row ?m now s = Inr ((), s1)" using seated(1) i by simp
    have "evolves s1 s2"
    proof (cases "p_maxSeats pool \<le> p_seatCount p + 1")
      case True
      with seated(3) have c: "closeInTxn pool ClosedFull xid now s1 = Inr (g, s2)" by simp
      let ?pool = "bump (add_seat ?m now) pool"
      have "p_originLat ?pool = p_originLat pool" "p_originLng ?pool = p_originLng pool" "p_rideId ?pool = p_rideId pool"
        by (simp_all add: bump_def add_seat_def)
      then have same: "closeInTxn pool r xid now s = closeInTxn ?pool r xid now s" for r s
        unfolding closeInTxn_def by metis
      have "pool_row s1 i = Some ?pool"
        using ins
      proof (cases rule: insert_member_row_cases)
        case (1 p f)
        then show ?thesis using seat(1) i by (simp add: row_upd seat_row_def)
      qed
      moreover have "pools_ok s1" by (rule insert_member_ok [OF ins assms(2)]) simp_all
      then have "distinct (map p_rideId (shared_rides s1))" by (simp add: pools_ok_def)
      ultimately show ?thesis
        using c [unfolded same] seat(2) i by (intro closeInTxn_evolves [of ?pool]) simp_all
    qed (use seated(3) in simp)
    then show ?thesis
      unfolding seated(5) by (metis insert_member_evolves [OF ins] complete_seat_evolves evolves_trans)
  qed simp
qed simp

lemma abortUnclaimed_evolves: "evolves s (snd (abortUnclaimedPool i g now s))"
  unfolding abortUnclaimedPool_def snd_conv
  by (rule evolves_pools)
    (auto simp: claimable_at_def pool_evolves_def pool_route_def pool_disp_def bump_def, (case_tac "p_poolState p"; simp)+)

lemma abort_tx_evolves: "evolves s (snd (abort_tx i gen now ct s))"
  using abortUnclaimed_evolves [of s i _ now]
  by (auto simp: abort_tx_def Let_def split: option.splits prod.splits bool.splits)
    (metis evolves_trans revoke_evolves snd_conv)+

lemma close_tx_evolves:
  assumes "close_tx i reason xid now s = Inr (res, s')" "pools_ok s"
  shows "evolves s s'"
proof -
  have d: "distinct (map p_rideId (shared_rides s))" using assms(2) by (simp add: pools_ok_def)
  from assms(1) consider "s' = s" | "s' = snd (abortEmptyOpen i now s)"
    | p g where "pool_row s i = Some p" "p_poolState p = PoolOpen" "closeInTxn p reason xid now s = Inr (g, s')"
    by (auto simp: close_tx_def lockPool_def split: option.splits if_splits sum.splits prod.splits)
  then show ?thesis
  proof cases
    case 2
    have "pool_evolves p (bump (\<lambda>p. p\<lparr>p_poolState := PoolAborted, p_poolClosedAt := Some now, p_updatedAt := now\<rparr>) p)"
      if "p \<in> set (shared_rides s)" "empty_open i p" for p
    proof -
      have "p_claimedByDriverId p = None"
        using that assms(2) by (auto simp: pools_ok_def pool_shape_def empty_open_def open_at_def)
      then show ?thesis
        using that by (auto simp: empty_open_def open_at_def pool_evolves_def pool_route_def pool_disp_def bump_def)
    qed
    then show ?thesis unfolding 2 abortEmptyOpen_def snd_conv by (rule evolves_pools)
  next
    case (3 p g)
    then show ?thesis using d row_key [OF 3(1)] by (intro closeInTxn_evolves [OF 3(3)]) simp_all
  qed simp
qed

lemma confirm_tx_evolves:
  assumes "confirm_tx i d n ty now s = Inr (res, s')" "pools_ok s"
  shows "evolves s s'"
  using assms(1)
proof (cases rule: confirm_tx_cases)
  case (new p t x c)
  let ?sts = "findByRideId s i" and ?k = "confirmed_count (findByRideId s i)" and ?len = "length (findByRideId s i)"
  note fr = confirm_front [OF assms(2) new(1,2,3,5,6)] and sh = claimed_shape [OF assms(2) new(1,2)]
  have "ty = s_type (?sts ! ?k)" using new(4) fr(3) by simp
  then have s': "s' = confirmed_db i d ?k ?len now s"
    by (rule confirm_writes_db(1) [OF new(7) assms(2) new(1,2) fr(1,2)])
  have dist: "distinct (map p_rideId (shared_rides s))" using assms(2) by (simp add: pools_ok_def)
  have len2: "2 \<le> ?len" using itinerary_length [OF sh(1)] sh(3) by (cases "members_of s i") simp_all
  have st: "?k = 0 \<longrightarrow> p_poolState p \<in> {ClosedFull, ClosedTimeout}" "?k \<noteq> 0 \<longrightarrow> p_poolState p = ClosedStarted"
    using sh(5,6) fr(1) len2 by auto
  note eq = confirmed_db_rows [OF dist new(1) st len2 fr(1), of d now, folded s']
  have "pool_evolves q (confirm_row ?k ?len now q)" if "q \<in> set (shared_rides s)" "p_rideId q = i" for q
  proof -
    have "q = p" using that row_mem [OF dist that(1)] new(1) by simp
    then show ?thesis
      using st new(2) by (cases "?k = 0")
        (auto simp: pool_evolves_def pool_route_def pool_disp_def confirm_row_def bump_def touch_row_def complete_row_def start_row_def)
  qed
  moreover have "stop_evolves y (stamp now y)" if "pending_at i (int ?k) y" for y
    using that by (auto simp: stop_evolves_def pending_at_def)
  ultimately show ?thesis
    unfolding evolves_def eq by (auto intro!: grows_upd)
qed simp

end
