(* ===== verification/Frames.thy ===== *)
theory Frames
  imports Evolution Idempotency
begin

text \<open>
  What a transaction leaves alone. \<open>quiet\<close>: no offer is made or accepted and no guard row points to
  a new offer. \<open>calm\<close>: no trip becomes dispatchable or changes its generation, and no intent is
  written. Most transactions are both; the system invariant needs an argument of its own only for
  the few that are not.
\<close>

definition quiet :: "db \<Rightarrow> db \<Rightarrow> bool" where
  "quiet s s' \<longleftrightarrow>
     (\<exists>P st ct. offers s' = upd P (resolve st ct) (offers s) \<and> st \<noteq> OfferAccepted)
     \<and> (\<forall>a \<in> set (assignments s'). a \<in> set (assignments s) \<or> a_offerId a = None)"

definition calm :: "db \<Rightarrow> db \<Rightarrow> bool" where
  "calm s s' \<longleftrightarrow>
     (\<forall>t g. disp s' t = Some g \<longrightarrow> disp s t = Some g)
     \<and> map r_id (rides s') = map r_id (rides s) \<and> map p_rideId (shared_rides s') = map p_rideId (shared_rides s)
     \<and> outbox s' = outbox s \<and> idem s' = idem s"

lemma quietI:
  "offers s' = upd P (resolve st ct) (offers s) \<Longrightarrow> st \<noteq> OfferAccepted \<Longrightarrow>
   (\<And>a. a \<in> set (assignments s') \<Longrightarrow> a \<in> set (assignments s) \<or> a_offerId a = None) \<Longrightarrow> quiet s s'"
  unfolding quiet_def by (rule conjI, rule exI [of _ P], rule exI [of _ st], rule exI [of _ ct]) auto

lemma quiet_same:
  assumes "offers s' = offers s" "\<And>a. a \<in> set (assignments s') \<Longrightarrow> a \<in> set (assignments s) \<or> a_offerId a = None"
  shows "quiet s s'"
proof (rule quietI)
  show "offers s' = upd (\<lambda>_. False) (resolve Offered 0) (offers s)" by (simp add: assms(1) upd_id)
qed (use assms(2) in auto)

lemma quiet_refl [simp]: "quiet s s"
  by (rule quiet_same) simp_all

lemma calm_refl [simp]: "calm s s"
  by (simp add: calm_def)

lemma calm_trans: "calm s t \<Longrightarrow> calm t u \<Longrightarrow> calm s u"
  by (auto simp: calm_def)

lemma calm_same:
  assumes "rides s' = rides s" "shared_rides s' = shared_rides s" "outbox s' = outbox s" "idem s' = idem s"
  shows "calm s s'"
  using assms disp_cong [of s' s] by (simp add: calm_def)

lemma disp_upd_ride:
  assumes "rides s' = upd P f (rides s)" "shared_rides s' = shared_rides s" "\<And>r. r_id (f r) = r_id r"
    and "\<And>r. r \<in> set (rides s) \<Longrightarrow> P r \<Longrightarrow> solo_disp (f r) = None \<or> solo_disp (f r) = solo_disp r" "disp s' t = Some g"
  shows "disp s t = Some g"
proof (cases t)
  case (Solo i)
  with assms(5) obtain r where "row r_id (upd P f (rides s)) i = Some r" "solo_disp r = Some g"
    by (auto simp: assms(1) bind_eq_Some_conv)
  then obtain q where "ride_row s i = Some q" "r = (if P q then f q else q)"
    by (auto simp: row_upd [of r_id, OF assms(3)])
  then show ?thesis
    using assms(4) [of q] Solo \<open>solo_disp r = Some g\<close> row_SomeD [of r_id "rides s" i q] by (auto split: if_splits)
next
  case (Shared i)
  then show ?thesis using assms(2,5) by simp
qed

lemma disp_upd_pool:
  assumes "shared_rides s' = upd P f (shared_rides s)" "rides s' = rides s" "\<And>r. p_rideId (f r) = p_rideId r"
    and "\<And>r. r \<in> set (shared_rides s) \<Longrightarrow> P r \<Longrightarrow> pool_disp (f r) = None \<or> pool_disp (f r) = pool_disp r" "disp s' t = Some g"
  shows "disp s t = Some g"
proof (cases t)
  case (Shared i)
  with assms(5) obtain r where "row p_rideId (upd P f (shared_rides s)) i = Some r" "pool_disp r = Some g"
    by (auto simp: assms(1) bind_eq_Some_conv)
  then obtain q where "pool_row s i = Some q" "r = (if P q then f q else q)"
    by (auto simp: row_upd [of p_rideId, OF assms(3)])
  then show ?thesis
    using assms(4) [of q] Shared \<open>pool_disp r = Some g\<close> row_SomeD [of p_rideId "shared_rides s" i q] by (auto split: if_splits)
next
  case (Solo i)
  then show ?thesis using assms(2,5) by simp
qed

lemma calm_rides:
  assumes "rides s' = upd P f (rides s)" "shared_rides s' = shared_rides s" "\<And>r. r_id (f r) = r_id r"
    and "\<And>r. r \<in> set (rides s) \<Longrightarrow> P r \<Longrightarrow> solo_disp (f r) = None \<or> solo_disp (f r) = solo_disp r"
    and "outbox s' = outbox s" "idem s' = idem s"
  shows "calm s s'"
  unfolding calm_def using disp_upd_ride [OF assms(1-4)] assms by (auto simp: map_key_upd)

lemma calm_pools:
  assumes "shared_rides s' = upd P f (shared_rides s)" "rides s' = rides s" "\<And>r. p_rideId (f r) = p_rideId r"
    and "\<And>r. r \<in> set (shared_rides s) \<Longrightarrow> P r \<Longrightarrow> pool_disp (f r) = None \<or> pool_disp (f r) = pool_disp r"
    and "outbox s' = outbox s" "idem s' = idem s"
  shows "calm s s'"
  unfolding calm_def using disp_upd_pool [OF assms(1-4)] assms by (auto simp: map_key_upd)

section \<open>Building blocks\<close>

lemma revoke_frame [simp]: "quiet s (snd (revokeLiveForTrip t ex ct s))" "calm s (snd (revokeLiveForTrip t ex ct s))"
  by (rule quietI [OF revoke_sel(1)]) (auto intro: calm_same)

lemma resolveLive_frame:
  "st \<noteq> OfferAccepted \<Longrightarrow> quiet s (snd (resolveLive i st ct s))" "calm s (snd (resolveLive i st ct s))"
  by (rule quietI [OF resolveLive_sel(1)]) (auto intro: calm_same)

lemma release_frames [simp]: "calm s (snd (release d t s))"
  by (rule calm_same) simp_all

lemma release_assignments: "set (assignments (snd (release d t s))) \<subseteq> set (assignments s)"
  by (auto simp: release_def set_del)

lemma acquire_calm: "acquire d t off g now s = Inr (out, s') \<Longrightarrow> calm s s'"
  by (erule acquire_cases) (auto intro: calm_same)

lemma claimSoloRow_calm:
  assumes "claimSoloRow i d g now s = Inr (r, s')"
  shows "calm s s'"
proof -
  from assms have "s' = s\<lparr>rides := upd (claimable_ride i) (bind_ride d g now) (rides s)\<rparr>"
    by (auto simp: claimSoloRow_def split: option.splits)
  then show ?thesis
    by (intro calm_rides [where P = "claimable_ride i" and f = "bind_ride d g now"]) (simp_all add: solo_disp_def)
qed

lemma update_pools_calm:
  assumes "\<And>p. p \<in> set (shared_rides s) \<Longrightarrow> P p \<Longrightarrow> pool_disp (bump f p) = None \<or> pool_disp (bump f p) = pool_disp p"
    and "\<And>p. p_rideId (f p) = p_rideId p"
  shows "calm s (update_pools P f now s)"
  by (rule calm_pools [where P = P and f = "bump f"]) (use assms in \<open>auto simp: update_pools_def bump_def\<close>)

lemma claimSharedRow_calm:
  assumes "claimSharedRow i d g now s = Inr (u, s')"
  shows "calm s s'"
proof -
  from assms have "s' = update_pools (claimable_at i g)
      (\<lambda>p. p\<lparr>p_claimedByDriverId := Some d, p_claimedAt := Some now, p_updatedAt := now\<rparr>) now s"
    by (auto simp: claimSharedRow_def split: if_splits)
  then show ?thesis by (auto simp: bump_def pool_disp_def intro!: update_pools_calm)
qed

lemma set_ride_calm:
  assumes "\<And>r. r_id (f r) = r_id r" "\<And>r. r_id r = i \<Longrightarrow> r \<in> set (rides s) \<Longrightarrow> solo_disp (f r) = None"
  shows "calm s (set_ride i f s)"
  by (rule calm_rides [where P = "\<lambda>r. r_id r = i" and f = f]) (use assms in auto)

section \<open>Rides\<close>

lemma claimSolo_frame:
  assumes "claimSolo i d now ct s = Inr (res, s')"
  shows "quiet s s' \<and> calm s s'"
proof (cases res)
  case None
  with assms have "s' = s"
    by (auto simp: claimSolo_def Let_def split: option.splits if_splits sum.splits dest: acquire_not_ok)
  then show ?thesis by simp
next
  case (Some r')
  with assms obtain g s1 s2 where c: "acquire d (Solo i) None g now s = Inr (AcquireOk, s1)"
      "claimSoloRow i d g now s1 = Inr (r', s2)" "s' = snd (revokeLiveForTrip (Solo i) None ct s2)"
    by (auto simp: claimSolo_def Let_def split: option.splits if_splits sum.splits)
  have sel: "offers s2 = offers s" "assignments s2 = assignments s1"
    using claimSoloRow_sel [OF c(2)] acquire_sel [OF c(1)] by simp_all
  have "quiet s s'"
  proof (rule quietI)
    show "offers s' = upd (live_for (Solo i) None) (resolve OfferRevoked ct) (offers s)" by (simp add: c(3) sel)
    have "set (assignments s1) \<subseteq> set (assignments s) \<union> {a. a_offerId a = None}"
      using c(1) by (rule acquire_cases) auto
    then show "a \<in> set (assignments s) \<or> a_offerId a = None" if "a \<in> set (assignments s')" for a
      using that by (auto simp: c(3) sel)
  qed simp
  moreover have "calm s s'"
    unfolding c(3)
    by (rule calm_trans [OF acquire_calm [OF c(1)] calm_trans [OF claimSoloRow_calm [OF c(2)] revoke_frame(2)]])
  ultimately show ?thesis by blast
qed

lemma markNoDriver_frame: "quiet s (snd (markNoDriver i gen now ct s)) \<and> calm s (snd (markNoDriver i gen now ct s))"
proof (cases "fst (markNoDriver i gen now ct s)")
  case None
  then have "snd (markNoDriver i gen now ct s) = s"
    by (auto simp: markNoDriver_def Let_def split: option.splits if_splits prod.splits)
  then show ?thesis by simp
next
  case (Some x)
  let ?f = "\<lambda>r. r\<lparr>r_status := No_driver, r_updatedAt := now\<rparr>"
  from Some have s': "snd (markNoDriver i gen now ct s) = snd (revokeLiveForTrip (Solo i) None ct (set_ride i ?f s))"
    by (auto simp: markNoDriver_def Let_def split: option.splits if_splits prod.splits)
  have "calm s (set_ride i ?f s)" by (rule set_ride_calm) (simp_all add: solo_disp_def)
  then show ?thesis
    unfolding s' by (auto intro!: quietI [where P = "live_for (Solo i) None" and st = OfferRevoked and ct = ct]
        calm_trans [OF _ revoke_frame(2)])
qed

lemma transition_frame:
  assumes "transition i d a b clk s = (res, s')" "b \<noteq> Requested"
  shows "quiet s s' \<and> calm s s'"
  using assms(1)
proof (cases rule: transition_cases)
  case (ok r)
  let ?s1 = "set_ride i (advance_ride b clk) s"
  have 1: "calm s ?s1" using assms(2) by (intro set_ride_calm) (simp_all add: solo_disp_def)
  have 2: "quiet s ?s1" by (rule quiet_same) simp_all
  have 3: "quiet s (snd (release d (Solo i) ?s1))"
    by (rule quiet_same) (use release_assignments [of d "Solo i" ?s1] in auto)
  show ?thesis using 1 2 3 calm_trans [OF 1 release_frames] by (simp add: ok(5) Let_def)
qed simp

lemma applyEvent_frame: "quiet s (snd (applyEvent i d ev clk s)) \<and> calm s (snd (applyEvent i d ev clk s))"
proof (cases "transition_spec ev")
  case None
  then show ?thesis by (simp add: applyEvent_def)
next
  case (Some ab)
  obtain a b where ab: "ab = (a, b)" by force
  obtain res s' where t: "transition i d a b clk s = (res, s')" by force
  then have "snd (applyEvent i d ev clk s) = s'"
    using Some ab by (auto simp: applyEvent_def split: sum.splits)
  then show ?thesis
    using transition_frame [OF t] transition_specD [of ev a b] Some ab by auto
qed

lemma cancel_frame:
  assumes "cancel i who actorId isNoShow reason wait clk ct s = (res, s')"
  shows "quiet s s' \<and> calm s s'"
  using assms
proof (cases rule: cancel_cases)
  case (ok r to)
  let ?s1 = "set_ride i (cancel_ride to who reason clk) s"
  let ?s2 = "snd (revokeLiveForTrip (Solo i) None ct ?s1)"
  have to: "to \<noteq> Requested" using cancel_targetD [OF ok(2)] by auto
  have "calm s ?s1" using to by (intro set_ride_calm) (simp_all add: solo_disp_def)
  then have 2: "calm s ?s2" by (rule calm_trans) simp
  have q: "quiet s u" if "offers u = offers ?s2" "set (assignments u) \<subseteq> set (assignments s)" for u
    by (rule quietI [where P = "live_for (Solo i) None" and st = OfferRevoked and ct = ct]) (use that in auto)
  show ?thesis
  proof (cases "r_driverId r")
    case None
    then show ?thesis using 2 q [of ?s2] by (simp add: ok(4) Let_def)
  next
    case (Some d)
    then show ?thesis
      using calm_trans [OF 2 release_frames] q [of "snd (release d (Solo i) ?s2)"] release_assignments [of d "Solo i" ?s2]
      by (simp add: ok(4) Let_def)
  qed
qed simp

section \<open>Offers\<close>

lemma decline_frame: "quiet s (snd (decline i d ct s)) \<and> calm s (snd (decline i d ct s))"
  by (auto simp: decline_def Let_def intro!: calm_same
      quietI [where P = "\<lambda>x. (o_id x = i \<and> o_driverId x = d) \<and> is_live x" and st = OfferDeclined and ct = ct])

lemma expireLapsed_frame: "quiet s (snd (expireLapsed locked ct s)) \<and> calm s (snd (expireLapsed locked ct s))"
  by (auto simp: expireLapsed_def Let_def intro!: calm_same
      quietI [where P = "\<lambda>x. is_live x \<and> lapsed ct x \<and> o_id x \<notin> locked" and st = OfferExpired and ct = ct])

lemma createOffer_calm: "createOffer t d g w ttl locked oid now ct s = Inr (res, s') \<Longrightarrow> calm s s'"
proof -
  assume "createOffer t d g w ttl locked oid now ct s = Inr (res, s')"
  then obtain os where "s' = s\<lparr>offers := os\<rparr>" using createOffer_frame by blast
  then show ?thesis by (intro calm_same) simp_all
qed

lemma claim_steps_calm:
  assumes "claim_steps ofr d t now ct s = Inr ((res, revoked), s')"
  shows "calm s s'"
  using assms
proof (cases rule: claim_steps_cases)
  case (ok s1 s2)
  have "calm s s1" using ok(1) by (rule acquire_calm)
  moreover have "calm s1 s2"
    using ok(2) by (cases t) (auto intro: claimSoloRow_calm claimSharedRow_calm)
  moreover have "calm s2 s'"
    unfolding ok(4) by (rule calm_trans [OF resolveLive_frame(2) revoke_frame(2)])
  ultimately show ?thesis by (blast intro: calm_trans)
qed simp_all

lemma acceptInTx_calm: "acceptInTx oid d t now ct s = Inr ((res, revoked), s') \<Longrightarrow> calm s s'"
  by (erule acceptInTx_cases) (auto intro: resolveLive_frame claim_steps_calm)

end
