(* ===== verification/Intents.thy ===== *)
theory Intents
  imports Frames Outbox_Relay
begin

text \<open>
  The transactional outbox guarantee: a trip that can be dispatched has a durable intent for exactly
  its generation, written by the transaction that made it dispatchable. A solo ride's intent is the
  dispatch request of its generation or, for a scheduled ride before its first retry, the wake-up;
  a closed pool's is its dispatch request.
\<close>

fun intended :: "outbox_row list \<Rightarrow> trip_ref \<Rightarrow> int \<Rightarrow> bool" where
  "intended ob (Solo i) g \<longleftrightarrow>
     1 \<le> g \<and> has_intent ob RideDispatchRequested i g \<or> g \<le> 1 \<and> has_intent ob RideWakeSchedule i 1"
| "intended ob (Shared i) g \<longleftrightarrow> has_intent ob PoolDispatchRequested i g"

definition uuid_ids :: "db \<Rightarrow> bool" where
  "uuid_ids s \<longleftrightarrow> list_all isUuid (map r_id (rides s)) \<and> list_all isUuid (map p_rideId (shared_rides s))"

definition wakes_once :: "outbox_row list \<Rightarrow> bool" where
  "wakes_once ob \<longleftrightarrow> (\<forall>x \<in> set ob. x_topic x = RideWakeSchedule \<longrightarrow> x_generation x = 1)"

definition intents_ok :: "db \<Rightarrow> bool" where
  "intents_ok s \<longleftrightarrow>
     outbox_keys (outbox s) \<and> table_ok (outbox s) \<and> wakes_once (outbox s) \<and> uuid_ids s
     \<and> (\<forall>t g. disp s t = Some g \<longrightarrow> intended (outbox s) t g)"

lemma intended_mono:
  "(\<And>tp i g. has_intent ob tp i g \<Longrightarrow> has_intent ob' tp i g) \<Longrightarrow> intended ob t g \<Longrightarrow> intended ob' t g"
  by (cases t) auto

lemma intents_calm: "calm s s' \<Longrightarrow> intents_ok s \<Longrightarrow> intents_ok s'"
  by (auto simp: calm_def intents_ok_def uuid_ids_def)

lemma intents_wake_generation: "intents_ok s \<Longrightarrow> has_intent (outbox s) RideWakeSchedule i g \<Longrightarrow> g = 1"
  by (auto simp: intents_ok_def wakes_once_def has_intent_def)

text \<open>A transaction that ends by writing an intent.\<close>

lemma intents_enqueue:
  assumes "enqueueOutbox m xid now s1 = Inr (b, s')" "intents_ok s" "outbox s1 = outbox s" "uuid_ids s1"
    and m: "known_topic (g_topic m)" "isUuid (g_aggregateId m)" "0 \<le> g_generation m"
      "g_topic m = RideWakeSchedule \<longrightarrow> g_generation m = 1"
    and disp: "\<And>t g. disp s1 t = Some g \<Longrightarrow> \<not> intended (outbox s) t g \<Longrightarrow>
      (\<And>ob. has_intent ob (g_topic m) (g_aggregateId m) (g_generation m) \<Longrightarrow> intended ob t g)"
  shows "intents_ok s'"
proof -
  have ok: "outbox_keys (outbox s1)" "table_ok (outbox s1)" "wakes_once (outbox s1)"
    using assms(2,3) by (simp_all add: intents_ok_def)
  have fr: "s' = s1\<lparr>outbox := outbox s'\<rparr>" by (rule enqueueOutbox_frame [OF assms(1)])
  have keys: "outbox_keys (outbox s')" by (rule enqueueOutbox_keys [OF assms(1) ok(1) m(1,2)])
  have new: "has_intent (outbox s') (g_topic m) (g_aggregateId m) (g_generation m)"
    by (rule enqueueOutbox_has_intent [OF assms(1) ok(1) m(1-3)])
  have "table_ok (outbox s') \<and> wakes_once (outbox s')"
    using assms(1)
  proof (cases rule: enqueueOutbox_cases)
    case new
    then have "relay_step (outbox s1) (outbox s')" by (simp add: step_enqueue)
    moreover have "wakes_once (outbox s')" using ok(3) m(4) new(2) by (auto simp: wakes_once_def)
    ultimately show ?thesis using ok(2) by (blast intro: relay_step_ok)
  qed (use ok in simp)
  moreover have "uuid_ids s'" using assms(4) by (subst fr) (simp add: uuid_ids_def)
  moreover have "intended (outbox s') t g" if "disp s' t = Some g" for t g
  proof -
    obtain ob where "s' = s1\<lparr>outbox := ob\<rparr>" using fr by blast
    then have d: "disp s1 t = Some g" using that disp_cong [of s' s1] by simp
    show ?thesis
    proof (cases "intended (outbox s) t g")
      case True
      then show ?thesis using enqueueOutbox_mono [OF assms(1)] assms(3) by (auto intro: intended_mono)
    next
      case False
      show ?thesis by (rule disp [OF d False new])
    qed
  qed
  ultimately show ?thesis using keys by (simp add: intents_ok_def)
qed

text \<open>The relay's own statements change neither a row's key nor its intent.\<close>

definition intent_columns where
  "intent_columns x = (x_id x, x_topic x, x_aggregateId x, x_generation x, x_dedupeKey x)"

lemma columns_intent:
  assumes "map intent_columns ob' = map intent_columns ob"
  shows "has_intent ob' tp i g = has_intent ob tp i g" "wakes_once ob' = wakes_once ob" "outbox_keys ob' = outbox_keys ob"
proof -
  have s: "intent_columns ` set ob' = intent_columns ` set ob" using assms by (metis set_map)
  have ex: "(\<exists>x \<in> set ob'. P (intent_columns x)) = (\<exists>x \<in> set ob. P (intent_columns x))" for P
    using s by (metis (mono_tags, lifting) image_iff)
  show "has_intent ob' tp i g = has_intent ob tp i g"
    using ex [of "\<lambda>(_, a, b, c, _). a = tp \<and> b = i \<and> c = g"] by (simp add: has_intent_def intent_columns_def)
  show "wakes_once ob' = wakes_once ob"
    using ex [of "\<lambda>(_, a, _, c, _). \<not> (a = RideWakeSchedule \<longrightarrow> c = 1)"] by (auto simp: wakes_once_def intent_columns_def)
  have "map x_id ob' = map x_id ob" "map x_dedupeKey ob' = map x_dedupeKey ob"
    using arg_cong [OF assms, of "map fst"] arg_cong [OF assms, of "map (\<lambda>(_, _, _, _, k). k)"]
    by (simp_all add: intent_columns_def comp_def)
  then show "outbox_keys ob' = outbox_keys ob"
    using ex [of "\<lambda>(_, a, b, c, k). \<not> (k = outboxDedupeKey a b c \<and> known_topic a \<and> isUuid b \<and> 0 \<le> c)"]
    by (auto simp: outbox_keys_def intent_columns_def)
qed

inductive relay_tx :: "outbox_row list \<Rightarrow> outbox_row list \<Rightarrow> bool" where
  "relay_tx t (snd (lease limit leaseMs locked tok now t))"
| "relay_tx t (snd (ack i token now t))"
| "relay_tx t (snd (fail i token err permanent now t))"
| "relay_tx t (snd (rearm tp i g now t))"

lemma map_upd_same: "(\<And>x. c (f x) = c x) \<Longrightarrow> map c (upd P f t) = map c t"
  by (rule map_key_upd)

lemma relay_tx_columns: "relay_tx t t' \<Longrightarrow> map intent_columns t' = map intent_columns t"
  by (induction rule: relay_tx.induct)
    (simp_all add: lease_def ack_def fail_def rearm_def Let_def map_upd_same intent_columns_def take_lease_def fail_row_def)

lemma relay_tx_step: "relay_tx t t' \<Longrightarrow> relay_step t t'"
  by (induction rule: relay_tx.induct) (rule relay_step.intros)+

lemma relay_tx_intents:
  assumes "relay_tx (outbox s) ob" "intents_ok s"
  shows "intents_ok (s\<lparr>outbox := ob\<rparr>)"
proof -
  note c = columns_intent [OF relay_tx_columns [OF assms(1)]]
  have "table_ok ob" using relay_step_ok [OF relay_tx_step [OF assms(1)]] assms(2) by (simp add: intents_ok_def)
  moreover have "disp (s\<lparr>outbox := ob\<rparr>) = disp s" by (rule disp_cong) simp_all
  moreover have "intended ob t g = intended (outbox s) t g" for t g by (cases t) (simp_all add: c(1))
  ultimately show ?thesis using assms(2) c(2,3) by (simp add: intents_ok_def uuid_ids_def)
qed

end
