(* ===== verification/Pool_Frames.thy ===== *)
theory Pool_Frames
  imports Intents
begin

text \<open>
  The frames of the pool transactions and the intents of the transactions that write one.
\<close>

section \<open>Quiet\<close>

lemma quiet_tables:
  assumes "offers s' = offers s" "assignments s' = assignments s"
  shows "quiet s s'"
  by (rule quiet_same) (use assms in auto)

lemma enqueue_tables:
  assumes "enqueueOutbox m xid now s = Inr (b, s')"
  shows "offers s' = offers s" "assignments s' = assignments s" "idem s' = idem s"
proof -
  obtain ob where "s' = s\<lparr>outbox := ob\<rparr>" using enqueueOutbox_frame [OF assms] by blast
  then show "offers s' = offers s" "assignments s' = assignments s" "idem s' = idem s" by simp_all
qed

lemma update_pools_tables [simp]:
  "offers (update_pools P f now s) = offers s" "assignments (update_pools P f now s) = assignments s"
  "idem (update_pools P f now s) = idem s" "outbox (update_pools P f now s) = outbox s"
  "rides (update_pools P f now s) = rides s" "ride_stops (update_pools P f now s) = ride_stops s"
  by (simp_all add: update_pools_def)

lemma insert_member_tables:
  assumes "insert_member_row m now s = Inr (u, s')"
  shows "offers s' = offers s" "assignments s' = assignments s" "idem s' = idem s" "outbox s' = outbox s"
  using assms by (auto elim!: insert_member_row_cases)

lemma insertOpenPool_tables:
  assumes "insertOpenPool p s = Inr (u, s')"
  shows "s' = s\<lparr>shared_rides := shared_rides s @ [p]\<rparr>" "p_rideId p \<notin> p_rideId ` set (shared_rides s)"
  using assms by (auto simp: insertOpenPool_def split: if_splits)

lemma insertItinerary_tables:
  assumes "insertItinerary i stops s = Inr (u, s')"
  shows "offers s' = offers s" "assignments s' = assignments s" "idem s' = idem s"
  using assms by (auto simp: insertItinerary_def Let_def split: if_splits)

lemma closeInTxn_tables:
  assumes "closeInTxn pool reason xid now s = Inr (g, s')"
  shows "offers s' = offers s \<and> assignments s' = assignments s \<and> idem s' = idem s"
proof -
  let ?i = "p_rideId pool"
  obtain x s1 where c: "closeOpen ?i reason now s = (x, s1)" by force
  then have s1: "offers s1 = offers s" "assignments s1 = assignments s" "idem s1 = idem s"
    by (auto simp: closeOpen_def)
  show ?thesis
  proof (cases x)
    case None
    then show ?thesis using assms c s1 by (simp add: closeInTxn_def)
  next
    case (Some h)
    obtain u s2 b where i: "insertItinerary ?i (computeStops (p_originLat pool) (p_originLng pool) (listMembers s1 ?i)) s1 = Inr (u, s2)"
      and e: "enqueueOutbox (pool_dispatch_message ?i h reason) xid now s2 = Inr (b, s')"
      using assms c Some by (auto simp: closeInTxn_def split: sum.splits)
    show ?thesis using insertItinerary_tables [OF i] enqueue_tables [OF e] s1 by simp
  qed
qed

lemma completeIn_idem: "idem_ok s \<Longrightarrow> idem_ok (complete_seat ik i out clk s)"
  by (cases ik) (auto simp: complete_seat_def intro: completeIn_ok)

lemma open_tx_frame:
  assumes "open_tx o_p i xid tmo quote ik now clk s = Inr (res, s')" "idem_ok s"
  shows "quiet s s' \<and> idem_ok s'"
  using assms(1)
proof (cases rule: open_tx_cases)
  case (opened s1 s2 s3 q b)
  note t = insertOpenPool_tables(1) [OF opened(1)] insert_member_tables [OF opened(3)] enqueue_tables [OF opened(4)]
  have "quiet s s'" by (rule quiet_tables) (simp_all add: opened(6) t)
  moreover have "idem_ok s3" using assms(2) idem_ok_cong [of s3 s] by (simp add: t)
  ultimately show ?thesis using completeIn_idem by (simp add: opened(6))
qed (use assms in simp)

lemma join_tx_frame:
  assumes "join_tx i j quote ik xid now clk s = Inr (res, s')" "pools_ok s" "idem_ok s"
  shows "quiet s s' \<and> idem_ok s'"
  using assms(1)
proof (cases rule: join_tx_cases)
  case (seat pool q)
  show ?thesis
    using seat(5)
  proof (cases rule: seat_joiner_cases)
    case (seated p s1 g s2)
    have pid: "p_rideId pool = i" using row_key [OF seat(1)] by simp
    have s1: "offers s1 = offers s" "assignments s1 = assignments s" "idem s1 = idem s"
      by (rule insert_member_tables [OF seated(1)])+
    have s2: "offers s2 = offers s1 \<and> assignments s2 = assignments s1 \<and> idem s2 = idem s1"
    proof (cases "p_maxSeats pool \<le> p_seatCount p + 1")
      case True
      with seated(3) have "closeInTxn pool ClosedFull xid now s1 = Inr (g, s2)" by simp
      then show ?thesis by (rule closeInTxn_tables)
    qed (use seated(3) in simp)
    have "quiet s s'" by (rule quiet_tables) (simp_all add: seated(5) s1 s2)
    moreover have "idem_ok s2" using assms(3) idem_ok_cong [of s2 s] by (simp add: s1 s2)
    ultimately show ?thesis using completeIn_idem by (simp add: seated(5))
  qed (use assms in simp)
qed (use assms in simp)

section \<open>Intents\<close>

lemma insert_member_calm:
  assumes "insert_member_row m now s = Inr (u, s')"
  shows "calm s s'"
  using assms
proof (cases rule: insert_member_row_cases)
  case (1 p f)
  let ?s1 = "s\<lparr>pool_members := pool_members s @ [m]\<rparr>"
  have "calm s ?s1" by (rule calm_same) simp_all
  moreover have "calm ?s1 s'"
    unfolding 1(12) by (rule update_pools_calm) (simp_all add: bump_def add_seat_def pool_disp_def)
  ultimately show ?thesis by (rule calm_trans)
qed

lemma intents_complete: "intents_ok s \<Longrightarrow> intents_ok (complete_seat ik i out clk s)"
proof -
  assume ok: "intents_ok s"
  have "disp (complete_seat ik i out clk s) = disp s" by (rule disp_cong) simp_all
  with ok show ?thesis by (simp add: intents_ok_def uuid_ids_def)
qed

lemma intents_open_pool:
  assumes "insertOpenPool p s = Inr (u, s')" "intents_ok s" "p_poolState p = PoolOpen" "isUuid (p_rideId p)"
  shows "intents_ok s'"
proof -
  note t = insertOpenPool_tables [OF assms(1)]
  have "disp s' = disp s"
  proof
    show "disp s' x = disp s x" for x
    proof (cases x)
      case (Shared j)
      have "pool_disp p = None" using assms(3) by (simp add: pool_disp_def)
      then show ?thesis using t(2) by (auto simp: Shared t(1) row_append_new row_None_iff [THEN iffD2])
    qed (simp add: t(1))
  qed
  then show ?thesis using assms(2,4) by (simp add: intents_ok_def uuid_ids_def t(1))
qed

lemma open_tx_intents:
  assumes "open_tx o_p i xid tmo quote ik now clk s = Inr (res, s')" "intents_ok s" "isUuid i"
  shows "intents_ok s'"
  using assms(1)
proof (cases rule: open_tx_cases)
  case (opened s1 s2 s3 q b)
  have "intents_ok s1" using assms by (intro intents_open_pool [OF opened(1)]) simp_all
  then have 2: "intents_ok s2" by (rule intents_calm [OF insert_member_calm [OF opened(3)]])
  have "intents_ok s3"
    by (rule intents_enqueue [OF opened(4) 2])
      (use 2 assms(3) in \<open>auto simp: intents_ok_def pool_expire_message_def\<close>)
  then show ?thesis by (simp add: opened(6) intents_complete)
qed (use assms in simp)

lemma closeInTxn_intents:
  assumes c: "closeInTxn pool reason xid now s = Inr (g, s')" and row: "pool_row s (p_rideId pool) = Some pool"
    and st: "p_poolState pool = PoolOpen" "p_claimedByDriverId pool = None" "0 \<le> p_dispatchGeneration pool"
    and dist: "distinct (map p_rideId (shared_rides s))" and r: "claimable_pool reason" and ok: "intents_ok s"
  shows "intents_ok s'"
proof (rule closeInTxn_cases [OF c row st(1) dist])
  fix b stops and s1 :: db
  let ?i = "p_rideId pool" and ?g = "p_dispatchGeneration pool + 1"
  let ?s2 = "s1\<lparr>ride_stops := ride_stops s1 @ map (stop_row ?i) stops\<rparr>"
  assume s1: "s1 = update_pools (open_at ?i) (close_row reason now) now s"
    and e: "enqueueOutbox (pool_dispatch_message ?i ?g reason) xid now ?s2 = Inr (b, s')"
  have rows: "shared_rides s1 = upd (\<lambda>x. p_rideId x = ?i) (bump (close_row reason now)) (shared_rides s)"
    unfolding s1 update_pools_def using open_at_id [OF dist row st(1)] by simp
  have id: "p_rideId (bump (close_row reason now) x) = p_rideId x" for x by (simp add: bump_def)
  have views: "disp s1 = (disp s)(Shared ?i := pool_disp (bump (close_row reason now) pool))"
    by (rule pool_update_views(2) [OF dist row rows _ id]) (simp add: s1)
  have pd: "pool_disp (bump (close_row reason now) pool) = Some ?g"
    using r st(2) by (simp add: pool_disp_def bump_def close_row_def)
  have d2: "disp ?s2 = disp s1" by (rule disp_cong) simp_all
  have u: "isUuid ?i" using ok row_SomeD [OF row] by (auto simp: intents_ok_def uuid_ids_def list_all_iff)
  have ids: "map p_rideId (shared_rides s1) = map p_rideId (shared_rides s)" using id by (simp add: rows map_key_upd)
  show "intents_ok s'"
  proof (rule intents_enqueue [OF e ok])
    show "uuid_ids ?s2" using ok ids by (simp add: intents_ok_def uuid_ids_def s1)
    show "intended ob t g"
      if "disp ?s2 t = Some g" "\<not> intended (outbox s) t g"
        "has_intent ob (g_topic (pool_dispatch_message ?i ?g reason)) (g_aggregateId (pool_dispatch_message ?i ?g reason))
           (g_generation (pool_dispatch_message ?i ?g reason))" for t g ob
      using that ok unfolding d2 views pd
      by (auto simp: pool_dispatch_message_def intents_ok_def split: if_splits)
  qed (use u st(3) in \<open>simp_all add: pool_dispatch_message_def s1\<close>)
qed

lemma join_tx_intents:
  assumes "join_tx i j quote ik xid now clk s = Inr (res, s')" "pools_ok s" "core_ok s" "intents_ok s"
  shows "intents_ok s'"
  using assms(1)
proof (cases rule: join_tx_cases)
  case (seat pool q)
  show ?thesis
    using seat(5)
  proof (cases rule: seat_joiner_cases)
    case (seated p s1 g s2)
    let ?m = "new_member (p_rideId pool) j (sq_perSeatPrice q) (seat_key ik) now"
    have pid: "p_rideId pool = i" using row_key [OF seat(1)] by simp
    have i1: "intents_ok s1" using assms(4) by (rule intents_calm [OF insert_member_calm [OF seated(1)]])
    have ok1: "pools_ok s1" by (rule insert_member_ok [OF seated(1) assms(2)]) simp_all
    have core1: "core_ok s1" using insert_member_refines [OF seated(1) assms(3)] by (rule refinesD)
    have "intents_ok s2"
    proof (cases "p_maxSeats pool \<le> p_seatCount p + 1")
      case True
      let ?pool = "bump (add_seat ?m now) pool"
      have row1: "pool_row s1 i = Some ?pool"
        using seated(1)
      proof (cases rule: insert_member_row_cases)
        case (1 p f)
        then show ?thesis using seat(1) pid by (simp add: row_upd seat_row_def)
      qed
      have eq: "p_rideId ?pool = p_rideId pool" "p_originLat ?pool = p_originLat pool" "p_originLng ?pool = p_originLng pool"
        by (simp_all add: bump_def add_seat_def)
      then have "closeInTxn pool ClosedFull xid now s1 = closeInTxn ?pool ClosedFull xid now s1"
        unfolding closeInTxn_def by metis
      with True seated(3) have c: "closeInTxn ?pool ClosedFull xid now s1 = Inr (g, s2)" by simp
      have sh: "pool_shape ?pool (members_of s1 i) (findByRideId s1 i)" by (rule pools_ok_row [OF ok1 row1])
      have st: "p_poolState ?pool = PoolOpen" using seat(2) by (simp add: bump_def add_seat_def)
      with sh have st': "p_claimedByDriverId ?pool = None" "0 \<le> p_dispatchGeneration ?pool"
        by (simp_all add: pool_shape_def)
      show ?thesis
        by (rule closeInTxn_intents [OF c _ st st' _ _ i1]) (use row1 pid eq core1 in \<open>simp_all add: core_ok_def\<close>)
    qed (use seated(3) i1 in simp)
    then show ?thesis by (simp add: seated(5) intents_complete)
  qed (use assms in simp)
qed (use assms in simp)

lemma close_tx_frame:
  assumes "close_tx i reason xid now s = Inr (res, s')" "pools_ok s" "core_ok s" "intents_ok s" "claimable_pool reason"
  shows "quiet s s' \<and> intents_ok s' \<and> idem s' = idem s"
proof (cases "lockPool s i")
  case None
  then show ?thesis using assms by (simp add: close_tx_def)
next
  case (Some pool)
  then have row: "pool_row s i = Some pool" by (simp add: lockPool_def)
  then have pid: "p_rideId pool = i" by (rule row_key)
  have sh: "pool_shape pool (members_of s i) (findByRideId s i)" by (rule pools_ok_row [OF assms(2) row])
  consider (other) "s' = s" | (empty) "s' = snd (abortEmptyOpen i now s)"
    | (close) g where "p_poolState pool = PoolOpen" "closeInTxn pool reason xid now s = Inr (g, s')"
    using assms(1) Some by (auto simp: close_tx_def split: if_splits sum.splits prod.splits)
  then show ?thesis
  proof cases
    case empty
    have "calm s s'"
      unfolding empty abortEmptyOpen_def by (simp, rule update_pools_calm) (simp_all add: bump_def pool_disp_def)
    moreover have "quiet s s'" by (rule quiet_tables) (simp_all add: empty abortEmptyOpen_def)
    ultimately show ?thesis using assms(4) intents_calm by (auto simp: calm_def)
  next
    case close
    have "p_claimedByDriverId pool = None" "0 \<le> p_dispatchGeneration pool"
      using sh close(1) by (simp_all add: pool_shape_def)
    then have "intents_ok s'"
      using row pid assms(3-5) close by (intro closeInTxn_intents [OF close(2)]) (simp_all add: core_ok_def)
    then show ?thesis using closeInTxn_tables [OF close(2)] quiet_tables by simp
  qed (use assms in simp)
qed

lemma create_tx_frame:
  assumes "create_tx p rid xid now s = Inr (res, s')" "intents_ok s" "isUuid rid"
  shows "quiet s s' \<and> intents_ok s' \<and> idem s' = idem s"
  using assms(1)
proof (cases rule: create_tx_cases)
  case (new m b)
  let ?s1 = "s\<lparr>rides := rides s @ [new_ride p rid now]\<rparr>"
  have rid: "r_id (new_ride p rid now) = rid" by (simp add: new_ride_def)
  have d: "disp ?s1 = (disp s)(Solo rid := solo_disp (new_ride p rid now))"
  proof
    show "disp ?s1 t = ((disp s)(Solo rid := solo_disp (new_ride p rid now))) t" for t
      using new(2) by (cases t) (auto simp: row_append_new rid row_None_iff [THEN iffD2])
  qed
  have sd: "solo_disp (new_ride p rid now) = Some (if cp_rideType p = Scheduled then 0 else 1)"
    by (simp add: solo_disp_def new_ride_def)
  have "intents_ok s'"
  proof (rule intents_enqueue [OF new(8) assms(2)])
    show "uuid_ids ?s1" using assms(2,3) rid by (simp add: intents_ok_def uuid_ids_def)
    show "intended ob t g"
      if "disp ?s1 t = Some g" "\<not> intended (outbox s) t g" "has_intent ob (g_topic m) (g_aggregateId m) (g_generation m)" for t g ob
      using that assms(2) unfolding d sd new(7)
      by (auto simp: intents_ok_def ride_dispatch_message_def wake_message_def split: if_splits)
  qed (use assms(3) in \<open>simp_all add: new(7) ride_dispatch_message_def wake_message_def\<close>)
  moreover have "quiet s s'" by (rule quiet_tables) (simp_all add: enqueue_tables [OF new(8)])
  ultimately show ?thesis by (simp add: enqueue_tables [OF new(8)])
qed (use assms in simp)

lemma set_generation_disp:
  "solo_disp (set_generation g now r) = map_option (\<lambda>_. g) (solo_disp r)"
  by (simp add: solo_disp_def set_generation_def)

lemma rearm_frame:
  assumes "rearmScheduledRide i expected xid now ct s = Inr (res, s')" "intents_ok s" "rides_ok s"
  shows "quiet s s' \<and> intents_ok s' \<and> idem s' = idem s"
  using assms(1)
proof (cases rule: rearm_cases)
  case (retry r s2 b)
  let ?g = "r_dispatchGeneration r + 1"
  let ?P = "\<lambda>x. r_id x = i \<and> r_dispatchGeneration x = r_dispatchGeneration r"
  have rows: "rides s2 = upd ?P (set_generation ?g now) (rides s)" "shared_rides s2 = shared_rides s"
    by (simp_all add: retry(4))
  have r: "r \<in> set (rides s)" "r_id r = i" "ride_shape r" using rides_ok_row [OF assms(3) retry(1)] by auto
  have u: "isUuid i" using assms(2) r by (auto simp: intents_ok_def uuid_ids_def list_all_iff)
  have d: "disp s t = Some g \<or> t = Solo i \<and> g = ?g" if "disp s2 t = Some g" for t g
  proof (cases t)
    case (Solo k)
    then show ?thesis
      using that row_key [of r_id "rides s" k]
      by (auto simp: rows row_upd set_generation_disp bind_eq_Some_conv split: if_splits)
  qed (use that in \<open>simp add: rows\<close>)
  have "intents_ok s'"
  proof (rule intents_enqueue [OF retry(5) assms(2)])
    show "uuid_ids s2" using assms(2) by (simp add: intents_ok_def uuid_ids_def rows map_key_upd)
    show "intended ob t g"
      if "disp s2 t = Some g" "\<not> intended (outbox s) t g"
        "has_intent ob (g_topic (ride_dispatch_message i ?g)) (g_aggregateId (ride_dispatch_message i ?g))
          (g_generation (ride_dispatch_message i ?g))" for t g ob
      using d [OF that(1)] that(2,3) assms(2) retry(2)
      by (auto simp: intents_ok_def ride_dispatch_message_def rearmable_def)
  qed (use u retry(2) in \<open>simp_all add: retry(4) ride_dispatch_message_def rearmable_def\<close>)
  moreover have "quiet s s'"
    by (rule quietI [where P = "live_for (Solo i) None" and st = OfferRevoked and ct = ct])
      (use enqueue_tables [OF retry(5)] in \<open>simp_all add: retry(4)\<close>)
  moreover have "idem s' = idem s" using enqueue_tables [OF retry(5)] by (simp add: retry(4))
  ultimately show ?thesis by blast
qed (use assms in simp)

lemma wake_frame:
  assumes "intents_ok s" "rides_ok s"
  shows "quiet s (snd (wake_update i 1 now s)) \<and> intents_ok (snd (wake_update i 1 now s))
    \<and> idem (snd (wake_update i 1 now s)) = idem s"
proof -
  let ?s' = "snd (wake_update i 1 now s)"
  have eq: "?s' = s\<lparr>rides := upd (wakeable i 1) (set_generation 1 now) (rides s)\<rparr>" by (simp add: wake_update_def)
  have "intended (outbox s) t g" if d: "disp ?s' t = Some g" for t g
  proof (cases t)
    case (Solo k)
    with d obtain r where r: "ride_row s k = Some r" "solo_disp (if wakeable i 1 r then set_generation 1 now r else r) = Some g"
      by (auto simp: eq row_upd bind_eq_Some_conv)
    then obtain h where h: "solo_disp r = Some h" "h = g \<or> (h = 0 \<or> h = 1) \<and> g = 1"
      by (auto simp: set_generation_disp wakeable_def solo_disp_def split: if_splits)
    then have "disp s (Solo k) = Some h" using r(1) by simp
    then have "intended (outbox s) (Solo k) h" using assms(1) unfolding intents_ok_def by blast
    then show ?thesis using h Solo by auto
  next
    case (Shared k)
    then have "disp s t = Some g" using d by (simp add: eq)
    then show ?thesis using assms(1) unfolding intents_ok_def by blast
  qed
  then have "intents_ok ?s'" using assms(1) by (simp add: intents_ok_def uuid_ids_def eq map_key_upd)
  moreover have "quiet s ?s'" by (rule quiet_tables) (simp_all add: eq)
  ultimately show ?thesis by (simp add: eq)
qed

lemma abort_tx_frame: "quiet s (snd (abort_tx i gen now ct s)) \<and> calm s (snd (abort_tx i gen now ct s))"
proof -
  have c: "calm s (snd (abortUnclaimedPool i g now s))" for g
    unfolding abortUnclaimedPool_def by (simp, rule update_pools_calm) (simp_all add: bump_def pool_disp_def)
  have q: "quiet s (snd (abortUnclaimedPool i g now s))" for g
    by (rule quiet_tables) (simp_all add: abortUnclaimedPool_def)
  have r: "quiet s (snd (revokeLiveForTrip (Shared i) None ct (snd (abortUnclaimedPool i g now s))))" for g
    by (rule quietI [where P = "live_for (Shared i) None" and st = OfferRevoked and ct = ct]) (simp_all add: abortUnclaimedPool_def)
  obtain g where "snd (abort_tx i gen now ct s) = s
      \<or> snd (abort_tx i gen now ct s) = snd (abortUnclaimedPool i g now s)
      \<or> snd (abort_tx i gen now ct s) = snd (revokeLiveForTrip (Shared i) None ct (snd (abortUnclaimedPool i g now s)))"
  proof (cases "lockSharedTrip s i")
    case None
    then show ?thesis using that by (simp add: abort_tx_def)
  next
    case (Some p)
    then show ?thesis
      using that [of "p_dispatchGeneration p"]
      by (auto simp: abort_tx_def Let_def split: option.splits if_splits prod.splits bool.splits)
  qed
  then show ?thesis using c q r calm_trans [OF c revoke_frame(2)] by fastforce
qed

lemma confirm_tx_frame:
  assumes "confirm_tx i d n ty now s = Inr (res, s')" "pools_ok s"
  shows "quiet s s' \<and> calm s s'"
  using assms(1)
proof (cases rule: confirm_tx_cases)
  case (new p t x c)
  let ?k = "confirmed_count (findByRideId s i)" and ?len = "length (findByRideId s i)"
  note cf = confirm_front [OF assms(2) new(1,2,3,5,6)]
  have s': "s' = confirmed_db i d ?k ?len now s"
    by (rule confirm_writes_db(1) [OF new(7) assms(2) new(1,2) cf(1,2)]) (use new(4) cf(3) in simp)
  note sh = claimed_shape [OF assms(2) new(1,2)]
  have dist: "distinct (map p_rideId (shared_rides s))" using assms(2) by (simp add: pools_ok_def)
  have len: "2 \<le> ?len" using itinerary_length [OF sh(1)] sh(3) by (cases "members_of s i") simp_all
  have st: "?k = 0 \<longrightarrow> p_poolState p \<in> {ClosedFull, ClosedTimeout}" "?k \<noteq> 0 \<longrightarrow> p_poolState p = ClosedStarted"
    using sh(5,6) cf(1) len by (auto split: if_splits)
  note eq = confirmed_db_rows [OF dist new(1) st len cf(1), of d now, folded s']
  have "calm s s'"
  proof (rule calm_pools [OF eq(1,5)])
    show "pool_disp (confirm_row ?k ?len now q) = None \<or> pool_disp (confirm_row ?k ?len now q) = pool_disp q"
      if "q \<in> set (shared_rides s)" "p_rideId q = i" for q
      using row_mem [OF dist that(1)] that(2) new(1,2) by (simp add: pool_disp_def)
  qed (simp_all add: eq)
  moreover have "quiet s s'" by (rule quiet_same) (auto simp: eq set_del split: if_splits)
  ultimately show ?thesis by blast
qed simp

end
