(* ===== verification/Acceptance.thy ===== *)
theory Acceptance
  imports Pool_Frames
begin

text \<open>
  The offers' own invariant: an offer names an existing trip that has left the open state, an
  accepted offer's trip is never dispatchable again, and a guard row that names an offer carries that
  accepted offer's trip, driver and generation.
\<close>

definition offers_opened :: "db \<Rightarrow> bool" where
  "offers_opened s \<longleftrightarrow>
     (\<forall>x \<in> set (offers s). \<forall>i p. o_trip x = Shared i \<longrightarrow> pool_row s i = Some p \<longrightarrow> p_poolState p \<noteq> PoolOpen)"

definition accepts_ok :: "db \<Rightarrow> bool" where
  "accepts_ok s \<longleftrightarrow> accept_inv s \<and> offers_opened s"

lemma ride_evolves_id: "ride_evolves x y \<Longrightarrow> r_id y = r_id x"
  by (simp add: ride_evolves_def ride_booking_def)

lemma pool_evolves_id: "pool_evolves x y \<Longrightarrow> p_rideId y = p_rideId x"
  by (simp add: pool_evolves_def pool_route_def)

lemma evolves_ride_row:
  assumes "evolves s s'" "core_ok s'" "ride_row s i = Some r"
  shows "\<exists>r'. ride_row s' i = Some r' \<and> ride_evolves r r'"
  using assms by (intro grows_row [of ride_evolves "rides s"] ride_evolves_id) (simp_all add: evolves_def core_ok_def)

lemma evolves_pool_row:
  assumes "evolves s s'" "core_ok s'" "pool_row s i = Some p"
  shows "\<exists>p'. pool_row s' i = Some p' \<and> pool_evolves p p'"
  using assms by (intro grows_row [of pool_evolves "shared_rides s"] pool_evolves_id) (simp_all add: evolves_def core_ok_def)

lemma trip_exists_evolves: "evolves s s' \<Longrightarrow> core_ok s' \<Longrightarrow> trip_exists s t \<Longrightarrow> trip_exists s' t"
  by (cases t) (auto simp: trip_exists_def dest: evolves_ride_row evolves_pool_row)

lemma disp_None_evolves:
  assumes "evolves s s'" "core_ok s'" "trip_exists s t" "disp s t = None"
    and "\<And>i p. t = Shared i \<Longrightarrow> pool_row s i = Some p \<Longrightarrow> p_poolState p \<noteq> PoolOpen"
  shows "disp s' t = None"
proof (cases t)
  case (Solo i)
  then obtain r where r: "ride_row s i = Some r" using assms(3) by (auto simp: trip_exists_def)
  then obtain r' where "ride_row s' i = Some r'" "ride_evolves r r'" using evolves_ride_row [OF assms(1,2)] by blast
  then show ?thesis using assms(4) r Solo by (auto simp: ride_evolves_def)
next
  case (Shared i)
  then obtain p where p: "pool_row s i = Some p" using assms(3) by (auto simp: trip_exists_def)
  then obtain p' where p': "pool_row s' i = Some p'" "pool_evolves p p'" using evolves_pool_row [OF assms(1,2)] by blast
  have "pool_disp p' = None" using p' assms(4,5) p Shared by (auto simp: pool_evolves_def)
  then show ?thesis using p' Shared by simp
qed

lemma opened_evolves:
  assumes "evolves s s'" "core_ok s'" "trip_exists s (Shared i)" "pool_row s' i = Some p'"
    and "\<And>p. pool_row s i = Some p \<Longrightarrow> p_poolState p \<noteq> PoolOpen"
  shows "p_poolState p' \<noteq> PoolOpen"
proof -
  obtain p where p: "pool_row s i = Some p" using assms(3) by (auto simp: trip_exists_def)
  then have "pool_evolves p p'" using evolves_pool_row [OF assms(1,2) p] assms(4) by auto
  then show ?thesis using pool_evolves_open assms(5) [OF p] by blast
qed

lemma accepted_stays:
  assumes "evolves s s'" "x \<in> set (offers s)" "o_state x = OfferAccepted"
  shows "x \<in> set (offers s')"
proof -
  obtain x' where "x' \<in> set (offers s')" "offer_evolves x x'"
    using grows_mem [of offer_evolves "offers s" "offers s'" x] assms by (auto simp: evolves_def)
  then show ?thesis using assms(3) by (auto simp: offer_evolves_def is_live_def)
qed

text \<open>
  One argument for every transaction: each offer is an earlier one unless its trip is dispatchable,
  each newly accepted one has a trip that is not, each new guard row has its offer.
\<close>

lemma accepts_step:
  assumes ok: "accepts_ok s" and ev: "evolves s s'" and core: "core_ok s'"
    and old: "\<And>x'. x' \<in> set (offers s') \<Longrightarrow>
       (\<exists>x \<in> set (offers s). o_trip x' = o_trip x \<and> (o_state x' = OfferAccepted \<longrightarrow> x' = x \<or> disp s' (o_trip x) = None))
       \<or> is_live x'"
    and guard: "\<And>a oid. a \<in> set (assignments s') \<Longrightarrow> a_offerId a = Some oid \<Longrightarrow> a \<in> set (assignments s) \<or>
       (\<exists>x \<in> set (offers s'). o_id x = oid \<and> o_state x = OfferAccepted \<and> o_trip x = a_trip a
          \<and> o_driverId x = a_driverId a \<and> o_generation x = a_generation a)"
  shows "accepts_ok s'"
proof -
  have inv: "accept_inv s" and op: "offers_opened s" using ok by (simp_all add: accepts_ok_def)
  have live: "disp s' (o_trip x) = Some (o_generation x)" if "x \<in> set (offers s')" "is_live x" for x
    using core that by (auto simp: core_ok_def live_current_def)
  have 1: "trip_exists s' (o_trip x')" if "x' \<in> set (offers s')" for x'
    using old [OF that]
  proof
    assume "is_live x'"
    then show ?thesis using live [OF that] disp_facts(2) by blast
  qed (use inv trip_exists_evolves [OF ev core] in \<open>auto simp: accept_inv_def\<close>)
  have 2: "disp s' (o_trip x') = None" if x': "x' \<in> set (offers s')" "o_state x' = OfferAccepted" for x'
  proof -
    obtain x where x: "x \<in> set (offers s)" "o_trip x' = o_trip x" "x' = x \<or> disp s' (o_trip x) = None"
      using old [OF x'(1)] x'(2) by (auto simp: is_live_def)
    show ?thesis
    proof (cases "x' = x")
      case True
      then show ?thesis
        using inv op x x'(2) by (intro disp_None_evolves [OF ev core]) (auto simp: accept_inv_def offers_opened_def)
    qed (use x in auto)
  qed
  have 3: "offers_opened s'"
    unfolding offers_opened_def
  proof (intro ballI allI impI)
    fix x' i p' assume x': "x' \<in> set (offers s')" "o_trip x' = Shared i" "pool_row s' i = Some p'"
    show "p_poolState p' \<noteq> PoolOpen"
      using old [OF x'(1)]
    proof
      assume "is_live x'"
      then show ?thesis using live [OF x'(1)] x'(2,3) by (auto simp: pool_disp_def split: if_splits)
    next
      assume "\<exists>x \<in> set (offers s). o_trip x' = o_trip x \<and> (o_state x' = OfferAccepted \<longrightarrow> x' = x \<or> disp s' (o_trip x) = None)"
      then obtain x where x: "x \<in> set (offers s)" "o_trip x = Shared i" using x'(2) by auto
      show ?thesis
        by (rule opened_evolves [OF ev core _ x'(3)])
          (use x inv op in \<open>force simp: accept_inv_def, force simp: offers_opened_def\<close>)
    qed
  qed
  have 4: "\<exists>x \<in> set (offers s'). o_id x = oid \<and> o_state x = OfferAccepted \<and> o_trip x = a_trip a
      \<and> o_driverId x = a_driverId a \<and> o_generation x = a_generation a"
    if a: "a \<in> set (assignments s')" "a_offerId a = Some oid" for a oid
    using guard [OF a]
  proof
    assume "a \<in> set (assignments s)"
    then obtain x where "x \<in> set (offers s)" "o_id x = oid" "o_state x = OfferAccepted" "o_trip x = a_trip a"
        "o_driverId x = a_driverId a" "o_generation x = a_generation a"
      using inv a(2) unfolding accept_inv_def by blast
    then show ?thesis using accepted_stays [OF ev] by blast
  qed
  show ?thesis using 1 2 3 4 by (simp add: accepts_ok_def accept_inv_def)
qed

lemma accepts_quiet:
  assumes "accepts_ok s" "evolves s s'" "core_ok s'" "quiet s s'"
  shows "accepts_ok s'"
proof -
  obtain P st ct where q: "offers s' = upd P (resolve st ct) (offers s)" "st \<noteq> OfferAccepted"
      "\<forall>a \<in> set (assignments s'). a \<in> set (assignments s) \<or> a_offerId a = None"
    using assms(4) by (auto simp: quiet_def)
  show ?thesis
    by (rule accepts_step [OF assms(1-3)]) (use q in \<open>auto simp: set_upd\<close>)
qed

lemma createOffer_accepts:
  assumes "createOffer t d g w ttl locked oid now ct s = Inr (res, s')" "accepts_ok s" "core_ok s"
  shows "accepts_ok s'"
proof (rule accepts_step [OF assms(2) createOffer_evolves [OF assms(1)] refinesD [OF createOffer_refines [OF assms(1,3)]]])
  obtain os where fr: "s' = s\<lparr>offers := os\<rparr>" using createOffer_frame [OF assms(1)] by blast
  show "a \<in> set (assignments s) \<or> (\<exists>x \<in> set (offers s'). o_id x = i \<and> o_state x = OfferAccepted \<and> o_trip x = a_trip a
          \<and> o_driverId x = a_driverId a \<and> o_generation x = a_generation a)" if "a \<in> set (assignments s')" for a i
    using that by (simp add: fr)
  fix x' assume x': "x' \<in> set (offers s')"
  let ?n = "new_offer t d g w ttl oid now"
  have "set (offers s') \<subseteq> set (offers s) \<union> set (offers (expire_own_lapsed d locked ct s)) \<union> {?n}"
    using assms(1) by (auto simp: createOffer_def Let_def split: if_splits sum.splits elim!: insert_offer_cases)
  with x' have "x' \<in> set (offers s) \<or> x' \<in> set (offers (expire_own_lapsed d locked ct s)) \<or> x' = ?n" by blast
  then show "(\<exists>x \<in> set (offers s). o_trip x' = o_trip x \<and> (o_state x' = OfferAccepted \<longrightarrow> x' = x \<or> disp s' (o_trip x) = None))
       \<or> is_live x'"
    by (auto simp: expire_own_lapsed_def set_upd is_live_def new_offer_def)
qed

lemma claim_steps_accepts:
  assumes c: "claim_steps ofr d t now ct s = Inr ((res, revoked), s')" and ok: "accepts_ok s" "core_ok s" "rides_ok s"
    and ofr: "ofr \<in> set (offers s)" "o_state ofr = Offered" "o_driverId ofr = d" "o_trip ofr = t"
  shows "accepts_ok s'"
  using c
proof (cases rule: claim_steps_cases)
  case (ok s1 s2)
  have core: "core_ok s'" using claim_steps_ok [OF c assms(3,4)] refinesD by blast
  have s1: "rides s1 = rides s" "shared_rides s1 = shared_rides s" "offers s1 = offers s"
    using acquire_sel [OF ok(1)] by simp_all
  have d2: "disp s2 t = None \<and> offers s2 = offers s \<and> assignments s2 = assignments s1"
  proof (cases t)
    case (Solo i)
    with ok(2) obtain r where r: "claimSoloRow i d (o_generation ofr) now s1 = Inr (r, s2)" by auto
    have "distinct (map r_id (rides s1))" using assms(3) s1 by (simp add: core_ok_def)
    then have "disp s2 = (disp s1)(Solo i := None)" by (rule claimSoloRow_effect [OF r])
    then show ?thesis using claimSoloRow_sel [OF r] s1 Solo by (simp del: disp.simps)
  next
    case (Shared i)
    with ok(2) have r: "claimSharedRow i d (o_generation ofr) now s1 = Inr ((), s2)" by auto
    have "distinct (map p_rideId (shared_rides s1))" using assms(3) s1 by (simp add: core_ok_def)
    then have "disp s2 = (disp s1)(Shared i := None)" by (rule claimSharedRow_effect [OF r])
    then show ?thesis using claimSharedRow_sel [OF r] s1 Shared by (simp del: disp.simps)
  qed
  have d': "disp s' = disp s2" by (rule disp_cong) (simp_all add: ok(4))
  have os: "offers s' = upd (live_for t (Some (o_id ofr))) (resolve OfferRevoked ct)
      (upd (\<lambda>x. o_id x = o_id ofr \<and> is_live x) (resolve OfferAccepted ct) (offers s))"
    using d2 by (simp add: ok(4))
  have acc: "resolve OfferAccepted ct ofr \<in> set (offers s')"
  proof -
    let ?a = "resolve OfferAccepted ct ofr"
    have "?a \<in> set (upd (\<lambda>x. o_id x = o_id ofr \<and> is_live x) (resolve OfferAccepted ct) (offers s))"
      unfolding set_upd using ofr by (intro bexI [OF _ ofr(1)]) (simp add: is_live_def)
    then show ?thesis unfolding os set_upd [of _ "live_for t (Some (o_id ofr))"]
      by (intro bexI [of _ ?a]) (simp_all add: live_for_def)
  qed
  show ?thesis
  proof (rule accepts_step [OF assms(2) claim_steps_evolves [OF c] core])
    fix a oid assume a: "a \<in> set (assignments s')" "a_offerId a = Some oid"
    have "a \<in> set (assignments s1)" using a(1) d2 by (simp add: ok(4))
    then have "a \<in> set (assignments s) \<or> a_offerId a = Some (o_id ofr) \<and> a_trip a = t \<and> a_driverId a = d
        \<and> a_generation a = o_generation ofr"
      using ok(1) by (auto elim!: acquire_cases)
    then show "a \<in> set (assignments s) \<or> (\<exists>x \<in> set (offers s'). o_id x = oid \<and> o_state x = OfferAccepted
        \<and> o_trip x = a_trip a \<and> o_driverId x = a_driverId a \<and> o_generation x = a_generation a)"
      using acc a(2) ofr by (auto intro!: bexI [OF _ acc])
  next
    fix x' assume x': "x' \<in> set (offers s')"
    obtain y where y: "y \<in> set (offers s)" "x' = y \<or> o_trip x' = o_trip y \<and> (o_state x' = OfferAccepted \<longrightarrow> o_id y = o_id ofr)"
    proof -
      let ?in = "upd (\<lambda>x. o_id x = o_id ofr \<and> is_live x) (resolve OfferAccepted ct) (offers s)"
      obtain z where z: "z \<in> set ?in" "x' = z \<or> x' = resolve OfferRevoked ct z"
        using x' unfolding os set_upd [of _ _ _ ?in] by auto
      obtain y where y: "y \<in> set (offers s)" "z = y \<or> z = resolve OfferAccepted ct y \<and> o_id y = o_id ofr"
        using z(1) unfolding set_upd by auto
      have "x' = y \<or> o_trip x' = o_trip y \<and> (o_state x' = OfferAccepted \<longrightarrow> o_id y = o_id ofr)"
        using y(2) z(2) by auto
      then show ?thesis using y(1) that by blast
    qed
    show "(\<exists>x \<in> set (offers s). o_trip x' = o_trip x \<and> (o_state x' = OfferAccepted \<longrightarrow> x' = x \<or> disp s' (o_trip x) = None))
       \<or> is_live x'"
    proof (cases "x' = y")
      case False
      then have "o_trip x' = o_trip y" "o_state x' = OfferAccepted \<longrightarrow> y = ofr"
        using y assms(3) ofr(1) by (auto simp: core_ok_def offer_keys_def distinct_map inj_on_def)
      then show ?thesis using y(1) d2 d' ofr(4) by auto
    qed (use y in auto)
  qed
qed (use assms in simp_all)

lemma acceptInTx_accepts:
  assumes c: "acceptInTx oid d t now ct s = Inr ((res, revoked), s')" and ok: "accepts_ok s" "core_ok s" "rides_ok s"
    and t: "\<And>x. offer_row s oid = Some x \<Longrightarrow> o_trip x = t"
  shows "accepts_ok s'"
proof -
  have q: "quiet s s' \<Longrightarrow> accepts_ok s'"
    using accepts_quiet [OF ok(1) acceptInTx_evolves [OF c]] acceptInTx_ok [OF c ok(2,3)] refinesD by blast
  from c show ?thesis
  proof (cases rule: acceptInTx_cases)
    case (claim ofr seats)
    show ?thesis
      by (rule claim_steps_accepts [OF claim(8) ok _ claim(4,3) t [OF claim(1)]]) (use row_SomeD [OF claim(1)] in simp)
  qed (use ok q resolveLive_frame in auto)
qed

text \<open>The views after a first accept.\<close>

lemma accept_effect:
  assumes c: "acceptInTx oid d t now ct s = Inr ((Inr r, revoked), s')" and n: "\<not> ac_replay r"
    and dist: "distinct (map r_id (rides s))" "distinct (map p_rideId (shared_rides s))"
  shows "trip_driver s' = (trip_driver s)(t \<mapsto> d)" "disp s' = (disp s)(t := None)"
proof -
  obtain ofr where cl: "claim_steps ofr d t now ct s = Inr ((Inr r, revoked), s')"
    using c
  proof (cases rule: acceptInTx_cases)
    case same
    with c n show ?thesis
      using that by (auto simp: acceptInTx_def rejected_def split: option.splits if_splits sum.splits)
  qed (use that in auto)
  then obtain s1 s2 where 1: "acquire d t (Some (o_id ofr)) (o_generation ofr) now s = Inr (AcquireOk, s1)"
      "case t of Solo i \<Rightarrow> \<exists>r. claimSoloRow i d (o_generation ofr) now s1 = Inr (r, s2)
        | Shared i \<Rightarrow> claimSharedRow i d (o_generation ofr) now s1 = Inr ((), s2)"
      "s' = snd (revokeLiveForTrip t (Some (o_id ofr)) ct (snd (resolveLive (o_id ofr) OfferAccepted ct s2)))"
    by (cases rule: claim_steps_cases) auto
  have s1: "rides s1 = rides s" "shared_rides s1 = shared_rides s" using acquire_sel [OF 1(1)] by simp_all
  then have v1: "trip_driver s1 = trip_driver s" "disp s1 = disp s" by (auto intro: trip_driver_cong disp_cong)
  have "trip_driver s2 = (trip_driver s1)(t \<mapsto> d) \<and> disp s2 = (disp s1)(t := None)"
  proof (cases t)
    case (Solo i)
    with 1(2) obtain q where q: "claimSoloRow i d (o_generation ofr) now s1 = Inr (q, s2)" by auto
    then show ?thesis using dist(1) s1(1) Solo by (auto elim!: claimSoloRow_effect simp del: trip_driver.simps disp.simps)
  next
    case (Shared i)
    with 1(2) have q: "claimSharedRow i d (o_generation ofr) now s1 = Inr ((), s2)" by auto
    then show ?thesis using dist(2) s1(2) Shared by (auto elim!: claimSharedRow_effect simp del: trip_driver.simps disp.simps)
  qed
  moreover have "trip_driver s' = trip_driver s2" "disp s' = disp s2"
    by (rule trip_driver_cong disp_cong; simp add: 1(3))+
  ultimately show "trip_driver s' = (trip_driver s)(t \<mapsto> d)" "disp s' = (disp s)(t := None)" using v1 by simp_all
qed

end
