(* ===== verification/System.thy ===== *)
theory System
  imports Acceptance
begin

text \<open>
  The whole backend as one transition system: a step is one committed transaction of one of the
  services, in any order and on any arguments. \<open>sys_ok\<close> collects the invariants of the components;
  every step keeps it, evolves the rows and refines the abstract dispatch machine.
\<close>

section \<open>Tables the solo transactions leave alone\<close>

definition same_pools :: "db \<Rightarrow> db \<Rightarrow> bool" where
  "same_pools s s' \<longleftrightarrow>
     shared_rides s' = shared_rides s \<and> pool_members s' = pool_members s \<and> ride_stops s' = ride_stops s"

lemma same_pools_ok: "same_pools s s' \<Longrightarrow> pools_ok s \<Longrightarrow> pools_ok s'"
  using pools_ok_cong [of s' s] by (simp add: same_pools_def)

lemma same_pools_refl [simp]: "same_pools s s"
  by (simp add: same_pools_def)

lemma enqueue_same_pools: "enqueueOutbox m xid now s = Inr (b, s') \<Longrightarrow> same_pools s s'"
  by (erule enqueueOutbox_cases) (simp_all add: same_pools_def)

lemma create_tx_same_pools:
  assumes "create_tx p rid xid now s = Inr (res, s')"
  shows "same_pools s s'"
  using assms
proof (cases rule: create_tx_cases)
  case (new m b)
  then show ?thesis using enqueue_same_pools [OF new(8)] by (simp add: same_pools_def)
qed simp

lemma claimSolo_same_pools:
  assumes "claimSolo i d now ct s = Inr (res, s')"
  shows "same_pools s s'"
proof (cases res)
  case None
  with assms have "s' = s"
    by (auto simp: claimSolo_def Let_def split: option.splits if_splits sum.splits dest: acquire_not_ok)
  then show ?thesis by simp
next
  case (Some r')
  with assms obtain g s1 s2 where c: "acquire d (Solo i) None g now s = Inr (AcquireOk, s1)"
      "claimSoloRow i d g now s1 = Inr (r', s2)" "s' = snd (revokeLiveForTrip (Solo i) None ct s2)"
    by (auto simp: claimSolo_def Let_def split: option.splits if_splits sum.splits)
  show ?thesis using acquire_sel [OF c(1)] claimSoloRow_sel [OF c(2)] by (simp add: same_pools_def c(3))
qed

lemma markNoDriver_same_pools: "same_pools s (snd (markNoDriver i gen now ct s))"
  by (auto simp: markNoDriver_def Let_def same_pools_def split: option.splits prod.splits)
    (metis revoke_sel snd_conv set_ride_sel)+

lemma transition_same_pools: "transition i d a b clk s = (res, s') \<Longrightarrow> same_pools s s'"
  by (erule transition_cases) (auto simp: Let_def same_pools_def)

lemma applyEvent_same_pools: "same_pools s (snd (applyEvent i d ev clk s))"
proof (cases "transition_spec ev")
  case None
  then show ?thesis by (simp add: applyEvent_def)
next
  case (Some ab)
  obtain a b where ab: "ab = (a, b)" by force
  obtain res s' where t: "transition i d a b clk s = (res, s')" by force
  then have "snd (applyEvent i d ev clk s) = s'"
    using Some ab by (auto simp: applyEvent_def split: sum.splits)
  then show ?thesis using transition_same_pools [OF t] by simp
qed

lemma cancel_same_pools: "cancel i who actorId isNoShow reason wait clk ct s = (res, s') \<Longrightarrow> same_pools s s'"
  by (erule cancel_cases) (auto simp: Let_def same_pools_def split: option.splits)

lemma rearm_same_pools:
  assumes "rearmScheduledRide i expected xid now ct s = Inr (res, s')"
  shows "same_pools s s'"
  using assms
proof (cases rule: rearm_cases)
  case (retry r s2 b)
  then show ?thesis using enqueue_same_pools [OF retry(5)] by (simp add: same_pools_def)
qed simp

section \<open>Steps\<close>

text \<open>
  Premises: a generated id is a well-formed uuid; the trip an accept carries is the one read from the
  offer; a wake job comes from a wake intent, or from the fallback generation 1; the timeout job
  closes with its own reason; an intent the reconciler writes again names a known topic and a trip. Accounts and vehicles belong to other services and may change freely.
\<close>

inductive db_step :: "db \<Rightarrow> db \<Rightarrow> bool" where
  s_create: "create_tx p rid xid now s = Inr (created, s') \<Longrightarrow> isUuid rid \<Longrightarrow> db_step s s'"
| s_claim_solo: "claimSolo i d now ct s = Inr (claimed_row, s') \<Longrightarrow> db_step s s'"
| s_no_driver: "db_step s (snd (markNoDriver i gen now ct s))"
| s_event: "db_step s (snd (applyEvent i d ev clk s))"
| s_cancel: "db_step s (snd (cancelService i who actorId isNoShow reason wait clk ct s))"
| s_rearm: "rearmScheduledRide i expected xid now ct s = Inr (retried, s') \<Longrightarrow> db_step s s'"
| s_wake: "g = 1 \<or> has_intent (outbox s) RideWakeSchedule i g \<Longrightarrow> db_step s (snd (wake_update i g now s))"
| s_offer: "createOffer t d g w ttl locked oid now ct s = Inr (offered, s') \<Longrightarrow> db_step s s'"
| s_decline: "db_step s (snd (decline oid d ct s))"
| s_expire: "db_step s (snd (expireLapsed locked ct s))"
| s_accept: "acceptInTx oid d t now ct s = Inr (answer, s') \<Longrightarrow>
     (\<And>x. offer_row s oid = Some x \<Longrightarrow> o_trip x = t) \<Longrightarrow> db_step s s'"
| s_open: "open_tx o_p i xid tmo quote ik now clk s = Inr (result, s') \<Longrightarrow> isUuid i \<Longrightarrow> db_step s s'"
| s_join: "join_tx i j quote ik xid now clk s = Inr (outcome, s') \<Longrightarrow> db_step s s'"
| s_close: "close_tx i ClosedTimeout xid now s = Inr (outcome, s') \<Longrightarrow> db_step s s'"
| s_abort: "db_step s (snd (abort_tx i gen now ct s))"
| s_confirm: "confirm_tx i d n ty now s = Inr (confirmed, s') \<Longrightarrow> db_step s s'"
| s_relay: "relay_tx (outbox s) ob \<Longrightarrow> db_step s (s\<lparr>outbox := ob\<rparr>)"
| s_enqueue: "enqueueOutbox m xid now s = Inr (b, s') \<Longrightarrow> known_topic (g_topic m) \<Longrightarrow> isUuid (g_aggregateId m) \<Longrightarrow>
     (g_topic m = RideWakeSchedule \<longrightarrow> g_generation m = 1) \<Longrightarrow> db_step s s'"
| s_claim_key: "insert_claim sc fp now s = Inr (b, s') \<Longrightarrow> db_step s s'"
| s_reclaim: "db_step s (snd (reclaimStale sc fp clk now s))"
| s_release: "db_step s (release_claim sc s)"
| s_complete: "db_step s (completeIn sc rid resp clk s)"
| s_accounts: "db_step s (s\<lparr>users := us, drivers := ds, vehicles := vs\<rparr>)"

definition db_init :: "db \<Rightarrow> bool" where
  "db_init s \<longleftrightarrow> rides s = [] \<and> shared_rides s = [] \<and> ride_stops s = [] \<and> pool_members s = [] \<and> offers s = []
     \<and> assignments s = [] \<and> outbox s = [] \<and> idem s = []"

definition sys_ok :: "db \<Rightarrow> bool" where
  "sys_ok s \<longleftrightarrow> core_ok s \<and> rides_ok s \<and> pools_ok s \<and> accepts_ok s \<and> intents_ok s \<and> idem_ok s"

definition good_step :: "db \<Rightarrow> db \<Rightarrow> bool" where
  "good_step s s' \<longleftrightarrow> sys_ok s' \<and> evolves s s' \<and> refines s s'"

lemma init_sys_ok: "db_init s \<Longrightarrow> sys_ok s"
proof -
  assume i: "db_init s"
  have "guard_of s = trip_driver s"
  proof
    show "guard_of s t = trip_driver s t" for t using i by (cases t) (simp_all add: db_init_def guard_of_def)
  qed
  moreover have "disp s t = None" for t using i by (cases t) (simp_all add: db_init_def)
  ultimately show ?thesis
    using i by (simp add: sys_ok_def core_ok_def rides_ok_def pools_ok_def accepts_ok_def intents_ok_def idem_ok_def
        db_init_def guard_keys_def offer_keys_def live_current_def accept_inv_def offers_opened_def outbox_keys_def
        table_ok_def wakes_once_def uuid_ids_def members_ok_def stops_ok_def)
qed

text \<open>A quiet and calm step needs only its refinement and the row invariants.\<close>

lemma good_stepI:
  assumes "sys_ok s" "refines s s'" "rides_ok s'" "pools_ok s'" "evolves s s'" "quiet s s'" "intents_ok s'" "idem_ok s'"
  shows "good_step s s'"
  using assms accepts_quiet [of s s'] refinesD [OF assms(2)] by (simp add: good_step_def sys_ok_def)

lemma calm_idem: "calm s s' \<Longrightarrow> idem_ok s \<Longrightarrow> idem_ok s'"
  using idem_ok_cong [of s' s] by (simp add: calm_def)

lemma good_calm:
  assumes "sys_ok s" "refines s s'" "rides_ok s'" "pools_ok s'" "evolves s s'" "quiet s s'" "calm s s'"
  shows "good_step s s'"
  using assms intents_calm [OF assms(7)] calm_idem [OF assms(7)] by (intro good_stepI) (simp_all add: sys_ok_def)

text \<open>A step on the claim table or on the accounts.\<close>

lemma good_aside:
  assumes "sys_ok s" "rides s' = rides s" "shared_rides s' = shared_rides s" "pool_members s' = pool_members s"
    "ride_stops s' = ride_stops s" "offers s' = offers s" "assignments s' = assignments s" "outbox s' = outbox s" "idem_ok s'"
  shows "good_step s s'"
proof (rule good_stepI [OF assms(1)])
  have d: "disp s' = disp s" by (rule disp_cong) (simp_all add: assms)
  show "refines s s'" using assms by (intro refines_same) (simp_all add: sys_ok_def)
  show "rides_ok s'" using assms rides_ok_cong [of s' s] by (simp add: sys_ok_def)
  show "pools_ok s'" using assms pools_ok_cong [of s' s] by (simp add: sys_ok_def)
  show "evolves s s'" using assms by (intro evolves_same)
  show "quiet s s'" using assms by (intro quiet_tables)
  show "intents_ok s'" using assms d by (simp add: sys_ok_def intents_ok_def uuid_ids_def)
qed (rule assms)

lemma good_refl: "sys_ok s \<Longrightarrow> good_step s s"
  by (simp add: good_step_def sys_ok_def refines_refl)

section \<open>Every step is good\<close>

lemma sys_distinct: "sys_ok s \<Longrightarrow> distinct (map r_id (rides s))"
  by (simp add: sys_ok_def core_ok_def)

lemma accept_good:
  assumes c: "acceptInTx oid d t now ct s = Inr (answer, s')" and t: "\<And>x. offer_row s oid = Some x \<Longrightarrow> o_trip x = t"
    and ok: "sys_ok s"
  shows "good_step s s'"
proof -
  obtain res revoked where a: "acceptInTx oid d t now ct s = Inr ((res, revoked), s')"
    using c by (cases answer) simp
  have o: "core_ok s" "rides_ok s" "pools_ok s" "accepts_ok s" "intents_ok s" "idem_ok s" using ok by (simp_all add: sys_ok_def)
  note r = acceptInTx_ok [OF a o(1,2)]
  have "sys_ok s'"
    using r refinesD [of s s'] acceptInTx_pools [OF a o(3)] acceptInTx_accepts [OF a o(4,1,2) t]
      intents_calm [OF acceptInTx_calm [OF a] o(5)] calm_idem [OF acceptInTx_calm [OF a] o(6)]
    by (simp add: sys_ok_def)
  then show ?thesis using r acceptInTx_evolves [OF a] by (simp add: good_step_def)
qed

lemma offer_good:
  assumes c: "createOffer t d g w ttl locked oid now ct s = Inr (res, s')" and ok: "sys_ok s"
  shows "good_step s s'"
proof -
  have o: "core_ok s" "rides_ok s" "pools_ok s" "accepts_ok s" "intents_ok s" "idem_ok s" using ok by (simp_all add: sys_ok_def)
  obtain os where fr: "s' = s\<lparr>offers := os\<rparr>" using createOffer_frame [OF c] by blast
  have r: "refines s s'" by (rule createOffer_refines [OF c o(1)])
  have "rides_ok s'" "pools_ok s'"
    using o rides_ok_cong [of s' s] pools_ok_cong [of s' s] by (simp_all add: fr)
  then have "sys_ok s'"
    using refinesD [OF r] createOffer_accepts [OF c o(4,1)]
      intents_calm [OF createOffer_calm [OF c] o(5)] calm_idem [OF createOffer_calm [OF c] o(6)]
    by (simp add: sys_ok_def)
  then show ?thesis using r createOffer_evolves [OF c] by (simp add: good_step_def)
qed

lemma solo_good:
  assumes "sys_ok s" "refines s s' \<and> rides_ok s'" "same_pools s s'" "evolves s s'" "quiet s s' \<and> calm s s'"
  shows "good_step s s'"
  using assms same_pools_ok [OF assms(3)] by (intro good_calm [OF assms(1)]) (simp_all add: sys_ok_def)

lemma offers_good:
  assumes "sys_ok s" "refines s s'" "s' = s\<lparr>offers := os\<rparr>" "evolves s s'" "quiet s s' \<and> calm s s'"
  shows "good_step s s'"
  using assms rides_ok_cong [of s' s] by (intro solo_good [OF assms(1)]) (simp_all add: sys_ok_def same_pools_def)

lemma pool_good:
  assumes "sys_ok s" "refines s s' \<and> pools_ok s' \<and> rides s' = rides s" "evolves s s'" "quiet s s'" "intents_ok s'" "idem_ok s'"
  shows "good_step s s'"
  using assms rides_ok_cong [of s' s] by (intro good_stepI [OF assms(1)]) (simp_all add: sys_ok_def)

lemma db_step_good: "db_step s s' \<Longrightarrow> sys_ok s \<Longrightarrow> good_step s s'"
proof (induction rule: db_step.induct)
  case (s_create p rid xid now s created s')
  note c = s_create(1) and o = s_create(3) [unfolded sys_ok_def]
  have r: "refines s s' \<and> rides_ok s'" using create_tx_ok [OF c] o by simp
  have f: "quiet s s' \<and> intents_ok s' \<and> idem s' = idem s" using create_tx_frame [OF c _ s_create(2)] o by simp
  then have "idem_ok s'" using o idem_ok_cong [of s' s] by simp
  then show ?case
    using r f o same_pools_ok [OF create_tx_same_pools [OF c]] create_tx_evolves [OF c] by (intro good_stepI [OF s_create(3)]) simp_all
next
  case (s_claim_solo i d now ct s claimed_row s')
  then show ?case
    using claimSolo_ok claimSolo_same_pools claimSolo_evolves claimSolo_frame
    by (intro solo_good) (simp_all add: sys_ok_def)
next
  case (s_no_driver s i gen now ct)
  then show ?case
    using markNoDriver_ok [of s] by (intro solo_good markNoDriver_same_pools markNoDriver_evolves markNoDriver_frame)
      (simp_all add: sys_ok_def core_ok_def)
next
  case (s_event s i d ev clk)
  then show ?case
    using applyEvent_ok [of s] by (intro solo_good applyEvent_same_pools applyEvent_evolves applyEvent_frame)
      (simp_all add: sys_ok_def core_ok_def)
next
  case (s_cancel s i who actorId isNoShow reason wait clk ct)
  obtain res s' where c: "cancel i who actorId isNoShow reason wait clk ct s = (res, s')" by force
  then show ?case
    using s_cancel cancel_ok [OF c] cancel_same_pools [OF c] cancel_evolves [OF c] cancel_frame [OF c]
    by (intro solo_good) (simp_all add: sys_ok_def core_ok_def cancelService_snd)
next
  case (s_rearm i expected xid now ct s retried s')
  note c = s_rearm(1) and o = s_rearm(2) [unfolded sys_ok_def]
  have r: "refines s s' \<and> rides_ok s'" using rearm_ok [OF c] o by simp
  have f: "quiet s s' \<and> intents_ok s' \<and> idem s' = idem s" using rearm_frame [OF c] o by simp
  then have "idem_ok s'" using o idem_ok_cong [of s' s] by simp
  then show ?case
    using r f o same_pools_ok [OF rearm_same_pools [OF c]] rearm_evolves [OF c] sys_distinct [OF s_rearm(2)]
    by (intro good_stepI [OF s_rearm(2)]) simp_all
next
  case (s_wake g s i now)
  have g: "g = 1" using s_wake intents_wake_generation [of s i g] by (auto simp: sys_ok_def)
  let ?s' = "snd (wake_update i 1 now s)"
  note o = s_wake(2) [unfolded sys_ok_def]
  have r: "refines s ?s' \<and> rides_ok ?s'" using wake_ok o by simp
  have f: "quiet s ?s' \<and> intents_ok ?s' \<and> idem ?s' = idem s" using wake_frame o by simp
  then have "idem_ok ?s'" using o idem_ok_cong [of ?s' s] by simp
  moreover have "same_pools s ?s'" by (simp add: wake_update_def same_pools_def)
  ultimately show ?case
    unfolding g using r f o same_pools_ok [of s ?s'] wake_evolves by (intro good_stepI [OF s_wake(2)]) simp_all
next
  case (s_offer t d g w ttl locked oid now ct s offered s')
  then show ?case by (rule offer_good)
next
  case (s_decline s oid d ct)
  obtain os where "snd (decline oid d ct s) = s\<lparr>offers := os\<rparr>"
    using decline_ok [of s oid d ct] s_decline by (auto simp: sys_ok_def core_ok_def)
  then show ?case
    using s_decline by (intro offers_good decline_refines decline_evolves decline_frame) (simp_all add: sys_ok_def)
next
  case (s_expire s locked ct)
  obtain os where "snd (expireLapsed locked ct s) = s\<lparr>offers := os\<rparr>"
    by (simp add: expireLapsed_def Let_def)
  then show ?case
    using s_expire by (intro offers_good expireLapsed_refines expireLapsed_evolves expireLapsed_frame) (simp_all add: sys_ok_def)
next
  case (s_accept oid d t now ct s answer s')
  then show ?case by (intro accept_good) auto
next
  case (s_open o_p i xid tmo quote ik now clk s result s')
  note c = s_open(1) and o = s_open(3) [unfolded sys_ok_def]
  show ?case
    using open_tx_ok [OF c] open_tx_evolves [OF c] open_tx_frame [OF c] open_tx_intents [OF c _ s_open(2)] o
    by (intro pool_good [OF s_open(3)]) simp_all
next
  case (s_join i j quote ik xid now clk s outcome s')
  note c = s_join(1) and o = s_join(2) [unfolded sys_ok_def]
  show ?case
    using join_tx_ok [OF c] join_tx_evolves [OF c] join_tx_frame [OF c] join_tx_intents [OF c] o
    by (intro pool_good [OF s_join(2)]) simp_all
next
  case (s_close i xid now s outcome s')
  note c = s_close(1) and o = s_close(2) [unfolded sys_ok_def]
  have f: "quiet s s' \<and> intents_ok s' \<and> idem s' = idem s" using close_tx_frame [OF c] o by simp
  then show ?case
    using close_tx_ok [OF c] close_tx_evolves [OF c] o idem_ok_cong [of s' s]
    by (intro pool_good [OF s_close(2)]) simp_all
next
  case (s_abort s i gen now ct)
  note o = s_abort [unfolded sys_ok_def]
  let ?s' = "snd (abort_tx i gen now ct s)"
  show ?case
    using abort_tx_refines [of s] abort_tx_pools [of s] abort_tx_frame [of s] abort_tx_evolves [of s] o rides_ok_cong [of ?s' s]
    by (intro good_calm [OF s_abort]) simp_all
next
  case (s_confirm i d n ty now s confirmed s')
  note c = s_confirm(1) and o = s_confirm(2) [unfolded sys_ok_def]
  show ?case
    using confirm_tx_ok [OF c] confirm_tx_frame [OF c] confirm_tx_evolves [OF c] o rides_ok_cong [of s' s]
    by (intro good_calm [OF s_confirm(2)]) simp_all
next
  case (s_relay s ob)
  note o = s_relay(2) [unfolded sys_ok_def]
  let ?s' = "s\<lparr>outbox := ob\<rparr>"
  have "intents_ok ?s'" using relay_tx_intents [OF s_relay(1)] o by simp
  moreover have "refines s ?s'" using o by (intro refines_same) simp_all
  ultimately show ?case
    using o rides_ok_cong [of ?s' s] pools_ok_cong [of ?s' s] idem_ok_cong [of ?s' s]
    by (intro good_stepI [OF s_relay(2)]) (simp_all add: evolves_same quiet_tables)
next
  case (s_enqueue m xid now s b s')
  note o = s_enqueue(5) [unfolded sys_ok_def]
  have tables: "rides s' = rides s" "shared_rides s' = shared_rides s" "pool_members s' = pool_members s"
    "ride_stops s' = ride_stops s" "offers s' = offers s" "assignments s' = assignments s" "idem s' = idem s"
    using s_enqueue(1) by (auto elim!: enqueueOutbox_cases)
  have "0 \<le> g_generation m" using s_enqueue(1) by (simp add: enqueueOutbox_def split: if_splits)
  moreover have "intents_ok s" "uuid_ids s" "\<And>t g. disp s t = Some g \<Longrightarrow> intended (outbox s) t g"
    using o by (simp_all add: intents_ok_def)
  ultimately have "intents_ok s'"
    using intents_enqueue [OF s_enqueue(1) _ refl _ s_enqueue(2,3) _ s_enqueue(4)] by blast
  moreover have "refines s s'" using o tables by (intro refines_same) simp_all
  ultimately show ?case
    using o tables rides_ok_cong [of s' s] pools_ok_cong [of s' s] idem_ok_cong [of s' s]
    by (intro good_stepI [OF s_enqueue(5)]) (simp_all add: evolves_same quiet_tables)
next
  case (s_claim_key sc fp now s b s')
  have "idem_ok s'" using insert_claim_ok [OF s_claim_key(1)] s_claim_key(2) by (simp add: sys_ok_def)
  moreover have "\<exists>t. s' = s\<lparr>idem := t\<rparr>"
    using s_claim_key(1) by (auto simp: insert_claim_def split: if_splits intro: exI [of _ "idem s"])
  ultimately show ?case by (auto intro!: good_aside [OF s_claim_key(2)])
next
  case (s_reclaim s sc fp clk now)
  then show ?case
    using reclaim_ok [of s] by (intro good_aside) (simp_all add: sys_ok_def reclaimStale_def)
next
  case (s_release s sc)
  then show ?case
    using release_claim_ok [of s] by (intro good_aside) (simp_all add: sys_ok_def release_claim_def)
next
  case (s_complete s sc rid resp clk)
  then show ?case
    using completeIn_ok [of s] by (intro good_aside) (simp_all add: sys_ok_def completeIn_def)
next
  case (s_accounts s vs ds us)
  then show ?case
    using idem_ok_cong [of "s\<lparr>users := us, drivers := ds, vehicles := vs\<rparr>" s] by (intro good_aside) (simp_all add: sys_ok_def)
qed

interpretation sys: transition_system db_init db_step sys_ok
  by unfold_locales (auto simp: init_sys_ok good_step_def dest: db_step_good)

lemma run_good: "db_step\<^sup>*\<^sup>* s s' \<Longrightarrow> sys_ok s \<Longrightarrow> good_step s s'"
proof (induction rule: rtranclp_induct)
  case base
  then show ?case by (rule good_refl)
next
  case (step t u)
  then have t: "good_step s t" by simp
  then have "good_step t u" using db_step_good step(2) by (simp add: good_step_def)
  then show ?case using t by (auto simp: good_step_def intro: evolves_trans refines_trans)
qed

end
