(* ===== verification/Scenario.thy ===== *)
theory Scenario
  imports System
begin

text \<open>
  Two concrete runs of the model, for the witnesses: a solo ride that is created, offered, accepted
  and driven, and a pool of one seat that is opened, timed out, offered, accepted and completed.
\<close>

abbreviation "pas \<equiv> mk_uuid CHR ''1''"
abbreviation "drv \<equiv> mk_uuid CHR ''2''"
abbreviation "rid \<equiv> mk_uuid CHR ''3''"
abbreviation "oid \<equiv> mk_uuid CHR ''4''"
abbreviation "xid \<equiv> mk_uuid CHR ''5''"
abbreviation "yid \<equiv> mk_uuid CHR ''6''"

lemma w_uuids [simp]: "isUuid pas" "isUuid drv" "isUuid rid" "isUuid oid" "isUuid xid" "isUuid yid"
  by (simp_all add: isHex_def)

abbreviation w_vehicle :: vehicle where
  "w_vehicle \<equiv> \<lparr>v_id = yid, v_driverId = drv, v_type = CabSedan, v_regNo = ''KA01'', v_make = None, v_model = None, v_color = None,
     v_seats = 4, v_active = True, v_createdAt = 0\<rparr>"

definition w_start :: db where
  "w_start = \<lparr>users = [\<lparr>u_id = pas, u_role = RoleClient, u_status = UserActive\<rparr>,
       \<lparr>u_id = drv, u_role = RoleDriver, u_status = UserActive\<rparr>],
     drivers = [drv], vehicles = [w_vehicle],
     rides = [], shared_rides = [], ride_stops = [], pool_members = [], offers = [], assignments = [],
     outbox = [], idem = []\<rparr>"

section \<open>A solo ride\<close>

definition w_params :: create_params where
  "w_params = \<lparr>cp_passengerId = pas, cp_originLat = 12, cp_originLng = 77, cp_destLat = 13, cp_destLng = 77,
     cp_fareCents = 25000, cp_idempotencyKey = ''k'', cp_type = None, cp_scheduledFor = None,
     cp_idempotencyOperation = None, cp_requestFingerprint = Some ''f''\<rparr>"

definition w_ride :: ride where
  "w_ride = new_ride w_params rid 0"

definition w_created :: db where
  "w_created = w_start\<lparr>rides := [w_ride], outbox := [new_outbox_row (ride_dispatch_message rid 1) xid 0]\<rparr>"

definition w_offer :: offer where
  "w_offer = new_offer (Solo rid) drv 1 1 12000 oid 1"

definition w_offered :: db where
  "w_offered = w_created\<lparr>offers := [w_offer]\<rparr>"

definition w_accepted :: db where
  "w_accepted = w_offered\<lparr>rides := [bind_ride drv 1 5 w_ride], offers := [resolve OfferAccepted 5 w_offer],
     assignments := [\<lparr>a_driverId = drv, a_trip = Solo rid, a_offerId = Some oid, a_generation = 1, a_assignedAt = 5\<rparr>]\<rparr>"

lemmas w_solo = w_start_def w_params_def w_ride_def new_ride_def w_created_def cp_operation_def cp_rideType_def
  operationForType_def w_offer_def new_offer_def w_offered_def w_accepted_def is_live_def

lemmas accept_code = acceptInTx_def lock_trip_def lockForUpdate_def lockSoloTrip_def lockSharedTrip_def lapsed_def trip_check_def
  driverEligibility_def max_active_seats_def claim_steps_def acquire_def insert_assignment_def trip_exists_def
  claimSoloRow_def claimable_ride_def bind_ride_def claimSharedRow_def claimable_at_def markAccepted_def accept_conflict_def
  resolveLive_def revokeLiveForTrip_def live_for_def resolve_def Let_def

lemma w_create: "create_tx w_params rid xid 0 w_start = Inr (Some w_ride, w_created)"
  by (simp add: create_tx_def insert_ride_def w_solo enqueueOutbox_def ride_dispatch_message_def)

lemma w_make_offer: "createOffer (Solo rid) drv 1 1 12000 {} oid 1 1 w_created = Inr (Some (oid, 12001), w_offered)"
  by (simp add: createOffer_def dispatchable_def expire_own_lapsed_def insert_offer_def trip_exists_def w_solo)

lemma w_accept:
  "acceptInTx oid drv (Solo rid) 5 5 w_offered
   = Inr ((Inr \<lparr>ac_trip = Solo rid, ac_generation = 1, ac_replay = False\<rparr>, []), w_accepted)"
  by (simp add: w_solo accept_code)

lemma run_start: "db_init s \<Longrightarrow> reach db_init db_step s"
  by (rule reach_init)

lemma run_step: "reach db_init db_step s \<Longrightarrow> db_step s t \<Longrightarrow> reach db_init db_step t"
  by (rule reach_step)

lemma reach_run: "db_step\<^sup>*\<^sup>* s t \<Longrightarrow> reach db_init db_step s \<Longrightarrow> reach db_init db_step t"
  by (induction rule: rtranclp_induct) (auto intro: run_step)

text \<open>Rows stay, as later versions of themselves.\<close>

lemma run_ride_row:
  assumes "reach db_init db_step s" "db_step\<^sup>*\<^sup>* s s'" "ride_row s i = Some r"
  shows "\<exists>r'. ride_row s' i = Some r' \<and> ride_evolves r r'"
  using run_good [OF assms(2) sys.reach_inv [OF assms(1)]] evolves_ride_row [OF _ _ assms(3)]
  by (auto simp: good_step_def sys_ok_def)

lemma run_member:
  assumes "reach db_init db_step s" "db_step\<^sup>*\<^sup>* s s'" "m \<in> set (pool_members s)"
  shows "\<exists>m' \<in> set (pool_members s'). seat m' = seat m"
proof -
  have "grows member_evolves (pool_members s) (pool_members s')"
    using run_good [OF assms(2) sys.reach_inv [OF assms(1)]] by (simp add: good_step_def evolves_def)
  from grows_mem [OF this assms(3)] show ?thesis by (auto simp: member_evolves_def)
qed

lemma w_init: "db_init w_start"
  by (simp add: db_init_def w_start_def)

lemma w_reach_created: "reach db_init db_step w_created"
  by (rule run_step [OF run_start [OF w_init] s_create [OF w_create]]) simp

lemma w_reach_offered: "reach db_init db_step w_offered"
  by (rule run_step [OF w_reach_created s_offer [OF w_make_offer]])

lemma w_reach_accepted: "reach db_init db_step w_accepted"
  by (rule run_step [OF w_reach_offered s_accept [OF w_accept]])
    (simp add: w_solo)

section \<open>A pool\<close>

definition w_seat :: seat_member where
  "w_seat = \<lparr>mb_passengerId = pas, mb_originLat = 12, mb_originLng = 77, mb_destLat = 13, mb_destLng = 77, mb_joinedAt = 0\<rparr>"

definition w_quote :: seat_quote where
  "w_quote = \<lparr>sq_perSeatPrice = 9000, sq_seatMultiplier = 4 / 5, sq_detourFactor = 1\<rparr>"

definition w_open_params :: open_params where
  "w_open_params = \<lparr>op_maxSeats = 3, op_detourBudgetM = 800, op_opener = w_seat\<rparr>"

definition w_member :: pool_member where
  "w_member = new_member rid w_seat 9000 None 0"

definition w_pool :: shared_ride where
  "w_pool = (new_pool rid 12 77 13 77 3 800 60000 0)\<lparr>p_seatCount := 1, p_stateVersion := 1\<rparr>"

definition w_open :: db where
  "w_open = w_start\<lparr>shared_rides := [w_pool], pool_members := [w_member],
     outbox := [new_outbox_row (pool_expire_message rid 60000) xid 0]\<rparr>"

definition w_closed_pool :: shared_ride where
  "w_closed_pool = w_pool\<lparr>p_poolState := ClosedTimeout, p_poolClosedAt := Some 60000, p_dispatchGeneration := 1,
     p_updatedAt := 60000, p_stateVersion := 2\<rparr>"

definition w_stops :: "ride_stop list" where
  "w_stops = [\<lparr>s_rideId = rid, s_sequenceIndex = 0, s_passengerId = pas, s_type = Pickup, s_lat = 12, s_lng = 77, s_confirmedAt = None\<rparr>,
     \<lparr>s_rideId = rid, s_sequenceIndex = 1, s_passengerId = pas, s_type = Dropoff, s_lat = 13, s_lng = 77, s_confirmedAt = None\<rparr>]"

definition w_closed :: db where
  "w_closed = w_open\<lparr>shared_rides := [w_closed_pool], ride_stops := w_stops,
     outbox := [new_outbox_row (pool_expire_message rid 60000) xid 0,
       new_outbox_row (pool_dispatch_message rid 1 ClosedTimeout) yid 60000]\<rparr>"

definition w_pool_offer :: offer where
  "w_pool_offer = new_offer (Shared rid) drv 1 1 12000 oid 60001"

definition w_pool_offered :: db where
  "w_pool_offered = w_closed\<lparr>offers := [w_pool_offer]\<rparr>"

definition w_claimed_pool :: shared_ride where
  "w_claimed_pool = w_closed_pool\<lparr>p_claimedByDriverId := Some drv, p_claimedAt := Some 60005, p_updatedAt := 60005,
     p_stateVersion := 3\<rparr>"

definition w_claimed :: db where
  "w_claimed = w_pool_offered\<lparr>shared_rides := [w_claimed_pool], offers := [resolve OfferAccepted 60005 w_pool_offer],
     assignments := [\<lparr>a_driverId = drv, a_trip = Shared rid, a_offerId = Some oid, a_generation = 1, a_assignedAt = 60005\<rparr>]\<rparr>"

definition w_started :: db where
  "w_started = w_claimed\<lparr>shared_rides := [w_claimed_pool\<lparr>p_poolState := ClosedStarted, p_updatedAt := 60010, p_stateVersion := 5\<rparr>],
     ride_stops := [(w_stops ! 0)\<lparr>s_confirmedAt := Some 60010\<rparr>, w_stops ! 1]\<rparr>"

lemmas w_shared = w_start_def w_seat_def w_quote_def w_open_params_def w_member_def w_pool_def w_open_def w_closed_pool_def
  w_stops_def w_closed_def w_pool_offer_def w_pool_offered_def w_claimed_pool_def w_claimed_def w_started_def
  new_pool_def new_member_def new_offer_def is_live_def

lemma w_single_stops:
  "computeStops 12 77 [w_seat] = [pickup_stop w_seat 0, dropoff_stop w_seat 1]"
  by (simp add: computeStops_def computeStops_by_def sortPickupsByDistance_def orderDropoffsNearestNeighbour_def
      nearest_neighbour.simps nearest_index_def Let_def)

lemma w_open_pool:
  "open_tx w_open_params rid xid 60000 (\<lambda>_. Inr w_quote) None 0 0 w_start
   = Inr (Inr \<lparr>on_seatCount = 1, on_poolClosedAt = 60000, on_quote = w_quote\<rparr>, w_open)"
  by (simp add: open_tx_def insertOpenPool_def insertMember_def insert_member_row_def seat_key_def complete_seat_def
      enqueueOutbox_def pool_expire_message_def update_pools_def bump_def add_seat_def seat_row_def releases_def
      MAX_SAFE_INTEGER_def w_shared Let_def)

lemma w_keys: "message_key (pool_dispatch_message rid 1 ClosedTimeout) \<noteq> message_key (pool_expire_message rid 60000)"
  by (simp add: message_key_def pool_dispatch_message_def pool_expire_message_def outboxDedupeKey_def)

lemma w_close_rows:
  "closeOpen rid ClosedTimeout 60000 w_open = (Some 1, w_open\<lparr>shared_rides := [w_closed_pool]\<rparr>)"
  by (simp add: closeOpen_def update_pools_def releases_def close_row_def open_at_def bump_def w_shared)

lemma w_close:
  "close_tx rid ClosedTimeout yid 60000 w_open = Inr (CloseClosed, w_closed)"
proof -
  let ?s1 = "w_open\<lparr>shared_rides := [w_closed_pool]\<rparr>"
  have row: "lockPool w_open rid = Some w_pool" "p_rideId w_pool = rid" "p_originLat w_pool = 12" "p_originLng w_pool = 77"
    "p_poolState w_pool = PoolOpen" "p_seatCount w_pool = 1"
    by (simp_all add: lockPool_def w_shared)
  have m: "listMembers ?s1 rid = [w_seat]"
    by (simp add: listMembers_def members_of_def member_of_def w_shared)
  have i: "insertItinerary rid [pickup_stop w_seat 0, dropoff_stop w_seat (Suc 0)] ?s1 = Inr ((), ?s1\<lparr>ride_stops := w_stops\<rparr>)"
    by (simp add: insertItinerary_def stop_row_def pickup_stop_def dropoff_stop_def stop_pk_def w_shared)
  have e: "enqueueOutbox (pool_dispatch_message rid 1 ClosedTimeout) yid 60000 (?s1\<lparr>ride_stops := w_stops\<rparr>) = Inr (True, w_closed)"
    using w_keys by (simp add: enqueueOutbox_def w_closed_def w_open_def pool_dispatch_message_def new_outbox_row_def)
  show ?thesis by (simp add: close_tx_def closeInTxn_def row w_close_rows m w_single_stops i e)
qed

lemma w_make_pool_offer:
  "createOffer (Shared rid) drv 1 1 12000 {} oid 60001 60001 w_closed = Inr (Some (oid, 72001), w_pool_offered)"
  by (simp add: createOffer_def dispatchable_def expire_own_lapsed_def insert_offer_def trip_exists_def w_shared)

lemma w_claim:
  "acceptInTx oid drv (Shared rid) 60005 60005 w_pool_offered
   = Inr ((Inr \<lparr>ac_trip = Shared rid, ac_generation = 1, ac_replay = False\<rparr>, []), w_claimed)"
  by (simp add: accept_code update_pools_def releases_def bump_def countAll_def w_shared)

lemma w_pickup:
  "confirm_tx rid drv 0 Pickup 60010 w_claimed
   = Inr (Inr \<lparr>cf_stop = (w_stops ! 0)\<lparr>s_confirmedAt := Some 60010\<rparr>, cf_pendingAfter = 1, cf_rideCompleted = False,
       cf_duplicate = False, cf_completedAt = None, cf_version = 5, cf_poolStateChanged = True\<rparr>, w_started)"
  by (simp add: confirm_tx_def lockSharedTrip_def findByRideId_def confirm_writes_def confirm_def pending_at_def
      markRideStarted_def startable_def touchPool_def touch_row_def update_pools_def releases_def bump_def w_shared Let_def)

lemma w_reach_open: "reach db_init db_step w_open"
  by (rule run_step [OF run_start [OF w_init] s_open [OF w_open_pool]]) simp

lemma w_reach_closed: "reach db_init db_step w_closed"
  by (rule run_step [OF w_reach_open s_close [OF w_close]])

lemma w_reach_pool_offered: "reach db_init db_step w_pool_offered"
  by (rule run_step [OF w_reach_closed s_offer [OF w_make_pool_offer]])

lemma w_reach_claimed: "reach db_init db_step w_claimed"
  by (rule run_step [OF w_reach_pool_offered s_accept [OF w_claim]]) (simp add: w_shared)

lemma w_reach_started: "reach db_init db_step w_started"
  by (rule run_step [OF w_reach_claimed s_confirm [OF w_pickup]])

end
