(* ===== verification/Trip_Facts.thy ===== *)
theory Trip_Facts
  imports Scenario
begin

text \<open>
  What the trip operations do in a reachable database, for the properties: cancellation, forward
  transitions, repeated creation, and the decision table of a stop confirmation.
\<close>

section \<open>Leaving a solo trip\<close>

lemma ride_row_upd:
  assumes "rides s' = upd (\<lambda>r. r_id r = i) f (rides s)" "ride_row s i = Some r" "\<And>r. r_id (f r) = r_id r"
  shows "ride_row s' i = Some (f r)"
  using row_upd [of r_id f "\<lambda>r. r_id r = i" "rides s" i] assms row_key [OF assms(2)] by simp

lemma cancel_effect:
  assumes "cancel i who actorId isNoShow reason wait clk ct s = (Inr (r', revoked), s')"
  shows "ride_row s' i = Some r'" "r_status r' \<in> {Cancelled, No_show}"
    "trip_driver s' = (trip_driver s)(Solo i := None)" "disp s' = (disp s)(Solo i := None)"
proof -
  from assms obtain r to where r: "ride_row s i = Some r" "cancel_target who actorId isNoShow wait clk r = Inr to"
      "r' = cancel_ride to who reason clk r"
      "rides s' = upd (\<lambda>r. r_id r = i) (cancel_ride to who reason clk) (rides s)" "shared_rides s' = shared_rides s"
    by (rule cancel_cases) (auto simp: Let_def split: option.splits)
  have to: "to \<in> {Cancelled, No_show}" using cancel_targetD [OF r(2)] by auto
  show "ride_row s' i = Some r'" using ride_row_upd [OF r(4,1)] r(3) by simp
  show "r_status r' \<in> {Cancelled, No_show}" using to r(3) by simp
  show "trip_driver s' = (trip_driver s)(Solo i := None)"
    using trip_driver_ride [OF r(4,5) _ _ r(1)] row_key [OF r(1)] to by (auto simp: solo_driver_def)
  show "disp s' = (disp s)(Solo i := None)"
    using disp_ride [OF r(4,5) _ _ r(1)] row_key [OF r(1)] to by (auto simp: solo_disp_def)
qed

lemma cancel_target_no_show:
  "r_arrivedAt r = Some a \<Longrightarrow>
   cancel_target ActorDriver d True wait clk r = Inr to \<longleftrightarrow>
   r_driverId r = Some d \<and> r_status r = Arrived \<and> wait \<le> clk - a \<and> to = No_show"
  by (auto simp: cancel_target_def)

lemma arrived_at: "ride_shape r \<Longrightarrow> r_status r = Arrived \<Longrightarrow> r_arrivedAt r \<noteq> None"
  by (simp add: ride_shape_def past_def)

text \<open>A forward event moves the driver's own ride by one status.\<close>

lemma event_effect:
  assumes "applyEvent i d ev clk s = ((Inr r', eff), s')"
  obtains r b where "ride_row s i = Some r" "r_driverId r = Some d" "transition_spec ev = Some (r_status r, b)"
    "r' = advance_ride b clk r" "ride_row s' i = Some r'" "shared_rides s' = shared_rides s"
    "rides s' = upd (\<lambda>r. r_id r = i) (advance_ride b clk) (rides s)"
    "eff = RideStateChanged i b ActorDriver # (if b = Completed then [ClearCurrentRide d i] else [])"
proof -
  from assms obtain a b where sp: "transition_spec ev = Some (a, b)"
    by (auto simp: applyEvent_def split: option.splits)
  with assms have t: "transition i d a b clk s = (Inr r', s')"
    and eff: "eff = RideStateChanged i (r_status r') ActorDriver # (if r_status r' = Completed then [ClearCurrentRide d i] else [])"
    by (auto simp: applyEvent_def split: sum.splits prod.splits)
  from t obtain r where r: "ride_row s i = Some r" "r_driverId r = Some d" "r_status r = a" "r' = advance_ride b clk r"
      and s': "rides s' = upd (\<lambda>r. r_id r = i) (advance_ride b clk) (rides s)" "shared_rides s' = shared_rides s"
    by (rule transition_cases) (auto simp: Let_def)
  have "ride_row s' i = Some r'" using ride_row_upd [OF s'(1) r(1)] r(4) by simp
  then show thesis using sp r s' eff by (intro that [of r b]) simp_all
qed

lemma event_stage:
  "transition_spec ev = Some (a, b) \<Longrightarrow>
   rideStatusVersion a < rideStatusVersion b \<and> active_status a \<and> (active_status b \<longleftrightarrow> b \<noteq> Completed)"
  by (drule transition_specD) auto

section \<open>Creating again\<close>

text \<open>Whatever \<open>create\<close> returns is the stored row of the scope.\<close>

lemma create_scope:
  assumes "create p i x now s = Inr ((r, new, fp), s')"
  shows "r \<in> set (rides s') \<and> in_scope (cp_passengerId p) (cp_operation p) (cp_idempotencyKey p) r
    \<and> fp = r_requestFingerprint r \<and> cp_operation p \<noteq> OpShared"
proof -
  from assms obtain res where t: "create_tx p i x now s = Inr (res, s')"
    by (auto simp: create_def split: sum.splits option.splits)
  have op: "cp_operation p \<noteq> OpShared" using t by (auto simp: create_tx_def insert_ride_def new_ride_def split: if_splits)
  from t show ?thesis
  proof (cases rule: create_tx_cases)
    case replay
    with assms t op show ?thesis
      by (auto simp: create_def findByIdempotencyScope_def find_Some_iff split: option.splits)
  next
    case (new m b)
    then have "rides s' = rides s @ [new_ride p i now]" using enqueue_sel [OF new(8)] by simp
    moreover have "r = new_ride p i now" "fp = cp_requestFingerprint p" using assms t new(1) by (simp_all add: create_def)
    ultimately show ?thesis using op by (simp add: in_scope_def new_ride_def)
  qed
qed

lemma scope_find:
  assumes "rides_ok s" "r \<in> set (rides s)" "in_scope passenger oper key r"
  shows "findByIdempotencyScope s passenger oper key = Some (r, r_requestFingerprint r)"
proof -
  have "in_scope passenger oper key = (\<lambda>r. scope_of r = (passenger, oper, key))"
    by (simp add: in_scope_def scope_of_def fun_eq_iff)
  then show ?thesis
    using row_mem [of scope_of "rides s" r] assms
    by (simp add: findByIdempotencyScope_def rides_ok_def row_def scope_of_def)
qed

lemma create_again:
  assumes "rides_ok s" "r \<in> set (rides s)" "in_scope (cp_passengerId p) (cp_operation p) (cp_idempotencyKey p) r"
    and "cp_operation p \<noteq> OpShared"
  shows "create p i x now s = Inr ((r, False, r_requestFingerprint r), s)"
proof -
  have "list_ex (in_scope (cp_passengerId p) (cp_operation p) (cp_idempotencyKey p)) (rides s)"
    using assms(2,3) by (auto simp: list_ex_iff)
  then have "create_tx p i x now s = Inr (None, s)"
    using assms(4) by (simp add: create_tx_def insert_ride_def new_ride_def)
  then show ?thesis by (simp add: create_def scope_find [OF assms(1-3)])
qed

section \<open>Confirming a stop\<close>

text \<open>The stop with sequence number \<open>j\<close> is the \<open>j\<close>-th, and the first pending one is the front.\<close>

lemma find_sequence:
  assumes "itinerary_shape ms sts" "j < length sts"
  shows "List.find (\<lambda>x. s_sequenceIndex x = int j) sts = Some (sts ! j)"
  unfolding find_Some_iff using assms itinerary_index [OF assms(1)] by (intro exI [of _ j]) simp

lemma find_front:
  assumes "in_order sts" "confirmed_count sts < length sts"
  shows "List.find (\<lambda>x. s_confirmedAt x = None) sts = Some (sts ! confirmed_count sts)"
proof -
  have "s_confirmedAt (sts ! confirmed_count sts) = None" using in_order_nth [OF assms] by blast
  moreover have "s_confirmedAt (sts ! j) \<noteq> None" if "j < confirmed_count sts" for j
    using in_order_nth [OF assms(1), of j] assms(2) that by simp
  ultimately show ?thesis unfolding find_Some_iff using assms(2) by (intro exI [of _ "confirmed_count sts"]) blast
qed

text \<open>The driver's request for the \<open>j\<close>-th stop, before the writes.\<close>

lemma confirm_decision:
  fixes j :: nat
  assumes "pools_ok s" "pool_row s i = Some p" "p_claimedByDriverId p = Some d" "j < length (findByRideId s i)"
  defines "sts \<equiv> findByRideId s i"
  shows "confirm_tx i d (int j) (s_type (sts ! j)) now s =
    (if j < confirmed_count sts then
       Inr (Inr \<lparr>cf_stop = sts ! j, cf_pendingAfter = int (length sts) - int (confirmed_count sts),
         cf_rideCompleted = (p_poolState p = PoolCompleted), cf_duplicate = True,
         cf_completedAt = None, cf_version = p_stateVersion p, cf_poolStateChanged = False\<rparr>, s)
     else if j = confirmed_count sts then
       (case confirm_writes i d (int j) (s_type (sts ! j)) sts now s of Inl e \<Rightarrow> Inl e | Inr (c, s') \<Rightarrow> Inr (Inr c, s'))
     else Inr (Inl StopOutOfOrder, s))"
proof -
  note sh = claimed_shape [OF assms(1-3), folded sts_def]
  have j: "j < length sts" using assms(4) by (simp add: sts_def)
  have pend: "int (length (filter (\<lambda>x. s_confirmedAt x = None) sts)) = int (length sts) - int (confirmed_count sts)"
    using confirmed_count_le [of sts] by (simp add: pending_length of_nat_diff)
  note nth = in_order_nth [OF sh(2) j]
  show ?thesis
  proof (cases "j < confirmed_count sts")
    case True
    then show ?thesis
      using assms(2,3) nth pend find_sequence [OF sh(1) j]
      by (simp add: confirm_tx_def lockSharedTrip_def sts_def [symmetric] Let_def)
  next
    case False
    then have k: "confirmed_count sts < length sts" using j by simp
    have "s_sequenceIndex (sts ! confirmed_count sts) = int (confirmed_count sts)" by (rule itinerary_index [OF sh(1) k])
    then show ?thesis
      using assms(2,3) nth False find_sequence [OF sh(1) j] find_front [OF sh(2) k]
      by (auto simp: confirm_tx_def lockSharedTrip_def sts_def [symmetric] Let_def split: sum.splits)
  qed
qed

text \<open>The writes at the front never fail.\<close>

lemma touch_total: "pool_row s i \<noteq> None \<Longrightarrow> \<exists>v s'. touchPool i now s = Inr (v, s')"
  using row_upd [of p_rideId "bump (touch_row now)" "\<lambda>p. p_rideId p = i" "shared_rides s" i]
  by (auto simp: touchPool_def Let_def split: option.splits)

lemma confirm_pending:
  assumes "stops_ok s" "x \<in> set (ride_stops s)" "pending_at i n x"
  shows "fst (confirm i n now s) = Some (stamp now x)"
proof -
  have "\<exists>y. List.find (pending_at i n) (ride_stops s) = Some y"
    using assms(2,3) by (metis find_None_iff not_None_eq)
  then obtain y where y: "List.find (pending_at i n) (ride_stops s) = Some y" ..
  then have "y \<in> set (ride_stops s)" "pending_at i n y" by (auto simp: find_Some_iff)
  then have "y = x" using assms by (auto simp: stops_ok_def distinct_map inj_on_def pending_at_def stop_pk_def)
  then show ?thesis by (simp add: confirm_def y stamp_def)
qed

lemma confirm_writes_total:
  assumes ok: "pools_ok s" and row: "pool_row s i = Some p" "p_claimedByDriverId p = Some d"
    and k: "k = confirmed_count (findByRideId s i)" "k < length (findByRideId s i)"
  shows "\<exists>c s'. confirm_writes i d (int k) (s_type (findByRideId s i ! k)) (findByRideId s i) now s = Inr (c, s')
    \<and> \<not> cf_duplicate c \<and> cf_stop c = stamp now (findByRideId s i ! k)"
proof -
  let ?sts = "findByRideId s i" and ?x = "findByRideId s i ! k"
  note sh = claimed_shape [OF ok row]
  have "?x \<in> set (ride_stops s)" "s_rideId ?x = i" using nth_mem [OF k(2)] by (simp_all add: findByRideId_set)
  then have "fst (confirm i (int k) now s) = Some (stamp now ?x)"
    using ok itinerary_index [OF sh(1) k(2)] in_order_nth [OF sh(2) k(2)] k(1)
    by (intro confirm_pending) (simp_all add: pools_ok_def pending_at_def)
  then obtain s1 where c: "confirm i (int k) now s = (Some (stamp now ?x), s1)" by (metis prod.collapse)
  have r1: "pool_row s1 i = Some p" using confirm_sel(2) [of i "int k" now s] c row(1) by simp
  let ?first = "s_type ?x = Pickup \<and> list_all (\<lambda>x. s_confirmedAt x = None) ?sts"
  let ?s2 = "if ?first then markRideStarted i now s1 else s1"
  have st: "p_poolState p \<in> {ClosedFull, ClosedTimeout, ClosedStarted}" using sh(5,6) k by auto
  let ?p2 = "if ?first \<and> startable i p then bump (start_row now) p else p"
  have "pool_row ?s2 i = Some ?p2"
    using r1 row_upd [of p_rideId "bump (start_row now)" "startable i" "shared_rides s1" i]
    by (simp add: markRideStarted_def start_row_def [abs_def])
  moreover have "p_poolState ?p2 \<in> {ClosedFull, ClosedTimeout, ClosedStarted}" using st by simp
  ultimately obtain p2 where r2: "pool_row ?s2 i = Some p2" and st2: "p_poolState p2 \<in> {ClosedFull, ClosedTimeout, ClosedStarted}"
    by blast
  have mem: "p2 \<in> set (shared_rides ?s2)" "completable i p2" using row_SomeD [OF r2] st2 by (simp_all add: completable_def)
  let ?r = "markRideCompleted i now ?s2"
  have completes: "fst ?r = Some now" using mem by (auto simp: markRideCompleted_def list_ex_iff)
  have r3: "pool_row (snd ?r) i \<noteq> None"
    using r2 row_upd [of p_rideId "bump (complete_row now)" "completable i" "shared_rides ?s2" i]
    by (simp add: markRideCompleted_def complete_row_def [abs_def])
  let ?left = "int (length (filter (\<lambda>x. s_confirmedAt x = None) ?sts)) - 1"
  let ?s4 = "if ?left = 0 then snd (release d (Shared i) (snd ?r)) else ?s2"
  have "pool_row ?s4 i \<noteq> None" using r2 r3 by (simp add: release_def)
  from touch_total [OF this] obtain v s5 where "touchPool i now ?s4 = Inr (v, s5)" by blast
  then show ?thesis using completes unfolding confirm_writes_def c by (cases "?left = 0") (simp_all add: Let_def split_beta)
qed

text \<open>The whole effect of confirming the front stop.\<close>

lemma front_confirm:
  assumes ok: "pools_ok s" and row: "pool_row s i = Some p" "p_claimedByDriverId p = Some d"
    and k: "k = confirmed_count (findByRideId s i)" "k < length (findByRideId s i)"
  obtains c s' where
    "confirm_tx i d (int k) (s_type (findByRideId s i ! k)) now s = Inr (Inr c, s')" "\<not> cf_duplicate c"
    "cf_stop c = stamp now (findByRideId s i ! k)" "cf_rideCompleted c = (Suc k = length (findByRideId s i))"
    "findByRideId s' i = (findByRideId s i)[k := stamp now (findByRideId s i ! k)]"
    "pool_row s' i = Some (confirm_row k (length (findByRideId s i)) now p)"
    "pool_members s' = upd (\<lambda>m. Suc k = length (findByRideId s i) \<and> m_active m \<and> m_poolId m = i) (leave now) (pool_members s)"
    "rides s' = rides s" "trip_driver s' = (trip_driver s)(Shared i := (if Suc k = length (findByRideId s i) then None else Some d))"
proof -
  let ?sts = "findByRideId s i"
  let ?len = "length ?sts"
  have dist: "distinct (map p_rideId (shared_rides s))" using ok by (simp add: pools_ok_def)
  note sh = claimed_shape [OF ok row]
  obtain c s' where w: "confirm_writes i d (int k) (s_type (?sts ! k)) ?sts now s = Inr (c, s')"
      "\<not> cf_duplicate c" "cf_stop c = stamp now (?sts ! k)"
    using confirm_writes_total [OF ok row k] by blast
  then have tx: "confirm_tx i d (int k) (s_type (?sts ! k)) now s = Inr (Inr c, s')"
    using confirm_decision [OF ok row k(2)] k(1) by simp
  note db = confirm_writes_db [OF w(1) ok row, folded k(1), OF k(2) refl refl]
  have "2 \<le> ?len" using itinerary_length [OF sh(1)] sh(3) by (cases "members_of s i") simp_all
  moreover have "k = 0 \<longrightarrow> p_poolState p \<in> {ClosedFull, ClosedTimeout}" "k \<noteq> 0 \<longrightarrow> p_poolState p = ClosedStarted"
    using sh(5,6) k calculation by auto
  ultimately have eq: "shared_rides s' = upd (\<lambda>x. p_rideId x = i) (confirm_row k ?len now) (shared_rides s)"
    "pool_members s' = upd (\<lambda>m. Suc k = ?len \<and> m_active m \<and> m_poolId m = i) (leave now) (pool_members s)"
    "ride_stops s' = upd (pending_at i (int k)) (stamp now) (ride_stops s)" "rides s' = rides s"
    using confirmed_db_rows [OF dist row(1) _ _ _ k(2), of d now, folded db(1)] by blast+
  have fs: "findByRideId s' i = upd (pending_at i (int k)) (stamp now) ?sts"
    by (rule findByRideId_upd [OF eq(3)]) simp_all
  have ride: "\<forall>x \<in> set ?sts. s_rideId x = i" by (simp add: findByRideId_set)
  have stops: "findByRideId s' i = ?sts[k := stamp now (?sts ! k)]"
    using stamp_front(1) [OF sh(1,2) k(2) [unfolded k(1)] ride, of now, folded k(1)] fs by simp
  have row': "pool_row s' i = Some (confirm_row k ?len now p)"
    using row_upd [of p_rideId "confirm_row k ?len now" "\<lambda>x. p_rideId x = i" "shared_rides s" i] row(1) row_key [OF row(1)]
    by (simp add: eq(1))
  have "trip_driver s' = (trip_driver s)(Shared i := pool_driver (confirm_row k ?len now p))"
    by (rule pool_update_views [OF dist row(1) eq(1)]) (simp_all add: eq(4))
  moreover have "pool_driver (confirm_row k ?len now p) = (if Suc k = ?len then None else Some d)"
    using row(2) sh(5,6) k(1,2) by (auto simp: pool_driver_def)
  ultimately show thesis
    using that [OF tx w(2,3) db(2) stops row' eq(2,4)] by simp
qed

lemma left_members:
  assumes "m \<in> set (upd (\<lambda>m. m_active m \<and> m_poolId m = i) (leave now) t)" "m_poolId m = i"
  shows "\<not> m_active m"
proof -
  obtain r where r: "m = (if m_active r \<and> m_poolId r = i then leave now r else r)" using assms(1) by (auto simp: set_upd)
  show ?thesis
  proof (cases "m_active r \<and> m_poolId r = i")
    case True
    with r have "m = leave now r" by simp
    then show ?thesis by simp
  next
    case False
    with r have "m = r" by simp
    then show ?thesis using False assms(2) by simp
  qed
qed

end
