(* ===== verification/Geohash.thy ===== *)
theory Geohash
  imports Schema "HOL-Library.While_Combinator"
begin

text \<open>
  The geohash that names the cached routes (\<open>geohash7\<close>, pricing.service.ts and, letter for letter,
  route-similarity.service.ts). The loop stops after 35 halvings; two points with one hash lie in
  one cell, so a cached route is off by at most the size of a cell.
\<close>

section \<open>The loop\<close>

definition BASE32 :: string where
  "BASE32 = ''0123456789bcdefghjkmnpqrstuvwxyz''"

record gh_state =
  gh_idx :: nat
  gh_bit :: nat
  gh_even :: bool
  gh_hash :: string
  gh_latMin :: real
  gh_latMax :: real
  gh_lngMin :: real
  gh_lngMax :: real

definition gh_init :: gh_state where
  "gh_init = \<lparr>gh_idx = 0, gh_bit = 0, gh_even = True, gh_hash = '''', gh_latMin = -90, gh_latMax = 90,
     gh_lngMin = -180, gh_lngMax = 180\<rparr>"

text \<open>Halve one axis; \<open>idx << 1 | b\<close> stays below 32, so it is a natural number here.\<close>

definition gh_halve :: "real \<Rightarrow> real \<Rightarrow> gh_state \<Rightarrow> gh_state" where
  "gh_halve lat lng u =
     (if gh_even u then
        (let mid = (gh_lngMin u + gh_lngMax u) / 2
         in if mid \<le> lng then u\<lparr>gh_idx := 2 * gh_idx u + 1, gh_lngMin := mid\<rparr>
            else u\<lparr>gh_idx := 2 * gh_idx u, gh_lngMax := mid\<rparr>)
      else
        (let mid = (gh_latMin u + gh_latMax u) / 2
         in if mid \<le> lat then u\<lparr>gh_idx := 2 * gh_idx u + 1, gh_latMin := mid\<rparr>
            else u\<lparr>gh_idx := 2 * gh_idx u, gh_latMax := mid\<rparr>))"

definition gh_emit :: "gh_state \<Rightarrow> gh_state" where
  "gh_emit u =
     (if Suc (gh_bit u) = 5
      then u\<lparr>gh_even := \<not> gh_even u, gh_hash := gh_hash u @ [BASE32 ! gh_idx u], gh_bit := 0, gh_idx := 0\<rparr>
      else u\<lparr>gh_even := \<not> gh_even u, gh_bit := Suc (gh_bit u)\<rparr>)"

definition gh_step :: "real \<Rightarrow> real \<Rightarrow> gh_state \<Rightarrow> gh_state" where
  "gh_step lat lng u = gh_emit (gh_halve lat lng u)"

definition gh_loop :: "real \<Rightarrow> real \<Rightarrow> gh_state option" where
  "gh_loop lat lng = while_option (\<lambda>u. length (gh_hash u) < 7) (gh_step lat lng) gh_init"

definition geohash7 :: "real \<Rightarrow> real \<Rightarrow> string" where
  "geohash7 lat lng = gh_hash (the (gh_loop lat lng))"

section \<open>Termination\<close>

lemma gh_halve_sel [simp]:
  "gh_bit (gh_halve lat lng u) = gh_bit u" "gh_even (gh_halve lat lng u) = gh_even u"
  "gh_hash (gh_halve lat lng u) = gh_hash u"
  by (simp_all add: gh_halve_def Let_def)

lemma gh_emit_sel [simp]:
  "gh_latMin (gh_emit u) = gh_latMin u" "gh_latMax (gh_emit u) = gh_latMax u"
  "gh_lngMin (gh_emit u) = gh_lngMin u" "gh_lngMax (gh_emit u) = gh_lngMax u" "gh_even (gh_emit u) = (\<not> gh_even u)"
  by (simp_all add: gh_emit_def)

text \<open>The state after \<open>n\<close> halvings; its counters depend on \<open>n\<close> alone.\<close>

definition gh_run :: "real \<Rightarrow> real \<Rightarrow> nat \<Rightarrow> gh_state" where
  "gh_run lat lng n = (gh_step lat lng ^^ n) gh_init"

lemma gh_run_simps [simp]:
  "gh_run lat lng 0 = gh_init" "gh_run lat lng (Suc n) = gh_step lat lng (gh_run lat lng n)"
  by (simp_all add: gh_run_def)

lemma gh_counters:
  "gh_bit (gh_run lat lng n) = n mod 5 \<and> length (gh_hash (gh_run lat lng n)) = n div 5
   \<and> gh_even (gh_run lat lng n) = even n"
proof (induction n)
  case (Suc n)
  show ?case
  proof (cases "Suc (n mod 5) = 5")
    case True
    then have "Suc n mod 5 = 0" "Suc n div 5 = Suc (n div 5)" by (simp_all add: mod_Suc div_Suc)
    with True Suc show ?thesis by (simp add: gh_step_def gh_emit_def)
  next
    case False
    then have "Suc n mod 5 = Suc (n mod 5)" "Suc n div 5 = n div 5" by (simp_all add: mod_Suc div_Suc)
    with False Suc show ?thesis by (simp add: gh_step_def gh_emit_def)
  qed
qed (simp add: gh_init_def)

lemma gh_loop_run: "gh_loop lat lng = Some (gh_run lat lng 35)"
proof -
  have p: "length (gh_hash ((gh_step lat lng ^^ k) gh_init)) = k div 5" for k
    using gh_counters [of lat lng k] by (simp add: gh_run_def)
  have "(LEAST k. \<not> length (gh_hash ((gh_step lat lng ^^ k) gh_init)) < 7) = 35"
    unfolding p by (rule Least_equality) (auto simp: not_less dest: div_le_mono)
  moreover have "\<exists>k. \<not> length (gh_hash ((gh_step lat lng ^^ k) gh_init)) < 7"
    unfolding p by (intro exI [of _ 35]) simp
  ultimately show ?thesis by (simp add: gh_loop_def while_option_def gh_run_def)
qed

lemma geohash7_run: "geohash7 lat lng = gh_hash (gh_run lat lng 35)"
  by (simp add: geohash7_def gh_loop_run)

lemma geohash7_length [simp]: "length (geohash7 lat lng) = 7"
  using gh_counters [of lat lng 35] by (simp add: geohash7_run)

section \<open>Cells\<close>

text \<open>Width of the cell after \<open>n\<close> halvings: longitude takes the even ones.\<close>

lemma gh_widths:
  "gh_lngMax (gh_run lat lng n) - gh_lngMin (gh_run lat lng n) = 360 / 2 ^ (Suc n div 2)
   \<and> gh_latMax (gh_run lat lng n) - gh_latMin (gh_run lat lng n) = 180 / 2 ^ (n div 2)"
proof (induction n)
  case (Suc n)
  have e: "gh_even (gh_run lat lng n) = even n" using gh_counters [of lat lng n] by simp
  show ?case
  proof (cases "even n")
    case True
    then have d: "Suc (Suc n) div 2 = Suc (n div 2)" "Suc n div 2 = n div 2" by simp_all
    have "2 * (gh_lngMax (gh_run lat lng (Suc n)) - gh_lngMin (gh_run lat lng (Suc n)))
        = gh_lngMax (gh_run lat lng n) - gh_lngMin (gh_run lat lng n)"
      using True e by (simp add: gh_step_def gh_halve_def Let_def field_simps)
    moreover have "gh_latMax (gh_run lat lng (Suc n)) = gh_latMax (gh_run lat lng n)"
      "gh_latMin (gh_run lat lng (Suc n)) = gh_latMin (gh_run lat lng n)"
      using True e by (simp_all add: gh_step_def gh_halve_def Let_def)
    ultimately show ?thesis using Suc unfolding d by (simp add: field_simps)
  next
    case False
    then have d: "Suc (Suc n) div 2 = Suc n div 2" "Suc n div 2 = Suc (n div 2)" by simp_all
    have "2 * (gh_latMax (gh_run lat lng (Suc n)) - gh_latMin (gh_run lat lng (Suc n)))
        = gh_latMax (gh_run lat lng n) - gh_latMin (gh_run lat lng n)"
      using False e by (simp add: gh_step_def gh_halve_def Let_def field_simps)
    moreover have "gh_lngMax (gh_run lat lng (Suc n)) = gh_lngMax (gh_run lat lng n)"
      "gh_lngMin (gh_run lat lng (Suc n)) = gh_lngMin (gh_run lat lng n)"
      using False e by (simp_all add: gh_step_def gh_halve_def Let_def)
    ultimately show ?thesis using Suc unfolding d by (simp add: field_simps)
  qed
qed (simp add: gh_init_def)

lemma gh_contains:
  assumes "\<bar>lat\<bar> \<le> 90" "\<bar>lng\<bar> \<le> 180"
  shows "gh_lngMin (gh_run lat lng n) \<le> lng \<and> lng \<le> gh_lngMax (gh_run lat lng n)
    \<and> gh_latMin (gh_run lat lng n) \<le> lat \<and> lat \<le> gh_latMax (gh_run lat lng n)"
proof (induction n)
  case 0
  then show ?case using assms by (simp add: gh_init_def abs_le_iff)
next
  case (Suc n)
  then show ?case by (simp add: gh_step_def gh_halve_def Let_def)
qed

section \<open>One hash, one cell\<close>

text \<open>What the loop has decided so far, and the cell it decided.\<close>

definition gh_code :: "gh_state \<Rightarrow> string \<times> nat" where
  "gh_code u = (gh_hash u, gh_idx u)"

definition gh_cell :: "gh_state \<Rightarrow> (real \<times> real) \<times> (real \<times> real)" where
  "gh_cell u = ((gh_latMin u, gh_latMax u), (gh_lngMin u, gh_lngMax u))"

lemma gh_idx_bound: "gh_idx (gh_run lat lng n) < 2 ^ (n mod 5)"
proof (induction n)
  case (Suc n)
  have b: "gh_bit (gh_run lat lng n) = n mod 5" using gh_counters [of lat lng n] by simp
  have i: "gh_idx (gh_halve lat lng u) \<le> 2 * gh_idx u + 1" for u by (simp add: gh_halve_def Let_def)
  show ?case
  proof (cases "Suc (n mod 5) = 5")
    case True
    then have "Suc n mod 5 = 0" by (simp add: mod_Suc)
    then show ?thesis using True b by (simp add: gh_step_def gh_emit_def)
  next
    case False
    then have "Suc n mod 5 = Suc (n mod 5)" by (simp add: mod_Suc)
    moreover have "gh_idx (gh_run lat lng (Suc n)) = gh_idx (gh_halve lat lng (gh_run lat lng n))"
      using False b by (simp add: gh_step_def gh_emit_def)
    ultimately show ?thesis using i [of "gh_run lat lng n"] Suc by simp
  qed
qed (simp add: gh_init_def)

lemma BASE32_distinct: "distinct BASE32" "length BASE32 = 32"
  by (simp_all add: BASE32_def)

text \<open>A step loses no decision.\<close>

lemma gh_emit_inj:
  assumes "gh_code (gh_emit u) = gh_code (gh_emit v)" "gh_bit u = gh_bit v" "gh_idx u < 32" "gh_idx v < 32"
  shows "gh_code u = gh_code v"
proof (cases "Suc (gh_bit v) = 5")
  case True
  then have "gh_hash u = gh_hash v" "BASE32 ! gh_idx u = BASE32 ! gh_idx v"
    using assms(1,2) by (simp_all add: gh_code_def gh_emit_def)
  then show ?thesis
    using assms(3,4) BASE32_distinct by (simp add: gh_code_def nth_eq_iff_index_eq)
next
  case False
  then show ?thesis using assms(1,2) by (simp add: gh_code_def gh_emit_def)
qed

lemma gh_halve_inj:
  assumes "gh_code (gh_halve a b u) = gh_code (gh_halve c d v)" "gh_even u = gh_even v"
  shows "gh_code u = gh_code v \<and> (gh_cell u = gh_cell v \<longrightarrow> gh_cell (gh_halve a b u) = gh_cell (gh_halve c d v))"
proof -
  have "x + 1 \<noteq> y" if "even x" "even y" for x y :: nat using that by auto
  then have "2 * i + 1 \<noteq> 2 * j" for i j :: nat by simp
  then have "Suc (2 * i) \<noteq> 2 * j \<and> 2 * j \<noteq> Suc (2 * i)" for i j :: nat by (metis Suc_eq_plus1)
  then show ?thesis
    using assms by (auto simp: gh_halve_def gh_code_def gh_cell_def Let_def split: if_splits)
qed

lemma gh_code_cell:
  "gh_code (gh_run a b n) = gh_code (gh_run c d n) \<Longrightarrow> gh_cell (gh_run a b n) = gh_cell (gh_run c d n)"
proof (induction n)
  case (Suc n)
  let ?u = "gh_run a b n" and ?v = "gh_run c d n"
  have c: "gh_bit ?u = n mod 5" "gh_bit ?v = n mod 5" "gh_even ?u = even n" "gh_even ?v = even n"
    using gh_counters [of a b n] gh_counters [of c d n] by simp_all
  have "gh_idx (gh_halve a b ?u) \<le> 2 * gh_idx ?u + 1" "gh_idx (gh_halve c d ?v) \<le> 2 * gh_idx ?v + 1"
    by (simp_all add: gh_halve_def Let_def)
  moreover have "gh_idx ?u < 16 \<and> gh_idx ?v < 16"
  proof -
    have "(2::nat) ^ (n mod 5) \<le> 2 ^ 4" by (rule power_increasing) simp_all
    then show ?thesis using gh_idx_bound [of a b n] gh_idx_bound [of c d n] by simp
  qed
  ultimately have lt: "gh_idx (gh_halve a b ?u) < 32" "gh_idx (gh_halve c d ?v) < 32" by linarith+
  have "gh_code (gh_emit (gh_halve a b ?u)) = gh_code (gh_emit (gh_halve c d ?v))"
    using Suc.prems by (simp only: gh_run_simps gh_step_def)
  then have "gh_code (gh_halve a b ?u) = gh_code (gh_halve c d ?v)"
    by (rule gh_emit_inj) (use c lt in simp_all)
  from gh_halve_inj [OF this] c Suc.IH have "gh_cell (gh_halve a b ?u) = gh_cell (gh_halve c d ?v)" by simp
  then show ?case by (simp add: gh_step_def gh_cell_def)
qed simp

lemma geohash7_cell:
  assumes "geohash7 a b = geohash7 c d" "\<bar>a\<bar> \<le> 90" "\<bar>b\<bar> \<le> 180" "\<bar>c\<bar> \<le> 90" "\<bar>d\<bar> \<le> 180"
  shows "\<bar>a - c\<bar> \<le> 180 / 2 ^ 17 \<and> \<bar>b - d\<bar> \<le> 360 / 2 ^ 18"
proof -
  let ?u = "gh_run a b 35" and ?v = "gh_run c d 35"
  have "gh_idx ?u = 0" "gh_idx ?v = 0" using gh_idx_bound [of a b 35] gh_idx_bound [of c d 35] by simp_all
  then have "gh_code ?u = gh_code ?v" using assms(1) by (simp add: gh_code_def geohash7_run)
  then have "gh_cell ?u = gh_cell ?v" by (rule gh_code_cell)
  then have c: "gh_latMin ?u = gh_latMin ?v" "gh_latMax ?u = gh_latMax ?v" "gh_lngMin ?u = gh_lngMin ?v"
    "gh_lngMax ?u = gh_lngMax ?v"
    by (simp_all add: gh_cell_def)
  have near: "\<bar>x - y\<bar> \<le> w" if "l \<le> x \<and> x \<le> h" "l \<le> y \<and> y \<le> h" "h - l = w" for x y l h w :: real
    using that by linarith
  have e: "Suc 35 div 2 = (18 :: nat)" "35 div 2 = (17 :: nat)" by simp_all
  show ?thesis
    using gh_contains [OF assms(2,3), of 35] gh_contains [OF assms(4,5), of 35] gh_widths [of c d 35, unfolded e] near
    unfolding c by blast
qed

end
