(* ===== verification/Pricing.thy ===== *)
theory Pricing
  imports Geohash Env_Config Pools
begin

text \<open>
  Money and fares (money.ts, pricing.service.ts). Amounts are integers; factors and distances are
  real numbers where the code computes with doubles. OSRM is a service outside the repository: it is
  the argument \<open>osrm\<close>, \<open>None\<close> when the call fails. Redis is the argument and result \<open>cache\<close>; a route
  that is not JSON is \<open>Unparsable\<close>.
\<close>

section \<open>Money\<close>

datatype currency = INR

record money =
  mo_amount :: int
  mo_currency :: currency

datatype pricing_error =
    Non_finite
  | Currency_mismatch
  | No_pickup_before_dropoff uuid
  | Osrm_unavailable

definition ZERO_INR :: money where
  "ZERO_INR = \<lparr>mo_amount = 0, mo_currency = INR\<rparr>"

text \<open>\<open>Math.round\<close>: to the nearest integer, halves upward.\<close>

definition js_round :: "real \<Rightarrow> int" where
  "js_round x = \<lfloor>x + 1 / 2\<rfloor>"

definition inr :: "js_number \<Rightarrow> pricing_error + money" where
  "inr amount = (case amount of Fin x \<Rightarrow> Inr \<lparr>mo_amount = js_round x, mo_currency = INR\<rparr> | _ \<Rightarrow> Inl Non_finite)"

definition addMoney :: "money \<Rightarrow> money \<Rightarrow> pricing_error + money" where
  "addMoney a b =
     (if mo_currency a \<noteq> mo_currency b then Inl Currency_mismatch
      else Inr \<lparr>mo_amount = mo_amount a + mo_amount b, mo_currency = mo_currency a\<rparr>)"

fun addAll :: "money \<Rightarrow> money list \<Rightarrow> pricing_error + money" where
  "addAll acc [] = Inr acc"
| "addAll acc (m # ms) = (case addMoney acc m of Inl e \<Rightarrow> Inl e | Inr acc' \<Rightarrow> addAll acc' ms)"

definition sumMoney :: "money list \<Rightarrow> pricing_error + money" where
  "sumMoney values =
     (case values of [] \<Rightarrow> Inr ZERO_INR | m # _ \<Rightarrow> addAll \<lparr>mo_amount = 0, mo_currency = mo_currency m\<rparr> values)"

definition mulMoney :: "money \<Rightarrow> js_number \<Rightarrow> pricing_error + money" where
  "mulMoney m factor =
     (case factor of
        Fin x \<Rightarrow> Inr \<lparr>mo_amount = js_round (real_of_int (mo_amount m) * x), mo_currency = mo_currency m\<rparr>
      | _ \<Rightarrow> Inl Non_finite)"

section \<open>Configuration\<close>

record fare_params =
  fp_baseCents :: real
  fp_perKmCents :: real
  fp_perMinCents :: real

record shared_params =
  sp_seatMultiplier2 :: real
  sp_seatMultiplier3 :: real
  sp_commissionRate :: real

definition at_least :: "real \<Rightarrow> number_options" where
  "at_least l = \<lparr>n_integer = False, n_min = Some l, n_max = None\<rparr>"

definition between :: "real \<Rightarrow> real \<Rightarrow> number_options" where
  "between l h = \<lparr>n_integer = False, n_min = Some l, n_max = Some h\<rparr>"

definition fareFromConfig :: "(string \<Rightarrow> raw_value) \<Rightarrow> config_error + fare_params" where
  "fareFromConfig config =
     (case getNumber config ''FARE_BASE_CENTS'' 4000 (at_least 0) of Inl e \<Rightarrow> Inl e | Inr b \<Rightarrow>
     (case getNumber config ''FARE_PER_KM_CENTS'' 1500 (at_least 0) of Inl e \<Rightarrow> Inl e | Inr k \<Rightarrow>
     (case getNumber config ''FARE_PER_MIN_CENTS'' 200 (at_least 0) of Inl e \<Rightarrow> Inl e | Inr m \<Rightarrow>
        Inr \<lparr>fp_baseCents = b, fp_perKmCents = k, fp_perMinCents = m\<rparr>)))"

definition sharedFromConfig :: "(string \<Rightarrow> raw_value) \<Rightarrow> config_error + shared_params" where
  "sharedFromConfig config =
     (case getNumber config ''SEAT_MULTIPLIER_2'' (7 / 10) (between (1 / 100) 1) of Inl e \<Rightarrow> Inl e | Inr a \<Rightarrow>
     (case getNumber config ''SEAT_MULTIPLIER_3'' (55 / 100) (between (1 / 100) 1) of Inl e \<Rightarrow> Inl e | Inr b \<Rightarrow>
     (case getNumber config ''PLATFORM_COMMISSION_RATE'' (2 / 10) (between 0 1) of Inl e \<Rightarrow> Inl e | Inr c \<Rightarrow>
        Inr \<lparr>sp_seatMultiplier2 = a, sp_seatMultiplier3 = b, sp_commissionRate = c\<rparr>)))"

section \<open>Fares from metrics\<close>

record route_metrics =
  rm_distanceM :: js_number
  rm_durationS :: js_number

text \<open>A factor that is not finite makes the sum not finite, and \<open>inr\<close> throws.\<close>

definition quoteSoloFromMetrics :: "fare_params \<Rightarrow> route_metrics \<Rightarrow> pricing_error + money" where
  "quoteSoloFromMetrics f metrics =
     (case (rm_distanceM metrics, rm_durationS metrics) of
        (Fin d, Fin t) \<Rightarrow>
          let km = d / 1000; mins = t / 60
          in inr (Fin (fp_baseCents f + fp_perKmCents f * km + fp_perMinCents f * mins))
      | _ \<Rightarrow> inr NaN)"

definition clamp :: "real \<Rightarrow> real \<Rightarrow> real \<Rightarrow> real" where
  "clamp v lo hi = max lo (min hi v)"

definition seatMultiplierFor :: "shared_params \<Rightarrow> int \<Rightarrow> real" where
  "seatMultiplierFor p n =
     (if n \<le> 1 then 1 else if n = 2 then sp_seatMultiplier2 p else sp_seatMultiplier3 p)"

definition quoteSeatFromMetrics :: "shared_params \<Rightarrow> money \<Rightarrow> int \<Rightarrow> real \<Rightarrow> real \<Rightarrow> pricing_error + seat_quote" where
  "quoteSeatFromMetrics p soloPrice seatCount directDistanceM poolDistanceM =
     (let seatMultiplier = seatMultiplierFor p seatCount;
          rawDetour = (if 0 < directDistanceM then poolDistanceM / directDistanceM else 1);
          cap = 1 / seatMultiplier;
          detourFactor = clamp rawDetour 1 cap
      in case mulMoney soloPrice (Fin (seatMultiplier * detourFactor)) of
           Inl e \<Rightarrow> Inl e
         | Inr price \<Rightarrow> Inr \<lparr>sq_perSeatPrice = mo_amount price, sq_seatMultiplier = seatMultiplier, sq_detourFactor = detourFactor\<rparr>)"

definition driverPayout :: "shared_params \<Rightarrow> money list \<Rightarrow> pricing_error + money" where
  "driverPayout p seatPrices =
     (case sumMoney seatPrices of Inl e \<Rightarrow> Inl e | Inr gross \<Rightarrow> mulMoney gross (Fin (1 - sp_commissionRate p)))"

section \<open>Routes\<close>

record route_spec =
  rs_originLat :: real
  rs_originLng :: real
  rs_destLat :: real
  rs_destLng :: real

text \<open>
  A parsed OSRM answer: its code, distance and duration of the first route (\<open>None\<close>: there is none), and
  that route's legs (\<open>None\<close>: not an array).
\<close>

record osrm_response =
  or_code :: string
  or_route :: "route_metrics option"
  or_legs :: "route_metrics list option"

text \<open>The request names its coordinates as longitude, latitude.\<close>

type_synonym osrm = "(real \<times> real) list \<Rightarrow> osrm_response option"

datatype cached = CachedMetrics route_metrics | Unparsable

type_synonym price_cache = "string \<Rightarrow> cached option"

definition price_key :: "route_spec \<Rightarrow> string" where
  "price_key route =
     ''pricing:dist:'' @ geohash7 (rs_originLat route) (rs_originLng route) @ '':''
       @ geohash7 (rs_destLat route) (rs_destLng route)"

definition getRouteMetrics :: "osrm \<Rightarrow> route_spec \<Rightarrow> price_cache \<Rightarrow> (pricing_error + route_metrics) \<times> price_cache" where
  "getRouteMetrics osrm route cache =
     (case cache (price_key route) of
        Some (CachedMetrics m) \<Rightarrow> (Inr m, cache)
      | _ \<Rightarrow>
          (case Option.bind (osrm [(rs_originLng route, rs_originLat route), (rs_destLng route, rs_destLat route)]) or_route of
             None \<Rightarrow> (Inl Osrm_unavailable, cache)
           | Some m \<Rightarrow> (Inr m, cache(price_key route \<mapsto> CachedMetrics m))))"

definition leg_ok :: "route_metrics \<Rightarrow> bool" where
  "leg_ok l = (case (rm_distanceM l, rm_durationS l) of (Fin d, Fin t) \<Rightarrow> 0 \<le> d | _ \<Rightarrow> False)"

definition getItineraryLegs :: "osrm \<Rightarrow> (real \<times> real) list \<Rightarrow> pricing_error + route_metrics list" where
  "getItineraryLegs osrm stops =
     (if length stops < 2 then Inr []
      else case osrm stops of
          None \<Rightarrow> Inl Osrm_unavailable
        | Some data \<Rightarrow>
            (case or_legs data of
               None \<Rightarrow> Inl Osrm_unavailable
             | Some legs \<Rightarrow>
                 if or_code data \<noteq> ''Ok'' \<or> length legs \<noteq> length stops - 1 \<or> \<not> list_all leg_ok legs
                 then Inl Osrm_unavailable else Inr legs))"

definition quoteSolo :: "fare_params \<Rightarrow> osrm \<Rightarrow> route_spec \<Rightarrow> price_cache
    \<Rightarrow> (pricing_error + money \<times> route_metrics) \<times> price_cache" where
  "quoteSolo f osrm route cache =
     (case getRouteMetrics osrm route cache of
        (Inl e, cache') \<Rightarrow> (Inl e, cache')
      | (Inr m, cache') \<Rightarrow>
          (case quoteSoloFromMetrics f m of Inl e \<Rightarrow> (Inl e, cache') | Inr fare \<Rightarrow> (Inr (fare, m), cache')))"

text \<open>\<open>findIndex\<close>: the first index that fits, \<open>-1\<close> when none does.\<close>

fun findIndex :: "('a \<Rightarrow> bool) \<Rightarrow> 'a list \<Rightarrow> int" where
  "findIndex P [] = -1"
| "findIndex P (x # xs) = (if P x then 0 else let i = findIndex P xs in if i < 0 then -1 else i + 1)"

definition leg_distance :: "route_metrics \<Rightarrow> real" where
  "leg_distance l = (case rm_distanceM l of Fin d \<Rightarrow> d | _ \<Rightarrow> 0)"

text \<open>The detour is the passenger's own way through the ordered stops.\<close>

definition quoteSeatInItinerary ::
  "fare_params \<Rightarrow> shared_params \<Rightarrow> osrm \<Rightarrow> fare_context \<Rightarrow> price_cache \<Rightarrow> (pricing_error + seat_quote) \<times> price_cache" where
  "quoteSeatInItinerary f p osrm ctx cache =
     (let pickupIdx = findIndex (\<lambda>x. os_type x = Pickup \<and> os_passengerId x = fc_passengerId ctx) (fc_stops ctx);
          dropoffIdx = findIndex (\<lambda>x. os_type x = Dropoff \<and> os_passengerId x = fc_passengerId ctx) (fc_stops ctx)
      in if pickupIdx < 0 \<or> dropoffIdx \<le> pickupIdx then (Inl (No_pickup_before_dropoff (fc_passengerId ctx)), cache)
         else case getRouteMetrics osrm \<lparr>rs_originLat = fc_originLat ctx, rs_originLng = fc_originLng ctx,
                     rs_destLat = fc_destLat ctx, rs_destLng = fc_destLng ctx\<rparr> cache of
            (Inl e, cache') \<Rightarrow> (Inl e, cache')
          | (Inr direct, cache') \<Rightarrow>
              (case (if 2 < length (fc_stops ctx)
                     then (case getItineraryLegs osrm (map (\<lambda>x. (os_lng x, os_lat x)) (fc_stops ctx)) of
                             Inl e \<Rightarrow> Inl e
                           | Inr legs \<Rightarrow> Inr (Fin (sum_list (map leg_distance
                               (drop (nat pickupIdx) (take (nat dropoffIdx) legs))))))
                     else Inr (rm_distanceM direct)) of
                 Inl e \<Rightarrow> (Inl e, cache')
               | Inr ride \<Rightarrow>
                   (case quoteSoloFromMetrics f direct of
                      Inl e \<Rightarrow> (Inl e, cache')
                    | Inr solo \<Rightarrow>
                        (case (rm_distanceM direct, ride) of
                           (Fin d, Fin r) \<Rightarrow> (quoteSeatFromMetrics p solo (fc_seatCount ctx) d r, cache')
                         | _ \<Rightarrow> (Inl Non_finite, cache')))))"

text \<open>The quoter the seat transactions take (rides.controller.ts): any failure aborts the transaction.\<close>

definition thrown_in_tx :: "pricing_error \<Rightarrow> db_error" where
  "thrown_in_tx e = App_error (if e = Osrm_unavailable then ''routing_unavailable'' else ''fare unavailable'')"

definition seat_quoter :: "fare_params \<Rightarrow> shared_params \<Rightarrow> osrm \<Rightarrow> price_cache \<Rightarrow> quoter" where
  "seat_quoter f p osrm cache ctx =
     (case fst (quoteSeatInItinerary f p osrm ctx cache) of
        Inl e \<Rightarrow> Inl (thrown_in_tx e)
      | Inr q \<Rightarrow> Inr q)"

section \<open>Rounding\<close>

lemma js_round_mono: "x \<le> y \<Longrightarrow> js_round x \<le> js_round y"
  unfolding js_round_def by (rule floor_mono) simp

lemma js_round_int [simp]: "js_round (real_of_int n) = n"
  unfolding js_round_def by linarith

lemma js_round_error: "\<bar>real_of_int (js_round x) - x\<bar> \<le> 1 / 2"
  unfolding js_round_def by linarith

lemma js_round_nonneg: "0 \<le> x \<Longrightarrow> 0 \<le> js_round x"
  unfolding js_round_def by simp

lemma addAll_sum:
  "addAll acc ms = Inr \<lparr>mo_amount = mo_amount acc + sum_list (map mo_amount ms), mo_currency = mo_currency acc\<rparr>"
proof (induction ms arbitrary: acc)
  case (Cons m ms)
  have "mo_currency acc = mo_currency m" by (metis currency.exhaust)
  then show ?case using Cons by (simp add: addMoney_def)
qed simp

lemma sumMoney_sum: "sumMoney ms = Inr \<lparr>mo_amount = sum_list (map mo_amount ms), mo_currency = INR\<rparr>"
proof (cases ms)
  case Nil
  then show ?thesis by (simp add: sumMoney_def ZERO_INR_def)
next
  case (Cons m _)
  have "mo_currency m = INR" by (cases "mo_currency m")
  then show ?thesis unfolding sumMoney_def Cons by (simp add: addAll_sum del: addAll.simps)
qed

section \<open>Seat prices\<close>

definition shared_ok :: "shared_params \<Rightarrow> bool" where
  "shared_ok p \<longleftrightarrow> 0 < sp_seatMultiplier2 p \<and> sp_seatMultiplier2 p \<le> 1 \<and> 0 < sp_seatMultiplier3 p
     \<and> sp_seatMultiplier3 p \<le> 1 \<and> 0 \<le> sp_commissionRate p \<and> sp_commissionRate p \<le> 1"

lemma in_range_simps [simp]:
  "in_range (between l h) x \<longleftrightarrow> l \<le> x \<and> x \<le> h" "in_range (at_least l) x \<longleftrightarrow> l \<le> x"
  by (simp_all add: in_range_def between_def at_least_def)

lemma sharedFromConfig_ok: "sharedFromConfig config = Inr p \<Longrightarrow> shared_ok p"
  by (auto simp: sharedFromConfig_def shared_ok_def split: sum.splits dest!: getNumber_in_range)

lemma fareFromConfig_ok:
  "fareFromConfig config = Inr f \<Longrightarrow> 0 \<le> fp_baseCents f \<and> 0 \<le> fp_perKmCents f \<and> 0 \<le> fp_perMinCents f"
  by (auto simp: fareFromConfig_def split: sum.splits dest!: getNumber_in_range)

lemma seatMultiplierFor_range: "shared_ok p \<Longrightarrow> 0 < seatMultiplierFor p n \<and> seatMultiplierFor p n \<le> 1"
  by (simp add: seatMultiplierFor_def shared_ok_def)

lemma quoteSeat_facts:
  assumes "shared_ok p" "quoteSeatFromMetrics p solo n d r = Inr q"
  shows "1 \<le> sq_detourFactor q" "sq_seatMultiplier q * sq_detourFactor q \<le> 1" "sq_seatMultiplier q = seatMultiplierFor p n"
    "sq_perSeatPrice q = js_round (real_of_int (mo_amount solo) * (sq_seatMultiplier q * sq_detourFactor q))"
    "0 < sq_seatMultiplier q" "sq_detourFactor q = clamp (if 0 < d then r / d else 1) 1 (1 / sq_seatMultiplier q)"
proof -
  let ?m = "seatMultiplierFor p n" and ?raw = "if 0 < d then r / d else 1"
  have m: "0 < ?m" "?m \<le> 1" using seatMultiplierFor_range [OF assms(1)] by simp_all
  have q: "q = \<lparr>sq_perSeatPrice = js_round (real_of_int (mo_amount solo) * (?m * clamp ?raw 1 (1 / ?m))),
      sq_seatMultiplier = ?m, sq_detourFactor = clamp ?raw 1 (1 / ?m)\<rparr>"
    using assms(2) by (simp add: quoteSeatFromMetrics_def Let_def mulMoney_def)
  have "1 \<le> 1 / ?m" using m by simp
  then have c: "1 \<le> clamp ?raw 1 (1 / ?m)" "clamp ?raw 1 (1 / ?m) \<le> 1 / ?m" by (simp_all add: clamp_def)
  have "?m * clamp ?raw 1 (1 / ?m) \<le> ?m * (1 / ?m)" by (rule mult_left_mono) (use c m in simp_all)
  then show "1 \<le> sq_detourFactor q" "sq_seatMultiplier q * sq_detourFactor q \<le> 1" "sq_seatMultiplier q = ?m"
    "sq_perSeatPrice q = js_round (real_of_int (mo_amount solo) * (sq_seatMultiplier q * sq_detourFactor q))"
    "0 < sq_seatMultiplier q" "sq_detourFactor q = clamp ?raw 1 (1 / sq_seatMultiplier q)"
    using c m by (simp_all add: q)
qed

lemma quoteSeat_bounds:
  assumes "shared_ok p" "quoteSeatFromMetrics p solo n d r = Inr q" "0 \<le> mo_amount solo"
  shows "js_round (seatMultiplierFor p n * real_of_int (mo_amount solo)) \<le> sq_perSeatPrice q"
    "sq_perSeatPrice q \<le> mo_amount solo" "0 \<le> sq_perSeatPrice q"
proof -
  note f = quoteSeat_facts [OF assms(1,2)]
  let ?a = "real_of_int (mo_amount solo)" and ?x = "sq_seatMultiplier q * sq_detourFactor q"
  have a: "0 \<le> ?a" using assms(3) by simp
  have "?a * ?x \<le> ?a * 1" by (rule mult_left_mono) (use f(2) a in simp_all)
  then have "js_round (?a * ?x) \<le> js_round ?a" by (intro js_round_mono) simp
  then show "sq_perSeatPrice q \<le> mo_amount solo" by (simp add: f(4))
  have "sq_seatMultiplier q * 1 \<le> ?x" by (rule mult_left_mono) (use f(1,5) in simp_all)
  then have "?a * sq_seatMultiplier q \<le> ?a * ?x" using a by (intro mult_left_mono) simp_all
  then show "js_round (seatMultiplierFor p n * ?a) \<le> sq_perSeatPrice q"
    unfolding f(4) f(3) by (intro js_round_mono) (simp add: mult.commute)
  show "0 \<le> sq_perSeatPrice q" unfolding f(4) using a f(1,5) by (intro js_round_nonneg) simp
qed

text \<open>A seat quote comes from the fare of the passenger's direct route.\<close>

lemma quoteSeatInItinerary_solo:
  assumes "quoteSeatInItinerary f p osrm ctx cache = (Inr q, cache')"
  obtains direct solo d r where "quoteSoloFromMetrics f direct = Inr solo" "rm_distanceM direct = Fin d"
    "quoteSeatFromMetrics p solo (fc_seatCount ctx) d r = Inr q"
    "getRouteMetrics osrm \<lparr>rs_originLat = fc_originLat ctx, rs_originLng = fc_originLng ctx,
       rs_destLat = fc_destLat ctx, rs_destLng = fc_destLng ctx\<rparr> cache = (Inr direct, cache')"
  using assms unfolding quoteSeatInItinerary_def
  by (auto simp: Let_def split: if_splits sum.splits prod.splits js_number.splits)

lemma getRouteMetrics_cached:
  assumes "getRouteMetrics osrm route cache = (Inr m, cache')" "price_key route' = price_key route"
  shows "getRouteMetrics osrm' route' cache' = (Inr m, cache')"
  using assms by (auto simp: getRouteMetrics_def split: option.splits cached.splits)

lemma findIndex_range: "-1 \<le> findIndex P xs \<and> findIndex P xs < int (length xs)"
  by (induction xs) (auto simp: Let_def)

end
