(* ===== verification/Route_Similarity.thy ===== *)
theory Route_Similarity
  imports Pricing
begin

text \<open>
  How alike two road routes are (route-similarity.service.ts): both polylines are resampled to 25
  points at equal spacing, and the score falls with the mean distance to the nearest point of the
  other. Points are (longitude, latitude), real numbers where the code computes with doubles; an
  infinite distance is \<open>None\<close>.
\<close>

type_synonym coord = "real \<times> real"

definition coord_dist :: "coord \<Rightarrow> coord \<Rightarrow> real" where
  "coord_dist = (\<lambda>(lng1, lat1) (lng2, lat2). haversineM lat1 lng1 lat2 lng2)"

section \<open>Resampling\<close>

fun dists_from :: "real \<Rightarrow> coord list \<Rightarrow> real list" where
  "dists_from acc (p # q # ps) = (acc + coord_dist p q) # dists_from (acc + coord_dist p q) (q # ps)"
| "dists_from acc _ = []"

text \<open>\<open>while (seg < dists.length - 2 && dists[seg + 1] < target) seg++\<close>\<close>

function seg_scan :: "real list \<Rightarrow> real \<Rightarrow> nat \<Rightarrow> nat" where
  "seg_scan dists target seg =
     (if seg < length dists - 2 \<and> dists ! Suc seg < target then seg_scan dists target (Suc seg) else seg)"
  by pat_completeness auto
termination by (relation "measure (\<lambda>(dists, target, seg). length dists - seg)") auto

declare seg_scan.simps [simp del]

definition sample_at :: "coord list \<Rightarrow> real list \<Rightarrow> real \<Rightarrow> coord" where
  "sample_at coords dists target =
     (let seg = seg_scan dists target 0;
          segLen = dists ! Suc seg - dists ! seg;
          t = (if segLen = 0 then 0 else (target - dists ! seg) / segLen)
      in (fst (coords ! seg) + t * (fst (coords ! Suc seg) - fst (coords ! seg)),
          snd (coords ! seg) + t * (snd (coords ! Suc seg) - snd (coords ! seg))))"

text \<open>An empty polyline gives a list of undefined points, which throws at its first use: \<open>None\<close>.\<close>

definition resample :: "coord list \<Rightarrow> nat \<Rightarrow> coord list option" where
  "resample coords n =
     (case coords of
        [] \<Rightarrow> None
      | [p] \<Rightarrow> Some (replicate n p)
      | p # _ \<Rightarrow>
          let dists = 0 # dists_from 0 coords; total = last dists
          in if total = 0 then Some (replicate n p)
             else Some (map (\<lambda>i. sample_at coords dists (real i / (real n - 1) * total)) [0..<n]))"

section \<open>Score\<close>

definition nearest_dist :: "coord \<Rightarrow> coord list \<Rightarrow> real option" where
  "nearest_dist p to =
     foldl (\<lambda>m q. Some (case m of None \<Rightarrow> coord_dist p q | Some x \<Rightarrow> min x (coord_dist p q))) None to"

fun sum_nearest :: "real \<Rightarrow> coord list \<Rightarrow> coord list \<Rightarrow> real option" where
  "sum_nearest acc [] to = Some acc"
| "sum_nearest acc (p # ps) to = (case nearest_dist p to of None \<Rightarrow> None | Some m \<Rightarrow> sum_nearest (acc + m) ps to)"

definition meanNearestNeighbour :: "coord list \<Rightarrow> coord list \<Rightarrow> real option" where
  "meanNearestNeighbour from_pts to_pts = map_option (\<lambda>x. x / real (length from_pts)) (sum_nearest 0 from_pts to_pts)"

definition RESAMPLE_N :: nat where
  "RESAMPLE_N = 25"

datatype route_error = Route_osrm_unavailable | Route_empty

text \<open>The score of two polylines; the mean of two infinite distances leaves a score of 0.\<close>

definition score_polylines :: "real \<Rightarrow> coord list \<Rightarrow> coord list \<Rightarrow> route_error + real" where
  "score_polylines saturation p1 p2 =
     (case (resample p1 RESAMPLE_N, resample p2 RESAMPLE_N) of
        (Some r1, Some r2) \<Rightarrow>
          (case (meanNearestNeighbour r1 r2, meanNearestNeighbour r2 r1) of
             (Some a, Some b) \<Rightarrow> Inr (max 0 (1 - ((a + b) / 2) / saturation))
           | _ \<Rightarrow> Inr 0)
      | _ \<Rightarrow> Inl Route_empty)"

type_synonym poly_cache = "string \<Rightarrow> coord list option"

definition poly_key :: "route_spec \<Rightarrow> string" where
  "poly_key route =
     ''osrm:poly:'' @ geohash7 (rs_originLat route) (rs_originLng route) @ '':''
       @ geohash7 (rs_destLat route) (rs_destLng route)"

definition getPolyline ::
  "(coord list \<Rightarrow> coord list option) \<Rightarrow> route_spec \<Rightarrow> poly_cache \<Rightarrow> (route_error + coord list) \<times> poly_cache" where
  "getPolyline osrm route cache =
     (case cache (poly_key route) of
        Some coords \<Rightarrow> (Inr coords, cache)
      | None \<Rightarrow>
          (case osrm [(rs_originLng route, rs_originLat route), (rs_destLng route, rs_destLat route)] of
             None \<Rightarrow> (Inl Route_osrm_unavailable, cache)
           | Some coords \<Rightarrow> (Inr coords, cache(poly_key route \<mapsto> coords))))"

definition saturationFromConfig :: "(string \<Rightarrow> raw_value) \<Rightarrow> config_error + real" where
  "saturationFromConfig config = getNumber config ''ROUTE_SIMILARITY_SATURATION_M'' 1200 (at_least 1)"

text \<open>Both polylines are read at once; the second read need not see what the first one cached.\<close>

definition scoreRoutes ::
  "real \<Rightarrow> (coord list \<Rightarrow> coord list option) \<Rightarrow> poly_cache \<Rightarrow> poly_cache \<Rightarrow> route_spec \<Rightarrow> route_spec \<Rightarrow> route_error + real" where
  "scoreRoutes saturation osrm cacheA cacheB a b =
     (case (fst (getPolyline osrm a cacheA), fst (getPolyline osrm b cacheB)) of
        (Inr p1, Inr p2) \<Rightarrow> score_polylines saturation p1 p2
      | (Inl e, _) \<Rightarrow> Inl e
      | (_, Inl e) \<Rightarrow> Inl e)"

section \<open>The distance\<close>

definition coord_ok :: "coord \<Rightarrow> bool" where
  "coord_ok p \<longleftrightarrow> \<bar>snd p\<bar> \<le> 90"

lemma haversine_arg:
  assumes "\<bar>lat1\<bar> \<le> 90" "\<bar>lat2\<bar> \<le> 90"
  defines "x \<equiv> lat1 * pi / 180" and "y \<equiv> lat2 * pi / 180"
  shows "0 \<le> cos x * cos y" "sin ((y - x) / 2) ^ 2 + cos x * cos y * w ^ 2 \<le> 1 \<or> 1 < w ^ 2"
proof -
  have "\<bar>l * pi / 180\<bar> \<le> pi / 2" if "\<bar>l\<bar> \<le> 90" for l
    using mult_right_mono [OF that, of pi] by (simp add: abs_mult)
  then have "\<bar>x\<bar> \<le> pi / 2" "\<bar>y\<bar> \<le> pi / 2" using assms(1,2) by (simp_all only: x_def y_def)
  then have c: "0 \<le> cos x" "0 \<le> cos y" by (auto intro: cos_ge_zero simp: abs_le_iff)
  then show p: "0 \<le> cos x * cos y" by simp
  have "cos (2 * ((y - x) / 2)) = 1 - 2 * sin ((y - x) / 2) ^ 2" by (rule cos_double_sin)
  then have "cos (y - x) = 1 - 2 * sin ((y - x) / 2) ^ 2" by (simp only: nonzero_mult_div_cancel_left times_divide_eq_right zero_neq_numeral [symmetric] not_False_eq_True)
  then have "sin ((y - x) / 2) ^ 2 = (1 - cos (y - x)) / 2" by (simp only: diff_diff_eq2) (simp add: field_simps)
  moreover have "cos x * cos y = (cos (y - x) + cos (x + y)) / 2"
    by (simp add: cos_diff cos_add algebra_simps)
  moreover have "cos (x + y) \<le> 1" by simp
  moreover have "u = (1 - k) / 2 \<Longrightarrow> v = (k + m) / 2 \<Longrightarrow> m \<le> 1 \<Longrightarrow> u + v \<le> 1" for u v k m :: real
    by (simp add: field_simps)
  ultimately have "sin ((y - x) / 2) ^ 2 + cos x * cos y \<le> 1" by blast
  moreover have "cos x * cos y * w ^ 2 \<le> cos x * cos y" if "w ^ 2 \<le> 1"
    using mult_left_mono [OF that p] by simp
  ultimately show "sin ((y - x) / 2) ^ 2 + cos x * cos y * w ^ 2 \<le> 1 \<or> 1 < w ^ 2"
    by (metis add_left_mono linorder_not_less order_trans)
qed

lemma haversine_nonneg:
  assumes "\<bar>lat1\<bar> \<le> 90" "\<bar>lat2\<bar> \<le> 90"
  shows "0 \<le> haversineM lat1 lng1 lat2 lng2"
proof -
  let ?x = "lat1 * pi / 180" and ?y = "lat2 * pi / 180" and ?w = "sin ((lng2 - lng1) * pi / 180 / 2)"
  let ?a = "sin ((?y - ?x) / 2) ^ 2 + cos ?x * cos ?y * ?w ^ 2"
  note h = haversine_arg(1) [OF assms] haversine_arg(2) [OF assms, of ?w]
  have "?w ^ 2 \<le> 1" by (simp add: abs_square_le_1)
  then have "?a \<le> 1" using h(2) by linarith
  moreover have "0 \<le> ?a" by (rule add_nonneg_nonneg [OF zero_le_power2 mult_nonneg_nonneg [OF h(1) zero_le_power2]])
  ultimately have "0 \<le> sqrt ?a" "sqrt ?a \<le> 1" by simp_all
  then have "0 \<le> arcsin (sqrt ?a)" using arcsin_le_arcsin [of 0 "sqrt ?a"] by simp
  then show ?thesis by (simp add: haversineM_def Let_def left_diff_distrib diff_divide_distrib)
qed

lemma coord_dist_nonneg: "coord_ok p \<Longrightarrow> coord_ok q \<Longrightarrow> 0 \<le> coord_dist p q"
  by (cases p; cases q) (simp add: coord_dist_def coord_ok_def haversine_nonneg)

lemma coord_dist_self [simp]: "coord_dist p p = 0"
  by (cases p) (simp add: coord_dist_def haversineM_def)

lemma haversine_sym: "haversineM lat1 lng1 lat2 lng2 = haversineM lat2 lng2 lat1 lng1"
proof -
  have e: "sin ((a - b) * pi / 180 / 2) ^ 2 = sin ((b - a) * pi / 180 / 2) ^ 2" for a b :: real
  proof -
    have "(a - b) * pi / 180 / 2 = - ((b - a) * pi / 180 / 2)" by (simp add: field_simps)
    then show ?thesis by (simp only: sin_minus power2_minus)
  qed
  show ?thesis unfolding haversineM_def Let_def e [of lat2 lat1] e [of lng2 lng1] by (simp only: mult.commute)
qed

lemma coord_dist_sym: "coord_dist p q = coord_dist q p"
  by (cases p; cases q) (simp add: coord_dist_def haversine_sym)

section \<open>Resampled points\<close>

text \<open>Distances along a polyline never decrease.\<close>

lemma dists_length: "length (dists_from acc ps) = length ps - 1"
  by (induction acc ps rule: dists_from.induct) auto

lemma dists_mono:
  assumes "list_all coord_ok ps"
  shows "sorted (acc # dists_from acc ps)"
  using assms
proof (induction acc ps rule: dists_from.induct)
  case (1 acc p q ps)
  then have "0 \<le> coord_dist p q" by (simp add: coord_dist_nonneg)
  then show ?case using 1 by fastforce
qed simp_all

text \<open>The scan stops at the segment that holds the target.\<close>

lemma seg_scan_holds:
  assumes "2 \<le> length dists" "seg \<le> length dists - 2" "dists ! seg \<le> target" "target \<le> last dists"
  shows "seg_scan dists target seg \<le> length dists - 2 \<and> dists ! seg_scan dists target seg \<le> target
    \<and> target \<le> dists ! Suc (seg_scan dists target seg)"
  using assms
proof (induction dists target seg rule: seg_scan.induct)
  case (1 dists target seg)
  show ?case
  proof (cases "seg < length dists - 2 \<and> dists ! Suc seg < target")
    case True
    then have "seg_scan dists target seg = seg_scan dists target (Suc seg)" by (simp add: seg_scan.simps [of _ _ seg])
    then show ?thesis using 1 True by simp
  next
    case False
    then have eq: "seg_scan dists target seg = seg" by (subst seg_scan.simps) (simp only: if_False)
    have "target \<le> dists ! Suc seg"
    proof (cases "seg < length dists - 2")
      case last: False
      then have "Suc seg = length dists - 1" using 1(2,3) by simp
      moreover have "last dists = dists ! (length dists - 1)" using 1(2) by (intro last_conv_nth) auto
      ultimately show ?thesis using 1(5) by simp
    qed (use False in simp)
    then show ?thesis using 1 eq by simp
  qed
qed

text \<open>A sample lies on its segment, so it stays between the latitudes of the polyline.\<close>

lemma between_ok:
  fixes a b t :: real
  assumes "\<bar>a\<bar> \<le> 90" "\<bar>b\<bar> \<le> 90" "0 \<le> t" "t \<le> 1"
  shows "\<bar>a + t * (b - a)\<bar> \<le> 90"
proof -
  have "a + t * (b - a) = (1 - t) * a + t * b" by (simp add: algebra_simps)
  also have "\<bar>\<dots>\<bar> \<le> \<bar>(1 - t) * a\<bar> + \<bar>t * b\<bar>" by (rule abs_triangle_ineq)
  also have "\<dots> = (1 - t) * \<bar>a\<bar> + t * \<bar>b\<bar>" using assms by (simp add: abs_mult)
  also have "\<dots> \<le> (1 - t) * 90 + t * 90"
    using assms by (intro add_mono mult_left_mono) simp_all
  finally show ?thesis by simp
qed

lemma sample_ok:
  assumes "list_all coord_ok coords" "2 \<le> length coords" "0 \<le> target" "target \<le> last (0 # dists_from 0 coords)"
  shows "coord_ok (sample_at coords (0 # dists_from 0 coords) target)"
proof -
  let ?ds = "0 # dists_from 0 coords"
  let ?seg = "seg_scan ?ds target 0"
  have len: "length ?ds = length coords" using assms(2) by (simp add: dists_length)
  then have s: "?seg \<le> length ?ds - 2" "?ds ! ?seg \<le> target" "target \<le> ?ds ! Suc ?seg"
    using seg_scan_holds [of ?ds 0 target] assms(2-4) by simp_all
  let ?w = "?ds ! Suc ?seg - ?ds ! ?seg"
  let ?t = "if ?w = 0 then 0 else (target - ?ds ! ?seg) / ?w"
  have t: "0 \<le> ?t" "?t \<le> 1" using s(2,3) by (simp_all add: field_simps)
  have "Suc ?seg < length coords" using s(1) len assms(2) by simp
  then have "coord_ok (coords ! ?seg)" "coord_ok (coords ! Suc ?seg)" using assms(1) by (simp_all add: list_all_length)
  then have "\<bar>snd (coords ! ?seg) + ?t * (snd (coords ! Suc ?seg) - snd (coords ! ?seg))\<bar> \<le> 90"
    unfolding coord_ok_def by (rule between_ok [OF _ _ t])
  then show ?thesis unfolding sample_at_def Let_def coord_ok_def snd_conv .
qed

lemma resample_facts:
  assumes "resample coords n = Some r" "list_all coord_ok coords"
  shows "length r = n" "2 \<le> n \<Longrightarrow> list_all coord_ok r"
proof -
  show "length r = n" using assms(1) by (auto simp: resample_def Let_def split: list.splits if_splits)
  assume n: "2 \<le> n"
  show "list_all coord_ok r"
  proof (cases "2 \<le> length coords")
    case False
    then show ?thesis using assms by (cases coords) (auto simp: resample_def list_all_iff split: list.splits)
  next
    case True
    let ?ds = "0 # dists_from 0 coords"
    obtain p q ps where c: "coords = p # q # ps" using True by (cases coords rule: remdups_adj.cases) auto
    have "sorted ?ds" by (rule dists_mono [OF assms(2)])
    then have pos: "0 \<le> last ?ds" by (metis last_ConsL last_ConsR last_in_set list.discI order_refl sorted_simps(2))
    have "coord_ok (sample_at coords ?ds (real i / (real n - 1) * last ?ds))" if "i < n" for i
    proof (rule sample_ok [OF assms(2) True])
      have i: "real i / (real n - 1) \<le> 1" "0 \<le> real i / (real n - 1)" using n that by (simp_all add: field_simps)
      then show "0 \<le> real i / (real n - 1) * last ?ds" using pos by (intro mult_nonneg_nonneg)
      show "real i / (real n - 1) * last ?ds \<le> last ?ds" using mult_right_mono [OF i(1) pos] by simp
    qed
    moreover have "coord_ok p" using assms(2) c by simp
    ultimately show ?thesis
      using assms(1) unfolding c by (auto simp: resample_def Let_def list_all_iff split: if_splits)
  qed
qed

lemma resample_defined: "coords \<noteq> [] \<Longrightarrow> resample coords n \<noteq> None"
  by (auto simp: resample_def Let_def split: list.splits)

section \<open>The score\<close>

lemma nearest_fold:
  "\<exists>y. foldl (\<lambda>m q. Some (case m of None \<Rightarrow> coord_dist p q | Some x \<Rightarrow> min x (coord_dist p q))) (Some x) to = Some y
    \<and> y \<le> x \<and> (\<forall>q \<in> set to. y \<le> coord_dist p q) \<and> (y = x \<or> (\<exists>q \<in> set to. y = coord_dist p q))"
proof (induction to arbitrary: x)
  case (Cons q to)
  let ?z = "min x (coord_dist p q)"
  obtain y where y: "foldl (\<lambda>m q. Some (case m of None \<Rightarrow> coord_dist p q | Some x \<Rightarrow> min x (coord_dist p q))) (Some ?z) to = Some y"
    "y \<le> ?z" "\<forall>q \<in> set to. y \<le> coord_dist p q" "y = ?z \<or> (\<exists>q \<in> set to. y = coord_dist p q)"
    using Cons.IH by blast
  have "y = x \<or> (\<exists>q \<in> set (q # to). y = coord_dist p q)" using y(4) by (cases "x \<le> coord_dist p q") auto
  moreover have "y \<le> x" "y \<le> coord_dist p q" using y(2) by simp_all
  ultimately show ?case using y(1,3) by simp
qed simp

lemma nearest_dist_min:
  assumes "to \<noteq> []"
  obtains y where "nearest_dist p to = Some y" "\<And>q. q \<in> set to \<Longrightarrow> y \<le> coord_dist p q" "\<exists>q \<in> set to. y = coord_dist p q"
proof -
  obtain q qs where to: "to = q # qs" using assms by (cases to) auto
  from nearest_fold [of p "coord_dist p q" qs] that show thesis by (fastforce simp: nearest_dist_def to)
qed

lemma sum_nearest_ge:
  assumes "to \<noteq> []" "list_all coord_ok ps" "list_all coord_ok to"
  shows "\<exists>y. sum_nearest acc ps to = Some y \<and> acc \<le> y \<and> (set ps \<subseteq> set to \<longrightarrow> y = acc)"
  using assms(2)
proof (induction ps arbitrary: acc)
  case (Cons p ps)
  obtain m where m: "nearest_dist p to = Some m" "\<And>q. q \<in> set to \<Longrightarrow> m \<le> coord_dist p q" "\<exists>q \<in> set to. m = coord_dist p q"
    using nearest_dist_min [OF assms(1), of p] by blast
  then have pos: "0 \<le> m" using assms(3) Cons.prems by (auto simp: list_all_iff coord_dist_nonneg)
  have "m = 0" if "p \<in> set to" using m(2) [OF that] pos by simp
  moreover obtain y where "sum_nearest (acc + m) ps to = Some y" "acc + m \<le> y" "set ps \<subseteq> set to \<longrightarrow> y = acc + m"
    using Cons.IH [of "acc + m"] Cons.prems by auto
  ultimately show ?case using m(1) pos by auto
qed simp

lemma mean_nearest_ge:
  assumes "to \<noteq> []" "list_all coord_ok ps" "list_all coord_ok to"
  shows "\<exists>y. meanNearestNeighbour ps to = Some y \<and> 0 \<le> y \<and> (set ps \<subseteq> set to \<longrightarrow> y = 0)"
  using sum_nearest_ge [OF assms, of 0] by (auto simp: meanNearestNeighbour_def)

lemma score_polylines_range:
  assumes "list_all coord_ok p1" "list_all coord_ok p2" "p1 \<noteq> []" "p2 \<noteq> []" "0 < saturation"
  shows "\<exists>x. score_polylines saturation p1 p2 = Inr x \<and> 0 \<le> x \<and> x \<le> 1 \<and> (p1 = p2 \<longrightarrow> x = 1)"
proof -
  obtain r1 where r1: "resample p1 RESAMPLE_N = Some r1" using resample_defined [OF assms(3)] by fast
  obtain r2 where r2: "resample p2 RESAMPLE_N = Some r2" using resample_defined [OF assms(4)] by fast
  have ok: "list_all coord_ok r1" "list_all coord_ok r2" "length r1 = 25" "length r2 = 25"
    using resample_facts [OF r1 assms(1)] resample_facts [OF r2 assms(2)] by (simp_all add: RESAMPLE_N_def)
  then have ne: "r1 \<noteq> []" "r2 \<noteq> []" by auto
  obtain a where a: "meanNearestNeighbour r1 r2 = Some a" "0 \<le> a" "set r1 \<subseteq> set r2 \<longrightarrow> a = 0"
    using mean_nearest_ge [OF ne(2) ok(1,2)] by blast
  obtain b where b: "meanNearestNeighbour r2 r1 = Some b" "0 \<le> b" "set r2 \<subseteq> set r1 \<longrightarrow> b = 0"
    using mean_nearest_ge [OF ne(1) ok(2,1)] by blast
  have s: "score_polylines saturation p1 p2 = Inr (max 0 (1 - ((a + b) / 2) / saturation))"
    by (simp add: score_polylines_def r1 r2 a(1) b(1))
  have "0 \<le> ((a + b) / 2) / saturation" using a(2) b(2) assms(5) by simp
  moreover have "a = 0 \<and> b = 0" if "p1 = p2" using that r1 r2 a(3) b(3) by simp
  ultimately show ?thesis unfolding s by auto
qed

lemma score_polylines_sym: "score_polylines saturation p1 p2 = score_polylines saturation p2 p1"
  by (simp add: score_polylines_def add.commute split: option.splits)

end
