(* ===== verification/Matching.thy ===== *)
theory Matching
  imports Route_Similarity Scheduled Pool_Facts
begin

text \<open>
  Matching a shared request with a pool (\<open>MatchingService\<close>, matching.service.ts): candidates are scored
  without a lock, then tried best first under each pool's row lock, and a new pool is opened when none
  accepts. The scorer is an argument, instantiated by \<open>scoreRoutes\<close>; \<open>other n\<close> is what other sessions
  commit before the \<open>n\<close>-th transaction.
\<close>

section \<open>Configuration and request\<close>

record match_config =
  mc_similarityThreshold :: real
  mc_detourBudgetM :: real
  mc_maxSeats :: real

definition matchFromConfig :: "(string \<Rightarrow> raw_value) \<Rightarrow> config_error + match_config" where
  "matchFromConfig config =
     (case getNumber config ''MATCHING_SIMILARITY_THRESHOLD'' (7 / 10) (between 0 1) of Inl e \<Rightarrow> Inl e | Inr a \<Rightarrow>
     (case getNumber config ''MATCHING_DETOUR_BUDGET_M'' 800 (at_least 0) of Inl e \<Rightarrow> Inl e | Inr b \<Rightarrow>
     (case getNumber config ''MATCHING_MAX_SEATS'' 3 \<lparr>n_integer = True, n_min = Some 1, n_max = None\<rparr> of Inl e \<Rightarrow> Inl e | Inr c \<Rightarrow>
        Inr \<lparr>mc_similarityThreshold = a, mc_detourBudgetM = b, mc_maxSeats = c\<rparr>)))"

record shared_request =
  rq_passengerId :: uuid
  rq_originLat :: real
  rq_originLng :: real
  rq_destLat :: real
  rq_destLng :: real

definition request_route :: "shared_request \<Rightarrow> route_spec" where
  "request_route r = \<lparr>rs_originLat = rq_originLat r, rs_originLng = rq_originLng r, rs_destLat = rq_destLat r, rs_destLng = rq_destLng r\<rparr>"

definition pool_spec :: "shared_ride \<Rightarrow> route_spec" where
  "pool_spec p = \<lparr>rs_originLat = p_originLat p, rs_originLng = p_originLng p, rs_destLat = p_destLat p, rs_destLng = p_destLng p\<rparr>"

definition joiner_of :: "shared_request \<Rightarrow> instant \<Rightarrow> seat_member" where
  "joiner_of r joinedAt = \<lparr>mb_passengerId = rq_passengerId r, mb_originLat = rq_originLat r, mb_originLng = rq_originLng r,
     mb_destLat = rq_destLat r, mb_destLng = rq_destLng r, mb_joinedAt = joinedAt\<rparr>"

datatype existing_reason = ExistingMember | ExistingReplay

datatype conflict_reason = ConflictActivePool | ConflictRetries

datatype match_result =
    MatchSeat seat_outcome
  | MatchExisting existing_reason uuid
  | MatchConflict conflict_reason "uuid option"

datatype match_error = Match_route route_error | Match_db db_error

section \<open>Scoring\<close>

type_synonym scorer = "route_spec \<Rightarrow> route_spec \<Rightarrow> route_error + real"

definition detours :: "shared_request \<Rightarrow> shared_ride \<Rightarrow> real \<times> real" where
  "detours r p =
     (coord_dist (rq_originLng r, rq_originLat r) (p_originLng p, p_originLat p),
      coord_dist (rq_destLng r, rq_destLat r) (p_destLng p, p_destLat p))"

definition within_budget :: "shared_request \<Rightarrow> shared_ride \<Rightarrow> bool" where
  "within_budget r p = (case detours r p of (a, b) \<Rightarrow> a \<le> real_of_int (p_detourBudgetM p) \<and> b \<le> real_of_int (p_detourBudgetM p))"

fun qualify :: "scorer \<Rightarrow> match_config \<Rightarrow> shared_request \<Rightarrow> shared_ride list \<Rightarrow> route_error + (shared_ride \<times> real) list" where
  "qualify score mc r [] = Inr []"
| "qualify score mc r (p # ps) =
     (case score (request_route r) (pool_spec p) of
        Inl e \<Rightarrow> Inl e
      | Inr x \<Rightarrow>
          if x < mc_similarityThreshold mc \<or> \<not> within_budget r p then qualify score mc r ps
          else (case qualify score mc r ps of
                  Inl e \<Rightarrow> Inl e
                | Inr qs \<Rightarrow> Inr ((p, x - 5 / 10000 * (fst (detours r p) + snd (detours r p))) # qs)))"

text \<open>\<open>sort\<close> is stable, best composite first.\<close>

definition rank :: "(shared_ride \<times> real) list \<Rightarrow> shared_ride list" where
  "rank qs = map fst (sort_key (\<lambda>(p, c). - c) qs)"

section \<open>Trying the candidates\<close>

record tx_env =
  te_xid :: uuid
  te_abort :: "nat \<Rightarrow> db_error option"
  te_now :: "nat \<Rightarrow> instant"
  te_clk :: "nat \<Rightarrow> instant"
  te_reread :: "db \<Rightarrow> uuid \<Rightarrow> shared_ride option"

definition join_answer :: "uuid \<Rightarrow> join_reject \<times> uuid option \<Rightarrow> match_result option" where
  "join_answer i r =
     (case r of
        (JoinInsert AlreadyMember, ex) \<Rightarrow> Some (MatchExisting ExistingMember (case ex of None \<Rightarrow> i | Some x \<Rightarrow> x))
      | (JoinInsert IdempotentReplay, ex) \<Rightarrow> Some (MatchExisting ExistingReplay (case ex of None \<Rightarrow> i | Some x \<Rightarrow> x))
      | (JoinInsert PassengerHasActivePool, ex) \<Rightarrow> Some (MatchConflict ConflictActivePool ex)
      | _ \<Rightarrow> None)"

definition slotted :: "uuid \<Rightarrow> joined \<Rightarrow> seat_outcome" where
  "slotted i c = \<lparr>so_sharedRideId = i, so_mode = SeatSlotted, so_poolStatus = (if jn_closedFull c then ClosedFull else PoolOpen),
     so_seatCount = jn_seatCount c, so_quote = jn_quote c\<rparr>"

fun try_pools ::
  "seat_member \<Rightarrow> quoter \<Rightarrow> seat_idempotency \<Rightarrow> (nat \<Rightarrow> tx_env) \<Rightarrow> (nat \<Rightarrow> db \<Rightarrow> db) \<Rightarrow> nat \<Rightarrow> shared_ride list \<Rightarrow> db
   \<Rightarrow> (db_error + match_result option \<times> pool_effect list) \<times> db" where
  "try_pools j quote ik env other n [] s = (Inr (None, []), s)"
| "try_pools j quote ik env other n (p # ps) s =
     (case joinPool (p_rideId p) j quote ik (te_xid (env n)) (te_abort (env n)) (te_now (env n)) (te_clk (env n))
             (te_reread (env n)) (other n s) of
        (Inl e, s') \<Rightarrow> (Inl e, s')
      | (Inr (Inr c, eff), s') \<Rightarrow> (Inr (Some (MatchSeat (slotted (p_rideId p) c)), eff), s')
      | (Inr (Inl r, _), s') \<Rightarrow>
          (case join_answer (p_rideId p) r of
             Some a \<Rightarrow> (Inr (Some a, []), s')
           | None \<Rightarrow> try_pools j quote ik env other (Suc n) ps s'))"

definition open_answer :: "open_reject \<Rightarrow> match_result" where
  "open_answer r =
     (case r of
        OpenReplay (Some i) \<Rightarrow> MatchExisting ExistingReplay i
      | OpenReplay None \<Rightarrow> MatchConflict ConflictActivePool None
      | OpenActivePool ex \<Rightarrow> MatchConflict ConflictActivePool ex
      | OpenConflict \<Rightarrow> MatchConflict ConflictRetries None)"

text \<open>A pool's capacity and detour budget are integer columns; the insert of any other number fails.\<close>

definition as_integer :: "real \<Rightarrow> int option" where
  "as_integer x = (if x = real_of_int \<lfloor>x\<rfloor> then Some \<lfloor>x\<rfloor> else None)"

definition open_new ::
  "match_config \<Rightarrow> seat_member \<Rightarrow> uuid \<Rightarrow> int \<Rightarrow> quoter \<Rightarrow> seat_idempotency \<Rightarrow> tx_env \<Rightarrow> db
   \<Rightarrow> (db_error + match_result \<times> pool_effect list) \<times> db" where
  "open_new mc j i timeoutMs quote ik te s =
     (case (as_integer (mc_maxSeats mc), as_integer (mc_detourBudgetM mc)) of
        (Some seats, Some budget) \<Rightarrow>
          (case openPool \<lparr>op_maxSeats = seats, op_detourBudgetM = budget, op_opener = j\<rparr> i (te_xid te) timeoutMs quote ik
                  (te_abort te) (te_now te) (te_clk te) (te_reread te) s of
             (Inl e, s') \<Rightarrow> (Inl e, s')
           | (Inr (Inl r, _), s') \<Rightarrow> (Inr (open_answer r, []), s')
           | (Inr (Inr c, eff), s') \<Rightarrow>
               (Inr (MatchSeat \<lparr>so_sharedRideId = i, so_mode = SeatOpened, so_poolStatus = PoolOpen,
                       so_seatCount = (case te_reread te s' i of None \<Rightarrow> on_seatCount c | Some p \<Rightarrow> p_seatCount p),
                       so_quote = on_quote c\<rparr>, eff), s'))
      | _ \<Rightarrow> (Inl (App_error ''invalid input syntax for type integer''), s))"

definition findOrCreatePool ::
  "scorer \<Rightarrow> match_config \<Rightarrow> (shared_ride \<Rightarrow> bool) \<Rightarrow> shared_request \<Rightarrow> instant \<Rightarrow> uuid \<Rightarrow> int \<Rightarrow> quoter \<Rightarrow> seat_idempotency
   \<Rightarrow> (nat \<Rightarrow> tx_env) \<Rightarrow> (nat \<Rightarrow> db \<Rightarrow> db) \<Rightarrow> db \<Rightarrow> (match_error + match_result \<times> pool_effect list) \<times> db" where
  "findOrCreatePool score mc near r joinedAt i timeoutMs quote ik env other s =
     (case qualify score mc r (findCandidates near s) of
        Inl e \<Rightarrow> (Inl (Match_route e), s)
      | Inr qs \<Rightarrow>
          (case try_pools (joiner_of r joinedAt) quote ik env other 0 (rank qs) s of
             (Inl e, s') \<Rightarrow> (Inl (Match_db e), s')
           | (Inr (Some a, eff), s') \<Rightarrow> (Inr (a, eff), s')
           | (Inr (None, _), s') \<Rightarrow>
               (case open_new mc (joiner_of r joinedAt) i timeoutMs quote ik (env (length qs)) (other (length qs) s') of
                  (Inl e, s'') \<Rightarrow> (Inl (Match_db e), s'')
                | (Inr x, s'') \<Rightarrow> (Inr x, s''))))"

definition findSeatByIdempotencyKey :: "db \<Rightarrow> uuid \<Rightarrow> string \<Rightarrow> seat_lookup option" where
  "findSeatByIdempotencyKey s pid key = findByIdempotencyKey s pid key"

section \<open>What a match writes\<close>

text \<open>A retried transaction either commits once, from the state it began in, or leaves it alone.\<close>

lemma retry_from_outcome:
  assumes "\<And>m e s1. run m s = (Inl e, s1) \<Longrightarrow> s1 = s"
  shows "retry_from k n run x s = (r, s') \<Longrightarrow>
    s' = s \<and> (r = Inr x \<or> (\<exists>e. r = Inl e)) \<or> (\<exists>m a. run m s = (Inr a, s') \<and> r = Inr a)"
proof (induction k arbitrary: n)
  case 0
  then show ?case using assms
    by (auto simp: retry_from.simps [of 0] split: prod.splits sum.splits if_splits)
next
  case (Suc k)
  obtain r1 s1 where run: "run n s = (r1, s1)" by force
  show ?case
  proof (cases r1)
    case (Inr a)
    then show ?thesis using Suc.prems run by (auto simp: retry_from.simps [of "Suc k"])
  next
    case (Inl e)
    then have "s1 = s" using assms run by blast
    then show ?thesis using Suc run Inl by (auto simp: retry_from.simps [of "Suc k"] split: if_splits)
  qed
qed

lemma inTx_cases:
  assumes "inTx abort body x s = (r, s')"
  obtains (none) "s' = s" "r = Inr x \<or> (\<exists>e. r = Inl e)" | (commit) m a where "body m s = Inr (a, s')" "r = Inr a"
proof -
  have "s' = s \<and> (r = Inr x \<or> (\<exists>e. r = Inl e)) \<or>
    (\<exists>m a. (case abort m of Some e \<Rightarrow> (Inl e, s) | None \<Rightarrow> transaction (body m) s) = (Inr a, s') \<and> r = Inr a)"
    using assms unfolding inTx_def
    by (intro retry_from_outcome) (auto simp: transaction_def split: option.splits sum.splits)
  then show thesis using none commit
    by (auto simp: transaction_def split: option.splits sum.splits)
qed

lemma joinPool_cases:
  assumes "joinPool i j quote ik xi abort now clk reread s = (res, s')"
  obtains (err) e where "res = Inl e" "s' = s"
  | (no) r where "res = Inr (Inl r, [])" "s' = s"
  | (seat) c eff m where "res = Inr (Inr c, eff)" "join_tx i j quote ik xi (now m) (clk m) s = Inr (Inr c, s')"
proof -
  obtain r s1 where t: "inTx abort (\<lambda>n. join_tx i j quote ik xi (now n) (clk n)) (Inl (JoinConflict, None)) s = (r, s1)"
    by force
  then have s1: "s' = s1" using assms by (auto simp: joinPool_def split: sum.splits)
  from t show thesis
  proof (cases rule: inTx_cases)
    case none
    then show thesis using assms t s1 err no by (auto simp: joinPool_def)
  next
    case (commit m a)
    show thesis
    proof (cases a)
      case (Inl x)
      then have "s1 = s" using commit(1) by (auto elim: join_tx_cases seat_joiner_cases)
      then show thesis using assms t s1 commit Inl by (intro no [of x]) (auto simp: joinPool_def)
    next
      case (Inr c)
      then show thesis using assms t s1 commit seat by (auto simp: joinPool_def)
    qed
  qed
qed

lemma openPool_cases:
  assumes "openPool o_p i xi tmo quote ik abort now clk reread s = (res, s')"
  obtains (err) e where "res = Inl e" "s' = s"
  | (no) r where "res = Inr (Inl r, [])" "s' = s"
  | (opened) c eff m where "res = Inr (Inr c, eff)" "open_tx o_p i xi tmo quote ik (now m) (clk m) s = Inr (Inr c, s')"
proof -
  obtain r s1 where t: "inTx abort (\<lambda>n. open_tx o_p i xi tmo quote ik (now n) (clk n)) (Inl OpenConflict) s = (r, s1)"
    by force
  then have s1: "s' = s1" using assms by (auto simp: openPool_def split: sum.splits)
  from t show thesis
  proof (cases rule: inTx_cases)
    case none
    then show thesis using assms t s1 err no by (auto simp: openPool_def)
  next
    case (commit m a)
    show thesis
    proof (cases a)
      case (Inl x)
      then have "s1 = s" using commit(1) by (auto elim: open_tx_cases)
      then show thesis using assms t s1 commit Inl no by (auto simp: openPool_def)
    next
      case (Inr c)
      then show thesis using assms t s1 commit opened by (auto simp: openPool_def)
    qed
  qed
qed

text \<open>The seat a committed join or open leaves behind.\<close>

lemma closeInTxn_members:
  assumes "closeInTxn pool reason xi now s = Inr (g, s')" "\<not> terminal_pool reason"
  shows "pool_members s' = pool_members s"
proof -
  let ?s1 = "update_pools (open_at (p_rideId pool)) (close_row reason now) now s"
  have m1: "pool_members ?s1 = pool_members s"
    unfolding update_pools_members by (rule upd_id) (use assms(2) in \<open>simp add: releases_def close_row_def\<close>)
  have ins: "insertItinerary i stops u = Inr (x, u') \<Longrightarrow> pool_members u' = pool_members u" for i stops u x u'
    by (auto simp: insertItinerary_def Let_def split: if_splits)
  from assms(1) show ?thesis
    by (auto simp: closeInTxn_def closeOpen_def m1 split: option.splits sum.splits dest!: ins enqueue_sel(5))
qed

definition holds_seat :: "db \<Rightarrow> uuid \<Rightarrow> uuid \<Rightarrow> int \<Rightarrow> string option \<Rightarrow> bool" where
  "holds_seat s i pid fare key \<longleftrightarrow>
     list_ex (\<lambda>m. m_poolId m = i \<and> m_passengerId m = pid \<and> m_active m \<and> m_agreedFareCents m = Some fare
       \<and> m_idempotencyKey m = key) (pool_members s)"

lemma holds_seatI:
  assumes "pool_members s = ms @ [new_member i j fare key now]"
  shows "holds_seat s i (mb_passengerId j) fare key"
  by (simp add: holds_seat_def assms new_member_def)

lemma join_tx_seat:
  assumes "join_tx i j quote ik xi now clk s = Inr (Inr c, s')"
  obtains pool ctx where "pool_row s i = Some pool" "p_poolState pool = PoolOpen" "p_seatCount pool < p_maxSeats pool"
    "quote ctx = Inr (jn_quote c)" "fc_passengerId ctx = mb_passengerId j" "fc_seatCount ctx = p_seatCount pool + 1"
    "fc_originLat ctx = mb_originLat j" "fc_originLng ctx = mb_originLng j" "fc_destLat ctx = mb_destLat j" "fc_destLng ctx = mb_destLng j"
    "holds_seat s' i (mb_passengerId j) (sq_perSeatPrice (jn_quote c)) (seat_key ik)"
  using assms
proof (cases rule: join_tx_cases)
  case (seat pool q)
  let ?ctx = "seat_context i j (p_seatCount pool + 1) (p_originLat pool) (p_originLng pool)
    (filter (\<lambda>m. mb_passengerId m \<noteq> mb_passengerId j) (listMembers s i) @ [j])"
  have i: "p_rideId pool = i" by (rule row_key [OF seat(1)])
  from seat(5) show thesis
  proof (cases rule: seat_joiner_cases)
    case (seated p s1 g s2)
    have "pool_members s1 = pool_members s @ [new_member i j (sq_perSeatPrice q) (seat_key ik) now]"
      using seated(1) i by (auto elim: insert_member_row_cases)
    moreover have "pool_members s2 = pool_members s1"
      using seated(3) by (auto split: if_splits dest: closeInTxn_members)
    ultimately have "pool_members s' = pool_members s @ [new_member i j (sq_perSeatPrice q) (seat_key ik) now]"
      by (simp add: seated(5))
    then have "holds_seat s' i (mb_passengerId j) (sq_perSeatPrice q) (seat_key ik)" by (rule holds_seatI)
    moreover have "jn_quote c = q" using seated(4) by simp
    ultimately show thesis
      by (intro that [of pool ?ctx]) (use seat in \<open>simp_all add: seat_context_def\<close>)
  qed simp
qed simp

lemma open_tx_seat:
  assumes "open_tx o_p i xi tmo quote ik now clk s = Inr (Inr c, s')" "j = op_opener o_p"
  obtains ctx where "quote ctx = Inr (on_quote c)" "fc_passengerId ctx = mb_passengerId j" "fc_seatCount ctx = 1"
    "fc_originLat ctx = mb_originLat j" "fc_originLng ctx = mb_originLng j" "fc_destLat ctx = mb_destLat j" "fc_destLng ctx = mb_destLng j"
    "holds_seat s' i (mb_passengerId j) (sq_perSeatPrice (on_quote c)) (seat_key ik)"
  using assms(1)
proof (cases rule: open_tx_cases)
  case (opened s1 s2 s3 q b)
  have "pool_members s2 = pool_members s1 @ [new_member i j (sq_perSeatPrice q) (seat_key ik) now]"
    using opened(3) assms(2) by (auto elim: insert_member_row_cases)
  moreover have "pool_members s' = pool_members s2" using enqueue_sel(5) [OF opened(4)] by (simp add: opened(6))
  ultimately have "holds_seat s' i (mb_passengerId j) (sq_perSeatPrice q) (seat_key ik)" by (intro holds_seatI) simp
  moreover have "on_quote c = q" using opened(5) by simp
  ultimately show thesis
    by (intro that [of "seat_context i j 1 (mb_originLat j) (mb_originLng j) [j]"])
      (use opened(2) assms(2) in \<open>simp_all add: seat_context_def\<close>)
qed simp

section \<open>A whole match\<close>

lemma qualify_mem:
  assumes "qualify score mc r ps = Inr qs" "p \<in> fst ` set qs"
  shows "p \<in> set ps \<and> (\<exists>x. score (request_route r) (pool_spec p) = Inr x \<and> mc_similarityThreshold mc \<le> x) \<and> within_budget r p"
  using assms
proof (induction ps arbitrary: qs)
  case (Cons a ps)
  then obtain x where x: "score (request_route r) (pool_spec a) = Inr x" by (auto split: sum.splits)
  show ?case
  proof (cases "x < mc_similarityThreshold mc \<or> \<not> within_budget r a")
    case True
    then have "qualify score mc r ps = Inr qs" using Cons.prems(1) x by simp
    then show ?thesis using Cons.IH Cons.prems(2) by simp
  next
    case False
    then obtain rest where "qualify score mc r ps = Inr rest" "fst ` set qs = insert a (fst ` set rest)"
      using Cons.prems(1) x by (auto split: sum.splits)
    then show ?thesis using Cons.IH [of rest] Cons.prems(2) x False by auto
  qed
qed simp

lemma rank_set [simp]: "set (rank qs) = fst ` set qs"
  by (simp add: rank_def)

text \<open>What holds at the start and what other sessions keep holds before the transaction that seats.\<close>

lemma try_pools_inv:
  assumes "try_pools j quote ik env other n ps s = (res, s')" "P s" "\<And>n t. P t \<Longrightarrow> P (other n t)"
  shows "(\<exists>out eff. res = Inr (Some (MatchSeat out), eff) \<and>
      (\<exists>p \<in> set ps. \<exists>c xi now clk s1. out = slotted (p_rideId p) c \<and> P s1
         \<and> join_tx (p_rideId p) j quote ik xi now clk s1 = Inr (Inr c, s')))
    \<or> (\<forall>out eff. res \<noteq> Inr (Some (MatchSeat out), eff)) \<and> P s'"
  using assms(1,2)
proof (induction ps arbitrary: n s)
  case (Cons p ps)
  let ?e = "env n"
  obtain r1 s1 where jp: "joinPool (p_rideId p) j quote ik (te_xid ?e) (te_abort ?e) (te_now ?e) (te_clk ?e) (te_reread ?e) (other n s)
      = (r1, s1)"
    by force
  have P: "P (other n s)" using Cons.prems(2) assms(3) by blast
  from jp show ?case
  proof (cases rule: joinPool_cases)
    case err
    then show ?thesis using Cons.prems jp P by auto
  next
    case (no r)
    have "try_pools j quote ik env other (Suc n) ps s1 = (res, s') \<or> (\<exists>a. join_answer (p_rideId p) r = Some a \<and> res = Inr (Some a, []) \<and> s' = s1)"
      using Cons.prems(1) jp no by (auto split: option.splits)
    then show ?thesis
    proof (elim disjE exE conjE)
      assume "try_pools j quote ik env other (Suc n) ps s1 = (res, s')"
      from Cons.IH [OF this] P no show ?thesis by auto
    next
      fix a assume a: "join_answer (p_rideId p) r = Some a" "res = Inr (Some a, [])" "s' = s1"
      then have "a \<noteq> MatchSeat out" for out
        by (auto simp: join_answer_def split: prod.splits join_reject.splits insert_failure.splits)
      then show ?thesis using a P no by auto
    qed
  next
    case (seat c eff' m)
    then have r: "res = Inr (Some (MatchSeat (slotted (p_rideId p) c)), eff')" "s' = s1" using Cons.prems jp by auto
    show ?thesis
      by (rule disjI1, rule exI, rule exI, rule conjI [OF r(1)]) (use seat(2) r P in fastforce)
  qed
qed auto

lemma try_pools_seat:
  assumes "try_pools j quote ik env other n ps s = (Inr (Some (MatchSeat out), eff), s')" "P s" "\<And>n t. P t \<Longrightarrow> P (other n t)"
  shows "\<exists>p \<in> set ps. \<exists>c xi now clk s1. out = slotted (p_rideId p) c \<and> P s1
    \<and> join_tx (p_rideId p) j quote ik xi now clk s1 = Inr (Inr c, s')"
  using try_pools_inv [of j quote ik env other n ps s _ s' P, OF assms] by auto

lemma open_new_cases:
  assumes "open_new mc j i tmo quote ik te s = (res, s')"
  obtains (no) "s' = s" "\<And>out eff. res \<noteq> Inr (MatchSeat out, eff)"
  | (opened) c eff out o_p m where "res = Inr (MatchSeat out, eff)" "so_sharedRideId out = i" "so_quote out = on_quote c"
      "so_mode out = SeatOpened" "so_poolStatus out = PoolOpen" "op_opener o_p = j"
      "open_tx o_p i (te_xid te) tmo quote ik (te_now te m) (te_clk te m) s = Inr (Inr c, s')"
proof (cases "(as_integer (mc_maxSeats mc), as_integer (mc_detourBudgetM mc))")
  case (Pair a b)
  show thesis
  proof (cases "a \<noteq> None \<and> b \<noteq> None")
    case False
    then show thesis using assms Pair by (intro no) (auto simp: open_new_def split: option.splits)
  next
    case True
    then obtain x y where xy: "as_integer (mc_maxSeats mc) = Some x" "as_integer (mc_detourBudgetM mc) = Some y"
      using Pair by auto
    let ?p = "\<lparr>op_maxSeats = x, op_detourBudgetM = y, op_opener = j\<rparr>"
    obtain r1 s1 where op: "openPool ?p i (te_xid te) tmo quote ik (te_abort te) (te_now te) (te_clk te) (te_reread te) s = (r1, s1)"
      by force
    from op show thesis
    proof (cases rule: openPool_cases)
      case err
      then show thesis using assms xy op by (intro no) (auto simp: open_new_def)
    next
      case (no r)
      then have "s' = s" "res = Inr (open_answer r, [])" using assms xy op by (simp_all add: open_new_def)
      moreover have "open_answer r \<noteq> MatchSeat out" for out
        by (cases r) (auto simp: open_answer_def split: option.splits)
      ultimately show thesis by (intro that(1)) auto
    next
      case (opened c eff m)
      then show thesis using assms xy op by (intro that(2) [where o_p = ?p]) (auto simp: open_new_def)
    qed
  qed
qed

lemma match_cases_inv:
  assumes "findOrCreatePool score mc near r t i tmo quote ik env other s = (Inr (MatchSeat out, eff), s')"
    and P: "P s" "\<And>n t. P t \<Longrightarrow> P (other n t)"
  obtains (join) pool c xi now clk s1 where "out = slotted (p_rideId pool) c" "pool \<in> set (findCandidates near s)"
      "\<exists>x. score (request_route r) (pool_spec pool) = Inr x \<and> mc_similarityThreshold mc \<le> x" "within_budget r pool"
      "join_tx (p_rideId pool) (joiner_of r t) quote ik xi now clk s1 = Inr (Inr c, s')" "P s1"
  | (opened) c o_p xi now clk s1 where "so_sharedRideId out = i" "so_quote out = on_quote c" "so_mode out = SeatOpened"
      "op_opener o_p = joiner_of r t" "open_tx o_p i xi tmo quote ik now clk s1 = Inr (Inr c, s')" "P s1"
      "out = \<lparr>so_sharedRideId = i, so_mode = SeatOpened, so_poolStatus = PoolOpen, so_seatCount = so_seatCount out, so_quote = on_quote c\<rparr>"
proof -
  obtain qs where qs: "qualify score mc r (findCandidates near s) = Inr qs"
    using assms by (auto simp: findOrCreatePool_def split: sum.splits)
  let ?j = "joiner_of r t"
  obtain r1 s1 where tp: "try_pools ?j quote ik env other 0 (rank qs) s = (r1, s1)" by force
  show thesis
  proof (cases "\<exists>a eff. r1 = Inr (Some a, eff)")
    case True
    then have "r1 = Inr (Some (MatchSeat out), eff)" "s1 = s'"
      using assms(1) qs tp by (auto simp: findOrCreatePool_def)
    then have "try_pools ?j quote ik env other 0 (rank qs) s = (Inr (Some (MatchSeat out), eff), s')" using tp by simp
    from try_pools_seat [of _ _ _ _ _ _ _ _ _ _ _ P, OF this P] obtain p c xi now clk s0 where p: "p \<in> set (rank qs)" "out = slotted (p_rideId p) c" "P s0"
        "join_tx (p_rideId p) ?j quote ik xi now clk s0 = Inr (Inr c, s')"
      by blast
    then show thesis using qualify_mem [OF qs, of p] by (intro join [OF p(2) _ _ _ p(4,3)]) simp_all
  next
    case False
    then obtain e where r1: "r1 = Inr (None, e)"
      using assms(1) qs tp by (auto simp: findOrCreatePool_def split: sum.splits option.splits prod.splits)
    have "P s1" using try_pools_inv [of _ _ _ _ _ _ _ _ _ _ P, OF tp P] r1 by auto
    let ?n = "length qs"
    obtain r2 s2 where on: "open_new mc ?j i tmo quote ik (env ?n) (other ?n s1) = (r2, s2)" by force
    then have "r2 = Inr (MatchSeat out, eff)" "s2 = s'"
      using assms(1) qs tp r1 by (auto simp: findOrCreatePool_def split: sum.splits)
    with on show thesis
      using \<open>P s1\<close> P(2) by (cases rule: open_new_cases) (auto intro: opened)
  qed
qed

lemma match_cases:
  assumes "findOrCreatePool score mc near r t i tmo quote ik env other s = (Inr (MatchSeat out, eff), s')"
  obtains (join) pool c xi now clk s1 where "out = slotted (p_rideId pool) c" "pool \<in> set (findCandidates near s)"
      "\<exists>x. score (request_route r) (pool_spec pool) = Inr x \<and> mc_similarityThreshold mc \<le> x" "within_budget r pool"
      "join_tx (p_rideId pool) (joiner_of r t) quote ik xi now clk s1 = Inr (Inr c, s')"
  | (opened) c o_p xi now clk s1 where "so_sharedRideId out = i" "so_quote out = on_quote c" "so_mode out = SeatOpened"
      "op_opener o_p = joiner_of r t" "open_tx o_p i xi tmo quote ik now clk s1 = Inr (Inr c, s')"
  by (rule match_cases_inv [OF assms, of "\<lambda>_. True"]) (use join opened in auto)

text \<open>Without a seat, the database has changed by other sessions only.\<close>

lemma match_no_seat:
  assumes "findOrCreatePool score mc near r t i tmo quote ik env other s = (res, s')"
    and "\<And>out eff. res \<noteq> Inr (MatchSeat out, eff)"
    and P: "P s" "\<And>n t. P t \<Longrightarrow> P (other n t)"
  shows "P s'"
proof (cases "qualify score mc r (findCandidates near s)")
  case (Inl e)
  then show ?thesis using assms by (simp add: findOrCreatePool_def)
next
  case (Inr qs)
  obtain r1 s1 where tp: "try_pools (joiner_of r t) quote ik env other 0 (rank qs) s = (r1, s1)" by force
  have "r1 \<noteq> Inr (Some (MatchSeat out), eff)" for out eff
  proof
    assume "r1 = Inr (Some (MatchSeat out), eff)"
    then have "res = Inr (MatchSeat out, eff)" using assms(1) Inr tp by (simp add: findOrCreatePool_def)
    then show False using assms(2) by blast
  qed
  then have s1: "P s1" using try_pools_inv [of _ _ _ _ _ _ _ _ _ _ P, OF tp P] by blast
  obtain r2 s2 where on: "open_new mc (joiner_of r t) i tmo quote ik (env (length qs)) (other (length qs) s1) = (r2, s2)" by force
  show ?thesis
  proof (cases "\<exists>e. r1 = Inr (None, e)")
    case True
    then have r: "s' = s2" "res = (case r2 of Inl e \<Rightarrow> Inl (Match_db e) | Inr x \<Rightarrow> Inr x)"
      using assms(1) Inr tp on by (auto simp: findOrCreatePool_def split: sum.splits)
    from on show ?thesis
    proof (cases rule: open_new_cases)
      case no
      then show ?thesis using r s1 P(2) by simp
    next
      case (opened c eff out o_p m)
      then have "res = Inr (MatchSeat out, eff)" using r(2) by simp
      then show ?thesis using assms(2) by blast
    qed
  next
    case False
    then show ?thesis using assms(1) Inr tp s1
      by (auto simp: findOrCreatePool_def split: sum.splits option.splits prod.splits)
  qed
qed

text \<open>With no other session at work, anything but a seat leaves the database alone.\<close>

lemma match_quiet:
  assumes "findOrCreatePool score mc near r t i tmo quote ik env (\<lambda>_ s. s) s = (res, s')"
    and "\<And>out eff. res \<noteq> Inr (MatchSeat out, eff)"
  shows "s' = s"
  by (rule match_no_seat [where P = "\<lambda>t. t = s", OF assms]) simp_all

end
