(* ===== verification/Reconciler.thy ===== *)
theory Reconciler
  imports System
begin

text \<open>
  The periodic repair of lost work (\<open>DispatchReconciler\<close>, dispatch-reconciler.service.ts): trips that
  should have work in flight are compared with the queues, and a missing intent is re-armed or a
  missing timer restored. BullMQ is outside the repository: the states it reports are the argument
  \<open>rc_jobs\<close>, and what the pass asks of it is a list of operations.
\<close>

section \<open>Environment and report\<close>

datatype job_state = Waiting | Delayed | Active_job | Prioritized | Waiting_children | Completed_job | Failed_job

definition LIVE_STATES :: "job_state set" where
  "LIVE_STATES = {Waiting, Delayed, Active_job, Prioritized, Waiting_children}"

definition GRACE_MS :: int where
  "GRACE_MS = 15000"

definition MAX_PER_PASS :: nat where
  "MAX_PER_PASS = 500"

record recon_env =
  rc_params :: dispatch_params
  rc_poolTimeoutMs :: int
  rc_clk :: instant \<comment> \<open>the process's clock\<close>
  rc_now :: instant \<comment> \<open>the database's clock\<close>
  rc_jobs :: "string \<Rightarrow> string \<Rightarrow> job_state option" \<comment> \<open>queue, job id\<close>
  rc_down :: "uuid \<Rightarrow> bool" \<comment> \<open>Redis fails while this trip is examined\<close>
  rc_xid :: "uuid \<Rightarrow> uuid"

datatype queue_op = RemoveJob string string | QueueAdd job

record reconcile_report =
  rp_wakeRearmed :: nat
  rp_dispatchRearmed :: nat
  rp_timersRestored :: nat
  rp_scheduledRetried :: nat
  rp_poolExpireRearmed :: nat
  rp_outbox :: "outbox_stats option"

definition empty_report :: reconcile_report where
  "empty_report = \<lparr>rp_wakeRearmed = 0, rp_dispatchRearmed = 0, rp_timersRestored = 0, rp_scheduledRetried = 0,
     rp_poolExpireRearmed = 0, rp_outbox = None\<rparr>"

record pass_state =
  ps_db :: db
  ps_report :: reconcile_report
  ps_ops :: "queue_op list"

text \<open>A visit answers whether it threw; what it wrote before that stays.\<close>

type_synonym visit = "pass_state \<Rightarrow> bool \<times> pass_state"

definition hasLiveJob :: "recon_env \<Rightarrow> string \<Rightarrow> string list \<Rightarrow> bool" where
  "hasLiveJob e q ids =
     list_ex (\<lambda>i. case rc_jobs e q i of None \<Rightarrow> False | Some st \<Rightarrow> st \<in> LIVE_STATES) ids"

definition removeFinished :: "recon_env \<Rightarrow> string \<Rightarrow> string \<Rightarrow> queue_op list" where
  "removeFinished e q i =
     (case rc_jobs e q i of None \<Rightarrow> [] | Some st \<Rightarrow> if st \<in> LIVE_STATES then [] else [RemoveJob q i])"

text \<open>Re-arm the intent, or write it when there is none.\<close>

definition rearm_intent :: "recon_env \<Rightarrow> message \<Rightarrow> db \<Rightarrow> db option" where
  "rearm_intent e m s =
     (case rearm (g_topic m) (g_aggregateId m) (g_generation m) (rc_now e) (outbox s) of
        (True, t) \<Rightarrow> Some (s\<lparr>outbox := t\<rparr>)
      | (False, t) \<Rightarrow>
          (case enqueueOutbox m (rc_xid e (g_aggregateId m)) (rc_now e) (s\<lparr>outbox := t\<rparr>) of
             Inl err \<Rightarrow> None
           | Inr (_, s') \<Rightarrow> Some s'))"

text \<open>The queue operations of a visit, then its intent, then its line of the report.\<close>

definition repair :: "recon_env \<Rightarrow> queue_op list \<Rightarrow> message \<Rightarrow> (reconcile_report \<Rightarrow> reconcile_report) \<Rightarrow> visit" where
  "repair e ops m tally ps =
     (let ps1 = ps\<lparr>ps_ops := ps_ops ps @ ops\<rparr>
      in case rearm_intent e m (ps_db ps) of
           None \<Rightarrow> (True, ps1)
         | Some s' \<Rightarrow> (False, ps1\<lparr>ps_db := s', ps_report := tally (ps_report ps)\<rparr>))"

section \<open>Is dispatch in flight?\<close>

definition offerSummary :: "db \<Rightarrow> trip_ref \<Rightarrow> int \<Rightarrow> nat \<times> instant option" where
  "offerSummary s t g =
     (let ts = map o_offeredAt (filter (\<lambda>x. o_trip x = t \<and> o_generation x = g) (offers s))
      in (length ts, case ts of [] \<Rightarrow> None | a # as \<Rightarrow> Some (foldr min as a)))"

definition dispatch_message :: "dispatch_kind \<Rightarrow> uuid \<Rightarrow> int \<Rightarrow> message" where
  "dispatch_message kind i g =
     (case kind of KindSolo \<Rightarrow> ride_dispatch_message i g | KindPool \<Rightarrow> pool_dispatch_message i g ClosedTimeout)"

definition hard_fail_job :: "dispatch_kind \<Rightarrow> uuid \<Rightarrow> int \<Rightarrow> int \<Rightarrow> job" where
  "hard_fail_job kind i g delay =
     \<lparr>j_queue = ''dispatch'', j_name = ''dispatch:hard-fail'', j_id = hardFailJobId i g, j_data = HardFailData kind i g, j_delay = delay\<rparr>"

definition wave2_job :: "dispatch_kind \<Rightarrow> uuid \<Rightarrow> int \<Rightarrow> int \<Rightarrow> job" where
  "wave2_job kind i g delay =
     \<lparr>j_queue = ''dispatch'', j_name = ''dispatch:wave-timeout'', j_id = wave2JobId i g, j_data = Wave2Data kind i g, j_delay = delay\<rparr>"

text \<open>Wave 1 offered at \<open>base\<close>: restore the timers that are gone, with what is left of their delay.\<close>

definition restore_timers :: "recon_env \<Rightarrow> dispatch_kind \<Rightarrow> uuid \<Rightarrow> int \<Rightarrow> int \<Rightarrow> int \<Rightarrow> bool \<Rightarrow> instant \<Rightarrow> visit" where
  "restore_timers e kind i g wave hard hasHardFail base ps =
     (let hf = (if hasHardFail then []
                else removeFinished e ''dispatch'' (hardFailJobId i g)
                     @ [QueueAdd (hard_fail_job kind i g (max 0 (base + hard - rc_clk e)))]);
          w2 = (if rc_clk e < base + wave \<and> \<not> hasLiveJob e ''dispatch'' [wave2JobId i g, legacyWave2JobId i]
                then removeFinished e ''dispatch'' (wave2JobId i g)
                     @ [QueueAdd (wave2_job kind i g (max 0 (base + wave - rc_clk e)))] else []);
          n = (if hf = [] then 0 else 1) + (if w2 = [] then 0 else 1)
      in (False, ps\<lparr>ps_ops := ps_ops ps @ hf @ w2,
            ps_report := (ps_report ps)\<lparr>rp_timersRestored := rp_timersRestored (ps_report ps) + n\<rparr>\<rparr>))"

definition reconcileDispatching ::
  "recon_env \<Rightarrow> dispatch_kind \<Rightarrow> uuid \<Rightarrow> int \<Rightarrow> bool \<Rightarrow> instant \<Rightarrow> visit" where
  "reconcileDispatching e kind i g scheduled idleSince ps =
     (let c = rc_params e;
          (wave, hard) = (if scheduled then scheduledWindow c else (waveOneTimeoutMs c, hardFailMs c));
          startId = dispatchStartJobId i g
      in if rc_down e i then (True, ps)
         else if hasLiveJob e ''dispatch'' [startId] then (False, ps)
         else let (offered, first) = offerSummary (ps_db ps) (trip_of kind i) g;
                  hasHardFail = hasLiveJob e ''dispatch'' [hardFailJobId i g, legacyHardFailJobId i]
           in if scheduled \<and> \<not> hasHardFail
                 \<and> (case first of None \<Rightarrow> idleSince | Some t \<Rightarrow> t) + hard \<le> rc_clk e
              then (case transaction (rearmScheduledRide i (Some g) (rc_xid e i) (rc_now e) (rc_now e)) (ps_db ps) of
                      (Inl err, s') \<Rightarrow> (True, ps)
                    | (Inr None, s') \<Rightarrow> (False, ps\<lparr>ps_db := s'\<rparr>)
                    | (Inr (Some _), s') \<Rightarrow>
                        (False, ps\<lparr>ps_db := s', ps_report := (ps_report ps)
                           \<lparr>rp_scheduledRetried := Suc (rp_scheduledRetried (ps_report ps))\<rparr>\<rparr>))
              else if \<not> hasHardFail \<and> offered = 0
              then repair e (removeFinished e ''dispatch'' startId @ removeFinished e ''dispatch'' (hardFailJobId i g))
                     (dispatch_message kind i g) (\<lambda>r. r\<lparr>rp_dispatchRearmed := Suc (rp_dispatchRearmed r)\<rparr>) ps
              else (case first of
                      None \<Rightarrow> (False, ps)
                    | Some base \<Rightarrow> restore_timers e kind i g wave hard hasHardFail base ps))"

section \<open>The pass\<close>

text \<open>The visits of a step in turn; the first that throws ends the step.\<close>

fun each :: "('a \<Rightarrow> visit) \<Rightarrow> 'a list \<Rightarrow> pass_state \<Rightarrow> pass_state" where
  "each v [] ps = ps"
| "each v (x # xs) ps = (case v x ps of (True, ps') \<Rightarrow> ps' | (False, ps') \<Rightarrow> each v xs ps')"

definition wake_visit :: "recon_env \<Rightarrow> ride \<Rightarrow> visit" where
  "wake_visit e r ps =
     (case r_scheduledFor r of
        None \<Rightarrow> (False, ps)
      | Some t \<Rightarrow>
          if rc_down e (r_id r) then (True, ps)
          else if hasLiveJob e ''scheduled-dispatch'' [scheduledWakeJobId (r_id r) 1, legacyWakeJobId (r_id r)] then (False, ps)
          else repair e (removeFinished e ''scheduled-dispatch'' (scheduledWakeJobId (r_id r) 1)) (wake_message (r_id r) t)
                 (\<lambda>p. p\<lparr>rp_wakeRearmed := Suc (rp_wakeRearmed p)\<rparr>) ps)"

definition reconcileUnwokenScheduled :: "recon_env \<Rightarrow> pass_state \<Rightarrow> pass_state" where
  "reconcileUnwokenScheduled e ps =
     each (wake_visit e) (take MAX_PER_PASS
       (filter (\<lambda>r. r_type r = Scheduled \<and> r_status r = Requested \<and> r_dispatchGeneration r = 0) (rides (ps_db ps)))) ps"

definition solo_visit :: "recon_env \<Rightarrow> ride \<Rightarrow> visit" where
  "solo_visit e r = reconcileDispatching e KindSolo (r_id r) (r_dispatchGeneration r) (r_type r = Scheduled) (r_updatedAt r)"

definition reconcileSoloDispatch :: "recon_env \<Rightarrow> pass_state \<Rightarrow> pass_state" where
  "reconcileSoloDispatch e ps =
     each (solo_visit e) (take MAX_PER_PASS
       (filter (\<lambda>r. r_status r = Requested \<and> 0 < r_dispatchGeneration r \<and> r_updatedAt r < rc_now e - GRACE_MS) (rides (ps_db ps)))) ps"

definition expire_visit :: "recon_env \<Rightarrow> shared_ride \<Rightarrow> visit" where
  "expire_visit e p ps =
     (if rc_down e (p_rideId p) then (True, ps)
      else if hasLiveJob e ''matching'' [poolExpireJobId (p_rideId p), legacyPoolExpireJobId (p_rideId p)] then (False, ps)
      else repair e (removeFinished e ''matching'' (poolExpireJobId (p_rideId p)))
             (pool_expire_message (p_rideId p)
               (case p_poolClosedAt p of None \<Rightarrow> p_poolOpenedAt p + rc_poolTimeoutMs e | Some t \<Rightarrow> t))
             (\<lambda>r. r\<lparr>rp_poolExpireRearmed := Suc (rp_poolExpireRearmed r)\<rparr>) ps)"

definition reconcileOpenPools :: "recon_env \<Rightarrow> pass_state \<Rightarrow> pass_state" where
  "reconcileOpenPools e ps =
     each (expire_visit e) (take MAX_PER_PASS
       (filter (\<lambda>p. p_poolState p = PoolOpen \<and> p_updatedAt p < rc_now e - GRACE_MS) (shared_rides (ps_db ps)))) ps"

definition pool_visit :: "recon_env \<Rightarrow> shared_ride \<Rightarrow> visit" where
  "pool_visit e p = reconcileDispatching e KindPool (p_rideId p) (p_dispatchGeneration p) False (rc_clk e)"

definition reconcileClosedPools :: "recon_env \<Rightarrow> pass_state \<Rightarrow> pass_state" where
  "reconcileClosedPools e ps =
     each (pool_visit e) (take MAX_PER_PASS
       (filter (\<lambda>p. p_poolState p \<in> {ClosedFull, ClosedTimeout} \<and> p_claimedByDriverId p = None
          \<and> 0 < p_dispatchGeneration p \<and> p_updatedAt p < rc_now e - GRACE_MS) (shared_rides (ps_db ps)))) ps"

text \<open>The four steps, each with its own view of the world (\<open>en\<close>), then the outbox statistics.\<close>

definition reconcile_pass :: "(nat \<Rightarrow> recon_env) \<Rightarrow> db \<Rightarrow> pass_state" where
  "reconcile_pass en s =
     (let ps0 = \<lparr>ps_db = s, ps_report = empty_report, ps_ops = []\<rparr>;
          ps4 = reconcileClosedPools (en 3) (reconcileOpenPools (en 2) (reconcileSoloDispatch (en 1)
                  (reconcileUnwokenScheduled (en 0) ps0)))
      in ps4\<lparr>ps_report := (ps_report ps4)\<lparr>rp_outbox := Some (stats (rc_now (en 4)) (outbox (ps_db ps4)))\<rparr>\<rparr>)"

section \<open>Every write is a transaction of the system\<close>

definition message_ok :: "message \<Rightarrow> bool" where
  "message_ok m \<longleftrightarrow> known_topic (g_topic m) \<and> isUuid (g_aggregateId m) \<and> (g_topic m = RideWakeSchedule \<longrightarrow> g_generation m = 1)"

definition pending_intent :: "outbox_row list \<Rightarrow> topic \<Rightarrow> uuid \<Rightarrow> int \<Rightarrow> bool" where
  "pending_intent t tp i g \<longleftrightarrow> list_ex (\<lambda>x. intent_of tp i g x \<and> \<not> settled x) t"

lemma rearm_pending:
  assumes "rearm tp i g now t = (True, t')"
  shows "pending_intent t' tp i g"
proof -
  from assms obtain x where x: "x \<in> set t" "intent_of tp i g x" by (auto simp: rearm_def list_ex_iff)
  show ?thesis
  proof (cases "settled x")
    case True
    let ?f = "\<lambda>x. x\<lparr>x_processedAt := None, x_failedAt := None, x_attempts := 0, x_availableAt := now,
                 x_leaseToken := None, x_leasedUntil := None\<rparr>"
    have "?f x \<in> set t'" using assms x True by (force simp: rearm_def set_upd)
    moreover have "intent_of tp i g (?f x)" "\<not> settled (?f x)" using x by (simp_all add: intent_of_def settled_def)
    ultimately show ?thesis unfolding pending_intent_def list_ex_iff by blast
  next
    case False
    then have "x \<in> set t'" using assms x by (force simp: rearm_def set_upd)
    then show ?thesis using x False by (auto simp: pending_intent_def list_ex_iff)
  qed
qed

lemma rearm_none:
  assumes "rearm tp i g now t = (False, t')"
  shows "t' = t" "\<not> has_intent t tp i g"
  using assms by (auto simp: rearm_def list_ex_iff intent_of_def has_intent_def intro!: upd_id)

lemma rearm_intent_run:
  assumes "rearm_intent e m s = Some s'" "message_ok m" "sys_ok s"
  shows "db_step s s' \<and> (\<exists>t. s' = s\<lparr>outbox := t\<rparr>) \<and> pending_intent (outbox s') (g_topic m) (g_aggregateId m) (g_generation m)"
proof (cases "rearm (g_topic m) (g_aggregateId m) (g_generation m) (rc_now e) (outbox s)")
  case (Pair found t)
  show ?thesis
  proof (cases found)
    case True
    then have s': "s' = s\<lparr>outbox := t\<rparr>" using assms(1) Pair by (simp add: rearm_intent_def)
    have "relay_tx (outbox s) (snd (rearm (g_topic m) (g_aggregateId m) (g_generation m) (rc_now e) (outbox s)))"
      by (rule relay_tx.intros)
    then have "db_step s s'" unfolding s' using Pair by (intro s_relay) simp
    then show ?thesis using rearm_pending Pair True s' by auto
  next
    case False
    then have f: "rearm (g_topic m) (g_aggregateId m) (g_generation m) (rc_now e) (outbox s) = (False, t)" using Pair by simp
    note none = rearm_none [OF f]
    obtain b where c: "enqueueOutbox m (rc_xid e (g_aggregateId m)) (rc_now e) s = Inr (b, s')"
      using assms(1) f none(1) by (auto simp: rearm_intent_def split: sum.splits)
    have "db_step s s'" using s_enqueue [OF c] assms(2) by (simp add: message_ok_def)
    moreover have "(\<exists>t. s' = s\<lparr>outbox := t\<rparr>) \<and> pending_intent (outbox s') (g_topic m) (g_aggregateId m) (g_generation m)"
      using c
    proof (cases rule: enqueueOutbox_cases)
      case dup
      have "0 \<le> g_generation m" using c by (simp add: enqueueOutbox_def split: if_splits)
      then have "has_intent (outbox s') (g_topic m) (g_aggregateId m) (g_generation m)"
        using assms(2,3) by (intro enqueueOutbox_has_intent [OF c]) (simp_all add: sys_ok_def intents_ok_def message_ok_def)
      then show ?thesis using none(2) dup by simp
    next
      case new
      then show ?thesis by (auto simp: pending_intent_def intent_of_def settled_def)
    qed
    ultimately show ?thesis by simp
  qed
qed

text \<open>What a pass may not touch: pools, seats, stops, assignments, and every ride that is not waiting.\<close>

definition untouched :: "db \<Rightarrow> db \<Rightarrow> bool" where
  "untouched s s' \<longleftrightarrow> shared_rides s' = shared_rides s \<and> pool_members s' = pool_members s \<and> ride_stops s' = ride_stops s
     \<and> assignments s' = assignments s
     \<and> (\<forall>i r. ride_row s i = Some r \<and> \<not> rearmable None r \<longrightarrow> ride_row s' i = Some r)"

lemma untouched_refl [simp]: "untouched s s"
  by (simp add: untouched_def)

lemma untouched_trans: "untouched s t \<Longrightarrow> untouched t u \<Longrightarrow> untouched s u"
  by (simp add: untouched_def)

lemma untouched_outbox [simp]: "untouched s (s\<lparr>outbox := t\<rparr>)"
  by (simp add: untouched_def)

definition good_visit :: "visit \<Rightarrow> bool" where
  "good_visit v \<longleftrightarrow> (\<forall>ps. sys_ok (ps_db ps) \<longrightarrow>
     db_step\<^sup>*\<^sup>* (ps_db ps) (ps_db (snd (v ps))) \<and> untouched (ps_db ps) (ps_db (snd (v ps))))"

lemma repair_run:
  assumes "message_ok m"
  shows "good_visit (repair e ops m tally)"
  unfolding good_visit_def
proof (intro allI impI)
  fix ps :: pass_state
  assume ok: "sys_ok (ps_db ps)"
  show "db_step\<^sup>*\<^sup>* (ps_db ps) (ps_db (snd (repair e ops m tally ps))) \<and> untouched (ps_db ps) (ps_db (snd (repair e ops m tally ps)))"
  proof (cases "rearm_intent e m (ps_db ps)")
    case None
    then show ?thesis by (simp add: repair_def Let_def)
  next
    case (Some s')
    then have "db_step (ps_db ps) s'" "untouched (ps_db ps) s'" using rearm_intent_run [OF Some assms ok] by auto
    then show ?thesis using Some by (simp add: repair_def Let_def)
  qed
qed

lemma rearm_untouched:
  assumes "rearmScheduledRide i expected x now ct s = Inr (res, s')" "distinct (map r_id (rides s))"
  shows "untouched s s'"
  using assms(1)
proof (cases rule: rearm_cases)
  case (retry r s2 b)
  note sel = enqueue_sel [OF retry(5)]
  have rs: "rides s' = upd (\<lambda>x. r_id x = i \<and> r_dispatchGeneration x = r_dispatchGeneration r)
      (set_generation (r_dispatchGeneration r + 1) now) (rides s)"
    using sel(1) retry(4) by simp
  have "ride_row s' j = Some q" if "ride_row s j = Some q" "\<not> rearmable None q" for j q
  proof -
    have "\<not> (r_id q = i \<and> r_dispatchGeneration q = r_dispatchGeneration r)"
    proof
      assume a: "r_id q = i \<and> r_dispatchGeneration q = r_dispatchGeneration r"
      then have "j = i" using row_key [OF that(1)] by simp
      then have "q = r" using that(1) retry(1) by simp
      then show False using that(2) retry(2) by (simp add: rearmable_def)
    qed
    then show ?thesis
      using row_upd [of r_id "set_generation (r_dispatchGeneration r + 1) now"
          "\<lambda>x. r_id x = i \<and> r_dispatchGeneration x = r_dispatchGeneration r" "rides s" j] that(1)
      by (auto simp: rs)
  qed
  moreover have "shared_rides s' = shared_rides s" "pool_members s' = pool_members s" "ride_stops s' = ride_stops s"
      "assignments s' = assignments s"
    using sel(2,3,5,6) retry(4) by simp_all
  ultimately show ?thesis unfolding untouched_def by blast
qed simp

lemma dispatching_run:
  assumes "isUuid i"
  shows "good_visit (reconcileDispatching e kind i g scheduled idleSince)"
  unfolding good_visit_def
proof (intro allI impI)
  fix ps :: pass_state
  assume ok: "sys_ok (ps_db ps)"
  let ?m = "dispatch_message kind i g"
  have m: "message_ok ?m"
    using assms by (cases kind) (simp_all add: message_ok_def dispatch_message_def ride_dispatch_message_def pool_dispatch_message_def)
  let ?P = "\<lambda>ps'. db_step\<^sup>*\<^sup>* (ps_db ps) (ps_db ps') \<and> untouched (ps_db ps) (ps_db ps')"
  have rep: "?P (snd (repair e ops ?m tally ps))" for ops tally
    using repair_run [OF m] ok by (simp add: good_visit_def)
  have tim: "?P (snd (restore_timers e kind i g wave hard hf base ps))" for wave hard hf base
    by (simp add: restore_timers_def Let_def)
  have re: "?P (ps\<lparr>ps_db := s', ps_report := rep\<rparr>)" "?P (ps\<lparr>ps_db := s'\<rparr>)"
    if "transaction (rearmScheduledRide i (Some g) x now ct) (ps_db ps) = (Inr res, s')" for x now ct res s' rep
  proof -
    have c: "rearmScheduledRide i (Some g) x now ct (ps_db ps) = Inr (res, s')"
      using that by (auto simp: transaction_def split: sum.splits)
    show "?P (ps\<lparr>ps_db := s', ps_report := rep\<rparr>)" "?P (ps\<lparr>ps_db := s'\<rparr>)"
      using s_rearm [OF c] rearm_untouched [OF c sys_distinct [OF ok]] by auto
  qed
  show "?P (snd (reconcileDispatching e kind i g scheduled idleSince ps))"
    unfolding reconcileDispatching_def
    using rep tim re by (auto simp: Let_def split: prod.splits option.splits sum.splits if_splits)
qed

lemma each_run:
  assumes "\<And>x. x \<in> set xs \<Longrightarrow> good_visit (v x)" "sys_ok (ps_db ps)"
  shows "db_step\<^sup>*\<^sup>* (ps_db ps) (ps_db (each v xs ps)) \<and> untouched (ps_db ps) (ps_db (each v xs ps))"
  using assms
proof (induction xs arbitrary: ps)
  case (Cons x xs)
  obtain b ps' where v: "v x ps = (b, ps')" by force
  then have *: "db_step\<^sup>*\<^sup>* (ps_db ps) (ps_db ps')" "untouched (ps_db ps) (ps_db ps')"
    using Cons.prems(1) [of x] Cons.prems(2) by (auto simp: good_visit_def dest!: spec [of _ ps])
  then have "sys_ok (ps_db ps')" using run_good [OF *(1) Cons.prems(2)] by (simp add: good_step_def)
  from Cons.IH [OF Cons.prems(1) this] show ?case
    using * v by (cases b) (auto intro: rtranclp_trans untouched_trans)
qed simp

text \<open>The trips of a step are read once, and their ids are uuids whatever the earlier visits did.\<close>

lemma step_run:
  assumes "sys_ok (ps_db ps)"
  shows "db_step\<^sup>*\<^sup>* (ps_db ps) (ps_db (reconcileUnwokenScheduled e ps)) \<and> untouched (ps_db ps) (ps_db (reconcileUnwokenScheduled e ps))"
    "db_step\<^sup>*\<^sup>* (ps_db ps) (ps_db (reconcileSoloDispatch e ps)) \<and> untouched (ps_db ps) (ps_db (reconcileSoloDispatch e ps))"
    "db_step\<^sup>*\<^sup>* (ps_db ps) (ps_db (reconcileOpenPools e ps)) \<and> untouched (ps_db ps) (ps_db (reconcileOpenPools e ps))"
    "db_step\<^sup>*\<^sup>* (ps_db ps) (ps_db (reconcileClosedPools e ps)) \<and> untouched (ps_db ps) (ps_db (reconcileClosedPools e ps))"
proof -
  have r: "isUuid (r_id r)" if "r \<in> set (rides (ps_db ps))" for r
    using assms that by (simp add: sys_ok_def intents_ok_def uuid_ids_def list_all_iff)
  have p: "isUuid (p_rideId p)" if "p \<in> set (shared_rides (ps_db ps))" for p
    using assms that by (simp add: sys_ok_def intents_ok_def uuid_ids_def list_all_iff)
  have wake: "good_visit (wake_visit e q)" if "q \<in> set (rides (ps_db ps))" for q
  proof -
    have "message_ok (wake_message (r_id q) t)" for t using r [OF that] by (simp add: message_ok_def wake_message_def)
    then have "good_visit (repair e ops (wake_message (r_id q) t) tally)" for t ops tally by (rule repair_run)
    then show ?thesis unfolding good_visit_def wake_visit_def by (auto split: option.splits)
  qed
  have expire: "good_visit (expire_visit e q)" if "q \<in> set (shared_rides (ps_db ps))" for q
  proof -
    have "message_ok (pool_expire_message (p_rideId q) t)" for t using p [OF that] by (simp add: message_ok_def pool_expire_message_def)
    then have "good_visit (repair e ops (pool_expire_message (p_rideId q) t) tally)" for t ops tally by (rule repair_run)
    then show ?thesis unfolding good_visit_def expire_visit_def by auto
  qed
  have tk: "x \<in> set (take n (filter P xs)) \<Longrightarrow> x \<in> set xs" for x :: 'a and n P xs by (auto dest: in_set_takeD)
  have tk': "x \<in> set (take n (filter P xs)) \<Longrightarrow> x \<in> set xs" for x :: ride and n P xs by (auto dest: in_set_takeD)
  have tk'': "x \<in> set (take n (filter P xs)) \<Longrightarrow> x \<in> set xs" for x :: shared_ride and n P xs by (auto dest: in_set_takeD)
  show "db_step\<^sup>*\<^sup>* (ps_db ps) (ps_db (reconcileUnwokenScheduled e ps)) \<and> untouched (ps_db ps) (ps_db (reconcileUnwokenScheduled e ps))"
    unfolding reconcileUnwokenScheduled_def by (rule each_run [OF wake assms]) (rule tk')
  show "db_step\<^sup>*\<^sup>* (ps_db ps) (ps_db (reconcileSoloDispatch e ps)) \<and> untouched (ps_db ps) (ps_db (reconcileSoloDispatch e ps))"
    unfolding reconcileSoloDispatch_def by (rule each_run [OF _ assms]) (auto simp: solo_visit_def intro!: dispatching_run r dest: tk')
  show "db_step\<^sup>*\<^sup>* (ps_db ps) (ps_db (reconcileOpenPools e ps)) \<and> untouched (ps_db ps) (ps_db (reconcileOpenPools e ps))"
    unfolding reconcileOpenPools_def by (rule each_run [OF expire assms]) (rule tk'')
  show "db_step\<^sup>*\<^sup>* (ps_db ps) (ps_db (reconcileClosedPools e ps)) \<and> untouched (ps_db ps) (ps_db (reconcileClosedPools e ps))"
    unfolding reconcileClosedPools_def by (rule each_run [OF _ assms]) (auto simp: pool_visit_def intro!: dispatching_run p dest: tk'')
qed

lemma pass_run:
  assumes "sys_ok s"
  shows "db_step\<^sup>*\<^sup>* s (ps_db (reconcile_pass en s)) \<and> untouched s (ps_db (reconcile_pass en s))"
proof -
  define p0 where "p0 = \<lparr>ps_db = s, ps_report = empty_report, ps_ops = []\<rparr>"
  define p1 where "p1 = reconcileUnwokenScheduled (en 0) p0"
  define p2 where "p2 = reconcileSoloDispatch (en 1) p1"
  define p3 where "p3 = reconcileOpenPools (en 2) p2"
  have good: "sys_ok t" if "db_step\<^sup>*\<^sup>* s t" for t using run_good [OF that assms] by (simp add: good_step_def)
  have p0: "ps_db p0 = s" by (simp add: p0_def)
  have s1: "db_step\<^sup>*\<^sup>* s (ps_db p1)" "untouched s (ps_db p1)"
    using step_run(1) [of p0 "en 0"] assms by (simp_all add: p0 p1_def)
  have s2: "db_step\<^sup>*\<^sup>* s (ps_db p2)" "untouched s (ps_db p2)"
    using step_run(2) [of p1 "en 1", OF good [OF s1(1)]] s1 unfolding p2_def by (blast intro: rtranclp_trans untouched_trans)+
  have s3: "db_step\<^sup>*\<^sup>* s (ps_db p3)" "untouched s (ps_db p3)"
    using step_run(3) [of p2 "en 2", OF good [OF s2(1)]] s2 unfolding p3_def by (blast intro: rtranclp_trans untouched_trans)+
  have "db_step\<^sup>*\<^sup>* s (ps_db (reconcileClosedPools (en 3) p3)) \<and> untouched s (ps_db (reconcileClosedPools (en 3) p3))"
    using step_run(4) [of p3 "en 3", OF good [OF s3(1)]] s3 by (blast intro: rtranclp_trans untouched_trans)
  then show ?thesis by (simp add: reconcile_pass_def Let_def p0_def p1_def p2_def p3_def)
qed

section \<open>After a visit there is work in flight\<close>

definition kind_topic :: "dispatch_kind \<Rightarrow> topic" where
  "kind_topic kind = (case kind of KindSolo \<Rightarrow> RideDispatchRequested | KindPool \<Rightarrow> PoolDispatchRequested)"

definition work_in_flight :: "recon_env \<Rightarrow> dispatch_kind \<Rightarrow> uuid \<Rightarrow> int \<Rightarrow> pass_state \<Rightarrow> bool" where
  "work_in_flight e kind i g ps \<longleftrightarrow>
     hasLiveJob e ''dispatch'' [dispatchStartJobId i g, hardFailJobId i g, legacyHardFailJobId i]
     \<or> list_ex (\<lambda>x. case x of QueueAdd j \<Rightarrow> j_id j = hardFailJobId i g \<and> j_data j = HardFailData kind i g | _ \<Rightarrow> False) (ps_ops ps)
     \<or> pending_intent (outbox (ps_db ps)) (kind_topic kind) i g"

lemma repair_pending:
  assumes "repair e ops m tally ps = (False, ps')" "message_ok m" "sys_ok (ps_db ps)"
  shows "pending_intent (outbox (ps_db ps')) (g_topic m) (g_aggregateId m) (g_generation m)"
  using assms rearm_intent_run [of e m "ps_db ps"] by (auto simp: repair_def Let_def split: option.splits)

lemma dispatching_in_flight:
  assumes "reconcileDispatching e kind i g scheduled idleSince ps = (False, ps')" "sys_ok (ps_db ps)" "isUuid i"
  shows "work_in_flight e kind i g ps'
    \<or> scheduled \<and> (\<exists>res. rearmScheduledRide i (Some g) (rc_xid e i) (rc_now e) (rc_now e) (ps_db ps) = Inr (res, ps_db ps'))"
proof -
  have m: "message_ok (dispatch_message kind i g)" "g_topic (dispatch_message kind i g) = kind_topic kind"
    "g_aggregateId (dispatch_message kind i g) = i" "g_generation (dispatch_message kind i g) = g"
    using assms(3) by (cases kind; simp add: message_ok_def kind_topic_def dispatch_message_def ride_dispatch_message_def pool_dispatch_message_def)+
  obtain offered first where sm: "offerSummary (ps_db ps) (trip_of kind i) g = (offered, first)" by force
  have none: "offered = 0" if "first = None" using sm that by (auto simp: offerSummary_def Let_def split: list.splits)
  obtain wave hard where wh: "(if scheduled then scheduledWindow (rc_params e) else (waveOneTimeoutMs (rc_params e), hardFailMs (rc_params e))) = (wave, hard)"
    by force
  let ?start = "hasLiveJob e ''dispatch'' [dispatchStartJobId i g]"
  let ?hf = "hasLiveJob e ''dispatch'' [hardFailJobId i g, legacyHardFailJobId i]"
  have queued: "work_in_flight e kind i g ps'" if "?start \<or> ?hf"
    using that by (auto simp: work_in_flight_def hasLiveJob_def)
  let ?late = "scheduled \<and> \<not> ?hf \<and> (case first of None \<Rightarrow> idleSince | Some t \<Rightarrow> t) + hard \<le> rc_clk e"
  have up: "\<not> rc_down e i" using assms(1) by (auto simp: reconcileDispatching_def Let_def wh split: if_splits)
  have some: "\<exists>base. first = Some base" if "offered \<noteq> 0" using none that by (cases first) simp_all
  consider (live) "?start \<or> ?hf" | (late) "\<not> ?start" ?late | (idle) "\<not> ?start" "\<not> ?late" "\<not> ?hf" "offered = 0"
    | (timers) base where "\<not> ?start" "\<not> ?late" "\<not> ?hf" "offered \<noteq> 0" "first = Some base"
    using some by blast
  then show ?thesis
  proof cases
    case live
    then show ?thesis using queued by blast
  next
    case late
    let ?out = "transaction (rearmScheduledRide i (Some g) (rc_xid e i) (rc_now e) (rc_now e)) (ps_db ps)"
    obtain r t where out: "?out = (r, t)" by force
    have w: "scheduledWindow (rc_params e) = (wave, hard)" using wh late by simp
    have "(case r of Inl err \<Rightarrow> (True, ps) | Inr None \<Rightarrow> (False, ps\<lparr>ps_db := t\<rparr>) | Inr (Some _) \<Rightarrow>
        (False, ps\<lparr>ps_db := t, ps_report := (ps_report ps)\<lparr>rp_scheduledRetried := Suc (rp_scheduledRetried (ps_report ps))\<rparr>\<rparr>)) = (False, ps')"
      using assms(1) up late out by (simp add: reconcileDispatching_def Let_def w sm)
    then have "\<exists>res. ?out = (Inr res, ps_db ps')" using out by (auto split: sum.splits option.splits)
    then show ?thesis using late by (auto simp: transaction_def split: sum.splits prod.splits)
  next
    case idle
    let ?ops = "removeFinished e ''dispatch'' (dispatchStartJobId i g) @ removeFinished e ''dispatch'' (hardFailJobId i g)"
    from idle have r: "repair e ?ops (dispatch_message kind i g) (\<lambda>r. r\<lparr>rp_dispatchRearmed := Suc (rp_dispatchRearmed r)\<rparr>) ps = (False, ps')"
      using assms(1) up by (auto simp: reconcileDispatching_def Let_def wh sm)
    show ?thesis using repair_pending [OF r m(1) assms(2)] m(2-4) by (auto simp: work_in_flight_def)
  next
    case timers
    then have "restore_timers e kind i g wave hard ?hf base ps = (False, ps')"
      using assms(1) up by (auto simp: reconcileDispatching_def Let_def wh sm)
    then show ?thesis
      using timers(3) by (auto simp: work_in_flight_def restore_timers_def Let_def hard_fail_job_def)
  qed
qed

end
