(* ===== verification/Tokens.thy ===== *)
theory Tokens
  imports Schema
begin

text \<open>
  Signed tokens: the quote token that locks a fare (\<open>QuoteTokenService\<close>, quote-token.service.ts), the
  access token (access-token.ts) and the guard that asks for it (auth.guard.ts). Both are signed by one
  JwtService with one key. That library is outside the repository: it is the argument \<open>j\<close>, and
  \<open>jwt_laws\<close> states what its documentation promises. Claims hold reals, so the type of tokens stays open.
\<close>

section \<open>The library\<close>

text \<open>Claims locked into a quote.\<close>

record quote_claims =
  qc_originLat :: real
  qc_originLng :: real
  qc_destLat :: real
  qc_destLng :: real
  qc_soloFareCents :: int
  qc_distanceM :: real
  qc_durationS :: real

record access_claims =
  ac_sub :: string
  ac_role :: user_role
  ac_authMethod :: string

text \<open>A signed body: what a quote carries, or the access claims under their \<open>typ\<close>.\<close>

datatype jwt_body = QuoteBody quote_claims | TypedBody string access_claims

datatype jwt_error = TokenExpiredError | JsonWebTokenError

text \<open>\<open>jw_sign\<close>: body, issuer, audience, lifetime in seconds, clock. \<open>jw_verify\<close>: token, issuer, audience, clock.\<close>

record 't jwt =
  jw_sign :: "jwt_body \<Rightarrow> string \<Rightarrow> string option \<Rightarrow> int \<Rightarrow> instant \<Rightarrow> 't"
  jw_verify :: "'t \<Rightarrow> string \<Rightarrow> string option \<Rightarrow> instant \<Rightarrow> jwt_error + jwt_body"

text \<open>Times are whole seconds: a token expires when \<open>exp\<close> is reached.\<close>

definition seconds :: "instant \<Rightarrow> int" where
  "seconds ms = ms div 1000"

definition jwt_laws :: "'t jwt \<Rightarrow> bool" where
  "jwt_laws j \<longleftrightarrow>
     (\<forall>b iss aud ttl t u want. seconds u < seconds t + ttl \<and> (want = None \<or> want = aud) \<longrightarrow>
        jw_verify j (jw_sign j b iss aud ttl t) iss want u = Inr b)
     \<and> (\<forall>b iss aud ttl t u iss' want. seconds t + ttl \<le> seconds u \<longrightarrow>
        jw_verify j (jw_sign j b iss aud ttl t) iss' want u = Inl TokenExpiredError)
     \<and> (\<forall>b iss aud ttl t u iss' want b'. iss' \<noteq> iss \<or> want \<noteq> None \<and> want \<noteq> aud \<longrightarrow>
        jw_verify j (jw_sign j b iss aud ttl t) iss' want u \<noteq> Inr b')
     \<and> (\<forall>tok iss want u b. jw_verify j tok iss want u = Inr b \<longrightarrow>
        (\<exists>aud ttl t. tok = jw_sign j b iss aud ttl t \<and> seconds u < seconds t + ttl))"

section \<open>Quote tokens\<close>

definition QUOTE_ISSUER :: string where
  "QUOTE_ISSUER = ''rcab-quote''"

definition QUOTE_TTL :: int where
  "QUOTE_TTL = 5 * 60"

definition sign_quote :: "'t jwt \<Rightarrow> quote_claims \<Rightarrow> instant \<Rightarrow> 't" where
  "sign_quote j c clk = jw_sign j (QuoteBody c) QUOTE_ISSUER None QUOTE_TTL clk"

text \<open>The library checks the issuer only; a body of another shape under it is read as it is (\<open>None\<close>).\<close>

definition verify_quote :: "'t jwt \<Rightarrow> 't \<Rightarrow> instant \<Rightarrow> jwt_error + quote_claims option" where
  "verify_quote j tok clk =
     (case jw_verify j tok QUOTE_ISSUER None clk of
        Inl e \<Rightarrow> Inl e
      | Inr (QuoteBody c) \<Rightarrow> Inr (Some c)
      | Inr (TypedBody _ _) \<Rightarrow> Inr None)"

section \<open>Access tokens\<close>

definition JWT_ISSUER :: string where
  "JWT_ISSUER = ''rcab''"

definition JWT_AUDIENCE :: string where
  "JWT_AUDIENCE = ''rcab-api''"

definition ACCESS_TOKEN_TYPE :: string where
  "ACCESS_TOKEN_TYPE = ''access''"

definition ACCESS_TOKEN_TTL_SECONDS :: int where
  "ACCESS_TOKEN_TTL_SECONDS = 900"

definition signAccessToken :: "'t jwt \<Rightarrow> access_claims \<Rightarrow> instant \<Rightarrow> 't" where
  "signAccessToken j c clk =
     jw_sign j (TypedBody ACCESS_TOKEN_TYPE c) JWT_ISSUER (Some JWT_AUDIENCE) ACCESS_TOKEN_TTL_SECONDS clk"

datatype access_error = Bad_token jwt_error | Not_access_token | Missing_sub

definition verifyAccessToken :: "'t jwt \<Rightarrow> 't \<Rightarrow> instant \<Rightarrow> access_error + access_claims" where
  "verifyAccessToken j tok clk =
     (case jw_verify j tok JWT_ISSUER (Some JWT_AUDIENCE) clk of
        Inl e \<Rightarrow> Inl (Bad_token e)
      | Inr (QuoteBody _) \<Rightarrow> Inl Not_access_token
      | Inr (TypedBody ty c) \<Rightarrow>
          if ty \<noteq> ACCESS_TOKEN_TYPE then Inl Not_access_token
          else if ac_sub c = '''' then Inl Missing_sub
          else Inr c)"

text \<open>The \<open>Authorization\<close> header: absent, of another scheme, or \<open>Bearer\<close> and a token.\<close>

datatype 't auth_header = No_header | Other_scheme | Bearer 't

datatype guard_error = Missing_bearer | Invalid_token

definition canActivate :: "'t jwt \<Rightarrow> 't auth_header \<Rightarrow> instant \<Rightarrow> guard_error + access_claims" where
  "canActivate j h clk =
     (case h of
        Bearer tok \<Rightarrow> (case verifyAccessToken j tok clk of Inl _ \<Rightarrow> Inl Invalid_token | Inr c \<Rightarrow> Inr c)
      | _ \<Rightarrow> Inl Missing_bearer)"

section \<open>Correctness\<close>

lemma jwt_valid:
  assumes "jwt_laws j" "seconds u < seconds t + ttl" "want = None \<or> want = aud"
  shows "jw_verify j (jw_sign j b iss aud ttl t) iss want u = Inr b"
  by (rule assms(1) [unfolded jwt_laws_def, THEN conjunct1, rule_format]) (use assms in simp)

lemma jwt_expired:
  assumes "jwt_laws j" "seconds t + ttl \<le> seconds u"
  shows "jw_verify j (jw_sign j b iss aud ttl t) iss' want u = Inl TokenExpiredError"
  by (rule assms(1) [unfolded jwt_laws_def, THEN conjunct2, THEN conjunct1, rule_format]) (rule assms(2))

lemma jwt_wrong_issuer:
  assumes "jwt_laws j" "iss' \<noteq> iss"
  obtains e where "jw_verify j (jw_sign j b iss aud ttl t) iss' want u = Inl e"
proof (cases "jw_verify j (jw_sign j b iss aud ttl t) iss' want u")
  case (Inr b')
  have "jw_verify j (jw_sign j b iss aud ttl t) iss' want u \<noteq> Inr b'"
    by (rule assms(1) [unfolded jwt_laws_def, THEN conjunct2, THEN conjunct2, THEN conjunct1, rule_format]) (use assms in simp)
  then show thesis using Inr by simp
qed (rule that)

lemma jwt_authentic:
  assumes "jwt_laws j" "jw_verify j tok iss want u = Inr b"
  obtains aud ttl t where "tok = jw_sign j b iss aud ttl t" "seconds u < seconds t + ttl"
proof -
  have "\<exists>aud ttl t. tok = jw_sign j b iss aud ttl t \<and> seconds u < seconds t + ttl"
    by (rule assms(1) [unfolded jwt_laws_def, THEN conjunct2, THEN conjunct2, THEN conjunct2, rule_format]) (rule assms(2))
  then show thesis using that by (elim exE conjE)
qed

lemma verify_signed_quote:
  assumes "jwt_laws j" "seconds u < seconds t + QUOTE_TTL"
  shows "verify_quote j (sign_quote j c t) u = Inr (Some c)"
  using assms by (simp add: verify_quote_def sign_quote_def jwt_valid)

lemma verify_quote_expired:
  assumes "jwt_laws j" "seconds t + QUOTE_TTL \<le> seconds u"
  shows "verify_quote j (sign_quote j c t) u = Inl TokenExpiredError"
  using assms by (simp add: verify_quote_def sign_quote_def jwt_expired)

text \<open>A verified quote was signed with the key, under the quote issuer.\<close>

lemma verify_quote_authentic:
  assumes "jwt_laws j" "verify_quote j tok u = Inr (Some c)"
  obtains aud ttl t where "tok = jw_sign j (QuoteBody c) QUOTE_ISSUER aud ttl t" "seconds u < seconds t + ttl"
proof -
  have "jw_verify j tok QUOTE_ISSUER None u = Inr (QuoteBody c)"
    using assms(2) by (auto simp: verify_quote_def split: sum.splits jwt_body.splits)
  with assms(1) show thesis by (rule jwt_authentic) (rule that)
qed

lemma issuers_differ: "QUOTE_ISSUER \<noteq> JWT_ISSUER"
  by (simp add: QUOTE_ISSUER_def JWT_ISSUER_def)

text \<open>One key, two purposes: neither token passes for the other.\<close>

lemma quote_is_no_access_token:
  assumes "jwt_laws j"
  shows "canActivate j (Bearer (sign_quote j c t)) u = Inl Invalid_token"
proof -
  obtain e where "jw_verify j (sign_quote j c t) JWT_ISSUER (Some JWT_AUDIENCE) u = Inl e"
    unfolding sign_quote_def by (rule jwt_wrong_issuer [OF assms issuers_differ [symmetric]])
  then show ?thesis by (simp add: canActivate_def verifyAccessToken_def)
qed

lemma access_token_is_no_quote:
  assumes "jwt_laws j"
  shows "\<exists>e. verify_quote j (signAccessToken j a t) u = Inl e"
proof -
  obtain e where "jw_verify j (signAccessToken j a t) QUOTE_ISSUER None u = Inl e"
    unfolding signAccessToken_def by (rule jwt_wrong_issuer [OF assms issuers_differ])
  then show ?thesis by (simp add: verify_quote_def)
qed

lemma access_token_accepted:
  assumes "jwt_laws j" "seconds u < seconds t + ACCESS_TOKEN_TTL_SECONDS" "ac_sub c \<noteq> ''''"
  shows "canActivate j (Bearer (signAccessToken j c t)) u = Inr c"
  using assms by (simp add: canActivate_def verifyAccessToken_def signAccessToken_def jwt_valid)

lemma access_token_expired:
  assumes "jwt_laws j" "seconds t + ACCESS_TOKEN_TTL_SECONDS \<le> seconds u"
  shows "canActivate j (Bearer (signAccessToken j c t)) u = Inl Invalid_token"
  using assms by (simp add: canActivate_def verifyAccessToken_def signAccessToken_def jwt_expired)

section \<open>A library that keeps the laws\<close>

text \<open>A token as the tuple of what was signed.\<close>

type_synonym plain_token = "jwt_body \<times> string \<times> string option \<times> int \<times> instant"

definition plain_jwt :: "plain_token jwt" where
  "plain_jwt = \<lparr>jw_sign = \<lambda>b iss aud ttl t. (b, iss, aud, ttl, t),
     jw_verify = \<lambda>(b, iss, aud, ttl, t) iss' want u.
       if seconds t + ttl \<le> seconds u then Inl TokenExpiredError
       else if iss' \<noteq> iss \<or> want \<noteq> None \<and> want \<noteq> aud then Inl JsonWebTokenError else Inr b\<rparr>"

lemma plain_jwt_laws: "jwt_laws plain_jwt"
  by (auto simp: jwt_laws_def plain_jwt_def split: if_splits)

end
