(* ===== verification/Sessions.thy ===== *)
theory Sessions
  imports Tokens Idempotency
begin

text \<open>
  Sign-in and session rotation (\<open>AuthService\<close>, auth.service.ts), the Google check
  (google-verifier.service.ts), the origin check (csrf.guard.ts) and the endpoints (auth.controller.ts).
  The digest of a refresh token, Firebase, Google's library and the URL parser are arguments; random values
  and both clocks come with the request (\<open>auth_env\<close>), and \<open>ae_gap n\<close> is what other sessions commit before its
  \<open>n\<close>-th later statement. Statements of one transaction run on one state.
\<close>

section \<open>Tables\<close>

datatype auth_method = MethodPhone | MethodGoogle

definition method_name :: "auth_method \<Rightarrow> string" where
  "method_name m = (case m of MethodPhone \<Rightarrow> ''phone'' | MethodGoogle \<Rightarrow> ''google'')"

text \<open>The columns of \<open>app_user\<close> that only sign-in reads.\<close>

record account = app_user +
  u_firebaseUid :: string
  u_phoneE164 :: string
  u_googleSub :: "string option"
  u_email :: "string option"

record refresh_token =
  tk_hash :: string
  tk_familyId :: uuid
  tk_userId :: uuid
  tk_authMethod :: auth_method
  tk_expiresAt :: instant
  tk_revokedAt :: "instant option"

record auth_db =
  accounts :: "account list"
  clients :: "uuid list"
  tokens :: "refresh_token list"

datatype auth_error = Unauthorized string | Auth_http http_error | Auth_db db_error

record session_user =
  su_id :: uuid
  su_role :: user_role
  su_phone :: string
  su_status :: user_status

definition session_user_of :: "account \<Rightarrow> session_user" where
  "session_user_of a = \<lparr>su_id = u_id a, su_role = u_role a, su_phone = u_phoneE164 a, su_status = u_status a\<rparr>"

record 't token_response =
  tr_access :: 't
  tr_tokenType :: string
  tr_expiresIn :: int
  tr_refresh :: string
  tr_user :: "uuid \<times> user_role \<times> string"

record auth_env =
  ae_clk :: instant
  ae_now :: instant
  ae_raw :: string
  ae_familyId :: uuid
  ae_userId :: uuid
  ae_unseen :: "string set"
  ae_gap :: "nat \<Rightarrow> auth_db \<Rightarrow> auth_db"

section \<open>Constants\<close>

definition REFRESH_TTL_MS :: int where
  "REFRESH_TTL_MS = 30 * 24 * 60 * 60 * 1000"

definition REFRESH_REUSE_GRACE_SECONDS :: int where
  "REFRESH_REUSE_GRACE_SECONDS = 10"

definition BLOCKED_USER_STATUSES :: "user_status list" where
  "BLOCKED_USER_STATUSES = [UserSuspended, UserDeleted]"

text \<open>\<open>PHONE_E164_RE\<close>: a plus sign, a digit from 1 to 9, and 7 to 14 more digits.\<close>

definition is_digit :: "char \<Rightarrow> bool" where
  "is_digit c \<longleftrightarrow> 48 \<le> (of_char c :: nat) \<and> (of_char c :: nat) \<le> 57"

definition phone_ok :: "string \<Rightarrow> bool" where
  "phone_ok p = (case p of
     c # d # ds \<Rightarrow> c = CHR ''+'' \<and> is_digit d \<and> d \<noteq> CHR ''0'' \<and> list_all is_digit ds \<and> 7 \<le> length ds \<and> length ds \<le> 14
   | _ \<Rightarrow> False)"

section \<open>Sessions\<close>

definition invalidRefresh :: auth_error where
  "invalidRefresh = Unauthorized ''invalid_refresh_token''"

definition insert_token :: "refresh_token \<Rightarrow> (auth_db, unit) tx" where
  "insert_token t s =
     (if tk_hash t \<in> tk_hash ` set (tokens s) then Inl (Unique_violation ''auth_refresh_token_pkey'')
      else if tk_userId t \<notin> u_id ` set (accounts s) then Inl (Foreign_key_violation ''auth_refresh_token_user_id_fkey'')
      else Inr ((), s\<lparr>tokens := tokens s @ [t]\<rparr>))"

definition new_token :: "(string \<Rightarrow> string) \<Rightarrow> session_user \<Rightarrow> auth_method \<Rightarrow> uuid \<Rightarrow> auth_env \<Rightarrow> refresh_token" where
  "new_token sha user meth fam e = \<lparr>tk_hash = sha (ae_raw e), tk_familyId = fam, tk_userId = su_id user,
     tk_authMethod = meth, tk_expiresAt = ae_clk e + REFRESH_TTL_MS, tk_revokedAt = None\<rparr>"

definition session_claims :: "session_user \<Rightarrow> auth_method \<Rightarrow> access_claims" where
  "session_claims user meth = \<lparr>ac_sub = su_id user, ac_role = su_role user, ac_authMethod = method_name meth\<rparr>"

definition issueSession ::
  "'t jwt \<Rightarrow> (string \<Rightarrow> string) \<Rightarrow> auth_env \<Rightarrow> session_user \<Rightarrow> auth_method \<Rightarrow> uuid \<Rightarrow> (auth_db, 't token_response) tx" where
  "issueSession j sha e user meth fam =
     andThen (insert_token (new_token sha user meth fam e))
       (\<lambda>_. ret \<lparr>tr_access = signAccessToken j (session_claims user meth) (ae_clk e), tr_tokenType = ''bearer'',
              tr_expiresIn = ACCESS_TOKEN_TTL_SECONDS, tr_refresh = ae_raw e,
              tr_user = (su_id user, su_role user, su_phone user)\<rparr>)"

definition assertAccountActive :: "user_status \<Rightarrow> auth_error option" where
  "assertAccountActive st =
     (if st \<in> set BLOCKED_USER_STATUSES then Some (Auth_http (Forbidden_error ''account_disabled'')) else None)"

definition revoke_token :: "instant \<Rightarrow> refresh_token \<Rightarrow> refresh_token" where
  "revoke_token now t = t\<lparr>tk_revokedAt := Some now\<rparr>"

text \<open>
  \<open>UPDATE ... SET revoked_at = now() WHERE P AND revoked_at IS NULL\<close>. \<open>unseen\<close> holds the digests of rows
  that were not committed when the statement took its snapshot: it does not touch them.
\<close>

definition revoke_where :: "(refresh_token \<Rightarrow> bool) \<Rightarrow> string set \<Rightarrow> instant \<Rightarrow> auth_db \<Rightarrow> auth_db" where
  "revoke_where P unseen now s =
     s\<lparr>tokens := upd (\<lambda>t. P t \<and> tk_revokedAt t = None \<and> tk_hash t \<notin> unseen) (revoke_token now) (tokens s)\<rparr>"

definition consumable :: "string \<Rightarrow> instant \<Rightarrow> refresh_token \<Rightarrow> bool" where
  "consumable h now t \<longleftrightarrow> tk_hash t = h \<and> tk_revokedAt t = None \<and> now < tk_expiresAt t"

text \<open>The conditional update joined with its account, and the row it returns.\<close>

definition consume :: "string \<Rightarrow> instant \<Rightarrow> auth_db \<Rightarrow> (refresh_token \<times> account) option \<times> auth_db" where
  "consume h now s =
     (case find (consumable h now) (tokens s) of
        None \<Rightarrow> (None, s)
      | Some t \<Rightarrow>
          (case row u_id (accounts s) (tk_userId t) of
             None \<Rightarrow> (None, s)
           | Some a \<Rightarrow> (Some (t, a), s\<lparr>tokens := upd (consumable h now) (revoke_token now) (tokens s)\<rparr>)))"

definition replayed :: "string \<Rightarrow> instant \<Rightarrow> refresh_token \<Rightarrow> bool" where
  "replayed h now t \<longleftrightarrow> tk_hash t = h
     \<and> (case tk_revokedAt t of None \<Rightarrow> False | Some r \<Rightarrow> r \<le> now - REFRESH_REUSE_GRACE_SECONDS * 1000)"

definition revoke_family :: "string \<Rightarrow> string set \<Rightarrow> instant \<Rightarrow> auth_db \<Rightarrow> auth_db" where
  "revoke_family h unseen now s =
     (case find (replayed h now) (tokens s) of
        None \<Rightarrow> s
      | Some t \<Rightarrow> revoke_where (\<lambda>x. tk_familyId x = tk_familyId t) unseen now s)"

definition refresh_tx ::
  "'t jwt \<Rightarrow> (string \<Rightarrow> string) \<Rightarrow> auth_env \<Rightarrow> string \<Rightarrow> (auth_db, auth_error + 't token_response) tx" where
  "refresh_tx j sha e raw s =
     (case consume (sha raw) (ae_now e) s of
        (None, s1) \<Rightarrow> Inr (Inl invalidRefresh, revoke_family (sha raw) (ae_unseen e) (ae_now e) s1)
      | (Some (t, a), s1) \<Rightarrow>
          if u_status a \<in> set BLOCKED_USER_STATUSES
          then Inr (Inl (Unauthorized ''account_disabled''),
                 revoke_where (\<lambda>x. tk_userId x = tk_userId t) (ae_unseen e) (ae_now e) s1)
          else (case issueSession j sha e (session_user_of a) (tk_authMethod t) (tk_familyId t) s1 of
                  Inl err \<Rightarrow> Inl err
                | Inr (resp, s2) \<Rightarrow> Inr (Inr resp, s2)))"

text \<open>A thrown error rolls back; an answered refusal commits first.\<close>

definition refresh ::
  "'t jwt \<Rightarrow> (string \<Rightarrow> string) \<Rightarrow> auth_env \<Rightarrow> string \<Rightarrow> auth_db \<Rightarrow> (auth_error + 't token_response) \<times> auth_db" where
  "refresh j sha e raw s =
     (case transaction (refresh_tx j sha e raw) s of
        (Inl err, s') \<Rightarrow> (Inl (Auth_db err), s')
      | (Inr out, s') \<Rightarrow> (out, s'))"

definition revokePresented :: "(string \<Rightarrow> string) \<Rightarrow> auth_env \<Rightarrow> string \<Rightarrow> auth_db \<Rightarrow> auth_db" where
  "revokePresented sha e raw s = revoke_where (\<lambda>t. tk_hash t = sha raw) {} (ae_now e) s"

definition revoke :: "(string \<Rightarrow> string) \<Rightarrow> auth_env \<Rightarrow> string \<Rightarrow> uuid \<Rightarrow> auth_db \<Rightarrow> auth_db" where
  "revoke sha e raw user s = revoke_where (\<lambda>t. tk_hash t = sha raw \<and> tk_userId t = user) {} (ae_now e) s"

section \<open>Sign-in\<close>

definition create_user :: "string \<Rightarrow> string \<Rightarrow> uuid \<Rightarrow> (auth_db, session_user) tx" where
  "create_user uid phone i s =
     (if i \<in> u_id ` set (accounts s) then Inl (Unique_violation ''app_user_pkey'')
      else if uid \<in> u_firebaseUid ` set (accounts s) then Inl (Unique_violation ''app_user_firebase_uid_unique'')
      else if phone \<in> u_phoneE164 ` set (accounts s) then Inl (Unique_violation ''app_user_phone_e164_unique'')
      else if i \<in> set (clients s) then Inl (Unique_violation ''client_pkey'')
      else let a = \<lparr>u_id = i, u_role = RoleClient, u_status = UserActive, u_firebaseUid = uid, u_phoneE164 = phone,
                    u_googleSub = None, u_email = None\<rparr>
           in Inr (session_user_of a, s\<lparr>accounts := accounts s @ [a], clients := clients s @ [i]\<rparr>))"

definition findOrCreateUser :: "auth_env \<Rightarrow> string \<Rightarrow> string \<Rightarrow> auth_db \<Rightarrow> (db_error + session_user) \<times> auth_db" where
  "findOrCreateUser e uid phone s =
     (case row u_firebaseUid (accounts s) uid of
        Some a \<Rightarrow> (Inr (session_user_of a), s)
      | None \<Rightarrow> transaction (create_user uid phone (ae_userId e)) (ae_gap e 0 s))"

text \<open>The account-state check and the autocommitted session both sign-ins end with.\<close>

definition open_session ::
  "'t jwt \<Rightarrow> (string \<Rightarrow> string) \<Rightarrow> auth_env \<Rightarrow> session_user \<Rightarrow> auth_method \<Rightarrow> auth_db \<Rightarrow> (auth_error + 't token_response) \<times> auth_db" where
  "open_session j sha e user meth s =
     (case assertAccountActive (su_status user) of
        Some err \<Rightarrow> (Inl err, s)
      | None \<Rightarrow>
          (case transaction (issueSession j sha e user meth (ae_familyId e)) (ae_gap e 1 s) of
             (Inl err, s') \<Rightarrow> (Inl (Auth_db err), s')
           | (Inr resp, s') \<Rightarrow> (Inr resp, s')))"

record decoded_token =
  dk_uid :: string
  dk_phone :: "string option"
  dk_iat :: "int option"

definition decoded_ok :: "instant \<Rightarrow> decoded_token \<Rightarrow> bool" where
  "decoded_ok clk d \<longleftrightarrow> (case dk_phone d of None \<Rightarrow> False | Some p \<Rightarrow> phone_ok p)
     \<and> (case dk_iat d of None \<Rightarrow> True | Some iat \<Rightarrow> seconds clk - iat \<le> 3600)"

definition exchangeFirebaseToken ::
  "(string \<Rightarrow> decoded_token option) \<Rightarrow> 't jwt \<Rightarrow> (string \<Rightarrow> string) \<Rightarrow> auth_env \<Rightarrow> string \<Rightarrow> auth_db
   \<Rightarrow> (auth_error + 't token_response) \<times> auth_db" where
  "exchangeFirebaseToken firebase j sha e idToken s =
     (case firebase idToken of
        None \<Rightarrow> (Inl (Unauthorized ''invalid_firebase_token''), s)
      | Some d \<Rightarrow>
          if \<not> decoded_ok (ae_clk e) d then (Inl (Unauthorized ''invalid_firebase_token''), s)
          else (case findOrCreateUser e (dk_uid d) (the (dk_phone d)) s of
                  (Inl err, s') \<Rightarrow> (Inl (Auth_db err), s')
                | (Inr user, s') \<Rightarrow> open_session j sha e user MethodPhone s'))"

record google_payload =
  gp_iss :: string
  gp_emailVerified :: bool
  gp_sub :: string
  gp_email :: "string option"

text \<open>\<open>lib\<close>: \<open>None\<close> when the library throws, \<open>Some None\<close> when the ticket has no payload.\<close>

definition verifyIdToken ::
  "(string \<Rightarrow> google_payload option option) \<Rightarrow> string \<Rightarrow> auth_error + string \<times> string option" where
  "verifyIdToken lib idToken =
     (case lib idToken of
        None \<Rightarrow> Inl (Unauthorized ''invalid_google_token'')
      | Some None \<Rightarrow> Inl (Unauthorized ''invalid_google_token'')
      | Some (Some p) \<Rightarrow>
          if gp_iss p \<noteq> ''accounts.google.com'' \<and> gp_iss p \<noteq> ''https://accounts.google.com''
          then Inl (Unauthorized ''invalid_google_token'')
          else if \<not> gp_emailVerified p then Inl (Unauthorized ''email_not_verified'')
          else Inr (gp_sub p, gp_email p))"

definition by_google :: "auth_db \<Rightarrow> string \<Rightarrow> account option" where
  "by_google s sub = row u_googleSub (accounts s) (Some sub)"

definition link_row :: "string \<Rightarrow> string option \<Rightarrow> account \<Rightarrow> account" where
  "link_row sub email a = a\<lparr>u_googleSub := Some sub, u_email := email\<rparr>"

definition link_update :: "uuid \<Rightarrow> string \<Rightarrow> string option \<Rightarrow> (auth_db, unit) tx" where
  "link_update user sub email s =
     (if user \<in> u_id ` set (accounts s) \<and> (\<exists>a \<in> set (accounts s). u_id a \<noteq> user \<and> u_googleSub a = Some sub)
      then Inl (Unique_violation ''app_user_google_sub_unique'')
      else Inr ((), s\<lparr>accounts := upd (\<lambda>a. u_id a = user) (link_row sub email) (accounts s)\<rparr>))"

definition linkGoogle ::
  "(string \<Rightarrow> google_payload option option) \<Rightarrow> auth_env \<Rightarrow> uuid \<Rightarrow> string \<Rightarrow> auth_db \<Rightarrow> auth_error option \<times> auth_db" where
  "linkGoogle lib e user idToken s =
     (case verifyIdToken lib idToken of
        Inl err \<Rightarrow> (Some err, s)
      | Inr (sub, email) \<Rightarrow>
          if (case by_google s sub of None \<Rightarrow> False | Some a \<Rightarrow> u_id a \<noteq> user)
          then (Some (Auth_http (Conflict_error ''google_already_linked'')), s)
          else (case transaction (link_update user sub email) (ae_gap e 0 s) of
                  (Inl err, s') \<Rightarrow> (Some (Auth_db err), s')
                | (Inr _, s') \<Rightarrow> (None, s')))"

definition loginWithGoogle ::
  "(string \<Rightarrow> google_payload option option) \<Rightarrow> 't jwt \<Rightarrow> (string \<Rightarrow> string) \<Rightarrow> auth_env \<Rightarrow> string \<Rightarrow> auth_db
   \<Rightarrow> (auth_error + 't token_response) \<times> auth_db" where
  "loginWithGoogle lib j sha e idToken s =
     (case verifyIdToken lib idToken of
        Inl err \<Rightarrow> (Inl err, s)
      | Inr (sub, _) \<Rightarrow>
          (case by_google s sub of
             None \<Rightarrow> (Inl (Unauthorized ''not_found''), s)
           | Some a \<Rightarrow> open_session j sha e (session_user_of a) MethodGoogle s))"

section \<open>Endpoints\<close>

text \<open>\<open>CsrfGuard\<close>; \<open>url\<close> is the origin of a parsed URL.\<close>

definition csrf_ok :: "(string \<Rightarrow> string option) \<Rightarrow> string list \<Rightarrow> string option \<Rightarrow> string option \<Rightarrow> bool" where
  "csrf_ok url allowed origin referer =
     (case origin of
        Some x \<Rightarrow> x \<in> set allowed
      | None \<Rightarrow>
          (case referer of
             None \<Rightarrow> True
           | Some r \<Rightarrow> (case url r of None \<Rightarrow> False | Some x \<Rightarrow> x \<in> set allowed)))"

record 't public_response =
  pr_access :: 't
  pr_tokenType :: string
  pr_expiresIn :: int
  pr_user :: "uuid \<times> user_role \<times> string"

definition tokenBody :: "'t token_response \<Rightarrow> 't public_response" where
  "tokenBody r = \<lparr>pr_access = tr_access r, pr_tokenType = tr_tokenType r, pr_expiresIn = tr_expiresIn r, pr_user = tr_user r\<rparr>"

text \<open>A web answer: the body, and the refresh cookie it sets.\<close>

definition web_reply :: "(auth_error + 't token_response) \<times> auth_db \<Rightarrow> (auth_error + 't public_response \<times> string) \<times> auth_db" where
  "web_reply = map_prod (map_sum id (\<lambda>r. (tokenBody r, tr_refresh r))) id"

definition firebaseExchange ::
  "(string \<Rightarrow> decoded_token option) \<Rightarrow> 't jwt \<Rightarrow> (string \<Rightarrow> string) \<Rightarrow> auth_env \<Rightarrow> string \<Rightarrow> auth_db
   \<Rightarrow> (auth_error + 't public_response \<times> string) \<times> auth_db" where
  "firebaseExchange firebase j sha e idToken s = web_reply (exchangeFirebaseToken firebase j sha e idToken s)"

definition googleLogin ::
  "(string \<Rightarrow> google_payload option option) \<Rightarrow> 't jwt \<Rightarrow> (string \<Rightarrow> string) \<Rightarrow> auth_env \<Rightarrow> string \<Rightarrow> auth_db
   \<Rightarrow> (auth_error + 't public_response \<times> string) \<times> auth_db" where
  "googleLogin lib j sha e idToken s = web_reply (loginWithGoogle lib j sha e idToken s)"

definition presented :: "string option \<Rightarrow> string option \<Rightarrow> string option" where
  "presented body cookie =
     (case (case body of Some b \<Rightarrow> Some b | None \<Rightarrow> cookie) of
        Some tok \<Rightarrow> if tok = [] then None else Some tok
      | None \<Rightarrow> None)"

definition refresh_endpoint ::
  "'t jwt \<Rightarrow> (string \<Rightarrow> string) \<Rightarrow> auth_env \<Rightarrow> bool \<Rightarrow> string option \<Rightarrow> string option \<Rightarrow> auth_db
   \<Rightarrow> (auth_error + 't public_response \<times> string) \<times> auth_db" where
  "refresh_endpoint j sha e csrf body cookie s =
     (if \<not> csrf then (Inl (Auth_http (Forbidden_error ''csrf_rejected'')), s)
      else case presented body cookie of
          None \<Rightarrow> (Inl invalidRefresh, s)
        | Some tok \<Rightarrow> web_reply (refresh j sha e tok s))"

text \<open>Logout answers whether the cookie is cleared.\<close>

definition logout ::
  "'t jwt \<Rightarrow> (string \<Rightarrow> string) \<Rightarrow> auth_env \<Rightarrow> 't auth_header \<Rightarrow> bool \<Rightarrow> string option \<Rightarrow> string option \<Rightarrow> auth_db
   \<Rightarrow> auth_error option \<times> auth_db" where
  "logout j sha e h csrf body cookie s =
     (case canActivate j h (ae_clk e) of
        Inl _ \<Rightarrow> (Some (Unauthorized ''unauthorized''), s)
      | Inr user \<Rightarrow>
          if \<not> csrf then (Some (Auth_http (Forbidden_error ''csrf_rejected'')), s)
          else (None, case presented body cookie of None \<Rightarrow> s | Some tok \<Rightarrow> revoke sha e tok (ac_sub user) s))"

definition googleLink ::
  "(string \<Rightarrow> google_payload option option) \<Rightarrow> 't jwt \<Rightarrow> auth_env \<Rightarrow> 't auth_header \<Rightarrow> string \<Rightarrow> auth_db \<Rightarrow> auth_error option \<times> auth_db" where
  "googleLink lib j e h idToken s =
     (case canActivate j h (ae_clk e) of
        Inl _ \<Rightarrow> (Some (Unauthorized ''unauthorized''), s)
      | Inr user \<Rightarrow> linkGoogle lib e (ac_sub user) idToken s)"

end
