(* ===== verification/Session_Facts.thy ===== *)
theory Session_Facts
  imports Sessions
begin

text \<open>
  The session tables as a transition system: one step per committed statement or transaction of
  \<open>Sessions\<close>, the invariant of the tables, and the abstract machine of sessions they refine. A session is a
  token family: its owner, the digest it can be continued with, and the digests already used up.
\<close>

section \<open>Steps\<close>

text \<open>
  Family ids are fresh random UUIDs. \<open>at_status\<close> is the operator's change of an account's status, which the
  code reads but never writes.
\<close>

inductive auth_step :: "'t jwt \<Rightarrow> (string \<Rightarrow> string) \<Rightarrow> auth_db \<Rightarrow> auth_db \<Rightarrow> bool" for j sha where
  at_user: "create_user uid phone i s = Inr (u, s') \<Longrightarrow> auth_step j sha s s'"
| at_issue: "issueSession j sha e user meth fam s = Inr (r, s') \<Longrightarrow> fam \<notin> tk_familyId ` set (tokens s) \<Longrightarrow> auth_step j sha s s'"
| at_refresh: "auth_step j sha s (snd (refresh j sha e raw s))"
| at_presented: "auth_step j sha s (revokePresented sha e raw s)"
| at_revoke: "auth_step j sha s (revoke sha e raw user s)"
| at_link: "link_update user sub email s = Inr (u, s') \<Longrightarrow> auth_step j sha s s'"
| at_status: "auth_step j sha s (s\<lparr>accounts := upd (\<lambda>a. u_id a = i) (\<lambda>a. a\<lparr>u_status := st\<rparr>) (accounts s)\<rparr>)"

definition auth_init :: "auth_db \<Rightarrow> bool" where
  "auth_init s \<longleftrightarrow> accounts s = [] \<and> clients s = [] \<and> tokens s = []"

definition live :: "refresh_token \<Rightarrow> bool" where
  "live t \<longleftrightarrow> tk_revokedAt t = None"

definition sub_ok :: "account \<Rightarrow> account \<Rightarrow> bool" where
  "sub_ok a b \<longleftrightarrow> (u_googleSub a = u_googleSub b \<and> u_googleSub a \<noteq> None \<longrightarrow> u_id a = u_id b)"

definition accounts_ok :: "account list \<Rightarrow> bool" where
  "accounts_ok us \<longleftrightarrow> distinct (map u_id us) \<and> distinct (map u_firebaseUid us) \<and> distinct (map u_phoneE164 us)
     \<and> (\<forall>a \<in> set us. \<forall>b \<in> set us. sub_ok a b)"

text \<open>Two rows of one family have one owner, and only one of them is live.\<close>

definition kin :: "refresh_token \<Rightarrow> refresh_token \<Rightarrow> bool" where
  "kin t u \<longleftrightarrow> (tk_familyId t = tk_familyId u \<longrightarrow>
     tk_userId t = tk_userId u \<and> tk_authMethod t = tk_authMethod u \<and> (live t \<and> live u \<longrightarrow> t = u))"

definition tokens_ok :: "refresh_token list \<Rightarrow> bool" where
  "tokens_ok ts \<longleftrightarrow> distinct (map tk_hash ts) \<and> (\<forall>t \<in> set ts. \<forall>u \<in> set ts. kin t u)"

definition auth_ok :: "auth_db \<Rightarrow> bool" where
  "auth_ok s \<longleftrightarrow> accounts_ok (accounts s) \<and> tokens_ok (tokens s) \<and> tk_userId ` set (tokens s) \<subseteq> u_id ` set (accounts s)"

section \<open>The abstract machine\<close>

record session =
  ss_userId :: uuid
  ss_method :: auth_method
  ss_current :: "string option"
  ss_spent :: "string set"

type_synonym sessions = "uuid \<Rightarrow> session option"

definition digests :: "sessions \<Rightarrow> string set" where
  "digests m = (\<Union>x \<in> ran m. ss_spent x \<union> set_option (ss_current x))"

definition close_session :: "session \<Rightarrow> session" where
  "close_session x = x\<lparr>ss_current := None, ss_spent := ss_spent x \<union> set_option (ss_current x)\<rparr>"

inductive session_step :: "sessions \<Rightarrow> sessions \<Rightarrow> bool" where
  sess_open: "m f = None \<Longrightarrow> h \<notin> digests m
    \<Longrightarrow> session_step m (m(f \<mapsto> \<lparr>ss_userId = u, ss_method = k, ss_current = Some h, ss_spent = {}\<rparr>))"
| sess_rotate: "m f = Some x \<Longrightarrow> ss_current x = Some h \<Longrightarrow> h' \<notin> digests m
    \<Longrightarrow> session_step m (m(f \<mapsto> (close_session x)\<lparr>ss_current := Some h'\<rparr>))"
| sess_close: "session_step m (\<lambda>f. if f \<in> F then map_option close_session (m f) else m f)"

text \<open>Its promises: a digest belongs to one session and is never both current and spent.\<close>

definition sessions_ok :: "sessions \<Rightarrow> bool" where
  "sessions_ok m \<longleftrightarrow>
     (\<forall>f x. m f = Some x \<longrightarrow> set_option (ss_current x) \<inter> ss_spent x = {})
     \<and> (\<forall>f g x y. m f = Some x \<and> m g = Some y \<and> f \<noteq> g \<longrightarrow>
          (ss_spent x \<union> set_option (ss_current x)) \<inter> (ss_spent y \<union> set_option (ss_current y)) = {})"

definition fam_tokens :: "auth_db \<Rightarrow> uuid \<Rightarrow> refresh_token list" where
  "fam_tokens s f = filter (\<lambda>t. tk_familyId t = f) (tokens s)"

definition session_of :: "auth_db \<Rightarrow> sessions" where
  "session_of s f =
     (case fam_tokens s f of
        [] \<Rightarrow> None
      | t # ts \<Rightarrow> Some \<lparr>ss_userId = tk_userId t, ss_method = tk_authMethod t,
          ss_current = map_option tk_hash (find live (t # ts)), ss_spent = tk_hash ` {x \<in> set (t # ts). \<not> live x}\<rparr>)"

section \<open>Tokens\<close>

lemma set_updE:
  assumes "x \<in> set (upd P g t)"
  obtains r where "r \<in> set t" "x = (if P r then g r else r)"
  using assms unfolding set_upd by blast

lemma revoke_token_sel [simp]:
  "tk_hash (revoke_token now t) = tk_hash t" "tk_familyId (revoke_token now t) = tk_familyId t"
  "tk_userId (revoke_token now t) = tk_userId t" "tk_authMethod (revoke_token now t) = tk_authMethod t"
  "tk_expiresAt (revoke_token now t) = tk_expiresAt t" "tk_revokedAt (revoke_token now t) = Some now"
  "\<not> live (revoke_token now t)"
  by (simp_all add: revoke_token_def live_def)

lemma revoke_where_sel [simp]:
  "accounts (revoke_where P un now s) = accounts s" "clients (revoke_where P un now s) = clients s"
  "tokens (revoke_where P un now s) = upd (\<lambda>t. P t \<and> live t \<and> tk_hash t \<notin> un) (revoke_token now) (tokens s)"
  by (simp_all add: revoke_where_def live_def)

lemma kin_revoke: "kin t u \<Longrightarrow> kin (revoke_token now t) u" "kin t u \<Longrightarrow> kin t (revoke_token now u)"
  by (simp_all add: kin_def)

lemma kin_sym: "kin t u \<Longrightarrow> kin u t"
  by (auto simp: kin_def)

lemma tokens_okD:
  assumes "tokens_ok ts" "t \<in> set ts" "u \<in> set ts"
  shows "tk_hash t = tk_hash u \<Longrightarrow> t = u"
    and "tk_familyId t = tk_familyId u \<Longrightarrow> tk_userId t = tk_userId u \<and> tk_authMethod t = tk_authMethod u"
    and "tk_familyId t = tk_familyId u \<Longrightarrow> live t \<Longrightarrow> live u \<Longrightarrow> t = u"
proof -
  have k: "kin t u" and d: "inj_on tk_hash (set ts)" using assms by (simp_all add: tokens_ok_def distinct_map)
  show "tk_hash t = tk_hash u \<Longrightarrow> t = u" using inj_onD [OF d _ assms(2,3)] by blast
  show "tk_familyId t = tk_familyId u \<Longrightarrow> tk_userId t = tk_userId u \<and> tk_authMethod t = tk_authMethod u"
    and "tk_familyId t = tk_familyId u \<Longrightarrow> live t \<Longrightarrow> live u \<Longrightarrow> t = u"
    using k by (simp_all add: kin_def)
qed

lemma tokens_ok_upd:
  assumes "tokens_ok ts"
  shows "tokens_ok (upd P (revoke_token now) ts)"
proof -
  have "kin t u" if "t \<in> set (upd P (revoke_token now) ts)" "u \<in> set (upd P (revoke_token now) ts)" for t u
  proof -
    from that(1) obtain a where a: "a \<in> set ts" "t = (if P a then revoke_token now a else a)" by (rule set_updE)
    from that(2) obtain b where b: "b \<in> set ts" "u = (if P b then revoke_token now b else b)" by (rule set_updE)
    have "kin a b" using a(1) b(1) assms by (simp add: tokens_ok_def)
    then show ?thesis unfolding a(2) b(2) by (simp add: kin_revoke)
  qed
  then show ?thesis using assms by (simp add: tokens_ok_def)
qed

lemma tokens_ok_append:
  assumes "tokens_ok ts" "tk_hash n \<notin> tk_hash ` set ts" "\<And>t. t \<in> set ts \<Longrightarrow> kin t n"
  shows "tokens_ok (ts @ [n])"
proof -
  have "kin n n" by (simp add: kin_def)
  then have "\<forall>t \<in> set (ts @ [n]). \<forall>u \<in> set (ts @ [n]). kin t u"
    using assms(1,3) kin_sym by (auto simp: tokens_ok_def)
  then show ?thesis using assms(1,2) by (simp add: tokens_ok_def)
qed

lemma filter_upd_key:
  assumes "\<And>t. key (g t) = key t"
  shows "filter (\<lambda>t. key t = k) (upd P g ts) = upd P g (filter (\<lambda>t. key t = k) ts)"
  by (induction ts) (auto simp: assms)

lemma find_live_upd:
  assumes "\<And>t. t \<in> set ts \<Longrightarrow> live t \<Longrightarrow> P t"
  shows "find live (upd P (revoke_token now) ts) = None"
  using assms by (auto simp: find_None_iff set_upd)

lemma fam_tokens_set: "t \<in> set (fam_tokens s f) \<longleftrightarrow> t \<in> set (tokens s) \<and> tk_familyId t = f"
  by (auto simp: fam_tokens_def)

lemma session_of_None: "session_of s f = None \<longleftrightarrow> f \<notin> tk_familyId ` set (tokens s)"
proof -
  have "session_of s f = None \<longleftrightarrow> fam_tokens s f = []" by (simp add: session_of_def split: list.split)
  then show ?thesis by (auto simp: fam_tokens_def filter_empty_conv)
qed

lemma find_SomeD: "find P xs = Some x \<Longrightarrow> P x \<and> x \<in> set xs"
  by (auto simp: find_Some_iff)

lemma session_of_Some:
  assumes "session_of s f = Some x"
  shows "ss_spent x = tk_hash ` {t \<in> set (tokens s). tk_familyId t = f \<and> \<not> live t}"
    and "ss_current x = Some h \<Longrightarrow> \<exists>t \<in> set (tokens s). tk_familyId t = f \<and> live t \<and> tk_hash t = h"
    and "ss_current x = None \<Longrightarrow> y \<in> set (tokens s) \<Longrightarrow> tk_familyId y = f \<Longrightarrow> \<not> live y"
proof -
  obtain t ts where e: "fam_tokens s f = t # ts" and x: "x = \<lparr>ss_userId = tk_userId t, ss_method = tk_authMethod t,
      ss_current = map_option tk_hash (find live (t # ts)), ss_spent = tk_hash ` {x \<in> set (t # ts). \<not> live x}\<rparr>"
    using assms by (auto simp: session_of_def split: list.splits)
  have m: "y \<in> set (t # ts) \<longleftrightarrow> y \<in> set (tokens s) \<and> tk_familyId y = f" for y
    using arg_cong [OF e, of set] by (auto simp: fam_tokens_def)
  have sp: "ss_spent x = tk_hash ` {x \<in> set (t # ts). \<not> live x}" and cu: "ss_current x = map_option tk_hash (find live (t # ts))"
    by (simp_all only: x session.simps)
  show "ss_spent x = tk_hash ` {t \<in> set (tokens s). tk_familyId t = f \<and> \<not> live t}"
    unfolding sp by (rule arg_cong [where f = "image tk_hash"]) (use m in blast)
  { assume "ss_current x = Some h"
    then obtain y where y: "find live (t # ts) = Some y" "tk_hash y = h" unfolding cu by (auto simp del: find.simps)
    then have "live y" "y \<in> set (t # ts)" using find_SomeD [OF y(1)] by simp_all
    with m y(2) show "\<exists>t \<in> set (tokens s). tk_familyId t = f \<and> live t \<and> tk_hash t = h" by blast }
  show "ss_current x = None \<Longrightarrow> y \<in> set (tokens s) \<Longrightarrow> tk_familyId y = f \<Longrightarrow> \<not> live y"
    using m [of y] unfolding cu by (auto simp add: find_None_iff simp del: find.simps)
qed

section \<open>How the operations move a session\<close>

lemma fam_tokens_revoke:
  "fam_tokens (revoke_where P un now s) f = upd (\<lambda>t. P t \<and> live t \<and> tk_hash t \<notin> un) (revoke_token now) (fam_tokens s f)"
  unfolding fam_tokens_def revoke_where_sel by (rule filter_upd_key) simp

lemma session_of_revoke:
  assumes "tokens_ok (tokens s)"
  shows "session_of (revoke_where P un now s) =
    (\<lambda>f. if f \<in> {f. \<exists>t \<in> set (tokens s). tk_familyId t = f \<and> P t \<and> live t \<and> tk_hash t \<notin> un}
         then map_option close_session (session_of s f) else session_of s f)"
proof
  fix f
  let ?Q = "\<lambda>t. P t \<and> live t \<and> tk_hash t \<notin> un" and ?r = "revoke_token now"
  show "session_of (revoke_where P un now s) f =
    (if f \<in> {f. \<exists>t \<in> set (tokens s). tk_familyId t = f \<and> P t \<and> live t \<and> tk_hash t \<notin> un}
         then map_option close_session (session_of s f) else session_of s f)"
  proof (cases "\<exists>t \<in> set (tokens s). tk_familyId t = f \<and> ?Q t")
    case False
    then have "upd ?Q ?r (fam_tokens s f) = fam_tokens s f" by (intro upd_id) (auto simp: fam_tokens_set)
    then show ?thesis using False unfolding session_of_def fam_tokens_revoke by auto
  next
    case True
    then obtain t where t: "t \<in> set (tokens s)" "tk_familyId t = f" "?Q t" by blast
    have only: "u = t" if "u \<in> set (fam_tokens s f)" "live u" for u
      using tokens_okD(3) [OF assms _ t(1), of u] that t(2,3) by (auto simp: fam_tokens_set)
    have tin: "t \<in> set (fam_tokens s f)" using t by (simp add: fam_tokens_set)
    obtain v vs where e: "fam_tokens s f = v # vs" using tin by (cases "fam_tokens s f") auto
    have dead: "\<not> live u" if "u \<in> set (upd ?Q ?r (fam_tokens s f))" for u
    proof -
      from that obtain r where r: "r \<in> set (fam_tokens s f)" "u = (if ?Q r then ?r r else r)" by (rule set_updE)
      show ?thesis
      proof (cases "?Q r")
        case False
        then show ?thesis using r only [OF r(1)] t(3) by auto
      qed (simp add: r(2))
    qed
    have none: "find live (upd ?Q ?r (fam_tokens s f)) = None" using dead by (auto simp: find_None_iff)
    have cur: "find live (fam_tokens s f) = Some t"
    proof (cases "find live (fam_tokens s f)")
      case None
      then show ?thesis using tin t(3) by (simp add: find_None_iff)
    next
      case (Some u)
      then show ?thesis using only find_SomeD [OF Some] by blast
    qed
    have "tk_hash ` {x \<in> set (upd ?Q ?r (fam_tokens s f)). \<not> live x} = tk_hash ` set (upd ?Q ?r (fam_tokens s f))"
      using dead by blast
    also have "\<dots> = tk_hash ` set (fam_tokens s f)" by (rule key_image_upd) simp
    also have "\<dots> = tk_hash ` {x \<in> set (fam_tokens s f). \<not> live x} \<union> {tk_hash t}"
      using only tin t(3) by blast
    finally have sp: "tk_hash ` {x \<in> set (upd ?Q ?r (fam_tokens s f)). \<not> live x} = tk_hash ` {x \<in> set (fam_tokens s f). \<not> live x} \<union> {tk_hash t}" .
    have 1: "session_of s f = Some \<lparr>ss_userId = tk_userId v, ss_method = tk_authMethod v, ss_current = Some (tk_hash t),
        ss_spent = tk_hash ` {x \<in> set (fam_tokens s f). \<not> live x}\<rparr>"
      using cur unfolding session_of_def e by (simp del: find.simps)
    obtain w where w: "upd ?Q ?r (v # vs) = w # upd ?Q ?r vs" "tk_userId w = tk_userId v" "tk_authMethod w = tk_authMethod v"
      by (simp add: upd_def)
    have 2: "session_of (revoke_where P un now s) f = Some \<lparr>ss_userId = tk_userId v, ss_method = tk_authMethod v, ss_current = None,
        ss_spent = tk_hash ` {x \<in> set (fam_tokens s f). \<not> live x} \<union> {tk_hash t}\<rparr>"
      using none sp w(2,3) unfolding session_of_def fam_tokens_revoke e w(1) by (simp del: find.simps)
    show ?thesis using True unfolding 1 2 by (auto simp: close_session_def)
  qed
qed

lemma session_of_append:
  assumes "live n" "\<And>t. t \<in> set (tokens s) \<Longrightarrow> tk_familyId t = tk_familyId n \<Longrightarrow> \<not> live t"
  shows "session_of (s\<lparr>tokens := tokens s @ [n]\<rparr>) = (session_of s)(tk_familyId n \<mapsto>
    (case session_of s (tk_familyId n) of
       None \<Rightarrow> \<lparr>ss_userId = tk_userId n, ss_method = tk_authMethod n, ss_current = Some (tk_hash n), ss_spent = {}\<rparr>
     | Some x \<Rightarrow> x\<lparr>ss_current := Some (tk_hash n)\<rparr>))"
proof
  fix f
  have e: "fam_tokens (s\<lparr>tokens := tokens s @ [n]\<rparr>) f = (if tk_familyId n = f then fam_tokens s f @ [n] else fam_tokens s f)"
    by (simp add: fam_tokens_def)
  have dead: "\<not> live t" if "t \<in> set (fam_tokens s (tk_familyId n))" for t using that assms(2) by (simp add: fam_tokens_set)
  have fnd: "find live (ts @ [n]) = Some n" if "\<And>t. t \<in> set ts \<Longrightarrow> \<not> live t" for ts
    using that assms(1) by (induction ts) auto
  show "session_of (s\<lparr>tokens := tokens s @ [n]\<rparr>) f = ((session_of s)(tk_familyId n \<mapsto>
    (case session_of s (tk_familyId n) of
       None \<Rightarrow> \<lparr>ss_userId = tk_userId n, ss_method = tk_authMethod n, ss_current = Some (tk_hash n), ss_spent = {}\<rparr>
     | Some x \<Rightarrow> x\<lparr>ss_current := Some (tk_hash n)\<rparr>))) f"
  proof (cases "tk_familyId n = f")
    case False
    then show ?thesis by (simp add: session_of_def e)
  next
    case True
    show ?thesis
    proof (cases "fam_tokens s f")
      case Nil
      then show ?thesis using True assms(1) by (auto simp: session_of_def e)
    next
      case (Cons v vs)
      have "find live ((v # vs) @ [n]) = Some n" by (rule fnd) (use dead True Cons in simp)
      moreover have "{x \<in> set ((v # vs) @ [n]). \<not> live x} = {x \<in> set (v # vs). \<not> live x}" using assms(1) by auto
      ultimately show ?thesis using True unfolding session_of_def e Cons by (simp del: find.simps add: Cons)
    qed
  qed
qed

section \<open>What the abstract machine promises\<close>

lemma session_step_ok:
  assumes "session_step m m'" "sessions_ok m"
  shows "sessions_ok m'"
  using assms(1)
proof cases
  case (sess_open f h u k)
  then have "h \<notin> ss_spent x \<union> set_option (ss_current x)" if "m g = Some x" for g x
    using that by (auto simp: digests_def ran_def)
  then show ?thesis using assms(2) by (auto simp: sessions_ok_def sess_open(1))
next
  case (sess_rotate f x h h')
  have new: "h' \<notin> ss_spent y \<union> set_option (ss_current y)" if "m g = Some y" for g y
    using sess_rotate(4) that by (auto simp: digests_def ran_def)
  have sp: "ss_spent (close_session x) = ss_spent x \<union> set_option (ss_current x)" by (simp add: close_session_def)
  show ?thesis
    unfolding sessions_ok_def
  proof (intro conjI allI impI)
    fix g y
    assume "m' g = Some y"
    then show "set_option (ss_current y) \<inter> ss_spent y = {}"
      using assms(2) new [OF sess_rotate(2)] sp by (auto simp: sessions_ok_def sess_rotate(1) split: if_splits)
  next
    fix g k y z
    assume a: "m' g = Some y \<and> m' k = Some z \<and> g \<noteq> k"
    have old: "(ss_spent y \<union> set_option (ss_current y)) \<inter> (ss_spent z \<union> set_option (ss_current z)) = {}"
      if "m g = Some y" "m k = Some z" for y z using assms(2) that a unfolding sessions_ok_def by blast
    show "(ss_spent y \<union> set_option (ss_current y)) \<inter> (ss_spent z \<union> set_option (ss_current z)) = {}"
    proof (cases "g = f"; cases "k = f")
      assume "g = f" "k \<noteq> f"
      then show ?thesis using a old [of x z] new [of k z] sess_rotate(2) sp by (auto simp: sess_rotate(1))
    next
      assume "g \<noteq> f" "k = f"
      then show ?thesis using a old [of y x] new [of g y] sess_rotate(2) sp by (auto simp: sess_rotate(1))
    qed (use a old in \<open>auto simp: sess_rotate(1)\<close>)
  qed
next
  case (sess_close F)
  have e: "\<exists>x. m g = Some x \<and> ss_spent y \<union> set_option (ss_current y) = ss_spent x \<union> set_option (ss_current x)
      \<and> (y = x \<or> y = close_session x)" if "m' g = Some y" for g y
    using that by (auto simp: sess_close close_session_def split: if_splits)
  show ?thesis
    unfolding sessions_ok_def
  proof (intro conjI allI impI)
    fix g y
    assume "m' g = Some y"
    with e obtain x where "m g = Some x" "y = x \<or> y = close_session x" by blast
    then show "set_option (ss_current y) \<inter> ss_spent y = {}" using assms(2) by (auto simp: sessions_ok_def close_session_def)
  next
    fix g k y z
    assume a: "m' g = Some y \<and> m' k = Some z \<and> g \<noteq> k"
    obtain v where v: "m g = Some v" "ss_spent y \<union> set_option (ss_current y) = ss_spent v \<union> set_option (ss_current v)"
      using e a by blast
    obtain w where w: "m k = Some w" "ss_spent z \<union> set_option (ss_current z) = ss_spent w \<union> set_option (ss_current w)"
      using e a by blast
    show "(ss_spent y \<union> set_option (ss_current y)) \<inter> (ss_spent z \<union> set_option (ss_current z)) = {}"
      unfolding v(2) w(2) using assms(2) v(1) w(1) a unfolding sessions_ok_def by blast
  qed
qed

text \<open>A session keeps its owner; a spent digest stays spent and a closed session stays closed.\<close>

definition session_le :: "session \<Rightarrow> session \<Rightarrow> bool" where
  "session_le x y \<longleftrightarrow> ss_userId y = ss_userId x \<and> ss_method y = ss_method x \<and> ss_spent x \<subseteq> ss_spent y
     \<and> (ss_current x = None \<longrightarrow> ss_current y = None)"

lemma session_step_le:
  assumes "session_step m m'" "m f = Some x"
  shows "\<exists>y. m' f = Some y \<and> session_le x y"
  using assms by cases (auto simp: session_le_def close_session_def)

lemma session_run_le:
  assumes "session_step\<^sup>*\<^sup>* m m'" "m f = Some x"
  shows "\<exists>y. m' f = Some y \<and> session_le x y"
  using assms
proof (induction rule: rtranclp_induct)
  case base
  then show ?case by (simp add: session_le_def)
next
  case (step u v)
  then obtain y where y: "u f = Some y" "session_le x y" by blast
  obtain z where "v f = Some z" "session_le y z" using session_step_le [OF step.hyps(2) y(1)] by blast
  then show ?case using y(2) by (auto simp: session_le_def)
qed

section \<open>The operations refine it\<close>

lemma auth_ok_tokens: "auth_ok s \<Longrightarrow> tokens_ok (tokens s)"
  by (simp add: auth_ok_def)

lemma revoke_where_ok:
  assumes "auth_ok s"
  shows "auth_ok (revoke_where P un now s)" "session_step (session_of s) (session_of (revoke_where P un now s))"
proof -
  have "tk_userId ` set (upd (\<lambda>t. P t \<and> live t \<and> tk_hash t \<notin> un) (revoke_token now) (tokens s)) = tk_userId ` set (tokens s)"
    by (rule key_image_upd) simp
  then show "auth_ok (revoke_where P un now s)"
    using assms by (simp add: auth_ok_def tokens_ok_upd)
  show "session_step (session_of s) (session_of (revoke_where P un now s))"
    unfolding session_of_revoke [OF auth_ok_tokens [OF assms]] by (rule sess_close)
qed

lemma digests_tokens: "digests (session_of s) \<subseteq> tk_hash ` set (tokens s)"
proof
  fix h
  assume "h \<in> digests (session_of s)"
  then obtain f x where x: "session_of s f = Some x" "h \<in> ss_spent x \<union> set_option (ss_current x)"
    by (auto simp: digests_def ran_def)
  from x(2) consider "h \<in> ss_spent x" | "ss_current x = Some h" by auto
  then show "h \<in> tk_hash ` set (tokens s)"
  proof cases
    case 1
    then show ?thesis using session_of_Some(1) [OF x(1)] by auto
  next
    case 2
    then show ?thesis using session_of_Some(2) [OF x(1)] by blast
  qed
qed

lemma insert_token_ok:
  assumes "auth_ok s" "insert_token n s = Inr (u, s')" "live n"
    and "\<And>t. t \<in> set (tokens s) \<Longrightarrow> tk_familyId t = tk_familyId n \<Longrightarrow>
      \<not> live t \<and> tk_userId t = tk_userId n \<and> tk_authMethod t = tk_authMethod n"
  shows "auth_ok s'" "s' = s\<lparr>tokens := tokens s @ [n]\<rparr>" "tk_hash n \<notin> tk_hash ` set (tokens s)"
proof -
  show i: "s' = s\<lparr>tokens := tokens s @ [n]\<rparr>" "tk_hash n \<notin> tk_hash ` set (tokens s)"
    using assms(2) by (auto simp: insert_token_def split: if_splits)
  have u: "tk_userId n \<in> u_id ` set (accounts s)" using assms(2) by (auto simp: insert_token_def split: if_splits)
  have "tokens_ok (tokens s @ [n])"
    by (rule tokens_ok_append) (use assms(1,4) i(2) in \<open>auto simp: auth_ok_def kin_def\<close>)
  then show "auth_ok s'" using assms(1) u by (simp add: auth_ok_def i(1))
qed

lemma issue_new_family:
  assumes "auth_ok s" "issueSession j sha e user meth fam s = Inr (r, s')" "fam \<notin> tk_familyId ` set (tokens s)"
  shows "auth_ok s'" "session_step (session_of s) (session_of s')"
proof -
  let ?n = "new_token sha user meth fam e"
  have n: "live ?n" "tk_familyId ?n = fam" by (simp_all add: new_token_def live_def)
  have ins: "insert_token ?n s = Inr ((), s')" using assms(2) by (auto simp: issueSession_def split: sum.splits)
  have none: "tk_familyId t \<noteq> tk_familyId ?n" if "t \<in> set (tokens s)" for t using assms(3) that n(2) by auto
  have new: "auth_ok s'" "s' = s\<lparr>tokens := tokens s @ [?n]\<rparr>" "tk_hash ?n \<notin> tk_hash ` set (tokens s)"
    by (rule insert_token_ok [OF assms(1) ins n(1)]; use none in blast)+
  show "auth_ok s'" by (rule new(1))
  have "session_of s fam = None" using assms(3) by (simp add: session_of_None)
  then show "session_step (session_of s) (session_of s')"
    using sess_open [of "session_of s" fam "tk_hash ?n" "tk_userId ?n" "tk_authMethod ?n"] new(3) digests_tokens [of s]
      session_of_append [OF n(1), of s] none n(2) by (auto simp: new(2))
qed

text \<open>A refresh, by what it finds: nothing to consume, a blocked account, or an active one.\<close>

lemma find_None_all: "find P xs = None \<Longrightarrow> x \<in> set xs \<Longrightarrow> \<not> P x"
  by (simp add: find_None_iff)

lemma consume_as_revoke:
  "s\<lparr>tokens := upd (consumable h now) (revoke_token now) (tokens s)\<rparr>
   = revoke_where (\<lambda>t. tk_hash t = h \<and> now < tk_expiresAt t) {} now s"
  by (simp add: revoke_where_def consumable_def [abs_def] conj_ac)

lemma consume_cases:
  assumes "auth_ok s"
  obtains "\<forall>t \<in> set (tokens s). \<not> consumable h now t" "consume h now s = (None, s)"
  | t a where "t \<in> set (tokens s)" "consumable h now t" "row u_id (accounts s) (tk_userId t) = Some a"
      "consume h now s = (Some (t, a), revoke_where (\<lambda>t. tk_hash t = h \<and> now < tk_expiresAt t) {} now s)"
proof (cases "find (consumable h now) (tokens s)")
  case None
  then show thesis by (intro that(1)) (simp_all add: consume_def find_None_all)
next
  case (Some t)
  then have t: "t \<in> set (tokens s)" "consumable h now t" using find_SomeD by fast+
  then obtain a where a: "row u_id (accounts s) (tk_userId t) = Some a"
    using assms by (cases "row u_id (accounts s) (tk_userId t)") (auto simp: auth_ok_def row_None_iff)
  show thesis by (rule that(2) [OF t a]) (simp add: consume_def Some a consume_as_revoke)
qed

definition rotated :: "(string \<Rightarrow> string) \<Rightarrow> auth_env \<Rightarrow> string \<Rightarrow> refresh_token \<Rightarrow> account \<Rightarrow> auth_db \<Rightarrow> auth_db" where
  "rotated sha e raw t a s =
     (let s1 = revoke_where (\<lambda>x. tk_hash x = sha raw \<and> ae_now e < tk_expiresAt x) {} (ae_now e) s
      in s1\<lparr>tokens := tokens s1 @ [new_token sha (session_user_of a) (tk_authMethod t) (tk_familyId t) e]\<rparr>)"

definition session_response :: "'t jwt \<Rightarrow> auth_env \<Rightarrow> session_user \<Rightarrow> auth_method \<Rightarrow> 't token_response" where
  "session_response j e user meth =
     \<lparr>tr_access = signAccessToken j (session_claims user meth) (ae_clk e), tr_tokenType = ''bearer'',
      tr_expiresIn = ACCESS_TOKEN_TTL_SECONDS, tr_refresh = ae_raw e, tr_user = (su_id user, su_role user, su_phone user)\<rparr>"

lemma refresh_cases:
  assumes "auth_ok s"
  obtains (unusable) "\<forall>t \<in> set (tokens s). \<not> consumable (sha raw) (ae_now e) t"
      "refresh j sha e raw s = (Inl invalidRefresh, revoke_family (sha raw) (ae_unseen e) (ae_now e) s)"
  | (blocked) t a where "t \<in> set (tokens s)" "consumable (sha raw) (ae_now e) t" "row u_id (accounts s) (tk_userId t) = Some a"
      "u_status a \<noteq> UserActive"
      "refresh j sha e raw s = (Inl (Unauthorized ''account_disabled''),
         revoke_where (\<lambda>x. tk_userId x = tk_userId t) (ae_unseen e) (ae_now e)
           (revoke_where (\<lambda>x. tk_hash x = sha raw \<and> ae_now e < tk_expiresAt x) {} (ae_now e) s))"
  | (taken) t a where "t \<in> set (tokens s)" "consumable (sha raw) (ae_now e) t" "row u_id (accounts s) (tk_userId t) = Some a"
      "u_status a = UserActive" "sha (ae_raw e) \<in> tk_hash ` set (tokens s)"
      "refresh j sha e raw s = (Inl (Auth_db (Unique_violation ''auth_refresh_token_pkey'')), s)"
  | (rotates) t a where "t \<in> set (tokens s)" "consumable (sha raw) (ae_now e) t" "row u_id (accounts s) (tk_userId t) = Some a"
      "u_status a = UserActive" "sha (ae_raw e) \<notin> tk_hash ` set (tokens s)"
      "refresh j sha e raw s = (Inr (session_response j e (session_user_of a) (tk_authMethod t)), rotated sha e raw t a s)"
  using assms
proof (cases rule: consume_cases [of _ "sha raw" "ae_now e"])
  case 1
  then show thesis by (intro unusable) (simp_all add: refresh_def transaction_def refresh_tx_def)
next
  case (2 t a)
  let ?s1 = "revoke_where (\<lambda>t. tk_hash t = sha raw \<and> ae_now e < tk_expiresAt t) {} (ae_now e) s"
  have h: "tk_hash ` set (tokens ?s1) = tk_hash ` set (tokens s)" unfolding revoke_where_sel by (rule key_image_upd) simp
  have u: "tk_userId t \<in> u_id ` set (accounts s)" using row_SomeD [OF 2(3)] by (metis imageI)
  have blk: "u_status a \<in> set BLOCKED_USER_STATUSES \<longleftrightarrow> u_status a \<noteq> UserActive"
    by (cases "u_status a") (simp_all add: BLOCKED_USER_STATUSES_def)
  have act: "UserActive \<notin> set BLOCKED_USER_STATUSES" by (simp add: BLOCKED_USER_STATUSES_def)
  have id: "u_id a = tk_userId t" by (rule row_key [OF 2(3)])
  show thesis
  proof (cases "u_status a = UserActive")
    case False
    then show thesis
      by (intro blocked [OF 2(1-3) False]) (simp add: refresh_def transaction_def refresh_tx_def 2(4) blk)
  next
    case True
    let ?n = "new_token sha (session_user_of a) (tk_authMethod t) (tk_familyId t) e"
    have n: "tk_hash ?n = sha (ae_raw e)" "tk_userId ?n = tk_userId t" by (simp_all add: new_token_def session_user_of_def id)
    show thesis
    proof (cases "sha (ae_raw e) \<in> tk_hash ` set (tokens s)")
      case clash: True
      then have "insert_token ?n ?s1 = Inl (Unique_violation ''auth_refresh_token_pkey'')" using h n(1) by (simp add: insert_token_def)
      then show thesis
        by (intro taken [OF 2(1-3) True clash]) (simp add: refresh_def transaction_def refresh_tx_def 2(4) act True issueSession_def)
    next
      case new: False
      then have "insert_token ?n ?s1 = Inr ((), rotated sha e raw t a s)"
        using h n u by (simp add: insert_token_def rotated_def Let_def)
      then show thesis
        by (intro rotates [OF 2(1-3) True new])
          (simp add: refresh_def transaction_def refresh_tx_def 2(4) act True issueSession_def session_response_def)
    qed
  qed
qed

lemma rotated_ok:
  assumes "auth_ok s" "t \<in> set (tokens s)" "consumable (sha raw) (ae_now e) t" "row u_id (accounts s) (tk_userId t) = Some a"
    and "sha (ae_raw e) \<notin> tk_hash ` set (tokens s)"
  shows "auth_ok (rotated sha e raw t a s)" "session_step (session_of s) (session_of (rotated sha e raw t a s))"
    and "\<exists>x. session_of s (tk_familyId t) = Some x \<and> ss_current x = Some (sha raw)
      \<and> session_of (rotated sha e raw t a s) = (session_of s)(tk_familyId t \<mapsto> (close_session x)\<lparr>ss_current := Some (sha (ae_raw e))\<rparr>)"
proof -
  let ?s1 = "revoke_where (\<lambda>x. tk_hash x = sha raw \<and> ae_now e < tk_expiresAt x) {} (ae_now e) s"
    and ?n = "new_token sha (session_user_of a) (tk_authMethod t) (tk_familyId t) e" and ?f = "tk_familyId t"
  have n: "tk_hash ?n = sha (ae_raw e)" "tk_userId ?n = tk_userId t" "tk_familyId ?n = ?f" "tk_authMethod ?n = tk_authMethod t" "live ?n"
    using row_key [OF assms(4)] by (simp_all add: new_token_def session_user_of_def live_def)
  note tok = auth_ok_tokens [OF assms(1)]
  have t: "live t" "tk_hash t = sha raw" "ae_now e < tk_expiresAt t" using assms(3) by (simp_all add: consumable_def live_def)
  have only: "u = t" if "u \<in> set (tokens s)" "tk_hash u = sha raw" for u
    by (rule tokens_okD(1) [OF tok that(1) assms(2)]) (simp add: that(2) t(2))
  have F: "{f. \<exists>u \<in> set (tokens s). tk_familyId u = f \<and> (tk_hash u = sha raw \<and> ae_now e < tk_expiresAt u) \<and> live u \<and> tk_hash u \<notin> {}} = {?f}"
    using only assms(2) t by blast
  obtain x where x: "session_of s ?f = Some x" using assms(2) session_of_None [of s ?f] by auto
  have cur: "ss_current x = Some (sha raw)"
  proof (cases "ss_current x")
    case None
    then show ?thesis using session_of_Some(3) [OF x None assms(2) refl] t(1) by simp
  next
    case (Some h)
    obtain u where u: "u \<in> set (tokens s)" "tk_familyId u = ?f" "live u" "tk_hash u = h" using session_of_Some(2) [OF x Some] by blast
    then show ?thesis using Some tokens_okD(3) [OF tok u(1) assms(2) u(2) u(3) t(1)] t(2) by simp
  qed
  have s1: "auth_ok ?s1" "session_of ?s1 = (session_of s)(?f \<mapsto> close_session x)"
    by (rule revoke_where_ok(1) [OF assms(1)]) (unfold session_of_revoke [OF tok] F, auto simp: x)
  have old: "\<not> live u \<and> tk_userId u = tk_userId ?n \<and> tk_authMethod u = tk_authMethod ?n"
    if "u \<in> set (tokens ?s1)" "tk_familyId u = tk_familyId ?n" for u
  proof -
    have "t' \<in> set (tokens ?s1) \<Longrightarrow> tk_familyId t' = ?f \<Longrightarrow> \<not> live t'" for t'
      using session_of_Some(3) [of ?s1 ?f "close_session x" t'] s1(2) by (simp add: close_session_def)
    moreover have "revoke_token (ae_now e) t \<in> set (tokens ?s1)" using assms(2) t by (auto simp: set_upd intro!: bexI [of _ t])
    ultimately show ?thesis
      using tokens_okD(2) [OF auth_ok_tokens [OF s1(1)] that(1), of "revoke_token (ae_now e) t"] that n by simp
  qed
  have rot: "rotated sha e raw t a s = ?s1\<lparr>tokens := tokens ?s1 @ [?n]\<rparr>" by (simp add: rotated_def Let_def)
  have h: "tk_hash ` set (tokens ?s1) = tk_hash ` set (tokens s)" unfolding revoke_where_sel by (rule key_image_upd) simp
  have u: "tk_userId t \<in> u_id ` set (accounts s)" using row_SomeD [OF assms(4)] by (metis imageI)
  have ins: "insert_token ?n ?s1 = Inr ((), rotated sha e raw t a s)"
    using h n(1,2) assms(5) u by (simp add: insert_token_def rot)
  show "auth_ok (rotated sha e raw t a s)" by (rule insert_token_ok(1) [OF s1(1) ins n(5)]) (rule old)
  have e: "session_of (rotated sha e raw t a s) = (session_of s)(?f \<mapsto> (close_session x)\<lparr>ss_current := Some (sha (ae_raw e))\<rparr>)"
    unfolding rot using old by (subst session_of_append [OF n(5)]) (simp_all add: s1(2) n(1,3))
  show "session_step (session_of s) (session_of (rotated sha e raw t a s))"
    unfolding e by (rule sess_rotate [where m = "session_of s" and f = ?f, OF x cur]) (use assms(5) digests_tokens in blast)
  show "\<exists>x. session_of s ?f = Some x \<and> ss_current x = Some (sha raw)
      \<and> session_of (rotated sha e raw t a s) = (session_of s)(?f \<mapsto> (close_session x)\<lparr>ss_current := Some (sha (ae_raw e))\<rparr>)"
    using x cur e by blast
qed

lemma session_of_cong: "tokens s' = tokens s \<Longrightarrow> session_of s' = session_of s"
  by (rule ext) (simp add: session_of_def fam_tokens_def)

lemma revoke_family_ok:
  assumes "auth_ok s"
  shows "auth_ok (revoke_family h un now s)" "session_step\<^sup>*\<^sup>* (session_of s) (session_of (revoke_family h un now s))"
  using assms revoke_where_ok [OF assms] by (auto simp: revoke_family_def split: option.split intro: r_into_rtranclp)

lemma refresh_ok:
  assumes "auth_ok s"
  shows "auth_ok (snd (refresh j sha e raw s)) \<and> session_step\<^sup>*\<^sup>* (session_of s) (session_of (snd (refresh j sha e raw s)))"
  using assms
proof (cases rule: refresh_cases [of _ sha raw e j])
  case unusable
  then show ?thesis using revoke_family_ok [OF assms] by simp
next
  case (blocked t a)
  note r1 = revoke_where_ok [OF assms, of "\<lambda>x. tk_hash x = sha raw \<and> ae_now e < tk_expiresAt x" "{}" "ae_now e"]
  note r2 = revoke_where_ok [OF r1(1), of "\<lambda>x. tk_userId x = tk_userId t" "ae_unseen e" "ae_now e"]
  show ?thesis using blocked(5) r1(2) r2 by (auto intro: rtranclp.rtrancl_into_rtrancl [OF r_into_rtranclp])
next
  case taken
  then show ?thesis using assms by simp
next
  case (rotates t a)
  then show ?thesis using rotated_ok [OF assms rotates(1-3,5)] by (simp add: r_into_rtranclp)
qed

lemma accounts_ok_new:
  assumes "accounts_ok us" "u_id a \<notin> u_id ` set us" "u_firebaseUid a \<notin> u_firebaseUid ` set us"
    and "u_phoneE164 a \<notin> u_phoneE164 ` set us" "u_googleSub a = None"
  shows "accounts_ok (us @ [a])"
proof -
  have "sub_ok a b" "sub_ok b a" for b using assms(5) by (auto simp: sub_ok_def)
  then show ?thesis using assms(1-4) by (auto simp: accounts_ok_def)
qed

lemma accounts_ok_upd:
  assumes "accounts_ok us" "\<And>a. u_id (g a) = u_id a" "\<And>a. u_firebaseUid (g a) = u_firebaseUid a" "\<And>a. u_phoneE164 (g a) = u_phoneE164 a"
    and "\<And>a b. a \<in> set us \<Longrightarrow> b \<in> set us \<Longrightarrow> sub_ok a b \<Longrightarrow> sub_ok (if P a then g a else a) (if P b then g b else b)"
  shows "accounts_ok (upd P g us)"
proof -
  have "sub_ok x y" if x: "x \<in> set (upd P g us)" and y: "y \<in> set (upd P g us)" for x y
  proof -
    from x obtain a where a: "a \<in> set us" "x = (if P a then g a else a)" by (rule set_updE)
    from y obtain b where b: "b \<in> set us" "y = (if P b then g b else b)" by (rule set_updE)
    show ?thesis unfolding a(2) b(2) by (rule assms(5) [OF a(1) b(1)]) (use assms(1) a(1) b(1) in \<open>simp add: accounts_ok_def\<close>)
  qed
  then show ?thesis using assms(1-4) by (simp add: accounts_ok_def)
qed

lemma accounts_ok_status: "accounts_ok us \<Longrightarrow> accounts_ok (upd (\<lambda>a. u_id a = i) (\<lambda>a. a\<lparr>u_status := st\<rparr>) us)"
  by (erule accounts_ok_upd) (auto simp: sub_ok_def)

lemma accounts_ok_link:
  assumes "accounts_ok us" "i \<in> u_id ` set us \<longrightarrow> (\<forall>a \<in> set us. u_id a \<noteq> i \<longrightarrow> u_googleSub a \<noteq> Some sub)"
  shows "accounts_ok (upd (\<lambda>a. u_id a = i) (link_row sub email) us)"
  using assms(1)
proof (rule accounts_ok_upd)
  fix a b
  assume ab: "a \<in> set us" "b \<in> set us" "sub_ok a b"
  show "sub_ok (if u_id a = i then link_row sub email a else a) (if u_id b = i then link_row sub email b else b)"
  proof (cases "u_id a = i"; cases "u_id b = i")
    assume "u_id a = i" "u_id b \<noteq> i"
    then have "u_googleSub b \<noteq> Some sub" using assms(2) ab(1,2) by blast
    then show ?thesis using \<open>u_id a = i\<close> \<open>u_id b \<noteq> i\<close> by (auto simp: sub_ok_def link_row_def)
  next
    assume "u_id a \<noteq> i" "u_id b = i"
    then have "u_googleSub a \<noteq> Some sub" using assms(2) ab(1,2) by blast
    then show ?thesis using \<open>u_id a \<noteq> i\<close> \<open>u_id b = i\<close> by (auto simp: sub_ok_def link_row_def)
  qed (use ab(3) in \<open>simp_all add: sub_ok_def link_row_def\<close>)
qed (simp_all add: link_row_def)

lemma auth_step_sim:
  assumes "auth_step j sha s s'" "auth_ok s"
  shows "auth_ok s' \<and> session_step\<^sup>*\<^sup>* (session_of s) (session_of s')"
  using assms(1)
proof cases
  case (at_user uid phone i u)
  then have s': "tokens s' = tokens s" "\<exists>a. accounts s' = accounts s @ [a] \<and> accounts_ok (accounts s @ [a])"
    using assms(2) by (auto simp: create_user_def Let_def auth_ok_def intro!: accounts_ok_new split: if_splits)
  then show ?thesis using assms(2) session_of_cong [OF s'(1)] by (auto simp: auth_ok_def)
next
  case (at_issue e user meth fam r)
  then show ?thesis using issue_new_family [OF assms(2) at_issue] by (simp add: r_into_rtranclp)
next
  case (at_refresh e raw)
  then show ?thesis using refresh_ok [OF assms(2)] by simp
next
  case (at_presented e raw)
  then show ?thesis using revoke_where_ok [OF assms(2)] by (auto simp: revokePresented_def)
next
  case (at_revoke e raw user)
  then show ?thesis using revoke_where_ok [OF assms(2)] by (auto simp: revoke_def)
next
  case (at_link user sub email u)
  then have s': "s' = s\<lparr>accounts := upd (\<lambda>a. u_id a = user) (link_row sub email) (accounts s)\<rparr>"
    and free: "user \<in> u_id ` set (accounts s) \<longrightarrow> (\<forall>a \<in> set (accounts s). u_id a \<noteq> user \<longrightarrow> u_googleSub a \<noteq> Some sub)"
    by (auto simp: link_update_def split: if_splits)
  have "u_id ` set (upd (\<lambda>a. u_id a = user) (link_row sub email) (accounts s)) = u_id ` set (accounts s)"
    by (rule key_image_upd) (simp add: link_row_def)
  then show ?thesis
    using assms(2) accounts_ok_link [OF _ free] session_of_cong [of s' s] by (simp add: auth_ok_def s')
next
  case (at_status i st)
  have "u_id ` set (upd (\<lambda>a. u_id a = i) (\<lambda>a. a\<lparr>u_status := st\<rparr>) (accounts s)) = u_id ` set (accounts s)"
    by (rule key_image_upd) simp
  then show ?thesis
    using assms(2) accounts_ok_status session_of_cong [of s' s] by (simp add: auth_ok_def at_status)
qed

section \<open>A refined transition system\<close>

locale refined_system = transition_system init step inv
  for init :: "'s \<Rightarrow> bool" and step :: "'s \<Rightarrow> 's \<Rightarrow> bool" and inv :: "'s \<Rightarrow> bool" +
  fixes abs :: "'s \<Rightarrow> 'a" and astep :: "'a \<Rightarrow> 'a \<Rightarrow> bool"
  assumes step_sim: "inv s \<Longrightarrow> step s t \<Longrightarrow> astep\<^sup>*\<^sup>* (abs s) (abs t)"
begin

lemma run_sim: "step\<^sup>*\<^sup>* s t \<Longrightarrow> inv s \<Longrightarrow> astep\<^sup>*\<^sup>* (abs s) (abs t)"
proof (induction rule: rtranclp_induct)
  case (step u v)
  then show ?case using step_sim [OF run_inv [OF step.hyps(1) step.prems] step.hyps(2)] by (meson rtranclp_trans)
qed simp

end

lemma auth_init_ok: "auth_init s \<Longrightarrow> auth_ok s"
  by (simp add: auth_init_def auth_ok_def accounts_ok_def tokens_ok_def)

interpretation auth: refined_system auth_init "auth_step j sha" auth_ok session_of session_step for j sha
  by unfold_locales (auto dest: auth_init_ok auth_step_sim)

end
