(* ===== verification/Session_Histories.thy ===== *)
theory Session_Histories
  imports Session_Facts
begin

text \<open>
  Histories of the session tables. Every call that changes them is labelled by what the caller sees: the digest it
  presents, the answer and the digest it is given. The abstract machine of sessions takes the same labels, and every
  concrete history is one of its histories, state by state.
\<close>

section \<open>Histories\<close>

text \<open>A history from a state: the labels, each with the state after it.\<close>

fun history :: "('a \<Rightarrow> 's \<Rightarrow> 's \<Rightarrow> bool) \<Rightarrow> 's \<Rightarrow> ('a \<times> 's) list \<Rightarrow> bool" where
  "history step s [] \<longleftrightarrow> True"
| "history step s ((a, t) # h) \<longleftrightarrow> step a s t \<and> history step t h"

locale history_refinement =
  fixes step :: "'a \<Rightarrow> 's \<Rightarrow> 's \<Rightarrow> bool" and astep :: "'a \<Rightarrow> 't \<Rightarrow> 't \<Rightarrow> bool"
    and inv :: "'s \<Rightarrow> bool" and abs :: "'s \<Rightarrow> 't" and ainv :: "'t \<Rightarrow> bool"
  assumes sim: "inv s \<Longrightarrow> step a s t \<Longrightarrow> inv t \<and> astep a (abs s) (abs t)"
    and ainv_step: "ainv m \<Longrightarrow> astep a m n \<Longrightarrow> ainv n"
begin

lemma history_sim:
  assumes "history step s h" "inv s" "ainv (abs s)"
  shows "history astep (abs s) (map (map_prod id abs) h) \<and> (\<forall>(a, t) \<in> set h. ainv (abs t))"
  using assms
proof (induction h arbitrary: s)
  case (Cons x h)
  obtain a t where x: "x = (a, t)" by force
  have t: "inv t" "astep a (abs s) (abs t)" using sim [OF Cons.prems(2), of a t] Cons.prems(1) by (simp_all add: x)
  then have "ainv (abs t)" by (blast intro: ainv_step [OF Cons.prems(3)])
  with Cons.IH [OF _ t(1)] Cons.prems(1) t(2) show ?case by (simp add: x)
qed simp

end

section \<open>The calls\<close>

datatype session_act =
    Opens uuid uuid auth_method string \<comment> \<open>session, account, method, digest\<close>
  | Rotates uuid string string \<comment> \<open>account, digest presented, digest given\<close>
  | Refuses string
  | Signs_out string "uuid option"
  | Keeps

inductive auth_does :: "'t jwt \<Rightarrow> (string \<Rightarrow> string) \<Rightarrow> session_act \<Rightarrow> auth_db \<Rightarrow> auth_db \<Rightarrow> bool" for j sha where
  do_user: "create_user uid phone i s = Inr (u, s') \<Longrightarrow> auth_does j sha Keeps s s'"
| do_issue: "issueSession j sha e user meth fam s = Inr (r, s') \<Longrightarrow> fam \<notin> tk_familyId ` set (tokens s)
    \<Longrightarrow> auth_does j sha (Opens fam (fst (tr_user r)) meth (sha (tr_refresh r))) s s'"
| do_rotate: "refresh j sha e raw s = (Inr r, s')
    \<Longrightarrow> auth_does j sha (Rotates (fst (tr_user r)) (sha raw) (sha (tr_refresh r))) s s'"
| do_refuse: "refresh j sha e raw s = (Inl err, s') \<Longrightarrow> auth_does j sha (Refuses (sha raw)) s s'"
| do_presented: "auth_does j sha (Signs_out (sha raw) None) s (revokePresented sha e raw s)"
| do_revoke: "auth_does j sha (Signs_out (sha raw) (Some user)) s (revoke sha e raw user s)"
| do_link: "link_update user sub email s = Inr (u, s') \<Longrightarrow> auth_does j sha Keeps s s'"
| do_status: "auth_does j sha Keeps s (s\<lparr>accounts := upd (\<lambda>a. u_id a = i) (\<lambda>a. a\<lparr>u_status := st\<rparr>) (accounts s)\<rparr>)"

text \<open>The labels leave no step out.\<close>

lemma auth_step_does: "auth_step j sha s t \<longleftrightarrow> (\<exists>a. auth_does j sha a s t)"
proof
  assume "auth_step j sha s t"
  then show "\<exists>a. auth_does j sha a s t"
  proof cases
    case (at_refresh e raw)
    then show ?thesis by (cases "refresh j sha e raw s"; cases "fst (refresh j sha e raw s)") (auto intro: auth_does.intros)
  qed (auto intro: auth_does.intros)
next
  assume "\<exists>a. auth_does j sha a s t"
  then obtain a where "auth_does j sha a s t" by blast
  then show "auth_step j sha s t"
  proof cases
    case (do_rotate e raw r)
    then show ?thesis using at_refresh [of j sha s e raw] by simp
  next
    case (do_refuse e raw err)
    then show ?thesis using at_refresh [of j sha s e raw] by simp
  qed (auto intro: auth_step.intros)
qed

section \<open>The abstract machine, with labels\<close>

definition closing :: "uuid set \<Rightarrow> sessions \<Rightarrow> sessions" where
  "closing F m f = (if f \<in> F then map_option close_session (m f) else m f)"

definition holds_digest :: "string \<Rightarrow> session \<Rightarrow> bool" where
  "holds_digest h x \<longleftrightarrow> h \<in> ss_spent x \<union> set_option (ss_current x)"

text \<open>
  A session opens with a new digest. A rotation is answered only for the current digest of a session of the account
  named: that digest is spent and a new one is current, in this session alone. A refused refresh closes no session but
  those of the account whose digest it presented. A sign-out closes exactly the session the digest is current in.
\<close>

inductive session_does :: "session_act \<Rightarrow> sessions \<Rightarrow> sessions \<Rightarrow> bool" where
  does_open: "m f = None \<Longrightarrow> h \<notin> digests m
    \<Longrightarrow> session_does (Opens f u k h) m (m(f \<mapsto> \<lparr>ss_userId = u, ss_method = k, ss_current = Some h, ss_spent = {}\<rparr>))"
| does_rotate: "m f = Some x \<Longrightarrow> ss_userId x = u \<Longrightarrow> ss_current x = Some h \<Longrightarrow> h' \<notin> digests m
    \<Longrightarrow> session_does (Rotates u h h') m (m(f \<mapsto> x\<lparr>ss_current := Some h', ss_spent := insert h (ss_spent x)\<rparr>))"
| does_refuse: "(\<And>f. f \<in> F \<Longrightarrow> \<exists>g x y. m f = Some x \<and> m g = Some y \<and> holds_digest h y \<and> ss_userId x = ss_userId y)
    \<Longrightarrow> session_does (Refuses h) m (closing F m)"
| does_sign_out: "session_does (Signs_out h who) m
    (closing {f. \<exists>x. m f = Some x \<and> ss_current x = Some h \<and> (case who of None \<Rightarrow> True | Some u \<Rightarrow> ss_userId x = u)} m)"
| does_keep: "session_does Keeps m m"

lemma closing_empty [simp]: "closing {} m = m"
  by (simp add: closing_def fun_eq_iff)

lemma close_close [simp]: "close_session (close_session x) = close_session x"
  by (simp add: close_session_def)

lemma closing_closing [simp]: "closing F (closing G m) = closing (F \<union> G) m"
  by (auto simp: closing_def fun_eq_iff option.map_comp comp_def)

lemma session_step_closing: "session_step m (closing F m)"
  using sess_close [of m F] by (simp only: closing_def [abs_def])

lemma session_does_step: "session_does a m n \<Longrightarrow> session_step m n"
proof (induction rule: session_does.induct)
  case (does_rotate m f x u h h')
  have "(close_session x)\<lparr>ss_current := Some h'\<rparr> = x\<lparr>ss_current := Some h', ss_spent := insert h (ss_spent x)\<rparr>"
    using does_rotate(3) by (simp add: close_session_def)
  with sess_rotate [of m f x h h'] does_rotate(1,3,4) show ?case by metis
next
  case (does_keep m)
  show ?case using session_step_closing [of m "{}"] by simp
qed ((rule sess_open; assumption) | rule session_step_closing)+

section \<open>The calls do what their labels say\<close>

lemma revoke_where_closing:
  assumes "auth_ok s"
  shows "session_of (revoke_where P un now s) =
    closing {f. \<exists>t \<in> set (tokens s). tk_familyId t = f \<and> P t \<and> live t \<and> tk_hash t \<notin> un} (session_of s)"
  unfolding session_of_revoke [OF auth_ok_tokens [OF assms]] by (simp add: closing_def [abs_def])

text \<open>A row is in the session of its family, which belongs to its account and holds its digest.\<close>

lemma session_owner:
  assumes "session_of s f = Some x"
  obtains t where "t \<in> set (tokens s)" "tk_familyId t = f" "ss_userId x = tk_userId t" "ss_method x = tk_authMethod t"
proof -
  obtain t ts where e: "fam_tokens s f = t # ts" "ss_userId x = tk_userId t" "ss_method x = tk_authMethod t"
    using assms by (auto simp: session_of_def split: list.splits)
  have "t \<in> set (fam_tokens s f)" by (simp add: e(1))
  then show thesis by (intro that [of t]) (simp_all add: fam_tokens_def e(2,3))
qed

lemma token_session:
  assumes "auth_ok s" "t \<in> set (tokens s)"
  obtains x where "session_of s (tk_familyId t) = Some x" "ss_userId x = tk_userId t" "holds_digest (tk_hash t) x"
    "live t \<Longrightarrow> ss_current x = Some (tk_hash t)"
proof -
  note tok = auth_ok_tokens [OF assms(1)]
  obtain x where x: "session_of s (tk_familyId t) = Some x" using assms(2) session_of_None [of s "tk_familyId t"] by auto
  obtain u where u: "u \<in> set (tokens s)" "tk_familyId u = tk_familyId t" "ss_userId x = tk_userId u"
    using session_owner [OF x] by metis
  have cur: "ss_current x = Some (tk_hash t)" if l: "live t"
  proof (cases "ss_current x")
    case None
    then show ?thesis using session_of_Some(3) [OF x None assms(2) refl] l by simp
  next
    case (Some h)
    then obtain v where "v \<in> set (tokens s)" "tk_familyId v = tk_familyId t" "live v" "tk_hash v = h"
      using session_of_Some(2) [OF x] by blast
    then show ?thesis using Some tokens_okD(3) [OF tok _ assms(2) _ _ l] by blast
  qed
  have "holds_digest (tk_hash t) x"
    using cur session_of_Some(1) [OF x] assms(2) by (cases "live t") (auto simp: holds_digest_def)
  moreover have "ss_userId x = tk_userId t" using tokens_okD(2) [OF tok u(1) assms(2) u(2)] u(3) by simp
  ultimately show thesis using that x cur by blast
qed

lemma signs_out:
  assumes "auth_ok s"
  shows "session_does (Signs_out h who) (session_of s)
    (session_of (revoke_where (\<lambda>t. tk_hash t = h \<and> (case who of None \<Rightarrow> True | Some u \<Rightarrow> tk_userId t = u)) {} now s))"
proof -
  have "(\<exists>t \<in> set (tokens s). tk_familyId t = f \<and> (tk_hash t = h \<and> (case who of None \<Rightarrow> True | Some u \<Rightarrow> tk_userId t = u)) \<and> live t \<and> tk_hash t \<notin> {})
      \<longleftrightarrow> (\<exists>x. session_of s f = Some x \<and> ss_current x = Some h \<and> (case who of None \<Rightarrow> True | Some u \<Rightarrow> ss_userId x = u))" (is "?L \<longleftrightarrow> ?R") for f
  proof
    assume ?L
    then obtain t where t: "t \<in> set (tokens s)" "tk_familyId t = f" "tk_hash t = h" "live t"
      and w: "case who of None \<Rightarrow> True | Some u \<Rightarrow> tk_userId t = u" by blast
    obtain x where "session_of s f = Some x" "ss_userId x = tk_userId t" "ss_current x = Some h"
      using token_session [OF assms t(1)] t by metis
    then show ?R using w by (auto split: option.splits)
  next
    assume ?R
    then obtain x where x: "session_of s f = Some x" "ss_current x = Some h"
      and w: "case who of None \<Rightarrow> True | Some u \<Rightarrow> ss_userId x = u" by blast
    obtain t where t: "t \<in> set (tokens s)" "tk_familyId t = f" "live t" "tk_hash t = h"
      using session_of_Some(2) [OF x(1,2)] by blast
    then have "ss_userId x = tk_userId t" using token_session [OF assms t(1)] x(1) by (metis option.inject)
    then show ?L using t w by (intro bexI [OF _ t(1)]) (simp split: option.splits)
  qed
  then show ?thesis unfolding revoke_where_closing [OF assms] using does_sign_out [of h who "session_of s"] by simp
qed

text \<open>A refused refresh closes only sessions of the account whose digest it presented.\<close>

lemma refuses:
  assumes "auth_ok s" "refresh j sha e raw s = (Inl err, s')"
  shows "session_does (Refuses (sha raw)) (session_of s) (session_of s')"
proof -
  have own: "\<exists>g x y. session_of s f = Some x \<and> session_of s g = Some y \<and> holds_digest (sha raw) y \<and> ss_userId x = ss_userId y"
    if "t \<in> set (tokens s)" "tk_hash t = sha raw" "u \<in> set (tokens s)" "tk_familyId u = f" "tk_userId u = tk_userId t" for t u f
    using token_session [OF assms(1) that(1)] token_session [OF assms(1) that(3)] that by metis
  show ?thesis
    using assms(1)
  proof (cases rule: refresh_cases [of _ sha raw e j])
    case unusable
    show ?thesis
    proof (cases "find (replayed (sha raw) (ae_now e)) (tokens s)")
      case None
      then have "s' = s" using unusable(2) assms(2) by (simp add: revoke_family_def)
      then show ?thesis using does_refuse [of "{}" "session_of s" "sha raw"] by simp
    next
      case (Some t)
      then have t: "t \<in> set (tokens s)" "tk_hash t = sha raw" using find_SomeD [OF Some] by (simp_all add: replayed_def)
      have "tk_userId u = tk_userId t" if "u \<in> set (tokens s)" "tk_familyId u = tk_familyId t" for u
        using tokens_okD(2) [OF auth_ok_tokens [OF assms(1)] that(1) t(1) that(2)] by simp
      moreover have "s' = revoke_where (\<lambda>x. tk_familyId x = tk_familyId t) (ae_unseen e) (ae_now e) s"
        using unusable(2) assms(2) Some by (simp add: revoke_family_def)
      ultimately show ?thesis
        by (simp only: revoke_where_closing [OF assms(1)]) (rule does_refuse, use own [OF t] in blast)
    qed
  next
    case (blocked t a)
    let ?s1 = "revoke_where (\<lambda>x. tk_hash x = sha raw \<and> ae_now e < tk_expiresAt x) {} (ae_now e) s"
    have t: "t \<in> set (tokens s)" "tk_hash t = sha raw" using blocked(1,2) by (simp_all add: consumable_def)
    have ok1: "auth_ok ?s1" by (rule revoke_where_ok(1) [OF assms(1)])
    have only: "u = t" if "u \<in> set (tokens s)" "tk_hash u = sha raw" for u
      by (rule tokens_okD(1) [OF auth_ok_tokens [OF assms(1)] that(1) t(1)]) (simp add: that(2) t(2))
    have s': "s' = revoke_where (\<lambda>x. tk_userId x = tk_userId t) (ae_unseen e) (ae_now e) ?s1" using blocked(5) assms(2) by simp
    have origin: "\<exists>v \<in> set (tokens s). tk_familyId v = tk_familyId u \<and> tk_userId v = tk_userId u" if "u \<in> set (tokens ?s1)" for u
      using that unfolding revoke_where_sel by (elim set_updE) (auto split: if_splits)
    show ?thesis
      unfolding s' revoke_where_closing [OF ok1] revoke_where_closing [OF assms(1)] closing_closing
    proof (rule does_refuse)
      fix f
      assume "f \<in> {f. \<exists>u \<in> set (tokens ?s1). tk_familyId u = f \<and> tk_userId u = tk_userId t \<and> live u \<and> tk_hash u \<notin> ae_unseen e}
        \<union> {f. \<exists>u \<in> set (tokens s). tk_familyId u = f \<and> (tk_hash u = sha raw \<and> ae_now e < tk_expiresAt u) \<and> live u \<and> tk_hash u \<notin> {}}"
      then have "\<exists>v \<in> set (tokens s). tk_familyId v = f \<and> tk_userId v = tk_userId t"
      proof
        assume "f \<in> {f. \<exists>u \<in> set (tokens ?s1). tk_familyId u = f \<and> tk_userId u = tk_userId t \<and> live u \<and> tk_hash u \<notin> ae_unseen e}"
        then obtain u where "u \<in> set (tokens ?s1)" "tk_familyId u = f" "tk_userId u = tk_userId t" by blast
        with origin [OF this(1)] show ?thesis by simp
      next
        assume "f \<in> {f. \<exists>u \<in> set (tokens s). tk_familyId u = f \<and> (tk_hash u = sha raw \<and> ae_now e < tk_expiresAt u) \<and> live u \<and> tk_hash u \<notin> {}}"
        then obtain u where "u \<in> set (tokens s)" "tk_familyId u = f" "tk_hash u = sha raw" by blast
        with only [OF this(1,3)] show ?thesis by blast
      qed
      then obtain v where "v \<in> set (tokens s)" "tk_familyId v = f" "tk_userId v = tk_userId t" by blast
      then show "\<exists>g x y. session_of s f = Some x \<and> session_of s g = Some y \<and> holds_digest (sha raw) y \<and> ss_userId x = ss_userId y"
        by (rule own [OF t])
    qed
  next
    case taken
    then have "s' = s" using assms(2) by simp
    then show ?thesis using does_refuse [of "{}" "session_of s" "sha raw"] by simp
  next
    case rotates
    then show ?thesis using assms(2) by simp
  qed
qed

lemma rotates:
  assumes "auth_ok s" "refresh j sha e raw s = (Inr r, s')"
  shows "session_does (Rotates (fst (tr_user r)) (sha raw) (sha (tr_refresh r))) (session_of s) (session_of s')"
  using assms(1)
proof (cases rule: refresh_cases [of _ sha raw e j])
  case (rotates t a)
  have r: "r = session_response j e (session_user_of a) (tk_authMethod t)" and s': "s' = rotated sha e raw t a s"
    using rotates(6) assms(2) by simp_all
  have id: "fst (tr_user r) = tk_userId t" "tr_refresh r = ae_raw e"
    using row_key [OF rotates(3)] by (simp_all add: r session_response_def session_user_of_def)
  obtain x where x: "session_of s (tk_familyId t) = Some x" "ss_current x = Some (sha raw)"
    and s1: "session_of s' = (session_of s)(tk_familyId t \<mapsto> (close_session x)\<lparr>ss_current := Some (sha (ae_raw e))\<rparr>)"
    using rotated_ok(3) [OF assms(1) rotates(1-3,5)] unfolding s' by blast
  have "ss_userId x = tk_userId t" using token_session [OF assms(1) rotates(1)] x(1) by (metis option.inject)
  moreover have "sha (ae_raw e) \<notin> digests (session_of s)" using rotates(5) digests_tokens by blast
  moreover have "(close_session x)\<lparr>ss_current := Some (sha (ae_raw e))\<rparr>
      = x\<lparr>ss_current := Some (sha (ae_raw e)), ss_spent := insert (sha raw) (ss_spent x)\<rparr>"
    by (simp add: close_session_def x(2))
  ultimately show ?thesis
    unfolding s1 id using does_rotate [of "session_of s" "tk_familyId t" x "tk_userId t" "sha raw" "sha (ae_raw e)"] x by simp
qed (use assms(2) in simp_all)

lemma issue_opens:
  assumes "auth_ok s" "issueSession j sha e user meth fam s = Inr (r, s')" "fam \<notin> tk_familyId ` set (tokens s)"
  shows "session_does (Opens fam (fst (tr_user r)) meth (sha (tr_refresh r))) (session_of s) (session_of s')"
proof -
  let ?n = "new_token sha user meth fam e"
  have n: "live ?n" "tk_familyId ?n = fam" "tk_userId ?n = fst (tr_user r)" "tk_hash ?n = sha (tr_refresh r)" "tk_authMethod ?n = meth"
    using assms(2) by (auto simp: issueSession_def new_token_def live_def split: sum.splits)
  have ins: "insert_token ?n s = Inr ((), s')" using assms(2) by (auto simp: issueSession_def split: sum.splits)
  have none: "tk_familyId t \<noteq> tk_familyId ?n" if "t \<in> set (tokens s)" for t using assms(3) that n(2) by auto
  have new: "s' = s\<lparr>tokens := tokens s @ [?n]\<rparr>" "tk_hash ?n \<notin> tk_hash ` set (tokens s)"
    by (rule insert_token_ok [OF assms(1) ins n(1)]; use none in blast)+
  have "session_of s fam = None" using assms(3) by (simp add: session_of_None)
  then show ?thesis
    using does_open [of "session_of s" fam "tk_hash ?n" "tk_userId ?n" "tk_authMethod ?n"] new(2) digests_tokens [of s]
      session_of_append [OF n(1), of s] none n(2-5) by (auto simp: new(1))
qed

lemma auth_does_sim:
  assumes "auth_ok s" "auth_does j sha a s t"
  shows "auth_ok t \<and> session_does a (session_of s) (session_of t)"
proof
  show "auth_ok t" using auth_step_sim [of j sha s t] auth_step_does [of j sha s t] assms by blast
  show "session_does a (session_of s) (session_of t)"
    using assms(2)
  proof cases
    case (do_user uid phone i u)
    then have "tokens t = tokens s" by (auto simp: create_user_def Let_def split: if_splits)
    then show ?thesis using do_user(1) session_of_cong [of t s] does_keep by simp
  next
    case do_issue
    then show ?thesis using issue_opens [OF assms(1)] by blast
  next
    case do_rotate
    then show ?thesis using rotates [OF assms(1)] by blast
  next
    case do_refuse
    then show ?thesis using refuses [OF assms(1)] by blast
  next
    case (do_presented raw e)
    then show ?thesis using signs_out [OF assms(1), of "sha raw" None "ae_now e"] by (simp add: revokePresented_def)
  next
    case (do_revoke raw user e)
    then show ?thesis using signs_out [OF assms(1), of "sha raw" "Some user" "ae_now e"] by (simp add: revoke_def)
  next
    case (do_link user sub email u)
    then have "tokens t = tokens s" by (auto simp: link_update_def split: if_splits)
    then show ?thesis using do_link(1) session_of_cong [of t s] does_keep by simp
  next
    case (do_status i st)
    then have "tokens t = tokens s" by simp
    then show ?thesis using do_status(1) session_of_cong [of t s] does_keep by simp
  qed
qed

interpretation auth_histories: history_refinement "auth_does j sha" session_does auth_ok session_of sessions_ok for j sha
  by unfold_locales (auto dest: auth_does_sim session_does_step session_step_ok)

end
