(* ===== verification/Session_Properties.thy ===== *)
theory Session_Properties
  imports Session_Histories
begin

text \<open>
  What sign-in promises: every history is one of the abstract machine of \<open>Session_Histories\<close>, a refresh token works
  once, a replayed one ends its session, and a session names an active account. The witnesses share one
  short history: an account, its session, one rotation.
\<close>

section \<open>A short history\<close>

abbreviation w_env :: "instant \<Rightarrow> string \<Rightarrow> auth_env" where
  "w_env now raw \<equiv> \<lparr>ae_clk = now, ae_now = now, ae_raw = raw, ae_familyId = ''f'', ae_userId = ''u'', ae_unseen = {}, ae_gap = (\<lambda>_ s. s)\<rparr>"

abbreviation w_account :: account where
  "w_account \<equiv> \<lparr>u_id = ''u'', u_role = RoleClient, u_status = UserActive, u_firebaseUid = ''fb'', u_phoneE164 = ''+4912345678'',
     u_googleSub = None, u_email = None\<rparr>"

abbreviation w_token :: "string \<Rightarrow> instant \<Rightarrow> instant option \<Rightarrow> refresh_token" where
  "w_token h from_time gone \<equiv> \<lparr>tk_hash = h, tk_familyId = ''f'', tk_userId = ''u'', tk_authMethod = MethodPhone,
     tk_expiresAt = from_time + REFRESH_TTL_MS, tk_revokedAt = gone\<rparr>"

definition w_auth :: "refresh_token list \<Rightarrow> auth_db" where
  "w_auth ts = \<lparr>accounts = [w_account], clients = [''u''], tokens = ts\<rparr>"

abbreviation w_sign :: "jwt_body \<Rightarrow> string \<Rightarrow> string option \<Rightarrow> int \<Rightarrow> instant \<Rightarrow> jwt_body \<times> string \<times> string option \<times> int" where
  "w_sign b iss aud ttl t \<equiv> (b, iss, aud, seconds t + ttl)"

lemma w_auth_sel [simp]: "accounts (w_auth ts) = [w_account]" "clients (w_auth ts) = [''u'']" "tokens (w_auth ts) = ts"
    "w_auth ts\<lparr>tokens := ts'\<rparr> = w_auth ts'"
  by (simp_all add: w_auth_def)

lemma w_ttl: "REFRESH_TTL_MS = 2592000000"
  by (simp add: REFRESH_TTL_MS_def)

lemma w_issue:
  "issueSession j id (w_env 0 ''a'') (session_user_of w_account) MethodPhone ''f'' (w_auth [])
   = Inr (session_response j (w_env 0 ''a'') (session_user_of w_account) MethodPhone, w_auth [w_token ''a'' 0 None])"
  by (simp add: issueSession_def insert_token_def new_token_def session_user_of_def session_response_def)

lemma w_user:
  "create_user ''fb'' ''+4912345678'' ''u'' \<lparr>accounts = [], clients = [], tokens = []\<rparr> = Inr (session_user_of w_account, w_auth [])"
  by (simp add: create_user_def Let_def w_auth_def)

lemma w_auth_new: "reach auth_init (auth_step j id) (w_auth [w_token ''a'' 0 None])"
proof -
  have none: "reach auth_init (auth_step j id) \<lparr>accounts = [], clients = [], tokens = []\<rparr>"
    by (rule reach.intros(1)) (simp add: auth_init_def)
  have user: "reach auth_init (auth_step j id) (w_auth [])" by (rule reach.intros(2) [OF none at_user [OF w_user]])
  have new: "''f'' \<notin> tk_familyId ` set (tokens (w_auth []))" by simp
  note step = at_issue [where j = j and sha = id, OF w_issue new]
  show ?thesis using reach.intros(2) [where init = auth_init and step = "auth_step j id", OF user] step by blast
qed

lemma w_refresh:
  "refresh j id (w_env 1000 ''b'') ''a'' (w_auth [w_token ''a'' 0 None])
   = (Inr (session_response j (w_env 1000 ''b'') (session_user_of w_account) MethodPhone),
      w_auth [w_token ''a'' 0 (Some 1000), w_token ''b'' 1000 None])"
  by (simp add: refresh_def transaction_def refresh_tx_def consume_def consumable_def w_ttl BLOCKED_USER_STATUSES_def
      issueSession_def insert_token_def new_token_def session_user_of_def session_response_def revoke_token_def)

lemma w_auth_rotated: "reach auth_init (auth_step j id) (w_auth [w_token ''a'' 0 (Some 1000), w_token ''b'' 1000 None])"
  using reach.intros(2) [OF w_auth_new at_refresh, of j "w_env 1000 ''b''" "''a''"]
  unfolding w_refresh snd_conv .

section \<open>Sessions\<close>

text \<open>C21: Every history of the account and token tables is, label by label and state by state, a history of the abstract
  session machine: a sign-in opens a session with a new digest; a refresh is answered only for the current digest of a
  session of the account the answer names, which is then spent for good and replaced by the digest of the answer; a
  refused refresh closes no session of another account; a sign-out closes exactly the session its token is current in.
  At every point no digest is in two sessions or both current and spent.\<close>

lemma auth_refines_sessions:
  assumes "auth_init s" "history (auth_does j sha) s h"
  shows "history session_does (\<lambda>_. None) (map (map_prod id session_of) h)
    \<and> (\<forall>(a, t) \<in> set h. sessions_ok (session_of t))"
proof -
  have "session_of s = (\<lambda>_. None)" using assms(1) by (auto simp: auth_init_def session_of_None)
  moreover have "sessions_ok (\<lambda>_. None)" by (simp add: sessions_ok_def)
  ultimately show ?thesis using auth_histories.history_sim [OF assms(2) auth_init_ok [OF assms(1)]] by simp
qed

text \<open>An account is created, a session opened, its token rotated.\<close>

lemma auth_refines_sessions_witness:
  "session_does (Rotates ''u'' ''a'' ''b'') (session_of (w_auth [w_token ''a'' 0 None]))
     (session_of (w_auth [w_token ''a'' 0 (Some 1000), w_token ''b'' 1000 None]))"
proof -
  let ?none = "\<lparr>accounts = [], clients = [], tokens = []\<rparr>"
  let ?h = "[(Keeps, w_auth []), (Opens ''f'' ''u'' MethodPhone ''a'', w_auth [w_token ''a'' 0 None]),
    (Rotates ''u'' ''a'' ''b'', w_auth [w_token ''a'' 0 (Some 1000), w_token ''b'' 1000 None])]"
  have "auth_does plain_jwt id Keeps ?none (w_auth [])" by (rule do_user [OF w_user])
  moreover have "auth_does plain_jwt id (Opens ''f'' ''u'' MethodPhone ''a'') (w_auth []) (w_auth [w_token ''a'' 0 None])"
    using do_issue [where j = plain_jwt and sha = id, OF w_issue] by (simp add: session_response_def session_user_of_def)
  moreover have "auth_does plain_jwt id (Rotates ''u'' ''a'' ''b'') (w_auth [w_token ''a'' 0 None])
      (w_auth [w_token ''a'' 0 (Some 1000), w_token ''b'' 1000 None])"
    using do_rotate [where j = plain_jwt and sha = id, OF w_refresh] by (simp add: session_response_def session_user_of_def)
  ultimately have "history (auth_does plain_jwt id) ?none ?h" by simp
  from auth_refines_sessions [OF _ this] show ?thesis by (simp add: auth_init_def)
qed

text \<open>A refresh decides by the token alone: a live token of an active account is replaced by one successor of the
  same session and the answer names that account; a blocked account is told so and every one of its committed
  sessions ends; any other token is refused. Only a digest collision of the fresh token fails otherwise.\<close>

lemma refresh_decides:
  assumes "reach auth_init (auth_step j sha) s" "sha (ae_raw e) \<notin> tk_hash ` set (tokens s)"
    and "refresh j sha e raw s = (out, s')"
  shows "(\<exists>t a. t \<in> set (tokens s) \<and> consumable (sha raw) (ae_now e) t \<and> a \<in> set (accounts s) \<and> u_id a = tk_userId t
        \<and> (if u_status a = UserActive
           then out = Inr (session_response j e (session_user_of a) (tk_authMethod t))
             \<and> (\<exists>x. session_of s (tk_familyId t) = Some x \<and> ss_current x = Some (sha raw)
                  \<and> session_of s' = (session_of s)(tk_familyId t \<mapsto> (close_session x)\<lparr>ss_current := Some (sha (ae_raw e))\<rparr>))
           else out = Inl (Unauthorized ''account_disabled'')
             \<and> (\<forall>u \<in> set (tokens s'). tk_userId u = u_id a \<and> live u \<longrightarrow> tk_hash u \<in> ae_unseen e)))
    \<or> (\<forall>t \<in> set (tokens s). \<not> consumable (sha raw) (ae_now e) t) \<and> out = Inl invalidRefresh"
proof -
  have ok: "auth_ok s" by (rule auth.reach_inv [OF assms(1)])
  then show ?thesis
  proof (cases rule: refresh_cases [of _ sha raw e j])
    case unusable
    then show ?thesis using assms(3) by simp
  next
    case (blocked t a)
    note a = row_SomeD [OF blocked(3)]
    have "\<forall>u \<in> set (tokens s'). tk_userId u = u_id a \<and> live u \<longrightarrow> tk_hash u \<in> ae_unseen e"
      using assms(3) a unfolding blocked(5) by (auto elim!: set_updE split: if_splits)
    then show ?thesis using blocked a assms(3) by (intro disjI1 exI [of _ t] exI [of _ a]) simp
  next
    case taken
    then show ?thesis using assms(2) by blast
  next
    case (rotates t a)
    then show ?thesis
      using rotated_ok(3) [OF ok rotates(1-3,5)] row_SomeD [OF rotates(3)] assms(3)
      by (intro disjI1 exI [of _ t] exI [of _ a]) simp
  qed
qed

lemma spent_in_session:
  assumes "auth_ok s" "refresh j sha e raw s = (Inr r, s')"
  shows "auth_ok s'" "\<exists>f x. session_of s' f = Some x \<and> sha raw \<in> ss_spent x"
proof -
  show "auth_ok s'" using refresh_ok [OF assms(1), of j sha e raw] assms(2) by simp
  show "\<exists>f x. session_of s' f = Some x \<and> sha raw \<in> ss_spent x"
    using assms(1)
  proof (cases rule: refresh_cases [of _ sha raw e j])
    case (rotates t a)
    then show ?thesis using rotated_ok(3) [OF assms(1) rotates(1-3,5)] assms(2) by (auto simp: close_session_def)
  qed (use assms(2) in auto)
qed

lemma dead_token_refused:
  assumes "auth_ok s" "\<And>t. t \<in> set (tokens s) \<Longrightarrow> tk_hash t = sha raw \<Longrightarrow> \<not> live t"
  shows "fst (refresh j sha e raw s) = Inl invalidRefresh"
  using assms(1) by (cases rule: refresh_cases [of _ sha raw e j]) (use assms(2) in \<open>fastforce simp: consumable_def live_def\<close>)+

lemma spent_token_dead:
  assumes "auth_ok s" "session_of s f = Some x" "h \<in> ss_spent x" "t \<in> set (tokens s)" "tk_hash t = h"
  shows "\<not> live t"
proof -
  obtain u where u: "u \<in> set (tokens s)" "\<not> live u" "tk_hash u = h" using session_of_Some(1) [OF assms(2)] assms(3) by auto
  then show ?thesis using tokens_okD(1) [OF auth_ok_tokens [OF assms(1)] assms(4) u(1)] assms(5) by simp
qed

text \<open>C22: A refresh token is spent once: after a refresh that succeeded, no later refresh of the same token succeeds,
  whatever happens in between.\<close>

lemma token_is_spent_once:
  assumes "reach auth_init (auth_step j sha) s" "refresh j sha e raw s = (Inr r, s1)" "(auth_step j sha)\<^sup>*\<^sup>* s1 s2"
  shows "fst (refresh j sha e' raw s2) = Inl invalidRefresh"
proof -
  obtain f x where x: "session_of s1 f = Some x" "sha raw \<in> ss_spent x" and ok: "auth_ok s1"
    using spent_in_session [OF auth.reach_inv [OF assms(1)] assms(2)] by blast
  have ok2: "auth_ok s2" by (rule auth.run_inv [OF assms(3) ok])
  obtain y where y: "session_of s2 f = Some y" "session_le x y"
    using session_run_le [OF auth.run_sim [OF assms(3) ok] x(1)] by blast
  show ?thesis
    by (rule dead_token_refused [OF ok2], rule spent_token_dead [OF ok2 y(1)]) (use x(2) y(2) in \<open>auto simp: session_le_def\<close>)
qed

lemma token_is_spent_once_witness:
  "\<forall>j. fst (refresh j id (w_env 1500 ''c'') ''a'' (w_auth [w_token ''a'' 0 (Some 1000), w_token ''b'' 1000 None])) = Inl invalidRefresh"
  by (rule allI, rule token_is_spent_once [OF w_auth_new w_refresh rtranclp.rtrancl_refl])

lemma revoked_not_consumable:
  assumes "auth_ok s" "t \<in> set (tokens s)" "tk_hash t = h" "\<not> live t" "u \<in> set (tokens s)"
  shows "\<not> consumable h now u"
  using tokens_okD(1) [OF auth_ok_tokens [OF assms(1)] assms(5,2)] assms(3,4) by (auto simp: consumable_def live_def)

lemma refresh_revoked:
  assumes "auth_ok s" "t \<in> set (tokens s)" "tk_hash t = sha raw" "tk_revokedAt t = Some r"
  shows "refresh j sha e raw s = (Inl invalidRefresh,
    if r \<le> ae_now e - REFRESH_REUSE_GRACE_SECONDS * 1000
    then revoke_where (\<lambda>x. tk_familyId x = tk_familyId t) (ae_unseen e) (ae_now e) s else s)"
proof -
  have dead: "\<not> live t" using assms(4) by (simp add: live_def)
  have only: "u = t" if "u \<in> set (tokens s)" "replayed (sha raw) (ae_now e) u" for u
    using tokens_okD(1) [OF auth_ok_tokens [OF assms(1)] that(1) assms(2)] that(2) assms(3) by (simp add: replayed_def)
  have rep: "replayed (sha raw) (ae_now e) t \<longleftrightarrow> r \<le> ae_now e - REFRESH_REUSE_GRACE_SECONDS * 1000"
    using assms(3,4) by (simp add: replayed_def)
  have "find (replayed (sha raw) (ae_now e)) (tokens s)
      = (if r \<le> ae_now e - REFRESH_REUSE_GRACE_SECONDS * 1000 then Some t else None)"
  proof (cases "find (replayed (sha raw) (ae_now e)) (tokens s)")
    case None
    then show ?thesis using find_None_all [OF None assms(2)] rep by simp
  next
    case (Some u)
    then show ?thesis using only [of u] find_SomeD [OF Some] rep by auto
  qed
  then have fam: "revoke_family (sha raw) (ae_unseen e) (ae_now e) s = (if r \<le> ae_now e - REFRESH_REUSE_GRACE_SECONDS * 1000
      then revoke_where (\<lambda>x. tk_familyId x = tk_familyId t) (ae_unseen e) (ae_now e) s else s)"
    by (simp add: revoke_family_def)
  show ?thesis
    using assms(1)
  proof (cases rule: refresh_cases [of _ sha raw e j])
    case unusable
    then show ?thesis using fam by simp
  next
    case (blocked u a)
    then show ?thesis using revoked_not_consumable [OF assms(1,2,3) dead] by blast
  next
    case (taken u a)
    then show ?thesis using revoked_not_consumable [OF assms(1,2,3) dead] by blast
  next
    case (rotates u a)
    then show ?thesis using revoked_not_consumable [OF assms(1,2,3) dead] by blast
  qed
qed

text \<open>C23: A used token presented again more than ten seconds later ends its session for good: with no rotation of the
  same family in flight, no token of the family is ever live again. Within the ten seconds it is refused and
  nothing changes.\<close>

lemma replay_ends_session:
  assumes "reach auth_init (auth_step j sha) s" "t \<in> set (tokens s)" "tk_hash t = sha raw" "tk_revokedAt t = Some r"
    and "refresh j sha e raw s = (out, s1)" "(auth_step j sha)\<^sup>*\<^sup>* s1 s2"
  shows "out = Inl invalidRefresh
    \<and> (ae_now e < r + 10000 \<longrightarrow> s1 = s)
    \<and> (r + 10000 \<le> ae_now e \<and> ae_unseen e = {} \<longrightarrow>
         (\<forall>u \<in> set (tokens s2). tk_familyId u = tk_familyId t \<longrightarrow> \<not> live u)
         \<and> (\<forall>raw' e'. sha raw' \<in> tk_hash ` {u \<in> set (tokens s2). tk_familyId u = tk_familyId t} \<longrightarrow>
              fst (refresh j sha e' raw' s2) = Inl invalidRefresh))"
proof -
  have ok: "auth_ok s" by (rule auth.reach_inv [OF assms(1)])
  note ref = refresh_revoked [where sha = sha and raw = raw, OF ok assms(2-4), of j e, unfolded REFRESH_REUSE_GRACE_SECONDS_def]
  have "(\<forall>u \<in> set (tokens s2). tk_familyId u = tk_familyId t \<longrightarrow> \<not> live u)
         \<and> (\<forall>raw' e'. sha raw' \<in> tk_hash ` {u \<in> set (tokens s2). tk_familyId u = tk_familyId t} \<longrightarrow>
              fst (refresh j sha e' raw' s2) = Inl invalidRefresh)" if late: "r + 10000 \<le> ae_now e" "ae_unseen e = {}"
  proof -
    have s1: "s1 = revoke_where (\<lambda>x. tk_familyId x = tk_familyId t) {} (ae_now e) s" using ref late assms(5) by simp
    have ok1: "auth_ok s1" unfolding s1 by (rule revoke_where_ok(1) [OF ok])
    have ok2: "auth_ok s2" by (rule auth.run_inv [OF assms(6) ok1])
    have dead1: "\<not> live u" if "u \<in> set (tokens s1)" "tk_familyId u = tk_familyId t" for u
      using that unfolding s1 by (auto elim!: set_updE split: if_splits)
    have "tk_familyId ` set (tokens s1) = tk_familyId ` set (tokens s)" unfolding s1 revoke_where_sel by (rule key_image_upd) simp
    then have "session_of s1 (tk_familyId t) \<noteq> None" using assms(2) unfolding session_of_None by blast
    then obtain x where x: "session_of s1 (tk_familyId t) = Some x" by blast
    have "ss_current x = None"
      using session_of_Some(2) [OF x] dead1 by (cases "ss_current x") auto
    then obtain y where y: "session_of s2 (tk_familyId t) = Some y" "ss_current y = None"
      using session_run_le [OF auth.run_sim [OF assms(6) ok1] x] by (auto simp: session_le_def)
    have dead: "\<not> live u" if "u \<in> set (tokens s2)" "tk_familyId u = tk_familyId t" for u
      by (rule session_of_Some(3) [OF y that])
    have "fst (refresh j sha e' raw' s2) = Inl invalidRefresh"
      if raw': "sha raw' \<in> tk_hash ` {u \<in> set (tokens s2). tk_familyId u = tk_familyId t}" for raw' e'
    proof -
      obtain u where u: "u \<in> set (tokens s2)" "tk_familyId u = tk_familyId t" "tk_hash u = sha raw'" using raw' by auto
      show ?thesis
        by (rule dead_token_refused [OF ok2]) (use tokens_okD(1) [OF auth_ok_tokens [OF ok2] _ u(1)] u dead in auto)
    qed
    with dead show ?thesis by blast
  qed
  then show ?thesis using ref assms(5) by (auto split: if_splits)
qed

lemma replay_ends_session_witness:
  "live (w_token ''b'' 1000 None) \<and>
   filter (\<lambda>u. tk_familyId u = ''f'' \<and> live u)
     (tokens (snd (refresh plain_jwt id (w_env 11000 ''c'') ''a'' (w_auth [w_token ''a'' 0 (Some 1000), w_token ''b'' 1000 None])))) = []"
  using replay_ends_session [OF w_auth_rotated, of "w_token ''a'' 0 (Some 1000)" "''a''" 1000, OF _ _ _ prod.collapse [symmetric] rtranclp.rtrancl_refl,
      of plain_jwt "w_env 11000 ''c''"]
  by (simp add: live_def filter_empty_conv)

text \<open>The replay's update works on its snapshot: a rotation of the same family that commits while it waits
  leaves a live successor behind.\<close>

lemma replay_misses_successor:
  "let s = w_auth [w_token ''a'' 0 (Some 1000), w_token ''b'' 1000 (Some 20000), w_token ''c'' 20000 None];
       e = (w_env 20000 ''d'')\<lparr>ae_unseen := {''c''}\<rparr>
   in fst (refresh j id e ''a'' s) = Inl invalidRefresh \<and> w_token ''c'' 20000 None \<in> set (tokens (snd (refresh j id e ''a'' s)))"
  by (simp add: refresh_def transaction_def refresh_tx_def consume_def consumable_def revoke_family_def replayed_def
      REFRESH_REUSE_GRACE_SECONDS_def revoke_where_def)

section \<open>Who signs in\<close>

lemma open_session_cases:
  assumes "fst (open_session j sha e user meth s) = Inr r"
  shows "su_status user = UserActive \<and> r = session_response j e user meth"
proof -
  have "assertAccountActive (su_status user) = None"
    using assms by (cases "assertAccountActive (su_status user)") (simp_all add: open_session_def)
  moreover from this have "r = session_response j e user meth"
    using assms by (auto simp: open_session_def transaction_def issueSession_def session_response_def split: sum.splits)
  ultimately show ?thesis
    by (cases "su_status user") (simp_all add: assertAccountActive_def BLOCKED_USER_STATUSES_def)
qed

lemma consume_account:
  assumes "consume h now s = (Some (t, a), s1)"
  shows "t \<in> set (tokens s) \<and> consumable h now t \<and> a \<in> set (accounts s) \<and> u_id a = tk_userId t"
proof -
  obtain t' where t': "find (consumable h now) (tokens s) = Some t'" using assms by (cases "find (consumable h now) (tokens s)") (simp_all add: consume_def)
  moreover obtain a' where "row u_id (accounts s) (tk_userId t') = Some a'"
    using assms t' by (cases "row u_id (accounts s) (tk_userId t')") (simp_all add: consume_def)
  moreover from calculation have "t' = t" "a' = a" using assms by (simp_all add: consume_def)
  ultimately show ?thesis using find_SomeD [OF t'] row_SomeD by fastforce
qed

lemma refresh_answer:
  assumes "fst (refresh j sha e raw s) = Inr r"
  shows "\<exists>a meth. a \<in> set (accounts s) \<and> u_status a = UserActive \<and> r = session_response j e (session_user_of a) meth"
proof -
  obtain c s1 where c: "consume (sha raw) (ae_now e) s = (c, s1)" by fastforce
  then obtain t a where ta: "c = Some (t, a)" using assms by (cases c) (auto simp: refresh_def transaction_def refresh_tx_def)
  have act: "u_status a \<notin> set BLOCKED_USER_STATUSES"
    using assms c ta by (auto simp: refresh_def transaction_def refresh_tx_def split: if_splits)
  then have "r = session_response j e (session_user_of a) (tk_authMethod t)"
    using assms c ta by (auto simp: refresh_def transaction_def refresh_tx_def issueSession_def session_response_def split: sum.splits)
  moreover have "u_status a = UserActive" using act by (cases "u_status a") (simp_all add: BLOCKED_USER_STATUSES_def)
  ultimately show ?thesis using consume_account [OF c [unfolded ta]] by blast
qed

lemma exchange_answer:
  assumes "fst (exchangeFirebaseToken firebase j sha e idToken s) = Inr r"
  shows "\<exists>d p user s1. firebase idToken = Some d \<and> decoded_ok (ae_clk e) d \<and> dk_phone d = Some p
    \<and> findOrCreateUser e (dk_uid d) p s = (Inr user, s1) \<and> su_status user = UserActive \<and> r = session_response j e user MethodPhone"
proof -
  obtain d where d: "firebase idToken = Some d" using assms by (cases "firebase idToken") (simp_all add: exchangeFirebaseToken_def)
  have ok: "decoded_ok (ae_clk e) d" using assms d by (auto simp: exchangeFirebaseToken_def split: if_splits)
  then obtain p where p: "dk_phone d = Some p" by (auto simp: decoded_ok_def split: option.splits)
  obtain u s1 where u: "findOrCreateUser e (dk_uid d) p s = (u, s1)" by fastforce
  then obtain user where user: "u = Inr user" using assms d ok p by (cases u) (simp_all add: exchangeFirebaseToken_def)
  have "fst (open_session j sha e user MethodPhone s1) = Inr r" using assms d ok p u user by (simp add: exchangeFirebaseToken_def)
  from open_session_cases [OF this] show ?thesis using d ok p u user by blast
qed

lemma login_answer:
  assumes "fst (loginWithGoogle lib j sha e idToken s) = Inr r"
  shows "\<exists>sub email a. verifyIdToken lib idToken = Inr (sub, email) \<and> a \<in> set (accounts s) \<and> u_googleSub a = Some sub
    \<and> u_status a = UserActive \<and> r = session_response j e (session_user_of a) MethodGoogle"
proof -
  obtain sub email where v: "verifyIdToken lib idToken = Inr (sub, email)"
    using assms by (cases "verifyIdToken lib idToken") (auto simp: loginWithGoogle_def)
  obtain a where a: "by_google s sub = Some a" using assms v by (cases "by_google s sub") (simp_all add: loginWithGoogle_def)
  have "fst (open_session j sha e (session_user_of a) MethodGoogle s) = Inr r" using assms v a by (simp add: loginWithGoogle_def)
  from open_session_cases [OF this] show ?thesis
    using v row_SomeD [OF a [unfolded by_google_def]] by (auto simp: session_user_of_def)
qed

text \<open>C24: The access token of a new session opens the guarded endpoints as the account the answer names for exactly
  fifteen minutes, the lifetime the answer states, and is refused afterwards; it never passes for a quote.\<close>

lemma session_token_names_account:
  assumes "jwt_laws j" "fst (refresh j sha e raw s) = Inr r \<or> fst (exchangeFirebaseToken firebase j sha e idToken s) = Inr r
      \<or> fst (loginWithGoogle lib j sha e idToken s) = Inr r"
    and "tr_user r = (i, role, phone)" "i \<noteq> ''''"
  shows "tr_expiresIn r = 15 * 60
    \<and> (seconds u < seconds (ae_clk e) + 15 * 60 \<longrightarrow>
      (\<exists>c. canActivate j (Bearer (tr_access r)) u = Inr c \<and> ac_sub c = i \<and> ac_role c = role))
    \<and> (seconds (ae_clk e) + 15 * 60 \<le> seconds u \<longrightarrow> canActivate j (Bearer (tr_access r)) u = Inl Invalid_token)
    \<and> (\<exists>err. verify_quote j (tr_access r) u = Inl err)"
proof -
  obtain user meth where r: "r = session_response j e user meth"
    using assms(2) refresh_answer [of j sha e raw s r] exchange_answer [of firebase j sha e idToken s r] login_answer [of lib j sha e idToken s r]
    by blast
  have i: "su_id user = i" "su_role user = role" using assms(3) by (simp_all add: r session_response_def)
  have "ac_sub (session_claims user meth) \<noteq> ''''" using assms(4) i by (simp add: session_claims_def)
  then show ?thesis
    using access_token_accepted [OF assms(1)] access_token_expired [OF assms(1)] access_token_is_no_quote [OF assms(1)] i
    by (simp add: r session_response_def session_claims_def ACCESS_TOKEN_TTL_SECONDS_def)
qed

lemma session_token_names_account_witness:
  "\<exists>c. canActivate plain_jwt (Bearer (tr_access (session_response plain_jwt (w_env 1000 ''b'') (session_user_of w_account) MethodPhone))) 900000 = Inr c
     \<and> ac_sub c = ''u''"
proof -
  let ?r = "session_response plain_jwt (w_env 1000 ''b'') (session_user_of w_account) MethodPhone"
  have f: "fst (refresh plain_jwt id (w_env 1000 ''b'') ''a'' (w_auth [w_token ''a'' 0 None])) = Inr ?r" by (simp only: w_refresh fst_conv)
  have u: "tr_user ?r = (''u'', RoleClient, ''+4912345678'')" "tr_expiresIn ?r = 900"
    by (simp_all add: session_response_def session_user_of_def ACCESS_TOKEN_TTL_SECONDS_def)
  show ?thesis
    using session_token_names_account [OF plain_jwt_laws disjI1 [OF f] u(1), where u = 900000]
    by (auto simp: seconds_def)
qed

text \<open>Nobody signs in to a blocked account: a phone sign-in ends in an active account bound to the verified Firebase
  identity, or in a new client account when there was none, and a Google sign-in in an active account linked to the
  verified Google identity.\<close>

lemma sign_in_is_verified:
  "(fst (exchangeFirebaseToken firebase j sha e idToken s) = Inr r \<longrightarrow>
      (\<exists>d p. firebase idToken = Some d \<and> dk_phone d = Some p \<and> phone_ok p
         \<and> ((\<exists>a \<in> set (accounts s). u_firebaseUid a = dk_uid d \<and> u_status a = UserActive \<and> tr_user r = (u_id a, u_role a, u_phoneE164 a))
            \<or> dk_uid d \<notin> u_firebaseUid ` set (accounts s) \<and> tr_user r = (ae_userId e, RoleClient, p))))
   \<and> (fst (loginWithGoogle lib j sha e idToken s) = Inr r \<longrightarrow>
      (\<exists>p. lib idToken = Some (Some p) \<and> gp_emailVerified p
         \<and> (\<exists>a \<in> set (accounts s). u_googleSub a = Some (gp_sub p) \<and> u_status a = UserActive \<and> tr_user r = (u_id a, u_role a, u_phoneE164 a))))"
proof (intro conjI impI)
  assume "fst (exchangeFirebaseToken firebase j sha e idToken s) = Inr r"
  from exchange_answer [OF this] obtain d p user s1 where d: "firebase idToken = Some d" "decoded_ok (ae_clk e) d" "dk_phone d = Some p"
    and u: "findOrCreateUser e (dk_uid d) p s = (Inr user, s1)" and act: "su_status user = UserActive" and r: "r = session_response j e user MethodPhone"
    by blast
  have "phone_ok p" using d(2,3) by (simp add: decoded_ok_def)
  moreover have "(\<exists>a \<in> set (accounts s). u_firebaseUid a = dk_uid d \<and> u_status a = UserActive \<and> tr_user r = (u_id a, u_role a, u_phoneE164 a))
      \<or> dk_uid d \<notin> u_firebaseUid ` set (accounts s) \<and> tr_user r = (ae_userId e, RoleClient, p)"
  proof (cases "row u_firebaseUid (accounts s) (dk_uid d)")
    case (Some a)
    then have "user = session_user_of a" using u by (simp add: findOrCreateUser_def)
    then show ?thesis using row_SomeD [OF Some] act by (auto simp: r session_response_def session_user_of_def)
  next
    case None
    then have "user = \<lparr>su_id = ae_userId e, su_role = RoleClient, su_phone = p, su_status = UserActive\<rparr>"
      using u by (auto simp: findOrCreateUser_def transaction_def create_user_def session_user_of_def Let_def split: sum.splits if_splits)
    then show ?thesis using None by (simp add: r session_response_def row_None_iff)
  qed
  ultimately show "\<exists>d p. firebase idToken = Some d \<and> dk_phone d = Some p \<and> phone_ok p
         \<and> ((\<exists>a \<in> set (accounts s). u_firebaseUid a = dk_uid d \<and> u_status a = UserActive \<and> tr_user r = (u_id a, u_role a, u_phoneE164 a))
            \<or> dk_uid d \<notin> u_firebaseUid ` set (accounts s) \<and> tr_user r = (ae_userId e, RoleClient, p))"
    using d(1,3) by blast
next
  assume "fst (loginWithGoogle lib j sha e idToken s) = Inr r"
  from login_answer [OF this] obtain sub email a where v: "verifyIdToken lib idToken = Inr (sub, email)"
    and a: "a \<in> set (accounts s)" "u_googleSub a = Some sub" "u_status a = UserActive" "r = session_response j e (session_user_of a) MethodGoogle"
    by blast
  obtain p where "lib idToken = Some (Some p)" "gp_emailVerified p" "gp_sub p = sub"
    using v by (auto simp: verifyIdToken_def split: option.splits if_splits)
  then show "\<exists>p. lib idToken = Some (Some p) \<and> gp_emailVerified p
         \<and> (\<exists>a \<in> set (accounts s). u_googleSub a = Some (gp_sub p) \<and> u_status a = UserActive \<and> tr_user r = (u_id a, u_role a, u_phoneE164 a))"
    using a by (auto simp: session_response_def session_user_of_def)
qed

end
