(* ===== verification/Projections.thy ===== *)
theory Projections
  imports Pools
begin

text \<open>
  The Redis side of a trip: the \<open>pool:<id>\<close> hash (\<open>PoolProjectionService\<close>, pool-projection.service.ts), the
  \<open>current_ride_id\<close> of the driver presence hash (\<open>DriverAssignmentProjection\<close>,
  driver-assignment.projection.ts). Postgres is the authority; both can be rebuilt from it. A Lua script runs as one step; \<open>gap n\<close> is what other
  processes do before the \<open>n\<close>-th step of a longer pass.
\<close>

section \<open>The store\<close>

record driver_hash =
  dh_availability :: "string option"
  dh_lastSeen :: "instant option"
  dh_sessionId :: "uuid option"
  dh_currentRideId :: "uuid option"

record pool_hash =
  ph_version :: int
  ph_state :: pool_state
  ph_seatCount :: int
  ph_maxSeats :: int
  ph_claimedBy :: "uuid option"
  ph_expiresAt :: instant

record redis =
  rd_geo :: "uuid \<Rightarrow> (real \<times> real) option"
  rd_drivers :: "uuid \<Rightarrow> driver_hash option"
  rd_pools :: "uuid \<Rightarrow> pool_hash option"

section \<open>Pool projection\<close>

definition POOL_HASH_TTL_SECONDS :: int where
  "POOL_HASH_TTL_SECONDS = 600"

text \<open>\<open>PROJECT_POOL_EVAL\<close>: a row no newer than the stored one is skipped; a claim is set, never deleted.\<close>

definition project_pool_eval :: "shared_ride \<Rightarrow> instant \<Rightarrow> pool_hash option \<Rightarrow> bool \<times> pool_hash option" where
  "project_pool_eval p now cur =
     (case cur of
        Some h \<Rightarrow> if p_stateVersion p \<le> ph_version h then (False, Some h)
          else (True, Some \<lparr>ph_version = p_stateVersion p, ph_state = p_poolState p, ph_seatCount = p_seatCount p, ph_maxSeats = p_maxSeats p,
                 ph_claimedBy = (case p_claimedByDriverId p of Some d \<Rightarrow> Some d | None \<Rightarrow> ph_claimedBy h),
                 ph_expiresAt = now + POOL_HASH_TTL_SECONDS * 1000\<rparr>)
      | None \<Rightarrow> (True, Some \<lparr>ph_version = p_stateVersion p, ph_state = p_poolState p, ph_seatCount = p_seatCount p, ph_maxSeats = p_maxSeats p,
                 ph_claimedBy = p_claimedByDriverId p, ph_expiresAt = now + POOL_HASH_TTL_SECONDS * 1000\<rparr>))"

text \<open>The hash of a pool, gone once its lifetime is over.\<close>

definition unexpired :: "instant \<Rightarrow> pool_hash option \<Rightarrow> pool_hash option" where
  "unexpired now h = Option.bind h (\<lambda>x. if now < ph_expiresAt x then Some x else None)"

definition write_pool :: "shared_ride \<Rightarrow> instant \<Rightarrow> redis \<Rightarrow> bool \<times> redis" where
  "write_pool p now r =
     (case project_pool_eval p now (unexpired now (rd_pools r (p_rideId p))) of
        (b, h) \<Rightarrow> (b, r\<lparr>rd_pools := (rd_pools r)(p_rideId p := h)\<rparr>))"

definition project :: "uuid \<Rightarrow> instant \<Rightarrow> db \<Rightarrow> redis \<Rightarrow> shared_ride option \<times> redis" where
  "project i now s r =
     (case pool_row s i of None \<Rightarrow> (None, r) | Some p \<Rightarrow> (Some p, snd (write_pool p now r)))"

fun project_all :: "uuid list \<Rightarrow> instant \<Rightarrow> (nat \<Rightarrow> db \<times> redis \<Rightarrow> db \<times> redis) \<Rightarrow> nat \<Rightarrow> db \<times> redis \<Rightarrow> int \<times> db \<times> redis" where
  "project_all [] now gap n w = (0, w)"
| "project_all (i # is) now gap n w =
     (case gap n w of
        (s, r) \<Rightarrow>
          (case project i now s r of
             (p, r') \<Rightarrow>
               (case project_all is now gap (n + 1) (s, r') of
                  (k, w') \<Rightarrow> (k + (if p = None then 0 else 1), w'))))"

definition rebuildAll :: "instant \<Rightarrow> (nat \<Rightarrow> db \<times> redis \<Rightarrow> db \<times> redis) \<Rightarrow> db \<times> redis \<Rightarrow> int \<times> db \<times> redis" where
  "rebuildAll now gap w = project_all (listNonTerminalIds (fst w)) now gap 0 w"

section \<open>Current ride\<close>

text \<open>\<open>SET_IF_PRESENT\<close> and \<open>CLEAR_IF_MATCH\<close>.\<close>

definition projectCurrentRide :: "uuid \<Rightarrow> uuid \<Rightarrow> redis \<Rightarrow> bool \<times> redis" where
  "projectCurrentRide d trip r =
     (case rd_drivers r d of
        None \<Rightarrow> (False, r)
      | Some h \<Rightarrow> (True, r\<lparr>rd_drivers := (rd_drivers r)(d \<mapsto> h\<lparr>dh_currentRideId := Some trip\<rparr>)\<rparr>))"

definition clearCurrentRide :: "uuid \<Rightarrow> uuid \<Rightarrow> redis \<Rightarrow> bool \<times> redis" where
  "clearCurrentRide d trip r =
     (case rd_drivers r d of
        None \<Rightarrow> (False, r)
      | Some h \<Rightarrow> if dh_currentRideId h = Some trip then (True, r\<lparr>rd_drivers := (rd_drivers r)(d \<mapsto> h\<lparr>dh_currentRideId := None\<rparr>)\<rparr>)
                  else (False, r))"

definition current_ride :: "redis \<Rightarrow> uuid \<Rightarrow> uuid option" where
  "current_ride r d = Option.bind (rd_drivers r d) dh_currentRideId"

text \<open>A guard row as the reconciler reads it.\<close>

definition expected_rides :: "db \<Rightarrow> (uuid \<times> uuid) list" where
  "expected_rides s = map (\<lambda>a. (a_driverId a, tripId (a_trip a))) (listAll s)"

definition stillAssigned :: "uuid \<Rightarrow> uuid \<Rightarrow> db \<Rightarrow> bool" where
  "stillAssigned d trip s \<longleftrightarrow> isUuid d \<and> (case findByDriver s d of None \<Rightarrow> False | Some a \<Rightarrow> tripId (a_trip a) = trip)"

type_synonym world = "db \<times> redis"

fun project_guards :: "(uuid \<times> uuid) list \<Rightarrow> (nat \<Rightarrow> world \<Rightarrow> world) \<Rightarrow> nat \<Rightarrow> world \<Rightarrow> int \<times> world" where
  "project_guards [] gap n w = (0, w)"
| "project_guards ((d, trip) # gs) gap n w =
     (let w1 = gap n w in
      if current_ride (snd w1) d = Some trip then project_guards gs gap (n + 3) w1
      else let w2 = gap (n + 1) w1 in
        if \<not> stillAssigned d trip (fst w2) then project_guards gs gap (n + 3) w2
        else let w3 = gap (n + 2) w2 in
          (case projectCurrentRide d trip (snd w3) of
             (b, r) \<Rightarrow>
               (case project_guards gs gap (n + 3) (fst w3, r) of (k, w') \<Rightarrow> (k + (if b then 1 else 0), w'))))"

fun clear_stale :: "(uuid \<Rightarrow> uuid option) \<Rightarrow> uuid list \<Rightarrow> (nat \<Rightarrow> world \<Rightarrow> world) \<Rightarrow> nat \<Rightarrow> world \<Rightarrow> int \<times> world" where
  "clear_stale want [] gap n w = (0, w)"
| "clear_stale want (d # ds) gap n w =
     (let w1 = gap n w in
      case current_ride (snd w1) d of
        None \<Rightarrow> clear_stale want ds gap (n + 3) w1
      | Some cur \<Rightarrow>
          if want d = Some cur then clear_stale want ds gap (n + 3) w1
          else let w2 = gap (n + 1) w1 in
            if stillAssigned d cur (fst w2) then clear_stale want ds gap (n + 3) w2
            else let w3 = gap (n + 2) w2 in
              (case clearCurrentRide d cur (snd w3) of
                 (b, r) \<Rightarrow>
                   (case clear_stale want ds gap (n + 3) (fst w3, r) of (k, w') \<Rightarrow> (k + (if b then 1 else 0), w'))))"

record projection_report =
  pj_projected :: int
  pj_cleared :: int
  pj_expiredOffers :: int

text \<open>
  \<open>keys\<close> is what the scan returns: every key present throughout, possibly twice. A later guard row of a
  driver would replace an earlier one in the map.
\<close>

definition reconcile_projection :: "uuid list \<Rightarrow> uuid set \<Rightarrow> instant \<Rightarrow> (nat \<Rightarrow> world \<Rightarrow> world) \<Rightarrow> world \<Rightarrow> projection_report \<times> world" where
  "reconcile_projection keys locked ct gap w =
     (case expireLapsed locked ct (fst w) of
        (expired, s1) \<Rightarrow>
          let w1 = gap 0 (s1, snd w);
              guards = expected_rides (fst w1);
              want = map_of (rev guards)
          in (case project_guards guards gap 1 w1 of
                (projected, w2) \<Rightarrow>
                  (case clear_stale want keys gap (1 + 3 * length guards) w2 of
                     (cleared, w3) \<Rightarrow>
                       (\<lparr>pj_projected = projected, pj_cleared = cleared, pj_expiredOffers = int expired\<rparr>, w3))))"

end
