(* ===== verification/Realtime.thy ===== *)
theory Realtime
  imports Projections Tokens Dispatch Stop_Confirmation
begin

text \<open>
  The realtime side: what a socket may see (\<open>RealtimeSnapshotService\<close>, realtime-snapshot.service.ts; views in
  realtime.protocol.ts) and the socket handlers (\<open>RealtimeGateway\<close>, realtime.gateway.ts). A snapshot is read in
  one REPEATABLE READ transaction, so it is a function of one database state. \<open>gap n\<close> is what other sessions
  commit before the \<open>n\<close>-th statement of a handler; a payload field of another type is \<open>None\<close>.
\<close>

section \<open>Views\<close>

record vehicle_view =
  vv_type :: vehicle_type
  vv_regNo :: string
  vv_make :: "string option"
  vv_model :: "string option"
  vv_color :: "string option"

text \<open>One stop as one member sees it: coordinates of the caller's own stops only.\<close>

record member_stop =
  mi_sequenceIndex :: int
  mi_type :: stop_type
  mi_mine :: bool
  mi_confirmed :: bool
  mi_place :: "(real \<times> real) option"

record pool_snapshot = pool_update +
  ps_vehicle :: "vehicle_view option"
  ps_completedAt :: "instant option"
  ps_active :: bool
  ps_quotedFareCents :: "int option"
  ps_pickup :: "real \<times> real"
  ps_dropoff :: "real \<times> real"
  ps_itinerary :: "member_stop list"

record ride_snapshot =
  rv_rideId :: uuid
  rv_version :: nat
  rv_status :: ride_status
  rv_terminal :: bool
  rv_driverId :: "uuid option"
  rv_vehicle :: "vehicle_view option"
  rv_pickup :: "real \<times> real"
  rv_dropoff :: "real \<times> real"
  rv_fareCents :: int

record driver_stop =
  ds_sequenceIndex :: int
  ds_type :: stop_type
  ds_passengerId :: uuid
  ds_place :: "real \<times> real"
  ds_confirmed :: bool
  ds_confirmedAt :: "instant option"

text \<open>The driver's assignment: offer, generation, time of assignment, and the trip.\<close>

record assignment_common =
  av_offerId :: "uuid option"
  av_generation :: int
  av_assignedAt :: instant

record solo_view =
  sv_rideId :: uuid
  sv_version :: nat
  sv_status :: ride_status
  sv_pickup :: "real \<times> real"
  sv_dropoff :: "real \<times> real"
  sv_fareCents :: int

datatype assignment_view =
    SoloView assignment_common solo_view
  | SharedView assignment_common uuid int pool_state int "driver_stop list" \<comment> \<open>pool, version, status, seats, stops\<close>

primrec view_trip :: "assignment_view \<Rightarrow> trip_ref" where
  "view_trip (SoloView c r) = Solo (sv_rideId r)"
| "view_trip (SharedView c i v st k stops) = Shared i"

section \<open>Snapshots\<close>

definition vehicleFor :: "db \<Rightarrow> uuid \<Rightarrow> vehicle_view option" where
  "vehicleFor s d =
     (case sort_key (\<lambda>v. - v_createdAt v) (filter (\<lambda>v. v_driverId v = d \<and> v_active v) (vehicles s)) of
        [] \<Rightarrow> None
      | v # _ \<Rightarrow> Some \<lparr>vv_type = v_type v, vv_regNo = v_regNo v, vv_make = v_make v, vv_model = v_model v, vv_color = v_color v\<rparr>)"

definition isPoolMember :: "db \<Rightarrow> uuid \<Rightarrow> uuid \<Rightarrow> bool" where
  "isPoolMember s i pid \<longleftrightarrow> isUuid i \<and> isUuid pid \<and> list_ex (\<lambda>m. m_poolId m = i \<and> m_passengerId m = pid) (pool_members s)"

definition isRideParty :: "db \<Rightarrow> uuid \<Rightarrow> uuid \<Rightarrow> bool" where
  "isRideParty s i u \<longleftrightarrow> isUuid i \<and> isUuid u
     \<and> list_ex (\<lambda>r. r_id r = i \<and> (r_passengerId r = u \<or> r_driverId r = Some u)) (rides s)"

definition member_stop_of :: "uuid \<Rightarrow> ride_stop \<Rightarrow> member_stop" where
  "member_stop_of pid x = (let mine = (s_passengerId x = pid) in
     \<lparr>mi_sequenceIndex = s_sequenceIndex x, mi_type = s_type x, mi_mine = mine, mi_confirmed = (s_confirmedAt x \<noteq> None),
      mi_place = (if mine then Some (s_lat x, s_lng x) else None)\<rparr>)"

text \<open>The legacy column \<open>quoted_fare_cents\<close> is never written, so the agreed fare is the fare.\<close>

definition poolSnapshot :: "db \<Rightarrow> uuid \<Rightarrow> uuid \<Rightarrow> pool_snapshot option" where
  "poolSnapshot s i pid =
     (if \<not> isUuid i \<or> \<not> isUuid pid then None
      else case (pool_row s i, find (\<lambda>m. m_poolId m = i \<and> m_passengerId m = pid) (pool_members s)) of
          (Some p, Some m) \<Rightarrow>
            Some (pool_update.extend (poolUpdatePayload p)
              \<lparr>ps_vehicle = Option.bind (p_claimedByDriverId p) (vehicleFor s), ps_completedAt = p_completedAt p,
               ps_active = m_active m, ps_quotedFareCents = m_agreedFareCents m,
               ps_pickup = (m_originLat m, m_originLng m), ps_dropoff = (m_destLat m, m_destLng m),
               ps_itinerary = map (member_stop_of pid) (findByRideId s i)\<rparr>)
        | _ \<Rightarrow> None)"

definition ride_view :: "db \<Rightarrow> ride \<Rightarrow> ride_snapshot" where
  "ride_view s r = \<lparr>rv_rideId = r_id r, rv_version = rideStatusVersion (r_status r), rv_status = r_status r,
     rv_terminal = terminal_ride (r_status r), rv_driverId = r_driverId r, rv_vehicle = Option.bind (r_driverId r) (vehicleFor s),
     rv_pickup = (r_originLat r, r_originLng r), rv_dropoff = (r_destLat r, r_destLng r), rv_fareCents = r_fareCents r\<rparr>"

definition rideSnapshot :: "db \<Rightarrow> uuid \<Rightarrow> uuid \<Rightarrow> ride_snapshot option" where
  "rideSnapshot s i u =
     (if \<not> isUuid i \<or> \<not> isUuid u then None
      else case ride_row s i of
          None \<Rightarrow> None
        | Some r \<Rightarrow> if r_passengerId r = u \<or> r_driverId r = Some u then Some (ride_view s r) else None)"

definition driver_stop_of :: "ride_stop \<Rightarrow> driver_stop" where
  "driver_stop_of x = \<lparr>ds_sequenceIndex = s_sequenceIndex x, ds_type = s_type x, ds_passengerId = s_passengerId x,
     ds_place = (s_lat x, s_lng x), ds_confirmed = (s_confirmedAt x \<noteq> None), ds_confirmedAt = s_confirmedAt x\<rparr>"

definition solo_view_of :: "ride \<Rightarrow> solo_view" where
  "solo_view_of r = \<lparr>sv_rideId = r_id r, sv_version = rideStatusVersion (r_status r), sv_status = r_status r,
     sv_pickup = (r_originLat r, r_originLng r), sv_dropoff = (r_destLat r, r_destLng r), sv_fareCents = r_fareCents r\<rparr>"

definition driverAssignment :: "db \<Rightarrow> uuid \<Rightarrow> assignment_view option" where
  "driverAssignment s d =
     (if \<not> isUuid d then None
      else case findByDriver s d of
          None \<Rightarrow> None
        | Some a \<Rightarrow>
            let c = \<lparr>av_offerId = a_offerId a, av_generation = a_generation a, av_assignedAt = a_assignedAt a\<rparr> in
            (case a_trip a of
               Solo i \<Rightarrow> map_option (\<lambda>r. SoloView c (solo_view_of r)) (ride_row s i)
             | Shared i \<Rightarrow>
                 map_option (\<lambda>p. SharedView c i (p_stateVersion p) (p_poolState p) (p_seatCount p)
                   (map driver_stop_of (findByRideId s i))) (pool_row s i)))"

definition poolUpdate :: "db \<Rightarrow> uuid \<Rightarrow> pool_update option" where
  "poolUpdate s i = (if \<not> isUuid i then None else map_option poolUpdatePayload (pool_row s i))"

section \<open>Sockets\<close>

datatype room = UserRoom uuid | DriverRoom uuid | RideRoom uuid | PoolRoom uuid

record socket =
  so_user :: "(uuid \<times> user_role) option"
  so_rooms :: "room set"

datatype gateway_event =
    ReplayDriverState uuid
  | EmitAssignment uuid
  | EmitPoolSnapshot pool_snapshot
  | EmitRideSnapshot ride_snapshot
  | BroadcastPool uuid pool_update
  | BroadcastDriverLocation uuid real real real
  | DriverFirstLocation uuid uuid \<comment> \<open>ride, driver\<close>
  | StopConfirmRequest uuid uuid int stop_type \<comment> \<open>driver, pool, stop\<close>
  | GeoAdd uuid real real
  | TouchLastSeen uuid instant

datatype sub_reason = Invalid_payload | Sub_forbidden | Sub_not_found | Sub_unavailable

definition publishPoolUpdate :: "db \<Rightarrow> uuid \<Rightarrow> gateway_event list" where
  "publishPoolUpdate s i = (case poolUpdate s i of None \<Rightarrow> [] | Some u \<Rightarrow> [BroadcastPool i u])"

text \<open>\<open>None\<close>: the socket is disconnected.\<close>

definition handleConnection :: "'t jwt \<Rightarrow> 't option \<Rightarrow> instant \<Rightarrow> (socket \<times> gateway_event list) option" where
  "handleConnection j token clk =
     (case token of
        None \<Rightarrow> None
      | Some tok \<Rightarrow>
          (case verifyAccessToken j tok clk of
             Inl _ \<Rightarrow> None
           | Inr c \<Rightarrow>
               if ac_role c = RoleDriver
               then Some (\<lparr>so_user = Some (ac_sub c, ac_role c), so_rooms = {UserRoom (ac_sub c), DriverRoom (ac_sub c)}\<rparr>,
                      [ReplayDriverState (ac_sub c), EmitAssignment (ac_sub c)])
               else Some (\<lparr>so_user = Some (ac_sub c, ac_role c), so_rooms = {UserRoom (ac_sub c)}\<rparr>, [])))"

definition socket_driver :: "socket \<Rightarrow> uuid option" where
  "socket_driver k = (case so_user k of Some (u, RoleDriver) \<Rightarrow> Some u | _ \<Rightarrow> None)"

section \<open>Subscriptions\<close>

text \<open>Check, join, then read: \<open>fails n\<close> is an infrastructure failure of the \<open>n\<close>-th statement.\<close>

definition handlePoolSubscribe ::
  "(nat \<Rightarrow> bool) \<Rightarrow> (nat \<Rightarrow> db \<Rightarrow> db) \<Rightarrow> uuid option \<Rightarrow> socket \<Rightarrow> db
   \<Rightarrow> (sub_reason + pool_snapshot) \<times> gateway_event list \<times> socket \<times> db" where
  "handlePoolSubscribe fails gap poolId k s =
     (case so_user k of
        None \<Rightarrow> (Inl Sub_forbidden, [], k, s)
      | Some (u, _) \<Rightarrow>
          (case poolId of
             None \<Rightarrow> (Inl Invalid_payload, [], k, s)
           | Some i \<Rightarrow>
               if \<not> isUuid i then (Inl Invalid_payload, [], k, s)
               else if fails 0 then (Inl Sub_unavailable, [], k, s)
               else if \<not> isPoolMember s i u then (Inl Sub_not_found, [], k, s)
               else if fails 1 then (Inl Sub_unavailable, [], k, s)
               else
                 let k1 = k\<lparr>so_rooms := so_rooms k \<union> {PoolRoom i, RideRoom i}\<rparr>; s1 = gap 0 s in
                 if fails 2 then (Inl Sub_unavailable, [], k1, s1)
                 else (case poolSnapshot s1 i u of
                         None \<Rightarrow> (Inl Sub_not_found, [], k\<lparr>so_rooms := so_rooms k1 - {PoolRoom i, RideRoom i}\<rparr>, s1)
                       | Some snap \<Rightarrow> (Inr snap, [EmitPoolSnapshot snap], k1, s1))))"

definition handleRideSubscribe ::
  "(nat \<Rightarrow> bool) \<Rightarrow> (nat \<Rightarrow> db \<Rightarrow> db) \<Rightarrow> uuid option \<Rightarrow> socket \<Rightarrow> db
   \<Rightarrow> (sub_reason + ride_snapshot) \<times> gateway_event list \<times> socket \<times> db" where
  "handleRideSubscribe fails gap rideId k s =
     (case so_user k of
        None \<Rightarrow> (Inl Sub_forbidden, [], k, s)
      | Some (u, _) \<Rightarrow>
          (case rideId of
             None \<Rightarrow> (Inl Invalid_payload, [], k, s)
           | Some i \<Rightarrow>
               if \<not> isUuid i then (Inl Invalid_payload, [], k, s)
               else if fails 0 then (Inl Sub_unavailable, [], k, s)
               else if \<not> isRideParty s i u then (Inl Sub_not_found, [], k, s)
               else if fails 1 then (Inl Sub_unavailable, [], k, s)
               else
                 let k1 = k\<lparr>so_rooms := so_rooms k \<union> {RideRoom i}\<rparr>; s1 = gap 0 s in
                 if fails 2 then (Inl Sub_unavailable, [], k1, s1)
                 else (case rideSnapshot s1 i u of
                         None \<Rightarrow> (Inl Sub_not_found, [], k\<lparr>so_rooms := so_rooms k1 - {RideRoom i}\<rparr>, s1)
                       | Some snap \<Rightarrow> (Inr snap, [EmitRideSnapshot snap], k1, s1))))"

definition handleDriverSync :: "bool \<Rightarrow> socket \<Rightarrow> db \<Rightarrow> sub_reason + uuid \<times> assignment_view option" where
  "handleDriverSync fails k s =
     (case socket_driver k of
        None \<Rightarrow> Inl Sub_forbidden
      | Some d \<Rightarrow> if fails then Inl Sub_unavailable else Inr (d, driverAssignment s d))"

section \<open>Location packets\<close>

record gateway =
  gw_geo :: "uuid \<Rightarrow> instant option"
  gw_fan :: "uuid \<Rightarrow> instant option"
  gw_enRoute :: "uuid set"

definition GEO_THROTTLE_MS :: int where
  "GEO_THROTTLE_MS = 3000"

definition FAN_THROTTLE_MS :: int where
  "FAN_THROTTLE_MS = 1000"

definition last_at :: "(uuid \<Rightarrow> instant option) \<Rightarrow> uuid \<Rightarrow> instant" where
  "last_at m i = (case m i of None \<Rightarrow> 0 | Some t \<Rightarrow> t)"

text \<open>Mirror the position into the room of the driver's ride, at most once a second.\<close>

definition fan_out :: "uuid \<Rightarrow> uuid \<Rightarrow> real \<Rightarrow> real \<Rightarrow> real \<Rightarrow> instant \<Rightarrow> gateway \<Rightarrow> gateway_event list \<times> gateway" where
  "fan_out i d lat lng heading now g =
     (let first = (i \<notin> gw_enRoute g);
          g1 = g\<lparr>gw_enRoute := insert i (gw_enRoute g)\<rparr>;
          e1 = (if first then [DriverFirstLocation i d] else [])
      in if FAN_THROTTLE_MS \<le> now - last_at (gw_fan g) i
         then (e1 @ [BroadcastDriverLocation i lat lng heading], g1\<lparr>gw_fan := (gw_fan g1)(i \<mapsto> now)\<rparr>)
         else (e1, g1))"

definition handleDriverLocation ::
  "real \<Rightarrow> real \<Rightarrow> real \<Rightarrow> socket \<Rightarrow> instant \<Rightarrow> redis \<Rightarrow> gateway \<Rightarrow> gateway_event list \<times> gateway" where
  "handleDriverLocation lat lng heading k now r g =
     (case socket_driver k of
        None \<Rightarrow> ([], g)
      | Some d \<Rightarrow>
          (case (case current_ride r d of None \<Rightarrow> ([], g) | Some i \<Rightarrow> fan_out i d lat lng heading now g) of
             (ev, g1) \<Rightarrow>
               if now - last_at (gw_geo g1) d < GEO_THROTTLE_MS then (ev, g1)
               else (ev @ [GeoAdd d lng lat, TouchLastSeen d now], g1\<lparr>gw_geo := (gw_geo g1)(d \<mapsto> now)\<rparr>)))"

section \<open>Offers and stops\<close>

datatype offer_ack = Accepted_ack accept_result | Declined_ack decline_result | Ack_refused sub_reason

text \<open>The shape check, and dispatch's answer (\<open>onRideOfferResponse\<close>, dispatch.service.ts) as the acknowledgement.\<close>

definition handleRideOfferResponse ::
  "uuid option \<Rightarrow> bool option \<Rightarrow> socket \<Rightarrow> (nat \<Rightarrow> db_error option) \<Rightarrow> (nat \<Rightarrow> instant) \<Rightarrow> (nat \<Rightarrow> instant) \<Rightarrow> db
   \<Rightarrow> (db_error + offer_ack \<times> effect list) \<times> db" where
  "handleRideOfferResponse offerId accept k abort now ct s =
     (case socket_driver k of
        None \<Rightarrow> (Inr (Ack_refused Sub_forbidden, []), s)
      | Some d \<Rightarrow>
          (case (offerId, accept) of
             (Some oid, Some acc) \<Rightarrow>
               if \<not> isUuid oid then (Inr (Ack_refused Invalid_payload, []), s)
               else if acc then
                 (case acceptOffer oid d abort now ct s of
                    (Inl e, s') \<Rightarrow> (Inl e, s')
                  | (Inr (res, eff), s') \<Rightarrow> (Inr (Accepted_ack res, eff), s'))
               else (case decline oid d (ct 0) s of (res, s') \<Rightarrow> (Inr (Declined_ack res, []), s'))
           | _ \<Rightarrow> (Inr (Ack_refused Invalid_payload, []), s)))"

definition emitStopConfirm :: "uuid option \<Rightarrow> int option \<Rightarrow> stop_type \<Rightarrow> socket \<Rightarrow> gateway_event list" where
  "emitStopConfirm rideId idx ty k =
     (case (socket_driver k, rideId, idx) of
        (Some d, Some i, Some n) \<Rightarrow> [StopConfirmRequest d i n ty]
      | _ \<Rightarrow> [])"

definition onStopConfirmRequest :: "uuid \<Rightarrow> uuid \<Rightarrow> int \<Rightarrow> stop_type \<Rightarrow> instant \<Rightarrow> instant \<Rightarrow> db \<Rightarrow> stop_effect list \<times> db" where
  "onStopConfirmRequest d i n ty now clk s =
     (case confirmStop i d n ty now clk s of
        (Inl _, s') \<Rightarrow> ([], s')
      | (Inr (_, eff), s') \<Rightarrow> (eff, s'))"

definition extractToken :: "'t option \<Rightarrow> 't auth_header \<Rightarrow> 't option" where
  "extractToken auth header =
     (case auth of Some t \<Rightarrow> Some t | None \<Rightarrow> (case header of Bearer t \<Rightarrow> Some t | _ \<Rightarrow> None))"

definition replayDriverState :: "redis \<Rightarrow> uuid \<Rightarrow> (string \<times> uuid option) option" where
  "replayDriverState r d =
     map_option (\<lambda>a. (a, current_ride r d)) (Option.bind (rd_drivers r d) dh_availability)"

end
