(* ===== verification/Web_Client.thy ===== *)
theory Web_Client
  imports Realtime
begin

text \<open>
  The booking client of the web app: the version gate and the socket wrapper (ws.ts), and the booking store
  (store.ts). A version that is absent or not finite is \<open>None\<close>; the handlers a component registers write into
  the store (book-client.tsx wires \<open>onPoolUpdate\<close> to \<open>applyPoolUpdate\<close> and \<open>onRideStateChanged\<close> to
  \<open>applyRideState\<close>).
\<close>

section \<open>The version gate\<close>

text \<open>\<open>None\<close> for the applied version is minus infinity.\<close>

record version_gate =
  vg_followed :: "uuid option"
  vg_applied :: "int option"

definition createVersionGate :: version_gate where
  "createVersionGate = \<lparr>vg_followed = None, vg_applied = None\<rparr>"

definition gate_follow :: "uuid \<Rightarrow> version_gate \<Rightarrow> version_gate" where
  "gate_follow i g = (if vg_followed g = Some i then g else \<lparr>vg_followed = Some i, vg_applied = None\<rparr>)"

definition gate_snapshot :: "uuid \<Rightarrow> int option \<Rightarrow> version_gate \<Rightarrow> bool \<times> version_gate" where
  "gate_snapshot i v g =
     (case v of
        None \<Rightarrow> (False, g)
      | Some n \<Rightarrow>
          if vg_followed g \<noteq> Some i \<or> (case vg_applied g of None \<Rightarrow> False | Some a \<Rightarrow> n < a) then (False, g)
          else (True, g\<lparr>vg_applied := Some n\<rparr>))"

definition gate_event :: "uuid \<Rightarrow> int option \<Rightarrow> version_gate \<Rightarrow> bool \<times> version_gate" where
  "gate_event i v g =
     (if vg_followed g \<noteq> Some i then (False, g)
      else case v of
          None \<Rightarrow> (True, g)
        | Some n \<Rightarrow>
            if (case vg_applied g of None \<Rightarrow> False | Some a \<Rightarrow> n \<le> a) then (False, g)
            else (True, g\<lparr>vg_applied := Some n\<rparr>))"

section \<open>The booking store\<close>

datatype web_ride_type = WebShared | WebPrivate

datatype booking_stage = Idle | Quoting | Quoted | Requesting | StageOpened | StageSlotted | SoloFallback | Tracking | StageError

record place =
  pl_lat :: real
  pl_lng :: real
  pl_label :: string

datatype point_field = FieldPickup | FieldDropoff

text \<open>\<open>'q\<close> is what the quote endpoint answered.\<close>

record 'q booking =
  bs_rideType :: web_ride_type
  bs_pickup :: "place option"
  bs_dropoff :: "place option"
  bs_activeField :: point_field
  bs_stage :: booking_stage
  bs_quote :: "'q option"
  bs_quoteError :: "string option"
  bs_quoteEpoch :: nat
  bs_sharedRideId :: "uuid option"
  bs_seatCount :: int
  bs_poolStatus :: "pool_state option"
  bs_agreedFare :: "int option"
  bs_requestError :: "string option"
  bs_rideId :: "uuid option"
  bs_rideStatus :: "ride_status option"
  bs_driver :: "(real \<times> real \<times> real) option"
  bs_rated :: bool

definition initial_booking :: "'q booking" where
  "initial_booking = \<lparr>bs_rideType = WebShared, bs_pickup = None, bs_dropoff = None, bs_activeField = FieldPickup, bs_stage = Idle,
     bs_quote = None, bs_quoteError = None, bs_quoteEpoch = 0, bs_sharedRideId = None, bs_seatCount = 0, bs_poolStatus = None,
     bs_agreedFare = None, bs_requestError = None, bs_rideId = None, bs_rideStatus = None, bs_driver = None, bs_rated = False\<rparr>"

text \<open>\<open>dispatching\<close> is the one status the client does not know.\<close>

definition normalizeStatus :: "ride_status \<Rightarrow> ride_status" where
  "normalizeStatus st = (if st \<in> {Requested, Accepted, En_route, Arrived, In_progress, Completed, No_driver, Cancelled, No_show} then st else Requested)"

definition clearQuote :: "'q booking \<Rightarrow> 'q booking" where
  "clearQuote b = b\<lparr>bs_quote := None, bs_quoteError := None, bs_stage := Idle, bs_quoteEpoch := bs_quoteEpoch b + 1\<rparr>"

definition setRideType :: "web_ride_type \<Rightarrow> 'q booking \<Rightarrow> 'q booking" where
  "setRideType next_type b = (if next_type = bs_rideType b then b else clearQuote (b\<lparr>bs_rideType := next_type\<rparr>))"

definition setActiveField :: "point_field \<Rightarrow> 'q booking \<Rightarrow> 'q booking" where
  "setActiveField f b = b\<lparr>bs_activeField := f\<rparr>"

definition point_at :: "point_field \<Rightarrow> 'q booking \<Rightarrow> place option" where
  "point_at f b = (case f of FieldPickup \<Rightarrow> bs_pickup b | FieldDropoff \<Rightarrow> bs_dropoff b)"

definition put_point :: "point_field \<Rightarrow> place \<Rightarrow> 'q booking \<Rightarrow> 'q booking" where
  "put_point f p b = (case f of FieldPickup \<Rightarrow> b\<lparr>bs_pickup := Some p\<rparr> | FieldDropoff \<Rightarrow> b\<lparr>bs_dropoff := Some p\<rparr>)"

definition other_field :: "point_field \<Rightarrow> point_field" where
  "other_field f = (case f of FieldPickup \<Rightarrow> FieldDropoff | FieldDropoff \<Rightarrow> FieldPickup)"

text \<open>The same coordinates with a new label keep the quote; focus moves to an endpoint still empty.\<close>

definition setPoint :: "point_field \<Rightarrow> place \<Rightarrow> 'q booking \<Rightarrow> 'q booking" where
  "setPoint f p b =
     (if (case point_at f b of None \<Rightarrow> False | Some x \<Rightarrow> pl_lat x = pl_lat p \<and> pl_lng x = pl_lng p) then put_point f p b
      else clearQuote ((put_point f p b)\<lparr>bs_activeField := (if point_at (other_field f) b = None then other_field f else f)\<rparr>))"

definition applyPreset :: "place \<Rightarrow> place \<Rightarrow> 'q booking \<Rightarrow> 'q booking" where
  "applyPreset p d b = clearQuote (b\<lparr>bs_pickup := Some p, bs_dropoff := Some d, bs_activeField := FieldPickup\<rparr>)"

definition swapPoints :: "'q booking \<Rightarrow> 'q booking" where
  "swapPoints b = clearQuote (b\<lparr>bs_pickup := bs_dropoff b, bs_dropoff := bs_pickup b\<rparr>)"

definition invalidateQuote :: "'q booking \<Rightarrow> 'q booking" where
  "invalidateQuote b = clearQuote b"

definition startQuoting :: "'q booking \<Rightarrow> 'q booking" where
  "startQuoting b = b\<lparr>bs_stage := Quoting, bs_quoteError := None\<rparr>"

definition setQuote :: "'q \<Rightarrow> 'q booking \<Rightarrow> 'q booking" where
  "setQuote q b = b\<lparr>bs_quote := Some q, bs_stage := Quoted, bs_quoteError := None\<rparr>"

definition setQuoteError :: "string \<Rightarrow> 'q booking \<Rightarrow> 'q booking" where
  "setQuoteError m b = b\<lparr>bs_stage := StageError, bs_quoteError := Some m\<rparr>"

definition startRequest :: "'q booking \<Rightarrow> 'q booking" where
  "startRequest b = b\<lparr>bs_stage := Requesting, bs_requestError := None\<rparr>"

definition setOpened :: "uuid \<Rightarrow> int \<Rightarrow> pool_state \<Rightarrow> int option \<Rightarrow> 'q booking \<Rightarrow> 'q booking" where
  "setOpened i n st fare b = b\<lparr>bs_stage := StageOpened, bs_sharedRideId := Some i, bs_seatCount := n, bs_poolStatus := Some st, bs_agreedFare := fare\<rparr>"

definition setSlotted :: "uuid \<Rightarrow> int \<Rightarrow> pool_state \<Rightarrow> int option \<Rightarrow> 'q booking \<Rightarrow> 'q booking" where
  "setSlotted i n st fare b = b\<lparr>bs_stage := StageSlotted, bs_sharedRideId := Some i, bs_seatCount := n, bs_poolStatus := Some st, bs_agreedFare := fare\<rparr>"

definition applyPoolUpdate :: "uuid \<Rightarrow> int \<Rightarrow> pool_state \<Rightarrow> 'q booking \<Rightarrow> 'q booking" where
  "applyPoolUpdate i n st b =
     (if bs_sharedRideId b \<noteq> Some i then b
      else if st = ClosedTimeout \<and> n = 1 then b\<lparr>bs_seatCount := n, bs_poolStatus := Some st, bs_stage := SoloFallback\<rparr>
      else b\<lparr>bs_seatCount := n, bs_poolStatus := Some st\<rparr>)"

definition setRequestError :: "string \<Rightarrow> 'q booking \<Rightarrow> 'q booking" where
  "setRequestError m b = b\<lparr>bs_stage := StageError, bs_requestError := Some m\<rparr>"

definition setSoloRequested :: "uuid \<Rightarrow> ride_status \<Rightarrow> 'q booking \<Rightarrow> 'q booking" where
  "setSoloRequested i st b = b\<lparr>bs_rideId := Some i, bs_rideStatus := Some (normalizeStatus st), bs_driver := None, bs_rated := False, bs_stage := Tracking\<rparr>"

definition applyRideState :: "ride_status \<Rightarrow> 'q booking \<Rightarrow> 'q booking" where
  "applyRideState st b = (if bs_rideId b = None then b else b\<lparr>bs_rideStatus := Some (normalizeStatus st)\<rparr>)"

definition applyDriverLocation :: "uuid \<Rightarrow> real \<Rightarrow> real \<Rightarrow> real \<Rightarrow> 'q booking \<Rightarrow> 'q booking" where
  "applyDriverLocation i lat lng heading b = (if bs_rideId b \<noteq> Some i then b else b\<lparr>bs_driver := Some (lat, lng, heading)\<rparr>)"

definition markRated :: "'q booking \<Rightarrow> 'q booking" where
  "markRated b = b\<lparr>bs_rated := True\<rparr>"

definition reset_booking :: "'q booking \<Rightarrow> 'q booking" where
  "reset_booking b = initial_booking\<lparr>bs_quoteEpoch := bs_quoteEpoch b + 1\<rparr>"

section \<open>Socket messages\<close>

datatype web_message =
    PoolSnapshotMsg uuid "int option" int pool_state
  | PoolUpdateMsg uuid "int option" int pool_state
  | RideSnapshotMsg uuid "int option" ride_status
  | RideStateMsg uuid "int option" ride_status
  | DriverLocationMsg uuid real real real
  | RideCompletedMsg uuid

record 'q client =
  cl_pool :: version_gate
  cl_ride :: version_gate
  cl_booking :: "'q booking"

text \<open>One listener per server event; an event without a version gets its status's rank.\<close>

definition on_message :: "web_message \<Rightarrow> 'q client \<Rightarrow> 'q client" where
  "on_message m c =
     (case m of
        PoolSnapshotMsg i v n st \<Rightarrow>
          (case gate_snapshot i v (cl_pool c) of
             (ok, g) \<Rightarrow> c\<lparr>cl_pool := g, cl_booking := (if ok then applyPoolUpdate i n st (cl_booking c) else cl_booking c)\<rparr>)
      | PoolUpdateMsg i v n st \<Rightarrow>
          (case gate_event i v (cl_pool c) of
             (ok, g) \<Rightarrow> c\<lparr>cl_pool := g, cl_booking := (if ok then applyPoolUpdate i n st (cl_booking c) else cl_booking c)\<rparr>)
      | RideSnapshotMsg i v st \<Rightarrow>
          (case gate_snapshot i v (cl_ride c) of
             (ok, g) \<Rightarrow> c\<lparr>cl_ride := g, cl_booking := (if ok then applyRideState st (cl_booking c) else cl_booking c)\<rparr>)
      | RideStateMsg i v st \<Rightarrow>
          (case gate_event i (Some (case v of Some n \<Rightarrow> n | None \<Rightarrow> int (rideStatusVersion st))) (cl_ride c) of
             (ok, g) \<Rightarrow> c\<lparr>cl_ride := g, cl_booking := (if ok then applyRideState st (cl_booking c) else cl_booking c)\<rparr>)
      | DriverLocationMsg i lat lng heading \<Rightarrow> c\<lparr>cl_booking := applyDriverLocation i lat lng heading (cl_booking c)\<rparr>
      | RideCompletedMsg i \<Rightarrow> c)"

definition on_messages :: "web_message list \<Rightarrow> 'q client \<Rightarrow> 'q client" where
  "on_messages ms c = fold on_message ms c"

section \<open>Subscribing\<close>

definition SUBSCRIBE_MAX_TRIES :: nat where
  "SUBSCRIBE_MAX_TRIES = 5"

definition SUBSCRIBE_BACKOFF_MS :: "int list" where
  "SUBSCRIBE_BACKOFF_MS = [1000, 2000, 4000, 8000]"

definition backoff :: "nat \<Rightarrow> int" where
  "backoff n = (if n - 1 < length SUBSCRIBE_BACKOFF_MS then SUBSCRIBE_BACKOFF_MS ! (n - 1) else last SUBSCRIBE_BACKOFF_MS)"

text \<open>An attempt is its number, its run and the id it asked for; a timer carries the attempt that set it.\<close>

type_synonym attempt = "nat \<times> nat \<times> uuid"

record subscriber =
  sb_run :: nat
  sb_timer :: "attempt option"
  sb_closed :: bool

definition try_subscribe :: "nat \<Rightarrow> nat \<Rightarrow> version_gate \<Rightarrow> subscriber \<Rightarrow> attempt option" where
  "try_subscribe n myRun g b =
     (case vg_followed g of
        None \<Rightarrow> None
      | Some i \<Rightarrow> if sb_closed b \<or> myRun \<noteq> sb_run b then None else Some (n, myRun, i))"

definition subscribe_now :: "version_gate \<Rightarrow> subscriber \<Rightarrow> attempt option \<times> subscriber" where
  "subscribe_now g b =
     (let b1 = b\<lparr>sb_timer := None, sb_run := sb_run b + 1\<rparr> in (try_subscribe 1 (sb_run b1) g b1, b1))"

definition subscribe_cancel :: "subscriber \<Rightarrow> subscriber" where
  "subscribe_cancel b = b\<lparr>sb_timer := None, sb_run := sb_run b + 1\<rparr>"

text \<open>Only \<open>unavailable\<close> is retried; stale acknowledgements and timers are ignored.\<close>

definition on_ack :: "attempt \<Rightarrow> bool \<Rightarrow> version_gate \<Rightarrow> subscriber \<Rightarrow> subscriber" where
  "on_ack a unavailable g b =
     (case a of
        (n, myRun, i) \<Rightarrow>
          if sb_closed b \<or> myRun \<noteq> sb_run b \<or> vg_followed g \<noteq> Some i then b
          else if \<not> unavailable then b
          else if SUBSCRIBE_MAX_TRIES \<le> n then b
          else b\<lparr>sb_timer := Some a\<rparr>)"

definition on_timer :: "bool \<Rightarrow> version_gate \<Rightarrow> subscriber \<Rightarrow> attempt option \<times> subscriber" where
  "on_timer online g b =
     (case sb_timer b of
        None \<Rightarrow> (None, b)
      | Some (n, myRun, i) \<Rightarrow>
          let b1 = b\<lparr>sb_timer := None\<rparr> in
          if sb_closed b1 \<or> myRun \<noteq> sb_run b1 \<or> \<not> online \<or> vg_followed g \<noteq> Some i then (None, b1)
          else (try_subscribe (n + 1) myRun g b1, b1))"

text \<open>Following an id, and the messages that make the wrapper subscribe again.\<close>

definition subscribePool :: "uuid \<Rightarrow> bool \<Rightarrow> version_gate \<Rightarrow> subscriber \<Rightarrow> attempt option \<times> version_gate \<times> subscriber" where
  "subscribePool i online g b =
     (let g1 = gate_follow i g in
        if online then (case subscribe_now g1 b of (a, b1) \<Rightarrow> (a, g1, b1)) else (None, g1, b))"

definition on_ride_completed :: "uuid \<Rightarrow> version_gate \<Rightarrow> subscriber \<Rightarrow> attempt option \<times> subscriber" where
  "on_ride_completed i g b = (if vg_followed g = Some i then subscribe_now g b else (None, b))"

definition close_socket :: "subscriber \<Rightarrow> subscriber" where
  "close_socket b = subscribe_cancel (b\<lparr>sb_closed := True\<rparr>)"

end
