(* ===== verification/Live_View.thy ===== *)
theory Live_View
  imports Web_Client System
begin

text \<open>
  What versions buy. A reader that keeps the newest of the versioned reports it gets (the client's gate, the
  \<open>pool:<id>\<close> hash) ends with the same view in whatever order they arrive, as long as one version names one
  state; the rows of a run have that property. The locale states it once; pool rows and ride statuses of a
  run are its interpretations.
\<close>

section \<open>Keeping the newest report\<close>

definition keep_newest :: "('v \<Rightarrow> int) \<Rightarrow> 'v \<Rightarrow> 'v option \<Rightarrow> 'v option" where
  "keep_newest ver x cur = (case cur of None \<Rightarrow> Some x | Some y \<Rightarrow> if ver x \<le> ver y then Some y else Some x)"

definition newest :: "('v \<Rightarrow> int) \<Rightarrow> 'v list \<Rightarrow> 'v option" where
  "newest ver xs = fold (keep_newest ver) xs None"

lemma keep_newest_some:
  "\<exists>m \<in> insert y (set xs). fold (keep_newest ver) xs (Some y) = Some m \<and> (\<forall>x \<in> insert y (set xs). ver x \<le> ver m)"
proof (induction xs arbitrary: y)
  case (Cons x xs)
  show ?case
  proof (cases "ver x \<le> ver y")
    case True
    obtain m where m: "m \<in> insert y (set xs)" "fold (keep_newest ver) xs (Some y) = Some m" "\<forall>x \<in> insert y (set xs). ver x \<le> ver m"
      using Cons.IH by blast
    have "ver x \<le> ver m" using True m(3) by force
    moreover have "fold (keep_newest ver) (x # xs) (Some y) = Some m" using True m(2) by (simp add: keep_newest_def [of ver x])
    ultimately show ?thesis using m(1,3) by (intro bexI [of _ m]) auto
  next
    case False
    obtain m where m: "m \<in> insert x (set xs)" "fold (keep_newest ver) xs (Some x) = Some m" "\<forall>z \<in> insert x (set xs). ver z \<le> ver m"
      using Cons.IH by blast
    have "ver y \<le> ver m" using False m(3) by force
    moreover have "fold (keep_newest ver) (x # xs) (Some y) = Some m" using False m(2) by (simp add: keep_newest_def [of ver x])
    ultimately show ?thesis using m(1,3) by (intro bexI [of _ m]) auto
  qed
qed simp

lemma newest_some:
  assumes "xs \<noteq> []"
  shows "\<exists>m \<in> set xs. newest ver xs = Some m \<and> (\<forall>x \<in> set xs. ver x \<le> ver m)"
  using assms keep_newest_some [of "hd xs" "tl xs" ver] by (cases xs) (auto simp: newest_def keep_newest_def)

lemma newest_None [simp]: "newest ver xs = None \<longleftrightarrow> xs = []"
  using newest_some [of xs ver] by (cases xs) (auto simp: newest_def)

lemma newest_snoc: "newest ver (xs @ [x]) = keep_newest ver x (newest ver xs)"
  by (simp add: newest_def)

locale versioned =
  fixes ver :: "'v \<Rightarrow> int" and good :: "'v \<Rightarrow> bool"
  assumes one_state: "good x \<Longrightarrow> good y \<Longrightarrow> ver x = ver y \<Longrightarrow> x = y"
begin

lemma newest_is:
  assumes "\<forall>x \<in> set xs. good x" "m \<in> set xs" "\<forall>x \<in> set xs. ver x \<le> ver m"
  shows "newest ver xs = Some m"
proof -
  obtain n where n: "n \<in> set xs" "newest ver xs = Some n" "\<forall>x \<in> set xs. ver x \<le> ver n" using newest_some [of xs ver] assms(2) by force
  have "ver n = ver m" using assms(2,3) n(1,3) by (simp add: order_antisym)
  then show ?thesis using one_state [of n m] assms(1,2) n(1,2) by simp
qed

lemma order_irrelevant:
  assumes "\<forall>x \<in> set xs. good x" "set ys = set xs"
  shows "newest ver ys = newest ver xs"
proof (cases xs)
  case Nil
  then show ?thesis using assms(2) by simp
next
  case (Cons x zs)
  then obtain m where m: "m \<in> set xs" "newest ver xs = Some m" "\<forall>x \<in> set xs. ver x \<le> ver m" using newest_some [of xs ver] by auto
  then show ?thesis using newest_is [of ys m] assms by simp
qed

end

section \<open>The rows of a run\<close>

definition run_history :: "db list \<Rightarrow> bool" where
  "run_history H \<longleftrightarrow> H \<noteq> [] \<and> (\<forall>s \<in> set H. reach db_init db_step s) \<and> sorted_wrt (db_step\<^sup>*\<^sup>*) H"

definition committed_pool :: "db list \<Rightarrow> uuid \<Rightarrow> shared_ride \<Rightarrow> bool" where
  "committed_pool H i p \<longleftrightarrow> run_history H \<and> (\<exists>s \<in> set H. pool_row s i = Some p)"

definition committed_status :: "db list \<Rightarrow> uuid \<Rightarrow> ride_status \<Rightarrow> bool" where
  "committed_status H i st \<longleftrightarrow> run_history H \<and> (\<exists>s \<in> set H. \<exists>r. ride_row s i = Some r \<and> r_status r = st)"

lemma run_pool:
  assumes "reach db_init db_step s" "db_step\<^sup>*\<^sup>* s s'" "pool_row s i = Some p"
  shows "\<exists>p'. pool_row s' i = Some p' \<and> pool_evolves p p'"
  using run_good [OF assms(2) sys.reach_inv [OF assms(1)]] evolves_pool_row [OF _ _ assms(3)]
  by (auto simp: good_step_def sys_ok_def)

lemma run_ride:
  assumes "reach db_init db_step s" "db_step\<^sup>*\<^sup>* s s'" "ride_row s i = Some r"
  shows "\<exists>r'. ride_row s' i = Some r' \<and> ride_evolves r r'"
  using run_good [OF assms(2) sys.reach_inv [OF assms(1)]] evolves_ride_row [OF _ _ assms(3)]
  by (auto simp: good_step_def sys_ok_def)

lemma history_comparable:
  assumes "run_history H" "s \<in> set H" "t \<in> set H"
  shows "db_step\<^sup>*\<^sup>* s t \<or> db_step\<^sup>*\<^sup>* t s"
proof -
  obtain m n where "m < length H" "H ! m = s" "n < length H" "H ! n = t" using assms(2,3) by (auto simp: in_set_conv_nth)
  moreover have "db_step\<^sup>*\<^sup>* (H ! a) (H ! b)" if "a \<le> b" "b < length H" for a b
    using that assms(1) by (cases "a = b") (auto simp: run_history_def sorted_wrt_iff_nth_less)
  ultimately show ?thesis by (metis linear)
qed

lemma same_version_pool:
  assumes "committed_pool H i p" "committed_pool H i q" "p_stateVersion p = p_stateVersion q"
  shows "p = q"
proof -
  obtain s t where s: "run_history H" "s \<in> set H" "pool_row s i = Some p" and t: "t \<in> set H" "pool_row t i = Some q"
    using assms(1,2) by (auto simp: committed_pool_def)
  have r: "reach db_init db_step s" "reach db_init db_step t" using s(1,2) t(1) by (auto simp: run_history_def)
  from history_comparable [OF s(1,2) t(1)] show ?thesis
  proof
    assume run: "db_step\<^sup>*\<^sup>* s t"
    show ?thesis using run_pool [OF r(1) run s(3)] t(2) assms(3) by (auto simp: pool_evolves_def)
  next
    assume run: "db_step\<^sup>*\<^sup>* t s"
    show ?thesis using run_pool [OF r(2) run t(2)] s(3) assms(3) by (auto simp: pool_evolves_def)
  qed
qed

lemma rank_status:
  assumes "rideStatusVersion st = rideStatusVersion st'" "terminal_ride st \<longrightarrow> st' = st"
  shows "st' = st"
  using assms by (cases st; cases st') (simp_all add: terminal_ride_def)

lemma same_version_status:
  assumes "committed_status H i st" "committed_status H i st'" "rideStatusVersion st = rideStatusVersion st'"
  shows "st = st'"
proof -
  obtain s t a b where s: "run_history H" "s \<in> set H" "ride_row s i = Some a" "r_status a = st"
    and t: "t \<in> set H" "ride_row t i = Some b" "r_status b = st'"
    using assms(1,2) by (auto simp: committed_status_def)
  have r: "reach db_init db_step s" "reach db_init db_step t" using s(1,2) t(1) by (auto simp: run_history_def)
  from history_comparable [OF s(1,2) t(1)] show ?thesis
  proof
    assume run: "db_step\<^sup>*\<^sup>* s t"
    have "terminal_ride st \<longrightarrow> st' = st" using run_ride [OF r(1) run s(3)] t(2,3) s(4) by (auto simp: ride_evolves_def)
    then show ?thesis using rank_status [OF assms(3)] by simp
  next
    assume run: "db_step\<^sup>*\<^sup>* t s"
    have "terminal_ride st' \<longrightarrow> st = st'" using run_ride [OF r(2) run t(2)] s(3,4) t(3) by (auto simp: ride_evolves_def)
    then show ?thesis using rank_status [OF assms(3) [symmetric]] by simp
  qed
qed

text \<open>A report of a pool: version, seats, state.\<close>

type_synonym pool_report = "int \<times> int \<times> pool_state"

definition report_of :: "shared_ride \<Rightarrow> pool_report" where
  "report_of p = (p_stateVersion p, p_seatCount p, p_poolState p)"

definition good_report :: "db list \<Rightarrow> uuid \<Rightarrow> pool_report \<Rightarrow> bool" where
  "good_report H i x \<longleftrightarrow> (\<exists>p. committed_pool H i p \<and> x = report_of p)"

lemma same_version_report:
  assumes "good_report H i x" "good_report H i y" "fst x = fst y"
  shows "x = y"
proof -
  obtain p q where "committed_pool H i p" "x = report_of p" "committed_pool H i q" "y = report_of q"
    using assms(1,2) by (auto simp: good_report_def)
  then show ?thesis using same_version_pool assms(3) by (auto simp: report_of_def)
qed

interpretation pool_reports: versioned fst "good_report H i" for H i
  by unfold_locales (rule same_version_report)

interpretation pool_rows: versioned p_stateVersion "committed_pool H i" for H i
  by unfold_locales (rule same_version_pool)

definition status_version :: "ride_status \<Rightarrow> int" where
  "status_version st = int (rideStatusVersion st)"

interpretation ride_reports: versioned status_version "committed_status H i" for H i
  by unfold_locales (auto simp: status_version_def intro: same_version_status)

section \<open>The client's pool view\<close>

fun reports :: "uuid \<Rightarrow> web_message list \<Rightarrow> pool_report list" where
  "reports i [] = []"
| "reports i (PoolSnapshotMsg k (Some v) n st # ms) = (if k = i then (v, n, st) # reports i ms else reports i ms)"
| "reports i (PoolUpdateMsg k (Some v) n st # ms) = (if k = i then (v, n, st) # reports i ms else reports i ms)"
| "reports i (_ # ms) = reports i ms"

text \<open>Every report on the followed pool is versioned and was read from a state of the history.\<close>

definition honest :: "db list \<Rightarrow> uuid \<Rightarrow> web_message \<Rightarrow> bool" where
  "honest H i m =
     (case m of
        PoolSnapshotMsg k v n st \<Rightarrow> k = i \<longrightarrow> (\<exists>x. v = Some x \<and> good_report H i (x, n, st))
      | PoolUpdateMsg k v n st \<Rightarrow> k = i \<longrightarrow> (\<exists>x. v = Some x \<and> good_report H i (x, n, st))
      | _ \<Rightarrow> True)"

lemma reports_good: "\<forall>m \<in> set ms. honest H i m \<Longrightarrow> \<forall>x \<in> set (reports i ms). good_report H i x"
  by (induction i ms rule: reports.induct) (auto simp: honest_def)

definition shows_pool :: "uuid \<Rightarrow> pool_report option \<Rightarrow> 'q client \<Rightarrow> 'q client \<Rightarrow> bool" where
  "shows_pool i cur c0 c \<longleftrightarrow>
     cl_pool c = \<lparr>vg_followed = Some i, vg_applied = map_option fst cur\<rparr> \<and> bs_sharedRideId (cl_booking c) = Some i
     \<and> (case cur of
          None \<Rightarrow> bs_seatCount (cl_booking c) = bs_seatCount (cl_booking c0) \<and> bs_poolStatus (cl_booking c) = bs_poolStatus (cl_booking c0)
        | Some (v, n, st) \<Rightarrow> bs_seatCount (cl_booking c) = n \<and> bs_poolStatus (cl_booking c) = Some st)"

lemma applyPoolUpdate_sel [simp]:
  "bs_sharedRideId (applyPoolUpdate i n st b) = bs_sharedRideId b"
  "bs_sharedRideId b = Some i \<Longrightarrow> bs_seatCount (applyPoolUpdate i n st b) = n"
  "bs_sharedRideId b = Some i \<Longrightarrow> bs_poolStatus (applyPoolUpdate i n st b) = Some st"
  by (simp_all add: applyPoolUpdate_def)

lemma other_actions_sel [simp]:
  "bs_sharedRideId (applyRideState st b) = bs_sharedRideId b" "bs_seatCount (applyRideState st b) = bs_seatCount b"
  "bs_poolStatus (applyRideState st b) = bs_poolStatus b"
  "bs_sharedRideId (applyDriverLocation k x y h b) = bs_sharedRideId b" "bs_seatCount (applyDriverLocation k x y h b) = bs_seatCount b"
  "bs_poolStatus (applyDriverLocation k x y h b) = bs_poolStatus b"
  by (simp_all add: applyRideState_def applyDriverLocation_def)

lemma on_report:
  assumes "shows_pool i cur c0 c" "good_report H i (v, n, st)" "\<forall>x \<in> set_option cur. good_report H i x"
    and "m = PoolSnapshotMsg i (Some v) n st \<or> m = PoolUpdateMsg i (Some v) n st"
  shows "shows_pool i (keep_newest fst (v, n, st) cur) c0 (on_message m c)"
proof (cases cur)
  case None
  then show ?thesis using assms(1,4) by (auto simp: shows_pool_def on_message_def gate_snapshot_def gate_event_def keep_newest_def)
next
  case (Some y)
  obtain w k st' where y: "y = (w, k, st')" by (cases y) auto
  have same: "v = w \<Longrightarrow> n = k \<and> st = st'"
    using same_version_report [OF assms(2), of y] assms(3) Some y by simp
  show ?thesis
    using assms(1,4) same unfolding Some y
    by (cases "v = w"; cases "v < w") (auto simp: shows_pool_def on_message_def gate_snapshot_def gate_event_def keep_newest_def)
qed

lemma on_other:
  assumes "shows_pool i cur c0 c" "reports i [m] = []" "honest H i m"
  shows "shows_pool i cur c0 (on_message m c)"
  using assms
  by (cases m) (auto simp: shows_pool_def on_message_def gate_snapshot_def gate_event_def honest_def split: option.splits prod.splits if_splits)

lemma reports_append: "reports i (ms @ ns) = reports i ms @ reports i ns"
  by (induction i ms rule: reports.induct) auto

lemma reports_set: "set (reports i ms) = (\<Union>m \<in> set ms. set (reports i [m]))"
proof (induction ms)
  case (Cons m ms)
  then show ?case using reports_append [of i "[m]" ms] by simp
qed simp

lemma report_cases:
  obtains "reports i [m] = []"
  | v n st where "reports i [m] = [(v, n, st)]" "m = PoolSnapshotMsg i (Some v) n st \<or> m = PoolUpdateMsg i (Some v) n st"
proof (cases m)
  case (PoolSnapshotMsg k v n st)
  then show thesis using that by (cases v; cases "k = i") auto
next
  case (PoolUpdateMsg k v n st)
  then show thesis using that by (cases v; cases "k = i") auto
qed (use that in auto)

lemma shows_messages:
  assumes "\<forall>m \<in> set ms. honest H i m" "cl_pool c0 = gate_follow i createVersionGate" "bs_sharedRideId (cl_booking c0) = Some i"
  shows "shows_pool i (newest fst (reports i ms)) c0 (on_messages ms c0)"
  using assms(1)
proof (induction ms rule: rev_induct)
  case Nil
  then show ?case using assms(2,3) by (simp add: shows_pool_def newest_def on_messages_def gate_follow_def createVersionGate_def)
next
  case (snoc m ms)
  then have IH: "shows_pool i (newest fst (reports i ms)) c0 (on_messages ms c0)" and m: "honest H i m" by simp_all
  have step: "on_messages (ms @ [m]) c0 = on_message m (on_messages ms c0)" by (simp add: on_messages_def)
  show ?case
  proof (cases rule: report_cases [of i m])
    case 1
    then show ?thesis using on_other [OF IH 1 m] by (simp add: step reports_append)
  next
    case (2 v n st)
    have old: "\<forall>x \<in> set_option (newest fst (reports i ms)). good_report H i x"
    proof (cases "reports i ms = []")
      case True
      then show ?thesis by (simp add: newest_def)
    next
      case False
      then show ?thesis using reports_good [of ms H i] snoc.prems newest_some [of "reports i ms" fst] by auto
    qed
    have "good_report H i (v, n, st)" using reports_good [of "[m]" H i] m 2(1) by simp
    from on_report [OF IH this old 2(2)] show ?thesis by (simp add: step reports_append newest_snoc 2(1))
  qed
qed

section \<open>Convergence\<close>

definition snapshot_message :: "pool_snapshot \<Rightarrow> web_message" where
  "snapshot_message u = PoolSnapshotMsg (pu_sharedRideId u) (Some (pu_version u)) (pu_seatCount u) (pu_poolStatus u)"

definition update_message :: "pool_update \<Rightarrow> web_message" where
  "update_message u = PoolUpdateMsg (pu_sharedRideId u) (Some (pu_version u)) (pu_seatCount u) (pu_poolStatus u)"

lemma update_report: "pool_row s i = Some p \<Longrightarrow> reports i [update_message (poolUpdatePayload p)] = [report_of p]"
  using row_key by (fastforce simp: update_message_def poolUpdatePayload_def report_of_def)

lemma snapshot_row:
  assumes "poolSnapshot s i u = Some snap"
  shows "\<exists>p. pool_row s i = Some p \<and> reports i [snapshot_message snap] = [report_of p]"
proof -
  obtain p m where p: "pool_row s i = Some p" and m: "find (\<lambda>m. m_poolId m = i \<and> m_passengerId m = u) (pool_members s) = Some m"
    using assms by (auto simp: poolSnapshot_def split: if_splits option.splits)
  then have "pu_sharedRideId snap = i \<and> pu_version snap = p_stateVersion p \<and> pu_seatCount snap = p_seatCount p \<and> pu_poolStatus snap = p_poolState p"
    using assms row_key [OF p] by (auto simp: poolSnapshot_def poolUpdatePayload_def pool_update.defs split: if_splits)
  then show ?thesis using p by (simp add: snapshot_message_def report_of_def)
qed

lemma report_member: "m \<in> set ms \<Longrightarrow> reports i [m] = [x] \<Longrightarrow> x \<in> set (reports i ms)"
  by (metis list.set_intros(1) reports_append split_list append_Cons append_Nil in_set_conv_decomp)

lemma last_newest:
  assumes "run_history H" "pool_row (last H) i = Some p" "good_report H i x"
  shows "fst x \<le> p_stateVersion p"
proof -
  obtain q s where q: "s \<in> set H" "pool_row s i = Some q" "x = report_of q" using assms(3) by (auto simp: good_report_def committed_pool_def)
  have r: "reach db_init db_step s" using assms(1) q(1) by (simp add: run_history_def)
  have run: "db_step\<^sup>*\<^sup>* s (last H)"
  proof (cases "s = last H")
    case False
    obtain n where n: "n < length H" "H ! n = s" using q(1) by (auto simp: in_set_conv_nth)
    have l: "last H = H ! (length H - 1)" "H \<noteq> []" using assms(1) by (simp_all add: last_conv_nth run_history_def)
    then have "n < length H - 1" using n False by (metis Suc_diff_1 length_greater_0_conv less_antisym)
    then show ?thesis using assms(1) n l by (auto simp: run_history_def sorted_wrt_iff_nth_less)
  qed simp
  show ?thesis using run_pool [OF r run q(2)] assms(2) q(3) by (auto simp: pool_evolves_def report_of_def)
qed

text \<open>Changes after the snapshot are all published, so the last row was reported.\<close>

lemma last_row_reported:
  assumes "n < length H" "snapshot_message snap \<in> set ms" "poolSnapshot (H ! n) i u = Some snap"
    and pub: "\<And>m. n < m \<Longrightarrow> m < length H \<Longrightarrow> pool_row (H ! m) i \<noteq> pool_row (H ! (m - 1)) i \<Longrightarrow>
      \<exists>k p. m \<le> k \<and> k < length H \<and> pool_row (H ! k) i = Some p \<and> update_message (poolUpdatePayload p) \<in> set ms"
  shows "\<exists>p. pool_row (last H) i = Some p \<and> report_of p \<in> set (reports i ms)"
proof -
  let ?l = "length H - 1" and ?row = "\<lambda>m. pool_row (H ! m) i"
  have l: "last H = H ! ?l" "n \<le> ?l" "?l < length H" using assms(1) by (cases H rule: rev_cases, auto simp: last_conv_nth)
  have same: "?row b = ?row a" if "a \<le> b" "b \<le> ?l" "\<And>m. a < m \<Longrightarrow> m \<le> b \<Longrightarrow> ?row m = ?row (m - 1)" for a b
    using that
  proof (induction b)
    case (Suc b)
    show ?case
    proof (cases "a = Suc b")
      case False
      then have "?row b = ?row a" using Suc by simp
      then show ?thesis using Suc.prems(3) [of "Suc b"] Suc.prems(1) False by simp
    qed simp
  qed simp
  show ?thesis
  proof (cases "\<exists>m. n < m \<and> m \<le> ?l \<and> ?row m \<noteq> ?row (m - 1)")
    case False
    then have "?row ?l = ?row n" using same [of n ?l] l(2) by auto
    moreover obtain p where "?row n = Some p" "reports i [snapshot_message snap] = [report_of p]" using snapshot_row [OF assms(3)] by blast
    ultimately show ?thesis using l(1) report_member [OF assms(2)] by auto
  next
    case True
    let ?M = "{m. n < m \<and> m \<le> ?l \<and> ?row m \<noteq> ?row (m - 1)}"
    have fin: "finite ?M" "?M \<noteq> {}" using True by auto
    define m where "m = Max ?M"
    have m: "n < m" "m \<le> ?l" "?row m \<noteq> ?row (m - 1)" using Max_in [OF fin] by (simp_all add: m_def)
    have after: "?row k = ?row (k - 1)" if "m < k" "k \<le> ?l" for k
    proof (rule ccontr)
      assume "?row k \<noteq> ?row (k - 1)"
      then have "k \<in> ?M" using that m(1) by simp
      then have "k \<le> m" unfolding m_def by (rule Max_ge [OF fin(1)])
      then show False using that(1) by simp
    qed
    obtain k p where k: "m \<le> k" "k < length H" "?row k = Some p" "update_message (poolUpdatePayload p) \<in> set ms"
      using pub [OF m(1) _ m(3)] m(2) l(3) by auto
    have "?row ?l = ?row k" by (rule same) (use k after in auto)
    then show ?thesis using l(1) k(3,4) report_member [OF k(4) update_report [OF k(3)]] by auto
  qed
qed

section \<open>The pool hash\<close>

lemma later_row:
  assumes "committed_pool H i p" "committed_pool H i q" "p_stateVersion p \<le> p_stateVersion q"
  shows "pool_evolves p q"
proof -
  obtain s t where s: "run_history H" "s \<in> set H" "pool_row s i = Some p" and t: "t \<in> set H" "pool_row t i = Some q"
    using assms(1,2) by (auto simp: committed_pool_def)
  have r: "reach db_init db_step s" "reach db_init db_step t" using s(1,2) t(1) by (auto simp: run_history_def)
  from history_comparable [OF s(1,2) t(1)] show ?thesis
  proof
    assume run: "db_step\<^sup>*\<^sup>* s t"
    show ?thesis using run_pool [OF r(1) run s(3)] t(2) by auto
  next
    assume run: "db_step\<^sup>*\<^sup>* t s"
    have "pool_evolves q p" using run_pool [OF r(2) run t(2)] s(3) by auto
    then have "p_stateVersion p = p_stateVersion q" using assms(3) by (simp add: pool_evolves_def)
    then have "p = q" using same_version_pool [OF assms(1,2)] by simp
    then show ?thesis by simp
  qed
qed

definition hash_shows :: "shared_ride option \<Rightarrow> pool_hash option \<Rightarrow> bool" where
  "hash_shows cur h \<longleftrightarrow>
     (case (cur, h) of
        (None, None) \<Rightarrow> True
      | (Some p, Some x) \<Rightarrow> ph_version x = p_stateVersion p \<and> ph_state x = p_poolState p \<and> ph_seatCount x = p_seatCount p
          \<and> ph_maxSeats x = p_maxSeats p \<and> ph_claimedBy x = p_claimedByDriverId p
      | _ \<Rightarrow> False)"

definition write_all :: "(shared_ride \<times> instant) list \<Rightarrow> redis \<Rightarrow> redis" where
  "write_all ws r = fold (\<lambda>(p, now) r. snd (write_pool p now r)) ws r"

lemma hash_step:
  assumes "hash_shows cur (rd_pools r i)" "committed_pool H i p" "\<forall>y \<in> set_option cur. committed_pool H i y"
    and "\<forall>h \<in> set_option (rd_pools r i). now < ph_expiresAt h"
  shows "hash_shows (keep_newest p_stateVersion p cur) (rd_pools (snd (write_pool p now r)) i)"
proof -
  have id: "p_rideId p = i" using assms(2) row_key by (fastforce simp: committed_pool_def)
  have here: "unexpired now (rd_pools r i) = rd_pools r i" using assms(4) by (cases "rd_pools r i") (simp_all add: unexpired_def)
  show ?thesis
  proof (cases cur)
    case None
    then show ?thesis using assms(1) id here
      by (auto simp: hash_shows_def write_pool_def project_pool_eval_def keep_newest_def split: option.splits)
  next
    case (Some y)
    then obtain h where h: "rd_pools r i = Some h" using assms(1) by (auto simp: hash_shows_def split: option.splits)
    have claim: "p_claimedByDriverId p = None \<Longrightarrow> p_claimedByDriverId y = None" if "p_stateVersion y \<le> p_stateVersion p"
      using later_row [of H i y p] assms(2,3) that Some by (auto simp: pool_evolves_def)
    show ?thesis using assms(1) id here h claim Some
      by (auto simp: hash_shows_def write_pool_def project_pool_eval_def keep_newest_def split: option.splits)
  qed
qed

lemma write_pool_expiry:
  assumes "t \<le> now" "\<forall>h \<in> set_option (rd_pools r i). t + POOL_HASH_TTL_SECONDS * 1000 \<le> ph_expiresAt h"
  shows "\<forall>h \<in> set_option (rd_pools (snd (write_pool p now r)) i). t + POOL_HASH_TTL_SECONDS * 1000 \<le> ph_expiresAt h"
  using assms by (auto simp: write_pool_def project_pool_eval_def unexpired_def split: option.splits if_splits Option.bind_splits)

definition within_ttl :: "instant \<Rightarrow> (shared_ride \<times> instant) list \<Rightarrow> bool" where
  "within_ttl t ws \<longleftrightarrow> (\<forall>w \<in> set ws. t \<le> snd w \<and> snd w < t + POOL_HASH_TTL_SECONDS * 1000)"

lemma hash_newest:
  assumes "\<forall>w \<in> set ws. committed_pool H i (fst w)" "rd_pools r i = None" "within_ttl t ws"
  shows "hash_shows (newest p_stateVersion (map fst ws)) (rd_pools (write_all ws r) i)
    \<and> (\<forall>h \<in> set_option (rd_pools (write_all ws r) i). t + POOL_HASH_TTL_SECONDS * 1000 \<le> ph_expiresAt h)"
  using assms(1,3)
proof (induction ws rule: rev_induct)
  case Nil
  then show ?case using assms(2) by (simp add: hash_shows_def newest_def write_all_def)
next
  case (snoc w ws)
  have step: "write_all (ws @ [w]) r = snd (write_pool (fst w) (snd w) (write_all ws r))" by (simp add: write_all_def case_prod_unfold)
  have old: "\<forall>y \<in> set_option (newest p_stateVersion (map fst ws)). committed_pool H i y"
  proof (cases "ws = []")
    case False
    then show ?thesis using snoc.prems newest_some [of "map fst ws" p_stateVersion] by auto
  qed (simp add: newest_def)
  have IH: "hash_shows (newest p_stateVersion (map fst ws)) (rd_pools (write_all ws r) i)" "committed_pool H i (fst w)"
      "\<forall>h \<in> set_option (rd_pools (write_all ws r) i). t + POOL_HASH_TTL_SECONDS * 1000 \<le> ph_expiresAt h"
    and now: "t \<le> snd w" "snd w < t + POOL_HASH_TTL_SECONDS * 1000"
    using snoc by (simp_all add: within_ttl_def)
  have "\<forall>h \<in> set_option (rd_pools (write_all ws r) i). snd w < ph_expiresAt h" using IH(3) now(2) by force
  from hash_step [OF IH(1,2) old this] write_pool_expiry [OF now(1) IH(3)] show ?case by (simp add: step newest_snoc)
qed

section \<open>The current ride of a driver\<close>

abbreviation quiet_gap :: "nat \<Rightarrow> world \<Rightarrow> world" where
  "quiet_gap \<equiv> \<lambda>_ w. w"

lemma projectCurrentRide_sel:
  "rd_drivers (snd (projectCurrentRide d t r)) = (rd_drivers r)(d := map_option (\<lambda>h. h\<lparr>dh_currentRideId := Some t\<rparr>) (rd_drivers r d))"
  by (auto simp: projectCurrentRide_def split: option.splits)

lemma clearCurrentRide_sel:
  "current_ride r d = Some t \<Longrightarrow>
   rd_drivers (snd (clearCurrentRide d t r)) = (rd_drivers r)(d := map_option (\<lambda>h. h\<lparr>dh_currentRideId := None\<rparr>) (rd_drivers r d))"
  by (auto simp: clearCurrentRide_def current_ride_def split: option.splits Option.bind_splits)

lemma current_ride_upd:
  assumes "rd_drivers r' = (rd_drivers r)(d := map_option (\<lambda>h. h\<lparr>dh_currentRideId := c\<rparr>) (rd_drivers r d))"
  shows "current_ride r' e = (if e = d then (if rd_drivers r d = None then None else c) else current_ride r e)"
    and "rd_drivers r' e = None \<longleftrightarrow> rd_drivers r e = None"
  using assms by (auto simp: current_ride_def)

lemma project_guards_quiet:
  assumes "distinct (map fst gs)" "\<And>d t. (d, t) \<in> set gs \<Longrightarrow> stillAssigned d t s \<longleftrightarrow> isUuid d"
    and "project_guards gs quiet_gap n (s, r) = (k, w)"
  shows "fst w = s \<and> (\<forall>e. rd_drivers (snd w) e = None \<longleftrightarrow> rd_drivers r e = None)
    \<and> (\<forall>e. current_ride (snd w) e = (case map_of gs e of
         Some t \<Rightarrow> if isUuid e \<and> rd_drivers r e \<noteq> None then Some t else current_ride r e | None \<Rightarrow> current_ride r e))"
  using assms
proof (induction gs arbitrary: n r k w)
  case (Cons g gs)
  obtain d t where g: "g = (d, t)" by fastforce
  have new: "map_of gs d = None" using Cons.prems(1) by (auto simp: g map_of_eq_None_iff)
  have IH: "project_guards gs quiet_gap m (s, r') = (k', w') \<Longrightarrow>
      fst w' = s \<and> (\<forall>e. rd_drivers (snd w') e = None \<longleftrightarrow> rd_drivers r' e = None)
    \<and> (\<forall>e. current_ride (snd w') e = (case map_of gs e of
         Some t \<Rightarrow> if isUuid e \<and> rd_drivers r' e \<noteq> None then Some t else current_ride r' e | None \<Rightarrow> current_ride r' e))" for m r' k' w'
    by (rule Cons.IH) (use Cons.prems in auto)
  show ?case
  proof (cases "current_ride r d = Some t \<or> \<not> isUuid d")
    case True
    then have "project_guards gs quiet_gap (n + 3) (s, r) = (k, w)"
      using Cons.prems(2) [of d t] Cons.prems(3) by (auto simp: g Let_def split: if_splits)
    from IH [OF this] show ?thesis using True new by (auto simp: g split: option.splits)
  next
    case False
    have still: "stillAssigned d t s" using Cons.prems(2) [of d t] False by (simp add: g)
    let ?r = "snd (projectCurrentRide d t r)"
    obtain k' where "project_guards gs quiet_gap (n + 3) (s, ?r) = (k', w)"
      using Cons.prems(3) False still by (auto simp: g Let_def split: prod.splits)
    note ih = IH [OF this]
    note c = current_ride_upd [OF projectCurrentRide_sel, of d t r]
    have "current_ride (snd w) e = (case map_of (g # gs) e of
        Some t \<Rightarrow> if isUuid e \<and> rd_drivers r e \<noteq> None then Some t else current_ride r e | None \<Rightarrow> current_ride r e)" for e
      using ih c [of e] new False by (cases "e = d") (auto simp: g current_ride_def split: option.splits)
    then show ?thesis using ih c(2) by blast
  qed
qed simp

lemma clear_stale_quiet:
  assumes "\<And>d t. d \<in> set ds \<Longrightarrow> stillAssigned d t s \<longrightarrow> want d = Some t" "clear_stale want ds quiet_gap n (s, r) = (k, w)"
  shows "fst w = s \<and> (\<forall>e. rd_drivers (snd w) e = None \<longleftrightarrow> rd_drivers r e = None)
    \<and> (\<forall>e. current_ride (snd w) e = (if e \<in> set ds \<and> current_ride r e \<noteq> want e then None else current_ride r e))"
  using assms
proof (induction ds arbitrary: n r k w)
  case (Cons d ds)
  have IH: "clear_stale want ds quiet_gap m (s, r') = (k', w') \<Longrightarrow>
      fst w' = s \<and> (\<forall>e. rd_drivers (snd w') e = None \<longleftrightarrow> rd_drivers r' e = None)
    \<and> (\<forall>e. current_ride (snd w') e = (if e \<in> set ds \<and> current_ride r' e \<noteq> want e then None else current_ride r' e))" for m r' k' w'
    by (rule Cons.IH) (use Cons.prems in auto)
  show ?case
  proof (cases "current_ride r d")
    case None
    then have "clear_stale want ds quiet_gap (n + 3) (s, r) = (k, w)" using Cons.prems(2) by (simp add: Let_def)
    from IH [OF this] show ?thesis using None by auto
  next
    case (Some cur)
    show ?thesis
    proof (cases "want d = Some cur")
      case True
      then have "clear_stale want ds quiet_gap (n + 3) (s, r) = (k, w)" using Cons.prems(2) Some by (simp add: Let_def)
      from IH [OF this] show ?thesis using Some True by auto
    next
      case False
      then have gone: "\<not> stillAssigned d cur s" using Cons.prems(1) [of d cur] by auto
      let ?r = "snd (clearCurrentRide d cur r)"
      obtain k' where "clear_stale want ds quiet_gap (n + 3) (s, ?r) = (k', w)"
        using Cons.prems(2) Some False gone by (auto simp: Let_def split: prod.splits)
      note ih = IH [OF this]
      note c = current_ride_upd [OF clearCurrentRide_sel [OF Some]]
      have "current_ride (snd w) e = (if e \<in> set (d # ds) \<and> current_ride r e \<noteq> want e then None else current_ride r e)" for e
        using ih c(1) [of e] Some False by (cases "e = d") auto
      then show ?thesis using ih c(2) by blast
    qed
  qed
qed simp

end
