(* ===== verification/Realtime_Properties.thy ===== *)
theory Realtime_Properties
  imports Live_View Scenario
begin

text \<open>
  What the realtime side promises: a client converges to the committed state whatever the delivery order, a
  socket sees its own trips only, a driver's sync is the guard table, and the Redis projections agree with
  Postgres once they are up to date.
\<close>

section \<open>Helpers\<close>

lemma guard_row:
  assumes "reach db_init db_step s"
  shows "guard_keys s" "guard_of s = trip_driver s"
  using sys.reach_inv [OF assms] by (simp_all add: sys_ok_def core_ok_def)

lemma row_iff: "distinct (map key t) \<Longrightarrow> row key t k = Some r \<longleftrightarrow> r \<in> set t \<and> key r = k"
  using row_mem [of key t r] row_SomeD [of key t k r] by auto

lemma driver_guard:
  assumes "reach db_init db_step s"
  shows "(\<exists>a. findByDriver s d = Some a \<and> a_trip a = t) \<longleftrightarrow> trip_driver s t = Some d"
proof -
  have g: "distinct (map a_driverId (assignments s))" "distinct (map a_trip (assignments s))" "guard_of s = trip_driver s"
    using guard_row [OF assms] by (simp_all add: guard_keys_def)
  then show ?thesis by (auto simp: findByDriver_def row_iff guard_of_def fun_eq_iff simp flip: g(3))
qed

lemma guard_still:
  assumes "guard_keys s" "(d, t) \<in> set (expected_rides s)"
  shows "stillAssigned d t s \<longleftrightarrow> isUuid d"
proof -
  obtain a where a: "a \<in> set (assignments s)" "a_driverId a = d" "tripId (a_trip a) = t"
    using assms(2) by (auto simp: expected_rides_def listAll_def)
  then have "findByDriver s d = Some a" using assms(1) by (simp add: findByDriver_def guard_keys_def row_iff)
  then show ?thesis using a(3) by (simp add: stillAssigned_def)
qed

lemma map_of_row: "map_of (map (\<lambda>a. (key a, f a)) t) k = map_option f (row key t k)"
  by (induction t) auto

lemma map_of_rev: "distinct (map fst gs) \<Longrightarrow> map_of (rev gs) = map_of gs"
proof (induction gs)
  case (Cons g gs)
  have "fst g \<notin> dom (map_of gs)" using Cons.prems by (simp add: dom_map_of_conv_image_fst)
  then have "map_of gs ++ [fst g \<mapsto> snd g] = [fst g \<mapsto> snd g] ++ map_of gs" by (intro map_add_comm) auto
  then show ?case using Cons by (simp add: map_of_append)
qed simp

lemma want_is_guard: "map_of (expected_rides s) d = map_option (\<lambda>a. tripId (a_trip a)) (findByDriver s d)"
  by (simp add: expected_rides_def listAll_def findByDriver_def map_of_row)

lemma expireLapsed_guard: "assignments (snd (expireLapsed locked ct s)) = assignments s"
  by (simp add: expireLapsed_def Let_def)

lemma claimed_trip_row:
  assumes "trip_driver s t = Some d"
  shows "case t of Solo i \<Rightarrow> \<exists>r. ride_row s i = Some r \<and> r_id r = i \<and> r_driverId r = Some d
    | Shared i \<Rightarrow> \<exists>p. pool_row s i = Some p \<and> p_claimedByDriverId p = Some d"
  using assms by (cases t) (auto simp: solo_driver_def pool_driver_def bind_eq_Some_conv dest: row_key split: if_splits)

lemma w_history: "run_history [w_claimed, w_started]"
  using w_reach_claimed w_reach_started s_confirm [OF w_pickup] by (simp add: run_history_def)

section \<open>The booking client\<close>

text \<open>C29: The client's pool view after any deliveries is the committed pool with the highest version
  among them, whatever the order of the messages and however often one is repeated.\<close>

lemma client_shows_newest_state:
  assumes "\<forall>m \<in> set ms. honest H i m" "set ns = set ms"
    and "cl_pool c = gate_follow i createVersionGate" "bs_sharedRideId (cl_booking c) = Some i"
  shows "(reports i ms \<noteq> [] \<longrightarrow>
      (\<exists>p. committed_pool H i p \<and> report_of p \<in> set (reports i ms) \<and> (\<forall>x \<in> set (reports i ms). fst x \<le> p_stateVersion p)
         \<and> bs_seatCount (cl_booking (on_messages ns c)) = p_seatCount p
         \<and> bs_poolStatus (cl_booking (on_messages ns c)) = Some (p_poolState p)))
    \<and> (reports i ms = [] \<longrightarrow> bs_seatCount (cl_booking (on_messages ns c)) = bs_seatCount (cl_booking c)
         \<and> bs_poolStatus (cl_booking (on_messages ns c)) = bs_poolStatus (cl_booking c))"
proof -
  have honest: "\<forall>m \<in> set ns. honest H i m" using assms(1,2) by simp
  have r: "set (reports i ns) = set (reports i ms)" using reports_set [of i ns] reports_set [of i ms] assms(2) by simp
  have good: "\<forall>x \<in> set (reports i ms). good_report H i x" by (rule reports_good [OF assms(1)])
  have s: "shows_pool i (newest fst (reports i ms)) c (on_messages ns c)"
    using shows_messages [OF honest assms(3,4)] pool_reports.order_irrelevant [OF good r] by simp
  show ?thesis
  proof (cases "reports i ms = []")
    case True
    then show ?thesis using s by (simp add: shows_pool_def newest_def)
  next
    case False
    then obtain x where x: "x \<in> set (reports i ms)" "newest fst (reports i ms) = Some x" "\<forall>y \<in> set (reports i ms). fst y \<le> fst x"
      using newest_some by blast
    then obtain p where p: "committed_pool H i p" "x = report_of p" using good by (auto simp: good_report_def)
    have "bs_seatCount (cl_booking (on_messages ns c)) = p_seatCount p \<and> bs_poolStatus (cl_booking (on_messages ns c)) = Some (p_poolState p)"
      using s by (simp add: x(2) p(2) shows_pool_def report_of_def)
    moreover have "fst x = p_stateVersion p" by (simp add: p(2) report_of_def)
    ultimately show ?thesis using False p x(1,3) by auto
  qed
qed

abbreviation w_client :: "nat client" where
  "w_client \<equiv> \<lparr>cl_pool = gate_follow rid createVersionGate, cl_ride = createVersionGate,
     cl_booking = setOpened rid 1 PoolOpen (Some 9000) initial_booking\<rparr>"

abbreviation w_closed_msg :: web_message where
  "w_closed_msg \<equiv> PoolUpdateMsg rid (Some 3) 1 ClosedTimeout"

abbreviation w_started_msg :: web_message where
  "w_started_msg \<equiv> PoolUpdateMsg rid (Some 5) 1 ClosedStarted"

lemma w_rows:
  "pool_row w_claimed rid = Some w_claimed_pool" "report_of w_claimed_pool = (3, 1, ClosedTimeout)"
  "\<exists>p. pool_row w_started rid = Some p \<and> report_of p = (5, 1, ClosedStarted)"
  by (simp_all add: w_shared report_of_def)

lemma w_honest: "honest [w_claimed, w_started] rid w_closed_msg" "honest [w_claimed, w_started] rid w_started_msg"
  using w_history w_rows by (fastforce simp: honest_def good_report_def committed_pool_def)+

lemma client_shows_newest_state_witness:
  "bs_poolStatus (cl_booking (on_messages [w_started_msg, w_closed_msg, w_started_msg] w_client)) = Some ClosedStarted"
proof -
  have "cl_pool w_client = gate_follow rid createVersionGate" "bs_sharedRideId (cl_booking w_client) = Some rid"
    by (simp_all add: setOpened_def)
  from client_shows_newest_state [OF _ _ this, of "[w_closed_msg, w_started_msg]" "[w_claimed, w_started]"
      "[w_started_msg, w_closed_msg, w_started_msg]"]
  obtain p where "report_of p = (3, 1, ClosedTimeout) \<or> report_of p = (5, 1, ClosedStarted)" "5 \<le> p_stateVersion p"
      "bs_poolStatus (cl_booking (on_messages [w_started_msg, w_closed_msg, w_started_msg] w_client)) = Some (p_poolState p)"
    using w_honest by auto
  then show ?thesis by (auto simp: report_of_def)
qed

text \<open>C30: A member who subscribes and gets every later report of the pool ends up with the pool's last
  committed row on screen, provided each change is followed by a published report.\<close>

lemma subscriber_converges:
  assumes "run_history H" "n < length H" "handlePoolSubscribe fails gap (Some i) k s = (Inr snap, ev, k', H ! n)"
    and "\<And>m. n < m \<Longrightarrow> m < length H \<Longrightarrow> pool_row (H ! m) i \<noteq> pool_row (H ! (m - 1)) i \<Longrightarrow>
      \<exists>l u. m \<le> l \<and> l < length H \<and> publishPoolUpdate (H ! l) i = [BroadcastPool i u] \<and> update_message u \<in> set ms"
    and "snapshot_message snap \<in> set ms" "\<forall>m \<in> set ms. honest H i m"
    and "cl_pool c = gate_follow i createVersionGate" "bs_sharedRideId (cl_booking c) = Some i"
  shows "\<exists>p. pool_row (last H) i = Some p \<and> ev = [EmitPoolSnapshot snap] \<and> PoolRoom i \<in> so_rooms k'
    \<and> bs_seatCount (cl_booking (on_messages ms c)) = p_seatCount p
    \<and> bs_poolStatus (cl_booking (on_messages ms c)) = Some (p_poolState p)"
proof -
  obtain u where sub: "poolSnapshot (H ! n) i u = Some snap" "ev = [EmitPoolSnapshot snap]" "PoolRoom i \<in> so_rooms k'"
    using assms(3) by (auto simp: handlePoolSubscribe_def Let_def split: option.splits prod.splits if_splits)
  have pub: "\<exists>l p. m \<le> l \<and> l < length H \<and> pool_row (H ! l) i = Some p \<and> update_message (poolUpdatePayload p) \<in> set ms"
    if "n < m" "m < length H" "pool_row (H ! m) i \<noteq> pool_row (H ! (m - 1)) i" for m
    using assms(4) [OF that] by (fastforce simp: publishPoolUpdate_def poolUpdate_def split: option.splits if_splits)
  obtain p where p: "pool_row (last H) i = Some p" "report_of p \<in> set (reports i ms)"
    using last_row_reported [OF assms(2,5) sub(1)] pub by blast
  have good: "\<forall>x \<in> set (reports i ms). good_report H i x" by (rule reports_good [OF assms(6)])
  have "newest fst (reports i ms) = Some (report_of p)"
    using last_newest [OF assms(1) p(1)] good by (intro pool_reports.newest_is [OF good p(2)]) (auto simp: report_of_def)
  then show ?thesis using shows_messages [OF assms(6-8)] p(1) sub(2,3) by (simp add: shows_pool_def report_of_def)
qed

abbreviation w_socket :: socket where
  "w_socket \<equiv> \<lparr>so_user = Some (pas, RoleClient), so_rooms = {}\<rparr>"

lemma w_subscribe:
  "\<exists>snap k'. handlePoolSubscribe (\<lambda>_. False) (\<lambda>_ s. s) (Some rid) w_socket w_claimed = (Inr snap, [EmitPoolSnapshot snap], k', w_claimed)
     \<and> snapshot_message snap = PoolSnapshotMsg rid (Some 3) 1 ClosedTimeout"
proof -
  have "isPoolMember w_claimed rid pas" by (simp add: isPoolMember_def) (simp add: w_shared)
  moreover obtain snap where "poolSnapshot w_claimed rid pas = Some snap"
    by (simp add: poolSnapshot_def) (simp add: w_shared)
  moreover from snapshot_row [OF this] have "reports rid [snapshot_message snap] = [(3, 1, ClosedTimeout)]" using w_rows by auto
  then have "snapshot_message snap = PoolSnapshotMsg rid (Some 3) 1 ClosedTimeout" by (auto simp: snapshot_message_def split: if_splits)
  ultimately show ?thesis by (simp add: handlePoolSubscribe_def Let_def)
qed

lemma subscriber_converges_witness:
  "\<exists>snap. bs_poolStatus (cl_booking (on_messages [w_started_msg, snapshot_message snap] w_client)) = Some ClosedStarted"
proof -
  let ?H = "[w_claimed, w_started]"
  obtain snap k' where s: "handlePoolSubscribe (\<lambda>_. False) (\<lambda>_ s. s) (Some rid) w_socket w_claimed = (Inr snap, [EmitPoolSnapshot snap], k', ?H ! 0)"
      "snapshot_message snap = PoolSnapshotMsg rid (Some 3) 1 ClosedTimeout"
    using w_subscribe by auto
  obtain p where p: "pool_row w_started rid = Some p" "report_of p = (5, 1, ClosedStarted)" using w_rows by blast
  have msg: "update_message (poolUpdatePayload p) = w_started_msg"
    using p row_key [OF p(1)] by (simp add: update_message_def poolUpdatePayload_def report_of_def)
  have h: "honest ?H rid (PoolSnapshotMsg rid (Some 3) 1 ClosedTimeout)" using w_honest(1) by (simp add: honest_def)
  have "cl_pool w_client = gate_follow rid createVersionGate" "bs_sharedRideId (cl_booking w_client) = Some rid"
    by (simp_all add: setOpened_def)
  from subscriber_converges [OF w_history _ s(1) _ _ _ this, of "[w_started_msg, snapshot_message snap]"]
  obtain q where "pool_row w_started rid = Some q"
      "bs_poolStatus (cl_booking (on_messages [w_started_msg, snapshot_message snap] w_client)) = Some (p_poolState q)"
    using h w_honest(2) p(1) msg s(2) by (fastforce simp: publishPoolUpdate_def poolUpdate_def less_Suc_eq)
  then show ?thesis using p by (auto simp: report_of_def)
qed

section \<open>Sockets\<close>

lemma pool_snapshot_private:
  assumes "poolSnapshot s i u = Some snap"
  shows "isPoolMember s i u \<and> (\<forall>x \<in> set (ps_itinerary snap). \<forall>pt. mi_place x = Some pt \<longrightarrow>
      (\<exists>y \<in> set (ride_stops s). s_rideId y = i \<and> s_passengerId y = u \<and> pt = (s_lat y, s_lng y)))"
proof -
  obtain p m where p: "pool_row s i = Some p" "find (\<lambda>m. m_poolId m = i \<and> m_passengerId m = u) (pool_members s) = Some m" "isUuid i" "isUuid u"
    using assms by (auto simp: poolSnapshot_def split: if_splits option.splits)
  then have "ps_itinerary snap = map (member_stop_of u) (findByRideId s i)"
    using assms by (auto simp: poolSnapshot_def poolUpdatePayload_def pool_update.defs)
  moreover have "list_ex (\<lambda>m. m_poolId m = i \<and> m_passengerId m = u) (pool_members s)"
    using p(2) by (metis (mono_tags, lifting) find_None_iff list_ex_iff option.distinct(1))
  ultimately show ?thesis using p by (auto simp: isPoolMember_def member_stop_of_def findByRideId_def Let_def split: if_splits)
qed

lemma ride_snapshot_private: "rideSnapshot s i u = Some snap \<Longrightarrow> isRideParty s i u \<and> rv_rideId snap = i"
  by (auto simp: rideSnapshot_def isRideParty_def ride_view_def list_ex_iff dest!: row_SomeD split: if_splits option.splits)

text \<open>C31: A socket joins the rooms of a trip and receives its snapshot only as a party of it; the
  coordinates of other passengers' stops are withheld.\<close>

lemma sockets_see_only_their_trips:
  "(handlePoolSubscribe fails gap p k s = (pool_res, pool_ev, ka, sa) \<longrightarrow>
      (so_rooms ka \<subseteq> so_rooms k \<or> (\<exists>i u role. p = Some i \<and> so_user k = Some (u, role) \<and> isPoolMember s i u
          \<and> so_rooms ka = so_rooms k \<union> {PoolRoom i, RideRoom i}))
      \<and> (\<forall>snap. pool_res = Inr snap \<longrightarrow> (\<exists>i u role. p = Some i \<and> so_user k = Some (u, role) \<and> isPoolMember sa i u
          \<and> (\<forall>x \<in> set (ps_itinerary snap). \<forall>pt. mi_place x = Some pt \<longrightarrow>
               (\<exists>y \<in> set (ride_stops sa). s_rideId y = i \<and> s_passengerId y = u \<and> pt = (s_lat y, s_lng y))))))
   \<and> (handleRideSubscribe fails gap p k s = (ride_res, ride_ev, kb, sb) \<longrightarrow>
      (so_rooms kb \<subseteq> so_rooms k \<or> (\<exists>i u role. p = Some i \<and> so_user k = Some (u, role) \<and> isRideParty s i u
          \<and> so_rooms kb = so_rooms k \<union> {RideRoom i}))
      \<and> (\<forall>snap. ride_res = Inr snap \<longrightarrow> (\<exists>i u role. p = Some i \<and> so_user k = Some (u, role) \<and> isRideParty sb i u \<and> rv_rideId snap = i)))"
  using pool_snapshot_private ride_snapshot_private
  by (fastforce simp: handlePoolSubscribe_def handleRideSubscribe_def Let_def split: option.splits prod.splits if_splits)

lemma sockets_see_only_their_trips_witness:
  "\<exists>snap k' ev. handlePoolSubscribe (\<lambda>_. False) (\<lambda>_ s. s) (Some rid) w_socket w_claimed = (Inr snap, ev, k', w_claimed)
     \<and> isPoolMember w_claimed rid pas \<and> so_rooms k' \<subseteq> {PoolRoom rid, RideRoom rid}"
proof -
  obtain snap k' where s: "handlePoolSubscribe (\<lambda>_. False) (\<lambda>_ s. s) (Some rid) w_socket w_claimed = (Inr snap, [EmitPoolSnapshot snap], k', w_claimed)"
    using w_subscribe by blast
  have "isPoolMember w_claimed rid pas \<and> so_rooms k' \<subseteq> {PoolRoom rid, RideRoom rid}"
    using sockets_see_only_their_trips [THEN conjunct1, THEN mp, OF s] by auto
  then show ?thesis using s by blast
qed

text \<open>A driver who synchronizes is shown a trip exactly when it is an active trip the driver has claimed.\<close>

lemma driver_sync_is_the_claim:
  assumes "reach db_init db_step s" "handleDriverSync False k s = Inr (d, v)" "isUuid d"
  shows "so_user k = Some (d, RoleDriver)
    \<and> (\<forall>t. (\<exists>a. v = Some a \<and> view_trip a = t) \<longleftrightarrow> trip_driver s t = Some d)"
proof -
  have v: "v = driverAssignment s d" "so_user k = Some (d, RoleDriver)"
    using assms(2) by (auto simp: handleDriverSync_def socket_driver_def split: option.splits user_role.splits)
  have "(\<exists>a. v = Some a \<and> view_trip a = t) \<longleftrightarrow> trip_driver s t = Some d" for t
  proof
    assume "\<exists>a. v = Some a \<and> view_trip a = t"
    then have "\<exists>a. findByDriver s d = Some a \<and> a_trip a = t"
      using assms(3) by (auto simp: v(1) driverAssignment_def solo_view_of_def Let_def dest: row_key split: option.splits trip_ref.splits)
    then show "trip_driver s t = Some d" using driver_guard [OF assms(1)] by blast
  next
    assume t: "trip_driver s t = Some d"
    then obtain a where "findByDriver s d = Some a" "a_trip a = t" using driver_guard [OF assms(1)] by blast
    then show "\<exists>a. v = Some a \<and> view_trip a = t"
      using claimed_trip_row [OF t] assms(3) by (auto simp: v(1) driverAssignment_def solo_view_of_def Let_def split: trip_ref.splits)
  qed
  then show ?thesis using v(2) by blast
qed

abbreviation w_driver_socket :: socket where
  "w_driver_socket \<equiv> \<lparr>so_user = Some (drv, RoleDriver), so_rooms = {}\<rparr>"

section \<open>Projections\<close>

text \<open>After a projection pass with nothing else running, the current ride of every driver whose presence
  hash was scanned, or who holds a guard, is the trip of the guard.\<close>

lemma projection_reconciles:
  assumes "reach db_init db_step s" "reconcile_projection keys locked ct quiet_gap (s, r) = (rep, s', r')"
    and "isUuid d" "rd_drivers r d \<noteq> None" "d \<in> set keys \<or> findByDriver s d \<noteq> None"
  shows "current_ride r' d = map_option (\<lambda>a. tripId (a_trip a)) (findByDriver s' d)
    \<and> assignments s' = assignments s \<and> (\<forall>e. rd_drivers r' e = None \<longleftrightarrow> rd_drivers r e = None)"
proof -
  obtain expired s1 where e: "expireLapsed locked ct s = (expired, s1)" by fastforce
  have same: "assignments s1 = assignments s" using expireLapsed_guard [of locked ct s] by (simp add: e)
  have keys: "guard_keys s1" using guard_row(1) [OF assms(1)] same by (simp add: guard_keys_def)
  let ?gs = "expected_rides s1"
  obtain m w2 l w3 where p: "project_guards ?gs quiet_gap 1 (s1, r) = (m, w2)"
    and c: "clear_stale (map_of (rev ?gs)) keys quiet_gap (1 + 3 * length ?gs) w2 = (l, w3)" "w3 = (s', r')"
    using assms(2) by (auto simp: reconcile_projection_def e Let_def split: prod.splits)
  have dist: "distinct (map fst ?gs)" using keys by (simp add: expected_rides_def listAll_def guard_keys_def comp_def)
  have want: "map_of (rev ?gs) = map_of ?gs" by (rule map_of_rev [OF dist])
  obtain r2 where w2: "w2 = (s1, r2)" "\<forall>e. rd_drivers r2 e = None \<longleftrightarrow> rd_drivers r e = None"
      "\<forall>e. current_ride r2 e = (case map_of ?gs e of Some t \<Rightarrow> if isUuid e \<and> rd_drivers r e \<noteq> None then Some t else current_ride r e
        | None \<Rightarrow> current_ride r e)"
    using project_guards_quiet [OF dist guard_still [OF keys] p] by (cases w2) auto
  have want_still: "stillAssigned d' t s1 \<longrightarrow> map_of (rev ?gs) d' = Some t" for d' t
    by (auto simp: want want_is_guard stillAssigned_def split: option.splits)
  have w3: "s' = s1" "\<forall>e. rd_drivers r' e = None \<longleftrightarrow> rd_drivers r2 e = None"
      "\<forall>e. current_ride r' e = (if e \<in> set keys \<and> current_ride r2 e \<noteq> map_of (rev ?gs) e then None else current_ride r2 e)"
    using clear_stale_quiet [OF want_still c(1) [unfolded w2(1)]] c(2) by auto
  have g: "map_of ?gs d = map_option (\<lambda>a. tripId (a_trip a)) (findByDriver s1 d)" by (rule want_is_guard)
  have "findByDriver s1 d = findByDriver s d" using same by (simp add: findByDriver_def)
  then have scanned: "map_of ?gs d = None \<Longrightarrow> d \<in> set keys" using assms(5) g by auto
  have "current_ride r' d = map_of ?gs d"
  proof (cases "map_of ?gs d")
    case None
    then show ?thesis using w3(3) [rule_format, of d] scanned unfolding want by (simp split: if_splits)
  next
    case (Some t)
    then have "current_ride r2 d = Some t" using w2(3) [rule_format, of d] assms(3,4) by simp
    then show ?thesis using w3(3) [rule_format, of d] Some unfolding want by simp
  qed
  then show ?thesis using g w3(1,2) w2(2) same by simp
qed

text \<open>C32: The pool hash in Redis, written by any projections of committed rows in any order within its
  lifetime of ten minutes, holds the newest of them.\<close>

lemma pool_hash_is_newest:
  assumes "\<forall>w \<in> set ws. committed_pool H i (fst w)" "rd_pools r i = None" "(p, now) \<in> set ws"
    and "\<forall>w \<in> set ws. p_stateVersion (fst w) \<le> p_stateVersion p"
    and "within_ttl t ws"
  shows "\<exists>h. rd_pools (write_all ws r) i = Some h \<and> ph_version h = p_stateVersion p \<and> ph_state h = p_poolState p
    \<and> ph_seatCount h = p_seatCount p \<and> ph_maxSeats h = p_maxSeats p \<and> ph_claimedBy h = p_claimedByDriverId p"
proof -
  have "newest p_stateVersion (map fst ws) = Some p"
    by (rule pool_rows.newest_is [of _ H i]) (use assms(1,3,4) in \<open>force simp: image_iff\<close>)+
  then show ?thesis using hash_newest [OF assms(1,2,5)] by (auto simp: hash_shows_def split: option.splits)
qed

lemma pool_hash_is_newest_witness:
  "\<exists>p h. pool_row w_started rid = Some p \<and> p_poolState p = ClosedStarted
    \<and> rd_pools (write_all [(p, 3), (w_claimed_pool, 4)] \<lparr>rd_geo = Map.empty, rd_drivers = Map.empty, rd_pools = Map.empty\<rparr>) rid = Some h
    \<and> ph_state h = ClosedStarted"
proof -
  obtain p where p: "pool_row w_started rid = Some p" "report_of p = (5, 1, ClosedStarted)" using w_rows by blast
  have v: "p_stateVersion w_claimed_pool = 3" "p_stateVersion p = 5" "p_poolState p = ClosedStarted"
    using w_rows(2) p(2) by (simp_all add: report_of_def)
  have "committed_pool [w_claimed, w_started] rid p" "committed_pool [w_claimed, w_started] rid w_claimed_pool"
    using w_history p w_rows(1) by (auto simp: committed_pool_def)
  then obtain h where "rd_pools (write_all [(p, 3), (w_claimed_pool, 4)] \<lparr>rd_geo = Map.empty, rd_drivers = Map.empty, rd_pools = Map.empty\<rparr>) rid = Some h"
      "ph_state h = ClosedStarted"
    using pool_hash_is_newest [of "[(p, 3), (w_claimed_pool, 4)]" "[w_claimed, w_started]" rid
      "\<lparr>rd_geo = Map.empty, rd_drivers = Map.empty, rd_pools = Map.empty\<rparr>" p 3 0] v by (auto simp: within_ttl_def POOL_HASH_TTL_SECONDS_def)
  then show ?thesis using p(1) v(3) by blast
qed

end
