(* ===== verification/Rides_Controller.thy ===== *)
theory Rides_Controller
  imports Tokens Matching
begin

text \<open>
  The ride endpoints (\<open>RidesController\<close>, rides.controller.ts): quoting, the three booking flows with their
  idempotency keys, reading a ride and its stops, advancing and cancelling a solo ride. \<open>sv_gap n\<close> is what
  other sessions commit before the \<open>n\<close>-th statement of a request; the caller is the verified access token.
\<close>

section \<open>Requests, responses, errors\<close>

datatype ride_kind = KindNormal | KindShared | KindScheduled

text \<open>\<open>CreateRideDto\<close>; an empty token or time counts as absent, and the time comes with what \<open>new Date\<close> reads.\<close>

record 't create_dto =
  cd_type :: ride_kind
  cd_originLat :: real
  cd_originLng :: real
  cd_destLat :: real
  cd_destLng :: real
  cd_quoteToken :: "'t option"
  cd_scheduledFor :: "(string \<times> instant option) option"

definition dto_intent :: "'t create_dto \<Rightarrow> fingerprint_input" where
  "dto_intent d = \<lparr>fi_originLat = cd_originLat d, fi_originLng = cd_originLng d, fi_destLat = cd_destLat d,
     fi_destLng = cd_destLng d, fi_scheduledFor = cd_scheduledFor d\<rparr>"

datatype api_error =
    Http http_error
  | Fare_unavailable uuid
  | Pricing_failed pricing_error
  | Route_failed route_error
  | Match_failed match_error
  | Db_failed db_error

record solo_response =
  bk_rideId :: uuid
  bk_passengerId :: uuid
  bk_status :: ride_status
  bk_fare :: money

datatype booking_effect = KickOutbox | JoinRoom uuid uuid | DropWake uuid | RideEffect ride_effect | PoolEffect pool_effect

definition soloResponse :: "ride \<Rightarrow> solo_response" where
  "soloResponse r = \<lparr>bk_rideId = r_id r, bk_passengerId = r_passengerId r, bk_status = r_status r,
     bk_fare = \<lparr>mo_amount = r_fareCents r, mo_currency = INR\<rparr>\<rparr>"

text \<open>A seat without an agreed fare predates the column; no price, no success.\<close>

definition seatResponse :: "uuid \<Rightarrow> seat_lookup \<Rightarrow> api_error + seat_response" where
  "seatResponse pid seat =
     (case sl_agreedFareCents seat of
        None \<Rightarrow> Inl (Fare_unavailable (sl_poolId seat))
      | Some fare \<Rightarrow> Inr \<lparr>sr_sharedRideId = sl_poolId seat, sr_passengerId = pid,
          sr_mode = (if sl_opened seat then SeatOpened else SeatSlotted), sr_poolStatus = sl_poolState seat,
          sr_perSeatPrice = fare, sr_seatMultiplier = None, sr_detourFactor = None\<rparr>)"

definition toResponse :: "uuid \<Rightarrow> seat_outcome \<Rightarrow> seat_response" where
  "toResponse pid m = \<lparr>sr_sharedRideId = so_sharedRideId m, sr_passengerId = pid, sr_mode = so_mode m,
     sr_poolStatus = so_poolStatus m, sr_perSeatPrice = sq_perSeatPrice (so_quote m),
     sr_seatMultiplier = Some (sq_seatMultiplier (so_quote m)), sr_detourFactor = Some (sq_detourFactor (so_quote m))\<rparr>"

section \<open>Quote\<close>

definition SHARED_QUOTE_SEATS :: int where
  "SHARED_QUOTE_SEATS = 2"

definition getRouteGeometry ::
  "(coord list \<Rightarrow> coord list option) \<Rightarrow> route_spec \<Rightarrow> poly_cache \<Rightarrow> (route_error + coord list) \<times> poly_cache" where
  "getRouteGeometry geo route cache = getPolyline geo route cache"

record shared_estimate =
  se_perSeatPrice :: int
  se_seatMultiplier :: real
  se_detourFactor :: real
  se_seatCount :: int

record 't quote_response =
  qr_type :: ride_kind
  qr_distanceM :: real
  qr_durationS :: real
  qr_soloFare :: money
  qr_geometry :: "coord list"
  qr_quoteToken :: 't
  qr_sharedEstimate :: "shared_estimate option"

definition quote_of :: "route_spec \<Rightarrow> money \<Rightarrow> real \<Rightarrow> real \<Rightarrow> quote_claims" where
  "quote_of route fare d t = \<lparr>qc_originLat = rs_originLat route, qc_originLng = rs_originLng route,
     qc_destLat = rs_destLat route, qc_destLng = rs_destLng route, qc_soloFareCents = mo_amount fare,
     qc_distanceM = d, qc_durationS = t\<rparr>"

definition sharedEstimate :: "shared_params \<Rightarrow> ride_kind \<Rightarrow> money \<Rightarrow> real \<Rightarrow> pricing_error + shared_estimate option" where
  "sharedEstimate sp ty fare d =
     (if ty \<noteq> KindShared then Inr None
      else case quoteSeatFromMetrics sp fare SHARED_QUOTE_SEATS d d of
          Inl e \<Rightarrow> Inl e
        | Inr q \<Rightarrow> Inr (Some \<lparr>se_perSeatPrice = sq_perSeatPrice q, se_seatMultiplier = seatMultiplierFor sp SHARED_QUOTE_SEATS,
            se_detourFactor = sq_detourFactor q, se_seatCount = SHARED_QUOTE_SEATS\<rparr>))"

text \<open>
  Fare and geometry are fetched at once; when both fail the request reports the one that failed first.
  A priced route has finite metrics.
\<close>

definition quote_ride ::
  "fare_params \<Rightarrow> shared_params \<Rightarrow> osrm \<Rightarrow> (coord list \<Rightarrow> coord list option) \<Rightarrow> 't jwt \<Rightarrow> access_claims \<Rightarrow> ride_kind
   \<Rightarrow> route_spec \<Rightarrow> instant \<Rightarrow> bool \<Rightarrow> price_cache \<times> poly_cache \<Rightarrow> (api_error + 't quote_response) \<times> (price_cache \<times> poly_cache)" where
  "quote_ride fp sp osrm geo j user ty route clk fareFirst caches =
     (if ac_role user \<noteq> RoleClient then (Inl (Http (Forbidden_error ''forbidden'')), caches)
      else case (quoteSolo fp osrm route (fst caches), getRouteGeometry geo route (snd caches)) of
        ((solo, prices), (geometry, polys)) \<Rightarrow>
          (case (solo, geometry) of
             (Inl e, Inr _) \<Rightarrow> Inl (Pricing_failed e)
           | (Inr _, Inl e) \<Rightarrow> Inl (Route_failed e)
           | (Inl e, Inl e') \<Rightarrow> Inl (if fareFirst then Pricing_failed e else Route_failed e')
           | (Inr (fare, m), Inr coords) \<Rightarrow>
               (case (rm_distanceM m, rm_durationS m) of
                  (Fin d, Fin t) \<Rightarrow>
                    (case sharedEstimate sp ty fare d of
                       Inl e \<Rightarrow> Inl (Pricing_failed e)
                     | Inr est \<Rightarrow> Inr \<lparr>qr_type = ty, qr_distanceM = d, qr_durationS = t, qr_soloFare = fare, qr_geometry = coords,
                         qr_quoteToken = sign_quote j (quote_of route fare d t) clk, qr_sharedEstimate = est\<rparr>)
                | _ \<Rightarrow> Inl (Pricing_failed Non_finite)),
           (prices, polys)))"

section \<open>Solo and scheduled bookings\<close>

definition coordsMatch :: "quote_claims \<Rightarrow> 't create_dto \<Rightarrow> bool" where
  "coordsMatch c d =
     (let eps = 1 / 10 ^ 6 in
        \<bar>qc_originLat c - cd_originLat d\<bar> < eps \<and> \<bar>qc_originLng c - cd_originLng d\<bar> < eps
        \<and> \<bar>qc_destLat c - cd_destLat d\<bar> < eps \<and> \<bar>qc_destLng c - cd_destLng d\<bar> < eps)"

text \<open>A body of another shape has no coordinates, so its comparisons with \<open>NaN\<close> fail.\<close>

definition verifyQuote :: "'t jwt \<Rightarrow> 't create_dto \<Rightarrow> instant \<Rightarrow> http_error + quote_claims" where
  "verifyQuote j d clk =
     (case cd_quoteToken d of
        None \<Rightarrow> Inl (Bad_request ''invalid_quote'')
      | Some tok \<Rightarrow>
          (case verify_quote j tok clk of
             Inl TokenExpiredError \<Rightarrow> Inl (Bad_request ''quote_expired'')
           | Inl JsonWebTokenError \<Rightarrow> Inl (Bad_request ''invalid_quote'')
           | Inr None \<Rightarrow> Inl (Bad_request ''quote_mismatch'')
           | Inr (Some c) \<Rightarrow> if coordsMatch c d then Inr c else Inl (Bad_request ''quote_mismatch'')))"

definition key_conflict :: http_error where
  "key_conflict = Unprocessable ''idempotency_key_conflict''"

definition replaySolo :: "db \<Rightarrow> uuid \<Rightarrow> idem_operation \<Rightarrow> string \<Rightarrow> string \<Rightarrow> http_error + solo_response option" where
  "replaySolo s pid oper key fp =
     (case findByIdempotencyScope s pid oper key of
        None \<Rightarrow> Inr None
      | Some (r, stored) \<Rightarrow> if fingerprintMatches stored fp then Inr (Some (soloResponse r)) else Inl key_conflict)"

definition SCHEDULED_MIN_LEAD_MS :: int where
  "SCHEDULED_MIN_LEAD_MS = 15 * 60 * 1000"

definition SCHEDULED_MAX_LEAD_MS :: int where
  "SCHEDULED_MAX_LEAD_MS = 24 * 60 * 60 * 1000"

text \<open>The process clock, the database clock, the fresh ids, and other sessions between lookup and insert.\<close>

record booking_env =
  be_clk :: instant
  be_now :: instant
  be_rideId :: uuid
  be_xid :: uuid
  be_gap :: "db \<Rightarrow> db"

definition booking_params ::
  "uuid \<Rightarrow> 't create_dto \<Rightarrow> int \<Rightarrow> string \<Rightarrow> idem_operation \<Rightarrow> string \<Rightarrow> ride_type option \<Rightarrow> instant option \<Rightarrow> create_params" where
  "booking_params pid d fare key oper fp ty at_time =
     \<lparr>cp_passengerId = pid, cp_originLat = cd_originLat d, cp_originLng = cd_originLng d, cp_destLat = cd_destLat d,
      cp_destLng = cd_destLng d, cp_fareCents = fare, cp_idempotencyKey = key, cp_type = ty, cp_scheduledFor = at_time,
      cp_idempotencyOperation = Some oper, cp_requestFingerprint = Some fp\<rparr>"

text \<open>The tail both flows share: insert, or find who won the race; announce only a new ride.\<close>

definition book ::
  "booking_env \<Rightarrow> uuid \<Rightarrow> string \<Rightarrow> create_params \<Rightarrow> db \<Rightarrow> (api_error + solo_response \<times> booking_effect list) \<times> db" where
  "book e pid fp params s =
     (case create params (be_rideId e) (be_xid e) (be_now e) s of
        Inl err \<Rightarrow> (Inl (Db_failed err), s)
      | Inr ((r, created, stored), s') \<Rightarrow>
          if \<not> created \<and> \<not> fingerprintMatches stored fp then (Inl (Http key_conflict), s')
          else (Inr (soloResponse r, if created then [KickOutbox, JoinRoom pid (r_id r)] else []), s'))"

definition createNormal ::
  "'t jwt \<Rightarrow> (canonical \<Rightarrow> string) \<Rightarrow> booking_env \<Rightarrow> uuid \<Rightarrow> 't create_dto \<Rightarrow> string option \<Rightarrow> db
   \<Rightarrow> (api_error + solo_response \<times> booking_effect list) \<times> db" where
  "createNormal j sha e pid d rawKey s =
     (case parseIdempotencyKey rawKey True of
        Inl err \<Rightarrow> (Inl (Http err), s)
      | Inr None \<Rightarrow> (Inl (Http (Bad_request ''idempotency_key_required'')), s)
      | Inr (Some key) \<Rightarrow>
          if cd_quoteToken d = None then (Inl (Http (Bad_request ''invalid_quote'')), s)
          else let fp = requestFingerprint sha OpSolo (dto_intent d) in
            (case replaySolo s pid OpSolo key fp of
               Inl err \<Rightarrow> (Inl (Http err), s)
             | Inr (Some r) \<Rightarrow> (Inr (r, []), s)
             | Inr None \<Rightarrow>
                 (case verifyQuote j d (be_clk e) of
                    Inl err \<Rightarrow> (Inl (Http err), s)
                  | Inr c \<Rightarrow> book e pid fp (booking_params pid d (qc_soloFareCents c) key OpSolo fp None None) (be_gap e s))))"

definition in_window :: "instant \<Rightarrow> instant option \<Rightarrow> bool" where
  "in_window clk t =
     (case t of None \<Rightarrow> False | Some at_time \<Rightarrow> SCHEDULED_MIN_LEAD_MS \<le> at_time - clk \<and> at_time - clk \<le> SCHEDULED_MAX_LEAD_MS)"

definition createScheduled ::
  "'t jwt \<Rightarrow> (canonical \<Rightarrow> string) \<Rightarrow> booking_env \<Rightarrow> uuid \<Rightarrow> 't create_dto \<Rightarrow> string option \<Rightarrow> db
   \<Rightarrow> (api_error + solo_response \<times> booking_effect list) \<times> db" where
  "createScheduled j sha e pid d rawKey s =
     (case parseIdempotencyKey rawKey True of
        Inl err \<Rightarrow> (Inl (Http err), s)
      | Inr None \<Rightarrow> (Inl (Http (Bad_request ''idempotency_key_required'')), s)
      | Inr (Some key) \<Rightarrow>
          if cd_quoteToken d = None then (Inl (Http (Bad_request ''invalid_quote'')), s)
          else
            (case cd_scheduledFor d of
               None \<Rightarrow> (Inl (Http (Bad_request ''scheduled_for_required'')), s)
             | Some (txt, t) \<Rightarrow>
                 let fp = requestFingerprint sha OpScheduled (dto_intent d) in
                 (case replaySolo s pid OpScheduled key fp of
                    Inl err \<Rightarrow> (Inl (Http err), s)
                  | Inr (Some r) \<Rightarrow> (Inr (r, []), s)
                  | Inr None \<Rightarrow>
                      if \<not> in_window (be_clk e) t then (Inl (Http (Bad_request ''scheduled_for_out_of_window'')), s)
                      else
                        (case verifyQuote j d (be_clk e) of
                           Inl err \<Rightarrow> (Inl (Http err), s)
                         | Inr c \<Rightarrow> book e pid fp
                             (booking_params pid d (qc_soloFareCents c) key OpScheduled fp (Some Scheduled) t) (be_gap e s)))))"

section \<open>Shared bookings\<close>

text \<open>
  Everything a shared booking takes from outside: configuration, OSRM and caches, clocks and ids, other
  sessions, which tries of recording a result fail, and whether the release of a claim fails.
\<close>

record seat_env =
  sv_fare :: fare_params
  sv_shared :: shared_params
  sv_osrm :: osrm
  sv_prices :: price_cache
  sv_score :: scorer
  sv_match :: match_config
  sv_near :: "shared_ride \<Rightarrow> bool"
  sv_joinedAt :: instant
  sv_poolId :: uuid
  sv_timeoutMs :: int
  sv_tx :: "nat \<Rightarrow> tx_env"
  sv_between :: "nat \<Rightarrow> db \<Rightarrow> db"
  sv_gap :: "nat \<Rightarrow> db \<Rightarrow> db"
  sv_clk :: instant
  sv_now :: instant
  sv_recordFails :: "nat \<Rightarrow> bool"
  sv_releaseFails :: bool

text \<open>Three tries; a failure leaves the claim pending for the next reclaim.\<close>

fun completeClaim :: "seat_env \<Rightarrow> nat list \<Rightarrow> idem_scope \<Rightarrow> seat_response \<Rightarrow> db \<Rightarrow> db" where
  "completeClaim e [] sc resp s = s"
| "completeClaim e (n # ns) sc resp s =
     (let s1 = sv_gap e (10 + n) s in
        if sv_recordFails e n then completeClaim e ns sc resp s1
        else completeIn sc (sr_sharedRideId resp) resp (sv_clk e) s1)"

definition existingSharedSeat :: "seat_env \<Rightarrow> uuid \<Rightarrow> idem_scope \<Rightarrow> db \<Rightarrow> (api_error + seat_response option) \<times> db" where
  "existingSharedSeat e pid sc s =
     (let s1 = sv_gap e 2 s in
      case Option.bind (find_claim sc s1) (\<lambda>r. if i_state r = IdemCompleted then i_response r else None) of
        Some resp \<Rightarrow> (Inr (Some resp), s1)
      | None \<Rightarrow>
          let s2 = sv_gap e 3 s1 in
          (case findSeatByIdempotencyKey s2 pid (sc_key sc) of
             None \<Rightarrow> (Inr None, s2)
           | Some seat \<Rightarrow>
               (case seatResponse pid seat of
                  Inl err \<Rightarrow> (Inl err, s2)
                | Inr resp \<Rightarrow> (Inr (Some resp), completeClaim e [0, 1, 2] sc resp s2))))"

definition dto_request :: "uuid \<Rightarrow> 't create_dto \<Rightarrow> shared_request" where
  "dto_request pid d = \<lparr>rq_passengerId = pid, rq_originLat = cd_originLat d, rq_originLng = cd_originLng d,
     rq_destLat = cd_destLat d, rq_destLng = cd_destLng d\<rparr>"

definition allocateSharedSeat ::
  "seat_env \<Rightarrow> uuid \<Rightarrow> 't create_dto \<Rightarrow> idem_scope option \<Rightarrow> db \<Rightarrow> (api_error + seat_response \<times> booking_effect list) \<times> db" where
  "allocateSharedSeat e pid d scope s =
     (case findOrCreatePool (sv_score e) (sv_match e) (sv_near e) (dto_request pid d) (sv_joinedAt e) (sv_poolId e)
             (sv_timeoutMs e) (seat_quoter (sv_fare e) (sv_shared e) (sv_osrm e) (sv_prices e))
             (map_option (\<lambda>sc. (sc, toResponse pid)) scope) (sv_tx e) (sv_between e) s of
        (Inl err, s') \<Rightarrow> (Inl (Match_failed err), s')
      | (Inr (MatchSeat m, eff), s') \<Rightarrow> (Inr (toResponse pid m, map PoolEffect eff), s')
      | (Inr (MatchExisting reason i, _), s') \<Rightarrow>
          (case (case scope of
                   Some sc \<Rightarrow> if reason = ExistingReplay then existingSharedSeat e pid sc s' else (Inr None, s')
                 | None \<Rightarrow> (Inr None, s')) of
             (Inl err, s2) \<Rightarrow> (Inl err, s2)
           | (Inr (Some resp), s2) \<Rightarrow> (Inr (resp, []), s2)
           | (Inr None, s2) \<Rightarrow>
               let s3 = sv_gap e 4 s2 in
               (case findSeat s3 i pid of
                  None \<Rightarrow> (Inl (Http (Conflict_error ''pool_conflict'')), s3)
                | Some seat \<Rightarrow> (map_sum id (\<lambda>r. (r, [])) (seatResponse pid seat), s3)))
      | (Inr (MatchConflict ConflictActivePool _, _), s') \<Rightarrow> (Inl (Http (Conflict_error ''passenger_has_active_pool'')), s')
      | (Inr (MatchConflict ConflictRetries _, _), s') \<Rightarrow> (Inl (Http (Conflict_error ''pool_conflict'')), s'))"

text \<open>Free the key when the attempt fails; a failing release is only logged.\<close>

definition release_after :: "seat_env \<Rightarrow> idem_scope \<Rightarrow> (api_error + 'a) \<times> db \<Rightarrow> (api_error + 'a) \<times> db" where
  "release_after e sc r =
     (case r of
        (Inr x, s) \<Rightarrow> (Inr x, s)
      | (Inl err, s) \<Rightarrow> (Inl err, if sv_releaseFails e then s else release_claim sc (sv_gap e 5 s)))"

definition seat_scope :: "uuid \<Rightarrow> string \<Rightarrow> idem_scope" where
  "seat_scope pid key = \<lparr>sc_principalId = pid, sc_operation = OpShared, sc_key = key\<rparr>"

definition createShared ::
  "(canonical \<Rightarrow> string) \<Rightarrow> seat_env \<Rightarrow> uuid \<Rightarrow> 't create_dto \<Rightarrow> string option \<Rightarrow> db
   \<Rightarrow> (api_error + seat_response \<times> booking_effect list) \<times> db" where
  "createShared sha e pid d rawKey s =
     (case parseIdempotencyKey rawKey False of
        Inl err \<Rightarrow> (Inl (Http err), s)
      | Inr None \<Rightarrow> allocateSharedSeat e pid d None s
      | Inr (Some key) \<Rightarrow>
          let sc = seat_scope pid key; fp = requestFingerprint sha OpShared (dto_intent d) in
          (case claim sc fp (sv_clk e) (sv_now e) (sv_gap e 0) (sv_gap e 1) s of
             Inl err \<Rightarrow> (Inl (Db_failed err), s)
           | Inr (Existing stored st _ resp, s1) \<Rightarrow>
               if stored \<noteq> fp then (Inl (Http key_conflict), s1)
               else (case (st, resp) of
                       (IdemCompleted, Some r) \<Rightarrow> (Inr (r, []), s1)
                     | _ \<Rightarrow> (Inl (Http (Conflict_error ''idempotency_request_in_progress'')), s1))
           | Inr (Claimed, s1) \<Rightarrow> release_after e sc (allocateSharedSeat e pid d (Some sc) s1)
           | Inr (Reclaimed _, s1) \<Rightarrow>
               release_after e sc
                 (case existingSharedSeat e pid sc s1 of
                    (Inl err, s2) \<Rightarrow> (Inl err, s2)
                  | (Inr (Some resp), s2) \<Rightarrow> (Inr (resp, []), s2)
                  | (Inr None, s2) \<Rightarrow> allocateSharedSeat e pid d (Some sc) s2)))"

section \<open>The booking endpoint\<close>

datatype booking_answer = SoloBooked solo_response | SeatBooked seat_response

definition create_ride ::
  "'t jwt \<Rightarrow> (canonical \<Rightarrow> string) \<Rightarrow> booking_env \<Rightarrow> seat_env \<Rightarrow> access_claims \<Rightarrow> 't create_dto \<Rightarrow> string option \<Rightarrow> db
   \<Rightarrow> (api_error + booking_answer \<times> booking_effect list) \<times> db" where
  "create_ride j sha be se user d rawKey s =
     (if ac_role user \<noteq> RoleClient then (Inl (Http (Forbidden_error ''forbidden'')), s)
      else case cd_type d of
          KindNormal \<Rightarrow> map_prod (map_sum id (map_prod SoloBooked id)) id (createNormal j sha be (ac_sub user) d rawKey s)
        | KindScheduled \<Rightarrow> map_prod (map_sum id (map_prod SoloBooked id)) id (createScheduled j sha be (ac_sub user) d rawKey s)
        | KindShared \<Rightarrow> map_prod (map_sum id (map_prod SeatBooked id)) id (createShared sha se (ac_sub user) d rawKey s))"

section \<open>Reading\<close>

record stop_view =
  vw_sequenceIndex :: int
  vw_passengerId :: uuid
  vw_type :: stop_type
  vw_lat :: real
  vw_lng :: real
  vw_confirmed :: bool
  vw_confirmedAt :: "instant option"

definition stop_view_of :: "ride_stop \<Rightarrow> stop_view" where
  "stop_view_of x = \<lparr>vw_sequenceIndex = s_sequenceIndex x, vw_passengerId = s_passengerId x, vw_type = s_type x,
     vw_lat = s_lat x, vw_lng = s_lng x, vw_confirmed = (s_confirmedAt x \<noteq> None), vw_confirmedAt = s_confirmedAt x\<rparr>"

definition listStops :: "access_claims \<Rightarrow> uuid \<Rightarrow> db \<Rightarrow> http_error + pool_state \<times> stop_view list" where
  "listStops user i s =
     (case pool_row s i of
        None \<Rightarrow> Inl (Not_found_error ''ride_not_found'')
      | Some p \<Rightarrow>
          if ac_role user \<noteq> RoleDriver \<or> p_claimedByDriverId p \<noteq> Some (ac_sub user) then Inl (Forbidden_error ''forbidden'')
          else Inr (p_poolState p, map stop_view_of (findByRideId s i)))"

record ride_detail =
  dt_rideId :: uuid
  dt_passengerId :: uuid
  dt_driverId :: "uuid option"
  dt_status :: ride_status
  dt_fare :: money
  dt_origin :: "real \<times> real"
  dt_dropoff :: "real \<times> real"
  dt_cancelledBy :: "actor option"
  dt_cancelReason :: "string option"
  dt_acceptedAt :: "instant option"
  dt_enRouteAt :: "instant option"
  dt_arrivedAt :: "instant option"
  dt_startedAt :: "instant option"
  dt_completedAt :: "instant option"
  dt_cancelledAt :: "instant option"

definition rideDetail :: "ride \<Rightarrow> ride_detail" where
  "rideDetail r = \<lparr>dt_rideId = r_id r, dt_passengerId = r_passengerId r, dt_driverId = r_driverId r, dt_status = r_status r,
     dt_fare = \<lparr>mo_amount = r_fareCents r, mo_currency = INR\<rparr>, dt_origin = (r_originLat r, r_originLng r),
     dt_dropoff = (r_destLat r, r_destLng r), dt_cancelledBy = r_cancelledBy r, dt_cancelReason = r_cancelReason r,
     dt_acceptedAt = r_acceptedAt r, dt_enRouteAt = r_enRouteAt r, dt_arrivedAt = r_arrivedAt r,
     dt_startedAt = r_startedAt r, dt_completedAt = r_completedAt r, dt_cancelledAt = r_cancelledAt r\<rparr>"

definition getRide :: "access_claims \<Rightarrow> uuid \<Rightarrow> db \<Rightarrow> http_error + ride_detail" where
  "getRide user i s =
     (case findById s i of
        None \<Rightarrow> Inl (Not_found_error ''ride_not_found'')
      | Some r \<Rightarrow>
          let isPassenger = (ac_role user = RoleClient \<and> r_passengerId r = ac_sub user);
              isDriver = (ac_role user = RoleDriver \<and> r_driverId r = Some (ac_sub user))
          in if \<not> isPassenger \<and> \<not> isDriver then Inl (Forbidden_error ''forbidden'') else Inr (rideDetail r))"

section \<open>Advancing and cancelling\<close>

definition transition_reply :: "ride_error \<Rightarrow> http_error" where
  "transition_reply err =
     (case err of
        NotFound \<Rightarrow> Not_found_error ''ride_not_found''
      | NotOwner \<Rightarrow> Forbidden_error ''forbidden''
      | UnknownEvent \<Rightarrow> Bad_request ''invalid_event''
      | _ \<Rightarrow> Conflict_error ''invalid_transition'')"

definition transition_ride ::
  "access_claims \<Rightarrow> uuid \<Rightarrow> string \<Rightarrow> instant \<Rightarrow> db \<Rightarrow> (http_error + (uuid \<times> ride_status) \<times> booking_effect list) \<times> db" where
  "transition_ride user i ev clk s =
     (if ac_role user \<noteq> RoleDriver then (Inl (Forbidden_error ''forbidden''), s)
      else case applyEvent i (ac_sub user) ev clk s of
          ((Inl err, _), s') \<Rightarrow> (Inl (transition_reply err), s')
        | ((Inr r, eff), s') \<Rightarrow> (Inr ((r_id r, r_status r), map RideEffect eff), s'))"

definition cancel_reply :: "ride_error \<Rightarrow> http_error" where
  "cancel_reply err =
     (case err of
        NotFound \<Rightarrow> Not_found_error ''ride_not_found''
      | NotOwner \<Rightarrow> Forbidden_error ''forbidden''
      | NoShowTooEarly \<Rightarrow> Conflict_error ''no_show_too_early''
      | _ \<Rightarrow> Conflict_error ''invalid_transition'')"

record cancel_dto =
  cx_reason :: "string option"
  cx_noShow :: bool \<comment> \<open>\<open>event\<close> is \<open>mark_no_show\<close>\<close>

definition role_actor :: "user_role \<Rightarrow> actor option" where
  "role_actor r = (if r = RoleClient then Some ActorClient else if r = RoleDriver then Some ActorDriver else None)"

definition cancel_endpoint ::
  "access_claims \<Rightarrow> uuid \<Rightarrow> cancel_dto \<Rightarrow> int \<Rightarrow> instant \<Rightarrow> instant \<Rightarrow> db
   \<Rightarrow> (http_error + (uuid \<times> ride_status \<times> actor option) \<times> booking_effect list) \<times> db" where
  "cancel_endpoint user i d noShowWaitMs clk ct s =
     (case role_actor (ac_role user) of
        None \<Rightarrow> (Inl (Forbidden_error ''forbidden''), s)
      | Some who \<Rightarrow>
          if cx_noShow d \<and> who \<noteq> ActorDriver then (Inl (Forbidden_error ''forbidden''), s)
          else if who = ActorDriver \<and> \<not> cx_noShow d \<and> (cx_reason d = None \<or> cx_reason d = Some [])
          then (Inl (Bad_request ''reason_required''), s)
          else
            (case cancelService i who (ac_sub user) (cx_noShow d) (if cx_noShow d then Some ''no_show'' else cx_reason d)
                    noShowWaitMs clk ct s of
               ((Inl err, _), s') \<Rightarrow> (Inl (cancel_reply err), s')
             | ((Inr r, eff), s') \<Rightarrow>
                 (Inr ((r_id r, r_status r, r_cancelledBy r),
                    map RideEffect eff @ (if r_type r = Scheduled then [DropWake i] else [])), s')))"

section \<open>Realtime requests\<close>

text \<open>
  \<open>RidesRealtimeListener\<close> (rides-realtime.listener.ts): the first location packet after an accept starts the
  trip, and a subscription joins the caller to the room of its own ride only.
\<close>

definition onDriverFirstLocation :: "uuid \<Rightarrow> uuid \<Rightarrow> instant \<Rightarrow> db \<Rightarrow> ride_effect list \<times> db" where
  "onDriverFirstLocation i d clk s =
     (case applyEvent i d ''start_en_route'' clk s of ((_, eff), s') \<Rightarrow> (eff, s'))"

definition onRideSubscribe :: "uuid \<Rightarrow> uuid \<Rightarrow> db \<Rightarrow> booking_effect list" where
  "onRideSubscribe uid i s =
     (case findById s i of
        None \<Rightarrow> []
      | Some r \<Rightarrow> if r_passengerId r = uid \<or> r_driverId r = Some uid then [JoinRoom uid i] else [])"

end
