(* ===== verification/Booking_Facts.thy ===== *)
theory Booking_Facts
  imports Rides_Controller System
begin

text \<open>
  What a booking request does: every write is a transaction of the system, a seat is recorded under its
  key, a failed attempt leaves nothing, and a replay answers what was answered.
\<close>

section \<open>The claim a seat transaction completes\<close>

lemma claim_look_idem: "idem s' = idem s \<Longrightarrow> claim_look sc s' = claim_look sc s"
  by (simp add: claim_look_def find_claim_def)

definition finished :: "idem_scope \<Rightarrow> seat_response \<Rightarrow> (string \<times> seat_response option) option \<Rightarrow> (string \<times> seat_response option) option" where
  "finished sc resp = map_option (\<lambda>(fp, _). (fp, Some resp))"

lemma complete_seat_look:
  assumes "idem_ok s"
  shows "claim_look sc (complete_seat (Some (sc, f)) i out clk s) = finished sc (f out) (claim_look sc s)"
  using seat_claims.finish_look [OF assms, of sc i "f out" clk] by (simp add: complete_seat_def finished_def)

lemma join_tx_claim:
  assumes "join_tx i j quote (Some (sc, f)) xid now clk s = Inr (Inr c, s')" "idem_ok s"
  shows "claim_look sc s' = finished sc (f (slotted i c)) (claim_look sc s)"
  using assms(1)
proof (cases rule: join_tx_cases)
  case (seat pool q)
  have i: "p_rideId pool = i" using row_key [OF seat(1)] by simp
  from seat(5) show ?thesis
  proof (cases rule: seat_joiner_cases)
    case (seated p s1 g s2)
    have s1: "idem s1 = idem s" using insert_member_tables [OF seated(1)] by simp
    have s2: "idem s2 = idem s1"
      using seated(3) closeInTxn_tables by (cases "p_maxSeats pool \<le> p_seatCount p + 1") auto
    have "idem_ok s2" using assms(2) idem_ok_cong [of s2 s] by (simp add: s1 s2)
    moreover have "claim_look sc s2 = claim_look sc s" by (rule claim_look_idem) (simp add: s1 s2)
    moreover have "c = \<lparr>jn_closedFull = (g \<noteq> None), jn_seatCount = p_seatCount p + 1, jn_quote = q\<rparr>" using seated(4) by simp
    ultimately show ?thesis by (simp add: seated(5) complete_seat_look i slotted_def)
  qed simp
qed simp

lemma open_tx_claim:
  assumes "open_tx o_p i xid tmo quote (Some (sc, f)) now clk s = Inr (Inr c, s')" "idem_ok s"
  shows "claim_look sc s' = finished sc (f \<lparr>so_sharedRideId = i, so_mode = SeatOpened, so_poolStatus = PoolOpen,
     so_seatCount = on_seatCount c, so_quote = on_quote c\<rparr>) (claim_look sc s)"
  using assms(1)
proof (cases rule: open_tx_cases)
  case (opened s1 s2 s3 q b)
  note t = insertOpenPool_tables(1) [OF opened(1)] insert_member_tables [OF opened(3)] enqueue_tables [OF opened(4)]
  have s3: "idem s3 = idem s" by (simp add: t)
  have "idem_ok s3" using assms(2) idem_ok_cong [OF s3] by simp
  then show ?thesis using opened(5) by (simp add: opened(6) complete_seat_look claim_look_idem [OF s3])
qed simp

text \<open>The response stored with the seat is the one the request answers.\<close>

lemma match_claim:
  assumes "findOrCreatePool score mc near r t i tmo quote (Some (sc, toResponse pid)) env other s = (Inr (MatchSeat out, eff), s')"
    and "idem_ok s" "claim_look sc s = Some (fp, x)"
    and "\<And>n t. idem_ok t \<Longrightarrow> idem_ok (other n t) \<and> claim_look sc (other n t) = claim_look sc t"
  shows "claim_look sc s' = Some (fp, Some (toResponse pid out))"
proof -
  let ?P = "\<lambda>t. idem_ok t \<and> claim_look sc t = Some (fp, x)"
  have "?P s" using assms(2,3) by simp
  moreover have "\<And>n t. ?P t \<Longrightarrow> ?P (other n t)" using assms(4) by simp
  ultimately show ?thesis
  proof (rule match_cases_inv [where P = ?P, OF assms(1)])
    fix pool c xi now clk s1
    assume "out = slotted (p_rideId pool) c" "?P s1"
      "join_tx (p_rideId pool) (joiner_of r t) quote (Some (sc, toResponse pid)) xi now clk s1 = Inr (Inr c, s')"
    then show ?thesis using join_tx_claim [of "p_rideId pool"] by (simp add: finished_def)
  next
    fix c o_p xi now clk s1
    assume a: "open_tx o_p i xi tmo quote (Some (sc, toResponse pid)) now clk s1 = Inr (Inr c, s')" "?P s1"
      "out = \<lparr>so_sharedRideId = i, so_mode = SeatOpened, so_poolStatus = PoolOpen, so_seatCount = so_seatCount out, so_quote = on_quote c\<rparr>"
    have "toResponse pid out = toResponse pid \<lparr>so_sharedRideId = i, so_mode = SeatOpened, so_poolStatus = PoolOpen,
       so_seatCount = on_seatCount c, so_quote = on_quote c\<rparr>"
      by (subst a(3)) (simp add: toResponse_def)
    then show ?thesis using open_tx_claim [OF a(1)] a(2) by (simp add: finished_def)
  qed
qed

section \<open>Claiming a key\<close>

definition leaves_claim :: "idem_scope \<Rightarrow> (db \<Rightarrow> db) \<Rightarrow> bool" where
  "leaves_claim sc f \<longleftrightarrow> (\<forall>t. idem_ok t \<longrightarrow> idem_ok (f t) \<and> claim_look sc (f t) = claim_look sc t)"

lemma leaves_claimD: "leaves_claim sc f \<Longrightarrow> idem_ok t \<Longrightarrow> idem_ok (f t) \<and> claim_look sc (f t) = claim_look sc t"
  by (simp add: leaves_claim_def)

lemma leaves_claim_id [simp]: "leaves_claim sc (\<lambda>t. t)"
  by (simp add: leaves_claim_def)

lemma insert_claim_look:
  assumes "insert_claim sc fp now s = Inr (b, s')" "idem_ok s"
  shows "idem_ok s' \<and> (if b then claim_look sc s = None \<and> claim_look sc s' = Some (fp, None) else s' = s \<and> claim_look sc s \<noteq> None)"
proof (cases b)
  case True
  then have "claim_now now sc fp s = Some s'" using assms(1) by (simp add: claim_now_def)
  from seat_claims.claimed_new [OF assms(2) this] seat_claims.claimed_ok [OF assms(2) this] True show ?thesis by simp
next
  case False
  then show ?thesis using assms by (auto simp: insert_claim_def claim_look_def find_claim_None split: if_splits)
qed

lemma reclaim_look:
  assumes "idem_ok s" "reclaimStale sc fp clk now s = (r, s')"
  shows "idem_ok s'" "claim_look sc s' = claim_look sc s" "r \<noteq> None \<Longrightarrow> claim_look sc s = Some (fp, None)" "r = None \<Longrightarrow> s' = s"
proof -
  have s': "s' = snd (reclaimStale sc fp clk now s)" "r = fst (reclaimStale sc fp clk now s)" using assms(2) by simp_all
  show "idem_ok s'" unfolding s' by (rule reclaim_ok [OF assms(1)])
  show "claim_look sc s' = claim_look sc s"
    unfolding s' claim_look_def find_claim_def reclaimStale_def
    by (cases "List.find (scopeWhere sc) (idem s)") (auto simp: find_claim_upd scope_key_def)
  show "claim_look sc s = Some (fp, None)" if ne: "r \<noteq> None"
  proof -
    obtain x where "List.find (stale_claim sc fp clk) (idem s) = Some x" using ne by (auto simp: s' reclaimStale_def)
    then have x: "x \<in> set (idem s)" "stale_claim sc fp clk x" by (auto simp: find_Some_iff)
    then have "find_claim sc s = Some x" using find_claim_mem [OF assms(1)] by (simp add: stale_claim_def)
    moreover have "i_response x = None" using x assms(1) by (cases "i_response x") (auto simp: idem_ok_def claim_shape_def stale_claim_def)
    ultimately show ?thesis using x by (simp add: claim_look_def stale_claim_def)
  qed
  show "s' = s" if "r = None"
  proof -
    have "upd (stale_claim sc fp clk) f (idem s) = idem s" for f
      by (rule upd_id) (use that in \<open>auto simp: s' reclaimStale_def find_None_iff\<close>)
    then show ?thesis by (simp add: s' reclaimStale_def)
  qed
qed

lemma claim_cases:
  assumes "claim sc fp clk now o1 o2 s = Inr (c, s')" "idem_ok s" "leaves_claim sc o1" "leaves_claim sc o2"
  obtains (fresh) "c = Claimed" "claim_look sc s = None" "claim_look sc s' = Some (fp, None)" "idem_ok s'"
      "insert_claim sc fp now s = Inr (True, s')"
  | (taken_over) t where "c = Reclaimed t" "claim_look sc s = Some (fp, None)" "claim_look sc s' = Some (fp, None)" "idem_ok s'"
      "s' = snd (reclaimStale sc fp clk now (o1 s))"
  | (existing) r where "c = Existing (i_fingerprint r) (i_state r) (i_resourceId r) (i_response r)" "find_claim sc s' = Some r"
      "claim_look sc s \<noteq> None" "claim_look sc s' = claim_look sc s" "idem_ok s'" "s' = o2 (o1 s)"
proof -
  obtain b s1 where i: "insert_claim sc fp now s = Inr (b, s1)" using assms(1) by (auto simp: claim_def split: sum.splits)
  note l = insert_claim_look [OF i assms(2)]
  show thesis
  proof (cases b)
    case True
    then show thesis using assms(1) i l by (intro fresh) (auto simp: claim_def)
  next
    case False
    then have s1: "s1 = s" "claim_look sc s \<noteq> None" using l by auto
    note o1 = leaves_claimD [OF assms(3,2)]
    obtain r s2 where re: "reclaimStale sc fp clk now (o1 s) = (r, s2)" by force
    note rl = reclaim_look [OF conjunct1 [OF o1] re]
    show thesis
    proof (cases r)
      case (Some t)
      then show thesis using assms(1) i re False s1 rl o1 by (intro taken_over [of t]) (auto simp: claim_def)
    next
      case None
      then have s2: "s2 = o1 s" using rl(4) by simp
      note o2 = leaves_claimD [OF assms(4) conjunct1 [OF o1]]
      then obtain r where "find_claim sc (o2 (o1 s)) = Some r"
        using s1 o1 by (cases "find_claim sc (o2 (o1 s))") (auto simp: claim_look_def)
      then show thesis using assms(1) i re False s1 s2 None o1 o2
        by (intro existing [of r]) (auto simp: claim_def Let_def)
    qed
  qed
qed

section \<open>Shared bookings\<close>

definition env_leaves :: "idem_scope \<Rightarrow> seat_env \<Rightarrow> bool" where
  "env_leaves sc e \<longleftrightarrow> (\<forall>n. leaves_claim sc (sv_gap e n)) \<and> (\<forall>n. leaves_claim sc (sv_between e n))"

text \<open>Whatever other sessions keep is kept, except by the statements that record an answer or seat the passenger.\<close>

definition env_keeps :: "seat_env \<Rightarrow> (db \<Rightarrow> bool) \<Rightarrow> bool" where
  "env_keeps e P \<longleftrightarrow> (\<forall>n t. P t \<longrightarrow> P (sv_gap e n t)) \<and> (\<forall>n t. P t \<longrightarrow> P (sv_between e n t))"

lemma env_keepsD: "env_keeps e P \<Longrightarrow> P t \<Longrightarrow> P (sv_gap e n t)" "env_keeps e P \<Longrightarrow> P t \<Longrightarrow> P (sv_between e n t)"
  by (auto simp: env_keeps_def)

lemma env_leaves_keeps:
  "env_leaves sc e \<Longrightarrow> env_keeps e (\<lambda>t. idem_ok t \<and> claim_look sc t = x)"
  by (auto simp: env_leaves_def env_keeps_def dest: leaves_claimD)

lemma existing_seat_cases:
  assumes "existingSharedSeat e pid sc s = (res, s')" "P s" "env_keeps e P"
  obtains (none) "res = Inr None" "P s'" | (found) resp where "res = Inr (Some resp)" "P s'"
  | (rebuilt) resp s2 where "res = Inr (Some resp)" "P s2" "s' = completeClaim e [0, 1, 2] sc resp s2"
  | (bad) err where "res = Inl err" "P s'"
proof -
  have "P (sv_gap e 2 s)" "P (sv_gap e 3 (sv_gap e 2 s))" using assms(2,3) by (simp_all add: env_keepsD)
  then show thesis using assms(1) that by (auto simp: existingSharedSeat_def Let_def split: option.splits sum.splits)
qed

lemma allocate_cases:
  assumes "allocateSharedSeat e pid d scope s = (res, s')" "P s" "env_keeps e P"
  obtains (seated) m eff where "res = Inr (toResponse pid m, map PoolEffect eff)"
      "findOrCreatePool (sv_score e) (sv_match e) (sv_near e) (dto_request pid d) (sv_joinedAt e) (sv_poolId e)
         (sv_timeoutMs e) (seat_quoter (sv_fare e) (sv_shared e) (sv_osrm e) (sv_prices e))
         (map_option (\<lambda>sc. (sc, toResponse pid)) scope) (sv_tx e) (sv_between e) s = (Inr (MatchSeat m, eff), s')"
  | (answered) resp where "res = Inr (resp, [])" "P s'"
  | (rebuilt) resp sc s2 where "res = Inr (resp, [])" "scope = Some sc" "P s2" "s' = completeClaim e [0, 1, 2] sc resp s2"
  | (refused) err where "res = Inl err" "P s'"
proof -
  let ?m = "findOrCreatePool (sv_score e) (sv_match e) (sv_near e) (dto_request pid d) (sv_joinedAt e) (sv_poolId e)
         (sv_timeoutMs e) (seat_quoter (sv_fare e) (sv_shared e) (sv_osrm e) (sv_prices e))
         (map_option (\<lambda>sc. (sc, toResponse pid)) scope) (sv_tx e) (sv_between e) s"
  obtain r s1 where m: "?m = (r, s1)" by force
  show thesis
  proof (cases "\<exists>out eff. r = Inr (MatchSeat out, eff)")
    case True
    then show thesis using assms(1) m by (auto simp: allocateSharedSeat_def intro: seated)
  next
    case False
    have P1: "P s1" by (rule match_no_seat [OF m]) (use False assms env_keepsD in auto)
    show thesis
    proof (cases "\<exists>reason i eff. r = Inr (MatchExisting reason i, eff)")
      case True
      then obtain reason i eff where r: "r = Inr (MatchExisting reason i, eff)" by blast
      let ?ex = "case scope of Some sc \<Rightarrow> if reason = ExistingReplay then existingSharedSeat e pid sc s1 else (Inr None, s1)
        | None \<Rightarrow> (Inr None, s1)"
      obtain x s2 where x: "?ex = (x, s2)" by force
      have look: "thesis" if "x = Inr None" "P s2"
      proof -
        have "P (sv_gap e 4 s2)" using that assms(3) by (simp add: env_keepsD)
        then show thesis
          using assms(1) m r x that answered refused
          by (cases "findSeat (sv_gap e 4 s2) i pid"; cases "seatResponse pid (the (findSeat (sv_gap e 4 s2) i pid))")
            (auto simp: allocateSharedSeat_def Let_def)
      qed
      have given: "res = map_sum id (\<lambda>o_r. (the o_r, [])) x \<and> s' = s2" if "x \<noteq> Inr None"
        using assms(1) m r x that by (auto simp: allocateSharedSeat_def Let_def split: sum.splits option.splits)
      show thesis
      proof (cases "\<exists>sc. scope = Some sc \<and> existingSharedSeat e pid sc s1 = (x, s2)")
        case True
        then obtain sc where sc: "scope = Some sc" "existingSharedSeat e pid sc s1 = (x, s2)" by blast
        from sc(2) P1 assms(3) show thesis
        proof (cases rule: existing_seat_cases)
          case none
          then show thesis by (rule look)
        next
          case (found resp)
          then show thesis using given by (intro answered) auto
        next
          case (rebuilt resp s3)
          then show thesis using given sc(1) by (intro that(3)) auto
        next
          case (bad err)
          then show thesis using given by (intro refused) auto
        qed
      next
        case False
        then show thesis using x P1 by (intro look) (auto split: option.splits if_splits)
      qed
    next
      case False': False
      then have "\<exists>err. res = Inl err \<and> s' = s1"
        using assms(1) m \<open>\<nexists>out eff. r = Inr (MatchSeat out, eff)\<close>
        by (auto simp: allocateSharedSeat_def split: sum.splits match_result.splits conflict_reason.splits)
      then show thesis using refused P1 by blast
    qed
  qed
qed

text \<open>A call with effects seated the passenger itself, and its claim holds the answer.\<close>

lemma allocate_records:
  assumes "allocateSharedSeat e pid d (Some sc) s = (Inr (resp, eff), s')" "eff \<noteq> []"
    and "env_leaves sc e" "idem_ok s" "claim_look sc s = Some (fp, x)"
  shows "claim_look sc s' = Some (fp, Some resp)"
proof -
  have "env_keeps e (\<lambda>_. True)" by (simp add: env_keeps_def)
  with assms(1) TrueI show ?thesis
  proof (cases rule: allocate_cases)
    case (seated out eff')
    have "idem_ok t \<Longrightarrow> idem_ok (sv_between e n t) \<and> claim_look sc (sv_between e n t) = claim_look sc t" for n t
      using assms(3) leaves_claimD [of sc "sv_between e n"] by (auto simp: env_leaves_def)
    then show ?thesis using match_claim [OF seated(2) [simplified] assms(4,5)] seated(1) by simp
  qed (use assms(2) in simp_all)
qed

lemma release_after_Inr: "release_after e sc r = (Inr x, s') \<longleftrightarrow> r = (Inr x, s')"
  by (auto simp: release_after_def split: sum.splits prod.splits)

lemma shared_records:
  assumes "createShared sha e pid d (Some key) s = (Inr (resp, eff), s')" "eff \<noteq> []" "key \<noteq> ''''"
    and "idem_ok s" "env_leaves (seat_scope pid key) e"
  shows "claim_look (seat_scope pid key) s' = Some (requestFingerprint sha OpShared (dto_intent d), Some resp)"
proof -
  let ?sc = "seat_scope pid key" and ?fp = "requestFingerprint sha OpShared (dto_intent d)"
  have key: "parseIdempotencyKey (Some key) False = Inr (Some key)"
    using assms(1,3) by (auto simp: createShared_def parseIdempotencyKey_def split: if_splits)
  have l: "leaves_claim ?sc (sv_gap e 0)" "leaves_claim ?sc (sv_gap e 1)" using assms(5) by (simp_all add: env_leaves_def)
  obtain c s1 where c: "claim ?sc ?fp (sv_clk e) (sv_now e) (sv_gap e 0) (sv_gap e 1) s = Inr (c, s1)"
    using assms(1) key by (auto simp: createShared_def Let_def split: sum.splits)
  from c assms(4) l show ?thesis
  proof (cases rule: claim_cases)
    case fresh
    then have "allocateSharedSeat e pid d (Some ?sc) s1 = (Inr (resp, eff), s')"
      using assms(1) key c by (simp add: createShared_def Let_def release_after_Inr)
    from allocate_records [OF this assms(2,5)] fresh show ?thesis by simp
  next
    case (taken_over t)
    then obtain s2 where e: "existingSharedSeat e pid ?sc s1 = (Inr None, s2)"
      and a: "allocateSharedSeat e pid d (Some ?sc) s2 = (Inr (resp, eff), s')"
      using assms(1,2) key c
      by (cases "existingSharedSeat e pid ?sc s1") (auto simp: createShared_def Let_def release_after_Inr split: sum.splits option.splits)
    have "idem_ok s2 \<and> claim_look ?sc s2 = Some (?fp, None)"
      using existing_seat_cases [OF e, of "\<lambda>t. idem_ok t \<and> claim_look ?sc t = Some (?fp, None)"] taken_over
        env_leaves_keeps [OF assms(5)] by auto
    with allocate_records [OF a assms(2,5)] show ?thesis by simp
  next
    case (existing r)
    then show ?thesis using assms(1,2) key c
      by (auto simp: createShared_def Let_def split: if_splits idem_state.splits option.splits)
  qed
qed

text \<open>While the claim holds an answer, the same request gets it and another intent is refused.\<close>

lemma shared_replays:
  assumes "claim_look (seat_scope pid key) t = Some (requestFingerprint sha OpShared (dto_intent d), Some resp)"
    and "idem_ok t" "sv_gap e = (\<lambda>_ t. t)" "parseIdempotencyKey (Some key) False = Inr (Some key)"
  shows "createShared sha e pid d' (Some key) t
    = (if requestFingerprint sha OpShared (dto_intent d') = requestFingerprint sha OpShared (dto_intent d)
       then Inr (resp, []) else Inl (Http key_conflict), t)"
proof -
  let ?sc = "seat_scope pid key" and ?fp = "requestFingerprint sha OpShared (dto_intent d')"
  obtain r where r: "find_claim ?sc t = Some r" "i_fingerprint r = requestFingerprint sha OpShared (dto_intent d)" "i_response r = Some resp"
    using assms(1) by (auto simp: claim_look_def)
  then have st: "i_state r = IdemCompleted"
    using assms(2) by (auto simp: idem_ok_def claim_shape_def dest!: find_claim_SomeD)
  have "list_ex (scopeWhere ?sc) (idem t)" using r(1) find_claim_None [of ?sc t] by simp
  then have i: "insert_claim ?sc ?fp (sv_now e) t = Inr (False, t)" by (simp add: insert_claim_def)
  obtain x t' where re: "reclaimStale ?sc ?fp (sv_clk e) (sv_now e) t = (x, t')" by force
  have "x = None" using reclaim_look(3) [OF assms(2) re] assms(1) by (cases x) auto
  then have re: "reclaimStale ?sc ?fp (sv_clk e) (sv_now e) t = (None, t)" using reclaim_look(4) [OF assms(2) re] re by simp
  have "claim ?sc ?fp (sv_clk e) (sv_now e) (sv_gap e 0) (sv_gap e 1) t
      = Inr (Existing (i_fingerprint r) IdemCompleted (i_resourceId r) (Some resp), t)"
    by (simp add: claim_def i re assms(3) r st)
  then show ?thesis using r by (auto simp: createShared_def assms(4) Let_def)
qed

text \<open>A refused shared booking: with no other session at work the database is as before, but for the claim.\<close>

definition env_alone :: "seat_env \<Rightarrow> bool" where
  "env_alone e \<longleftrightarrow> (\<forall>n t. sv_gap e n t = t) \<and> (\<forall>n t. sv_between e n t = t)"

lemma env_alone_keeps: "env_alone e \<Longrightarrow> env_keeps e P"
  by (simp add: env_alone_def env_keeps_def)

lemma release_new_claim:
  assumes "insert_claim sc fp now s = Inr (True, s')" "idem_ok s"
  shows "release_claim sc s' = s"
proof -
  have s': "s' = s\<lparr>idem := idem s @ [new_claim sc fp now]\<rparr>" "\<not> list_ex (scopeWhere sc) (idem s)"
    using assms(1) by (auto simp: insert_claim_def split: if_splits)
  have "del (\<lambda>r. scopeWhere sc r \<and> i_state r = IdemPending) (idem s) = idem s"
    using s'(2) by (induction "idem s") (auto simp: del_def filter_id_conv list_ex_iff)
  then show ?thesis by (simp add: s' release_claim_def del_def) (simp add: new_claim_def)
qed

lemma refused_keeps_idem:
  assumes "t = s\<lparr>idem := x\<rparr>"
  shows "release_claim sc t = s\<lparr>idem := idem (release_claim sc t)\<rparr>"
  by (simp add: assms release_claim_def)

lemma parse_key_SomeD: "parseIdempotencyKey rawKey b = Inr (Some k) \<Longrightarrow> rawKey = Some k \<and> k \<noteq> ''''"
  by (auto simp: parseIdempotencyKey_def split: option.splits if_splits)

lemma parse_key_cases:
  obtains (bad) er where "parseIdempotencyKey rawKey b = Inl er" | (none) "parseIdempotencyKey rawKey b = Inr None"
  | (key) k where "parseIdempotencyKey rawKey b = Inr (Some k)" "rawKey = Some k" "k \<noteq> ''''"
proof (cases "parseIdempotencyKey rawKey b")
  case (Inr x)
  then show thesis by (cases x) (auto dest: parse_key_SomeD intro: none key)
qed (rule bad)

text \<open>A refused request leaves the database as it was, or it held the claim of its key and then released it.\<close>

lemma shared_refused_cases:
  assumes "createShared sha e pid d rawKey s = (Inl err, s')" "env_alone e" "idem_ok s"
  obtains (same) "s' = s"
  | (held) k s1 where "rawKey = Some k" "claim_look (seat_scope pid k) s1 = Some (requestFingerprint sha OpShared (dto_intent d), None)" "idem_ok s1"
      "s' = (if sv_releaseFails e then s1 else release_claim (seat_scope pid k) s1)"
      "claim_look (seat_scope pid k) s = None \<and> insert_claim (seat_scope pid k) (requestFingerprint sha OpShared (dto_intent d)) (sv_now e) s = Inr (True, s1)
       \<or> claim_look (seat_scope pid k) s = Some (requestFingerprint sha OpShared (dto_intent d), None)
          \<and> s1 = snd (reclaimStale (seat_scope pid k) (requestFingerprint sha OpShared (dto_intent d)) (sv_clk e) (sv_now e) s)"
proof -
  note gaps = assms(2) [unfolded env_alone_def]
  have gap0: "sv_gap e n = (\<lambda>t. t)" for n using gaps by auto
  have alloc: "allocateSharedSeat e pid d scope t = (Inl err', t') \<Longrightarrow> t' = t" for scope t err' t'
    by (erule allocate_cases [where P = "\<lambda>u. u = t"]) (use env_alone_keeps [OF assms(2)] in auto)
  have exist: "existingSharedSeat e pid sc t = (Inl err', t') \<Longrightarrow> t' = t" "existingSharedSeat e pid sc t = (Inr None, t') \<Longrightarrow> t' = t" for sc t err' t'
    by (erule existing_seat_cases [where P = "\<lambda>u. u = t"]; use env_alone_keeps [OF assms(2)] in auto)+
  consider (bad) er where "parseIdempotencyKey rawKey False = Inl er" | (nokey) "parseIdempotencyKey rawKey False = Inr None"
    | (key) k where "parseIdempotencyKey rawKey False = Inr (Some k)" "rawKey = Some k"
    using parse_key_cases [of rawKey False thesis] by blast
  then show thesis
  proof cases
    case bad
    then show thesis using assms(1) same by (simp add: createShared_def)
  next
    case nokey
    then show thesis using assms(1) alloc same by (simp add: createShared_def)
  next
    case (key k)
    let ?sc = "seat_scope pid k" and ?fp = "requestFingerprint sha OpShared (dto_intent d)"
    show thesis
    proof (cases "claim ?sc ?fp (sv_clk e) (sv_now e) (sv_gap e 0) (sv_gap e 1) s")
      case (Inl er)
      then show thesis using assms(1) key same by (simp add: createShared_def Let_def)
    next
      case (Inr cs)
      obtain c s1 where c: "claim ?sc ?fp (sv_clk e) (sv_now e) (sv_gap e 0) (sv_gap e 1) s = Inr (c, s1)" using Inr by (cases cs) simp
      have l: "leaves_claim ?sc (sv_gap e 0)" "leaves_claim ?sc (sv_gap e 1)" by (simp_all add: gap0)
      from c assms(3) l show thesis
      proof (cases rule: claim_cases)
        case fresh
        then obtain s2 where a: "allocateSharedSeat e pid d (Some ?sc) s1 = (Inl err, s2)"
          and s': "s' = (if sv_releaseFails e then s2 else release_claim ?sc s2)"
          using assms(1) key c
          by (cases "allocateSharedSeat e pid d (Some ?sc) s1") (auto simp: createShared_def Let_def release_after_def gap0 split: sum.splits)
        show thesis by (rule held [OF key(2) fresh(3,4)]) (use s' alloc [OF a] fresh(2,5) in simp_all)
      next
        case (taken_over t)
        have "s' = (if sv_releaseFails e then s1 else release_claim ?sc s1)"
          using assms(1) key c taken_over(1)
          by (cases "existingSharedSeat e pid ?sc s1")
            (auto simp: createShared_def Let_def release_after_def gap0 dest!: exist alloc split: sum.splits option.splits prod.splits)
        then show thesis by (rule held [OF key(2) taken_over(3,4)]) (use taken_over(2,5) in \<open>simp add: gap0\<close>)
      next
        case (existing r)
        then have "s1 = s" by (simp add: gap0)
        then have "s' = s" using assms(1) key c existing(1)
          by (auto simp: createShared_def Let_def split: if_splits idem_state.splits option.splits)
        then show thesis by (rule same)
      qed
    qed
  qed
qed

lemma find_claim_other:
  assumes "sc' \<noteq> sc" "idem_ok s"
  shows "insert_claim sc fp now s = Inr (b, s') \<Longrightarrow> find_claim sc' s' = find_claim sc' s"
    and "find_claim sc' (snd (reclaimStale sc fp clk now s)) = find_claim sc' s"
    and "find_claim sc' (release_claim sc s) = find_claim sc' s"
proof -
  show "insert_claim sc fp now s = Inr (b, s') \<Longrightarrow> find_claim sc' s' = find_claim sc' s"
    using assms(1) by (auto simp: insert_claim_def find_claim_append split: if_splits option.splits)
  show "find_claim sc' (snd (reclaimStale sc fp clk now s)) = find_claim sc' s"
  proof (cases "find_claim sc' s")
    case (Some r)
    then have "\<not> stale_claim sc fp clk r" using assms(1) find_claim_SomeD [OF Some] by (auto simp: stale_claim_def dest: scope_eqI)
    then show ?thesis using Some by (simp add: find_claim_def reclaimStale_def find_claim_upd scope_key_def)
  qed (simp add: find_claim_def reclaimStale_def find_claim_upd scope_key_def)
  show "find_claim sc' (release_claim sc s) = find_claim sc' s"
    using assms(1) find_claim_release [OF assms(2), of sc' sc]
    by (cases "find_claim sc' s") (auto dest: find_claim_SomeD scope_eqI)
qed

lemma shared_refused:
  assumes "createShared sha e pid d rawKey s = (Inl err, s')" "env_alone e" "idem_ok s"
  shows "s' = s \<or> (\<exists>k. rawKey = Some k \<and> s' = s\<lparr>idem := idem s'\<rparr>
    \<and> (\<forall>sc. sc \<noteq> seat_scope pid k \<longrightarrow> find_claim sc s' = find_claim sc s)
    \<and> (if sv_releaseFails e
       then claim_look (seat_scope pid k) s \<in> {None, Some (requestFingerprint sha OpShared (dto_intent d), None)}
         \<and> claim_look (seat_scope pid k) s' = Some (requestFingerprint sha OpShared (dto_intent d), None)
       else claim_look (seat_scope pid k) s = Some (requestFingerprint sha OpShared (dto_intent d), None)
         \<and> claim_look (seat_scope pid k) s' = None))"
  using assms
proof (cases rule: shared_refused_cases)
  case (held k s1)
  let ?sc = "seat_scope pid k" and ?fp = "requestFingerprint sha OpShared (dto_intent d)"
  have own: "s1 = s\<lparr>idem := idem s1\<rparr>" using held(5) by (auto simp: insert_claim_def reclaimStale_def split: if_splits)
  then have only: "s' = s\<lparr>idem := idem s'\<rparr>" using held(4) refused_keeps_idem [OF own] by simp
  have "find_claim sc s1 = find_claim sc s" if "sc \<noteq> ?sc" for sc
    using held(5) find_claim_other(1,2) [OF that assms(3)] by auto
  then have other: "find_claim sc s' = find_claim sc s" if "sc \<noteq> ?sc" for sc
    using find_claim_other(3) [OF that held(3)] that held(4) by simp
  have freed: "claim_look ?sc (release_claim ?sc s1) = None" by (rule seat_claims.abandon_pending [OF held(3,2)])
  show ?thesis
  proof (cases "\<not> sv_releaseFails e \<and> claim_look ?sc s = None")
    case True
    then have "s' = s" using held(4,5) release_new_claim [OF _ assms(3)] by auto
    then show ?thesis by simp
  next
    case False
    show ?thesis
      by (intro disjI2 exI [of _ k] conjI allI impI held(1) only other)
        (use False held(2,4,5) freed in \<open>auto split: if_splits\<close>)
  qed
qed simp

section \<open>Solo and scheduled bookings\<close>

lemma create_cases:
  assumes "create p rid xid now s = Inr ((r, created, fp), s')"
  obtains (new) "created" "create_tx p rid xid now s = Inr (Some r, s')" "r = new_ride p rid now" "fp = cp_requestFingerprint p"
  | (old) "\<not> created" "s' = s" "findByIdempotencyScope s (cp_passengerId p) (cp_operation p) (cp_idempotencyKey p) = Some (r, fp)"
proof -
  obtain res s1 where c: "create_tx p rid xid now s = Inr (res, s1)" using assms by (auto simp: create_def split: sum.splits)
  from c show thesis
  proof (cases rule: create_tx_cases)
    case replay
    then show thesis using assms c by (intro old) (auto simp: create_def split: option.splits)
  next
    case (new m b)
    then show thesis using assms c by (intro that(1)) (auto simp: create_def)
  qed
qed

lemma book_cases:
  assumes "book e pid fp p s = (res, s')"
  obtains (err) x where "res = Inl x" "s' = s"
  | (new) "create_tx p (be_rideId e) (be_xid e) (be_now e) s = Inr (Some (new_ride p (be_rideId e) (be_now e)), s')"
      "res = Inr (soloResponse (new_ride p (be_rideId e) (be_now e)), [KickOutbox, JoinRoom pid (be_rideId e)])"
  | (old) r stored where "res = Inr (soloResponse r, [])" "s' = s"
      "findByIdempotencyScope s (cp_passengerId p) (cp_operation p) (cp_idempotencyKey p) = Some (r, stored)" "fingerprintMatches stored fp"
proof (cases "create p (be_rideId e) (be_xid e) (be_now e) s")
  case (Inl x)
  then show thesis using assms by (intro err [of "Db_failed x"]) (simp_all add: book_def)
next
  case (Inr c)
  obtain r created stored s1 where c: "create p (be_rideId e) (be_xid e) (be_now e) s = Inr ((r, created, stored), s1)"
    using Inr by (cases c) auto
  from c show thesis
  proof (cases rule: create_cases)
    case new
    have "r_id (new_ride p (be_rideId e) (be_now e)) = be_rideId e" by (simp add: new_ride_def)
    then show thesis using assms c new that(2) by (simp add: book_def)
  next
    case old
    then show thesis using assms c err that(3) by (auto simp: book_def split: if_splits)
  qed
qed

text \<open>Both flows: refused, answered from the first booking, or a new ride at the fare of a verified quote.\<close>

lemma replay_first:
  assumes "(case replaySolo s pid oper key fp of Inl err \<Rightarrow> (Inl (Http err), s) | Inr (Some r) \<Rightarrow> (Inr (r, []), s) | Inr None \<Rightarrow> X)
     = (res, s')"
  obtains (err) x where "res = Inl x" "s' = s"
  | (replayed) r stored where "res = Inr (soloResponse r, [])" "s' = s" "findByIdempotencyScope s pid oper key = Some (r, stored)"
      "fingerprintMatches stored fp"
  | (go) "X = (res, s')"
proof (cases "findByIdempotencyScope s pid oper key")
  case None
  then show thesis using assms by (intro go) (simp add: replaySolo_def)
next
  case (Some rf)
  obtain r stored where rf: "rf = (r, stored)" by force
  show thesis
  proof (cases "fingerprintMatches stored fp")
    case True
    then show thesis using assms Some rf by (intro replayed [of r stored]) (auto simp: replaySolo_def)
  next
    case False
    then show thesis using assms Some rf by (intro err [of "Http key_conflict"]) (auto simp: replaySolo_def)
  qed
qed

lemma quote_then_book:
  assumes "(case verifyQuote j d clk of Inl err \<Rightarrow> (Inl (Http err), s) | Inr c \<Rightarrow> book e pid fp (par c) (be_gap e s)) = (res, s')"
    and "\<And>c. cp_passengerId (par c) = pid \<and> cp_operation (par c) = oper \<and> cp_idempotencyKey (par c) = key"
  obtains (err) x where "res = Inl x" "s' = s \<or> s' = be_gap e s"
  | (replayed) r stored where "res = Inr (soloResponse r, [])" "s' = be_gap e s"
      "findByIdempotencyScope (be_gap e s) pid oper key = Some (r, stored)" "fingerprintMatches stored fp"
  | (new) c where "verifyQuote j d clk = Inr c"
      "create_tx (par c) (be_rideId e) (be_xid e) (be_now e) (be_gap e s) = Inr (Some (new_ride (par c) (be_rideId e) (be_now e)), s')"
      "res = Inr (soloResponse (new_ride (par c) (be_rideId e) (be_now e)), [KickOutbox, JoinRoom pid (be_rideId e)])"
proof (cases "verifyQuote j d clk")
  case (Inl x)
  then show thesis using assms(1) by (intro err [of "Http x"]) simp_all
next
  case (Inr c)
  then have "book e pid fp (par c) (be_gap e s) = (res, s')" using assms(1) by simp
  then show thesis
  proof (cases rule: book_cases)
    case (old r stored)
    then show thesis using assms(2) [of c] by (intro replayed) simp_all
  qed (use Inr err new in auto)
qed

lemma booking_params_scope [simp]:
  "cp_passengerId (booking_params pid d fare key oper fp ty t) = pid" "cp_operation (booking_params pid d fare key oper fp ty t) = oper"
  "cp_idempotencyKey (booking_params pid d fare key oper fp ty t) = key" "cp_fareCents (booking_params pid d fare key oper fp ty t) = fare"
  "cp_scheduledFor (booking_params pid d fare key oper fp ty t) = t"
  "cp_rideType (booking_params pid d fare key oper fp ty t) = (case ty of None \<Rightarrow> Normal | Some x \<Rightarrow> x)"
  by (simp_all add: booking_params_def cp_operation_def cp_rideType_def)

lemma createNormal_cases:
  assumes "createNormal j sha e pid d rawKey s = (res, s')"
  obtains (err) x where "res = Inl x" "s' = s \<or> s' = be_gap e s"
  | (replayed) key r stored where "rawKey = Some key" "res = Inr (soloResponse r, [])" "s' = s \<or> s' = be_gap e s"
      "findByIdempotencyScope s' pid OpSolo key = Some (r, stored)"
      "fingerprintMatches stored (requestFingerprint sha OpSolo (dto_intent d))"
  | (new) key c p where "rawKey = Some key" "verifyQuote j d (be_clk e) = Inr c"
      "p = booking_params pid d (qc_soloFareCents c) key OpSolo (requestFingerprint sha OpSolo (dto_intent d)) None None"
      "create_tx p (be_rideId e) (be_xid e) (be_now e) (be_gap e s) = Inr (Some (new_ride p (be_rideId e) (be_now e)), s')"
      "res = Inr (soloResponse (new_ride p (be_rideId e) (be_now e)), [KickOutbox, JoinRoom pid (be_rideId e)])"
proof (cases "\<exists>key tok. parseIdempotencyKey rawKey True = Inr (Some key) \<and> cd_quoteToken d = Some tok")
  case False
  then have "(\<exists>x. res = Inl x) \<and> s' = s"
    using assms by (auto simp: createNormal_def split: sum.splits option.splits if_splits)
  then show thesis using err by blast
next
  case True
  then obtain k tok where k: "parseIdempotencyKey rawKey True = Inr (Some k)" "cd_quoteToken d = Some tok" by blast
  then have key: "rawKey = Some k" using parse_key_SomeD by blast
  note body = assms [unfolded createNormal_def k sum.case option.case Let_def, simplified]
  from body show thesis
  proof (cases rule: replay_first)
    case go
    then show thesis
      by (cases rule: quote_then_book [where oper = OpSolo and key = k]) (simp, use key err replayed new in auto)
  qed (use key err replayed in auto)
qed

lemma createScheduled_cases:
  assumes "createScheduled j sha e pid d rawKey s = (res, s')"
  obtains (err) x where "res = Inl x" "s' = s \<or> s' = be_gap e s"
  | (replayed) key r stored where "rawKey = Some key" "res = Inr (soloResponse r, [])" "s' = s \<or> s' = be_gap e s"
      "findByIdempotencyScope s' pid OpScheduled key = Some (r, stored)"
      "fingerprintMatches stored (requestFingerprint sha OpScheduled (dto_intent d))"
  | (new) key c p raw_t t where "rawKey = Some key" "verifyQuote j d (be_clk e) = Inr c" "cd_scheduledFor d = Some (raw_t, t)"
      "in_window (be_clk e) t"
      "p = booking_params pid d (qc_soloFareCents c) key OpScheduled (requestFingerprint sha OpScheduled (dto_intent d)) (Some Scheduled) t"
      "create_tx p (be_rideId e) (be_xid e) (be_now e) (be_gap e s) = Inr (Some (new_ride p (be_rideId e) (be_now e)), s')"
      "res = Inr (soloResponse (new_ride p (be_rideId e) (be_now e)), [KickOutbox, JoinRoom pid (be_rideId e)])"
proof (cases "\<exists>key tok raw_t t. parseIdempotencyKey rawKey True = Inr (Some key) \<and> cd_quoteToken d = Some tok
    \<and> cd_scheduledFor d = Some (raw_t, t)")
  case False
  then have "(\<exists>x. res = Inl x) \<and> s' = s"
    using assms by (auto simp: createScheduled_def split: sum.splits option.splits if_splits)
  then show thesis using err by blast
next
  case True
  then obtain k tok raw_t t where k: "parseIdempotencyKey rawKey True = Inr (Some k)" "cd_quoteToken d = Some tok" "cd_scheduledFor d = Some (raw_t, t)"
    by blast
  then have key: "rawKey = Some k" using parse_key_SomeD by blast
  note body = assms [unfolded createScheduled_def k sum.case option.case prod.case Let_def, simplified]
  from body show thesis
  proof (cases rule: replay_first)
    case go
    show thesis
    proof (cases "in_window (be_clk e) t")
      case True
      then have "(case verifyQuote j d (be_clk e) of Inl err \<Rightarrow> (Inl (Http err), s) | Inr c \<Rightarrow>
          book e pid (requestFingerprint sha OpScheduled (dto_intent d))
            (booking_params pid d (qc_soloFareCents c) k OpScheduled (requestFingerprint sha OpScheduled (dto_intent d)) (Some Scheduled) t)
            (be_gap e s)) = (res, s')"
        using go by simp
      then show thesis
        by (cases rule: quote_then_book [where oper = OpScheduled and key = k]) (simp, use key k True err replayed new in auto)
    qed (use go err in auto)
  qed (use key err replayed in auto)
qed

section \<open>Quotes\<close>

lemma quote_token:
  assumes "quote_ride fp sp osrm geo j user ty route clk fareFirst caches = (Inr q, caches')"
  obtains d t where "qr_quoteToken q = sign_quote j (quote_of route (qr_soloFare q) d t) clk" "ac_role user = RoleClient"
proof -
  obtain solo prices where a: "quoteSolo fp osrm route (fst caches) = (solo, prices)" by force
  obtain geometry polys where b: "getRouteGeometry geo route (snd caches) = (geometry, polys)" by force
  show thesis
    using assms that by (auto simp: quote_ride_def a b split: if_splits sum.splits prod.splits js_number.splits)
qed

lemma quote_of_matches:
  "rs_originLat route = cd_originLat d \<Longrightarrow> rs_originLng route = cd_originLng d \<Longrightarrow> rs_destLat route = cd_destLat d \<Longrightarrow>
   rs_destLng route = cd_destLng d \<Longrightarrow> coordsMatch (quote_of route fare x t) d"
  by (simp add: coordsMatch_def quote_of_def Let_def)

lemma verifyQuote_SomeD:
  assumes "verifyQuote j d clk = Inr c"
  obtains tok where "cd_quoteToken d = Some tok" "verify_quote j tok clk = Inr (Some c)" "coordsMatch c d"
  using assms by (auto simp: verifyQuote_def split: option.splits sum.splits jwt_error.splits if_splits)

section \<open>Every booking is a run\<close>

definition env_runs :: "seat_env \<Rightarrow> bool" where
  "env_runs e \<longleftrightarrow> isUuid (sv_poolId e) \<and> (\<forall>n t. db_step\<^sup>*\<^sup>* t (sv_gap e n t)) \<and> (\<forall>n t. db_step\<^sup>*\<^sup>* t (sv_between e n t))"

lemma env_runs_keeps: "env_runs e \<Longrightarrow> env_keeps e (db_step\<^sup>*\<^sup>* s)"
  by (auto simp: env_runs_def env_keeps_def intro: rtranclp_trans)

lemma completeClaim_run: "env_runs e \<Longrightarrow> db_step\<^sup>*\<^sup>* s t \<Longrightarrow> db_step\<^sup>*\<^sup>* s (completeClaim e ns sc resp t)"
proof (induction ns arbitrary: t)
  case (Cons n ns)
  have "db_step\<^sup>*\<^sup>* s (sv_gap e (10 + n) t)" using env_keepsD(1) [OF env_runs_keeps [OF Cons.prems(1)] Cons.prems(2)] .
  then show ?case using Cons.IH Cons.prems(1) s_complete by (auto simp: Let_def intro: rtranclp.rtrancl_into_rtrancl)
qed simp

lemma allocate_run:
  assumes "allocateSharedSeat e pid d scope t = (res, t')" "env_runs e" "db_step\<^sup>*\<^sup>* s t"
  shows "db_step\<^sup>*\<^sup>* s t'"
proof -
  note keep = env_runs_keeps [OF assms(2)]
  from assms(1,3) keep show ?thesis
  proof (cases rule: allocate_cases)
    case (seated m eff)
    from seated(2) show ?thesis
    proof (rule match_cases_inv [where P = "db_step\<^sup>*\<^sup>* s"])
      show "db_step\<^sup>*\<^sup>* s t" by (rule assms(3))
      show "db_step\<^sup>*\<^sup>* s u \<Longrightarrow> db_step\<^sup>*\<^sup>* s (sv_between e n u)" for n u using keep by (rule env_keepsD)
      show ?thesis if "db_step\<^sup>*\<^sup>* s u" "join_tx i j q ik xi now clk u = Inr (Inr c, t')" for i j q ik xi now clk u c
        using that s_join by (meson rtranclp.rtrancl_into_rtrancl)
      show ?thesis if "db_step\<^sup>*\<^sup>* s u" "open_tx o_p (sv_poolId e) xi tmo q ik now clk u = Inr (Inr c, t')" for o_p xi tmo q ik now clk u c
        using that s_open assms(2) unfolding env_runs_def by (meson rtranclp.rtrancl_into_rtrancl)
    qed
  next
    case (rebuilt resp sc u)
    then show ?thesis using completeClaim_run [OF assms(2)] by (simp del: completeClaim.simps)
  qed
qed

lemma existing_run:
  assumes "existingSharedSeat e pid sc t = (res, t')" "env_runs e" "db_step\<^sup>*\<^sup>* s t"
  shows "db_step\<^sup>*\<^sup>* s t'"
  using assms(1,3) env_runs_keeps [OF assms(2)]
  by (cases rule: existing_seat_cases) (auto simp del: completeClaim.simps intro: completeClaim_run [OF assms(2)])

lemma release_run:
  assumes "db_step\<^sup>*\<^sup>* s (snd r)" "env_runs e"
  shows "db_step\<^sup>*\<^sup>* s (snd (release_after e sc r))"
proof -
  have "db_step\<^sup>*\<^sup>* s (release_claim sc (sv_gap e 5 (snd r)))"
    using env_keepsD(1) [OF env_runs_keeps [OF assms(2)] assms(1)] s_release by (rule rtranclp.rtrancl_into_rtrancl)
  then show ?thesis using assms(1) by (auto simp: release_after_def split: prod.splits sum.splits)
qed

lemma claim_run:
  assumes "claim sc fp clk now o1 o2 s = Inr (c, s')" "\<And>t. db_step\<^sup>*\<^sup>* t (o1 t)" "\<And>t. db_step\<^sup>*\<^sup>* t (o2 t)"
  shows "db_step\<^sup>*\<^sup>* s s'"
proof -
  obtain b s1 where i: "insert_claim sc fp now s = Inr (b, s1)" using assms(1) by (auto simp: claim_def split: sum.splits)
  then have s1: "db_step\<^sup>*\<^sup>* s s1" using s_claim_key by blast
  obtain r s2 where re: "reclaimStale sc fp clk now (o1 s1) = (r, s2)" by force
  have "db_step (o1 s1) s2" using s_reclaim [of "o1 s1" sc fp clk now] re by simp
  then have s2: "db_step\<^sup>*\<^sup>* s s2" using s1 assms(2) [of s1] by (meson rtranclp.rtrancl_into_rtrancl rtranclp_trans)
  then have "db_step\<^sup>*\<^sup>* s (o2 s2)" using assms(3) rtranclp_trans by metis
  then show ?thesis using assms(1) i re s1 s2
    by (auto simp: claim_def Let_def split: bool.splits option.splits)
qed

lemma shared_run:
  assumes "createShared sha e pid d rawKey s = (res, s')" "env_runs e"
  shows "db_step\<^sup>*\<^sup>* s s'"
proof (cases rule: parse_key_cases [of rawKey False])
  case none
  then show ?thesis using assms allocate_run by (fastforce simp: createShared_def)
next
  case (key k)
  let ?sc = "seat_scope pid k"
  show ?thesis
  proof (cases "claim ?sc (requestFingerprint sha OpShared (dto_intent d)) (sv_clk e) (sv_now e) (sv_gap e 0) (sv_gap e 1) s")
    case (Inr cs)
    obtain c s1 where cs: "cs = (c, s1)" by force
    have s1: "db_step\<^sup>*\<^sup>* s s1" by (rule claim_run [OF Inr [unfolded cs]]) (use assms(2) in \<open>simp_all add: env_runs_def\<close>)
    obtain r1 t1 where a1: "allocateSharedSeat e pid d (Some ?sc) s1 = (r1, t1)" by force
    obtain r2 t2 where x: "existingSharedSeat e pid ?sc s1 = (r2, t2)" by force
    obtain r3 t3 where a3: "allocateSharedSeat e pid d (Some ?sc) t2 = (r3, t3)" by force
    have t: "db_step\<^sup>*\<^sup>* s t1" "db_step\<^sup>*\<^sup>* s t2" "db_step\<^sup>*\<^sup>* s t3"
      using allocate_run [OF a1 assms(2) s1] existing_run [OF x assms(2) s1] allocate_run [OF a3 assms(2)] by simp_all
    have rel: "db_step\<^sup>*\<^sup>* s u \<Longrightarrow> release_after e ?sc (v, u) = (w, s') \<Longrightarrow> db_step\<^sup>*\<^sup>* s s'" for u v w
      using release_run [of s "(v, u)" e ?sc] assms(2) by simp
    show ?thesis
    proof (cases c)
      case Claimed
      then show ?thesis using assms(1) key Inr cs a1 rel [OF t(1)] by (simp add: createShared_def Let_def)
    next
      case (Reclaimed u)
      then show ?thesis using assms(1) key Inr cs x a3 rel [OF t(2)] rel [OF t(3)]
        by (auto simp: createShared_def Let_def split: sum.splits option.splits)
    next
      case (Existing f st rid resp)
      then show ?thesis using assms(1) key Inr cs s1
        by (auto simp: createShared_def Let_def split: if_splits idem_state.splits option.splits)
    qed
  qed (use assms key in \<open>simp add: createShared_def Let_def\<close>)
qed (use assms in \<open>simp add: createShared_def\<close>)

lemma solo_run:
  assumes "createNormal j sha e pid d rawKey s = (res, s') \<or> createScheduled j sha e pid d rawKey s = (res, s')"
    and "isUuid (be_rideId e)" "db_step\<^sup>*\<^sup>* s (be_gap e s)"
  shows "db_step\<^sup>*\<^sup>* s s'"
proof -
  have new: "create_tx p (be_rideId e) xi now (be_gap e s) = Inr (r, s') \<Longrightarrow> db_step\<^sup>*\<^sup>* s s'" for p xi now r
    using s_create assms(2,3) by (meson rtranclp.rtrancl_into_rtrancl)
  from assms(1) show ?thesis
  proof
    assume "createNormal j sha e pid d rawKey s = (res, s')"
    then show ?thesis by (cases rule: createNormal_cases) (use assms(3) new in auto)
  next
    assume "createScheduled j sha e pid d rawKey s = (res, s')"
    then show ?thesis by (cases rule: createScheduled_cases) (use assms(3) new in auto)
  qed
qed

lemma create_ride_run:
  assumes "create_ride j sha be se user d rawKey s = (res, s')"
    and "isUuid (be_rideId be)" "db_step\<^sup>*\<^sup>* s (be_gap be s)" "env_runs se"
  shows "db_step\<^sup>*\<^sup>* s s'"
proof (cases "ac_role user = RoleClient")
  case True
  obtain r1 s1 where 1: "createNormal j sha be (ac_sub user) d rawKey s = (r1, s1)" by force
  obtain r2 s2 where 2: "createScheduled j sha be (ac_sub user) d rawKey s = (r2, s2)" by force
  obtain r3 s3 where 3: "createShared sha se (ac_sub user) d rawKey s = (r3, s3)" by force
  show ?thesis
    using assms(1) True 1 2 3 solo_run [OF disjI1 [OF 1] assms(2,3)] solo_run [OF disjI2 [OF 2] assms(2,3)] shared_run [OF 3 assms(4)]
    by (cases "cd_type d") (auto simp: create_ride_def)
qed (use assms(1) in \<open>simp add: create_ride_def\<close>)

end
