(* ===== verification/Bus.thy ===== *)
theory Bus
  imports Realtime Booking_Facts Scenario
begin

text \<open>
  The realtime bus (realtime.bus.ts): emitting to the sockets of a room, and the joins the server makes on behalf of
  a user after a booking, beside the joins the sockets ask for (realtime.gateway.ts). Sockets are numbered. The run
  interleaves all of them with the transactions of the backend; a join after a commit happens at any later time.
\<close>

section \<open>Rooms\<close>

type_synonym sockets = "nat \<Rightarrow> socket option"

definition socketsJoin :: "room \<Rightarrow> room \<Rightarrow> sockets \<Rightarrow> sockets" where
  "socketsJoin of_room r ks =
     (\<lambda>n. map_option (\<lambda>k. if of_room \<in> so_rooms k then k\<lparr>so_rooms := insert r (so_rooms k)\<rparr> else k) (ks n))"

definition bus_joinPool :: "uuid \<Rightarrow> uuid \<Rightarrow> sockets \<Rightarrow> sockets" where
  "bus_joinPool u i = socketsJoin (UserRoom u) (PoolRoom i)"

definition bus_joinRide :: "uuid \<Rightarrow> uuid \<Rightarrow> sockets \<Rightarrow> sockets" where
  "bus_joinRide u i = socketsJoin (UserRoom u) (RideRoom i)"

text \<open>Who an emit reaches.\<close>

definition reached :: "room \<Rightarrow> sockets \<Rightarrow> nat set" where
  "reached r ks = {n. \<exists>k. ks n = Some k \<and> r \<in> so_rooms k}"

definition toUser :: "uuid \<Rightarrow> sockets \<Rightarrow> nat set" where
  "toUser u = reached (UserRoom u)"

definition toDriver :: "uuid \<Rightarrow> sockets \<Rightarrow> nat set" where
  "toDriver d = reached (DriverRoom d)"

definition toRide :: "uuid \<Rightarrow> sockets \<Rightarrow> nat set" where
  "toRide i = reached (RideRoom i)"

definition toPool :: "uuid \<Rightarrow> sockets \<Rightarrow> nat set" where
  "toPool i = reached (PoolRoom i)"

section \<open>Runs\<close>

definition gap_runs :: "(nat \<Rightarrow> db \<Rightarrow> db) \<Rightarrow> bool" where
  "gap_runs gap \<longleftrightarrow> (\<forall>n t. db_step\<^sup>*\<^sup>* t (gap n t))"

text \<open>\<open>s0\<close> is a database of some reachable state; its transaction committed \<open>s1\<close>, long before the join.\<close>

inductive bus_step :: "'t jwt \<Rightarrow> db \<times> sockets \<Rightarrow> db \<times> sockets \<Rightarrow> bool" for j where
  bs_db: "db_step s s' \<Longrightarrow> bus_step j (s, ks) (s', ks)"
| bs_connect: "handleConnection j tok clk = Some (k, ev) \<Longrightarrow> bus_step j (s, ks) (s, ks(n \<mapsto> k))"
| bs_disconnect: "bus_step j (s, ks) (s, ks(n := None))"
| bs_pool: "ks n = Some k \<Longrightarrow> handlePoolSubscribe fails gap p k s = (res, ev, k', s') \<Longrightarrow> gap_runs gap \<Longrightarrow> bus_step j (s, ks) (s', ks(n \<mapsto> k'))"
| bs_ride: "ks n = Some k \<Longrightarrow> handleRideSubscribe fails gap p k s = (res', ev, k', s') \<Longrightarrow> gap_runs gap \<Longrightarrow> bus_step j (s, ks) (s', ks(n \<mapsto> k'))"
| bs_opened: "reach db_init db_step s0 \<Longrightarrow> openPool o_p i xi tmo quote ik abort now clk reread s0 = (Inr (opened_pool, eff), s1) \<Longrightarrow> isUuid i
     \<Longrightarrow> db_step\<^sup>*\<^sup>* s1 s \<Longrightarrow> JoinPoolRoom u x \<in> set eff \<Longrightarrow> bus_step j (s, ks) (s, bus_joinPool u x ks)"
| bs_joined: "reach db_init db_step s0 \<Longrightarrow> joinPool i m quote ik xi abort now clk reread s0 = (Inr (joined_pool, eff), s1)
     \<Longrightarrow> db_step\<^sup>*\<^sup>* s1 s \<Longrightarrow> JoinPoolRoom u x \<in> set eff \<Longrightarrow> bus_step j (s, ks) (s, bus_joinPool u x ks)"
| bs_normal: "reach db_init db_step (be_gap e s0) \<Longrightarrow> createNormal j sha e pid d key s0 = (Inr (resp, eff), s1) \<Longrightarrow> isUuid (be_rideId e)
     \<Longrightarrow> db_step\<^sup>*\<^sup>* s1 s \<Longrightarrow> JoinRoom u x \<in> set eff \<Longrightarrow> bus_step j (s, ks) (s, bus_joinRide u x ks)"
| bs_scheduled: "reach db_init db_step (be_gap e s0) \<Longrightarrow> createScheduled j sha e pid d key s0 = (Inr (resp, eff), s1) \<Longrightarrow> isUuid (be_rideId e)
     \<Longrightarrow> db_step\<^sup>*\<^sup>* s1 s \<Longrightarrow> JoinRoom u x \<in> set eff \<Longrightarrow> bus_step j (s, ks) (s, bus_joinRide u x ks)"
| bs_follow: "reach db_init db_step s0 \<Longrightarrow> db_step\<^sup>*\<^sup>* s0 s \<Longrightarrow> JoinRoom u x \<in> set (onRideSubscribe w i s0)
     \<Longrightarrow> bus_step j (s, ks) (s, bus_joinRide u x ks)"

definition bus_init :: "db \<times> sockets \<Rightarrow> bool" where
  "bus_init z \<longleftrightarrow> db_init (fst z) \<and> snd z = Map.empty"

section \<open>Who is in a room\<close>

definition seated_in :: "db \<Rightarrow> uuid \<Rightarrow> uuid \<Rightarrow> bool" where
  "seated_in s i u \<longleftrightarrow> (\<exists>m \<in> set (pool_members s). m_poolId m = i \<and> m_passengerId m = u)"

definition ride_party :: "db \<Rightarrow> uuid \<Rightarrow> uuid \<Rightarrow> bool" where
  "ride_party s i u \<longleftrightarrow> (\<exists>r \<in> set (rides s). r_id r = i \<and> (r_passengerId r = u \<or> r_driverId r = Some u))"

text \<open>A socket belongs in a room as its user.\<close>

fun belongs :: "db \<Rightarrow> uuid \<times> user_role \<Rightarrow> room \<Rightarrow> bool" where
  "belongs s (u, role) (UserRoom x) \<longleftrightarrow> x = u"
| "belongs s (u, role) (DriverRoom x) \<longleftrightarrow> x = u \<and> role = RoleDriver"
| "belongs s (u, role) (PoolRoom i) \<longleftrightarrow> seated_in s i u"
| "belongs s (u, role) (RideRoom i) \<longleftrightarrow> seated_in s i u \<or> ride_party s i u"

definition socket_ok :: "db \<Rightarrow> socket \<Rightarrow> bool" where
  "socket_ok s k \<longleftrightarrow> (\<forall>r \<in> so_rooms k. \<exists>a. so_user k = Some a \<and> belongs s a r)"

definition bus_ok :: "db \<times> sockets \<Rightarrow> bool" where
  "bus_ok z \<longleftrightarrow> reach db_init db_step (fst z) \<and> (\<forall>n k. snd z n = Some k \<longrightarrow> socket_ok (fst z) k)"

lemma seated_run: "reach db_init db_step s \<Longrightarrow> db_step\<^sup>*\<^sup>* s s' \<Longrightarrow> seated_in s i u \<Longrightarrow> seated_in s' i u"
  unfolding seated_in_def by (fastforce simp: seat_def member_pk_def dest: run_member)

lemma party_run:
  assumes "reach db_init db_step s" "db_step\<^sup>*\<^sup>* s s'" "ride_party s i u"
  shows "ride_party s' i u"
proof -
  obtain r where r: "r \<in> set (rides s)" "r_id r = i" "r_passengerId r = u \<or> r_driverId r = Some u" using assms(3) by (auto simp: ride_party_def)
  have "grows ride_evolves (rides s) (rides s')"
    using run_good [OF assms(2) sys.reach_inv [OF assms(1)]] by (simp add: good_step_def evolves_def)
  from grows_mem [OF this r(1)] obtain r' where r': "r' \<in> set (rides s')" "ride_evolves r r'" by blast
  then have "r_id r' = i \<and> (r_passengerId r' = u \<or> r_driverId r' = Some u)" using r(2,3) by (auto simp: ride_evolves_def ride_booking_def)
  then show ?thesis using r'(1) by (auto simp: ride_party_def)
qed

lemma belongs_run: "reach db_init db_step s \<Longrightarrow> db_step\<^sup>*\<^sup>* s s' \<Longrightarrow> belongs s a r \<Longrightarrow> belongs s' a r"
  by (cases a; cases r) (auto intro: seated_run party_run)

lemma socket_ok_run: "reach db_init db_step s \<Longrightarrow> db_step\<^sup>*\<^sup>* s s' \<Longrightarrow> socket_ok s k \<Longrightarrow> socket_ok s' k"
  unfolding socket_ok_def using belongs_run by blast

lemma bus_ok_run: "bus_ok (s, ks) \<Longrightarrow> db_step\<^sup>*\<^sup>* s s' \<Longrightarrow> bus_ok (s', ks)"
  unfolding bus_ok_def using socket_ok_run reach_run by auto

lemma socket_ok_insert: "socket_ok s k \<Longrightarrow> so_user k = Some a \<Longrightarrow> (\<And>r. r \<in> R \<Longrightarrow> belongs s a r) \<Longrightarrow> socket_ok s (k\<lparr>so_rooms := so_rooms k \<union> R\<rparr>)"
  by (auto simp: socket_ok_def)

lemma bus_ok_socketsJoin:
  assumes "bus_ok (s, ks)" "\<And>role. belongs s (u, role) r"
  shows "bus_ok (s, socketsJoin (UserRoom u) r ks)"
proof -
  have "socket_ok s (k\<lparr>so_rooms := insert r (so_rooms k)\<rparr>)" if k: "socket_ok s k" "UserRoom u \<in> so_rooms k" for k
  proof -
    obtain a where a: "so_user k = Some a" "belongs s a (UserRoom u)" using k by (auto simp: socket_ok_def)
    then obtain role where "a = (u, role)" by (cases a) auto
    then show ?thesis using socket_ok_insert [OF k(1) a(1), of "{r}"] assms(2) by simp
  qed
  then show ?thesis using assms(1) by (auto simp: bus_ok_def socketsJoin_def)
qed


text \<open>The effects that join a user's sockets name a seat or a ride just committed.\<close>

lemma afterCommit_join: "JoinPoolRoom u x \<in> set (afterCommit re i joiner kick) \<longleftrightarrow> joiner = Some u \<and> x = i"
  by (auto simp: afterCommit_def emitPoolUpdate_def split: option.splits if_splits)

lemma holds_seated: "holds_seat s i u fare key \<Longrightarrow> seated_in s i u"
  by (auto simp: holds_seat_def seated_in_def list_ex_iff)

lemma opened_seat:
  assumes "openPool o_p i xi tmo quote ik abort now clk reread s0 = (Inr (x, eff), s1)" "JoinPoolRoom u p \<in> set eff" "isUuid i"
  shows "db_step s0 s1 \<and> seated_in s1 p u"
proof -
  have up: "u = mb_passengerId (op_opener o_p)" "p = i"
    using assms(1,2) by (auto simp: openPool_def afterCommit_join split: prod.splits sum.splits)
  from assms(1) show ?thesis
  proof (cases rule: openPool_cases)
    case (opened c eff' m)
    from opened(2) refl have "seated_in s1 i (mb_passengerId (op_opener o_p))" by (rule open_tx_seat) (rule holds_seated)
    then show ?thesis using s_open [OF opened(2) assms(3)] up by simp
  qed (use assms(2) in simp_all)
qed

lemma joined_seat:
  assumes "joinPool i m quote ik xi abort now clk reread s0 = (Inr (x, eff), s1)" "JoinPoolRoom u p \<in> set eff"
  shows "db_step s0 s1 \<and> seated_in s1 p u"
proof -
  have up: "u = mb_passengerId m" "p = i"
    using assms by (auto simp: joinPool_def afterCommit_join split: prod.splits sum.splits)
  from assms(1) show ?thesis
  proof (cases rule: joinPool_cases)
    case (seat c eff' n)
    from seat(2) have "seated_in s1 i (mb_passengerId m)" by (rule join_tx_seat) (rule holds_seated)
    then show ?thesis using s_join [OF seat(2)] up by simp
  qed (use assms(2) in simp_all)
qed

lemma new_ride_party:
  assumes "create_tx p i x now s = Inr (Some r, s1)" "cp_passengerId p = u"
  shows "ride_party s1 i u"
  using assms(1)
proof (cases rule: create_tx_cases)
  case (new m b)
  have "r \<in> set (rides s1)" using new(1,8) by (auto dest: enqueue_sel)
  moreover have "r_id r = i" "r_passengerId r = u" using new(1) assms(2) by (auto simp: new_ride_def)
  ultimately show ?thesis by (auto simp: ride_party_def)
qed simp

lemma booked_ride:
  assumes "createNormal j sha e pid d key s0 = (Inr (resp, eff), s1) \<or> createScheduled j sha e pid d key s0 = (Inr (resp, eff), s1)"
    and "JoinRoom u x \<in> set eff" "isUuid (be_rideId e)"
  shows "db_step (be_gap e s0) s1 \<and> ride_party s1 x u"
proof -
  have "\<exists>p. create_tx p (be_rideId e) (be_xid e) (be_now e) (be_gap e s0) = Inr (Some (new_ride p (be_rideId e) (be_now e)), s1)
      \<and> cp_passengerId p = pid \<and> u = pid \<and> x = be_rideId e"
    using assms(1)
  proof
    assume "createNormal j sha e pid d key s0 = (Inr (resp, eff), s1)"
    then show ?thesis using assms(2) by (cases rule: createNormal_cases) (auto simp: booking_params_def)
  next
    assume "createScheduled j sha e pid d key s0 = (Inr (resp, eff), s1)"
    then show ?thesis using assms(2) by (cases rule: createScheduled_cases) (auto simp: booking_params_def)
  qed
  then obtain p where p: "create_tx p (be_rideId e) (be_xid e) (be_now e) (be_gap e s0) = Inr (Some (new_ride p (be_rideId e) (be_now e)), s1)"
      "cp_passengerId p = u" "x = be_rideId e" by blast
  then show ?thesis using s_create [OF p(1) assms(3)] new_ride_party [OF p(1,2)] by simp
qed

text \<open>A subscription joins only a party of the trip, and other sessions commit meanwhile.\<close>

lemma member_belongs: "isPoolMember s i u \<Longrightarrow> r \<in> {PoolRoom i, RideRoom i} \<Longrightarrow> belongs s (u, role) r"
  by (auto simp: isPoolMember_def seated_in_def list_ex_iff)

lemma party_belongs: "isRideParty s i u \<Longrightarrow> belongs s (u, role) (RideRoom i)"
  by (auto simp: isRideParty_def ride_party_def list_ex_iff)

lemma socket_ok_shrink: "socket_ok s k \<Longrightarrow> R \<subseteq> so_rooms k \<Longrightarrow> socket_ok s (k\<lparr>so_rooms := R\<rparr>)"
  by (auto simp: socket_ok_def)

lemma pool_subscribe_ok:
  assumes "handlePoolSubscribe fails gap p k s = (res, ev, k', s')" "gap_runs gap" "reach db_init db_step s" "socket_ok s k"
  shows "db_step\<^sup>*\<^sup>* s s' \<and> socket_ok s' k'"
proof -
  have gap: "db_step\<^sup>*\<^sup>* s (gap 0 s)" using assms(2) by (simp add: gap_runs_def)
  have joined: "socket_ok (gap 0 s) (k\<lparr>so_rooms := so_rooms k \<union> {PoolRoom i, RideRoom i}\<rparr>)"
    if "so_user k = Some (u, role)" "isPoolMember s i u" for i u role
    by (rule socket_ok_run [OF assms(3) gap], rule socket_ok_insert [OF assms(4) that(1)], rule member_belongs [OF that(2)])
  have left: "socket_ok (gap 0 s) (k\<lparr>so_rooms := insert (PoolRoom i) (insert (RideRoom i) (so_rooms k)) - {PoolRoom i, RideRoom i}\<rparr>)" for i
    by (rule socket_ok_run [OF assms(3) gap], rule socket_ok_shrink [OF assms(4)]) blast
  show ?thesis using assms(1,4) gap joined left
    by (auto simp: handlePoolSubscribe_def Let_def split: option.splits prod.splits if_splits)
qed

lemma ride_subscribe_ok:
  assumes "handleRideSubscribe fails gap p k s = (res, ev, k', s')" "gap_runs gap" "reach db_init db_step s" "socket_ok s k"
  shows "db_step\<^sup>*\<^sup>* s s' \<and> socket_ok s' k'"
proof -
  have gap: "db_step\<^sup>*\<^sup>* s (gap 0 s)" using assms(2) by (simp add: gap_runs_def)
  have joined: "socket_ok (gap 0 s) (k\<lparr>so_rooms := so_rooms k \<union> {RideRoom i}\<rparr>)"
    if "so_user k = Some (u, role)" "isRideParty s i u" for i u role
    by (rule socket_ok_run [OF assms(3) gap], rule socket_ok_insert [OF assms(4) that(1)]) (use party_belongs [OF that(2)] in simp)
  have left: "socket_ok (gap 0 s) (k\<lparr>so_rooms := insert (RideRoom i) (so_rooms k) - {RideRoom i}\<rparr>)" for i
    by (rule socket_ok_run [OF assms(3) gap], rule socket_ok_shrink [OF assms(4)]) blast
  show ?thesis using assms(1,4) gap joined left
    by (auto simp: handleRideSubscribe_def Let_def split: option.splits prod.splits if_splits)
qed

lemma connect_ok: "handleConnection j tok clk = Some (k, ev) \<Longrightarrow> socket_ok s k"
  by (auto simp: handleConnection_def socket_ok_def split: option.splits sum.splits if_splits)

lemma follow_party:
  assumes "JoinRoom u x \<in> set (onRideSubscribe w i s)"
  shows "ride_party s x u"
  using assms by (cases "ride_row s i") (auto simp: onRideSubscribe_def findById_def ride_party_def dest: row_SomeD split: if_splits)

lemma bus_step_ok: "bus_step j z z' \<Longrightarrow> bus_ok z \<Longrightarrow> bus_ok z'"
proof (induction rule: bus_step.induct)
  case (bs_db s s' ks)
  then show ?case using bus_ok_run by blast
next
  case (bs_connect tok clk k ev s ks n)
  then show ?case using connect_ok by (auto simp: bus_ok_def)
next
  case (bs_disconnect s ks n)
  then show ?case by (simp add: bus_ok_def)
next
  case (bs_pool ks n k fails gap p s res ev k' s')
  then have "db_step\<^sup>*\<^sup>* s s' \<and> socket_ok s' k'" by (intro pool_subscribe_ok) (auto simp: bus_ok_def)
  then show ?case using bus_ok_run [OF bs_pool.prems] by (auto simp: bus_ok_def)
next
  case (bs_ride ks n k fails gap p s res ev k' s')
  then have "db_step\<^sup>*\<^sup>* s s' \<and> socket_ok s' k'" by (intro ride_subscribe_ok) (auto simp: bus_ok_def)
  then show ?case using bus_ok_run [OF bs_ride.prems] by (auto simp: bus_ok_def)
next
  case (bs_opened s0 o_p i xi tmo quote ik abort now clk reread x eff s1 s u p ks)
  note o = opened_seat [OF bs_opened(2,5,3)]
  have "seated_in s p u" by (rule seated_run [OF run_step [OF bs_opened(1) conjunct1 [OF o]] bs_opened(4) conjunct2 [OF o]])
  then show ?case unfolding bus_joinPool_def by (intro bus_ok_socketsJoin [OF bs_opened.prems]) simp
next
  case (bs_joined s0 i m quote ik xi abort now clk reread x eff s1 s u p ks)
  note o = joined_seat [OF bs_joined(2,4)]
  have "seated_in s p u" by (rule seated_run [OF run_step [OF bs_joined(1) conjunct1 [OF o]] bs_joined(3) conjunct2 [OF o]])
  then show ?case unfolding bus_joinPool_def by (intro bus_ok_socketsJoin [OF bs_joined.prems]) simp
next
  case (bs_normal e s0 sha pid d key resp eff s1 s u x ks)
  note o = booked_ride [OF disjI1 [OF bs_normal(2)] bs_normal(5,3)]
  have "ride_party s x u" by (rule party_run [OF run_step [OF bs_normal(1) conjunct1 [OF o]] bs_normal(4) conjunct2 [OF o]])
  then show ?case unfolding bus_joinRide_def by (intro bus_ok_socketsJoin [OF bs_normal.prems]) simp
next
  case (bs_scheduled e s0 sha pid d key resp eff s1 s u x ks)
  note o = booked_ride [OF disjI2 [OF bs_scheduled(2)] bs_scheduled(5,3)]
  have "ride_party s x u" by (rule party_run [OF run_step [OF bs_scheduled(1) conjunct1 [OF o]] bs_scheduled(4) conjunct2 [OF o]])
  then show ?case unfolding bus_joinRide_def by (intro bus_ok_socketsJoin [OF bs_scheduled.prems]) simp
next
  case (bs_follow s0 s u x w i ks)
  have "ride_party s x u" by (rule party_run [OF bs_follow(1,2) follow_party [OF bs_follow(3)]])
  then show ?case unfolding bus_joinRide_def by (intro bus_ok_socketsJoin [OF bs_follow.prems]) simp
qed

interpretation bus: transition_system bus_init "bus_step j" bus_ok for j
proof
  show "bus_ok z" if "bus_init z" for z using that by (simp add: bus_ok_def bus_init_def run_start)
qed (rule bus_step_ok)

lemma reached_ok:
  assumes "reach bus_init (bus_step j) (s, ks)" "n \<in> reached r ks"
  obtains k u role where "ks n = Some k" "so_user k = Some (u, role)" "belongs s (u, role) r"
  using bus.reach_inv [OF assms(1)] assms(2) by (force simp: bus_ok_def reached_def socket_ok_def)

end
