(* ===== verification/Web_Auth.thy ===== *)
theory Web_Auth
  imports Prelude
begin

text \<open>
  The sign-in state of the web app (auth/store.ts) and its one client, the API wrapper (booking/api.ts) with
  its key tracker (booking/intent.ts). Promises become explicit: a refresh is a numbered request, and its
  answer and its \<open>finally\<close> callback are separate events. \<open>dec\<close> is \<open>decodeJwtExpiry\<close> (base64 and JSON).
\<close>

section \<open>The store\<close>

definition TOKEN_EXPIRY_SKEW_MS :: int where
  "TOKEN_EXPIRY_SKEW_MS = 30000"

record auth_user =
  au_id :: string
  au_role :: string
  au_phone :: string

text \<open>\<open>ws_inflight\<close> is \<open>inflightRefresh\<close>; \<open>ws_pending\<close> maps a request to the generation its closure captured.\<close>

record 't auth_store =
  ws_user :: "auth_user option"
  ws_jwt :: "'t option"
  ws_expiresAt :: "instant option"
  ws_signedOut :: bool
  ws_sessionGen :: nat
  ws_inflight :: "nat option"
  ws_pending :: "nat \<Rightarrow> nat option"
  ws_next :: nat

definition initial_auth :: "'t auth_store" where
  "initial_auth = \<lparr>ws_user = None, ws_jwt = None, ws_expiresAt = None, ws_signedOut = False, ws_sessionGen = 0,
     ws_inflight = None, ws_pending = Map.empty, ws_next = 0\<rparr>"

definition setAuth :: "('t \<Rightarrow> instant option) \<Rightarrow> auth_user \<Rightarrow> 't \<Rightarrow> 't auth_store \<Rightarrow> 't auth_store" where
  "setAuth dec u t a = a\<lparr>ws_user := Some u, ws_jwt := Some t, ws_expiresAt := dec t, ws_signedOut := False\<rparr>"

definition needsFreshToken :: "instant \<Rightarrow> 't auth_store \<Rightarrow> bool" where
  "needsFreshToken now a \<longleftrightarrow> ws_jwt a = None
     \<or> (case ws_expiresAt a of None \<Rightarrow> False | Some e \<Rightarrow> e - now \<le> TOKEN_EXPIRY_SKEW_MS)"

definition drop_session :: "'t auth_store \<Rightarrow> 't auth_store" where
  "drop_session a = a\<lparr>ws_inflight := None, ws_user := None, ws_jwt := None, ws_expiresAt := None, ws_signedOut := True,
     ws_sessionGen := ws_sessionGen a + 1\<rparr>"

datatype 't auth_request = RefreshRequest | LogoutRequest 't

datatype 't refresh_reply = ReplyFailed | ReplyRefused | ReplyGranted 't auth_user

text \<open>Local state first; then the server: the cookie is rotated when the token is stale, and logout revokes it.\<close>

definition signOut :: "instant \<Rightarrow> 't refresh_reply \<Rightarrow> 't auth_store \<Rightarrow> 't auth_request list \<times> 't auth_store" where
  "signOut now reply a =
     ((if needsFreshToken now a
       then RefreshRequest # (case reply of ReplyGranted t _ \<Rightarrow> [LogoutRequest t] | _ \<Rightarrow> [])
       else (case ws_jwt a of Some t \<Rightarrow> [LogoutRequest t] | None \<Rightarrow> [])),
      drop_session a)"

text \<open>What a caller of \<open>refreshAccessToken\<close> waits for: nothing, or a request.\<close>

definition refreshAccessToken :: "'t auth_store \<Rightarrow> nat option \<times> 't auth_store" where
  "refreshAccessToken a =
     (if ws_signedOut a then (None, a)
      else case ws_inflight a of
          Some p \<Rightarrow> (Some p, a)
        | None \<Rightarrow>
            (Some (ws_next a), a\<lparr>ws_inflight := Some (ws_next a), ws_pending := (ws_pending a)(ws_next a \<mapsto> ws_sessionGen a), ws_next := ws_next a + 1\<rparr>))"

definition clear_session :: "nat \<Rightarrow> 't auth_store \<Rightarrow> 't auth_store" where
  "clear_session gen a = (if ws_sessionGen a = gen then a\<lparr>ws_user := None, ws_jwt := None, ws_expiresAt := None\<rparr> else a)"

definition on_refresh_reply :: "('t \<Rightarrow> instant option) \<Rightarrow> nat \<Rightarrow> 't refresh_reply \<Rightarrow> 't auth_store \<Rightarrow> 't option \<times> 't auth_store" where
  "on_refresh_reply dec p reply a =
     (case ws_pending a p of
        None \<Rightarrow> (None, a)
      | Some gen \<Rightarrow>
          let b = a\<lparr>ws_pending := (ws_pending a)(p := None)\<rparr> in
          (case reply of
             ReplyGranted t u \<Rightarrow>
               if ws_sessionGen b \<noteq> gen then (None, b)
               else (Some t, b\<lparr>ws_jwt := Some t, ws_user := Some u, ws_expiresAt := dec t\<rparr>)
           | _ \<Rightarrow> (None, clear_session gen b)))"

definition on_refresh_settled :: "nat \<Rightarrow> 't auth_store \<Rightarrow> 't auth_store" where
  "on_refresh_settled p a = (if ws_inflight a = Some p \<and> ws_pending a p = None then a\<lparr>ws_inflight := None\<rparr> else a)"

datatype 't token_result = HaveToken 't | WaitFor "nat option"

definition getAccessToken :: "instant \<Rightarrow> 't auth_store \<Rightarrow> 't token_result \<times> 't auth_store" where
  "getAccessToken now a =
     (case ws_jwt a of
        Some t \<Rightarrow>
          if (case ws_expiresAt a of None \<Rightarrow> True | Some e \<Rightarrow> TOKEN_EXPIRY_SKEW_MS < e - now) then (HaveToken t, a)
          else (case refreshAccessToken a of (p, b) \<Rightarrow> (WaitFor p, b))
      | None \<Rightarrow> (case refreshAccessToken a of (p, b) \<Rightarrow> (WaitFor p, b)))"

section \<open>Runs\<close>

datatype 't auth_event =
    SignIn auth_user 't
  | SignOut instant "'t refresh_reply"
  | NeedToken instant
  | Refresh
  | RefreshReply nat "'t refresh_reply"
  | RefreshSettled nat

fun auth_event_step :: "('t \<Rightarrow> instant option) \<Rightarrow> 't auth_event \<Rightarrow> 't auth_store \<Rightarrow> 't auth_store" where
  "auth_event_step dec (SignIn u t) a = setAuth dec u t a"
| "auth_event_step dec (SignOut now reply) a = snd (signOut now reply a)"
| "auth_event_step dec (NeedToken now) a = snd (getAccessToken now a)"
| "auth_event_step dec Refresh a = snd (refreshAccessToken a)"
| "auth_event_step dec (RefreshReply p reply) a = snd (on_refresh_reply dec p reply a)"
| "auth_event_step dec (RefreshSettled p) a = on_refresh_settled p a"

definition auth_run :: "('t \<Rightarrow> instant option) \<Rightarrow> 't auth_event list \<Rightarrow> 't auth_store \<Rightarrow> 't auth_store" where
  "auth_run dec es a = fold (auth_event_step dec) es a"

definition is_sign_in :: "'t auth_event \<Rightarrow> bool" where
  "is_sign_in e = (case e of SignIn u t \<Rightarrow> True | _ \<Rightarrow> False)"

text \<open>Requests are numbered below \<open>ws_next\<close>, captured no later generation, and the one of this generation is in flight.\<close>

definition auth_ok :: "'t auth_store \<Rightarrow> bool" where
  "auth_ok a \<longleftrightarrow>
     (\<forall>p g. ws_pending a p = Some g \<longrightarrow> p < ws_next a \<and> g \<le> ws_sessionGen a \<and> (g = ws_sessionGen a \<longrightarrow> ws_inflight a = Some p))
     \<and> (\<forall>p q g. ws_pending a p = Some g \<longrightarrow> ws_pending a q = Some g \<longrightarrow> p = q)
     \<and> (\<forall>p. ws_inflight a = Some p \<longrightarrow> p < ws_next a)"

lemma refresh_call_ok:
  assumes "auth_ok a"
  shows "auth_ok (snd (refreshAccessToken a))"
proof (cases "ws_signedOut a \<or> ws_inflight a \<noteq> None")
  case True
  then show ?thesis using assms by (auto simp: refreshAccessToken_def)
next
  case False
  then have old: "\<And>p g. ws_pending a p = Some g \<Longrightarrow> p < ws_next a \<and> g < ws_sessionGen a"
    using assms by (force simp: auth_ok_def order_le_less)
  then have "ws_pending a p \<noteq> Some (ws_sessionGen a)" for p by blast
  then show ?thesis using False assms old by (auto simp: auth_ok_def refreshAccessToken_def less_Suc_eq less_imp_le)
qed

lemma auth_event_ok:
  assumes "auth_ok a"
  shows "auth_ok (auth_event_step dec e a)"
proof (cases e)
  case (SignOut now reply)
  then show ?thesis using assms by (fastforce simp: auth_ok_def signOut_def drop_session_def)
next
  case (NeedToken now)
  then show ?thesis using assms refresh_call_ok [OF assms] by (auto simp: getAccessToken_def case_prod_unfold split: option.splits)
next
  case (RefreshReply p reply)
  then show ?thesis using assms
    by (auto simp: auth_ok_def on_refresh_reply_def clear_session_def Let_def split: option.splits refresh_reply.splits if_splits)
qed (use assms refresh_call_ok [OF assms] in \<open>auto simp: auth_ok_def setAuth_def on_refresh_settled_def\<close>)

interpretation web_auth: transition_system "\<lambda>a. a = initial_auth" "\<lambda>a b. \<exists>e. b = auth_event_step dec e a" auth_ok for dec
  proof
  show "auth_ok a" if "a = initial_auth" for a :: "'a auth_store" using that by (simp add: auth_ok_def initial_auth_def)
qed (auto intro: auth_event_ok)

lemma auth_run_ok: "auth_ok a \<Longrightarrow> auth_ok (auth_run dec es a)"
  by (induction es arbitrary: a) (simp_all add: auth_run_def auth_event_ok)

lemma auth_run_append: "auth_run dec (es @ fs) a = auth_run dec fs (auth_run dec es a)"
  by (simp add: auth_run_def)

text \<open>Signed out: no session, and no request of this generation is left.\<close>

definition signed_out_state :: "'t auth_store \<Rightarrow> bool" where
  "signed_out_state a \<longleftrightarrow> ws_signedOut a \<and> ws_jwt a = None \<and> ws_user a = None \<and> (\<forall>p. ws_pending a p \<noteq> Some (ws_sessionGen a))"

lemma sign_out_enters: "auth_ok a \<Longrightarrow> signed_out_state (drop_session a)"
  by (force simp: signed_out_state_def drop_session_def auth_ok_def)

lemma signed_out_keeps:
  assumes "signed_out_state a" "auth_ok a" "\<not> is_sign_in e"
  shows "signed_out_state (auth_event_step dec e a)"
proof (cases e)
  case (SignOut now reply)
  then show ?thesis using sign_out_enters [OF assms(2)] by (simp add: signOut_def)
next
  case (RefreshReply p reply)
  then show ?thesis using assms(1)
    by (auto simp: signed_out_state_def on_refresh_reply_def clear_session_def Let_def split: option.splits refresh_reply.splits if_splits)
qed (use assms in \<open>auto simp: signed_out_state_def is_sign_in_def getAccessToken_def refreshAccessToken_def on_refresh_settled_def\<close>)

lemma signed_out_run:
  assumes "signed_out_state a" "auth_ok a" "\<forall>e \<in> set es. \<not> is_sign_in e"
  shows "signed_out_state (auth_run dec es a)"
  using assms
proof (induction es arbitrary: a)
  case (Cons e es)
  then show ?case using signed_out_keeps [OF Cons.prems(1,2), of e dec] auth_event_ok [OF Cons.prems(2), of dec e] by (simp add: auth_run_def)
qed (simp add: auth_run_def)

text \<open>
  A sign-in does not start a new generation, so a refresh that was in flight before it and is refused after it
  drops the new session.
\<close>

lemma late_refusal_drops_new_login:
  "ws_jwt (auth_run dec [Refresh, SignIn u t] initial_auth) = Some t
   \<and> ws_jwt (auth_run dec [Refresh, SignIn u t, RefreshReply 0 ReplyRefused] initial_auth) = None"
  by (simp add: auth_run_def refreshAccessToken_def initial_auth_def setAuth_def on_refresh_reply_def clear_session_def)

section \<open>Requests\<close>

record booking_api_error =
  ae_status :: int
  ae_code :: string
  ae_message :: string

definition isRoutingUnavailable :: "booking_api_error \<Rightarrow> bool" where
  "isRoutingUnavailable e \<longleftrightarrow> ae_code e = ''routing_unavailable'' \<or> ae_status e = 503"

definition isQuoteExpired :: "booking_api_error \<Rightarrow> bool" where
  "isQuoteExpired e \<longleftrightarrow> ae_code e = ''quote_expired''"

definition isIdempotencyConflict :: "booking_api_error \<Rightarrow> bool" where
  "isIdempotencyConflict e \<longleftrightarrow> ae_status e = 422 \<and> ae_code e = ''idempotency_key_conflict''"

definition isIdempotencyInProgress :: "booking_api_error \<Rightarrow> bool" where
  "isIdempotencyInProgress e \<longleftrightarrow> ae_status e = 409 \<and> ae_code e = ''idempotency_request_in_progress''"

definition isIdempotencyKeyInvalid :: "booking_api_error \<Rightarrow> bool" where
  "isIdempotencyKeyInvalid e \<longleftrightarrow> ae_status e = 400 \<and> ae_code e = ''idempotency_key_invalid''"

text \<open>A response: status, its text, and the fields of an error body when it parses (nested first).\<close>

record 'b api_response =
  as_status :: int
  as_statusText :: string
  as_code :: "string option"
  as_message :: "string option"
  as_body :: 'b

definition parseOrThrow :: "'b api_response \<Rightarrow> booking_api_error + 'b" where
  "parseOrThrow r =
     (if 200 \<le> as_status r \<and> as_status r \<le> 299 then Inr (as_body r)
      else Inl \<lparr>ae_status = as_status r, ae_code = (case as_code r of Some c \<Rightarrow> c | None \<Rightarrow> ''http_error''),
                ae_message = (case as_message r of Some m \<Rightarrow> m | None \<Rightarrow> as_statusText r)\<rparr>)"

datatype web_failure = ApiFailure booking_api_error | NetworkFailure

text \<open>
  The world \<open>'w\<close> is the auth store and the server; \<open>token\<close> and \<open>fresh\<close> are \<open>getAccessToken\<close> and
  \<open>refreshAccessToken\<close> run to completion, \<open>send\<close> one HTTP exchange.
\<close>

definition authedFetch ::
  "('w \<Rightarrow> 't option \<times> 'w) \<Rightarrow> ('w \<Rightarrow> 't option \<times> 'w) \<Rightarrow> ('q \<Rightarrow> 't \<Rightarrow> 'w \<Rightarrow> 'b api_response option \<times> 'w) \<Rightarrow> 'q \<Rightarrow> 'w
   \<Rightarrow> (web_failure + 'b api_response) \<times> 'w" where
  "authedFetch token fresh send q w =
     (case token w of
        (None, w1) \<Rightarrow> (Inl (ApiFailure \<lparr>ae_status = 401, ae_code = ''unauthenticated'', ae_message = ''Not signed in''\<rparr>), w1)
      | (Some t, w1) \<Rightarrow>
          (case send q t w1 of
             (None, w2) \<Rightarrow> (Inl NetworkFailure, w2)
           | (Some r, w2) \<Rightarrow>
               if as_status r \<noteq> 401 then (Inr r, w2)
               else (case fresh w2 of
                       (None, w3) \<Rightarrow> (Inr r, w3)
                     | (Some t', w3) \<Rightarrow>
                         (case send q t' w3 of
                            (None, w4) \<Rightarrow> (Inl NetworkFailure, w4)
                          | (Some r', w4) \<Rightarrow> (Inr r', w4)))))"

definition postJson where
  "postJson token fresh send q w =
     (case authedFetch token fresh send q w of
        (Inl e, w') \<Rightarrow> (Inl e, w')
      | (Inr r, w') \<Rightarrow> (case parseOrThrow r of Inl e \<Rightarrow> (Inl (ApiFailure e), w') | Inr b \<Rightarrow> (Inr b, w')))"

definition postIdempotent where
  "postIdempotent token fresh send wait q w =
     (case postJson token fresh send q w of
        (Inl (ApiFailure e), w') \<Rightarrow>
          if isIdempotencyInProgress e then postJson token fresh send q (wait w') else (Inl (ApiFailure e), w')
      | x \<Rightarrow> x)"

section \<open>Keys\<close>

definition keyFor :: "'f \<Rightarrow> string \<Rightarrow> ('f \<times> string) option \<Rightarrow> string \<times> ('f \<times> string) option" where
  "keyFor fp new cur =
     (case cur of
        Some (f, k) \<Rightarrow> if f = fp then (k, cur) else (new, Some (fp, new))
      | None \<Rightarrow> (new, Some (fp, new)))"

definition clear_intent :: "('f \<times> string) option \<Rightarrow> ('f \<times> string) option" where
  "clear_intent cur = None"

end
