(* ===== verification/Http_Edge.thy ===== *)
theory Http_Edge
  imports Rides_Controller Web_Auth
begin

text \<open>
  The HTTP edge: the request id (request-id.middleware.ts), the filter that turns every exception into the error
  envelope (app-exception.filter.ts), the exceptions the ride endpoints and the bearer guard throw
  (osrm-unavailable.exception.ts, rides.controller.ts, auth.guard.ts), and what the web client reads from the
  answer (booking/api.ts). The message texts are the parameter \<open>txt\<close>; logging is left out.
\<close>

section \<open>The filter\<close>

text \<open>\<open>getResponse()\<close>: a text, or an object with its \<open>code\<close> and \<open>message\<close> members where it has them.\<close>

datatype exception_body = TextBody string | ObjectBody "string option" "string option"

datatype thrown = HttpException int exception_body | OtherException

definition thrown_status :: "thrown \<Rightarrow> int" where
  "thrown_status x = (case x of HttpException st _ \<Rightarrow> st | OtherException \<Rightarrow> 500)"

definition code_of_status :: "int \<Rightarrow> string" where
  "code_of_status st =
     (if st = 404 then ''not_found'' else if st = 401 then ''unauthorized'' else if st = 429 then ''rate_limited'' else ''internal_error'')"

definition filter_code :: "thrown \<Rightarrow> string" where
  "filter_code x =
     (case x of
        HttpException st (ObjectBody (Some c) _) \<Rightarrow> c
      | _ \<Rightarrow> code_of_status (thrown_status x))"

definition filter_message :: "thrown \<Rightarrow> string" where
  "filter_message x =
     (case x of
        HttpException st (TextBody m) \<Rightarrow> m
      | HttpException st (ObjectBody _ (Some m)) \<Rightarrow> m
      | _ \<Rightarrow> ''An error occurred'')"

record error_envelope =
  en_code :: string
  en_message :: string
  en_request_id :: string

definition catch_exception :: "thrown \<Rightarrow> string option \<Rightarrow> int \<times> error_envelope" where
  "catch_exception x rid =
     (thrown_status x,
      \<lparr>en_code = filter_code x, en_message = filter_message x, en_request_id = (case rid of Some i \<Rightarrow> i | None \<Rightarrow> '''')\<rparr>)"

text \<open>The middleware keeps the caller's id; an empty one counts as absent.\<close>

definition request_id :: "string \<Rightarrow> string option \<Rightarrow> string" where
  "request_id new header = (case header of Some i \<Rightarrow> if i = [] then new else i | None \<Rightarrow> new)"

section \<open>What is thrown\<close>

definition http_exception :: "(string \<Rightarrow> string) \<Rightarrow> http_error \<Rightarrow> thrown" where
  "http_exception txt e =
     (case e of
        Bad_request c \<Rightarrow> HttpException 400 (ObjectBody (Some c) (Some (txt c)))
      | Conflict_error c \<Rightarrow> HttpException 409 (ObjectBody (Some c) (Some (txt c)))
      | Unprocessable c \<Rightarrow> HttpException 422 (ObjectBody (Some c) (Some (txt c)))
      | Not_found_error c \<Rightarrow> HttpException 404 (ObjectBody (Some c) (Some (txt c)))
      | Forbidden_error c \<Rightarrow> HttpException 403 (ObjectBody (Some c) (Some (txt c))))"

text \<open>\<open>OsrmUnavailableException\<close> passes its code as the response text.\<close>

definition osrm_unavailable_exception :: thrown where
  "osrm_unavailable_exception = HttpException 503 (TextBody ''routing_unavailable'')"

definition route_exception :: "route_error \<Rightarrow> thrown" where
  "route_exception e = (case e of Route_osrm_unavailable \<Rightarrow> osrm_unavailable_exception | Route_empty \<Rightarrow> OtherException)"

definition pricing_exception :: "pricing_error \<Rightarrow> thrown" where
  "pricing_exception e = (if e = Osrm_unavailable then osrm_unavailable_exception else OtherException)"

text \<open>An exception thrown by the quoter inside a transaction leaves it as \<open>thrown_in_tx\<close>.\<close>

definition db_exception :: "db_error \<Rightarrow> thrown" where
  "db_exception e = (if e = thrown_in_tx Osrm_unavailable then osrm_unavailable_exception else OtherException)"

definition exception_of :: "(string \<Rightarrow> string) \<Rightarrow> api_error \<Rightarrow> thrown" where
  "exception_of txt e =
     (case e of
        Http h \<Rightarrow> http_exception txt h
      | Fare_unavailable _ \<Rightarrow> HttpException 500 (ObjectBody (Some ''fare_unavailable'') (Some (txt ''fare_unavailable'')))
      | Pricing_failed p \<Rightarrow> pricing_exception p
      | Route_failed r \<Rightarrow> route_exception r
      | Match_failed (Match_route r) \<Rightarrow> route_exception r
      | Match_failed (Match_db d) \<Rightarrow> db_exception d
      | Db_failed d \<Rightarrow> db_exception d)"

definition guard_exception :: "(string \<Rightarrow> string) \<Rightarrow> guard_error \<Rightarrow> thrown" where
  "guard_exception txt g =
     HttpException 401 (ObjectBody (Some ''unauthorized'')
       (Some (case g of Missing_bearer \<Rightarrow> txt ''missing_bearer'' | Invalid_token \<Rightarrow> txt ''invalid_token'')))"

text \<open>The global \<open>ValidationPipe\<close> throws an object that has no \<open>code\<close>.\<close>

definition validation_exception :: "string \<Rightarrow> thrown" where
  "validation_exception m = HttpException 400 (ObjectBody None (Some m))"

section \<open>On the wire\<close>

text \<open>The client reads the members of \<open>error\<close>; only a success has a result.\<close>

definition error_answer :: "string option \<Rightarrow> thrown \<Rightarrow> 'b option api_response" where
  "error_answer rid x =
     (case catch_exception x rid of
        (st, en) \<Rightarrow> \<lparr>as_status = st, as_statusText = '''', as_code = Some (en_code en), as_message = Some (en_message en), as_body = None\<rparr>)"

definition created_answer :: "'b \<Rightarrow> 'b option api_response" where
  "created_answer b = \<lparr>as_status = 201, as_statusText = '''', as_code = None, as_message = None, as_body = Some b\<rparr>"

text \<open>\<open>POST /v1/rides\<close> behind its guard.\<close>

definition answer_create ::
  "(string \<Rightarrow> string) \<Rightarrow> string option \<Rightarrow> 't jwt \<Rightarrow> (canonical \<Rightarrow> string) \<Rightarrow> booking_env \<Rightarrow> seat_env \<Rightarrow> 't auth_header
   \<Rightarrow> 't create_dto \<Rightarrow> string option \<Rightarrow> db \<Rightarrow> booking_answer option api_response \<times> db" where
  "answer_create txt rid j sha be se h d rawKey s =
     (case canActivate j h (be_clk be) of
        Inl g \<Rightarrow> (error_answer rid (guard_exception txt g), s)
      | Inr user \<Rightarrow>
          (case create_ride j sha be se user d rawKey s of
             (Inl err, s') \<Rightarrow> (error_answer rid (exception_of txt err), s')
           | (Inr (a, _), s') \<Rightarrow> (created_answer a, s')))"

section \<open>Facts\<close>

lemmas edge_defs = error_answer_def catch_exception_def thrown_status_def filter_code_def filter_message_def parseOrThrow_def

lemma validation_code: "parseOrThrow (error_answer rid (validation_exception m)) = Inl \<lparr>ae_status = 400, ae_code = ''internal_error'', ae_message = m\<rparr>"
  by (simp add: edge_defs validation_exception_def code_of_status_def)

lemma osrm_code:
  "parseOrThrow (error_answer rid osrm_unavailable_exception) = Inl \<lparr>ae_status = 503, ae_code = ''internal_error'', ae_message = ''routing_unavailable''\<rparr>"
  by (simp add: edge_defs osrm_unavailable_exception_def code_of_status_def)

lemma other_code:
  "parseOrThrow (error_answer rid OtherException) = Inl \<lparr>ae_status = 500, ae_code = ''internal_error'', ae_message = ''An error occurred''\<rparr>"
  by (simp add: edge_defs code_of_status_def)

definition http_code :: "http_error \<Rightarrow> int \<times> string" where
  "http_code e =
     (case e of Bad_request c \<Rightarrow> (400, c) | Conflict_error c \<Rightarrow> (409, c) | Unprocessable c \<Rightarrow> (422, c)
      | Not_found_error c \<Rightarrow> (404, c) | Forbidden_error c \<Rightarrow> (403, c))"

lemma http_answer:
  "parseOrThrow (error_answer rid (http_exception txt e))
   = Inl \<lparr>ae_status = fst (http_code e), ae_code = snd (http_code e), ae_message = txt (snd (http_code e))\<rparr>"
  by (cases e) (simp_all add: edge_defs http_exception_def http_code_def)

text \<open>What \<open>create\<close> refuses with.\<close>

definition create_refusals :: "http_error set" where
  "create_refusals = {Forbidden_error ''forbidden'', Bad_request ''idempotency_key_required'', Bad_request ''idempotency_key_invalid'',
     Bad_request ''invalid_quote'', Bad_request ''quote_expired'', Bad_request ''quote_mismatch'', Bad_request ''scheduled_for_required'',
     Bad_request ''scheduled_for_out_of_window'', key_conflict, Conflict_error ''pool_conflict'',
     Conflict_error ''passenger_has_active_pool'', Conflict_error ''idempotency_request_in_progress''}"

definition create_refusal :: "api_error \<Rightarrow> bool" where
  "create_refusal e \<longleftrightarrow> (case e of Http h \<Rightarrow> h \<in> create_refusals | Pricing_failed _ \<Rightarrow> False | Route_failed _ \<Rightarrow> False | _ \<Rightarrow> True)"

lemma parse_key_refusal: "parseIdempotencyKey raw required = Inl e \<Longrightarrow> e \<in> create_refusals"
  by (auto simp: parseIdempotencyKey_def create_refusals_def split: option.splits if_splits)

lemma verify_refusal: "verifyQuote j d clk = Inl e \<Longrightarrow> e \<in> create_refusals"
  by (auto simp: verifyQuote_def create_refusals_def split: option.splits sum.splits jwt_error.splits if_splits)

lemma replay_refusal: "replaySolo s pid oper key fp = Inl e \<Longrightarrow> e \<in> create_refusals"
  by (auto simp: replaySolo_def create_refusals_def split: option.splits prod.splits if_splits)

lemma book_refusal: "book e pid fp params s = (Inl err, s') \<Longrightarrow> create_refusal err"
  by (auto simp: book_def create_refusal_def create_refusals_def split: sum.splits prod.splits if_splits)

lemma normal_refusal: "createNormal j sha e pid d rawKey s = (Inl err, s') \<Longrightarrow> create_refusal err"
  using parse_key_refusal [of rawKey True] replay_refusal [of s pid OpSolo] verify_refusal [of j d "be_clk e"]
  by (auto simp: createNormal_def Let_def dest: book_refusal split: sum.splits option.splits if_splits)
    (auto simp: create_refusal_def create_refusals_def)

lemma scheduled_refusal: "createScheduled j sha e pid d rawKey s = (Inl err, s') \<Longrightarrow> create_refusal err"
  using parse_key_refusal [of rawKey True] replay_refusal [of s pid OpScheduled] verify_refusal [of j d "be_clk e"]
  by (auto simp: createScheduled_def Let_def dest: book_refusal split: sum.splits option.splits if_splits prod.splits)
    (auto simp: create_refusal_def create_refusals_def)

lemma seat_refusal: "seatResponse pid x = Inl e \<Longrightarrow> create_refusal e"
  by (auto simp: seatResponse_def create_refusal_def split: option.splits)

lemma existing_refusal: "existingSharedSeat e pid sc s = (Inl err, s') \<Longrightarrow> create_refusal err"
  by (auto simp: existingSharedSeat_def Let_def dest: seat_refusal split: option.splits sum.splits if_splits)

lemma allocate_refusal:
  assumes "allocateSharedSeat e pid d scope s = (Inl err, s')"
  shows "create_refusal err"
proof -
  have http: "create_refusal (Http (Conflict_error ''pool_conflict''))" "create_refusal (Http (Conflict_error ''passenger_has_active_pool''))"
    and m: "create_refusal (Match_failed x)" for x
    by (simp_all add: create_refusal_def create_refusals_def)
  have seat: "map_sum id f x = Inl err \<Longrightarrow> x = Inl err" for f :: "seat_response \<Rightarrow> seat_response \<times> booking_effect list" and x
    by (cases x) simp_all
  show ?thesis using assms
    by (auto simp: allocateSharedSeat_def Let_def http m dest!: seat dest: existing_refusal seat_refusal
        split: prod.splits sum.splits match_result.splits conflict_reason.splits option.splits if_splits)
qed

lemma released_refusal: "release_after e sc r = (Inl err, s') \<Longrightarrow> fst r = Inl err"
  by (auto simp: release_after_def split: prod.splits sum.splits)

lemma shared_refusal:
  assumes "createShared sha e pid d rawKey s = (Inl err, s')"
  shows "create_refusal err"
proof -
  have http: "create_refusal (Http key_conflict)" "create_refusal (Http (Conflict_error ''idempotency_request_in_progress''))"
    and db: "create_refusal (Db_failed x)" for x
    by (simp_all add: create_refusal_def create_refusals_def)
  have key: "parseIdempotencyKey rawKey False = Inl x \<Longrightarrow> create_refusal (Http x)" for x
    using parse_key_refusal by (simp add: create_refusal_def)
  have again: "fst (case existingSharedSeat e pid sc s1 of (Inl err, s2) \<Rightarrow> (Inl err, s2)
      | (Inr None, s2) \<Rightarrow> allocateSharedSeat e pid d (Some sc) s2 | (Inr (Some resp), s2) \<Rightarrow> (Inr (resp, []), s2)) = Inl err
      \<Longrightarrow> create_refusal err" for sc s1
    by (auto simp: fst_def dest: existing_refusal allocate_refusal split: prod.splits sum.splits option.splits)
  have new: "fst (allocateSharedSeat e pid d (Some sc) s1) = Inl err \<Longrightarrow> create_refusal err" for sc s1
    using allocate_refusal [of e pid d "Some sc" s1] by (cases "allocateSharedSeat e pid d (Some sc) s1") auto
  show ?thesis using assms
    by (auto simp: createShared_def Let_def http db key dest: allocate_refusal existing_refusal
        dest!: released_refusal again new split: prod.splits sum.splits option.splits if_splits idem_claim.splits idem_state.splits)
qed

lemma create_ride_refusal:
  assumes "create_ride j sha be se user d rawKey s = (Inl err, s')"
  shows "create_refusal err"
proof (cases "ac_role user = RoleClient")
  case False
  then show ?thesis using assms by (auto simp: create_ride_def create_refusal_def create_refusals_def)
next
  case True
  obtain r1 s1 r2 s2 r3 s3 where r: "createNormal j sha be (ac_sub user) d rawKey s = (r1, s1)"
      "createScheduled j sha be (ac_sub user) d rawKey s = (r2, s2)" "createShared sha se (ac_sub user) d rawKey s = (r3, s3)"
    by (metis prod.exhaust)
  then show ?thesis using assms True
    by (cases "cd_type d"; cases r1; cases r2; cases r3) (auto simp: create_ride_def dest: normal_refusal scheduled_refusal shared_refusal)
qed

end
