(* ===== verification/Book_Page.thy ===== *)
theory Book_Page
  imports Web_Client Web_Auth
begin

text \<open>
  The booking page (app/book/book-client.tsx): its effects and callbacks over the booking store, the intent key
  and the saved ride. An event is a user action or an answer that arrives; the effects whose dependencies
  changed run after it, as React does before the next task. \<open>copy\<close> is the text shown for a message. The fetches
  themselves, sockets and rendering are left out.
\<close>

section \<open>The page\<close>

text \<open>Ride type and the coordinates of both ends: the string \<open>quoteKey\<close>.\<close>

type_synonym route_key = "web_ride_type \<times> (real \<times> real) \<times> real \<times> real"

definition quoteKey :: "'q booking \<Rightarrow> route_key option" where
  "quoteKey b =
     (case (bs_pickup b, bs_dropoff b) of
        (Some p, Some d) \<Rightarrow> Some (bs_rideType b, (pl_lat p, pl_lng p), pl_lat d, pl_lng d)
      | _ \<Rightarrow> None)"

definition tracking :: "'q booking \<Rightarrow> bool" where
  "tracking b \<longleftrightarrow> bs_stage b = Tracking"

text \<open>
  \<open>pg_run\<close> is the quote request not yet superseded, \<open>pg_fetches\<close> what each unanswered request asked for;
  \<open>pg_deps\<close>, \<open>pg_wasAuthed\<close> and \<open>pg_seenStatus\<close> are the dependencies the effects last ran with.
\<close>

type_synonym quote_deps = "route_key option \<times> nat \<times> nat \<times> bool \<times> bool"

record 'q page =
  pg_authed :: bool
  pg_store :: "'q booking"
  pg_nonce :: nat
  pg_key :: "(route_key \<times> string) option"
  pg_deps :: "quote_deps option"
  pg_run :: "nat option"
  pg_fetches :: "nat \<Rightarrow> route_key option"
  pg_next :: nat
  pg_saved :: "uuid option"
  pg_wasAuthed :: "bool option"
  pg_restoring :: "uuid option"
  pg_seenStatus :: "ride_status option"

definition initial_page :: "bool \<Rightarrow> uuid option \<Rightarrow> 'q page" where
  "initial_page authed saved = \<lparr>pg_authed = authed, pg_store = initial_booking, pg_nonce = 0, pg_key = None, pg_deps = None,
     pg_run = None, pg_fetches = Map.empty, pg_next = 0, pg_saved = saved, pg_wasAuthed = None, pg_restoring = None, pg_seenStatus = None\<rparr>"

definition on_store :: "('q booking \<Rightarrow> 'q booking) \<Rightarrow> 'q page \<Rightarrow> 'q page" where
  "on_store f p = p\<lparr>pg_store := f (pg_store p)\<rparr>"

section \<open>Effects\<close>

definition quote_deps_of :: "'q page \<Rightarrow> quote_deps" where
  "quote_deps_of p = (quoteKey (pg_store p), pg_nonce p, bs_quoteEpoch (pg_store p), pg_authed p, tracking (pg_store p))"

text \<open>The cleanup supersedes the previous request; a new one is sent for the current route.\<close>

definition quote_effect :: "'q page \<Rightarrow> 'q page" where
  "quote_effect p =
     (if pg_deps p = Some (quote_deps_of p) then p
      else let p1 = p\<lparr>pg_deps := Some (quote_deps_of p), pg_run := None\<rparr> in
        (case quoteKey (pg_store p) of
           None \<Rightarrow> p1
         | Some k \<Rightarrow>
             if \<not> pg_authed p \<or> tracking (pg_store p) then p1
             else p1\<lparr>pg_store := startQuoting (pg_store p), pg_run := Some (pg_next p),
                     pg_fetches := (pg_fetches p)(pg_next p \<mapsto> k), pg_next := pg_next p + 1\<rparr>))"

definition restore_effect :: "'q page \<Rightarrow> 'q page" where
  "restore_effect p =
     (if pg_wasAuthed p = Some (pg_authed p) then p
      else p\<lparr>pg_wasAuthed := Some (pg_authed p),
             pg_restoring := (if \<not> pg_authed p \<or> bs_rideId (pg_store p) \<noteq> None \<or> bs_sharedRideId (pg_store p) \<noteq> None then None else pg_saved p)\<rparr>)"

text \<open>The statuses that drop the saved ride.\<close>

definition drops_saved :: "ride_status \<Rightarrow> bool" where
  "drops_saved st \<longleftrightarrow> st \<in> {Completed, No_driver, Cancelled}"

definition status_effect :: "'q page \<Rightarrow> 'q page" where
  "status_effect p =
     (if pg_seenStatus p = bs_rideStatus (pg_store p) then p
      else p\<lparr>pg_seenStatus := bs_rideStatus (pg_store p),
             pg_saved := (case bs_rideStatus (pg_store p) of Some st \<Rightarrow> if drops_saved st then None else pg_saved p | None \<Rightarrow> pg_saved p)\<rparr>)"

definition settle :: "'q page \<Rightarrow> 'q page" where
  "settle p = status_effect (restore_effect (quote_effect p))"

section \<open>Answers\<close>

datatype message_kind =
    Idempotency_conflict_msg | Idempotency_in_progress_msg | Idempotency_invalid_msg | Quote_expired_msg | Routing_unavailable_msg
  | Quote_failed_msg | Request_failed_msg

datatype 'q quote_reply = QuoteOk 'q | QuoteApiError booking_api_error | QuoteOtherError

definition on_quote_reply :: "(message_kind \<Rightarrow> string) \<Rightarrow> nat \<Rightarrow> 'q quote_reply \<Rightarrow> 'q page \<Rightarrow> 'q page" where
  "on_quote_reply copy n reply p =
     (let p1 = p\<lparr>pg_fetches := (pg_fetches p)(n := None)\<rparr> in
      if pg_run p \<noteq> Some n then p1
      else case reply of
          QuoteOk q \<Rightarrow> on_store (setQuote q) p1
        | QuoteApiError e \<Rightarrow>
            on_store (setQuoteError (if isRoutingUnavailable e then copy Routing_unavailable_msg else ae_message e)) p1
        | QuoteOtherError \<Rightarrow> on_store (setQuoteError (copy Quote_failed_msg)) p1)"

text \<open>The text for a failed create, and what it resets.\<close>

definition createErrorMessage :: "(message_kind \<Rightarrow> string) \<Rightarrow> booking_api_error option \<Rightarrow> 'q page \<Rightarrow> string \<times> 'q page" where
  "createErrorMessage copy err p =
     (case err of
        None \<Rightarrow> (copy Request_failed_msg, p)
      | Some e \<Rightarrow>
          if isQuoteExpired e then (copy Quote_expired_msg, on_store invalidateQuote (p\<lparr>pg_key := clear_intent (pg_key p)\<rparr>))
          else if isIdempotencyConflict e then (copy Idempotency_conflict_msg, p\<lparr>pg_key := clear_intent (pg_key p), pg_nonce := pg_nonce p + 1\<rparr>)
          else if isIdempotencyKeyInvalid e then (copy Idempotency_invalid_msg, p\<lparr>pg_key := clear_intent (pg_key p)\<rparr>)
          else if isIdempotencyInProgress e then (copy Idempotency_in_progress_msg, p)
          else (ae_message e, p))"

definition on_create_failed :: "(message_kind \<Rightarrow> string) \<Rightarrow> booking_api_error option \<Rightarrow> 'q page \<Rightarrow> 'q page" where
  "on_create_failed copy err p = (case createErrorMessage copy err p of (m, p1) \<Rightarrow> on_store (setRequestError m) p1)"

section \<open>Booking\<close>

text \<open>A request under its key, if the guard lets it through; \<open>new\<close> is what the key generator would return.\<close>

definition submitSolo :: "string \<Rightarrow> 'q page \<Rightarrow> (route_key \<times> 'q \<times> string) option \<times> 'q page" where
  "submitSolo new p =
     (case (quoteKey (pg_store p), bs_quote (pg_store p)) of
        (Some k, Some q) \<Rightarrow>
          if \<not> pg_authed p \<or> bs_rideType (pg_store p) \<noteq> WebPrivate then (None, p)
          else (case keyFor k new (pg_key p) of
                  (key, cur) \<Rightarrow> (Some (k, q, key), on_store startRequest (p\<lparr>pg_key := cur\<rparr>)))
      | _ \<Rightarrow> (None, p))"

definition on_solo_created :: "uuid \<Rightarrow> ride_status \<Rightarrow> 'q page \<Rightarrow> 'q page" where
  "on_solo_created i st p = on_store (setSoloRequested i st) (p\<lparr>pg_key := clear_intent (pg_key p), pg_saved := Some i\<rparr>)"

definition submit :: "string \<Rightarrow> 'q page \<Rightarrow> (route_key \<times> string) option \<times> 'q page" where
  "submit new p =
     (case quoteKey (pg_store p) of
        None \<Rightarrow> (None, p)
      | Some k \<Rightarrow>
          if \<not> pg_authed p \<or> bs_rideType (pg_store p) \<noteq> WebShared then (None, p)
          else (case keyFor k new (pg_key p) of (key, cur) \<Rightarrow> (Some (k, key), on_store startRequest (p\<lparr>pg_key := cur\<rparr>))))"

definition on_shared_created :: "bool \<Rightarrow> uuid \<Rightarrow> pool_state \<Rightarrow> int \<Rightarrow> 'q page \<Rightarrow> 'q page" where
  "on_shared_created opened i st fare p =
     on_store (if opened then setOpened i 1 st (Some fare) else setSlotted i 2 st (Some fare)) (p\<lparr>pg_key := clear_intent (pg_key p)\<rparr>)"

section \<open>Callbacks\<close>

definition handleMapClick :: "real \<Rightarrow> real \<Rightarrow> string \<Rightarrow> 'q page \<Rightarrow> 'q page" where
  "handleMapClick lat lng label p =
     on_store (setPoint (bs_activeField (pg_store p)) \<lparr>pl_lat = lat, pl_lng = lng, pl_label = label\<rparr>) p"

definition on_label :: "point_field \<Rightarrow> real \<Rightarrow> real \<Rightarrow> string \<Rightarrow> 'q page \<Rightarrow> 'q page" where
  "on_label f lat lng label p =
     (case point_at f (pg_store p) of
        Some x \<Rightarrow> if pl_lat x = lat \<and> pl_lng x = lng then on_store (setPoint f \<lparr>pl_lat = lat, pl_lng = lng, pl_label = label\<rparr>) p else p
      | None \<Rightarrow> p)"

definition clearActiveRide :: "'q page \<Rightarrow> 'q page" where
  "clearActiveRide p = on_store reset_booking (p\<lparr>pg_saved := None, pg_key := clear_intent (pg_key p)\<rparr>)"

text \<open>The store part of \<open>signOut\<close> is the loss of the token.\<close>

definition handleSignOut :: "'q page \<Rightarrow> 'q page" where
  "handleSignOut p = (clearActiveRide p)\<lparr>pg_authed := False\<rparr>"

definition rateActiveRide :: "'q page \<Rightarrow> 'q page" where
  "rateActiveRide p = (if \<not> pg_authed p \<or> bs_rideId (pg_store p) = None then p else on_store markRated p)"

text \<open>The answer of the restore fetch: a failure drops the saved ride even when the effect was cleaned up.\<close>

record saved_ride =
  sr_rideId :: uuid
  sr_status :: ride_status
  sr_origin :: "real \<times> real"
  sr_dropoff :: "real \<times> real"

definition on_restore_reply :: "string \<Rightarrow> string \<Rightarrow> uuid \<Rightarrow> saved_ride option \<Rightarrow> 'q page \<Rightarrow> 'q page" where
  "on_restore_reply from_label to_label i reply p =
     (case reply of
        None \<Rightarrow> p\<lparr>pg_saved := None\<rparr>
      | Some r \<Rightarrow>
          if pg_restoring p \<noteq> Some i then p
          else if drops_saved (sr_status r) then p\<lparr>pg_saved := None\<rparr>
          else on_store (\<lambda>b. setSoloRequested (sr_rideId r) (sr_status r)
                 (b\<lparr>bs_pickup := Some \<lparr>pl_lat = fst (sr_origin r), pl_lng = snd (sr_origin r), pl_label = from_label\<rparr>,
                    bs_dropoff := Some \<lparr>pl_lat = fst (sr_dropoff r), pl_lng = snd (sr_dropoff r), pl_label = to_label\<rparr>,
                    bs_rideType := WebPrivate\<rparr>)) p)"

section \<open>Runs\<close>

datatype 'q page_event =
    ChooseType web_ride_type
  | FocusField point_field
  | ChoosePoint point_field place
  | ChoosePreset place place
  | SwapClick
  | MapClick real real string
  | LabelArrived point_field real real string
  | RetryClick
  | QuoteArrived nat "'q quote_reply"
  | BookShared string
  | BookSolo string
  | SharedCreated bool uuid pool_state int
  | SoloCreated uuid ride_status
  | CreateFailed "booking_api_error option"
  | PoolChanged uuid int pool_state
  | RideChanged ride_status
  | DriverMoved uuid real real real
  | RateClick
  | SkipRating
  | NewBookingClick
  | NewPoolBookingClick
  | SignOutClick
  | AuthChanged bool
  | RestoreArrived uuid "saved_ride option"

text \<open>The driver of a push, and of the answer of a cancellation, is \<open>RideChanged\<close>.\<close>

fun handle :: "(message_kind \<Rightarrow> string) \<Rightarrow> 'q page_event \<Rightarrow> 'q page \<Rightarrow> 'q page" where
  "handle copy (ChooseType t) p = on_store (setRideType t) p"
| "handle copy (FocusField f) p = on_store (setActiveField f) p"
| "handle copy (ChoosePoint f x) p = on_store (setPoint f x) p"
| "handle copy (ChoosePreset a b) p = on_store (applyPreset a b) p"
| "handle copy SwapClick p = on_store swapPoints p"
| "handle copy (MapClick lat lng label) p = handleMapClick lat lng label p"
| "handle copy (LabelArrived f lat lng label) p = on_label f lat lng label p"
| "handle copy RetryClick p = p\<lparr>pg_nonce := pg_nonce p + 1\<rparr>"
| "handle copy (QuoteArrived n reply) p = on_quote_reply copy n reply p"
| "handle copy (BookShared new) p = snd (submit new p)"
| "handle copy (BookSolo new) p = snd (submitSolo new p)"
| "handle copy (SharedCreated opened i st fare) p = on_shared_created opened i st fare p"
| "handle copy (SoloCreated i st) p = on_solo_created i st p"
| "handle copy (CreateFailed err) p = on_create_failed copy err p"
| "handle copy (PoolChanged i n st) p = on_store (applyPoolUpdate i n st) p"
| "handle copy (RideChanged st) p = on_store (applyRideState st) p"
| "handle copy (DriverMoved i lat lng h) p = on_store (applyDriverLocation i lat lng h) p"
| "handle copy RateClick p = rateActiveRide p"
| "handle copy SkipRating p = on_store markRated p"
| "handle copy NewBookingClick p = clearActiveRide p"
| "handle copy NewPoolBookingClick p = on_store reset_booking p"
| "handle copy SignOutClick p = handleSignOut p"
| "handle copy (AuthChanged b) p = p\<lparr>pg_authed := b\<rparr>"
| "handle copy (RestoreArrived i reply) p = on_restore_reply ''Pickup'' ''Dropoff'' i reply p"

definition page_step :: "(message_kind \<Rightarrow> string) \<Rightarrow> 'q page_event \<Rightarrow> 'q page \<Rightarrow> 'q page" where
  "page_step copy e p = settle (handle copy e p)"

text \<open>
  A quote that arrives is an answer to what its request asked (\<open>ans\<close>); restoring a saved ride replaces the route
  under the quote and is left out of these runs.
\<close>

inductive page_run :: "(route_key \<Rightarrow> 'q \<Rightarrow> bool) \<Rightarrow> (message_kind \<Rightarrow> string) \<Rightarrow> 'q page \<Rightarrow> 'q page \<Rightarrow> bool" for ans copy where
  pr_start: "page_run ans copy p p"
| pr_step: "page_run ans copy p q \<Longrightarrow> (\<And>n x. e = QuoteArrived n (QuoteOk x) \<Longrightarrow> \<exists>k. pg_fetches q n = Some k \<and> ans k x)
    \<Longrightarrow> (\<And>i r. e \<noteq> RestoreArrived i (Some r)) \<Longrightarrow> page_run ans copy p (page_step copy e q)"

text \<open>The quote answers the route on the page; the request in flight asked for it; the effects are up to date.\<close>

definition quote_answers :: "(route_key \<Rightarrow> 'q \<Rightarrow> bool) \<Rightarrow> 'q booking \<Rightarrow> bool" where
  "quote_answers ans b \<longleftrightarrow> (\<forall>q. bs_quote b = Some q \<longrightarrow> (\<exists>k. quoteKey b = Some k \<and> ans k q))"

definition page_ok :: "(route_key \<Rightarrow> 'q \<Rightarrow> bool) \<Rightarrow> 'q page \<Rightarrow> bool" where
  "page_ok ans p \<longleftrightarrow>
     quote_answers ans (pg_store p)
     \<and> (\<forall>n k. pg_run p = Some n \<longrightarrow> pg_fetches p n = Some k \<longrightarrow> quoteKey (pg_store p) = Some k)
     \<and> (\<forall>n. pg_run p = Some n \<longrightarrow> n < pg_next p)
     \<and> pg_deps p = Some (quote_deps_of p)"

text \<open>What a handler may leave for the effects to put right: the request in flight may be for an older route.\<close>

definition almost_ok :: "(route_key \<Rightarrow> 'q \<Rightarrow> bool) \<Rightarrow> 'q page \<Rightarrow> bool" where
  "almost_ok ans p \<longleftrightarrow>
     quote_answers ans (pg_store p)
     \<and> (pg_deps p = Some (quote_deps_of p) \<longrightarrow>
          (\<forall>n k. pg_run p = Some n \<longrightarrow> pg_fetches p n = Some k \<longrightarrow> quoteKey (pg_store p) = Some k))
     \<and> (\<forall>n. pg_run p = Some n \<longrightarrow> n < pg_next p)"

lemma quoteKey_cong: "bs_pickup b = bs_pickup c \<Longrightarrow> bs_dropoff b = bs_dropoff c \<Longrightarrow> bs_rideType b = bs_rideType c \<Longrightarrow> quoteKey b = quoteKey c"
  by (simp add: quoteKey_def cong: option.case_cong)

lemma startQuoting_sel [simp]:
  "quoteKey (startQuoting b) = quoteKey b" "bs_quote (startQuoting b) = bs_quote b" "bs_quoteEpoch (startQuoting b) = bs_quoteEpoch b"
  "tracking (startQuoting b) = False"
  by (simp_all add: startQuoting_def quoteKey_def tracking_def cong: option.case_cong)

lemma settle_ok:
  assumes "almost_ok ans p"
  shows "page_ok ans (settle p)"
proof -
  have tail: "page_ok ans (status_effect (restore_effect p'))" if "page_ok ans p'" for p'
    using that by (auto simp: page_ok_def quote_answers_def status_effect_def restore_effect_def quote_deps_of_def)
  have "page_ok ans (quote_effect p)"
    using assms by (auto simp: page_ok_def almost_ok_def quote_answers_def quote_effect_def quote_deps_of_def Let_def split: option.splits)
  then show ?thesis unfolding settle_def by (rule tail)
qed

text \<open>A store action either keeps route and quote, or clears the quote and starts a new epoch.\<close>

definition keeps_or_clears :: "'q booking \<Rightarrow> 'q booking \<Rightarrow> bool" where
  "keeps_or_clears b c \<longleftrightarrow> quoteKey c = quoteKey b \<and> bs_quote c = bs_quote b \<or> bs_quote c = None \<and> bs_quoteEpoch c = bs_quoteEpoch b + 1"

lemma almostI:
  assumes "page_ok ans p" "pg_run p' = pg_run p" "pg_fetches p' = pg_fetches p" "pg_next p' = pg_next p" "pg_deps p' = pg_deps p"
    and "keeps_or_clears (pg_store p) (pg_store p')"
  shows "almost_ok ans p'"
proof -
  let ?b = "pg_store p" and ?c = "pg_store p'"
  have ok: "quote_answers ans ?b"
      "\<And>n k. pg_run p = Some n \<Longrightarrow> pg_fetches p n = Some k \<Longrightarrow> quoteKey ?b = Some k" "\<And>n. pg_run p = Some n \<Longrightarrow> n < pg_next p"
    using assms(1) unfolding page_ok_def by blast+
  have deps: "pg_deps p' = Some (quote_deps_of p)" using assms(1,5) unfolding page_ok_def by simp
  show ?thesis
  proof (cases "quoteKey ?c = quoteKey ?b \<and> bs_quote ?c = bs_quote ?b")
    case True
    then show ?thesis using ok assms(2-4) unfolding almost_ok_def quote_answers_def by simp
  next
    case False
    then have c: "bs_quote ?c = None" "bs_quoteEpoch ?c = bs_quoteEpoch ?b + 1" using assms(6) by (auto simp: keeps_or_clears_def)
    then have "pg_deps p' \<noteq> Some (quote_deps_of p')" unfolding deps by (simp add: quote_deps_of_def)
    then show ?thesis using ok(3) assms(2,4) c(1) unfolding almost_ok_def quote_answers_def by simp
  qed
qed

lemma clearQuote_clears: "bs_quoteEpoch c = bs_quoteEpoch b \<Longrightarrow> keeps_or_clears b (clearQuote c)"
  by (simp add: keeps_or_clears_def clearQuote_def)

lemma same_points_keep:
  "bs_pickup c = bs_pickup b \<Longrightarrow> bs_dropoff c = bs_dropoff b \<Longrightarrow> bs_rideType c = bs_rideType b \<Longrightarrow> bs_quote c = bs_quote b
   \<Longrightarrow> keeps_or_clears b c"
  unfolding keeps_or_clears_def by (intro disjI1 conjI quoteKey_cong)

lemma setPoint_cases: "keeps_or_clears b (setPoint f x b)"
proof (cases "case point_at f b of None \<Rightarrow> False | Some y \<Rightarrow> pl_lat y = pl_lat x \<and> pl_lng y = pl_lng x")
  case True
  then have "quoteKey (put_point f x b) = quoteKey b" "bs_quote (put_point f x b) = bs_quote b"
    by (auto simp: quoteKey_def put_point_def point_at_def split: option.splits point_field.splits)
  then show ?thesis using True by (simp add: setPoint_def keeps_or_clears_def)
next
  case False
  have "bs_quoteEpoch (put_point f x b) = bs_quoteEpoch b" by (simp add: put_point_def split: point_field.splits)
  then show ?thesis unfolding setPoint_def if_not_P [OF False] by (intro clearQuote_clears) simp
qed

lemma store_actions:
  "keeps_or_clears b (setRideType t b)" "keeps_or_clears b (setActiveField f b)" "keeps_or_clears b (applyPreset x y b)"
  "keeps_or_clears b (swapPoints b)" "keeps_or_clears b (reset_booking b)" "keeps_or_clears b (markRated b)"
  "keeps_or_clears b (applyPoolUpdate i n pst b)" "keeps_or_clears b (applyRideState st b)" "keeps_or_clears b (applyDriverLocation i lat lng h b)"
  "keeps_or_clears b (setSoloRequested i st b)" "keeps_or_clears b (setOpened i n pst fare b)" "keeps_or_clears b (setSlotted i n pst fare b)"
  "keeps_or_clears b (setRequestError m b)" "keeps_or_clears b (startRequest b)" "keeps_or_clears b b" "keeps_or_clears b (setQuoteError m b)"
  "keeps_or_clears b (setRequestError m (invalidateQuote b))"
  by (auto simp: setRideType_def setActiveField_def applyPreset_def swapPoints_def markRated_def applyPoolUpdate_def applyRideState_def
      applyDriverLocation_def setSoloRequested_def setOpened_def setSlotted_def setRequestError_def startRequest_def setQuoteError_def
      intro: clearQuote_clears same_points_keep)
    (simp_all add: keeps_or_clears_def reset_booking_def initial_booking_def invalidateQuote_def clearQuote_def)

lemma handle_other:
  assumes "page_ok ans p" "\<And>n r. e \<noteq> QuoteArrived n r" "\<And>i r. e \<noteq> RestoreArrived i (Some r)"
  shows "almost_ok ans (handle copy e p)"
proof (rule almostI [OF assms(1)])
  show "pg_run (handle copy e p) = pg_run p" "pg_fetches (handle copy e p) = pg_fetches p" "pg_next (handle copy e p) = pg_next p"
    "pg_deps (handle copy e p) = pg_deps p"
    using assms(2,3) by (cases e; auto simp: on_store_def handleMapClick_def on_label_def submit_def submitSolo_def on_shared_created_def on_solo_created_def
      on_create_failed_def createErrorMessage_def clearActiveRide_def handleSignOut_def rateActiveRide_def on_restore_reply_def split: option.splits prod.splits if_splits)+
  show "keeps_or_clears (pg_store p) (pg_store (handle copy e p))"
    using assms(2,3) store_actions setPoint_cases
    by (cases e; auto simp: on_store_def handleMapClick_def on_label_def submit_def submitSolo_def on_shared_created_def on_solo_created_def
      on_create_failed_def createErrorMessage_def clearActiveRide_def handleSignOut_def rateActiveRide_def on_restore_reply_def split: option.splits prod.splits if_splits)
qed

lemma handle_quote:
  assumes "page_ok ans p" "\<And>x. reply = QuoteOk x \<Longrightarrow> \<exists>k. pg_fetches p n = Some k \<and> ans k x"
  shows "almost_ok ans (handle copy (QuoteArrived n reply) p)"
proof (cases "pg_run p = Some n")
  case False
  then show ?thesis using assms(1) by (auto simp: page_ok_def almost_ok_def on_quote_reply_def Let_def quote_deps_of_def)
next
  case True
  show ?thesis
  proof (cases reply)
    case (QuoteOk x)
    obtain k where "quoteKey (pg_store p) = Some k" "ans k x" using assms(1) [unfolded page_ok_def] assms(2) [OF QuoteOk] True by blast
    moreover have "quoteKey (setQuote x b) = quoteKey b" for b :: "'a booking" by (rule quoteKey_cong) (simp_all add: setQuote_def)
    ultimately show ?thesis using assms(1) True QuoteOk
      by (auto simp: page_ok_def almost_ok_def quote_answers_def on_quote_reply_def on_store_def Let_def setQuote_def simp del: split_paired_Ex)
  next
    case (QuoteApiError e)
    have "quoteKey (setQuoteError m b) = quoteKey b" for m and b :: "'a booking" by (rule quoteKey_cong) (simp_all add: setQuoteError_def)
    then show ?thesis using assms(1) True QuoteApiError
      by (auto simp: page_ok_def almost_ok_def quote_answers_def on_quote_reply_def on_store_def Let_def setQuoteError_def)
  next
    case QuoteOtherError
    have "quoteKey (setQuoteError m b) = quoteKey b" for m and b :: "'a booking" by (rule quoteKey_cong) (simp_all add: setQuoteError_def)
    then show ?thesis using assms(1) True QuoteOtherError
      by (auto simp: page_ok_def almost_ok_def quote_answers_def on_quote_reply_def on_store_def Let_def setQuoteError_def)
  qed
qed

lemma page_run_ok:
  assumes "page_run ans copy p q" "page_ok ans p"
  shows "page_ok ans q"
  using assms
proof (induction rule: page_run.induct)
  case (pr_step p q e)
  show ?case unfolding page_step_def
  proof (rule settle_ok, cases "\<exists>n r. e = QuoteArrived n r")
    case True
    then show "almost_ok ans (handle copy e q)" using handle_quote [OF pr_step.IH [OF pr_step.prems]] pr_step.hyps(2) by blast
  next
    case False
    then show "almost_ok ans (handle copy e q)" using handle_other [OF pr_step.IH [OF pr_step.prems]] pr_step.hyps(3) by blast
  qed
qed simp

lemma settle_quote [simp]: "bs_quote (pg_store (settle p)) = bs_quote (pg_store p)"
proof -
  have tail: "pg_store (status_effect (restore_effect p')) = pg_store p'" for p' :: "'q page"
    by (simp add: status_effect_def restore_effect_def)
  have "bs_quote (pg_store (quote_effect p)) = bs_quote (pg_store p)" by (simp add: quote_effect_def Let_def split: option.split)
  then show ?thesis unfolding settle_def tail .
qed

lemma page_start_ok: "page_ok ans (settle (initial_page authed saved))"
  by (rule settle_ok) (simp add: almost_ok_def quote_answers_def initial_page_def initial_booking_def)

text \<open>What the page sends is what it quoted.\<close>

lemma solo_request_is_quoted:
  assumes "page_run ans copy (settle (initial_page authed saved)) p" "submitSolo new p = (Some (k, q, key), p')"
  shows "quoteKey (pg_store p) = Some k \<and> bs_quote (pg_store p) = Some q \<and> ans k q \<and> pg_key p' = Some (k, key)
    \<and> bs_rideType (pg_store p) = WebPrivate"
proof -
  have "quote_answers ans (pg_store p)" using page_run_ok [OF assms(1) page_start_ok] unfolding page_ok_def by blast
  then show ?thesis using assms(2) by (auto simp: quote_answers_def submitSolo_def keyFor_def on_store_def split: if_splits option.splits prod.splits)
qed

end
