(* ===== verification/Ratings.thy ===== *)
theory Ratings
  imports Tokens Rides_Controller Scenario
begin

text \<open>
  Ratings after a completed ride: the table (schema.ts, 0010_ratings.sql), \<open>RatingRepository\<close>
  (rating.repository.ts), \<open>RatingService\<close> (rating.service.ts) and the endpoint (rating.controller.ts) behind
  its DTO (create-rating.dto.ts). The table has no foreign keys, so it stands beside the database. \<open>s0\<close> is
  the database when the ride was read; other sessions may have committed since.
\<close>

section \<open>The table\<close>

record rating =
  rt_id :: uuid
  rt_rideId :: uuid
  rt_raterId :: uuid
  rt_subjectId :: uuid
  rt_stars :: int
  rt_text :: "string option"
  rt_createdAt :: instant

definition direction :: "rating \<Rightarrow> uuid \<times> uuid \<times> uuid" where
  "direction x = (rt_rideId x, rt_raterId x, rt_subjectId x)"

text \<open>The checks come before the conflict clause, as in Postgres.\<close>

definition insert_rating :: "uuid \<Rightarrow> uuid \<Rightarrow> uuid \<Rightarrow> int \<Rightarrow> string option \<Rightarrow> uuid \<Rightarrow> instant \<Rightarrow> (rating list, rating option) tx" where
  "insert_rating i rater subject stars txt rowid now rs =
     (let x = \<lparr>rt_id = rowid, rt_rideId = i, rt_raterId = rater, rt_subjectId = subject, rt_stars = stars, rt_text = txt, rt_createdAt = now\<rparr> in
      if stars < 1 \<or> 5 < stars then Inl (Check_violation ''ratings_stars_check'')
      else if rater = subject then Inl (Check_violation ''ratings_no_self_check'')
      else if direction x \<in> direction ` set rs then Inr (None, rs)
      else if rowid \<in> rt_id ` set rs then Inl (Unique_violation ''ratings_pkey'')
      else Inr (Some x, rs @ [x]))"

section \<open>The service\<close>

datatype rate_refusal = Rate_not_found | Not_a_party | Not_completed | Already_rated

text \<open>The other party of the ride.\<close>

definition rating_subject :: "uuid \<Rightarrow> ride \<Rightarrow> uuid option" where
  "rating_subject rater r =
     (if rater = r_passengerId r then r_driverId r
      else if Some rater = r_driverId r then Some (r_passengerId r)
      else None)"

definition rate :: "uuid \<Rightarrow> uuid \<Rightarrow> int \<Rightarrow> string option \<Rightarrow> uuid \<Rightarrow> instant \<Rightarrow> db \<Rightarrow> (rating list, rate_refusal + rating) tx" where
  "rate i rater stars txt rowid now s0 rs =
     (case findById s0 i of
        None \<Rightarrow> Inr (Inl Rate_not_found, rs)
      | Some r \<Rightarrow>
          if r_status r \<noteq> Completed then Inr (Inl Not_completed, rs)
          else (case rating_subject rater r of
                  None \<Rightarrow> Inr (Inl Not_a_party, rs)
                | Some subject \<Rightarrow>
                    (case insert_rating (r_id r) rater subject stars txt rowid now rs of
                       Inl e \<Rightarrow> Inl e
                     | Inr (None, rs') \<Rightarrow> Inr (Inl Already_rated, rs')
                     | Inr (Some x, rs') \<Rightarrow> Inr (Inr x, rs'))))"

section \<open>The endpoint\<close>

record rating_dto =
  rd_stars :: int
  rd_text :: "string option"

definition valid_rating :: "rating_dto \<Rightarrow> bool" where
  "valid_rating b \<longleftrightarrow> 1 \<le> rd_stars b \<and> rd_stars b \<le> 5
     \<and> (case rd_text b of None \<Rightarrow> True | Some t \<Rightarrow> length t \<le> 1000)"

definition rate_reply :: "rate_refusal \<Rightarrow> http_error" where
  "rate_reply e =
     (case e of
        Rate_not_found \<Rightarrow> Not_found_error ''ride_not_found''
      | Not_a_party \<Rightarrow> Forbidden_error ''forbidden''
      | Not_completed \<Rightarrow> Conflict_error ''ride_not_completed''
      | Already_rated \<Rightarrow> Conflict_error ''already_rated'')"

text \<open>The validation pipe's exception has no code of its own; \<open>internal_error\<close> is what the exception filter puts there.\<close>

definition rate_endpoint ::
  "access_claims \<Rightarrow> uuid \<Rightarrow> rating_dto \<Rightarrow> uuid \<Rightarrow> instant \<Rightarrow> db \<Rightarrow> (rating list, http_error + uuid \<times> uuid \<times> uuid \<times> int) tx" where
  "rate_endpoint user i b rowid now s0 rs =
     (if \<not> valid_rating b then Inr (Inl (Bad_request ''internal_error''), rs)
      else case rate i (ac_sub user) (rd_stars b) (rd_text b) rowid now s0 rs of
          Inl e \<Rightarrow> Inl e
        | Inr (Inl e, rs') \<Rightarrow> Inr (Inl (rate_reply e), rs')
        | Inr (Inr x, rs') \<Rightarrow> Inr (Inr (rt_id x, rt_rideId x, rt_subjectId x, rt_stars x), rs'))"

section \<open>Runs with ratings\<close>

text \<open>The backend's transactions, and ratings that read their ride at some earlier point of the run.\<close>

inductive rating_step :: "db \<times> rating list \<Rightarrow> db \<times> rating list \<Rightarrow> bool" where
  rs_db: "db_step s s' \<Longrightarrow> rating_step (s, rs) (s', rs)"
| rs_rate: "reach db_init db_step s0 \<Longrightarrow> db_step\<^sup>*\<^sup>* s0 s \<Longrightarrow> rate_endpoint user i b rowid now s0 rs = Inr (res, rs')
     \<Longrightarrow> rating_step (s, rs) (s, rs')"

definition rating_init :: "db \<times> rating list \<Rightarrow> bool" where
  "rating_init w \<longleftrightarrow> db_init (fst w) \<and> snd w = []"

text \<open>A rating of the ride by one of its two parties about the other.\<close>

definition rates :: "db \<Rightarrow> rating \<Rightarrow> bool" where
  "rates s x \<longleftrightarrow> 1 \<le> rt_stars x \<and> rt_stars x \<le> 5 \<and> rt_raterId x \<noteq> rt_subjectId x
     \<and> (\<exists>r. ride_row s (rt_rideId x) = Some r \<and> r_status r = Completed \<and> rating_subject (rt_raterId x) r = Some (rt_subjectId x))"

definition ratings_ok :: "db \<times> rating list \<Rightarrow> bool" where
  "ratings_ok w \<longleftrightarrow> reach db_init db_step (fst w) \<and> (\<forall>x \<in> set (snd w). rates (fst w) x) \<and> distinct (map direction (snd w))"

lemma subject_final:
  assumes "ride_evolves r r'" "rating_subject u r = Some v" "r_status r = Completed"
  shows "r_status r' = Completed \<and> rating_subject u r' = Some v"
proof -
  have "r_passengerId r' = r_passengerId r" using assms(1) by (simp add: ride_evolves_def ride_booking_def)
  moreover have "r_driverId r \<noteq> None \<Longrightarrow> r_driverId r' = r_driverId r" "r_status r' = Completed"
    using assms(1,3) by (auto simp: ride_evolves_def terminal_ride_def)
  ultimately show ?thesis using assms(2) by (cases "r_driverId r") (auto simp: rating_subject_def split: if_splits)
qed

lemma rates_run:
  assumes "reach db_init db_step s" "db_step\<^sup>*\<^sup>* s s'" "rates s x"
  shows "rates s' x"
proof -
  obtain r where r: "ride_row s (rt_rideId x) = Some r" "r_status r = Completed" "rating_subject (rt_raterId x) r = Some (rt_subjectId x)"
    using assms(3) by (auto simp: rates_def)
  obtain r' where "ride_row s' (rt_rideId x) = Some r'" "ride_evolves r r'" using run_ride_row [OF assms(1,2) r(1)] by blast
  then show ?thesis using subject_final [OF _ r(3,2)] assms(3) by (auto simp: rates_def)
qed

lemma insert_rating_cases:
  assumes "insert_rating i rater subject stars txt rowid now rs = Inr (res, rs')"
  obtains "res = None" "rs' = rs" "\<exists>x \<in> set rs. direction x = (i, rater, subject)"
  | x where "res = Some x" "rs' = rs @ [x]" "direction x = (i, rater, subject)" "rt_stars x = stars" "1 \<le> stars" "stars \<le> 5"
      "rater \<noteq> subject" "direction x \<notin> direction ` set rs" "rt_id x = rowid" "rt_text x = txt"
  using assms by (auto simp: insert_rating_def direction_def Let_def split: if_splits)

lemma rate_adds:
  assumes "rate_endpoint user i b rowid now s0 rs = Inr (res, rs')" "rs' \<noteq> rs"
  obtains x r where "rs' = rs @ [x]" "res = Inr (rt_id x, rt_rideId x, rt_subjectId x, rt_stars x)" "rt_rideId x = i" "rt_raterId x = ac_sub user"
    "ride_row s0 i = Some r" "rates s0 x" "direction x \<notin> direction ` set rs"
proof -
  obtain r subject where r: "ride_row s0 i = Some r" "r_status r = Completed" "rating_subject (ac_sub user) r = Some subject"
    and rate: "rate i (ac_sub user) (rd_stars b) (rd_text b) rowid now s0 rs =
      (case insert_rating i (ac_sub user) subject (rd_stars b) (rd_text b) rowid now rs of
         Inl e \<Rightarrow> Inl e | Inr (None, rs') \<Rightarrow> Inr (Inl Already_rated, rs') | Inr (Some x, rs') \<Rightarrow> Inr (Inr x, rs'))"
    using assms by (auto simp: rate_endpoint_def rate_def findById_def dest: row_key split: if_splits option.splits)
  then obtain y rs2 where y: "insert_rating i (ac_sub user) subject (rd_stars b) (rd_text b) rowid now rs = Inr (y, rs2)"
    using assms by (cases "insert_rating i (ac_sub user) subject (rd_stars b) (rd_text b) rowid now rs")
      (auto simp: rate_endpoint_def split: if_splits)
  then show thesis
  proof (cases rule: insert_rating_cases)
    case 1
    then show ?thesis using assms rate y by (auto simp: rate_endpoint_def split: if_splits)
  next
    case (2 x)
    then have "rs' = rs @ [x]" "res = Inr (rt_id x, rt_rideId x, rt_subjectId x, rt_stars x)"
      using assms rate y by (auto simp: rate_endpoint_def split: if_splits)
    then show ?thesis using that [of x r] 2 r by (auto simp: direction_def rates_def)
  qed
qed

lemma rating_step_ok:
  assumes "ratings_ok w" "rating_step w w'"
  shows "ratings_ok w'"
  using assms(2,1)
proof (induction rule: rating_step.induct)
  case (rs_db s s' rs)
  then have r: "reach db_init db_step s" by (simp add: ratings_ok_def)
  have "\<forall>x \<in> set rs. rates s' x" using rates_run [OF r, of s'] rs_db by (auto simp: ratings_ok_def)
  then show ?case using rs_db reach_step [OF r rs_db(1)] by (simp add: ratings_ok_def)
next
  case (rs_rate s0 s user i b rowid now rs res rs')
  show ?case
  proof (cases "rs' = rs")
    case True
    then show ?thesis using rs_rate by simp
  next
    case False
    from rate_adds [OF rs_rate(3) this] obtain x where x: "rs' = rs @ [x]" "rates s0 x" "direction x \<notin> direction ` set rs" by metis
    then show ?thesis using rates_run [OF rs_rate(1,2) x(2)] rs_rate(4) by (auto simp: ratings_ok_def)
  qed
qed

interpretation ratings: transition_system rating_init rating_step ratings_ok
proof
  show "ratings_ok w" if "rating_init w" for w using that by (simp add: rating_init_def ratings_ok_def reach_init)
  show "ratings_ok w'" if "ratings_ok w" "rating_step w w'" for w w' using that by (rule rating_step_ok)
qed

end
