(* ===== verification/Auth_Config.thy ===== *)
theory Auth_Config
  imports Sessions "HOL-Library.Multiset"
begin

text \<open>
  Authentication settings at startup (common/guards/auth-config.ts). A setting that is not set is \<open>None\<close>; a
  character of a setting is a code unit below 256. \<open>url\<close> is the URL parser: protocol and origin, if the
  text parses.
\<close>

type_synonym env = "string \<Rightarrow> string option"

definition DEV_JWT_SECRET :: string where
  "DEV_JWT_SECRET = ''dev-secret-change-in-prod''"

definition MIN_JWT_SECRET_BYTES :: nat where
  "MIN_JWT_SECRET_BYTES = 32"

definition DEV_BROWSER_ORIGINS :: "string list" where
  "DEV_BROWSER_ORIGINS = [''http://localhost:3002'', ''http://localhost:3001'', ''http://localhost:3000'']"

definition isDevLikeEnv :: "env \<Rightarrow> bool" where
  "isDevLikeEnv env \<longleftrightarrow> env ''NODE_ENV'' = Some ''development'' \<or> env ''NODE_ENV'' = Some ''test''"

definition setting :: "env \<Rightarrow> string \<Rightarrow> string" where
  "setting env key = (case env key of None \<Rightarrow> [] | Some v \<Rightarrow> v)"

section \<open>Text\<close>

definition code :: "char \<Rightarrow> nat" where
  "code c = of_char c"

text \<open>White space of \<open>trim\<close>: tab to carriage return, space, no-break space.\<close>

definition is_space :: "char \<Rightarrow> bool" where
  "is_space c \<longleftrightarrow> (9 \<le> code c \<and> code c \<le> 13) \<or> code c = 32 \<or> code c = 160"

definition trim :: "string \<Rightarrow> string" where
  "trim s = rev (dropWhile is_space (rev (dropWhile is_space s)))"

fun split_commas :: "string \<Rightarrow> string list" where
  "split_commas [] = [[]]"
| "split_commas (c # cs) =
     (if c = CHR '','' then [] # split_commas cs
      else case split_commas cs of [] \<Rightarrow> [[c]] | w # ws \<Rightarrow> (c # w) # ws)"

definition lower :: "char \<Rightarrow> char" where
  "lower c = (if 65 \<le> code c \<and> code c \<le> 90 then char_of (code c + 32) else c)"

definition byteLength :: "string \<Rightarrow> nat" where
  "byteLength s = sum_list (map (\<lambda>c. if code c < 128 then 1 else 2) s)"

section \<open>Placeholders\<close>

fun starts_with :: "string \<Rightarrow> string \<Rightarrow> bool" where
  "starts_with [] s = True"
| "starts_with (p # ps) [] = False"
| "starts_with (p # ps) (c # cs) = (p = c \<and> starts_with ps cs)"

definition skip_sep :: "char list \<Rightarrow> string \<Rightarrow> string list" where
  "skip_sep seps s = (case s of c # cs \<Rightarrow> if c \<in> set seps then [s, cs] else [s] | [] \<Rightarrow> [s])"

text \<open>The alternatives of \<open>PLACEHOLDER_RE\<close> at one position of the lower-cased text.\<close>

definition change_at :: "string \<Rightarrow> bool" where
  "change_at s \<longleftrightarrow> starts_with ''change'' s
     \<and> list_ex (\<lambda>t. starts_with ''me'' t \<or> starts_with ''this'' t
         \<or> (starts_with ''in'' t \<and> list_ex (starts_with ''prod'') (skip_sep ''-_ '' (drop 2 t)))) (skip_sep ''-_ '' (drop 6 s))"

definition replace_at :: "string \<Rightarrow> bool" where
  "replace_at s \<longleftrightarrow> starts_with ''replace'' s \<and> list_ex (starts_with ''me'') (skip_sep ''-_ '' (drop 7 s))"

definition angle_at :: "string \<Rightarrow> bool" where
  "angle_at s \<longleftrightarrow> (case s of c # cs \<Rightarrow> c = CHR ''<'' \<and> CHR ''>'' \<in> set cs | [] \<Rightarrow> False)"

definition whole_placeholder :: "string \<Rightarrow> bool" where
  "whole_placeholder s \<longleftrightarrow> s \<in> {''secret'', ''password'', ''changeme''}
     \<or> (starts_with ''jwt'' s \<and> list_ex (\<lambda>t. t = ''secret'') (skip_sep ''-_'' (drop 3 s)))"

fun somewhere :: "(string \<Rightarrow> bool) \<Rightarrow> string \<Rightarrow> bool" where
  "somewhere P [] = P []"
| "somewhere P (c # cs) = (P (c # cs) \<or> somewhere P cs)"

definition placeholder :: "string \<Rightarrow> bool" where
  "placeholder raw = (let s = map lower raw in somewhere (\<lambda>t. change_at t \<or> replace_at t \<or> angle_at t) s \<or> whole_placeholder s)"

section \<open>The signing secret\<close>

datatype startup_error =
    Secret_unset | Secret_padded | Secret_placeholder | Secret_short | Secret_repetitive
  | Origin_wildcard string | Origin_invalid string | Origin_scheme string | Origin_not_bare string | Origin_not_https string
  | Origins_contradict | Origins_unset

text \<open>The flag tells \<open>onDevFallback\<close>.\<close>

definition resolveJwtSecret :: "env \<Rightarrow> startup_error + string \<times> bool" where
  "resolveJwtSecret env =
     (let secret = setting env ''JWT_SECRET''; trimmed = trim secret in
      if isDevLikeEnv env then (if trimmed = [] then Inr (DEV_JWT_SECRET, True) else Inr (secret, False))
      else if trimmed = [] then Inl Secret_unset
      else if trimmed \<noteq> secret then Inl Secret_padded
      else if secret = DEV_JWT_SECRET \<or> placeholder secret then Inl Secret_placeholder
      else if byteLength secret < MIN_JWT_SECRET_BYTES then Inl Secret_short
      else if length (remdups secret) < 8 then Inl Secret_repetitive
      else Inr (secret, False))"

section \<open>Browser origins\<close>

definition parseOriginList :: "string \<Rightarrow> string list" where
  "parseOriginList raw = filter (\<lambda>x. x \<noteq> []) (map trim (split_commas raw))"

definition validateOrigin :: "(string \<Rightarrow> (string \<times> string) option) \<Rightarrow> string \<Rightarrow> bool \<Rightarrow> startup_error option" where
  "validateOrigin url x requireHttps =
     (if x = ''*'' \<or> x = ''null'' then Some (Origin_wildcard x)
      else case url x of
          None \<Rightarrow> Some (Origin_invalid x)
        | Some (protocol, bare) \<Rightarrow>
            if protocol \<noteq> ''https:'' \<and> protocol \<noteq> ''http:'' then Some (Origin_scheme x)
            else if bare \<noteq> x then Some (Origin_not_bare x)
            else if requireHttps \<and> protocol \<noteq> ''https:'' then Some (Origin_not_https x)
            else None)"

fun first_error :: "('a \<Rightarrow> 'e option) \<Rightarrow> 'a list \<Rightarrow> 'e option" where
  "first_error f [] = None"
| "first_error f (x # xs) = (case f x of Some e \<Rightarrow> Some e | None \<Rightarrow> first_error f xs)"

text \<open>A set keeps the first occurrence of each entry.\<close>

definition unique :: "'a list \<Rightarrow> 'a list" where
  "unique xs = rev (remdups (rev xs))"

text \<open>Two lists that agree when sorted and joined agree up to order.\<close>

definition resolveBrowserOrigins :: "(string \<Rightarrow> (string \<times> string) option) \<Rightarrow> env \<Rightarrow> startup_error + string list" where
  "resolveBrowserOrigins url env =
     (let cors = parseOriginList (setting env ''CORS_ORIGINS'');
          legacy = parseOriginList (setting env ''ALLOWED_ORIGINS'') in
      if cors \<noteq> [] \<and> legacy \<noteq> [] \<and> mset cors \<noteq> mset legacy then Inl Origins_contradict
      else let allowed = (if cors \<noteq> [] then cors else legacy) in
        if allowed = [] then (if isDevLikeEnv env then Inr DEV_BROWSER_ORIGINS else Inl Origins_unset)
        else case first_error (\<lambda>x. validateOrigin url x (\<not> isDevLikeEnv env)) allowed of
            Some e \<Rightarrow> Inl e
          | None \<Rightarrow> Inr (unique allowed))"

section \<open>Facts\<close>

lemma first_error_None: "first_error f xs = None \<longleftrightarrow> (\<forall>x \<in> set xs. f x = None)"
  by (induction xs) (auto split: option.splits)

lemma unique_set [simp]: "set (unique xs) = set xs" "distinct (unique xs)"
  by (simp_all add: unique_def)

lemma validateOrigin_None:
  assumes "validateOrigin url x True = None"
  shows "url x = Some (''https:'', x) \<and> x \<noteq> ''*'' \<and> x \<noteq> ''null''"
  using assms by (auto simp: validateOrigin_def split: if_splits option.splits prod.splits)

lemma resolved_origins:
  assumes "resolveBrowserOrigins url env = Inr allowed" "\<not> isDevLikeEnv env"
  shows "allowed \<noteq> [] \<and> distinct allowed \<and> (\<forall>x \<in> set allowed. url x = Some (''https:'', x) \<and> x \<noteq> ''*'' \<and> x \<noteq> ''null'')"
proof -
  obtain xs where xs: "xs \<noteq> []" "first_error (\<lambda>x. validateOrigin url x True) xs = None" "allowed = unique xs"
    using assms by (auto simp: resolveBrowserOrigins_def Let_def split: if_splits option.splits)
  have "\<forall>x \<in> set xs. url x = Some (''https:'', x) \<and> x \<noteq> ''*'' \<and> x \<noteq> ''null''"
  proof
    fix x
    assume "x \<in> set xs"
    then have "validateOrigin url x True = None" using xs(2) by (simp only: first_error_None)
    then show "url x = Some (''https:'', x) \<and> x \<noteq> ''*'' \<and> x \<noteq> ''null''" by (rule validateOrigin_None)
  qed
  moreover have "set allowed = set xs" by (simp add: xs(3))
  ultimately show ?thesis using xs(1,3) by (simp, metis set_empty unique_set(1))
qed

lemma resolved_secret:
  assumes "resolveJwtSecret env = Inr (s, fallback)" "\<not> isDevLikeEnv env"
  shows "\<not> fallback \<and> setting env ''JWT_SECRET'' = s \<and> trim s \<noteq> [] \<and> s \<noteq> DEV_JWT_SECRET \<and> \<not> placeholder s
    \<and> MIN_JWT_SECRET_BYTES \<le> byteLength s \<and> 8 \<le> length (remdups s)"
  using assms unfolding resolveJwtSecret_def Let_def by (simp split: if_splits)

lemma trim_Nil [simp]: "trim [] = []"
  by (simp add: trim_def)

lemma dev_secret_is_placeholder: "placeholder DEV_JWT_SECRET"
  by code_simp

end
