(* ===== verification/Ride_Panel.thy ===== *)
theory Ride_Panel
  imports Book_Page Ratings Auth_Config
begin

text \<open>
  The tracking panel (app/book/ride-tracking-panel.tsx) with its rating card, the two requests it sends
  (\<open>cancelActiveRide\<close> and \<open>rateActiveRide\<close> of book-client.tsx, \<open>submitRating\<close> of booking/api.ts) and what the
  endpoints make of them. Layout and texts are left out.
\<close>

section \<open>The panel\<close>

definition TERMINAL :: "ride_status set" where
  "TERMINAL = {Completed, No_driver, Cancelled, No_show}"

definition canCancel :: "ride_status \<Rightarrow> bool" where
  "canCancel st \<longleftrightarrow> st \<notin> TERMINAL \<and> st \<noteq> In_progress"

definition shows_live :: "(real \<times> real \<times> real) option \<Rightarrow> ride_status \<Rightarrow> bool" where
  "shows_live driver st \<longleftrightarrow> driver \<noteq> None \<and> st \<notin> TERMINAL"

datatype rating_part = No_rating | Rating_thanks | Rating_form

definition rating_part :: "ride_status \<Rightarrow> bool \<Rightarrow> rating_part" where
  "rating_part st rated = (if st \<noteq> Completed then No_rating else if rated then Rating_thanks else Rating_form)"

section \<open>The rating card\<close>

record rating_card =
  rc_stars :: int
  rc_text :: string

definition initial_card :: rating_card where
  "initial_card = \<lparr>rc_stars = 0, rc_text = ''''\<rparr>"

text \<open>Five star buttons, and a text area that holds at most 1000 characters.\<close>

datatype card_event = StarClick int | TextTyped string

fun card_step :: "card_event \<Rightarrow> rating_card \<Rightarrow> rating_card" where
  "card_step (StarClick n) c = (if n \<in> {1, 2, 3, 4, 5} then c\<lparr>rc_stars := n\<rparr> else c)"
| "card_step (TextTyped t) c = (if length t \<le> 1000 then c\<lparr>rc_text := t\<rparr> else c)"

definition card_run :: "card_event list \<Rightarrow> rating_card" where
  "card_run es = fold card_step es initial_card"

text \<open>The submit button is disabled until a star is chosen.\<close>

definition card_submit :: "rating_card \<Rightarrow> (int \<times> string) option" where
  "card_submit c = (if rc_stars c < 1 then None else Some (rc_stars c, rc_text c))"

section \<open>Requests\<close>

definition submitRating :: "int \<Rightarrow> string option \<Rightarrow> rating_dto" where
  "submitRating stars t =
     (let trimmed = map_option trim t in
      \<lparr>rd_stars = stars, rd_text = (if trimmed = None \<or> trimmed = Some [] then None else trimmed)\<rparr>)"

text \<open>What a press of a button sends, and the page after it; the answer to a cancellation is \<open>RideChanged\<close>.\<close>

definition press_cancel :: "'q page \<Rightarrow> uuid option" where
  "press_cancel p =
     (case bs_rideStatus (pg_store p) of
        Some st \<Rightarrow> if canCancel st \<and> pg_authed p then bs_rideId (pg_store p) else None
      | None \<Rightarrow> None)"

definition press_rate :: "rating_card \<Rightarrow> 'q page \<Rightarrow> (uuid \<times> rating_dto) option \<times> 'q page" where
  "press_rate c p =
     (case (bs_rideStatus (pg_store p), card_submit c) of
        (Some st, Some (stars, t)) \<Rightarrow>
          if rating_part st (bs_rated (pg_store p)) \<noteq> Rating_form then (None, p)
          else ((if \<not> pg_authed p then None else map_option (\<lambda>i. (i, submitRating stars (Some t))) (bs_rideId (pg_store p))), rateActiveRide p)
      | _ \<Rightarrow> (None, p))"

section \<open>Facts\<close>

lemma length_trim: "length (trim s) \<le> length s"
proof -
  have "length (dropWhile P xs) \<le> length xs" for P and xs :: string by (induction xs) simp_all
  note this [of is_space "rev (dropWhile is_space s)"] this [of is_space s]
  then show ?thesis by (simp add: trim_def)
qed

lemma card_run_ok: "rc_stars (card_run es) \<in> {0..5} \<and> length (rc_text (card_run es)) \<le> 1000"
proof -
  have "rc_stars c \<in> {0..5} \<and> length (rc_text c) \<le> 1000 \<Longrightarrow>
      rc_stars (fold card_step es c) \<in> {0..5} \<and> length (rc_text (fold card_step es c)) \<le> 1000" for c
  proof (induction es arbitrary: c)
    case (Cons e es)
    then show ?case by (cases e) auto
  qed simp
  then show ?thesis by (simp add: card_run_def initial_card_def)
qed

text \<open>Whatever the card sends passes the validation of the endpoint.\<close>

lemma submitted_valid: "card_submit (card_run es) = Some (stars, t) \<Longrightarrow> valid_rating (submitRating stars (Some t))"
  using card_run_ok [of es] length_trim [of "rc_text (card_run es)"]
  by (auto simp: card_submit_def submitRating_def valid_rating_def Let_def split: if_splits)

text \<open>The cancel button is there exactly when the state machine lets the passenger cancel.\<close>

lemma canCancel_server:
  assumes "ride_row s i = Some r" "ac_role user = RoleClient" "r_passengerId r = ac_sub user"
  shows "canCancel (normalizeStatus (r_status r))
    \<longleftrightarrow> (\<exists>x s'. cancel_endpoint user i \<lparr>cx_reason = None, cx_noShow = False\<rparr> wait clk ct s = (Inr x, s'))"
proof -
  have target: "canCancel (normalizeStatus (r_status r)) \<longleftrightarrow> cancel_target ActorClient (ac_sub user) False wait clk r = Inr Cancelled"
    using assms(3) by (cases "r_status r")
      (simp_all add: cancel_target_def canCancel_def TERMINAL_def normalizeStatus_def CLIENT_CANCELLABLE_def)
  have "cancel_target ActorClient (ac_sub user) False wait clk r = Inr to \<Longrightarrow> to = Cancelled" for to
    by (auto simp: cancel_target_def split: if_splits)
  then show ?thesis unfolding target using assms(1,2)
    by (cases "cancel_target ActorClient (ac_sub user) False wait clk r")
      (auto simp: cancel_endpoint_def role_actor_def cancelService_def cancel_def Let_def split: prod.splits)
qed

text \<open>A rating of a completed ride by its passenger is stored, or was there before.\<close>

lemma passenger_rating:
  assumes "ride_row s i = Some r" "r_status r = Completed" "r_passengerId r = ac_sub user" "r_driverId r = Some d" "d \<noteq> ac_sub user"
    and "valid_rating b" "rowid \<notin> rt_id ` set rs"
  shows "rate_endpoint user i b rowid now s rs =
    (if (i, ac_sub user, d) \<in> direction ` set rs then Inr (Inl (Conflict_error ''already_rated''), rs)
     else Inr (Inr (rowid, i, d, rd_stars b),
       rs @ [\<lparr>rt_id = rowid, rt_rideId = i, rt_raterId = ac_sub user, rt_subjectId = d, rt_stars = rd_stars b, rt_text = rd_text b, rt_createdAt = now\<rparr>]))"
proof -
  have id: "r_id r = i" using assms(1) by (auto dest: row_SomeD)
  have stars: "\<not> rd_stars b < 1" "\<not> 5 < rd_stars b" using assms(6) by (simp_all add: valid_rating_def)
  show ?thesis using assms(1-5,7) id stars assms(6)
    by (auto simp: rate_endpoint_def rate_def findById_def rating_subject_def insert_rating_def Let_def direction_def rate_reply_def)
qed

end
