(* ===== verification/Migrations.thy ===== *)
theory Migrations
  imports Prelude "HOL-Library.List_Lexorder" "HOL-Library.Char_ord"
begin

text \<open>
  The migration runner (migrate.ts). The SQL of a file is outside the model: \<open>ap f d\<close> is the schema after the
  statements of file \<open>f\<close>, or \<open>None\<close> when they fail, in which case Postgres undoes the whole simple query. A
  run may be killed at a file: before its SQL, or between its SQL and the row that records it. Opening and closing
  the connection are left out.
\<close>

section \<open>A run\<close>

text \<open>The schema, and the names recorded in \<open>_rcab_migrations\<close> in the order of their ids.\<close>

record 'd migrated =
  md_schema :: 'd
  md_log :: "string list"

datatype kill = Kill_before | Kill_between

definition ends_with_sql :: "string \<Rightarrow> bool" where
  "ends_with_sql f \<longleftrightarrow> (\<exists>g. f = g @ ''.sql'')"

lemma ends_with_sql_code [code]: "ends_with_sql f \<longleftrightarrow> 4 \<le> length f \<and> drop (length f - 4) f = ''.sql''"
proof
  assume "4 \<le> length f \<and> drop (length f - 4) f = ''.sql''"
  then have "f = take (length f - 4) f @ ''.sql''" by (metis append_take_drop_id)
  then show "ends_with_sql f" unfolding ends_with_sql_def by blast
qed (auto simp: ends_with_sql_def)

definition migration_files :: "string list \<Rightarrow> string list" where
  "migration_files dir = sort (filter ends_with_sql dir)"

text \<open>The flag says whether the run came to its end.\<close>

fun run_files :: "(string \<Rightarrow> 'd \<Rightarrow> 'd option) \<Rightarrow> (string \<Rightarrow> kill option) \<Rightarrow> string list \<Rightarrow> 'd migrated \<Rightarrow> bool \<times> 'd migrated" where
  "run_files ap k [] s = (True, s)"
| "run_files ap k (f # fs) s =
     (if f \<in> set (md_log s) then run_files ap k fs s
      else if k f = Some Kill_before then (False, s)
      else (case ap f (md_schema s) of
              None \<Rightarrow> (False, s)
            | Some d \<Rightarrow>
                if k f = Some Kill_between then (False, s\<lparr>md_schema := d\<rparr>)
                else run_files ap k fs (s\<lparr>md_schema := d, md_log := md_log s @ [f]\<rparr>)))"

definition runMigrations :: "(string \<Rightarrow> 'd \<Rightarrow> 'd option) \<Rightarrow> (string \<Rightarrow> kill option) \<Rightarrow> string list \<Rightarrow> 'd migrated \<Rightarrow> bool \<times> 'd migrated" where
  "runMigrations ap k dir s = run_files ap k (migration_files dir) s"

section \<open>Deployments\<close>

text \<open>Every deployment runs the migrator on its directory; the runs of a list of them, one after another.\<close>

definition deploy :: "(string \<Rightarrow> 'd \<Rightarrow> 'd option) \<Rightarrow> (string list \<times> (string \<Rightarrow> kill option)) list \<Rightarrow> 'd migrated \<Rightarrow> 'd migrated" where
  "deploy ap rs s = fold (\<lambda>(dir, k) s. snd (runMigrations ap k dir s)) rs s"

text \<open>The reference: every file once, in order.\<close>

fun apply_all :: "(string \<Rightarrow> 'd \<Rightarrow> 'd option) \<Rightarrow> string list \<Rightarrow> 'd \<Rightarrow> 'd option" where
  "apply_all ap [] d = Some d"
| "apply_all ap (f # fs) d = Option.bind (ap f d) (apply_all ap fs)"

lemma apply_all_snoc: "apply_all ap (fs @ [f]) d = Option.bind (apply_all ap fs d) (ap f)"
  by (induction fs arbitrary: d) (simp_all split: bind_splits)

lemma remdups_adj_snoc:
  "remdups_adj (xs @ [x]) = (if xs \<noteq> [] \<and> last xs = x then remdups_adj xs else remdups_adj xs @ [x])"
  by (induction xs rule: remdups_adj.induct) auto

text \<open>
  The first \<open>n\<close> files are recorded, and the schema is what the list \<open>ws\<close> of executed files gives: the
  recorded files in their order, then perhaps the next one, a file again only where a run was killed between
  its SQL and its record. \<open>kf f\<close> counts those kills of file \<open>f\<close>.
\<close>

definition executed :: "(string \<Rightarrow> 'd \<Rightarrow> 'd option) \<Rightarrow> 'd \<Rightarrow> string list \<Rightarrow> (string \<Rightarrow> nat) \<Rightarrow> nat \<Rightarrow> 'd migrated \<Rightarrow> string list \<Rightarrow> bool" where
  "executed ap d0 fs kf n s ws \<longleftrightarrow> md_log s = take n fs \<and> n \<le> length fs \<and> apply_all ap ws d0 = Some (md_schema s)
     \<and> (remdups_adj ws = take n fs \<or> remdups_adj ws = take (Suc n) fs)
     \<and> (\<forall>f. count_list ws f \<le> (if f \<in> set (take n fs) then 1 else 0) + kf f)"

lemma executed_mono:
  assumes "executed ap d0 fs kf n s ws" "\<And>f. kf f \<le> kg f"
  shows "executed ap d0 fs kg n s ws"
proof -
  have "count_list ws f \<le> (if f \<in> set (take n fs) then 1 else 0) + kg f" for f
    using assms(1) assms(2) [of f] le_trans add_left_mono unfolding executed_def by blast
  then show ?thesis using assms(1) by (simp add: executed_def)
qed

text \<open>A longer directory with the same files in front.\<close>

lemma executed_append:
  assumes "executed ap d0 old kf n s ws"
  shows "executed ap d0 (old @ new) kf n s ws"
proof -
  have n: "n \<le> length old" using assms by (simp add: executed_def)
  then have "take n (old @ new) = take n old" by simp
  moreover have "take (Suc n) old = take (Suc n) (old @ new) \<or> take (Suc n) old = take n old"
    using n by (cases "n = length old") simp_all
  ultimately show ?thesis using assms n unfolding executed_def by auto
qed

text \<open>The next file is executed: its record is written, or the run is killed before that.\<close>

lemma executed_next:
  assumes "executed ap d0 fs kf n s ws" "distinct fs" "n < length fs" "ap (fs ! n) (md_schema s) = Some d"
  shows "executed ap d0 fs kf (Suc n) (s\<lparr>md_schema := d, md_log := md_log s @ [fs ! n]\<rparr>) (ws @ [fs ! n])"
    and "executed ap d0 fs (\<lambda>f. kf f + (if f = fs ! n then 1 else 0)) n (s\<lparr>md_schema := d\<rparr>) (ws @ [fs ! n])"
proof -
  have e: "md_log s = take n fs" "apply_all ap (ws @ [fs ! n]) d0 = Some d"
    "remdups_adj ws = take n fs \<or> remdups_adj ws = take n fs @ [fs ! n]"
    using assms(1,3,4) by (auto simp: executed_def apply_all_snoc take_Suc_conv_app_nth)
  have t: "take (Suc n) fs = take n fs @ [fs ! n]" using assms(3) by (rule take_Suc_conv_app_nth)
  have new: "fs ! n \<notin> set (take n fs)"
    using assms(2,3) by (metis distinct_take not_distinct_conv_prefix t)
  have l: "last ws = last (remdups_adj ws)" by simp
  have r: "remdups_adj (ws @ [fs ! n]) = take (Suc n) fs"
    using e(3)
  proof
    assume w: "remdups_adj ws = take n fs"
    have "\<not> (ws \<noteq> [] \<and> last ws = fs ! n)" using new l w by (metis last_in_set remdups_adj_Nil_iff)
    then show ?thesis using w by (simp add: remdups_adj_snoc t)
  next
    assume w: "remdups_adj ws = take n fs @ [fs ! n]"
    then have "ws \<noteq> [] \<and> last ws = fs ! n" using l by (metis last_snoc remdups_adj_Nil_iff snoc_eq_iff_butlast)
    then show ?thesis using w by (simp add: remdups_adj_snoc t)
  qed
  have c: "count_list ws f \<le> (if f \<in> set (take n fs) then 1 else 0) + kf f" for f using assms(1) by (simp add: executed_def)
  have "count_list (ws @ [fs ! n]) f \<le> (if f \<in> set (take (Suc n) fs) then 1 else 0) + kf f" for f
    using c [of f] new by (auto simp: t split: if_splits)
  then show "executed ap d0 fs kf (Suc n) (s\<lparr>md_schema := d, md_log := md_log s @ [fs ! n]\<rparr>) (ws @ [fs ! n])"
    using e(1,2) r t assms(3) by (simp add: executed_def)
  have "count_list (ws @ [fs ! n]) f \<le> (if f \<in> set (take n fs) then 1 else 0) + (kf f + (if f = fs ! n then 1 else 0))" for f
    using c [of f] by (cases "f = fs ! n") simp_all
  then show "executed ap d0 fs (\<lambda>f. kf f + (if f = fs ! n then 1 else 0)) n (s\<lparr>md_schema := d\<rparr>) (ws @ [fs ! n])"
    using e(1,2) r assms(3) by (simp add: executed_def)
qed

definition kill_here :: "(string \<Rightarrow> kill option) \<Rightarrow> string \<Rightarrow> nat" where
  "kill_here k f = (if k f = Some Kill_between then 1 else 0)"

lemma run_files_executed:
  assumes "executed ap d0 fs kf n s ws" "distinct fs"
  shows "\<exists>m vs. executed ap d0 fs (\<lambda>f. kf f + kill_here k f) m (snd (run_files ap k (drop n fs) s)) vs
    \<and> (fst (run_files ap k (drop n fs) s) \<longrightarrow> m = length fs)"
  using assms(1)
proof (induction "length fs - n" arbitrary: n s ws)
  case 0
  then have n: "n = length fs" by (simp add: executed_def)
  show ?case using executed_mono [OF 0(2), of "\<lambda>f. kf f + kill_here k f"] n by (intro exI [of _ n] exI [of _ ws]) simp
next
  case (Suc l)
  let ?f = "fs ! n" and ?K = "\<lambda>f. kf f + kill_here k f"
  have n: "n < length fs" and log: "md_log s = take n fs" using Suc.hyps(2) Suc.prems by (simp_all add: executed_def)
  have new: "?f \<notin> set (md_log s)"
    using assms(2) n unfolding log by (metis distinct_take not_distinct_conv_prefix take_Suc_conv_app_nth)
  have d: "drop n fs = ?f # drop (Suc n) fs" using n by (simp add: Cons_nth_drop_Suc)
  show ?case
  proof (cases "k ?f = Some Kill_before \<or> ap ?f (md_schema s) = None")
    case True
    then have "run_files ap k (drop n fs) s = (False, s)" using new d by (cases "ap ?f (md_schema s)") simp_all
    then show ?thesis using executed_mono [OF Suc.prems, of ?K] by auto
  next
    case False
    then obtain u where u: "ap ?f (md_schema s) = Some u" by auto
    note nx = executed_next [OF Suc.prems assms(2) n u]
    show ?thesis
    proof (cases "k ?f = Some Kill_between")
      case True
      then have "run_files ap k (drop n fs) s = (False, s\<lparr>md_schema := u\<rparr>)" using new d u by simp
      then show ?thesis using executed_mono [OF nx(2), of ?K] True by (intro exI [of _ n] exI [of _ "ws @ [?f]"]) (auto simp: kill_here_def)
    next
      case next_file: False
      have "run_files ap k (drop n fs) s = run_files ap k (drop (Suc n) fs) (s\<lparr>md_schema := u, md_log := md_log s @ [?f]\<rparr>)"
        using new d u False next_file by simp
      then show ?thesis using Suc.hyps(1) [OF _ nx(1)] Suc.hyps(2) by simp
    qed
  qed
qed

text \<open>A run on a directory whose files extend those recorded: recorded files are skipped first.\<close>

lemma run_files_skip: "set fs \<subseteq> set (md_log s) \<Longrightarrow> run_files ap k (fs @ gs) s = run_files ap k gs s"
  by (induction fs) simp_all

lemma run_executed:
  assumes "executed ap d0 old kf n s ws" "migration_files dir = old @ new" "distinct dir"
  shows "\<exists>m vs. executed ap d0 (migration_files dir) (\<lambda>f. kf f + kill_here k f) m (snd (runMigrations ap k dir s)) vs
    \<and> (fst (runMigrations ap k dir s) \<longrightarrow> m = length (migration_files dir))"
proof -
  have e: "executed ap d0 (migration_files dir) kf n s ws" unfolding assms(2) by (rule executed_append [OF assms(1)])
  then have "runMigrations ap k dir s = run_files ap k (drop n (migration_files dir)) s"
    using run_files_skip [of "take n (migration_files dir)" s ap k "drop n (migration_files dir)"]
    by (simp add: runMigrations_def executed_def)
  then show ?thesis using run_files_executed [OF e, of k] assms(3) by (simp add: migration_files_def)
qed

text \<open>Every directory keeps the files of the one before it in front.\<close>

fun extends :: "string list \<Rightarrow> (string list \<times> (string \<Rightarrow> kill option)) list \<Rightarrow> bool" where
  "extends old [] \<longleftrightarrow> True"
| "extends old ((dir, k) # rs) \<longleftrightarrow> (\<exists>new. migration_files dir = old @ new) \<and> distinct dir \<and> extends (migration_files dir) rs"

text \<open>How many of the runs were killed between the SQL of the file and its record.\<close>

definition killed_between :: "(string list \<times> (string \<Rightarrow> kill option)) list \<Rightarrow> string \<Rightarrow> nat" where
  "killed_between rs f = length (filter (\<lambda>r. snd r f = Some Kill_between) rs)"

lemma killed_between_simps [simp]:
  "killed_between [] f = 0" "killed_between ((dir, k) # rs) f = kill_here k f + killed_between rs f"
  "killed_between (rs @ rs') f = killed_between rs f + killed_between rs' f"
  by (simp_all add: killed_between_def kill_here_def)

lemma deploy_executed:
  assumes "executed ap d0 old kf n s ws" "extends old rs"
  shows "\<exists>m vs. executed ap d0 (if rs = [] then old else migration_files (fst (last rs)))
    (\<lambda>f. kf f + killed_between rs f) m (deploy ap rs s) vs"
  using assms
proof (induction rs arbitrary: old s kf n ws)
  case Nil
  then show ?case by (auto simp: deploy_def)
next
  case (Cons r rs)
  obtain dir k where r: "r = (dir, k)" by force
  obtain new where new: "migration_files dir = old @ new" "distinct dir" using Cons.prems(2) unfolding r by auto
  obtain m vs where "executed ap d0 (migration_files dir) (\<lambda>f. kf f + kill_here k f) m (snd (runMigrations ap k dir s)) vs"
    using run_executed [OF Cons.prems(1) new] by blast
  moreover have "extends (migration_files dir) rs" using Cons.prems(2) by (simp add: r)
  ultimately have "\<exists>m vs. executed ap d0 (if rs = [] then migration_files dir else migration_files (fst (last rs)))
      (\<lambda>f. kf f + kill_here k f + killed_between rs f) m (deploy ap rs (snd (runMigrations ap k dir s))) vs" by (rule Cons.IH)
  then show ?case by (simp add: deploy_def r add.assoc split: if_splits)
qed

text \<open>Without such kills every executed file is recorded, and executed once.\<close>

lemma executed_once:
  assumes "executed ap d0 fs kf n s ws" "distinct fs" "\<And>f. kf f = 0"
  shows "ws = md_log s"
proof -
  have c: "count_list ws f \<le> (if f \<in> set (take n fs) then 1 else 0)" for f
    using assms(1,3) by (simp add: executed_def)
  have le: "count_list ws f \<le> 1" for f by (rule order.trans [OF c]) simp
  have sub: "set ws \<subseteq> set (take n fs)"
  proof
    fix f
    assume "f \<in> set ws"
    then show "f \<in> set (take n fs)" using c [of f] count_list_0_iff [of ws f] by (cases "f \<in> set (take n fs)") simp_all
  qed
  have "remdups_adj ws = ws"
    using le
  proof (induction ws rule: remdups_adj.induct)
    case (3 x y xs)
    have "x \<noteq> y" using 3(3) [of x] by auto
    moreover have "count_list (y # xs) f \<le> 1" for f using 3(3) [of f] by (auto split: if_splits)
    ultimately show ?case using 3(2) by simp
  qed simp_all
  then consider "ws = take n fs" | "ws = take (Suc n) fs" using assms(1) by (auto simp: executed_def)
  then have "ws = take n fs"
  proof cases
    case 2
    show ?thesis
    proof (cases "n < length fs")
      case True
      then have "fs ! n \<in> set (take n fs)" using 2 sub by (simp add: take_Suc_conv_app_nth)
      then show ?thesis using True assms(2) by (metis distinct_take not_distinct_conv_prefix take_Suc_conv_app_nth)
    qed (simp add: 2)
  qed
  then show ?thesis using assms(1) by (simp add: executed_def)
qed

text \<open>
  A run killed between the SQL of a file and its record: the next run executes the file again, on the schema that
  already has it.
\<close>

lemma killed_between_reapplies:
  assumes "f \<notin> set (md_log s)" "ap f (md_schema s) = Some d" "k f = Some Kill_between" "k' f = None"
  shows "md_schema (snd (run_files ap k [f] s)) = d \<and> md_log (snd (run_files ap k [f] s)) = md_log s
    \<and> snd (run_files ap k' [f] (snd (run_files ap k [f] s))) =
        (case ap f d of None \<Rightarrow> s\<lparr>md_schema := d\<rparr> | Some d' \<Rightarrow> s\<lparr>md_schema := d', md_log := md_log s @ [f]\<rparr>)"
  using assms by (simp split: option.split)

end
