(* ===== verification/Booking_Properties.thy ===== *)
theory Booking_Properties
  imports Booking_Facts Scenario
begin

text \<open>The properties of the ride endpoints.\<close>

section \<open>Quote and booking\<close>

lemma create_tx_fresh:
  assumes "findByIdempotencyScope s (cp_passengerId p) (cp_operation p) (cp_idempotencyKey p) = None"
    and "cp_passengerId p \<in> u_id ` set (users s)" "i \<notin> r_id ` set (rides s)" "x \<notin> x_id ` set (outbox s)"
    and "cp_operation p \<noteq> OpShared" "cp_rideType p = Normal"
  obtains s' where "create_tx p i x now s = Inr (Some (new_ride p i now), s')" "rides s' = rides s @ [new_ride p i now]"
proof -
  let ?s1 = "s\<lparr>rides := rides s @ [new_ride p i now]\<rparr>"
  have "\<not> list_ex (in_scope (cp_passengerId p) (cp_operation p) (cp_idempotencyKey p)) (rides s)"
    using assms(1) by (simp add: findByIdempotencyScope_def find_None_iff list_ex_iff)
  then have ins: "insert_ride (new_ride p i now) s = Inr (True, ?s1)"
    using assms by (simp add: insert_ride_def new_ride_def)
  obtain b s' where e: "enqueueOutbox (ride_dispatch_message i 1) x now ?s1 = Inr (b, s')" "rides s' = rides ?s1"
    using assms(4) by (cases "message_key (ride_dispatch_message i 1) \<in> x_dedupeKey ` set (outbox s)")
      (simp_all add: enqueueOutbox_def ride_dispatch_message_def)
  then show thesis using assms(6) ins by (intro that [of s']) (simp_all add: create_tx_def)
qed

text \<open>The fare a client was quoted is the fare it books: with the quote's token, for the quoted route, within
  five minutes and under a fresh key, the booking succeeds and the ride carries exactly the quoted fare; five
  minutes after the quote it is refused as expired.\<close>

lemma quoted_fare_is_booked:
  assumes laws: "jwt_laws j" and quote: "quote_ride fp sp osrm geo j user ty route clk ff caches = (Inr q, caches')"
    and dto: "cd_quoteToken d = Some (qr_quoteToken q)"
      "route = \<lparr>rs_originLat = cd_originLat d, rs_originLng = cd_originLng d, rs_destLat = cd_destLat d, rs_destLng = cd_destLng d\<rparr>"
    and key: "parseIdempotencyKey (Some key) True = Inr (Some key)" "findByIdempotencyScope s pid OpSolo key = None"
    and fresh: "pid \<in> u_id ` set (users s)" "be_rideId e \<notin> r_id ` set (rides s)" "be_xid e \<notin> x_id ` set (outbox s)" "be_gap e s = s"
  shows "(seconds (be_clk e) < seconds clk + QUOTE_TTL \<longrightarrow>
      (\<exists>resp s' r. createNormal j sha e pid d (Some key) s = (Inr (resp, [KickOutbox, JoinRoom pid (be_rideId e)]), s')
         \<and> bk_fare resp = qr_soloFare q \<and> ride_row s' (be_rideId e) = Some r \<and> r_fareCents r = mo_amount (qr_soloFare q)))
    \<and> (seconds clk + QUOTE_TTL \<le> seconds (be_clk e) \<longrightarrow>
         createNormal j sha e pid d (Some key) s = (Inl (Http (Bad_request ''quote_expired'')), s))"
proof -
  let ?fp = "requestFingerprint sha OpSolo (dto_intent d)"
  from quote obtain x t where tok: "qr_quoteToken q = sign_quote j (quote_of route (qr_soloFare q) x t) clk" by (rule quote_token)
  let ?c = "quote_of route (qr_soloFare q) x t"
  have flow: "createNormal j sha e pid d (Some key) s = (case verifyQuote j d (be_clk e) of Inl err \<Rightarrow> (Inl (Http err), s)
      | Inr c \<Rightarrow> book e pid ?fp (booking_params pid d (qc_soloFareCents c) key OpSolo ?fp None None) s)"
    using key dto(1) fresh(4) by (simp add: createNormal_def replaySolo_def Let_def split: sum.split)
  have m: "coordsMatch ?c d" by (rule quote_of_matches) (simp_all add: dto(2))
  let ?p = "booking_params pid d (mo_amount (qr_soloFare q)) key OpSolo ?fp None None"
  obtain s' where s': "create_tx ?p (be_rideId e) (be_xid e) (be_now e) s = Inr (Some (new_ride ?p (be_rideId e) (be_now e)), s')"
      "rides s' = rides s @ [new_ride ?p (be_rideId e) (be_now e)]"
    by (rule create_tx_fresh [of s ?p "be_rideId e" "be_xid e"]) (use key(2) fresh in simp_all)
  let ?r = "new_ride ?p (be_rideId e) (be_now e)"
  have r: "r_id ?r = be_rideId e" "r_fareCents ?r = mo_amount (qr_soloFare q)" by (simp_all add: new_ride_def)
  have "bk_fare (soloResponse ?r) = qr_soloFare q"
    using r(2) by (cases "qr_soloFare q"; cases "mo_currency (qr_soloFare q)") (simp add: soloResponse_def)
  moreover have "ride_row s' (be_rideId e) = Some ?r"
    using fresh(2) row_None_iff [of r_id "rides s" "be_rideId e"] r(1) by (simp add: s'(2) row_append)
  moreover have "createNormal j sha e pid d (Some key) s = (Inr (soloResponse ?r, [KickOutbox, JoinRoom pid (be_rideId e)]), s')"
    if "seconds (be_clk e) < seconds clk + QUOTE_TTL"
    using flow dto(1) m r(1) s'(1) verify_signed_quote [OF laws that]
    by (simp add: tok verifyQuote_def book_def create_def) (simp add: quote_of_def)
  moreover have "createNormal j sha e pid d (Some key) s = (Inl (Http (Bad_request ''quote_expired'')), s)"
    if "seconds clk + QUOTE_TTL \<le> seconds (be_clk e)"
    using flow dto(1) verify_quote_expired [OF laws that] by (simp add: tok verifyQuote_def)
  ultimately show ?thesis using r(2) by blast
qed

definition w_osrm :: osrm where
  "w_osrm = (\<lambda>_. Some \<lparr>or_code = ''Ok'', or_route = Some \<lparr>rm_distanceM = Fin 10000, rm_durationS = Fin 1200\<rparr>, or_legs = None\<rparr>)"

definition w_fare :: fare_params where
  "w_fare = \<lparr>fp_baseCents = 4000, fp_perKmCents = 1500, fp_perMinCents = 200\<rparr>"

definition w_seats :: shared_params where
  "w_seats = \<lparr>sp_seatMultiplier2 = 7 / 10, sp_seatMultiplier3 = 55 / 100, sp_commissionRate = 2 / 10\<rparr>"

definition w_user :: access_claims where
  "w_user = \<lparr>ac_sub = pas, ac_role = RoleClient, ac_authMethod = ''phone''\<rparr>"

definition w_route :: route_spec where
  "w_route = \<lparr>rs_originLat = 12, rs_originLng = 77, rs_destLat = 13, rs_destLng = 77\<rparr>"

definition w_claims :: quote_claims where
  "w_claims = \<lparr>qc_originLat = 12, qc_originLng = 77, qc_destLat = 13, qc_destLng = 77, qc_soloFareCents = 23000,
     qc_distanceM = 10000, qc_durationS = 1200\<rparr>"

definition w_dto :: "plain_token create_dto" where
  "w_dto = \<lparr>cd_type = KindNormal, cd_originLat = 12, cd_originLng = 77, cd_destLat = 13, cd_destLng = 77,
     cd_quoteToken = Some (sign_quote plain_jwt w_claims 0), cd_scheduledFor = None\<rparr>"

definition w_booking :: booking_env where
  "w_booking = \<lparr>be_clk = 60000, be_now = 60000, be_rideId = rid, be_xid = xid, be_gap = \<lambda>s. s\<rparr>"

text \<open>The example passenger books the quoted ride.\<close>

lemma w_book:
  "\<exists>resp s'. createNormal plain_jwt (\<lambda>_. ''f'') w_booking pas w_dto (Some ''k'') w_start = (Inr (resp, [KickOutbox, JoinRoom pas rid]), s')
     \<and> bk_fare resp = \<lparr>mo_amount = qc_soloFareCents w_claims, mo_currency = INR\<rparr>"
  by (simp add: createNormal_def parseIdempotencyKey_def key_char_def replaySolo_def findByIdempotencyScope_def w_start_def Let_def
      w_dto_def verifyQuote_def verify_signed_quote [OF plain_jwt_laws] seconds_def QUOTE_TTL_def w_booking_def coordsMatch_def w_claims_def
      book_def create_def create_tx_def insert_ride_def new_ride_def booking_params_def enqueueOutbox_def ride_dispatch_message_def
      cp_rideType_def cp_operation_def soloResponse_def)

lemma w_quote: "\<exists>q caches. quote_ride w_fare w_seats w_osrm Some plain_jwt w_user KindNormal w_route 0 True (\<lambda>_. None, \<lambda>_. None)
   = (Inr q, caches) \<and> qr_soloFare q = \<lparr>mo_amount = 23000, mo_currency = INR\<rparr> \<and> cd_quoteToken w_dto = Some (qr_quoteToken q)"
proof -
  have "js_round 23000 = 23000" using js_round_int [of 23000] by simp
  then show ?thesis
    by (simp add: quote_ride_def w_user_def quoteSolo_def getRouteMetrics_def w_osrm_def quoteSoloFromMetrics_def w_fare_def
        inr_def Let_def getRouteGeometry_def getPolyline_def sharedEstimate_def w_dto_def quote_of_def w_route_def w_claims_def)
qed

text \<open>C25: No solo or scheduled ride is booked at a fare the backend did not sign: a new ride's fare is that of a
  quote signed with the key under the quote issuer, not yet expired, for the requested route up to a
  millionth of a degree; and a scheduled ride starts 15 minutes to 24 hours from now.\<close>

lemma booked_fare_was_quoted:
  assumes "jwt_laws j" "eff \<noteq> []"
    and "createNormal j sha e pid d rawKey s = (Inr (resp, eff), s') \<or> createScheduled j sha e pid d rawKey s = (Inr (resp, eff), s')"
  shows "\<exists>tok c aud ttl t r. cd_quoteToken d = Some tok \<and> tok = jw_sign j (QuoteBody c) QUOTE_ISSUER aud ttl t
    \<and> seconds (be_clk e) < seconds t + ttl
    \<and> \<bar>qc_originLat c - cd_originLat d\<bar> < 1 / 10 ^ 6 \<and> \<bar>qc_originLng c - cd_originLng d\<bar> < 1 / 10 ^ 6
    \<and> \<bar>qc_destLat c - cd_destLat d\<bar> < 1 / 10 ^ 6 \<and> \<bar>qc_destLng c - cd_destLng d\<bar> < 1 / 10 ^ 6
    \<and> r \<in> set (rides s') \<and> r_id r = be_rideId e \<and> r_passengerId r = pid \<and> r_fareCents r = qc_soloFareCents c \<and> resp = soloResponse r
    \<and> (r_type r = Scheduled \<longrightarrow> in_window (be_clk e) (r_scheduledFor r))"
proof -
  have quoted: "\<exists>tok aud ttl t. cd_quoteToken d = Some tok \<and> tok = jw_sign j (QuoteBody c) QUOTE_ISSUER aud ttl t
      \<and> seconds (be_clk e) < seconds t + ttl \<and> coordsMatch c d" if "verifyQuote j d (be_clk e) = Inr c" for c
    using that by (elim verifyQuote_SomeD) (auto elim!: verify_quote_authentic [OF assms(1)])
  have stored: "new_ride p i now \<in> set (rides s')" if "create_tx p i x now u = Inr (Some (new_ride p i now), s')" for p i x now u
    using that by (cases rule: create_tx_cases) (auto elim!: enqueueOutbox_cases)
  have sel: "r_id (new_ride p i now) = i" "r_passengerId (new_ride p i now) = cp_passengerId p"
    "r_fareCents (new_ride p i now) = cp_fareCents p" "r_type (new_ride p i now) = cp_rideType p"
    "r_scheduledFor (new_ride p i now) = cp_scheduledFor p" for p i now
    by (simp_all add: new_ride_def)
  have goal: ?thesis if c: "verifyQuote j d (be_clk e) = Inr c"
    and t: "create_tx p (be_rideId e) x now u = Inr (Some (new_ride p (be_rideId e) now), s')"
    and p: "cp_passengerId p = pid" "cp_fareCents p = qc_soloFareCents c"
      "cp_rideType p = Scheduled \<longrightarrow> in_window (be_clk e) (cp_scheduledFor p)"
    and r: "resp = soloResponse (new_ride p (be_rideId e) now)" for c p x now u
  proof -
    from quoted [OF c] obtain tok aud ttl v where q: "cd_quoteToken d = Some tok" "tok = jw_sign j (QuoteBody c) QUOTE_ISSUER aud ttl v"
        "seconds (be_clk e) < seconds v + ttl" "coordsMatch c d"
      by blast
    note near = q(4) [unfolded coordsMatch_def Let_def]
    show ?thesis
      by (intro exI [of _ tok] exI [of _ c] exI [of _ aud] exI [of _ ttl] exI [of _ v] exI [of _ "new_ride p (be_rideId e) now"])
        (use near in \<open>simp add: q p r sel stored [OF t]\<close>)
  qed
  from assms(3) show ?thesis
  proof
    assume "createNormal j sha e pid d rawKey s = (Inr (resp, eff), s')"
    then show ?thesis
    proof (cases rule: createNormal_cases)
      case (new key c p)
      show ?thesis by (rule goal [OF new(2,4)]) (use new in simp_all)
    qed (use assms(2) in auto)
  next
    assume "createScheduled j sha e pid d rawKey s = (Inr (resp, eff), s')"
    then show ?thesis
    proof (cases rule: createScheduled_cases)
      case (new key c p raw_t t)
      show ?thesis by (rule goal [OF new(2,6)]) (use new in simp_all)
    qed (use assms(2) in auto)
  qed
qed

lemma booked_fare_was_quoted_witness:
  "\<exists>c :: quote_claims. \<bar>qc_destLat c - 13\<bar> < 1 / 10 ^ 6 \<and> cd_quoteToken w_dto = Some (sign_quote plain_jwt w_claims 0)
     \<and> (\<exists>resp s'. createNormal plain_jwt (\<lambda>_. ''f'') w_booking pas w_dto (Some ''k'') w_start = (Inr (resp, [KickOutbox, JoinRoom pas rid]), s')
          \<and> bk_fare resp = \<lparr>mo_amount = qc_soloFareCents c, mo_currency = INR\<rparr>)"
proof -
  obtain resp s' where b: "createNormal plain_jwt (\<lambda>_. ''f'') w_booking pas w_dto (Some ''k'') w_start
      = (Inr (resp, [KickOutbox, JoinRoom pas rid]), s')" "bk_fare resp = \<lparr>mo_amount = qc_soloFareCents w_claims, mo_currency = INR\<rparr>"
    using w_book by blast
  obtain c :: quote_claims and r where "\<bar>qc_destLat c - cd_destLat w_dto\<bar> < 1 / 10 ^ 6" "resp = soloResponse r" "r_fareCents r = qc_soloFareCents c"
    using booked_fare_was_quoted [OF plain_jwt_laws list.distinct(2) disjI1 [OF b(1)]] by blast
  then show ?thesis using b by (intro exI [of _ c]) (simp add: soloResponse_def w_dto_def)
qed

section \<open>Shared bookings\<close>

text \<open>C26: A shared booking that seats the passenger is recorded under its key in the same transaction: from then
  on, in any reachable database that still holds the record, the same request under the key gets exactly
  the same answer and another request is refused, and neither changes anything.\<close>

lemma shared_booking_replays:
  assumes "createShared sha e pid d (Some key) s = (Inr (resp, eff), s')" "eff \<noteq> []" "key \<noteq> ''''"
    and "reach db_init db_step s" "env_leaves (seat_scope pid key) e"
    and "reach db_init db_step t" "claim_look (seat_scope pid key) t = claim_look (seat_scope pid key) s'" "env_alone e'"
  shows "createShared sha e' pid d' (Some key) t
    = (if requestFingerprint sha OpShared (dto_intent d') = requestFingerprint sha OpShared (dto_intent d)
       then Inr (resp, []) else Inl (Http key_conflict), t)"
proof -
  have ok: "idem_ok s" "idem_ok t" using sys.reach_inv [OF assms(4)] sys.reach_inv [OF assms(6)] by (simp_all add: sys_ok_def)
  have "claim_look (seat_scope pid key) t = Some (requestFingerprint sha OpShared (dto_intent d), Some resp)"
    using shared_records [OF assms(1-3) ok(1) assms(5)] assms(7) by simp
  moreover have "sv_gap e' = (\<lambda>_ t. t)" using assms(8) by (auto simp: env_alone_def)
  moreover have "parseIdempotencyKey (Some key) False = Inr (Some key)"
    using assms(1,3) by (auto simp: createShared_def parseIdempotencyKey_def split: if_splits)
  ultimately show ?thesis using shared_replays ok(2) by blast
qed

definition w_seat_env :: "osrm \<Rightarrow> seat_env" where
  "w_seat_env osrm = \<lparr>sv_fare = w_fare, sv_shared = w_seats, sv_osrm = osrm, sv_prices = \<lambda>_. None, sv_score = \<lambda>_ _. Inr 1,
     sv_match = \<lparr>mc_similarityThreshold = 7 / 10, mc_detourBudgetM = 800, mc_maxSeats = 3\<rparr>, sv_near = \<lambda>_. True, sv_joinedAt = 0,
     sv_poolId = rid, sv_timeoutMs = 60000,
     sv_tx = \<lambda>_. \<lparr>te_xid = xid, te_abort = \<lambda>_. None, te_now = \<lambda>_. 0, te_clk = \<lambda>_. 0, te_reread = \<lambda>_ _. None\<rparr>,
     sv_between = \<lambda>_ s. s, sv_gap = \<lambda>_ s. s, sv_clk = 0, sv_now = 0, sv_recordFails = \<lambda>_. False, sv_releaseFails = False\<rparr>"

lemma w_alone: "env_alone (w_seat_env osrm)" "env_leaves sc (w_seat_env osrm)" "env_runs (w_seat_env osrm)"
  by (simp_all add: env_alone_def env_leaves_def env_runs_def w_seat_env_def)

definition w_shared_dto :: "plain_token create_dto" where
  "w_shared_dto = \<lparr>cd_type = KindShared, cd_originLat = 12, cd_originLng = 77, cd_destLat = 13, cd_destLng = 77,
     cd_quoteToken = None, cd_scheduledFor = None\<rparr>"

lemma w_key: "parseIdempotencyKey (Some ''k'') False = Inr (Some ''k'')"
  by (simp add: parseIdempotencyKey_def key_char_def)

definition w_claimed_key :: db where
  "w_claimed_key = w_start\<lparr>idem := [new_claim (seat_scope pas ''k'') ''f'' 0]\<rparr>"

lemma w_key_claim: "claim (seat_scope pas ''k'') (requestFingerprint (\<lambda>_. ''f'') OpShared i) 0 0 (\<lambda>s. s) (\<lambda>s. s) w_start = Inr (Claimed, w_claimed_key)"
  by (simp add: claim_def insert_claim_def w_start_def w_claimed_key_def requestFingerprint_def seat_scope_def)

lemma w_shared_quote:
  "\<exists>q. seat_quoter w_fare w_seats w_osrm (\<lambda>_. None) (seat_context rid w_seat 1 12 77 [w_seat]) = Inr q \<and> sq_perSeatPrice q = 23000"
proof -
  have "js_round 23000 = 23000" using js_round_int [of 23000] by simp
  then show ?thesis
    by (simp add: seat_quoter_def thrown_in_tx_def quoteSeatInItinerary_def seat_context_def w_seat_def computeStops_def computeStops_by_def
        sortPickupsByDistance_def orderDropoffsNearestNeighbour_def nearest_neighbour.simps nearest_index_def scan_nearest.simps
        pickup_stop_def dropoff_stop_def getRouteMetrics_def w_osrm_def
        quoteSoloFromMetrics_def w_fare_def inr_def Let_def quoteSeatFromMetrics_def seatMultiplierFor_def clamp_def mulMoney_def)
qed

lemma w_open_keyed:
  assumes "quote (seat_context rid w_seat 1 12 77 [w_seat]) = Inr q" "sq_perSeatPrice q = 23000"
  shows "\<exists>c s'. open_tx w_open_params rid xid 60000 quote (Some (sc, resp)) 0 0 w_claimed_key = Inr (Inr c, s')"
  using assms
  by (simp add: open_tx_def insertOpenPool_def insertMember_def insert_member_row_def seat_key_def complete_seat_def
      enqueueOutbox_def pool_expire_message_def update_pools_def bump_def add_seat_def seat_row_def releases_def
      MAX_SAFE_INTEGER_def w_shared w_claimed_key_def Let_def)

lemma w_shared_booking:
  "\<exists>resp eff s'. createShared (\<lambda>_. ''f'') (w_seat_env w_osrm) pas w_shared_dto (Some ''k'') w_start = (Inr (resp, eff), s') \<and> eff \<noteq> []"
proof -
  let ?sc = "seat_scope pas ''k''" and ?q = "seat_quoter w_fare w_seats w_osrm (\<lambda>_. None)"
  have j: "joiner_of (dto_request pas w_shared_dto) 0 = w_seat" by (simp add: joiner_of_def dto_request_def w_shared_dto_def w_seat_def)
  have c: "findCandidates (\<lambda>_. True) w_claimed_key = []" by (simp add: findCandidates_def w_claimed_key_def w_start_def)
  have n: "as_integer 3 = Some 3" "as_integer 800 = Some 800" by (simp_all add: as_integer_def)
  have p: "\<lparr>op_maxSeats = 3, op_detourBudgetM = 800, op_opener = w_seat\<rparr> = w_open_params" by (simp add: w_open_params_def)
  obtain q where "?q (seat_context rid w_seat 1 12 77 [w_seat]) = Inr q" "sq_perSeatPrice q = 23000" using w_shared_quote by blast
  then obtain x s' where o: "open_tx w_open_params rid xid 60000 ?q (Some (?sc, toResponse pas)) 0 0 w_claimed_key = Inr (Inr x, s')"
    using w_open_keyed by blast
  have "\<exists>resp eff. allocateSharedSeat (w_seat_env w_osrm) pas w_shared_dto (Some ?sc) w_claimed_key = (Inr (resp, eff), s') \<and> eff \<noteq> []"
    by (simp add: allocateSharedSeat_def w_seat_env_def findOrCreatePool_def c rank_def open_new_def n j p openPool_def inTx_def
        retry_from.simps transaction_def o afterCommit_def)
  then obtain resp eff where "allocateSharedSeat (w_seat_env w_osrm) pas w_shared_dto (Some ?sc) w_claimed_key = (Inr (resp, eff), s')" "eff \<noteq> []"
    by blast
  moreover have "claim ?sc (requestFingerprint (\<lambda>_. ''f'') OpShared i) (sv_clk (w_seat_env w_osrm)) (sv_now (w_seat_env w_osrm))
      (sv_gap (w_seat_env w_osrm) 0) (sv_gap (w_seat_env w_osrm) 1) w_start = Inr (Claimed, w_claimed_key)" for i
    using w_key_claim by (simp add: w_seat_env_def)
  ultimately have "createShared (\<lambda>_. ''f'') (w_seat_env w_osrm) pas w_shared_dto (Some ''k'') w_start = (Inr (resp, eff), s')"
    by (simp add: createShared_def w_key release_after_def)
  then show ?thesis using \<open>eff \<noteq> []\<close> by blast
qed

lemma shared_booking_replays_witness:
  "\<exists>resp eff s'. createShared (\<lambda>_. ''f'') (w_seat_env w_osrm) pas w_shared_dto (Some ''k'') w_start = (Inr (resp, eff), s') \<and> eff \<noteq> []
     \<and> createShared (\<lambda>_. ''f'') (w_seat_env w_osrm) pas w_shared_dto (Some ''k'') s' = (Inr (resp, []), s')"
proof -
  obtain resp eff s' where b: "createShared (\<lambda>_. ''f'') (w_seat_env w_osrm) pas w_shared_dto (Some ''k'') w_start = (Inr (resp, eff), s')" "eff \<noteq> []"
    using w_shared_booking by blast
  have s0: "reach db_init db_step w_start" by (rule run_start [OF w_init])
  have "db_step\<^sup>*\<^sup>* w_start s'" by (rule shared_run [OF b(1) w_alone(3)])
  then have "reach db_init db_step s'" by (rule reach_run) (rule s0)
  from shared_booking_replays [OF b _ s0 w_alone(2) this refl w_alone(1) [of w_osrm], of w_shared_dto] b
  have "createShared (\<lambda>_. ''f'') (w_seat_env w_osrm) pas w_shared_dto (Some ''k'') s' = (Inr (resp, []), s')" by simp
  with b show ?thesis by blast
qed

text \<open>C27: A booking request that fails while no other session is at work has booked nothing: the database is as it
  was, but for the row of the request's own key in two cases. When the release of the key fails, the key stays claimed
  by this request, in progress; when the request had taken over an abandoned claim of its own, the key is free. Every
  other key is as it was, and a completed record is never touched.\<close>

lemma refused_booking_leaves_no_trace:
  assumes "create_ride j sha be se user d rawKey s = (Inl err, s')" "reach db_init db_step s" "env_alone se" "be_gap be s = s"
  shows "s' = s \<or> (\<exists>k. rawKey = Some k \<and> s' = s\<lparr>idem := idem s'\<rparr>
    \<and> (\<forall>sc. sc \<noteq> seat_scope (ac_sub user) k \<longrightarrow> find_claim sc s' = find_claim sc s)
    \<and> (if sv_releaseFails se
       then claim_look (seat_scope (ac_sub user) k) s \<in> {None, Some (requestFingerprint sha OpShared (dto_intent d), None)}
         \<and> claim_look (seat_scope (ac_sub user) k) s' = Some (requestFingerprint sha OpShared (dto_intent d), None)
       else claim_look (seat_scope (ac_sub user) k) s = Some (requestFingerprint sha OpShared (dto_intent d), None)
         \<and> claim_look (seat_scope (ac_sub user) k) s' = None))"
proof -
  have ok: "idem_ok s" using sys.reach_inv [OF assms(2)] by (simp add: sys_ok_def)
  show ?thesis
  proof (cases "ac_role user = RoleClient \<and> cd_type d = KindShared")
    case True
    then have "createShared sha se (ac_sub user) d rawKey s = (Inl err, s')"
      using assms(1) by (cases "createShared sha se (ac_sub user) d rawKey s") (auto simp: create_ride_def map_sum_def split: sum.splits)
    then show ?thesis by (rule shared_refused [OF _ assms(3) ok])
  next
    case False
    obtain r1 s1 where n: "createNormal j sha be (ac_sub user) d rawKey s = (r1, s1)" by force
    obtain r2 s2 where c: "createScheduled j sha be (ac_sub user) d rawKey s = (r2, s2)" by force
    have "r1 = Inl x \<Longrightarrow> s1 = s" "r2 = Inl x \<Longrightarrow> s2 = s" for x
      using n c assms(4) by (auto elim!: createNormal_cases createScheduled_cases)
    then have "s' = s"
      using assms(1) n c False by (cases "cd_type d"; cases r1; cases r2) (auto simp: create_ride_def split: if_splits)
    then show ?thesis by simp
  qed
qed

lemma refused_booking_leaves_no_trace_witness:
  "snd (create_ride plain_jwt (\<lambda>_. ''f'') w_booking (w_seat_env (\<lambda>_. None)) w_user w_shared_dto (Some ''k'') w_start) = w_start"
proof -
  let ?sc = "seat_scope pas ''k''" and ?q = "seat_quoter w_fare w_seats (\<lambda>_. None) (\<lambda>_. None)"
  have q: "?q (seat_context rid w_seat 1 12 77 [w_seat]) = Inl (App_error ''routing_unavailable'')"
    by (simp add: seat_quoter_def thrown_in_tx_def quoteSeatInItinerary_def seat_context_def w_seat_def computeStops_def computeStops_by_def
        sortPickupsByDistance_def orderDropoffsNearestNeighbour_def nearest_neighbour.simps nearest_index_def scan_nearest.simps
        pickup_stop_def dropoff_stop_def getRouteMetrics_def)
  have o: "open_tx w_open_params rid xid 60000 ?q (Some (?sc, toResponse pas)) 0 0 w_claimed_key = Inl (App_error ''routing_unavailable'')"
    using q by (simp add: open_tx_def insertOpenPool_def w_shared w_claimed_key_def Let_def)
  have j: "joiner_of (dto_request pas w_shared_dto) 0 = w_seat" by (simp add: joiner_of_def dto_request_def w_shared_dto_def w_seat_def)
  have c: "findCandidates (\<lambda>_. True) w_claimed_key = []" by (simp add: findCandidates_def w_claimed_key_def w_start_def)
  have n: "as_integer 3 = Some 3" "as_integer 800 = Some 800" by (simp_all add: as_integer_def)
  have p: "\<lparr>op_maxSeats = 3, op_detourBudgetM = 800, op_opener = w_seat\<rparr> = w_open_params" by (simp add: w_open_params_def)
  obtain err where a: "allocateSharedSeat (w_seat_env (\<lambda>_. None)) pas w_shared_dto (Some ?sc) w_claimed_key = (Inl err, w_claimed_key)"
    by (simp add: allocateSharedSeat_def w_seat_env_def findOrCreatePool_def c rank_def open_new_def n j p openPool_def inTx_def
        retry_from.simps transaction_def o isRetryableTxError_def)
  have "claim ?sc (requestFingerprint (\<lambda>_. ''f'') OpShared i) (sv_clk (w_seat_env (\<lambda>_. None))) (sv_now (w_seat_env (\<lambda>_. None)))
      (sv_gap (w_seat_env (\<lambda>_. None)) 0) (sv_gap (w_seat_env (\<lambda>_. None)) 1) w_start = Inr (Claimed, w_claimed_key)" for i
    using w_key_claim by (simp add: w_seat_env_def)
  then obtain s' where r: "create_ride plain_jwt (\<lambda>_. ''f'') w_booking (w_seat_env (\<lambda>_. None)) w_user w_shared_dto (Some ''k'') w_start = (Inl err, s')"
    using a by (simp add: create_ride_def createShared_def w_key release_after_def w_user_def w_shared_dto_def)
  have "s' = w_start"
    using refused_booking_leaves_no_trace [OF r run_start [OF w_init] w_alone(1)]
    by (simp add: w_booking_def w_start_def claim_look_def find_claim_def w_seat_env_def)
  then show ?thesis using r by simp
qed

text \<open>A booking request, however it ends and whatever other sessions do meanwhile, is a run of the backend's
  transactions: everything that holds of reachable databases holds after it.\<close>

lemma bookings_are_runs:
  assumes "create_ride j sha be se user d rawKey s = (res, s')"
    and "isUuid (be_rideId be)" "db_step\<^sup>*\<^sup>* s (be_gap be s)" "env_runs se" "reach db_init db_step s"
  shows "db_step\<^sup>*\<^sup>* s s' \<and> reach db_init db_step s' \<and> sys_ok s'"
proof -
  have r: "db_step\<^sup>*\<^sup>* s s'" by (rule create_ride_run [OF assms(1-4)])
  then have "reach db_init db_step s'" by (rule reach_run) (rule assms(5))
  then show ?thesis using r sys.reach_inv by blast
qed

section \<open>Who may do what\<close>

definition party :: "access_claims \<Rightarrow> ride \<Rightarrow> bool" where
  "party user r \<longleftrightarrow> ac_role user = RoleClient \<and> r_passengerId r = ac_sub user
     \<or> ac_role user = RoleDriver \<and> r_driverId r = Some (ac_sub user)"

text \<open>Only the parties of a ride read, advance, cancel or follow it, and only the driver who claimed a pool reads
  its stops; a refused request changes nothing.\<close>

lemma endpoints_are_guarded:
  "(\<forall>v. getRide user i s = Inr v \<longrightarrow> (\<exists>r. ride_row s i = Some r \<and> v = rideDetail r \<and> party user r))
   \<and> (\<forall>v. listStops user i s = Inr v \<longrightarrow>
        (\<exists>p. pool_row s i = Some p \<and> ac_role user = RoleDriver \<and> p_claimedByDriverId p = Some (ac_sub user)))
   \<and> (case transition_ride user i ev clk s of (Inl _, s') \<Rightarrow> s' = s
        | (Inr _, _) \<Rightarrow> \<exists>r. ride_row s i = Some r \<and> ac_role user = RoleDriver \<and> party user r)
   \<and> (case cancel_endpoint user i d wait clk ct s of (Inl _, s') \<Rightarrow> s' = s | (Inr _, _) \<Rightarrow> \<exists>r. ride_row s i = Some r \<and> party user r)
   \<and> (onRideSubscribe uid i s \<noteq> [] \<longrightarrow> (\<exists>r. ride_row s i = Some r \<and> (r_passengerId r = uid \<or> r_driverId r = Some uid)))"
proof (intro conjI)
  show "\<forall>v. getRide user i s = Inr v \<longrightarrow> (\<exists>r. ride_row s i = Some r \<and> v = rideDetail r \<and> party user r)"
    by (auto simp: getRide_def findById_def party_def Let_def split: option.splits if_splits)
  show "\<forall>v. listStops user i s = Inr v \<longrightarrow>
      (\<exists>p. pool_row s i = Some p \<and> ac_role user = RoleDriver \<and> p_claimedByDriverId p = Some (ac_sub user))"
    by (auto simp: listStops_def split: option.splits if_splits)
  show "case transition_ride user i ev clk s of (Inl _, s') \<Rightarrow> s' = s
      | (Inr _, _) \<Rightarrow> \<exists>r. ride_row s i = Some r \<and> ac_role user = RoleDriver \<and> party user r"
    by (auto simp: transition_ride_def applyEvent_def party_def split: sum.splits option.splits prod.splits elim!: transition_cases)
  show "case cancel_endpoint user i d wait clk ct s of (Inl _, s') \<Rightarrow> s' = s | (Inr _, _) \<Rightarrow> \<exists>r. ride_row s i = Some r \<and> party user r"
    by (auto simp: cancel_endpoint_def cancelService_def role_actor_def party_def cancel_target_def split: sum.splits option.splits prod.splits if_splits
        elim!: cancel_cases)
  show "onRideSubscribe uid i s \<noteq> [] \<longrightarrow> (\<exists>r. ride_row s i = Some r \<and> (r_passengerId r = uid \<or> r_driverId r = Some uid))"
    by (auto simp: onRideSubscribe_def findById_def split: option.splits if_splits)
qed

end
