(* ===== verification/Fleet.thy ===== *)
theory Fleet
  imports Projections Tokens
begin

text \<open>
  Drivers and their vehicles: \<open>DriversService\<close> (drivers.service.ts) with the presence hash in Redis,
  \<open>VehiclesService\<close> (vehicles.service.ts), and the role check of both controllers. The statements of one
  request run on one state; validation of the bodies (DTOs) is left out.
\<close>

section \<open>Presence\<close>

definition AUTO_OFFLINE_THRESHOLD_MS :: int where
  "AUTO_OFFLINE_THRESHOLD_MS = 60000"

datatype availability = Offline | Online | On_ride

record driver_row =
  dr_userId :: uuid
  dr_availability :: availability
  dr_currentVehicleId :: "uuid option"

datatype fleet_error = Fleet_not_found | Fleet_forbidden | No_vehicle_selected | Vehicle_reg_exists | Fleet_db db_error

definition setCurrentVehicle :: "uuid \<Rightarrow> uuid \<Rightarrow> vehicle list \<Rightarrow> driver_row list \<Rightarrow> fleet_error option \<times> driver_row list" where
  "setCurrentVehicle d v vs ds =
     (case row v_id vs v of
        None \<Rightarrow> (Some Fleet_not_found, ds)
      | Some x \<Rightarrow>
          if v_driverId x \<noteq> d then (Some Fleet_forbidden, ds)
          else (None, upd (\<lambda>r. dr_userId r = d) (\<lambda>r. r\<lparr>dr_currentVehicleId := Some v\<rparr>) ds))"

definition online_hash :: "instant \<Rightarrow> uuid \<Rightarrow> driver_hash option \<Rightarrow> driver_hash" where
  "online_hash clk sid h =
     \<lparr>dh_availability = Some ''online'', dh_lastSeen = Some clk, dh_sessionId = Some sid,
      dh_currentRideId = Option.bind h dh_currentRideId\<rparr>"

definition goOnline ::
  "uuid \<Rightarrow> real \<Rightarrow> real \<Rightarrow> uuid \<Rightarrow> instant \<Rightarrow> driver_row list \<times> redis \<Rightarrow> (fleet_error + uuid) \<times> driver_row list \<times> redis" where
  "goOnline d lat lng sid clk w =
     (case w of
        (ds, r) \<Rightarrow>
          (case Option.bind (row dr_userId ds d) dr_currentVehicleId of
             None \<Rightarrow> (Inl No_vehicle_selected, ds, r)
           | Some _ \<Rightarrow>
               (Inr sid, upd (\<lambda>x. dr_userId x = d) (\<lambda>x. x\<lparr>dr_availability := Online\<rparr>) ds,
                r\<lparr>rd_geo := (rd_geo r)(d \<mapsto> (lng, lat)), rd_drivers := (rd_drivers r)(d \<mapsto> online_hash clk sid (rd_drivers r d))\<rparr>)))"

definition goOffline :: "uuid \<Rightarrow> driver_row list \<times> redis \<Rightarrow> driver_row list \<times> redis" where
  "goOffline d w =
     (case w of
        (ds, r) \<Rightarrow>
          (upd (\<lambda>x. dr_userId x = d) (\<lambda>x. x\<lparr>dr_availability := Offline\<rparr>) ds,
           r\<lparr>rd_geo := (rd_geo r)(d := None), rd_drivers := (rd_drivers r)(d := None)\<rparr>))"

text \<open>A driver silent for a minute is taken offline and told so.\<close>

fun offline_sweep :: "instant \<Rightarrow> uuid list \<Rightarrow> driver_row list \<times> redis \<Rightarrow> uuid list \<times> driver_row list \<times> redis" where
  "offline_sweep clk [] w = ([], w)"
| "offline_sweep clk (d # ds) w =
     (case Option.bind (rd_drivers (snd w) d) dh_lastSeen of
        None \<Rightarrow> offline_sweep clk ds w
      | Some seen \<Rightarrow>
          if clk - seen < AUTO_OFFLINE_THRESHOLD_MS then offline_sweep clk ds w
          else (case offline_sweep clk ds (goOffline d w) of (forced, w') \<Rightarrow> (d # forced, w')))"

section \<open>Vehicles\<close>

record create_vehicle_dto =
  cv_type :: vehicle_type
  cv_regNo :: string
  cv_make :: string
  cv_model :: string
  cv_color :: string
  cv_seats :: int

record update_vehicle_dto =
  uv_type :: "vehicle_type option"
  uv_regNo :: "string option"
  uv_make :: "string option"
  uv_model :: "string option"
  uv_color :: "string option"
  uv_seats :: "int option"

text \<open>The registration number is unique over the whole table.\<close>

definition insert_vehicle :: "vehicle \<Rightarrow> vehicle list \<Rightarrow> db_error + vehicle list" where
  "insert_vehicle v vs =
     (if v_id v \<in> v_id ` set vs then Inl (Unique_violation ''vehicle_pkey'')
      else if v_regNo v \<in> v_regNo ` set vs then Inl (Unique_violation ''vehicle_reg_no_unique'')
      else Inr (vs @ [v]))"

definition new_vehicle :: "uuid \<Rightarrow> uuid \<Rightarrow> create_vehicle_dto \<Rightarrow> instant \<Rightarrow> vehicle" where
  "new_vehicle i d dto now = \<lparr>v_id = i, v_driverId = d, v_type = cv_type dto, v_regNo = cv_regNo dto, v_make = Some (cv_make dto),
     v_model = Some (cv_model dto), v_color = Some (cv_color dto), v_seats = cv_seats dto, v_active = True, v_createdAt = now\<rparr>"

definition create_vehicle :: "uuid \<Rightarrow> create_vehicle_dto \<Rightarrow> uuid \<Rightarrow> instant \<Rightarrow> vehicle list \<Rightarrow> (fleet_error + vehicle) \<times> vehicle list" where
  "create_vehicle d dto i now vs =
     (if list_ex (\<lambda>v. v_driverId v = d \<and> v_regNo v = cv_regNo dto) vs then (Inl Vehicle_reg_exists, vs)
      else case insert_vehicle (new_vehicle i d dto now) vs of
          Inl e \<Rightarrow> (Inl (Fleet_db e), vs)
        | Inr vs' \<Rightarrow> (Inr (new_vehicle i d dto now), vs'))"

definition findAllForDriver :: "uuid \<Rightarrow> vehicle list \<Rightarrow> vehicle list" where
  "findAllForDriver d vs = filter (\<lambda>v. v_driverId v = d \<and> v_active v) vs"

definition apply_updates :: "update_vehicle_dto \<Rightarrow> vehicle \<Rightarrow> vehicle" where
  "apply_updates u v = v\<lparr>v_type := (case uv_type u of None \<Rightarrow> v_type v | Some x \<Rightarrow> x),
     v_regNo := (case uv_regNo u of None \<Rightarrow> v_regNo v | Some x \<Rightarrow> x),
     v_make := (case uv_make u of None \<Rightarrow> v_make v | Some x \<Rightarrow> Some x),
     v_model := (case uv_model u of None \<Rightarrow> v_model v | Some x \<Rightarrow> Some x),
     v_color := (case uv_color u of None \<Rightarrow> v_color v | Some x \<Rightarrow> Some x),
     v_seats := (case uv_seats u of None \<Rightarrow> v_seats v | Some x \<Rightarrow> x)\<rparr>"

text \<open>An empty \<open>set\<close> is refused by the query builder, before Postgres sees it.\<close>

definition no_updates :: "update_vehicle_dto \<Rightarrow> bool" where
  "no_updates u \<longleftrightarrow> uv_type u = None \<and> uv_regNo u = None \<and> uv_make u = None \<and> uv_model u = None \<and> uv_color u = None \<and> uv_seats u = None"

definition update_vehicle :: "uuid \<Rightarrow> uuid \<Rightarrow> update_vehicle_dto \<Rightarrow> vehicle list \<Rightarrow> (fleet_error + vehicle) \<times> vehicle list" where
  "update_vehicle i d u vs =
     (case row v_id vs i of
        None \<Rightarrow> (Inl Fleet_not_found, vs)
      | Some v \<Rightarrow>
          if v_driverId v \<noteq> d then (Inl Fleet_forbidden, vs)
          else if no_updates u then (Inl (Fleet_db (App_error ''No values to set'')), vs)
          else if list_ex (\<lambda>x. v_id x \<noteq> i \<and> v_regNo x = v_regNo (apply_updates u v)) vs
          then (Inl (Fleet_db (Unique_violation ''vehicle_reg_no_unique'')), vs)
          else (Inr (apply_updates u v), upd (\<lambda>x. v_id x = i) (apply_updates u) vs))"

section \<open>Endpoints\<close>

definition assertDriver :: "access_claims \<Rightarrow> fleet_error option" where
  "assertDriver user = (if ac_role user \<noteq> RoleDriver then Some Fleet_forbidden else None)"

definition setVehicle :: "access_claims \<Rightarrow> uuid \<Rightarrow> vehicle list \<Rightarrow> driver_row list \<Rightarrow> fleet_error option \<times> driver_row list" where
  "setVehicle user v vs ds =
     (case assertDriver user of Some e \<Rightarrow> (Some e, ds) | None \<Rightarrow> setCurrentVehicle (ac_sub user) v vs ds)"

definition vehicles_create :: "access_claims \<Rightarrow> create_vehicle_dto \<Rightarrow> uuid \<Rightarrow> instant \<Rightarrow> vehicle list \<Rightarrow> (fleet_error + vehicle) \<times> vehicle list" where
  "vehicles_create user dto i now vs =
     (case assertDriver user of Some e \<Rightarrow> (Inl e, vs) | None \<Rightarrow> create_vehicle (ac_sub user) dto i now vs)"

definition vehicles_update :: "access_claims \<Rightarrow> uuid \<Rightarrow> update_vehicle_dto \<Rightarrow> vehicle list \<Rightarrow> (fleet_error + vehicle) \<times> vehicle list" where
  "vehicles_update user i u vs =
     (case assertDriver user of Some e \<Rightarrow> (Inl e, vs) | None \<Rightarrow> update_vehicle i (ac_sub user) u vs)"

section \<open>Facts\<close>

definition vehicles_ok :: "vehicle list \<Rightarrow> bool" where
  "vehicles_ok vs \<longleftrightarrow> distinct (map v_id vs) \<and> distinct (map v_regNo vs)"

text \<open>A vehicle of another driver with the same number is no conflict answer but a database error.\<close>

lemma foreign_registration:
  assumes "v \<in> set vs" "v_driverId v \<noteq> d" "v_regNo v = cv_regNo dto" "vehicles_ok vs" "i \<notin> v_id ` set vs"
  shows "create_vehicle d dto i now vs = (Inl (Fleet_db (Unique_violation ''vehicle_reg_no_unique'')), vs)"
proof -
  have "\<not> list_ex (\<lambda>x. v_driverId x = d \<and> v_regNo x = cv_regNo dto) vs"
    using assms(1-4) by (auto simp: list_ex_iff vehicles_ok_def distinct_map inj_on_def)
  moreover have "cv_regNo dto \<in> v_regNo ` set vs" using assms(1,3) by force
  ultimately show ?thesis using assms(5) by (simp add: create_vehicle_def insert_vehicle_def new_vehicle_def)
qed

text \<open>An owner's changes keep the table well formed and touch no other driver's vehicles.\<close>

lemma create_vehicle_ok: "vehicles_ok vs \<Longrightarrow> vehicles_ok (snd (create_vehicle d dto i now vs))"
  by (auto simp: create_vehicle_def insert_vehicle_def new_vehicle_def vehicles_ok_def)

lemma update_vehicle_foreign:
  assumes "v \<in> set vs" "v_driverId v \<noteq> d"
  shows "vehicles_ok vs \<Longrightarrow> v \<in> set (snd (update_vehicle i d u vs))"
proof -
  assume ok: "vehicles_ok vs"
  show ?thesis
  proof (cases "row v_id vs i")
    case None
    then show ?thesis using assms by (simp add: update_vehicle_def)
  next
    case (Some x)
    have "v_id v = i \<Longrightarrow> v = x" using row_mem [of v_id vs v] ok assms(1) Some by (simp add: vehicles_ok_def)
    then show ?thesis using assms Some by (auto simp: update_vehicle_def set_upd)
  qed
qed

end
