(* ===== verification/Service_Properties.thy ===== *)
theory Service_Properties
  imports Ratings Fleet Web_Auth Book_Page Auth_Config Scenario
begin

text \<open>
  Correctness of the smaller services and of the web app's session: ratings, the presence sweep, sign-out,
  the single refresh, the resending of a create, the quote on the booking page, and the startup settings.
\<close>

section \<open>Ratings\<close>

lemma rates_parties:
  assumes "rates s x"
  shows "1 \<le> rt_stars x \<and> rt_stars x \<le> 5 \<and> (\<exists>r. ride_row s (rt_rideId x) = Some r \<and> r_status r = Completed
        \<and> (rt_raterId x = r_passengerId r \<and> Some (rt_subjectId x) = r_driverId r
           \<or> Some (rt_raterId x) = r_driverId r \<and> rt_subjectId x = r_passengerId r))"
  using assms by (fastforce simp: rates_def rating_subject_def split: if_splits)

text \<open>The rater and the ride determine the direction.\<close>

lemma rater_determines:
  assumes "distinct (map direction rs)" "\<And>x. x \<in> set rs \<Longrightarrow> rates s x"
  shows "distinct (map (\<lambda>x. (rt_rideId x, rt_raterId x)) rs)"
proof -
  have "x = y" if "x \<in> set rs" "y \<in> set rs" "rt_rideId x = rt_rideId y" "rt_raterId x = rt_raterId y" for x y
  proof -
    have "direction x = direction y"
      using assms(2) [OF that(1)] assms(2) [OF that(2)] that(3,4) by (auto simp: rates_def direction_def)
    then show ?thesis using assms(1) that(1,2) by (simp add: distinct_map inj_on_def)
  qed
  then show ?thesis using assms(1) by (auto simp: distinct_map intro!: inj_onI)
qed

text \<open>C33: Every stored rating is one to five stars, given by one party of a completed ride to the other. No party has
  rated the same ride twice, so each direction is rated at most once and a ride has at most two ratings.\<close>

lemma ratings_are_two_sided:
  assumes "reach rating_init rating_step (s, rs)"
  shows "(\<forall>x \<in> set rs. 1 \<le> rt_stars x \<and> rt_stars x \<le> 5 \<and> (\<exists>r. ride_row s (rt_rideId x) = Some r \<and> r_status r = Completed
        \<and> (rt_raterId x = r_passengerId r \<and> Some (rt_subjectId x) = r_driverId r
           \<or> Some (rt_raterId x) = r_driverId r \<and> rt_subjectId x = r_passengerId r)))
    \<and> distinct (map (\<lambda>x. (rt_rideId x, rt_raterId x)) rs)
    \<and> (\<forall>i. length (filter (\<lambda>x. rt_rideId x = i) rs) \<le> 2)"
proof -
  have ok: "\<And>x. x \<in> set rs \<Longrightarrow> rates s x" "distinct (map direction rs)"
    using ratings.reach_inv [OF assms] by (simp_all add: ratings_ok_def)
  have "distinct (map (\<lambda>x. (rt_rideId x, rt_raterId x)) rs)"
    by (rule rater_determines [OF ok(2)]) (rule ok(1))
  have "length (filter (\<lambda>x. rt_rideId x = i) rs) \<le> 2" for i
  proof (cases "ride_row s i")
    case None
    then have "filter (\<lambda>x. rt_rideId x = i) rs = []" using ok(1) by (fastforce simp: rates_def filter_empty_conv)
    then show ?thesis by simp
  next
    case (Some r)
    let ?xs = "filter (\<lambda>x. rt_rideId x = i) rs" and ?d = "the (r_driverId r)" and ?p = "r_passengerId r"
    have "direction x \<in> {(i, ?p, ?d), (i, ?d, ?p)}" if x: "x \<in> set ?xs" for x
    proof -
      have "rates s x" "rt_rideId x = i" using ok(1) x by simp_all
      with rates_parties [of s x] Some have "rt_raterId x = ?p \<and> Some (rt_subjectId x) = r_driverId r
          \<or> Some (rt_raterId x) = r_driverId r \<and> rt_subjectId x = ?p" by simp
      then have "direction x = (rt_rideId x, ?p, ?d) \<or> direction x = (rt_rideId x, ?d, ?p)" unfolding direction_def by (metis option.sel)
      then show ?thesis using x by simp
    qed
    then have "set (map direction ?xs) \<subseteq> {(i, ?p, ?d), (i, ?d, ?p)}" unfolding set_map by (rule image_subsetI)
    then have "card (set (map direction ?xs)) \<le> card {(i, ?p, ?d), (i, ?d, ?p)}" by (rule card_mono [rotated]) simp
    also have "\<dots> \<le> 2" using card_length [of "[(i, ?p, ?d), (i, ?d, ?p)]"] by simp
    finally have "card (set (map direction ?xs)) \<le> 2" .
    moreover have "distinct (map direction ?xs)" using ok(2) by (rule distinct_map_filter)
    ultimately show ?thesis using distinct_card [of "map direction ?xs"] by simp
  qed
  with \<open>distinct (map (\<lambda>x. (rt_rideId x, rt_raterId x)) rs)\<close> show ?thesis using rates_parties [OF ok(1)] by blast
qed

definition w_finished :: db where
  "w_finished = snd (applyEvent rid drv ''end_ride'' 9 (snd (applyEvent rid drv ''start_ride'' 8
     (snd (applyEvent rid drv ''mark_arrived'' 7 (snd (applyEvent rid drv ''start_en_route'' 6 w_accepted)))))))"

lemma w_reach_finished: "reach db_init db_step w_finished"
  unfolding w_finished_def by (rule run_step [OF run_step [OF run_step [OF run_step [OF w_reach_accepted s_event] s_event] s_event] s_event])

lemma w_finished_row: "\<exists>r. ride_row w_finished rid = Some r \<and> r_status r = Completed \<and> r_passengerId r = pas \<and> r_driverId r = Some drv \<and> r_id r = rid"
  by (simp add: w_finished_def applyEvent_def transition_spec_def transition_def set_ride_def release_def advance_ride_def stamp_for_status_def
      w_solo bind_ride_def Let_def)

abbreviation w_rating :: rating where
  "w_rating \<equiv> \<lparr>rt_id = yid, rt_rideId = rid, rt_raterId = pas, rt_subjectId = drv, rt_stars = 5, rt_text = None, rt_createdAt = 10\<rparr>"

abbreviation w_rater :: access_claims where
  "w_rater \<equiv> \<lparr>ac_sub = pas, ac_role = RoleClient, ac_authMethod = ''phone''\<rparr>"

lemma w_rate:
  "rate_endpoint w_rater rid \<lparr>rd_stars = 5, rd_text = None\<rparr> yid 10 w_finished [] = Inr (Inr (yid, rid, drv, 5), [w_rating])"
proof -
  obtain r where r: "ride_row w_finished rid = Some r" "r_status r = Completed" "r_passengerId r = pas" "r_driverId r = Some drv" "r_id r = rid"
    using w_finished_row by blast
  have "rating_subject pas r = Some drv" by (simp add: rating_subject_def r)
  moreover have "insert_rating rid pas drv 5 None yid 10 [] = Inr (Some w_rating, [w_rating])" by (simp add: insert_rating_def Let_def)
  ultimately show ?thesis by (simp add: rate_endpoint_def rate_def findById_def valid_rating_def r)
qed

lemma ratings_are_two_sided_witness:
  "\<exists>r. ride_row w_finished rid = Some r \<and> r_status r = Completed \<and> reach rating_init rating_step (w_finished, [w_rating])"
proof -
  have lift: "reach rating_init rating_step (s, [])" if "reach db_init db_step s" for s
    using that
  proof (induction rule: reach.induct)
    case (reach_init s)
    then have "rating_init (s, [])" by (simp add: rating_init_def)
    then show ?case by (rule reach.reach_init)
  next
    case (reach_step s t)
    show ?case by (rule reach.reach_step [OF reach_step.IH rs_db]) (rule reach_step.hyps)
  qed
  have "rating_step (w_finished, []) (w_finished, [w_rating])" by (rule rs_rate [OF w_reach_finished rtranclp.rtrancl_refl w_rate])
  with lift [OF w_reach_finished] have r: "reach rating_init rating_step (w_finished, [w_rating])" by (rule reach.reach_step)
  show ?thesis using ratings_are_two_sided [OF r] r by auto
qed

section \<open>Presence\<close>

definition silent :: "instant \<Rightarrow> redis \<Rightarrow> uuid \<Rightarrow> bool" where
  "silent clk r d \<longleftrightarrow> (case Option.bind (rd_drivers r d) dh_lastSeen of None \<Rightarrow> False | Some seen \<Rightarrow> AUTO_OFFLINE_THRESHOLD_MS \<le> clk - seen)"

lemma offline_twice: "upd (\<lambda>x. dr_userId x \<in> B) (\<lambda>x. x\<lparr>dr_availability := Offline\<rparr>) (upd (\<lambda>x. dr_userId x = d) (\<lambda>x. x\<lparr>dr_availability := Offline\<rparr>) rows)
    = upd (\<lambda>x. dr_userId x \<in> insert d B) (\<lambda>x. x\<lparr>dr_availability := Offline\<rparr>) rows"
  by (induction rows) auto

text \<open>The sweep takes offline exactly the scanned drivers that were silent for a minute: their row, hash
  and position; nobody else is touched.\<close>

lemma sweep_is_exact:
  assumes "offline_sweep clk ds (rows, r) = (forced, rows', r')"
  shows "set forced = {d \<in> set ds. silent clk r d}
    \<and> rows' = upd (\<lambda>x. dr_userId x \<in> set forced) (\<lambda>x. x\<lparr>dr_availability := Offline\<rparr>) rows
    \<and> (\<forall>d. rd_drivers r' d = (if d \<in> set forced then None else rd_drivers r d)
         \<and> rd_geo r' d = (if d \<in> set forced then None else rd_geo r d))
    \<and> rd_pools r' = rd_pools r"
  using assms
proof (induction ds arbitrary: rows r forced)
  case Nil
  then show ?case by (simp add: upd_def)
next
  case (Cons d ds)
  show ?case
  proof (cases "silent clk r d")
    case False
    then have "offline_sweep clk ds (rows, r) = (forced, rows', r')" using Cons.prems
      by (auto simp: silent_def AUTO_OFFLINE_THRESHOLD_MS_def split: option.splits if_splits)
    from Cons.IH [OF this] show ?thesis using False by auto
  next
    case True
    obtain rows1 r1 where off: "goOffline d (rows, r) = (rows1, r1)" by fastforce
    then obtain fs where fs: "offline_sweep clk ds (rows1, r1) = (fs, rows', r')" "forced = d # fs"
      using Cons.prems True by (auto simp: silent_def AUTO_OFFLINE_THRESHOLD_MS_def split: option.splits if_splits prod.splits)
    have r1: "rd_drivers r1 = (rd_drivers r)(d := None)" "rd_geo r1 = (rd_geo r)(d := None)" "rd_pools r1 = rd_pools r"
      "rows1 = upd (\<lambda>x. dr_userId x = d) (\<lambda>x. x\<lparr>dr_availability := Offline\<rparr>) rows"
      using off by (auto simp: goOffline_def)
    have "silent clk r1 e = (e \<noteq> d \<and> silent clk r e)" for e by (simp add: silent_def r1)
    then show ?thesis using Cons.IH [OF fs(1)] True fs(2) r1 offline_twice [of "set fs" d rows] by auto
  qed
qed

section \<open>The web session\<close>

text \<open>C34: After a sign-out nothing but a new sign-in brings a session back: late refresh answers are dropped
  and no new refresh is sent.\<close>

lemma signed_out_stays_out:
  assumes "\<forall>e \<in> set later. \<not> is_sign_in e" "a = auth_run dec (earlier @ SignOut now reply # later) initial_auth"
  shows "ws_jwt a = None \<and> ws_user a = None \<and> fst (refreshAccessToken a) = None \<and> fst (getAccessToken now' a) = WaitFor None"
proof -
  let ?b = "auth_run dec earlier (initial_auth :: 'a auth_store)"
  have ok: "auth_ok ?b" by (rule auth_run_ok) (simp add: auth_ok_def initial_auth_def)
  have a: "a = auth_run dec later (drop_session ?b)"
    unfolding assms(2) auth_run_append by (simp add: auth_run_def signOut_def)
  have "auth_ok (drop_session ?b)" using auth_event_ok [OF ok, of dec "SignOut now reply"] by (simp add: signOut_def)
  from signed_out_run [OF sign_out_enters [OF ok] this assms(1), of dec]
  show ?thesis by (simp add: a signed_out_state_def refreshAccessToken_def getAccessToken_def)
qed

lemma signed_out_stays_out_witness:
  "ws_jwt (auth_run (\<lambda>_. None) ([Refresh] @ SignOut 0 ReplyFailed # [RefreshReply 0 (ReplyGranted (7::nat) \<lparr>au_id = pas, au_role = ''client'', au_phone = ''1''\<rparr>)])
     initial_auth) = None"
proof -
  let ?late = "[RefreshReply 0 (ReplyGranted (7::nat) \<lparr>au_id = pas, au_role = ''client'', au_phone = ''1''\<rparr>)]"
  have "\<forall>e \<in> set ?late. \<not> is_sign_in e" by (simp add: is_sign_in_def)
  from signed_out_stays_out [OF this refl] show ?thesis by (rule conjunct1)
qed

text \<open>At any time at most one refresh of the current session is unanswered, however many callers wait for
  it, and every caller joins it.\<close>

lemma refresh_is_single_flight:
  assumes "a = auth_run dec es initial_auth" "ws_pending a p = Some (ws_sessionGen a)" "\<not> ws_signedOut a"
  shows "{q. ws_pending a q = Some (ws_sessionGen a)} = {p} \<and> refreshAccessToken a = (Some p, a)"
proof -
  have "auth_ok a" unfolding assms(1) by (rule auth_run_ok) (simp add: auth_ok_def initial_auth_def)
  then have p: "ws_inflight a = Some q" if "ws_pending a q = Some (ws_sessionGen a)" for q using that by (simp add: auth_ok_def)
  have "q = p" if "ws_pending a q = Some (ws_sessionGen a)" for q using p [OF that] p [OF assms(2)] by simp
  then have "{q. ws_pending a q = Some (ws_sessionGen a)} = {p}" using assms(2) by blast
  moreover have "refreshAccessToken a = (Some p, a)" using p [OF assms(2)] assms(3) by (simp add: refreshAccessToken_def)
  ultimately show ?thesis ..
qed

section \<open>Resending\<close>

text \<open>The exchanges of a call, logged: request, token, response.\<close>

definition logged :: "('w \<Rightarrow> 'x \<times> 'w) \<Rightarrow> 'w \<times> 'l \<Rightarrow> 'x \<times> 'w \<times> 'l" where
  "logged f wl = (case f (fst wl) of (x, w') \<Rightarrow> (x, w', snd wl))"

definition logged_send where
  "logged_send send q t wl = (case send q t (fst wl) of (r, w') \<Rightarrow> (r, w', snd wl @ [(q, t, r)]))"

text \<open>The server says it did not process the request: 401, or another attempt with the key is running.\<close>

definition unprocessed :: "'b api_response option \<Rightarrow> bool" where
  "unprocessed r \<longleftrightarrow> (case r of None \<Rightarrow> False
     | Some x \<Rightarrow> as_status x = 401 \<or> as_status x = 409 \<and> as_code x = Some ''idempotency_request_in_progress'')"

definition exchanges :: "nat \<Rightarrow> 'q \<Rightarrow> ('q \<times> 't \<times> 'b api_response option) list \<Rightarrow> bool" where
  "exchanges n q l \<longleftrightarrow> length l \<le> n \<and> (\<forall>x \<in> set l. fst x = q) \<and> (\<forall>x \<in> set (butlast l). unprocessed (snd (snd x)))"

lemma authedFetch_log:
  assumes "authedFetch (logged token) (logged fresh) (logged_send send) q (w, l) = (res, w', l')"
  shows "\<exists>e. l' = l @ e \<and> exchanges 2 q e \<and> (\<forall>r. res = Inr r \<longrightarrow> e \<noteq> [] \<and> snd (snd (last e)) = Some r)
    \<and> (\<forall>f. res = Inl (ApiFailure f) \<longrightarrow> ae_status f = 401)"
  using assms
  by (auto simp: authedFetch_def logged_def logged_send_def exchanges_def unprocessed_def split: prod.splits option.splits if_splits)

lemma parse_in_progress: "parseOrThrow r = Inl e \<Longrightarrow> isIdempotencyInProgress e \<Longrightarrow> unprocessed (Some r)"
  by (auto simp: parseOrThrow_def isIdempotencyInProgress_def unprocessed_def split: if_splits option.splits)

lemma postJson_log:
  assumes "postJson (logged token) (logged fresh) (logged_send send) q (w, l) = (res, w', l')"
  shows "\<exists>e. l' = l @ e \<and> exchanges 2 q e
    \<and> (\<forall>b. res = Inr b \<longrightarrow> (\<exists>t r. last e = (q, t, Some r) \<and> e \<noteq> [] \<and> parseOrThrow r = Inr b))
    \<and> (\<forall>f. res = Inl (ApiFailure f) \<longrightarrow> isIdempotencyInProgress f \<longrightarrow> e \<noteq> [] \<and> unprocessed (snd (snd (last e))))"
proof -
  obtain res1 where a: "authedFetch (logged token) (logged fresh) (logged_send send) q (w, l) = (res1, w', l')"
      "res = (case res1 of Inl f \<Rightarrow> Inl f | Inr r \<Rightarrow> (case parseOrThrow r of Inl f \<Rightarrow> Inl (ApiFailure f) | Inr b \<Rightarrow> Inr b))"
    using assms by (auto simp: postJson_def split: prod.splits sum.splits)
  obtain e where e: "l' = l @ e" "exchanges 2 q e" "\<forall>r. res1 = Inr r \<longrightarrow> e \<noteq> [] \<and> snd (snd (last e)) = Some r"
      "\<forall>f. res1 = Inl (ApiFailure f) \<longrightarrow> ae_status f = 401"
    using authedFetch_log [OF a(1)] by blast
  have q: "e \<noteq> [] \<Longrightarrow> fst (last e) = q" using e(2) by (simp add: exchanges_def)
  have ok: "\<exists>t r. last e = (q, t, Some r) \<and> e \<noteq> [] \<and> parseOrThrow r = Inr b" if "res = Inr b" for b
    using that a(2) e(3) q by (cases "last e") (auto split: sum.splits)
  have progress: "e \<noteq> [] \<and> unprocessed (snd (snd (last e)))" if "res = Inl (ApiFailure f)" "isIdempotencyInProgress f" for f
    using that a(2) e(3,4) parse_in_progress by (cases res1) (fastforce simp: isIdempotencyInProgress_def split: sum.splits)+
  show ?thesis using e(1,2) ok progress by blast
qed

lemma exchanges_append: "exchanges m q d \<Longrightarrow> exchanges n q e \<Longrightarrow> d \<noteq> [] \<Longrightarrow> unprocessed (snd (snd (last d))) \<Longrightarrow> exchanges (m + n) q (d @ e)"
  by (cases d rule: rev_cases) (auto simp: exchanges_def butlast_append)

text \<open>A create is resent at most three times, always as the same request under the same key, and only after
  an answer that says the server did not process it; a success is the last answer.\<close>

lemma resent_create_was_unprocessed:
  assumes "postIdempotent (logged token) (logged fresh) (logged_send send) (\<lambda>wl. (wait (fst wl), snd wl)) q (w, []) = (res, w', l)"
  shows "length l \<le> 4 \<and> (\<forall>x \<in> set l. fst x = q) \<and> (\<forall>x \<in> set (butlast l). unprocessed (snd (snd x)))
    \<and> (\<forall>b. res = Inr b \<longrightarrow> (\<exists>t r. last l = (q, t, Some r) \<and> l \<noteq> [] \<and> parseOrThrow r = Inr b))"
proof -
  obtain res1 w1 l1 where j: "postJson (logged token) (logged fresh) (logged_send send) q (w, []) = (res1, w1, l1)" by (metis prod_cases3)
  from postJson_log [OF j] have d: "exchanges 2 q l1"
      "\<forall>b. res1 = Inr b \<longrightarrow> (\<exists>t r. last l1 = (q, t, Some r) \<and> l1 \<noteq> [] \<and> parseOrThrow r = Inr b)"
      "\<forall>f. res1 = Inl (ApiFailure f) \<longrightarrow> isIdempotencyInProgress f \<longrightarrow> l1 \<noteq> [] \<and> unprocessed (snd (snd (last l1)))"
    by simp_all
  show ?thesis
  proof (cases "\<exists>f. res1 = Inl (ApiFailure f) \<and> isIdempotencyInProgress f")
    case False
    then have "res = res1" "l = l1" using assms j by (auto simp: postIdempotent_def split: sum.splits web_failure.splits if_splits)
    then show ?thesis using d by (simp add: exchanges_def)
  next
    case True
    then have "postJson (logged token) (logged fresh) (logged_send send) q (wait w1, l1) = (res, w', l)"
      using assms j by (auto simp: postIdempotent_def)
    from postJson_log [OF this] obtain e where e: "l = l1 @ e" "exchanges 2 q e"
        "\<forall>b. res = Inr b \<longrightarrow> (\<exists>t r. last e = (q, t, Some r) \<and> e \<noteq> [] \<and> parseOrThrow r = Inr b)"
      by blast
    have "exchanges (2 + 2) q l" unfolding e(1) by (rule exchanges_append [OF d(1) e(2)]) (use True d(3) in auto)
    then show ?thesis using e by (auto simp: exchanges_def)
  qed
qed

text \<open>An in-progress answer, then the result.\<close>

abbreviation w_send :: "string \<Rightarrow> nat \<Rightarrow> nat \<Rightarrow> string api_response option \<times> nat" where
  "w_send q t n \<equiv> (Some (if n = 0 then \<lparr>as_status = 409, as_statusText = ''Conflict'', as_code = Some ''idempotency_request_in_progress'',
      as_message = None, as_body = ''''\<rparr> else \<lparr>as_status = 201, as_statusText = ''Created'', as_code = None, as_message = None, as_body = rid\<rparr>), n + 1)"

text \<open>The key of an intent stays until another intent is submitted or the key is cleared.\<close>

lemma keyFor_stable:
  assumes "keyFor fp new cur = (k, cur')"
  shows "fst (fold (\<lambda>n (_, c). keyFor fp n c) ns (k, cur')) = k"
proof -
  have "cur' = Some (fp, k)" using assms by (auto simp: keyFor_def split: option.splits if_splits prod.splits)
  then have "fold (\<lambda>n (_, c). keyFor fp n c) ns (k, cur') = (k, cur')" by (induction ns) (simp_all add: keyFor_def)
  then show ?thesis by simp
qed

section \<open>The booking page\<close>

text \<open>A create answered after the sign-out puts the ride back; a no-show ride stays saved.\<close>

lemma saved_after_effects:
  "pg_saved (settle p) = (case bs_rideStatus (pg_store p) of
     Some st \<Rightarrow> if drops_saved st \<and> pg_seenStatus p \<noteq> Some st then None else pg_saved p | None \<Rightarrow> pg_saved p)"
  by (simp add: settle_def status_effect_def restore_effect_def quote_effect_def startQuoting_def Let_def split: option.splits)

lemma late_create_survives_sign_out:
  "pg_saved (page_step copy (SoloCreated i Requested) (page_step copy SignOutClick p)) = Some i"
  by (simp add: page_step_def [of copy "SoloCreated i Requested"] saved_after_effects on_solo_created_def on_store_def setSoloRequested_def
      normalizeStatus_def drops_saved_def)

lemma no_show_stays_saved:
  assumes "pg_saved p = Some i" "bs_rideId (pg_store p) = Some i"
  shows "terminal_ride No_show \<and> pg_saved (page_step copy (RideChanged No_show) p) = Some i"
  using assms by (simp add: page_step_def saved_after_effects on_store_def applyRideState_def normalizeStatus_def drops_saved_def terminal_ride_def)

section \<open>Startup\<close>

text \<open>Outside development the API starts only with a strong secret and explicit https origins, and the origin
  check of the web endpoints then lets no other origin in.\<close>

lemma production_config_fails_closed:
  assumes "\<not> isDevLikeEnv env"
  shows "(\<forall>s fallback. resolveJwtSecret env = Inr (s, fallback) \<longrightarrow> \<not> fallback \<and> env ''JWT_SECRET'' = Some s \<and> s \<noteq> DEV_JWT_SECRET
        \<and> MIN_JWT_SECRET_BYTES \<le> byteLength s \<and> 8 \<le> card (set s) \<and> \<not> placeholder s)
    \<and> (\<forall>allowed. resolveBrowserOrigins url env = Inr allowed \<longrightarrow> allowed \<noteq> []
        \<and> (\<forall>x referer. csrf_ok parse allowed (Some x) referer \<longrightarrow> url x = Some (''https:'', x) \<and> x \<noteq> ''*''))"
proof (intro conjI allI impI)
  fix allowed
  assume "resolveBrowserOrigins url env = Inr allowed"
  note r = resolved_origins [OF this assms]
  show "allowed \<noteq> []" using r by blast
  show "url x = Some (''https:'', x)" "x \<noteq> ''*''" if "csrf_ok parse allowed (Some x) referer" for x referer
    using r that by (auto simp: csrf_ok_def)
next
  fix s fallback
  assume "resolveJwtSecret env = Inr (s, fallback)"
  note r = resolved_secret [OF this assms]
  show "\<not> fallback" "s \<noteq> DEV_JWT_SECRET" "MIN_JWT_SECRET_BYTES \<le> byteLength s" "\<not> placeholder s" using r by blast+
  show "8 \<le> card (set s)" using r by (simp add: length_remdups_card_conv)
  show "env ''JWT_SECRET'' = Some s" using r by (cases "env ''JWT_SECRET''") (auto simp: setting_def)
qed

end
