(* ===== verification/Edge_Properties.thy ===== *)
theory Edge_Properties
  imports Bus Http_Edge Ride_Panel Migrations Booking_Properties Service_Properties
begin

text \<open>
  Properties where two sides meet: who the server's emits reach, what the web client reads from a refused booking,
  what the tracking panel offers and the server allows, and the migrations of successive deployments.
\<close>

section \<open>Rooms\<close>

text \<open>C37: Whatever the sockets ask for and whenever the joins after a commit run, an emit to a ride reaches only
  sockets of its passenger, its driver or a member of the pool, an emit to a pool only its members, and an emit to
  a user or a driver only the sockets of that account.\<close>

lemma emits_reach_parties:
  assumes "reach bus_init (bus_step j) (s, ks)"
  shows "(\<forall>n \<in> toRide i ks. \<exists>k u role. ks n = Some k \<and> so_user k = Some (u, role) \<and> (seated_in s i u \<or> ride_party s i u))
    \<and> (\<forall>n \<in> toPool i ks. \<exists>k u role. ks n = Some k \<and> so_user k = Some (u, role) \<and> seated_in s i u)
    \<and> (\<forall>n \<in> toUser w ks. \<exists>k role. ks n = Some k \<and> so_user k = Some (w, role))
    \<and> (\<forall>n \<in> toDriver w ks. \<exists>k. ks n = Some k \<and> so_user k = Some (w, RoleDriver))"
proof (intro conjI ballI)
  note ok = reached_ok [OF assms]
  show "\<exists>k u role. ks n = Some k \<and> so_user k = Some (u, role) \<and> (seated_in s i u \<or> ride_party s i u)" if "n \<in> toRide i ks" for n
    using that unfolding toRide_def by (rule ok) simp
  show "\<exists>k u role. ks n = Some k \<and> so_user k = Some (u, role) \<and> seated_in s i u" if "n \<in> toPool i ks" for n
    using that unfolding toPool_def by (rule ok) simp
  show "\<exists>k role. ks n = Some k \<and> so_user k = Some (w, role)" if "n \<in> toUser w ks" for n
    using that unfolding toUser_def by (rule ok) simp
  show "\<exists>k. ks n = Some k \<and> so_user k = Some (w, RoleDriver)" if "n \<in> toDriver w ks" for n
    using that unfolding toDriver_def by (rule ok) simp
qed

text \<open>The passenger connects, books, and the server joins the socket to the ride.\<close>

abbreviation w_passenger_socket :: socket where
  "w_passenger_socket \<equiv> \<lparr>so_user = Some (pas, RoleClient), so_rooms = {UserRoom pas}\<rparr>"

lemma pas_named [simp]: "pas \<noteq> []"
  by (simp add: mk_uuid_def)

lemma w_connection:
  "handleConnection plain_jwt (Some (jw_sign plain_jwt (TypedBody ACCESS_TOKEN_TYPE w_rater) JWT_ISSUER (Some JWT_AUDIENCE) 900 0)) 0
   = Some (w_passenger_socket, [])"
  by (simp add: handleConnection_def verifyAccessToken_def jwt_valid [OF plain_jwt_laws] seconds_def )

lemma emits_reach_parties_witness:
  "\<exists>s. reach bus_init (bus_step plain_jwt) (s, bus_joinRide pas rid (Map.empty(0 \<mapsto> w_passenger_socket)))
     \<and> toRide rid (bus_joinRide pas rid (Map.empty(0 \<mapsto> w_passenger_socket))) = {0} \<and> ride_party s rid pas"
proof -
  let ?ks = "Map.empty(0 \<mapsto> w_passenger_socket) :: sockets"
  obtain resp s' where b: "createNormal plain_jwt (\<lambda>_. ''f'') w_booking pas w_dto (Some ''k'') w_start
      = (Inr (resp, [KickOutbox, JoinRoom pas rid]), s')"
    using w_book by blast
  have start: "reach db_init db_step w_start" by (rule run_start [OF w_init])
  have i: "isUuid (be_rideId w_booking)" by (simp add: w_booking_def)
  have d: "db_step w_start s'" using booked_ride [OF disjI1 [OF b], of pas rid] i by (simp add: w_booking_def)
  have "reach bus_init (bus_step plain_jwt) (w_start, Map.empty)" by (rule reach_init) (simp add: bus_init_def w_init)
  then have "reach bus_init (bus_step plain_jwt) (w_start, ?ks)" by (rule reach_step) (rule bs_connect [OF w_connection])
  then have "reach bus_init (bus_step plain_jwt) (s', ?ks)" by (rule reach_step) (rule bs_db [OF d])
  then have r: "reach bus_init (bus_step plain_jwt) (s', bus_joinRide pas rid ?ks)"
    by (rule reach_step) (rule bs_normal [OF _ b i rtranclp.rtrancl_refl], use start in \<open>simp_all add: w_booking_def\<close>)
  have t: "toRide rid (bus_joinRide pas rid ?ks) = {0}"
    by (auto simp: toRide_def reached_def bus_joinRide_def socketsJoin_def split: if_splits)
  have "\<exists>k u role. bus_joinRide pas rid ?ks 0 = Some k \<and> so_user k = Some (u, role) \<and> (seated_in s' rid u \<or> ride_party s' rid u)"
    using emits_reach_parties [OF r, of rid] unfolding t by blast
  moreover have "ride_party s' rid pas" using booked_ride [OF disjI1 [OF b], of pas rid] i by simp
  ultimately show ?thesis using r t by blast
qed

section \<open>Refused bookings\<close>

lemma pg_key_failed:
  "pg_key (on_create_failed copy (Some e) p) =
     (if isQuoteExpired e \<or> isIdempotencyConflict e \<or> isIdempotencyKeyInvalid e then None else pg_key p)"
  by (simp add: on_create_failed_def createErrorMessage_def on_store_def clear_intent_def)

lemma failed_error_eqs: "exception_of txt (Http h) \<noteq> osrm_unavailable_exception"
  by (cases h) (simp_all add: exception_of_def http_exception_def osrm_unavailable_exception_def)

lemma http_read:
  assumes "h \<in> create_refusals"
  shows "let e = \<lparr>ae_status = fst (http_code h), ae_code = snd (http_code h), ae_message = m\<rparr> in
    (isQuoteExpired e \<longleftrightarrow> h = Bad_request ''quote_expired'')
    \<and> (isIdempotencyConflict e \<longleftrightarrow> h = key_conflict)
    \<and> (isIdempotencyInProgress e \<longleftrightarrow> h = Conflict_error ''idempotency_request_in_progress'')
    \<and> (isIdempotencyKeyInvalid e \<longleftrightarrow> h = Bad_request ''idempotency_key_invalid'')
    \<and> \<not> isRoutingUnavailable e \<and> ae_status e \<noteq> 401"
  using assms unfolding create_refusals_def insert_iff empty_iff
  by (elim disjE) (simp_all add: http_code_def isQuoteExpired_def isIdempotencyConflict_def isIdempotencyInProgress_def
      isIdempotencyKeyInvalid_def isRoutingUnavailable_def key_conflict_def Let_def)

text \<open>Every other failure is a 500 or the 503 of the router.\<close>

lemma other_read:
  assumes "create_refusal err" "\<And>h. err \<noteq> Http h"
  shows "\<exists>e. parseOrThrow (error_answer hdr (exception_of txt err)) = Inl e
    \<and> (ae_status e = 503 \<and> exception_of txt err = osrm_unavailable_exception \<or> ae_status e = 500 \<and> exception_of txt err \<noteq> osrm_unavailable_exception)
    \<and> ae_code e \<in> {''internal_error'', ''fare_unavailable''}"
proof -
  have "exception_of txt err \<in> {osrm_unavailable_exception, OtherException,
      HttpException 500 (ObjectBody (Some ''fare_unavailable'') (Some (txt ''fare_unavailable'')))}"
    using assms by (cases err) (auto simp: create_refusal_def exception_of_def db_exception_def route_exception_def
        split: match_error.splits route_error.splits if_splits)
  then consider "exception_of txt err = osrm_unavailable_exception" | "exception_of txt err = OtherException"
    | "exception_of txt err = HttpException 500 (ObjectBody (Some ''fare_unavailable'') (Some (txt ''fare_unavailable'')))"
    by blast
  then show ?thesis
  proof cases
    case 3
    then show ?thesis by (simp add: edge_defs osrm_unavailable_exception_def)
  qed (simp_all add: osrm_code other_code, simp add: osrm_unavailable_exception_def)
qed

text \<open>C38: The web client understands a refused booking: it takes the quote as expired, the key as used for another
  request, as malformed or as in progress, and the routing as down, exactly when the endpoint refused for that
  reason; a 401 never comes from the endpoint; and the page then drops its key exactly in the three cases in which
  it must not be sent again.\<close>

lemma client_reads_the_refusal:
  assumes "canActivate j h (be_clk be) = Inr user" "create_ride j sha be se user d key s = (Inl err, s')"
  shows "\<exists>e. parseOrThrow (fst (answer_create txt hdr j sha be se h d key s)) = Inl e
    \<and> (isQuoteExpired e \<longleftrightarrow> err = Http (Bad_request ''quote_expired''))
    \<and> (isIdempotencyConflict e \<longleftrightarrow> err = Http key_conflict)
    \<and> (isIdempotencyInProgress e \<longleftrightarrow> err = Http (Conflict_error ''idempotency_request_in_progress''))
    \<and> (isIdempotencyKeyInvalid e \<longleftrightarrow> err = Http (Bad_request ''idempotency_key_invalid''))
    \<and> (isRoutingUnavailable e \<longleftrightarrow> exception_of txt err = osrm_unavailable_exception)
    \<and> ae_status e \<noteq> 401
    \<and> pg_key (on_create_failed copy (Some e) p) =
        (if err \<in> {Http (Bad_request ''quote_expired''), Http key_conflict, Http (Bad_request ''idempotency_key_invalid'')}
         then None else pg_key p)"
proof -
  have ref: "create_refusal err" by (rule create_ride_refusal [OF assms(2)])
  have ans: "fst (answer_create txt hdr j sha be se h d key s) = error_answer hdr (exception_of txt err)"
    using assms by (simp add: answer_create_def)
  show ?thesis
  proof (cases "\<exists>x. err = Http x")
    case True
    then obtain x where x: "err = Http x" "x \<in> create_refusals" using ref by (auto simp: create_refusal_def)
    let ?e = "\<lparr>ae_status = fst (http_code x), ae_code = snd (http_code x), ae_message = txt (snd (http_code x))\<rparr>"
    have "parseOrThrow (error_answer hdr (exception_of txt err)) = Inl ?e" by (simp add: x(1) exception_of_def http_answer)
    then show ?thesis using http_read [OF x(2), of "txt (snd (http_code x))"] failed_error_eqs unfolding ans pg_key_failed x(1) Let_def
      by (intro exI [of _ ?e]) simp
  next
    case False
    then obtain e where e: "parseOrThrow (error_answer hdr (exception_of txt err) :: booking_answer option api_response) = Inl e"
        "ae_status e = 503 \<and> exception_of txt err = osrm_unavailable_exception \<or> ae_status e = 500 \<and> exception_of txt err \<noteq> osrm_unavailable_exception"
        "ae_code e \<in> {''internal_error'', ''fare_unavailable''}"
      using other_read [OF ref] by blast
    show ?thesis using e False unfolding ans pg_key_failed
      by (intro exI [of _ e]) (auto simp: isQuoteExpired_def isIdempotencyConflict_def isIdempotencyInProgress_def isIdempotencyKeyInvalid_def isRoutingUnavailable_def)
  qed
qed

abbreviation w_bearer :: "plain_token auth_header" where
  "w_bearer \<equiv> Bearer (jw_sign plain_jwt (TypedBody ACCESS_TOKEN_TYPE w_rater) JWT_ISSUER (Some JWT_AUDIENCE) 900 0)"

lemma client_reads_the_refusal_witness:
  "\<exists>e. parseOrThrow (fst (answer_create id None plain_jwt (\<lambda>_. ''f'') w_booking (w_seat_env (\<lambda>_. None)) w_bearer w_dto (Some '' '') w_start)) = Inl e
     \<and> isIdempotencyKeyInvalid e"
proof -
  have a: "canActivate plain_jwt w_bearer (be_clk w_booking) = Inr w_rater"
    by (simp add: canActivate_def verifyAccessToken_def jwt_valid [OF plain_jwt_laws] seconds_def w_booking_def)
  have c: "create_ride plain_jwt (\<lambda>_. ''f'') w_booking (w_seat_env (\<lambda>_. None)) w_rater w_dto (Some '' '') w_start
      = (Inl (Http (Bad_request ''idempotency_key_invalid'')), w_start)"
    by (simp add: create_ride_def w_dto_def createNormal_def parseIdempotencyKey_def key_char_def)
  fix copy p
  show ?thesis
    using client_reads_the_refusal [OF a c, of id None copy p] by (elim exE conjE) (intro exI conjI, assumption, simp)
qed

section \<open>The tracking panel\<close>

text \<open>C39: The tracking panel offers what the server allows: for a ride of the passenger, in any reachable state,
  the cancel button is shown exactly when the cancel endpoint would cancel the ride now, and whatever the rating
  card sends for a completed ride is stored, or refused only because the passenger rated the driver before.\<close>

lemma panel_offers_what_the_server_allows:
  assumes "reach db_init db_step s" "ride_row s i = Some r" "ac_role user = RoleClient" "r_passengerId r = ac_sub user"
  shows "(canCancel (normalizeStatus (r_status r)) \<longleftrightarrow>
      (\<exists>x s'. cancel_endpoint user i \<lparr>cx_reason = None, cx_noShow = False\<rparr> wait clk ct s = (Inr x, s')))
    \<and> (rating_part (normalizeStatus (r_status r)) rated = Rating_form \<longrightarrow> r_driverId r \<noteq> Some (ac_sub user) \<longrightarrow>
        rowid \<notin> rt_id ` set rs \<longrightarrow> card_submit (card_run es) = Some (stars, t) \<longrightarrow>
        (\<exists>d res rs'. r_driverId r = Some d \<and> rate_endpoint user i (submitRating stars (Some t)) rowid now s rs = Inr (res, rs')
           \<and> (if (i, ac_sub user, d) \<in> direction ` set rs then res = Inl (Conflict_error ''already_rated'') \<and> rs' = rs
              else res = Inr (rowid, i, d, stars) \<and> (\<exists>x. rs' = rs @ [x] \<and> direction x = (i, ac_sub user, d) \<and> rt_stars x = stars))))"
proof (intro conjI impI)
  show "canCancel (normalizeStatus (r_status r)) \<longleftrightarrow>
      (\<exists>x s'. cancel_endpoint user i \<lparr>cx_reason = None, cx_noShow = False\<rparr> wait clk ct s = (Inr x, s'))"
    by (rule canCancel_server [OF assms(2-4)])
next
  assume f: "rating_part (normalizeStatus (r_status r)) rated = Rating_form" "r_driverId r \<noteq> Some (ac_sub user)"
    "rowid \<notin> rt_id ` set rs" "card_submit (card_run es) = Some (stars, t)"
  have c: "r_status r = Completed" using f(1) by (auto simp: rating_part_def normalizeStatus_def split: if_splits)
  have "ride_shape r" using sys.reach_inv [OF assms(1)] assms(2) by (auto simp: sys_ok_def dest: rides_ok_row)
  then obtain d where d: "r_driverId r = Some d" using c by (auto simp: ride_shape_def)
  have "rd_stars (submitRating stars (Some t)) = stars" by (simp add: submitRating_def Let_def)
  then show "\<exists>d res rs'. r_driverId r = Some d \<and> rate_endpoint user i (submitRating stars (Some t)) rowid now s rs = Inr (res, rs')
           \<and> (if (i, ac_sub user, d) \<in> direction ` set rs then res = Inl (Conflict_error ''already_rated'') \<and> rs' = rs
              else res = Inr (rowid, i, d, stars) \<and> (\<exists>x. rs' = rs @ [x] \<and> direction x = (i, ac_sub user, d) \<and> rt_stars x = stars))"
    using passenger_rating [OF assms(2) c assms(4) d _ submitted_valid [OF f(4)] f(3)] f(2) d by (auto simp: direction_def)
qed

lemma panel_offers_what_the_server_allows_witness:
  "\<exists>r rs'. ride_row w_finished rid = Some r \<and> canCancel (normalizeStatus (r_status r)) = False
     \<and> rate_endpoint w_rater rid (submitRating 4 (Some '' ok '')) yid 10 w_finished [] = Inr (Inr (yid, rid, drv, 4), rs')"
proof -
  obtain r where r: "ride_row w_finished rid = Some r" "r_status r = Completed" "r_passengerId r = pas" "r_driverId r = Some drv"
    using w_finished_row by blast
  have c: "card_submit (card_run [StarClick 2, TextTyped '' ok '', StarClick 4]) = Some (4, '' ok '')"
    by (simp add: card_run_def initial_card_def card_submit_def)
  have "r_driverId r \<noteq> Some (ac_sub w_rater)" "rating_part (normalizeStatus (r_status r)) False = Rating_form"
    by (simp_all add: r rating_part_def normalizeStatus_def)
  with panel_offers_what_the_server_allows [OF w_reach_finished r(1), of w_rater 0 0 0 False yid "[]" _ 4 "'' ok ''" 10] c r
  obtain rs' where "rate_endpoint w_rater rid (submitRating 4 (Some '' ok '')) yid 10 w_finished [] = Inr (Inr (yid, rid, drv, 4), rs')"
    by fastforce
  then show ?thesis using r(1,2) by (simp add: canCancel_def TERMINAL_def normalizeStatus_def)
qed

section \<open>Deployments\<close>

text \<open>C40: Over any deployments whose directories keep the earlier files in front, with runs that fail or are killed
  anywhere, the recorded files are the first ones in their order, and the schema is what executing files in that
  order gives: each recorded file, and at most the next one, where a file is executed once, and once more for every
  run that was killed between its SQL and its record. Without such a kill the schema is what the recorded files give,
  each applied once. A run that ends has recorded every file, and running again changes nothing.\<close>

lemma migrations_apply_once_in_order:
  assumes "extends [] (rs @ [(dir, k)])"
    and "runMigrations ap k dir (deploy ap rs \<lparr>md_schema = d0, md_log = []\<rparr>) = (ended, s)"
  shows "\<exists>n ws. md_log s = take n (migration_files dir) \<and> apply_all ap ws d0 = Some (md_schema s)
    \<and> (remdups_adj ws = take n (migration_files dir) \<or> remdups_adj ws = take (Suc n) (migration_files dir))
    \<and> (\<forall>f. count_list ws f \<le> (if f \<in> set (md_log s) then 1 else 0) + killed_between (rs @ [(dir, k)]) f)
    \<and> ((\<forall>f. killed_between (rs @ [(dir, k)]) f = 0) \<longrightarrow> ws = md_log s)
    \<and> (ended \<longrightarrow> md_log s = migration_files dir \<and> remdups_adj ws = migration_files dir
         \<and> (\<forall>k'. runMigrations ap k' dir s = (True, s)))"
proof -
  let ?s0 = "\<lparr>md_schema = d0, md_log = []\<rparr>" and ?old = "if rs = [] then [] else migration_files (fst (last rs))"
  let ?K = "killed_between (rs @ [(dir, k)])"
  have "executed ap d0 [] (\<lambda>_. 0) 0 ?s0 []" by (simp add: executed_def)
  moreover have "extends o_fs (xs @ [(dir, k)]) \<Longrightarrow> extends o_fs xs
      \<and> (\<exists>new. migration_files dir = (if xs = [] then o_fs else migration_files (fst (last xs))) @ new) \<and> distinct dir" for o_fs xs
    by (induction xs arbitrary: o_fs) auto
  then have "extends [] rs \<and> (\<exists>new. migration_files dir = ?old @ new) \<and> distinct dir" using assms(1) by blast
  moreover from this obtain new where new: "migration_files dir = ?old @ new" "distinct dir" by blast
  ultimately obtain m vs where "executed ap d0 ?old (\<lambda>f. 0 + killed_between rs f) m (deploy ap rs ?s0) vs"
    using deploy_executed [of ap d0 "[]" "\<lambda>_. 0" 0 ?s0 "[]" rs] by blast
  moreover have K: "(\<lambda>f. 0 + killed_between rs f + kill_here k f) = ?K" by (simp add: fun_eq_iff add_ac)
  ultimately obtain n ws where e: "executed ap d0 (migration_files dir) ?K n s ws"
    and n: "ended \<longrightarrow> n = length (migration_files dir)"
    using run_executed [OF _ new, of ap d0 "\<lambda>f. 0 + killed_between rs f" m "deploy ap rs ?s0" vs k]
    unfolding assms(2) K fst_conv snd_conv by blast
  have dist: "distinct (migration_files dir)" using new(2) by (simp add: migration_files_def)
  have "ws = md_log s" if "\<forall>f. ?K f = 0" by (rule executed_once [OF e dist]) (use that in blast)
  moreover have "runMigrations ap k' dir s = (True, s)" if "md_log s = migration_files dir" for k'
    using run_files_skip [of "migration_files dir" s ap k' "[]"] that by (simp add: runMigrations_def)
  ultimately show ?thesis using e n by (intro exI [of _ n] exI [of _ ws]) (auto simp: executed_def)
qed

text \<open>A release with one file that is killed before its record, then a release with a second file.\<close>

lemma migrations_apply_once_in_order_witness:
  "runMigrations (\<lambda>f d. Some (d @ [f])) (\<lambda>_. None) [''2.sql'', ''readme'', ''1.sql'']
     (deploy (\<lambda>f d. Some (d @ [f])) [([''1.sql''], \<lambda>_. Some Kill_between)] \<lparr>md_schema = [], md_log = []\<rparr>)
   = (True, \<lparr>md_schema = [''1.sql'', ''1.sql'', ''2.sql''], md_log = [''1.sql'', ''2.sql'']\<rparr>)
   \<and> (\<exists>ws. apply_all (\<lambda>f d. Some (d @ [f])) ws [] = Some [''1.sql'', ''1.sql'', ''2.sql''] \<and> remdups_adj ws = [''1.sql'', ''2.sql''])"
proof -
  let ?ap = "\<lambda>f d. Some (d @ [f])"
  have f: "migration_files [''1.sql''] = [''1.sql'']" "migration_files [''2.sql'', ''readme'', ''1.sql''] = [''1.sql'', ''2.sql'']"
    by (simp_all add: migration_files_def ends_with_sql_code)
  have r: "runMigrations ?ap (\<lambda>_. None) [''2.sql'', ''readme'', ''1.sql'']
     (deploy ?ap [([''1.sql''], \<lambda>_. Some Kill_between)] \<lparr>md_schema = [], md_log = []\<rparr>)
   = (True, \<lparr>md_schema = [''1.sql'', ''1.sql'', ''2.sql''], md_log = [''1.sql'', ''2.sql'']\<rparr>)"
    by (simp add: runMigrations_def deploy_def f)
  have "extends [] ([([''1.sql''], \<lambda>_. Some Kill_between)] @ [([''2.sql'', ''readme'', ''1.sql''], \<lambda>_. None)])" by (simp add: f)
  from migrations_apply_once_in_order [OF this r] r show ?thesis by (auto simp: f)
qed

end
