(* ===== verification/Book_View.thy ===== *)
theory Book_View
  imports Ride_Panel Rides_Controller
begin

text \<open>
  What the booking page shows and sends (the markup of app/book/book-client.tsx with pool-badge.tsx,
  solo-fallback-banner.tsx and ride-type-toggle.tsx): prices as text, which controls are enabled, and the request
  bodies of booking/api.ts. Styles, headings and fixed texts are left out; the rupee sign and the dash are
  constructors.
\<close>

section \<open>Numbers as text\<close>

text \<open>\<open>Number.prototype.toFixed\<close> below \<open>10\<^sup>2\<^sup>1\<close>: the nearest decimal with \<open>d\<close> digits, the larger one of two.\<close>

fun fixed_digits :: "nat \<Rightarrow> nat \<Rightarrow> string" where
  "fixed_digits 0 n = ''''"
| "fixed_digits (Suc d) n = fixed_digits d (n div 10) @ [digit (n mod 10)]"

definition toFixed :: "nat \<Rightarrow> real \<Rightarrow> string" where
  "toFixed d x =
     (let n = nat \<lfloor>\<bar>x\<bar> * 10 ^ d + 1 / 2\<rfloor> in
        (if x < 0 then ''-'' else '''') @ show_nat (n div 10 ^ d) @ (if d = 0 then '''' else ''.'' @ fixed_digits d (n mod 10 ^ d)))"

datatype price_text = Dash | Rupees string

definition formatMoney :: "money option \<Rightarrow> price_text" where
  "formatMoney m = (case m of None \<Rightarrow> Dash | Some x \<Rightarrow> Rupees (toFixed 2 (mo_amount x / 100)))"

section \<open>Requests\<close>

definition apiRideType :: "web_ride_type \<Rightarrow> ride_kind" where
  "apiRideType t = (if t = WebShared then KindShared else KindNormal)"

definition routeBody :: "place \<Rightarrow> place \<Rightarrow> ride_kind \<Rightarrow> 't create_dto" where
  "routeBody p d ty = \<lparr>cd_type = ty, cd_originLat = pl_lat p, cd_originLng = pl_lng p, cd_destLat = pl_lat d, cd_destLng = pl_lng d,
     cd_quoteToken = None, cd_scheduledFor = None\<rparr>"

definition fetchQuote :: "place \<Rightarrow> place \<Rightarrow> ride_kind \<Rightarrow> ride_kind \<times> route_spec" where
  "fetchQuote p d ty = (ty, \<lparr>rs_originLat = pl_lat p, rs_originLng = pl_lng p, rs_destLat = pl_lat d, rs_destLng = pl_lng d\<rparr>)"

definition createSharedRide :: "place \<Rightarrow> place \<Rightarrow> string \<Rightarrow> 't create_dto \<times> string" where
  "createSharedRide p d key = (routeBody p d KindShared, key)"

definition createNormalRide :: "place \<Rightarrow> place \<Rightarrow> 't \<Rightarrow> string \<Rightarrow> 't create_dto \<times> string" where
  "createNormalRide p d tok key = ((routeBody p d KindNormal)\<lparr>cd_quoteToken := Some tok\<rparr>, key)"

section \<open>The form\<close>

record quote_panel =
  qp_price :: price_text
  qp_solo :: price_text
  qp_km :: string
  qp_min :: int
  qp_perSeat :: "price_text option"

record pool_panel =
  pp_id :: string
  pp_seat :: int
  pp_status :: "pool_state option"
  pp_fare :: "price_text option"
  pp_others :: "int option"
  pp_fallback :: "price_text option"

record book_button =
  bb_shared :: bool
  bb_disabled :: bool
  bb_busy :: bool

record book_form =
  fv_activeField :: point_field
  fv_swap :: bool
  fv_toggle :: "web_ride_type \<times> bool"
  fv_needsPoints :: bool
  fv_pricing :: bool
  fv_quoteError :: "string option"
  fv_quote :: "quote_panel option"
  fv_button :: book_button
  fv_requestError :: "string option"
  fv_pool :: "pool_panel option"

text \<open>The live map keeps the driver; the form's map is not of interest here.\<close>

datatype page_view = Tracking_view ride_status "(real \<times> real \<times> real) option" bool | Form_view book_form

text \<open>An empty message is not shown.\<close>

definition shown_text :: "string option \<Rightarrow> string option" where
  "shown_text m = (if m = Some [] then None else m)"

definition bothSet :: "'q booking \<Rightarrow> bool" where
  "bothSet b \<longleftrightarrow> bs_pickup b \<noteq> None \<and> bs_dropoff b \<noteq> None"

definition money_of :: "int \<Rightarrow> money" where
  "money_of a = \<lparr>mo_amount = a, mo_currency = INR\<rparr>"

definition indicativeSeatPrice :: "'t quote_response booking \<Rightarrow> money option" where
  "indicativeSeatPrice b =
     (if bs_rideType b = WebShared
      then Option.bind (bs_quote b) (\<lambda>q. map_option (\<lambda>e. money_of (se_perSeatPrice e)) (qr_sharedEstimate q)) else None)"

definition quote_panel_of :: "'t quote_response booking \<Rightarrow> 't quote_response \<Rightarrow> quote_panel" where
  "quote_panel_of b q =
     \<lparr>qp_price = (if bs_rideType b = WebShared then formatMoney (indicativeSeatPrice b) else formatMoney (Some (qr_soloFare q))),
      qp_solo = formatMoney (Some (qr_soloFare q)),
      qp_km = toFixed 1 (qr_distanceM q / 1000),
      qp_min = js_round (qr_durationS q / 60),
      qp_perSeat = (if bs_rideType b = WebShared then map_option (\<lambda>e. formatMoney (Some (money_of (se_perSeatPrice e)))) (qr_sharedEstimate q) else None)\<rparr>"

definition PoolBadge :: "int \<Rightarrow> int option" where
  "PoolBadge n = (if n \<le> 1 then None else Some (n - 1))"

definition SoloFallbackBanner :: "money option \<Rightarrow> price_text" where
  "SoloFallbackBanner m = formatMoney m"

definition pool_panel_of :: "'t quote_response booking \<Rightarrow> uuid \<Rightarrow> pool_panel" where
  "pool_panel_of b i =
     \<lparr>pp_id = take 8 i, pp_seat = bs_seatCount b, pp_status = bs_poolStatus b,
      pp_fare = map_option (\<lambda>a. formatMoney (Some (money_of a))) (bs_agreedFare b),
      pp_others = PoolBadge (bs_seatCount b),
      pp_fallback = (if bs_stage b = SoloFallback then Some (SoloFallbackBanner (map_option qr_soloFare (bs_quote b))) else None)\<rparr>"

definition book_button_of :: "'q booking \<Rightarrow> book_button" where
  "book_button_of b =
     (let busy = (bs_stage b = Requesting) in
      if bs_rideType b = WebShared
      then \<lparr>bb_shared = True, bb_disabled = (bs_quote b = None \<or> busy \<or> bs_stage b = StageOpened \<or> bs_stage b = StageSlotted), bb_busy = busy\<rparr>
      else \<lparr>bb_shared = False, bb_disabled = (bs_quote b = None \<or> busy), bb_busy = busy\<rparr>)"

definition form_of :: "'t quote_response booking \<Rightarrow> book_form" where
  "form_of b =
     \<lparr>fv_activeField = bs_activeField b,
      fv_swap = (bs_pickup b \<noteq> None \<or> bs_dropoff b \<noteq> None),
      fv_toggle = (bs_rideType b, bs_stage b \<noteq> Requesting),
      fv_needsPoints = (\<not> bothSet b),
      fv_pricing = (bs_stage b = Quoting),
      fv_quoteError = shown_text (bs_quoteError b),
      fv_quote = (if bs_stage b = StageError then None else map_option (quote_panel_of b) (bs_quote b)),
      fv_button = book_button_of b,
      fv_requestError = shown_text (bs_requestError b),
      fv_pool = (case bs_sharedRideId b of Some i \<Rightarrow> if i = [] then None else Some (pool_panel_of b i) | None \<Rightarrow> None)\<rparr>"

definition view_of :: "'t quote_response booking \<Rightarrow> page_view" where
  "view_of b =
     (if tracking b then Tracking_view (case bs_rideStatus b of Some st \<Rightarrow> st | None \<Rightarrow> Requested) (bs_driver b) (bs_rated b)
      else Form_view (form_of b))"

text \<open>A press of the button: nothing while it is disabled.\<close>

definition press_book :: "string \<Rightarrow> 't quote_response page \<Rightarrow> ('t create_dto \<times> string) option \<times> 't quote_response page" where
  "press_book new p =
     (case view_of (pg_store p) of
        Tracking_view _ _ _ \<Rightarrow> (None, p)
      | Form_view v \<Rightarrow>
          if bb_disabled (fv_button v) then (None, p)
          else (case (bs_pickup (pg_store p), bs_dropoff (pg_store p)) of
              (Some a, Some b) \<Rightarrow>
                if bb_shared (fv_button v)
                then map_prod (map_option (\<lambda>(_, key). createSharedRide a b key)) id (submit new p)
                else map_prod (map_option (\<lambda>(_, q, key). createNormalRide a b (qr_quoteToken q) key)) id (submitSolo new p)
            | _ \<Rightarrow> (None, p)))"

section \<open>Facts\<close>

text \<open>The text of a price tells the price.\<close>

lemma fixed_digits_length [simp]: "length (fixed_digits d n) = d"
  by (induction d arbitrary: n) simp_all

lemma digit_inject: "a < 10 \<Longrightarrow> b < 10 \<Longrightarrow> digit a = digit b \<longleftrightarrow> a = b"
  by (metis add_left_cancel of_char_digit)

lemma fixed_digits_inject: "m < 10 ^ d \<Longrightarrow> n < 10 ^ d \<Longrightarrow> fixed_digits d m = fixed_digits d n \<Longrightarrow> m = n"
proof (induction d arbitrary: m n)
  case (Suc d)
  then have "m div 10 = n div 10" by (intro Suc.IH) (simp_all add: less_mult_imp_div_less mult.commute)
  moreover have "m mod 10 = n mod 10" using Suc.prems(3) by (simp add: digit_inject)
  ultimately show ?case by (metis div_mult_mod_eq)
qed simp

lemma digits_not_minus: "show_nat n \<noteq> CHR ''-'' # t"
  using show_nat_chars [of "CHR ''-''" n] by auto

lemma toFixed_inject:
  assumes "toFixed d x = toFixed d y"
  shows "(x < 0) = (y < 0) \<and> \<lfloor>\<bar>x\<bar> * 10 ^ d + 1 / 2\<rfloor> = \<lfloor>\<bar>y\<bar> * 10 ^ d + 1 / 2\<rfloor>"
proof -
  define m where "m = nat \<lfloor>\<bar>x\<bar> * 10 ^ d + 1 / 2\<rfloor>"
  define n where "n = nat \<lfloor>\<bar>y\<bar> * 10 ^ d + 1 / 2\<rfloor>"
  let ?t = "\<lambda>n. show_nat (n div 10 ^ d) @ (if d = 0 then '''' else ''.'' @ fixed_digits d (n mod 10 ^ d))"
  have t: "toFixed d x = (if x < 0 then ''-'' else '''') @ ?t m" "toFixed d y = (if y < 0 then ''-'' else '''') @ ?t n"
    unfolding toFixed_def m_def n_def Let_def by (rule refl)+
  have nm: "?t k \<noteq> CHR ''-'' # u" for k u
  proof (cases "show_nat (k div 10 ^ d)")
    case Nil
    then show ?thesis using read_show_nat [of "k div 10 ^ d"] show_nat.simps [of "k div 10 ^ d"] by (simp split: if_splits)
  next
    case (Cons c cs)
    then show ?thesis using digits_not_minus [of "k div 10 ^ d" cs] by auto
  qed
  have sign: "(x < 0) = (y < 0)"
    using assms nm [of n "?t m"] nm [of m "?t n"] unfolding t by (cases "x < 0"; cases "y < 0") (simp_all del: append_assoc)
  then have e: "?t m = ?t n" using assms unfolding t by (auto split: if_splits)
  have p: "show_nat (m div 10 ^ d) = show_nat (n div 10 ^ d) \<and> fixed_digits d (m mod 10 ^ d) = fixed_digits d (n mod 10 ^ d)"
    using e by (cases "d = 0") (simp, subst (asm) append_eq_append_conv, auto)
  then have "m mod 10 ^ d = n mod 10 ^ d" by (intro fixed_digits_inject [of _ d]) simp_all
  with p have "m = n" by (metis div_mult_mod_eq show_nat_inject)
  moreover have "0 \<le> \<lfloor>\<bar>z\<bar> * 10 ^ d + 1 / 2\<rfloor>" for z :: real by simp
  ultimately show ?thesis using sign unfolding m_def n_def by (metis nat_eq_iff2 int_nat_eq)
qed

lemma formatMoney_inject: "formatMoney (Some a) = formatMoney (Some b) \<Longrightarrow> mo_amount a = mo_amount b"
proof -
  assume "formatMoney (Some a) = formatMoney (Some b)"
  then have "toFixed 2 (mo_amount a / 100) = toFixed 2 (mo_amount b / 100)" by (simp add: formatMoney_def)
  from toFixed_inject [OF this] have s: "(mo_amount a < 0) = (mo_amount b < 0)"
    and "\<lfloor>\<bar>real_of_int (mo_amount a)\<bar> + 1 / 2\<rfloor> = \<lfloor>\<bar>real_of_int (mo_amount b)\<bar> + 1 / 2\<rfloor>" by (simp_all add: abs_divide)
  moreover have "\<lfloor>\<bar>real_of_int z\<bar> + 1 / 2\<rfloor> = \<bar>z\<bar>" for z by linarith
  ultimately show ?thesis by auto
qed

lemma formatMoney_iff: "formatMoney (Some a) = formatMoney (Some b) \<longleftrightarrow> mo_amount a = mo_amount b"
  by (rule iffI [OF formatMoney_inject]) (assumption, simp add: formatMoney_def)

text \<open>The button is enabled exactly when a press sends a request, in a page that is signed in.\<close>

lemma press_sends:
  assumes "page_run ans copy (settle (initial_page authed saved)) p" "pg_authed p" "view_of (pg_store p) = Form_view v"
  shows "fst (press_book new p) \<noteq> None \<longleftrightarrow> \<not> bb_disabled (fv_button v)"
proof -
  have v: "v = form_of (pg_store p)" using assms(3) by (simp add: view_of_def split: if_splits)
  have "quote_answers ans (pg_store p)" using page_run_ok [OF assms(1) page_start_ok] unfolding page_ok_def by blast
  then show ?thesis using assms(2,3)
    by (cases "bs_rideType (pg_store p)")
      (auto simp: press_book_def v form_of_def book_button_of_def quote_answers_def quoteKey_def submit_def submitSolo_def Let_def
        split: option.splits prod.splits if_splits)
qed

text \<open>A refused request hides the price, but not the button.\<close>

lemma refused_request_hides_the_price:
  assumes "bs_quote b = Some q" "\<not> tracking b"
  shows "let v = form_of (setRequestError m b) in fv_quote v = None \<and> \<not> bb_disabled (fv_button v)"
  using assms by (simp add: form_of_def setRequestError_def book_button_of_def Let_def)

text \<open>After a pool timed out with one rider the page announces the solo fare of the quote next to the agreed fare,
  which is what the seat costs.\<close>

lemma fallback_announces_the_solo_fare:
  assumes "bs_sharedRideId b = Some i" "i \<noteq> []" "bs_agreedFare b = Some a" "bs_quote b = Some q" "\<not> tracking b"
  shows "\<exists>v x. view_of (applyPoolUpdate i 1 ClosedTimeout b) = Form_view v \<and> fv_pool v = Some x
     \<and> pp_fare x = Some (formatMoney (Some (money_of a))) \<and> pp_fallback x = Some (formatMoney (Some (qr_soloFare q)))"
  using assms by (simp add: view_of_def applyPoolUpdate_def tracking_def form_of_def pool_panel_of_def SoloFallbackBanner_def)

end
