(* ===== verification/Fare_Properties.thy ===== *)
theory Fare_Properties
  imports Book_View Booking_Properties
begin

text \<open>
  From the price on the screen to the fare of the ride: the booking page of \<open>Book_Page\<close> and \<open>Book_View\<close> against the
  quote and booking endpoints.
\<close>

section \<open>The quote on the page\<close>

text \<open>An answer of the quote endpoint at time \<open>clk\<close> to what the page asks for a route.\<close>

definition server_quote ::
  "fare_params \<Rightarrow> shared_params \<Rightarrow> osrm \<Rightarrow> (coord list \<Rightarrow> coord list option) \<Rightarrow> 't jwt \<Rightarrow> access_claims \<Rightarrow> instant
   \<Rightarrow> route_key \<Rightarrow> 't quote_response \<Rightarrow> bool" where
  "server_quote fp sp osrm geo j user clk k x \<longleftrightarrow>
     (case k of (ty, (a, b), c, d) \<Rightarrow>
        case fetchQuote \<lparr>pl_lat = a, pl_lng = b, pl_label = ''''\<rparr> \<lparr>pl_lat = c, pl_lng = d, pl_label = ''''\<rparr> (apiRideType ty) of
          (kind, route) \<Rightarrow> \<exists>ff caches caches'. quote_ride fp sp osrm geo j user kind route clk ff caches = (Inr x, caches'))"

text \<open>A press of the private button sends the route and the token of the quote.\<close>

lemma press_private:
  assumes "press_book new p = (Some (d, key), p')" "bs_rideType (pg_store p) = WebPrivate"
  obtains a b q k where "bs_pickup (pg_store p) = Some a" "bs_dropoff (pg_store p) = Some b" "bs_quote (pg_store p) = Some q"
    "d = (routeBody a b KindNormal)\<lparr>cd_quoteToken := Some (qr_quoteToken q)\<rparr>" "view_of (pg_store p) = Form_view (form_of (pg_store p))"
    "submitSolo new p = (Some (k, q, key), p')"
  using assms by (auto simp: press_book_def view_of_def form_of_def book_button_of_def createNormalRide_def Let_def submitSolo_def map_prod_def
      split: option.splits prod.splits if_splits)

text \<open>The endpoint accepts the token for the body of the page as long as it lives.\<close>

lemma page_token_verifies:
  assumes laws: "jwt_laws j" and q: "server_quote fp sp osrm geo j user clk k q"
    and k: "k = (ty, (pl_lat a, pl_lng a), pl_lat b, pl_lng b)"
    and d: "d = (routeBody a b KindNormal)\<lparr>cd_quoteToken := Some (qr_quoteToken q)\<rparr>"
  obtains c where "qc_soloFareCents c = mo_amount (qr_soloFare q)"
    "\<And>u. verifyQuote j d u = (if seconds u < seconds clk + QUOTE_TTL then Inr c else Inl (Bad_request ''quote_expired''))"
proof -
  let ?route = "\<lparr>rs_originLat = pl_lat a, rs_originLng = pl_lng a, rs_destLat = pl_lat b, rs_destLng = pl_lng b\<rparr>"
  from q obtain ff caches caches' where "quote_ride fp sp osrm geo j user (apiRideType ty) ?route clk ff caches = (Inr q, caches')"
    by (auto simp: server_quote_def k fetchQuote_def)
  then obtain x t where tok: "qr_quoteToken q = sign_quote j (quote_of ?route (qr_soloFare q) x t) clk" by (rule quote_token)
  have m: "coordsMatch (quote_of ?route (qr_soloFare q) x t) d" by (rule quote_of_matches) (simp_all add: d routeBody_def)
  have "verifyQuote j d u = (if seconds u < seconds clk + QUOTE_TTL then Inr (quote_of ?route (qr_soloFare q) x t)
      else Inl (Bad_request ''quote_expired''))" for u
    using m verify_signed_quote [OF laws, of u clk] verify_quote_expired [OF laws, of clk u] by (simp add: verifyQuote_def d tok)
  then show thesis by (intro that [of "quote_of ?route (qr_soloFare q) x t"]) (simp_all add: quote_of_def)
qed

text \<open>The reasons for which a booking with a token is refused.\<close>

lemma createNormal_refusals:
  assumes "createNormal j sha e pid d rawKey s = (Inl err, s')" "cd_quoteToken d \<noteq> None"
  shows "err \<in> Http ` {Bad_request ''idempotency_key_required'', Bad_request ''idempotency_key_invalid'', key_conflict}
    \<or> (\<exists>x. err = Db_failed x) \<or> (\<exists>x. err = Http x \<and> verifyQuote j d (be_clk e) = Inl x)"
proof (cases "parseIdempotencyKey rawKey True")
  case (Inl x)
  then have "x \<in> {Bad_request ''idempotency_key_required'', Bad_request ''idempotency_key_invalid''}"
    by (simp add: parseIdempotencyKey_def split: option.splits if_splits)
  then show ?thesis using assms(1) Inl by (auto simp: createNormal_def)
next
  case (Inr k)
  have replay: "replaySolo t pid OpSolo key fp = Inl x \<Longrightarrow> x = key_conflict" for t key fp x
    by (simp add: replaySolo_def split: option.splits if_splits prod.splits)
  have book: "book e pid fp params t = (Inl x, s') \<Longrightarrow> x = Http key_conflict \<or> (\<exists>y. x = Db_failed y)" for fp params t x
    by (auto simp: book_def split: sum.splits if_splits)
  show ?thesis
  proof (cases k)
    case None
    then show ?thesis using assms(1) Inr by (auto simp: createNormal_def)
  next
    case (Some key)
    then show ?thesis using assms Inr
      by (auto simp: createNormal_def Let_def split: sum.splits option.splits dest!: replay book)
  qed
qed

lemma create_ride_normal:
  "create_ride j sha be se caller d key s = (Inr (SoloBooked resp, eff), s') \<Longrightarrow> cd_type d = KindNormal
   \<Longrightarrow> createNormal j sha be (ac_sub caller) d key s = (Inr (resp, eff), s')"
  "create_ride j sha be se caller d key s = (Inl err, s') \<Longrightarrow> cd_type d = KindNormal \<Longrightarrow> err \<noteq> Http (Forbidden_error ''forbidden'')
   \<Longrightarrow> createNormal j sha be (ac_sub caller) d key s = (Inl err, s')"
  by (cases "createNormal j sha be (ac_sub caller) d key s"; cases "fst (createNormal j sha be (ac_sub caller) d key s)";
      auto simp: create_ride_def split: if_splits)+

text \<open>The amounts the page shows in a private quote.\<close>

lemma shown_price:
  assumes "bs_quote b = Some q" "bs_rideType b = WebPrivate" "fv_quote (form_of b) = Some x"
  shows "qp_price x = formatMoney (Some f) \<longleftrightarrow> mo_amount f = mo_amount (qr_soloFare q)"
  using assms by (auto simp: form_of_def quote_panel_of_def formatMoney_iff split: if_splits)

section \<open>The property\<close>

text \<open>C36: The fare on the screen is the fare booked: on a page that restored no saved ride, a private booking is sent
  with the quote of the route on the page; the server never takes its token for another route's or a forged one,
  and calls it expired only when it is five minutes old; and if a ride is created, its fare is the quote's, which
  is the amount whose text the page shows.\<close>

lemma fare_on_screen_is_booked:
  assumes laws: "jwt_laws j"
    and run: "page_run (\<lambda>k x. \<exists>clk. server_quote fp sp osrm geo j user clk k x) copy (settle (initial_page authed saved)) p"
    and press: "press_book new p = (Some (d, key), p')" "bs_rideType (pg_store p) = WebPrivate"
    and res: "create_ride j sha be se caller d (Some key) s = (res, s')"
  shows "\<exists>q clk k. bs_quote (pg_store p) = Some q \<and> quoteKey (pg_store p) = Some k \<and> server_quote fp sp osrm geo j user clk k q
    \<and> (\<forall>resp eff. res = Inr (SoloBooked resp, eff) \<longrightarrow> eff \<noteq> [] \<longrightarrow>
          mo_amount (bk_fare resp) = mo_amount (qr_soloFare q)
          \<and> (\<exists>v. view_of (pg_store p) = Form_view v
               \<and> (\<forall>x f. fv_quote v = Some x \<longrightarrow> (qp_price x = formatMoney (Some f) \<longleftrightarrow> mo_amount f = mo_amount (bk_fare resp)))))
    \<and> res \<noteq> Inl (Http (Bad_request ''invalid_quote'')) \<and> res \<noteq> Inl (Http (Bad_request ''quote_mismatch''))
    \<and> (res = Inl (Http (Bad_request ''quote_expired'')) \<longrightarrow> seconds clk + QUOTE_TTL \<le> seconds (be_clk be))"
proof -
  from press obtain a b q k where p: "bs_pickup (pg_store p) = Some a" "bs_dropoff (pg_store p) = Some b" "bs_quote (pg_store p) = Some q"
      and d: "d = (routeBody a b KindNormal)\<lparr>cd_quoteToken := Some (qr_quoteToken q)\<rparr>"
      and v: "view_of (pg_store p) = Form_view (form_of (pg_store p))" and sub: "submitSolo new p = (Some (k, q, key), p')"
    by (rule press_private)
  from solo_request_is_quoted [OF run sub] obtain clk where k: "quoteKey (pg_store p) = Some k"
      and q: "server_quote fp sp osrm geo j user clk k q" by blast
  have kd: "k = (bs_rideType (pg_store p), (pl_lat a, pl_lng a), pl_lat b, pl_lng b)" using k by (simp add: quoteKey_def p)
  obtain c where c: "qc_soloFareCents c = mo_amount (qr_soloFare q)"
      "\<And>u. verifyQuote j d u = (if seconds u < seconds clk + QUOTE_TTL then Inr c else Inl (Bad_request ''quote_expired''))"
    by (rule page_token_verifies [OF laws q kd d]) blast
  have kind: "cd_type d = KindNormal" by (simp add: d routeBody_def)
  have fare: "mo_amount (bk_fare resp) = mo_amount (qr_soloFare q)" if r: "res = Inr (SoloBooked resp, eff)" "eff \<noteq> []" for resp eff
    using create_ride_normal(1) [OF res [unfolded r(1)] kind]
    by (cases rule: createNormal_cases) (use r(2) c in \<open>auto simp: soloResponse_def new_ride_def booking_params_def split: if_splits\<close>)
  have err: "verifyQuote j d (be_clk be) = Inl x"
    if "res = Inl (Http x)" "x \<in> {Bad_request ''invalid_quote'', Bad_request ''quote_mismatch'', Bad_request ''quote_expired''}" for x
  proof -
    have "Http x \<noteq> Http (Forbidden_error ''forbidden'')" using that(2) by auto
    from createNormal_refusals [OF create_ride_normal(2) [OF res [unfolded that(1)] kind this]] that(2)
    show ?thesis by (simp add: d key_conflict_def) blast
  qed
  show ?thesis
    using p(3) k q v fare err c(2) shown_price [OF p(3) press(2)] by (intro exI [of _ q] exI [of _ clk] exI [of _ k]) (auto split: if_splits)
qed

text \<open>A page that chooses a private ride, sets both points and gets the quote of 230 rupees, and books it.\<close>

abbreviation w_pickup :: place where
  "w_pickup \<equiv> \<lparr>pl_lat = 12, pl_lng = 77, pl_label = ''a''\<rparr>"

abbreviation w_dropoff :: place where
  "w_dropoff \<equiv> \<lparr>pl_lat = 13, pl_lng = 77, pl_label = ''b''\<rparr>"

lemmas page_event_defs = page_step_def settle_def quote_effect_def restore_effect_def status_effect_def quote_deps_of_def
  initial_page_def initial_booking_def on_store_def setRideType_def applyPreset_def clearQuote_def startQuoting_def quoteKey_def
  tracking_def on_quote_reply_def setQuote_def

lemma w_page:
  assumes "ans (WebPrivate, (12, 77), 13, 77) q"
  shows "\<exists>p. page_run ans (\<lambda>_. ''m'') (settle (initial_page True None)) p \<and> bs_quote (pg_store p) = Some q
    \<and> bs_rideType (pg_store p) = WebPrivate \<and> bs_pickup (pg_store p) = Some w_pickup \<and> bs_dropoff (pg_store p) = Some w_dropoff
    \<and> pg_authed p \<and> bs_stage (pg_store p) = Quoted \<and> pg_key p = None"
proof -
  let ?p0 = "settle (initial_page True None) :: 'a page"
  let ?p1 = "page_step (\<lambda>_. ''m'') (ChooseType WebPrivate) ?p0"
  let ?p2 = "page_step (\<lambda>_. ''m'') (ChoosePreset w_pickup w_dropoff) ?p1"
  let ?p3 = "page_step (\<lambda>_. ''m'') (QuoteArrived 0 (QuoteOk q)) ?p2"
  have r1: "page_run ans (\<lambda>_. ''m'') ?p0 ?p1" by (rule pr_step [OF pr_start]) simp_all
  have r2: "page_run ans (\<lambda>_. ''m'') ?p0 ?p2" by (rule pr_step [OF r1]) simp_all
  have f: "pg_fetches ?p2 0 = Some (WebPrivate, (12, 77), 13, 77)" by (simp add: page_event_defs Let_def)
  have "page_run ans (\<lambda>_. ''m'') ?p0 ?p3"
    by (rule pr_step [OF r2]) (use f assms in \<open>auto simp del: split_paired_Ex\<close>)
  then show ?thesis by (intro exI [of _ ?p3]) (simp add: page_event_defs Let_def)
qed

lemma fare_on_screen_is_booked_witness:
  "\<exists>p p' resp s'. press_book ''k'' p = (Some (w_dto, ''k''), p')
     \<and> create_ride plain_jwt (\<lambda>_. ''f'') w_booking (w_seat_env (\<lambda>_. None)) w_user w_dto (Some ''k'') w_start
         = (Inr (SoloBooked resp, [KickOutbox, JoinRoom pas rid]), s')
     \<and> mo_amount (bk_fare resp) = 23000 \<and> (\<exists>q. bs_quote (pg_store p) = Some q \<and> mo_amount (qr_soloFare q) = 23000)"
proof -
  obtain q caches where q: "quote_ride w_fare w_seats w_osrm Some plain_jwt w_user KindNormal w_route 0 True (\<lambda>_. None, \<lambda>_. None)
      = (Inr q, caches)" "cd_quoteToken w_dto = Some (qr_quoteToken q)"
    using w_quote by blast
  let ?ans = "\<lambda>k x. \<exists>clk. server_quote w_fare w_seats w_osrm Some plain_jwt w_user clk k x"
  have "\<exists>ff caches caches'. quote_ride w_fare w_seats w_osrm Some plain_jwt w_user KindNormal w_route 0 ff caches = (Inr q, caches')"
    using q(1) by blast
  then have "server_quote w_fare w_seats w_osrm Some plain_jwt w_user 0 (WebPrivate, (12, 77), 13, 77) q"
    by (simp add: server_quote_def fetchQuote_def apiRideType_def w_route_def del: split_paired_Ex)
  from w_page [of ?ans, OF exI, OF this] obtain p where p: "page_run ?ans (\<lambda>_. ''m'') (settle (initial_page True None)) p"
      "bs_quote (pg_store p) = Some q" "bs_rideType (pg_store p) = WebPrivate" "bs_pickup (pg_store p) = Some w_pickup"
      "bs_dropoff (pg_store p) = Some w_dropoff" "pg_authed p" "bs_stage (pg_store p) = Quoted" "pg_key p = None"
    by blast
  have "\<exists>p'. press_book ''k'' p = (Some (w_dto, ''k''), p')"
    using p(2-8) q(2) by (simp add: press_book_def view_of_def tracking_def form_of_def book_button_of_def submitSolo_def quoteKey_def keyFor_def
        createNormalRide_def routeBody_def w_dto_def)
  then obtain p' where press: "press_book ''k'' p = (Some (w_dto, ''k''), p')" by blast
  obtain resp s' where b: "createNormal plain_jwt (\<lambda>_. ''f'') w_booking pas w_dto (Some ''k'') w_start
      = (Inr (resp, [KickOutbox, JoinRoom pas rid]), s')" "bk_fare resp = \<lparr>mo_amount = qc_soloFareCents w_claims, mo_currency = INR\<rparr>"
    using w_book by blast
  have c: "create_ride plain_jwt (\<lambda>_. ''f'') w_booking (w_seat_env (\<lambda>_. None)) w_user w_dto (Some ''k'') w_start
      = (Inr (SoloBooked resp, [KickOutbox, JoinRoom pas rid]), s')"
    using b(1) by (simp add: create_ride_def w_user_def w_dto_def)
  have "mo_amount (bk_fare resp) = mo_amount (qr_soloFare q)"
    using fare_on_screen_is_booked [OF plain_jwt_laws p(1) press p(3) c] p(2) by auto
  then show ?thesis using press c b(2) p(2) by (auto simp: w_claims_def)
qed

end
