(* ===== verification/Relay_Loop.thy ===== *)
theory Relay_Loop
  imports Outbox_Relay
begin

text \<open>
  When the relay drains (outbox.relay.ts): the poll interval, the kick after a commit, the one drain in flight that
  later callers share, and the ticks that wait for it. An event is one callback of the JavaScript process. A drain
  that starts leases a batch; \<open>owed\<close> marks that rows may be due that no started drain has leased: a kick since the
  last lease, or a batch that was full.
\<close>

section \<open>The loop\<close>

text \<open>
  \<open>ll_draining\<close> is the drain in flight: the rows it leased and how many ticks await it. \<open>ll_resuming\<close> are the ticks
  whose drain has settled, in the order their callbacks run, each with the rows of its drain, or \<open>None\<close> when it threw.
\<close>

record relay_loop =
  ll_timer :: bool
  ll_kickTimer :: bool
  ll_draining :: "(nat \<times> nat) option"
  ll_rekick :: bool
  ll_resuming :: "nat option list"

definition BATCH :: nat where
  "BATCH = 50"

definition initial_loop :: relay_loop where
  "initial_loop = \<lparr>ll_timer = False, ll_kickTimer = False, ll_draining = None, ll_rekick = False, ll_resuming = []\<rparr>"

definition kick :: "bool \<Rightarrow> relay_loop \<Rightarrow> relay_loop" where
  "kick disabled s = (if disabled \<or> ll_kickTimer s then s else s\<lparr>ll_kickTimer := True\<rparr>)"

text \<open>Whether a drain starts, which then leases \<open>n\<close> rows; the caller awaits the drain in either case.\<close>

definition drainOnce :: "nat \<Rightarrow> relay_loop \<Rightarrow> bool \<times> relay_loop" where
  "drainOnce n s =
     (case ll_draining s of
        Some (m, w) \<Rightarrow> (False, s\<lparr>ll_rekick := True, ll_draining := Some (m, w + 1)\<rparr>)
      | None \<Rightarrow> (True, s\<lparr>ll_draining := Some (n, 1)\<rparr>))"

text \<open>The kick timer and the interval start a tick, which begins with \<open>drainOnce\<close>.\<close>

definition kick_fires :: "nat \<Rightarrow> relay_loop \<Rightarrow> bool \<times> relay_loop" where
  "kick_fires n s = drainOnce n (s\<lparr>ll_kickTimer := False\<rparr>)"

definition settle_drain :: "bool \<Rightarrow> relay_loop \<Rightarrow> relay_loop" where
  "settle_drain failed s =
     (case ll_draining s of
        Some (n, w) \<Rightarrow> s\<lparr>ll_draining := None, ll_resuming := ll_resuming s @ replicate w (if failed then None else Some n)\<rparr>
      | None \<Rightarrow> s)"

text \<open>The rest of a tick, after its \<open>await\<close>.\<close>

definition resume_tick :: "bool \<Rightarrow> relay_loop \<Rightarrow> relay_loop" where
  "resume_tick disabled s =
     (case ll_resuming s of
        [] \<Rightarrow> s
      | None # ts \<Rightarrow> s\<lparr>ll_resuming := ts\<rparr>
      | Some n # ts \<Rightarrow>
          (let s1 = s\<lparr>ll_resuming := ts\<rparr> in
           if ll_rekick s \<or> BATCH \<le> n then kick disabled (s1\<lparr>ll_rekick := False\<rparr>) else s1))"

definition onApplicationBootstrap :: "bool \<Rightarrow> relay_loop \<Rightarrow> relay_loop" where
  "onApplicationBootstrap disabled s = (if disabled then s else kick disabled (s\<lparr>ll_timer := True\<rparr>))"

definition onModuleDestroy :: "relay_loop \<Rightarrow> relay_loop" where
  "onModuleDestroy s = s\<lparr>ll_timer := False, ll_kickTimer := False\<rparr>"

section \<open>Runs\<close>

datatype loop_event = Ev_boot | Ev_kick | Ev_kick_fires nat | Ev_poll nat | Ev_settle bool | Ev_resume

text \<open>The loop with the marks: rows are owed, and a drain threw since the last one started.\<close>

record loop_run =
  lr_loop :: relay_loop
  lr_owed :: bool
  lr_threw :: bool

definition after_start :: "nat \<Rightarrow> bool \<times> relay_loop \<Rightarrow> loop_run \<Rightarrow> loop_run" where
  "after_start n res z =
     (case res of (started, s) \<Rightarrow>
        if started then \<lparr>lr_loop = s, lr_owed = BATCH \<le> n, lr_threw = False\<rparr> else z\<lparr>lr_loop := s\<rparr>)"

text \<open>The events of an enabled relay; \<open>None\<close> when there is no such callback to run.\<close>

fun run_event :: "loop_event \<Rightarrow> loop_run \<Rightarrow> loop_run option" where
  "run_event Ev_boot z = (if ll_timer (lr_loop z) then None else Some (z\<lparr>lr_loop := onApplicationBootstrap False (lr_loop z), lr_owed := True\<rparr>))"
| "run_event Ev_kick z = Some (z\<lparr>lr_loop := kick False (lr_loop z), lr_owed := True\<rparr>)"
| "run_event (Ev_kick_fires n) z = (if ll_kickTimer (lr_loop z) then Some (after_start n (kick_fires n (lr_loop z)) z) else None)"
| "run_event (Ev_poll n) z = (if ll_timer (lr_loop z) then Some (after_start n (drainOnce n (lr_loop z)) z) else None)"
| "run_event (Ev_settle failed) z =
     (if ll_draining (lr_loop z) = None then None
      else Some (z\<lparr>lr_loop := settle_drain failed (lr_loop z), lr_threw := lr_threw z \<or> failed\<rparr>))"
| "run_event Ev_resume z = (if ll_resuming (lr_loop z) = [] then None else Some (z\<lparr>lr_loop := resume_tick False (lr_loop z)\<rparr>))"

inductive loop_step :: "loop_run \<Rightarrow> loop_run \<Rightarrow> bool" where
  ls: "run_event e z = Some z' \<Longrightarrow> loop_step z z'"

definition loop_init :: "loop_run \<Rightarrow> bool" where
  "loop_init z \<longleftrightarrow> z = \<lparr>lr_loop = initial_loop, lr_owed = False, lr_threw = False\<rparr>"

text \<open>What the process runs by itself before it starts another drain: the kick timer while a drain is in flight, the
  end of that drain, the waiting ticks.\<close>

fun inner_event :: "loop_event \<Rightarrow> relay_loop \<Rightarrow> bool" where
  "inner_event (Ev_kick_fires n) s = (ll_draining s \<noteq> None)"
| "inner_event (Ev_settle failed) s = (\<not> failed)"
| "inner_event Ev_resume s = True"
| "inner_event _ s = False"

fun inner_run :: "loop_event list \<Rightarrow> loop_run \<Rightarrow> loop_run option" where
  "inner_run [] z = Some z"
| "inner_run (e # es) z = (if inner_event e (lr_loop z) then Option.bind (run_event e z) (inner_run es) else None)"

section \<open>No kick is lost\<close>

definition full :: "nat option \<Rightarrow> bool" where
  "full r \<longleftrightarrow> (\<exists>n. r = Some n \<and> BATCH \<le> n)"

text \<open>Something is on its way that leads to another lease.\<close>

definition awake :: "relay_loop \<Rightarrow> bool" where
  "awake s \<longleftrightarrow> ll_kickTimer s
     \<or> ll_rekick s \<and> (ll_draining s \<noteq> None \<or> (\<exists>r \<in> set (ll_resuming s). r \<noteq> None))
     \<or> (\<exists>r \<in> set (ll_resuming s). full r) \<or> full (map_option fst (ll_draining s))"

definition loop_ok :: "loop_run \<Rightarrow> bool" where
  "loop_ok z \<longleftrightarrow> (lr_owed z \<longrightarrow> awake (lr_loop z) \<or> lr_threw z) \<and> (\<forall>n w. ll_draining (lr_loop z) = Some (n, w) \<longrightarrow> 0 < w)"

text \<open>How many of these events can still run before another drain starts.\<close>

definition bound :: "relay_loop \<Rightarrow> nat" where
  "bound s =
     (case ll_draining s of
        None \<Rightarrow> length (ll_resuming s)
      | Some (n, w) \<Rightarrow> 3 * length (ll_resuming s) + w + (if ll_kickTimer s then 2 else 0) + 1)"

lemmas loop_defs = after_start_def kick_fires_def drainOnce_def kick_def settle_drain_def resume_tick_def onApplicationBootstrap_def

lemma waiters_positive:
  assumes "run_event e z = Some z'" "\<forall>n w. ll_draining (lr_loop z) = Some (n, w) \<longrightarrow> 0 < w"
  shows "\<forall>n w. ll_draining (lr_loop z') = Some (n, w) \<longrightarrow> 0 < w"
  using assms by (cases e) (auto simp: loop_defs Let_def split: option.splits if_splits list.splits prod.splits)

text \<open>A kick wakes; only a drain that throws, or the start of another, ends it.\<close>

lemma awake_step:
  assumes "run_event e z = Some z'" "awake (lr_loop z)" "\<forall>n w. ll_draining (lr_loop z) = Some (n, w) \<longrightarrow> 0 < w" "lr_owed z'"
  shows "awake (lr_loop z') \<or> lr_threw z'"
  using assms by (cases e)
    (auto simp: loop_defs awake_def full_def Let_def split: option.splits if_splits list.splits prod.splits)

lemma owed_step:
  assumes "run_event e z = Some z'" "lr_owed z'" "\<not> lr_owed z"
  shows "awake (lr_loop z')"
  using assms by (cases e)
    (auto simp: loop_defs awake_def full_def Let_def split: option.splits if_splits list.splits prod.splits)

lemma threw_step:
  assumes "run_event e z = Some z'" "lr_threw z" "lr_owed z'"
  shows "awake (lr_loop z') \<or> lr_threw z'"
  using assms by (cases e)
    (auto simp: loop_defs awake_def full_def Let_def split: option.splits if_splits list.splits prod.splits)

lemma loop_ok_step: "run_event e z = Some z' \<Longrightarrow> loop_ok z \<Longrightarrow> loop_ok z'"
  unfolding loop_ok_def using waiters_positive awake_step owed_step threw_step by blast

lemma awake_has_event:
  assumes "awake s" "s = lr_loop z" "ll_draining s = None \<longrightarrow> \<not> ll_kickTimer s"
  shows "\<exists>e z'. inner_event e s \<and> run_event e z = Some z'"
proof (cases "ll_draining s")
  case None
  then have "ll_resuming s \<noteq> []" using assms(1,3) by (auto simp: awake_def full_def)
  then show ?thesis by (intro exI [of _ Ev_resume]) (simp add: assms(2))
next
  case (Some d)
  then show ?thesis by (intro exI [of _ "Ev_settle False"]) (simp add: assms(2))
qed

lemma bound_decreases:
  assumes "inner_event e (lr_loop z)" "run_event e z = Some z'"
  shows "bound (lr_loop z') < bound (lr_loop z)"
  using assms by (cases e)
    (auto simp: loop_defs bound_def Let_def neq_Nil_conv split: option.splits if_splits list.splits prod.splits)

lemma inner_keeps:
  assumes "inner_event e (lr_loop z)" "run_event e z = Some z'" "lr_owed z" "\<not> lr_threw z"
  shows "lr_owed z' \<and> \<not> lr_threw z'"
  using assms by (cases e) (auto simp: loop_defs split: option.splits if_splits)

lemma inner_run_keeps:
  "inner_run es z = Some z' \<Longrightarrow> loop_ok z \<Longrightarrow> lr_owed z \<Longrightarrow> \<not> lr_threw z
   \<Longrightarrow> length es + bound (lr_loop z') \<le> bound (lr_loop z) \<and> loop_ok z' \<and> lr_owed z' \<and> \<not> lr_threw z'"
proof (induction es arbitrary: z)
  case (Cons e es)
  from Cons.prems(1) obtain y where y: "inner_event e (lr_loop z)" "run_event e z = Some y" "inner_run es y = Some z'"
    by (auto split: if_splits bind_splits)
  show ?case using Cons.IH [OF y(3) loop_ok_step [OF y(2) Cons.prems(2)]] inner_keeps [OF y(1,2) Cons.prems(3,4)] bound_decreases [OF y(1,2)]
    by auto
qed simp

interpretation relay_loop: transition_system loop_init loop_step loop_ok
  by unfold_locales (auto simp: loop_init_def loop_ok_def initial_loop_def elim!: loop_step.cases dest: loop_ok_step [unfolded loop_ok_def])

text \<open>A batch that is not full took every due row that no other relay holds: nothing is owed after it.\<close>

lemma short_batch_leaves_nothing:
  assumes "length (lease_ids BATCH locked now t) < BATCH" "x \<in> set t" "due now x" "x_id x \<notin> locked"
  shows "x_id x \<in> set (lease_ids BATCH locked now t)"
  using assms unfolding lease_ids_def by (auto simp: image_iff)

lemma disabled_relay_is_inert: "onApplicationBootstrap True s = s" "kick True s = s"
  by (simp_all add: onApplicationBootstrap_def kick_def)

text \<open>The timers are cleared when the module is destroyed, but a tick that still waits arms one again.\<close>

lemma destroyed_relay_drains_again:
  "let s = onModuleDestroy (snd (drainOnce 3 (snd (drainOnce 0 initial_loop)))) in
   \<not> ll_kickTimer s \<and> ll_kickTimer (resume_tick False (settle_drain False s))"
  by (simp add: loop_defs initial_loop_def onModuleDestroy_def Let_def numeral_2_eq_2)

section \<open>The property\<close>

text \<open>C35: No kick is lost: in every reachable state in which a kick came after the last lease, or that lease was a full
  batch, and no drain has thrown since, whatever runs next, at most \<open>bound\<close> callbacks can run before another drain
  starts; until then there is always one to run, and the last of them is the kick timer with no drain in flight.\<close>

lemma kick_leads_to_drain:
  assumes "reach loop_init loop_step z" "lr_owed z" "\<not> lr_threw z" "inner_run es z = Some z'"
  shows "length es \<le> bound (lr_loop z)
    \<and> (if ll_draining (lr_loop z') = None \<and> ll_kickTimer (lr_loop z')
       then \<forall>n. \<exists>z''. run_event (Ev_kick_fires n) z' = Some z'' \<and> \<not> lr_threw z'' \<and> ll_draining (lr_loop z'') = Some (n, 1)
       else \<exists>e z''. inner_event e (lr_loop z') \<and> run_event e z' = Some z'')"
proof -
  have r: "length es \<le> bound (lr_loop z)" "loop_ok z'" "lr_owed z'" "\<not> lr_threw z'"
    using inner_run_keeps [OF assms(4) relay_loop.reach_inv [OF assms(1)] assms(2,3)] by simp_all
  then have a: "awake (lr_loop z')" by (simp add: loop_ok_def)
  show ?thesis using r(1) awake_has_event [OF a refl] by (auto simp: loop_defs)
qed

text \<open>A kick while a drain is in flight: the timer fires, the drain ends, the first tick kicks again.\<close>

lemma kick_leads_to_drain_witness:
  "inner_run [Ev_kick_fires 0, Ev_settle False, Ev_resume]
     \<lparr>lr_loop = \<lparr>ll_timer = True, ll_kickTimer = True, ll_draining = Some (3, 1), ll_rekick = False, ll_resuming = []\<rparr>, lr_owed = True, lr_threw = False\<rparr>
   = Some \<lparr>lr_loop = \<lparr>ll_timer = True, ll_kickTimer = True, ll_draining = None, ll_rekick = False, ll_resuming = [Some 3]\<rparr>, lr_owed = True, lr_threw = False\<rparr>
   \<and> 3 \<le> bound \<lparr>ll_timer = True, ll_kickTimer = True, ll_draining = Some (3, 1), ll_rekick = False, ll_resuming = []\<rparr>"
proof -
  let ?z = "\<lparr>lr_loop = \<lparr>ll_timer = True, ll_kickTimer = True, ll_draining = Some (3, 1), ll_rekick = False, ll_resuming = []\<rparr>, lr_owed = True, lr_threw = False\<rparr>"
  let ?z' = "\<lparr>lr_loop = \<lparr>ll_timer = True, ll_kickTimer = True, ll_draining = None, ll_rekick = False, ll_resuming = [Some 3]\<rparr>, lr_owed = True, lr_threw = False\<rparr>"
  have i: "inner_run [Ev_kick_fires 0, Ev_settle False, Ev_resume] ?z = Some ?z'"
    by (simp add: loop_defs BATCH_def numeral_2_eq_2)
  let ?i = "\<lparr>lr_loop = initial_loop, lr_owed = False, lr_threw = False\<rparr>"
  have "reach loop_init loop_step ?i" by (rule reach_init) (simp add: loop_init_def)
  then have "reach loop_init loop_step \<lparr>lr_loop = initial_loop\<lparr>ll_timer := True, ll_kickTimer := True\<rparr>, lr_owed = True, lr_threw = False\<rparr>"
    by (rule reach_step) (rule ls [of Ev_boot], simp add: loop_defs initial_loop_def)
  then have "reach loop_init loop_step \<lparr>lr_loop = initial_loop\<lparr>ll_timer := True, ll_draining := Some (3, 1)\<rparr>, lr_owed = False, lr_threw = False\<rparr>"
    by (rule reach_step) (rule ls [of "Ev_kick_fires 3"], simp add: loop_defs initial_loop_def BATCH_def)
  then have "reach loop_init loop_step ?z"
    by (rule reach_step) (rule ls [of Ev_kick], simp add: loop_defs initial_loop_def)
  from kick_leads_to_drain [OF this _ _ i] i show ?thesis by simp
qed

end
