(* ===== verification/Sign_In.thy ===== *)
theory Sign_In
  imports Web_Auth
begin

text \<open>
  The sign-in page (app/signin/sign-in-client.tsx) and the guard of the signed-in pages (auth/with-auth.tsx). Firebase
  is outside the model: a confirmation is a value of type \<open>'c\<close>, and its answers arrive as events. A submit handler
  is cut at its \<open>await\<close>s; \<open>si_calls\<close> are the handlers that wait. Layout, the reCAPTCHA and the router are left out.
\<close>

section \<open>The page\<close>

datatype sign_in_form = PhoneForm | OtpForm

text \<open>What a handler waits for: the code to be sent, the code typed to be confirmed, or the exchange of an id token.\<close>

datatype 'c sign_in_call = Sending string | Confirming 'c string | Exchanging 'c string

record 'c sign_in =
  si_phone :: string
  si_otp :: string
  si_step :: sign_in_form
  si_error :: string
  si_loading :: bool
  si_confirmation :: "'c option"
  si_calls :: "'c sign_in_call list"

definition initial_sign_in :: "'c sign_in" where
  "initial_sign_in = \<lparr>si_phone = '''', si_otp = '''', si_step = PhoneForm, si_error = '''', si_loading = False,
     si_confirmation = None, si_calls = []\<rparr>"

text \<open>A form is submitted only while its button is enabled and its required field is filled.\<close>

definition handlePhoneSubmit :: "'c sign_in \<Rightarrow> 'c sign_in" where
  "handlePhoneSubmit p =
     (if si_step p \<noteq> PhoneForm \<or> si_loading p \<or> si_phone p = '''' then p
      else p\<lparr>si_error := '''', si_loading := True, si_calls := si_calls p @ [Sending (si_phone p)]\<rparr>)"

text \<open>Without a confirmation the non-null assertion throws.\<close>

definition handleOtpSubmit :: "string \<Rightarrow> 'c sign_in \<Rightarrow> 'c sign_in" where
  "handleOtpSubmit null_error p =
     (if si_step p \<noteq> OtpForm \<or> si_loading p \<or> si_otp p = '''' then p
      else case si_confirmation p of
          None \<Rightarrow> p\<lparr>si_error := null_error, si_loading := False\<rparr>
        | Some c \<Rightarrow> p\<lparr>si_error := '''', si_loading := True, si_calls := si_calls p @ [Confirming c (si_otp p)]\<rparr>)"

definition call_done :: "'c sign_in_call \<Rightarrow> 'c sign_in \<Rightarrow> 'c sign_in" where
  "call_done x p = p\<lparr>si_calls := remove1 x (si_calls p), si_loading := False\<rparr>"

datatype ('c, 't) sign_in_event =
    PhoneTyped string
  | OtpTyped string
  | PhoneSubmit
  | OtpSubmit
  | BackClick
  | CodeSent string "string + 'c"
  | CodeConfirmed 'c string "string + string"
  | TokenExchanged 'c string "string + auth_user \<times> 't"

text \<open>The page and the auth store; an answer arrives only for a handler that waits for it.\<close>

fun sign_in_step :: "('t \<Rightarrow> instant option) \<Rightarrow> string \<Rightarrow> ('c, 't) sign_in_event \<Rightarrow> 'c sign_in \<times> 't auth_store \<Rightarrow> 'c sign_in \<times> 't auth_store" where
  "sign_in_step dec ne (PhoneTyped x) (p, a) = (if si_step p = PhoneForm then p\<lparr>si_phone := x\<rparr> else p, a)"
| "sign_in_step dec ne (OtpTyped x) (p, a) = (if si_step p = OtpForm \<and> length x \<le> 6 then p\<lparr>si_otp := x\<rparr> else p, a)"
| "sign_in_step dec ne PhoneSubmit (p, a) = (handlePhoneSubmit p, a)"
| "sign_in_step dec ne OtpSubmit (p, a) = (handleOtpSubmit ne p, a)"
| "sign_in_step dec ne BackClick (p, a) = (if si_step p = OtpForm then p\<lparr>si_step := PhoneForm, si_error := ''''\<rparr> else p, a)"
| "sign_in_step dec ne (CodeSent phone r) (p, a) =
     (if Sending phone \<notin> set (si_calls p) then p
      else case r of
          Inl m \<Rightarrow> (call_done (Sending phone) p)\<lparr>si_error := m\<rparr>
        | Inr c \<Rightarrow> (call_done (Sending phone) p)\<lparr>si_confirmation := Some c, si_step := OtpForm\<rparr>, a)"
| "sign_in_step dec ne (CodeConfirmed c otp r) (p, a) =
     (if Confirming c otp \<notin> set (si_calls p) then p
      else case r of
          Inl m \<Rightarrow> (call_done (Confirming c otp) p)\<lparr>si_error := m\<rparr>
        | Inr tok \<Rightarrow> p\<lparr>si_calls := remove1 (Confirming c otp) (si_calls p) @ [Exchanging c tok]\<rparr>, a)"
| "sign_in_step dec ne (TokenExchanged c tok r) (p, a) =
     (if Exchanging c tok \<notin> set (si_calls p) then (p, a)
      else case r of
          Inl m \<Rightarrow> ((call_done (Exchanging c tok) p)\<lparr>si_error := m\<rparr>, a)
        | Inr (u, t) \<Rightarrow> (call_done (Exchanging c tok) p, setAuth dec u t a))"

definition sign_in_run ::
  "('t \<Rightarrow> instant option) \<Rightarrow> string \<Rightarrow> ('c, 't) sign_in_event list \<Rightarrow> 'c sign_in \<times> 't auth_store \<Rightarrow> 'c sign_in \<times> 't auth_store" where
  "sign_in_run dec ne es z = fold (sign_in_step dec ne) es z"

section \<open>Facts\<close>

text \<open>One handler waits at most, and the forms are disabled while it does; the code form has a confirmation.\<close>

definition sign_in_ok :: "'c sign_in \<Rightarrow> bool" where
  "sign_in_ok p \<longleftrightarrow>
     (if si_loading p then \<exists>x. si_calls p = [x] else si_calls p = [])
     \<and> (si_step p = OtpForm \<longrightarrow> si_confirmation p \<noteq> None)
     \<and> (\<forall>c otp. Confirming c otp \<in> set (si_calls p) \<longrightarrow> si_confirmation p = Some c)
     \<and> (\<forall>c tok. Exchanging c tok \<in> set (si_calls p) \<longrightarrow> si_confirmation p = Some c)"

lemma sign_in_step_ok: "sign_in_ok p \<Longrightarrow> sign_in_ok (fst (sign_in_step dec ne e (p, a)))"
  by (cases e) (auto simp: sign_in_ok_def handlePhoneSubmit_def handleOtpSubmit_def call_done_def split: if_splits sum.splits option.splits)

lemma sign_in_run_ok: "sign_in_ok (fst z) \<Longrightarrow> sign_in_ok (fst (sign_in_run dec ne es z))"
proof (induction es arbitrary: z)
  case (Cons e es)
  then show ?case using sign_in_step_ok [of "fst z" dec ne e "snd z"] by (simp add: sign_in_run_def)
qed (simp add: sign_in_run_def)

lemma initial_sign_in_ok: "sign_in_ok initial_sign_in"
  by (simp add: sign_in_ok_def initial_sign_in_def)

text \<open>The non-null assertion holds: a submit of the code form always confirms with the last confirmation.\<close>

lemma otp_submit_confirms:
  assumes "sign_in_ok p" "si_step p = OtpForm" "\<not> si_loading p" "si_otp p \<noteq> ''''"
  shows "\<exists>c. si_confirmation p = Some c \<and> si_calls (handleOtpSubmit ne p) = [Confirming c (si_otp p)]"
  using assms by (auto simp: sign_in_ok_def handleOtpSubmit_def)

text \<open>The session is set only by the server's answer to a token of the last confirmation.\<close>

lemma session_from_exchange:
  assumes "sign_in_ok p" "snd (sign_in_step dec ne e (p, a)) \<noteq> a"
  shows "\<exists>c tok u t. e = TokenExchanged c tok (Inr (u, t)) \<and> si_confirmation p = Some c \<and> snd (sign_in_step dec ne e (p, a)) = setAuth dec u t a
    \<and> si_calls (fst (sign_in_step dec ne e (p, a))) = [] \<and> \<not> si_loading (fst (sign_in_step dec ne e (p, a)))"
  using assms by (cases e) (auto simp: sign_in_ok_def call_done_def split: if_splits sum.splits)

section \<open>The guard of the signed-in pages\<close>

datatype guard_action = StayHere | ToSignIn | AwaitRefresh "nat option"

text \<open>The effect, and what runs when the refresh it waits for is over.\<close>

definition guard_effect :: "'t auth_store \<Rightarrow> guard_action \<times> 't auth_store" where
  "guard_effect a =
     (if ws_jwt a \<noteq> None then (StayHere, a)
      else if ws_signedOut a then (ToSignIn, a)
      else (case refreshAccessToken a of (p, b) \<Rightarrow> (AwaitRefresh p, b)))"

definition guard_refreshed :: "'t auth_store \<Rightarrow> guard_action" where
  "guard_refreshed a = (if ws_jwt a = None then ToSignIn else StayHere)"

definition guard_renders :: "'t auth_store \<Rightarrow> bool" where
  "guard_renders a \<longleftrightarrow> ws_user a \<noteq> None"

text \<open>After a sign-out the page is hidden and leaves for the sign-in page without a refresh.\<close>

lemma guard_after_sign_out:
  "let b = snd (signOut now reply a) in \<not> guard_renders b \<and> guard_effect b = (ToSignIn, b)"
  by (simp add: signOut_def drop_session_def guard_renders_def guard_effect_def Let_def)

text \<open>On a reload a granted refresh shows the page, a refused one leaves it; guards that wait share one request.\<close>

lemma guard_after_reload:
  assumes "ws_jwt a = None" "\<not> ws_signedOut a" "ws_inflight a = None"
  obtains b where "guard_effect a = (AwaitRefresh (Some (ws_next a)), b)" "guard_effect b = (AwaitRefresh (Some (ws_next a)), b)"
    "guard_refreshed (snd (on_refresh_reply dec (ws_next a) (ReplyGranted t u) b)) = StayHere"
    "guard_renders (snd (on_refresh_reply dec (ws_next a) (ReplyGranted t u) b))"
    "guard_refreshed (snd (on_refresh_reply dec (ws_next a) ReplyRefused b)) = ToSignIn"
  using assms by (auto simp: guard_effect_def refreshAccessToken_def guard_refreshed_def guard_renders_def on_refresh_reply_def
      clear_session_def Let_def)

end
