(* ===== verification/Address_Search.thy ===== *)
theory Address_Search
  imports Book_View Auth_Config
begin

text \<open>
  The address field of the booking page (app/book/address-search.tsx) and the geocoder client (geo/nominatim.ts): the
  debounced search, its cancellation, and the list of suggestions. An event is a user action, a new \<open>value\<close> from the
  page, the debounce timer or the end of a request; the effects it triggers run after it. The network is outside.
\<close>

section \<open>The geocoder\<close>

definition MIN_QUERY_LENGTH :: nat where
  "MIN_QUERY_LENGTH = 3"

text \<open>The query sent, or an immediate empty answer.\<close>

definition searchPlaces :: "string \<Rightarrow> string option" where
  "searchPlaces query = (let q = trim query in if length q < MIN_QUERY_LENGTH then None else Some q)"

text \<open>An answer's rows; \<open>num\<close> is \<open>Number()\<close> on the decimal text of a coordinate.\<close>

definition suggestions_of :: "(string \<Rightarrow> real) \<Rightarrow> (string \<times> string \<times> string) list \<Rightarrow> place list" where
  "suggestions_of num rows = map (\<lambda>(display_name, lat, lon). \<lparr>pl_lat = num lat, pl_lng = num lon, pl_label = display_name\<rparr>) rows"

definition coordLabel :: "real \<Rightarrow> real \<Rightarrow> string" where
  "coordLabel lat lng = toFixed 5 lat @ '', '' @ toFixed 5 lng"

definition reverseGeocode :: "string option \<Rightarrow> real \<Rightarrow> real \<Rightarrow> string" where
  "reverseGeocode display_name lat lng = (case display_name of Some n \<Rightarrow> n | None \<Rightarrow> coordLabel lat lng)"

section \<open>The field\<close>

definition DEBOUNCE_MS :: int where
  "DEBOUNCE_MS = 400"

text \<open>
  \<open>af_timer\<close> is the debounce timer with the time it is due and its query; \<open>af_live\<close> the search that is not aborted;
  \<open>af_asked\<close> what each unsettled search asked; \<open>af_sent\<close> when a search was sent.
\<close>

record address_field =
  af_text :: string
  af_value :: "place option"
  af_suggestions :: "place list"
  af_loading :: bool
  af_open :: bool
  af_timer :: "(instant \<times> string) option"
  af_live :: "nat option"
  af_asked :: "nat \<Rightarrow> string option"
  af_next :: nat
  af_sent :: "(instant \<times> string) list"

definition label_of :: "place option \<Rightarrow> string" where
  "label_of v = (case v of Some p \<Rightarrow> pl_label p | None \<Rightarrow> '''')"

text \<open>The cleanup of the search effect, and the effect.\<close>

definition search_cleanup :: "address_field \<Rightarrow> address_field" where
  "search_cleanup f = f\<lparr>af_timer := None, af_live := None, af_loading := False\<rparr>"

definition search_effect :: "instant \<Rightarrow> address_field \<Rightarrow> address_field" where
  "search_effect now f =
     (let g = search_cleanup f; q = trim (af_text g) in
      if length q < MIN_QUERY_LENGTH then g\<lparr>af_suggestions := [], af_open := False\<rparr>
      else if (\<exists>p. af_value g = Some p \<and> q = pl_label p) then g
      else g\<lparr>af_loading := True, af_timer := Some (now + DEBOUNCE_MS, q)\<rparr>)"

definition initial_field :: "instant \<Rightarrow> place option \<Rightarrow> address_field" where
  "initial_field now v = search_effect now \<lparr>af_text = label_of v, af_value = v, af_suggestions = [], af_loading = False, af_open = False,
     af_timer = None, af_live = None, af_asked = Map.empty, af_next = 0, af_sent = []\<rparr>"

definition type_text :: "instant \<Rightarrow> string \<Rightarrow> address_field \<Rightarrow> address_field" where
  "type_text now x f = (if x = af_text f then f else search_effect now (f\<lparr>af_text := x\<rparr>))"

text \<open>A new value: both effects run, the search effect first with the old text.\<close>

definition set_value :: "instant \<Rightarrow> place option \<Rightarrow> address_field \<Rightarrow> address_field" where
  "set_value now v f = type_text now (label_of v) (search_effect now (f\<lparr>af_value := v\<rparr>))"

definition timer_fires :: "instant \<Rightarrow> address_field \<Rightarrow> address_field" where
  "timer_fires now f =
     (case af_timer f of
        Some (due_at, q) \<Rightarrow>
          if now < due_at then f
          else f\<lparr>af_timer := None, af_live := Some (af_next f), af_asked := (af_asked f)(af_next f := searchPlaces q),
                 af_next := af_next f + 1, af_sent := af_sent f @ [(now, q)]\<rparr>
      | None \<Rightarrow> f)"

text \<open>A search ends; an aborted one always fails, and the \<open>finally\<close> callback runs in any case.\<close>

definition search_ends :: "nat \<Rightarrow> place list option \<Rightarrow> address_field \<Rightarrow> address_field" where
  "search_ends n res f =
     (if af_asked f n = None then f
      else let g = f\<lparr>af_asked := (af_asked f)(n := None), af_loading := False\<rparr> in
        if af_live f \<noteq> Some n then g
        else case res of
            Some xs \<Rightarrow> g\<lparr>af_live := None, af_suggestions := xs, af_open := True\<rparr>
          | None \<Rightarrow> g\<lparr>af_live := None\<rparr>)"

definition listbox :: "address_field \<Rightarrow> place list" where
  "listbox f = (if af_open f then af_suggestions f else [])"

text \<open>A click on a suggestion: what \<open>onSelect\<close> gets; the page answers with a new value.\<close>

definition choose_suggestion :: "nat \<Rightarrow> address_field \<Rightarrow> place option \<times> address_field" where
  "choose_suggestion i f =
     (if i < length (listbox f) then (Some (listbox f ! i), f\<lparr>af_suggestions := [], af_open := False\<rparr>) else (None, f))"

datatype field_event =
    TypeText string
  | SetValue "place option"
  | TimerFires
  | SearchEnds nat "place list option"
  | ChooseSuggestion nat

fun field_step :: "instant \<times> field_event \<Rightarrow> address_field \<Rightarrow> address_field" where
  "field_step (now, TypeText x) f = type_text now x f"
| "field_step (now, SetValue v) f = set_value now v f"
| "field_step (now, TimerFires) f = timer_fires now f"
| "field_step (now, SearchEnds n res) f = search_ends n res f"
| "field_step (now, ChooseSuggestion i) f = snd (choose_suggestion i f)"

definition field_run :: "(instant \<times> field_event) list \<Rightarrow> address_field \<Rightarrow> address_field" where
  "field_run es f = fold field_step es f"

section \<open>Facts\<close>

text \<open>The timer and the live search are for the text in the field, and never both there.\<close>

definition field_ok :: "address_field \<Rightarrow> bool" where
  "field_ok f \<longleftrightarrow>
     (\<forall>d q. af_timer f = Some (d, q) \<longrightarrow> q = trim (af_text f) \<and> MIN_QUERY_LENGTH \<le> length q \<and> af_live f = None)
     \<and> (\<forall>n. af_live f = Some n \<longrightarrow> n < af_next f \<and> af_asked f n = Some (trim (af_text f)))"

lemma trim_trim [simp]: "trim (trim s) = trim s"
proof -
  have last: "dropWhile P xs \<noteq> [] \<Longrightarrow> last (dropWhile P xs) = last xs" for P and xs :: string
    by (metis last_appendR takeWhile_dropWhile_id)
  let ?t = "dropWhile is_space s"
  have t: "?t = [] \<or> \<not> is_space (hd ?t)" using hd_dropWhile [of is_space s] by blast
  have "trim s = [] \<or> \<not> is_space (hd (trim s))"
  proof (cases "dropWhile is_space (rev ?t) = []")
    case False
    then have "?t \<noteq> []" by (metis dropWhile.simps(1) rev.simps(1))
    moreover have "hd (trim s) = hd ?t" using last [OF False] by (simp add: trim_def hd_rev last_rev)
    ultimately show ?thesis using t by metis
  next
    case True
    show ?thesis unfolding trim_def True by simp
  qed
  then have "dropWhile is_space (trim s) = trim s" by (simp add: dropWhile_eq_self_iff)
  moreover have "dropWhile is_space (rev (trim s)) = rev (trim s)" by (simp add: trim_def dropWhile_eq_self_iff)
  ultimately show ?thesis unfolding trim_def [of "trim s"] by simp
qed

lemma search_effect_ok: "field_ok (search_effect now f)"
  by (simp add: field_ok_def search_effect_def search_cleanup_def Let_def)

lemma type_text_ok: "field_ok f \<Longrightarrow> field_ok (type_text now x f)"
  by (simp add: type_text_def search_effect_ok)

lemma timer_fires_ok: "field_ok f \<Longrightarrow> field_ok (timer_fires now f)"
  by (auto simp: field_ok_def timer_fires_def searchPlaces_def Let_def split: option.splits)

lemma search_ends_ok: "field_ok f \<Longrightarrow> field_ok (search_ends n res f)"
  by (auto simp: field_ok_def search_ends_def Let_def split: option.splits)

lemma choose_ok: "field_ok f \<Longrightarrow> field_ok (snd (choose_suggestion i f))"
  by (auto simp: field_ok_def choose_suggestion_def)

lemma field_step_ok: "field_ok f \<Longrightarrow> field_ok (field_step e f)"
  by (cases e; cases "snd e")
    (auto simp: set_value_def type_text_ok search_effect_ok timer_fires_ok search_ends_ok choose_ok)

lemma field_run_ok: "field_ok f \<Longrightarrow> field_ok (field_run es f)"
  by (induction es arbitrary: f) (simp_all add: field_run_def field_step_ok)

text \<open>Only the answer for the text in the field is shown; an aborted search changes nothing but the indicator.\<close>

lemma answer_is_for_the_text:
  assumes "f = field_run es (initial_field now v)"
    and "af_suggestions (search_ends n (Some xs) f) \<noteq> af_suggestions f \<or> af_open (search_ends n (Some xs) f) \<noteq> af_open f"
  shows "af_asked f n = Some (trim (af_text f)) \<and> listbox (search_ends n (Some xs) f) = xs"
proof -
  have "field_ok f" unfolding assms(1) by (rule field_run_ok) (simp add: initial_field_def search_effect_ok)
  then show ?thesis using assms(2) by (auto simp: field_ok_def search_ends_def listbox_def Let_def split: if_splits)
qed

text \<open>A query that is sent is trimmed and long enough, and waited for the debounce.\<close>

lemma search_is_debounced:
  assumes "field_ok f" "af_sent (timer_fires now f) \<noteq> af_sent f"
  shows "\<exists>d q. af_timer f = Some (d, q) \<and> d \<le> now \<and> af_sent (timer_fires now f) = af_sent f @ [(now, q)] \<and> searchPlaces (af_text f) = Some q
    \<and> af_asked (timer_fires now f) (af_next f) = Some q"
  using assms by (auto simp: timer_fires_def field_ok_def searchPlaces_def Let_def split: option.splits if_splits)

text \<open>The field after two and after three letters more were typed.\<close>

abbreviation w_field :: "string \<Rightarrow> nat \<Rightarrow> (instant \<times> string) list \<Rightarrow> address_field" where
  "w_field x n sent \<equiv> \<lparr>af_text = x, af_value = None, af_suggestions = [], af_loading = False, af_open = False, af_timer = None, af_live = None,
     af_asked = (\<lambda>k. if k < n then Some ''gan'' else None), af_next = n, af_sent = sent\<rparr>"

lemma trim_samples [simp]: "trim ''gan'' = ''gan''" "trim ''gane'' = ''gane''" "trim '''' = ''''"
  by (simp_all add: trim_def is_space_def code_def)

lemma initial_sample: "initial_field 0 None = w_field '''' 0 []"
  by (simp add: initial_field_def label_of_def search_effect_def search_cleanup_def MIN_QUERY_LENGTH_def)

lemma first_sample: "type_text 0 ''gan'' (w_field '''' 0 []) = (w_field ''gan'' 0 [])\<lparr>af_loading := True, af_timer := Some (400, ''gan'')\<rparr>"
  by (simp add: type_text_def search_effect_def search_cleanup_def MIN_QUERY_LENGTH_def DEBOUNCE_MS_def Let_def)

lemma second_sample:
  "timer_fires 400 ((w_field ''gan'' 0 [])\<lparr>af_loading := True, af_timer := Some (400, ''gan'')\<rparr>)
   = (w_field ''gan'' 1 [(400, ''gan'')])\<lparr>af_loading := True, af_live := Some 0\<rparr>"
  by (simp add: timer_fires_def searchPlaces_def MIN_QUERY_LENGTH_def fun_eq_iff)

lemma third_sample:
  "type_text 450 ''gane'' ((w_field ''gan'' 1 [(400, ''gan'')])\<lparr>af_loading := True, af_live := Some 0\<rparr>)
   = (w_field ''gane'' 1 [(400, ''gan'')])\<lparr>af_loading := True, af_timer := Some (850, ''gane'')\<rparr>"
  by (simp add: type_text_def search_effect_def search_cleanup_def MIN_QUERY_LENGTH_def DEBOUNCE_MS_def Let_def)

text \<open>The debounce does not bound the rate: a user who pauses between keys sends two searches within a second.\<close>

lemma two_searches_in_a_second:
  "af_sent (field_run [(0, TypeText ''gan''), (400, TimerFires), (450, TypeText ''gane''), (850, TimerFires)] (initial_field 0 None))
   = [(400, ''gan''), (850, ''gane'')]"
  by (simp only: field_run_def fold.simps comp_apply id_apply field_step.simps initial_sample first_sample second_sample third_sample)
    (simp add: timer_fires_def)

text \<open>The \<open>finally\<close> callback of an aborted search hides the indicator of the next one.\<close>

lemma aborted_search_hides_the_indicator:
  "let f = field_run [(0, TypeText ''gan''), (400, TimerFires), (450, TypeText ''gane'')] (initial_field 0 None) in
   af_loading f \<and> af_timer f = Some (850, ''gane'') \<and> \<not> af_loading (search_ends 0 None f) \<and> af_timer (search_ends 0 None f) = Some (850, ''gane'')"
  by (simp only: field_run_def fold.simps comp_apply id_apply field_step.simps initial_sample first_sample second_sample third_sample Let_def)
    (simp add: search_ends_def)

text \<open>A value set from outside, by a tap on the map or a preset, leaves an open list of the old text open.\<close>

lemma old_list_stays_open:
  assumes "listbox f \<noteq> []" "MIN_QUERY_LENGTH \<le> length (trim (af_text f))" "v = Some p" "trim (pl_label p) = pl_label p"
    "MIN_QUERY_LENGTH \<le> length (pl_label p)"
  shows "listbox (set_value now v f) = listbox f \<and> af_text (set_value now v f) = pl_label p \<and> af_live (set_value now v f) = None"
  using assms by (simp add: set_value_def type_text_def search_effect_def search_cleanup_def listbox_def label_of_def Let_def)

text \<open>Choosing a suggestion closes the list, and the value it sets starts no search.\<close>

lemma chosen_suggestion_is_not_searched:
  assumes "choose_suggestion i f = (Some p, g)" "trim (pl_label p) = pl_label p" "MIN_QUERY_LENGTH \<le> length (pl_label p)"
  shows "listbox (set_value now (Some p) g) = [] \<and> af_text (set_value now (Some p) g) = pl_label p
    \<and> (af_text g \<noteq> pl_label p \<longrightarrow> af_timer (set_value now (Some p) g) = None)"
  using assms by (auto simp: choose_suggestion_def set_value_def type_text_def search_effect_def search_cleanup_def listbox_def label_of_def Let_def
      split: if_splits)

end
