(* ===== verification/Wiring.thy ===== *)
theory Wiring
  imports Realtime_Properties Scheduled
begin

text \<open>
  How the parts are connected: the settings \<open>DispatchService\<close> reads at startup, its event handlers and the
  assignment it attaches to an outcome (dispatch.service.ts), the stop messages of the gateway (realtime.gateway.ts),
  and the reconnection of the web socket (booking/ws.ts).
\<close>

section \<open>Dispatch settings\<close>

definition with_number ::
  "(string \<Rightarrow> raw_value) \<Rightarrow> string \<Rightarrow> real \<Rightarrow> number_options \<Rightarrow> (real \<Rightarrow> config_error + 'a) \<Rightarrow> config_error + 'a" where
  "with_number config key d opts f = (case getNumber config key d opts of Inl e \<Rightarrow> Inl e | Inr x \<Rightarrow> f x)"

abbreviation whole :: number_options where
  "whole \<equiv> \<lparr>n_integer = True, n_min = Some 1, n_max = None\<rparr>"

abbreviation positive :: number_options where
  "positive \<equiv> \<lparr>n_integer = False, n_min = Some 1, n_max = None\<rparr>"

definition dispatchParams :: "(string \<Rightarrow> raw_value) \<Rightarrow> config_error + dispatch_params" where
  "dispatchParams config =
     with_number config ''DISPATCH_K1'' 5 whole (\<lambda>a.
     with_number config ''DISPATCH_K2'' 10 whole (\<lambda>b.
     with_number config ''DISPATCH_R1_METERS'' 2000 positive (\<lambda>c.
     with_number config ''DISPATCH_R2_METERS'' 4000 positive (\<lambda>d.
     with_number config ''DISPATCH_WAVE_ONE_TIMEOUT_MS'' 30000 whole (\<lambda>w.
     with_number config ''DISPATCH_HARD_FAIL_MS'' 60000 whole (\<lambda>h.
       (case scheduledWindowFromConfig config of
          Inl e \<Rightarrow> Inl e
        | Inr sw \<Rightarrow> Inr \<lparr>k1 = nat \<lfloor>a\<rfloor>, k2 = nat \<lfloor>b\<rfloor>, r1Meters = c, r2Meters = d, waveOneTimeoutMs = \<lfloor>w\<rfloor>, hardFailMs = \<lfloor>h\<rfloor>,
            scheduledWindow = (\<lfloor>w_waveOneMs sw\<rfloor>, \<lfloor>w_hardFailMs sw\<rfloor>)\<rparr>)))))))"

section \<open>Event handlers\<close>

definition declineOffer :: "uuid \<Rightarrow> uuid \<Rightarrow> instant \<Rightarrow> db \<Rightarrow> decline_result \<times> db" where
  "declineOffer ofid d ct s = decline ofid d ct s"

definition onRideOfferResponse ::
  "uuid \<Rightarrow> uuid \<Rightarrow> bool \<Rightarrow> (nat \<Rightarrow> db_error option) \<Rightarrow> (nat \<Rightarrow> instant) \<Rightarrow> (nat \<Rightarrow> instant) \<Rightarrow> db
   \<Rightarrow> (db_error + (accept_result + decline_result) \<times> effect list) \<times> db" where
  "onRideOfferResponse ofid d accept abort now ct s =
     (if accept
      then map_prod (map_sum id (map_prod Inl id)) id (acceptOffer ofid d abort now ct s)
      else (case declineOffer ofid d (ct 0) s of (res, s') \<Rightarrow> (Inr (Inr res, []), s')))"

definition onRideCancelled :: "uuid \<Rightarrow> int option \<Rightarrow> db \<Rightarrow> effect list" where
  "onRideCancelled i g s = releaseDispatch s i g"

text \<open>The committed assignment for an outcome; the snapshot may be unreadable.\<close>

definition assignmentView :: "bool \<Rightarrow> uuid \<Rightarrow> uuid \<Rightarrow> db \<Rightarrow> assignment_view option" where
  "assignmentView fails d i s =
     (if fails then None
      else case driverAssignment s d of
          Some v \<Rightarrow> if tripId (view_trip v) = i then Some v else None
        | None \<Rightarrow> None)"

definition handleStopPickupConfirmed :: "uuid option \<Rightarrow> int option \<Rightarrow> socket \<Rightarrow> gateway_event list" where
  "handleStopPickupConfirmed rideId idx k = emitStopConfirm rideId idx Pickup k"

definition handleStopDropConfirmed :: "uuid option \<Rightarrow> int option \<Rightarrow> socket \<Rightarrow> gateway_event list" where
  "handleStopDropConfirmed rideId idx k = emitStopConfirm rideId idx Dropoff k"

section \<open>The web socket\<close>

text \<open>Both subscribers start over on every connect; following a ride mirrors \<open>subscribePool\<close>.\<close>

definition on_connect ::
  "version_gate \<times> subscriber \<Rightarrow> version_gate \<times> subscriber \<Rightarrow> (attempt option \<times> attempt option) \<times> (subscriber \<times> subscriber)" where
  "on_connect pool ride =
     (case (subscribe_now (fst pool) (snd pool), subscribe_now (fst ride) (snd ride)) of
        ((a, p), b, r) \<Rightarrow> ((a, b), p, r))"

definition subscribeRide :: "uuid \<Rightarrow> bool \<Rightarrow> version_gate \<Rightarrow> subscriber \<Rightarrow> attempt option \<times> version_gate \<times> subscriber" where
  "subscribeRide i online g b =
     (let g1 = gate_follow i g in
        if online then (case subscribe_now g1 b of (a, b1) \<Rightarrow> (a, g1, b1)) else (None, g1, b))"

text \<open>The client's own copy of the status ranks, on the texts it receives.\<close>

definition RIDE_STATUS_RANK :: "(string \<times> nat) list" where
  "RIDE_STATUS_RANK = [(''requested'', 1), (''dispatching'', 2), (''accepted'', 3), (''en_route'', 4), (''arrived'', 5), (''in_progress'', 6),
     (''completed'', 10), (''cancelled'', 10), (''no_driver'', 10), (''no_show'', 10)]"

definition web_rideStatusVersion :: "string \<Rightarrow> nat" where
  "web_rideStatusVersion st = (case map_of RIDE_STATUS_RANK st of Some n \<Rightarrow> n | None \<Rightarrow> 0)"

primrec status_text :: "ride_status \<Rightarrow> string" where
  "status_text Requested = ''requested''"
| "status_text Dispatching = ''dispatching''"
| "status_text Accepted = ''accepted''"
| "status_text En_route = ''en_route''"
| "status_text Arrived = ''arrived''"
| "status_text In_progress = ''in_progress''"
| "status_text Completed = ''completed''"
| "status_text Cancelled = ''cancelled''"
| "status_text No_driver = ''no_driver''"
| "status_text No_show = ''no_show''"

section \<open>Facts\<close>

text \<open>Client and server rank the statuses alike, so an event without a version is gated as its status's rank.\<close>

lemma ranks_agree: "web_rideStatusVersion (status_text st) = rideStatusVersion st"
  by (cases st) (simp_all add: web_rideStatusVersion_def RIDE_STATUS_RANK_def)

text \<open>Whatever the environment says, a service that starts has waves of at least one driver and timers in the future.\<close>

lemma whole_floor: "in_range whole x \<Longrightarrow> 1 \<le> \<lfloor>x\<rfloor> \<and> real_of_int \<lfloor>x\<rfloor> = x"
  by (auto simp: in_range_def floor_of_int elim!: Ints_cases)

lemma dispatchParams_bounds:
  assumes "dispatchParams config = Inr p"
  shows "1 \<le> k1 p \<and> 1 \<le> k2 p \<and> 1 \<le> r1Meters p \<and> 1 \<le> r2Meters p \<and> 1 \<le> waveOneTimeoutMs p \<and> 1 \<le> hardFailMs p
    \<and> 1 \<le> fst (scheduledWindow p) \<and> fst (scheduledWindow p) \<le> snd (scheduledWindow p)"
proof -
  have window: "1 \<le> \<lfloor>w_waveOneMs w\<rfloor> \<and> \<lfloor>w_waveOneMs w\<rfloor> \<le> \<lfloor>w_hardFailMs w\<rfloor>" if "scheduledWindowFromConfig config = Inr w" for w
    using that by (auto simp: scheduledWindowFromConfig_def in_range_def intro: floor_mono le_floor_iff [THEN iffD2] dest!: getNumber_in_range split: sum.splits)
  have one: "1 \<le> \<lfloor>x\<rfloor> \<and> 1 \<le> nat \<lfloor>x\<rfloor>" if "getNumber config key d whole = Inr x" for key d x
    using conjunct1 [OF whole_floor [OF getNumber_in_range [OF that]]] by linarith
  have pos: "1 \<le> x" if "getNumber config key d positive = Inr x" for key d x
    using getNumber_in_range [OF that] by (simp add: in_range_def)
  show ?thesis using assms
    by (auto simp: dispatchParams_def with_number_def dest: one pos window split: sum.splits)
qed

text \<open>After an accept, first or repeated, the trip is the driver's.\<close>

lemma replay_has_guard:
  assumes "acceptInTx ofid d t now ct s = Inr ((Inr r, revoked), s')" "ac_replay r"
  shows "ac_trip r = t \<and> (\<exists>g. findByTrip s t = Some g \<and> a_driverId g = d)"
proof -
  have "\<not> ac_replay q" if "claim_steps x d t now ct s = Inr ((Inr q, rv), u)" for x q rv u
    using that by (cases rule: claim_steps_cases) auto
  then show ?thesis using assms
    by (auto simp: acceptInTx_def rejected_def split: option.splits if_splits sum.splits)
qed

lemma accepted_trip_is_claimed:
  assumes "reach db_init db_step s" "acceptInTx ofid d t now ct s = Inr ((Inr r, revoked), s')"
    and "\<And>x. offer_row s ofid = Some x \<Longrightarrow> o_trip x = t"
  shows "reach db_init db_step s' \<and> ac_trip r = t \<and> trip_driver s' t = Some d"
proof -
  have s': "reach db_init db_step s'" by (rule reach_step [OF assms(1)]) (rule s_accept [OF assms(2,3)])
  have "core_ok s" using sys.reach_inv [OF assms(1)] by (simp add: sys_ok_def)
  from replay_has_guard [OF accept_replay [OF assms(2) this]] have g: "ac_trip r = t" "\<exists>g. findByTrip s' t = Some g \<and> a_driverId g = d"
    by simp_all
  then have "guard_of s' t = Some d" by (auto simp: guard_of_def findByTrip_def)
  then show ?thesis using s' g(1) guard_row(2) [OF s'] by simp
qed

text \<open>The outcome of an accept carries the committed assignment: read before anything else commits, the snapshot of
  the driver is the trip accepted.\<close>

lemma outcome_carries_assignment:
  assumes "reach db_init db_step s" "acceptInTx ofid d t now ct s = Inr ((Inr r, revoked), s')" "isUuid d"
    and "\<And>x. offer_row s ofid = Some x \<Longrightarrow> o_trip x = t"
  shows "\<exists>v. assignmentView False d (tripId (ac_trip r)) s' = Some v \<and> view_trip v = t"
proof -
  note a = accepted_trip_is_claimed [OF assms(1,2,4)]
  let ?k = "\<lparr>so_user = Some (d, RoleDriver), so_rooms = {}\<rparr>"
  have "handleDriverSync False ?k s' = Inr (d, driverAssignment s' d)" by (simp add: handleDriverSync_def socket_driver_def)
  from driver_sync_is_the_claim [OF conjunct1 [OF a] this assms(3)] a
  obtain v where "driverAssignment s' d = Some v" "view_trip v = t" by auto
  then show ?thesis using a by (simp add: assignmentView_def)
qed

text \<open>The gateway's acknowledgement is dispatch's answer.\<close>

lemma response_is_acknowledged:
  assumes "so_user k = Some (d, RoleDriver)" "isUuid ofid" "onRideOfferResponse ofid d acc abort now ct s = (Inr (res, eff), s')"
  shows "handleRideOfferResponse (Some ofid) (Some acc) k abort now ct s
    = (Inr (case res of Inl a \<Rightarrow> Accepted_ack a | Inr x \<Rightarrow> Declined_ack x, eff), s')"
proof (cases acc)
  case True
  then show ?thesis using assms
    by (cases "acceptOffer ofid d abort now ct s"; cases "fst (acceptOffer ofid d abort now ct s)")
      (auto simp: onRideOfferResponse_def handleRideOfferResponse_def socket_driver_def)
next
  case False
  then show ?thesis using assms
    by (auto simp: onRideOfferResponse_def handleRideOfferResponse_def socket_driver_def declineOffer_def split: prod.splits)
qed

text \<open>A reconnect asks again for both ids followed, in runs of their own: answers to earlier attempts are ignored.\<close>

lemma reconnect_resubscribes:
  assumes "vg_followed g = Some i" "vg_followed h = Some j" "\<not> sb_closed b" "\<not> sb_closed c"
  shows "\<exists>n m b' c'. on_connect (g, b) (h, c) = ((Some (1, n, i), Some (1, m, j)), b', c')
    \<and> (\<forall>a u. fst (snd a) \<le> sb_run b \<longrightarrow> on_ack a u g b' = b') \<and> (\<forall>a u. fst (snd a) \<le> sb_run c \<longrightarrow> on_ack a u h c' = c')"
  using assms by (simp add: on_connect_def subscribe_now_def try_subscribe_def on_ack_def Let_def split_beta)

end
