(* ===== verification/Spec2Isabelle.thy ===== *)
theory Spec2Isabelle
  imports Trip_Facts Matching Reconciler Session_Properties Realtime_Properties Edge_Properties Fare_Properties Relay_Loop
    Sign_In Address_Search Wiring
begin

text \<open>
  Verification library of the RCAB ride-hailing system: the API of apps/api (NestJS over Postgres, Redis and BullMQ)
  and the rider's web app of apps/web.

  \<^bold>\<open>The program.\<close> A rider gets a signed quote and books a solo, scheduled or shared ride. A booking commits the
  trip's row together with a work intent in the outbox; the relay turns intents into BullMQ jobs, and the workers
  offer the trip to drivers in waves, close pools when their time is up, wake scheduled rides and give up after the
  hard deadline. A driver accepts an offer; an exclusivity table lets one driver hold one trip and one trip have one
  driver. The driver moves a solo ride forward or confirms the stops of a pool in order; rider and driver may cancel
  and rate. Sockets carry versioned reports, Redis holds projections, and a reconciler repairs lost work.

  \<^bold>\<open>Shape of the model.\<close> Every Postgres table is a list of records, the database the record of the tables (\<open>Schema\<close>).
  A statement or transaction of a repository is a function of the database, \<open>('db, 'a) tx\<close> where it can throw
  (\<open>Prelude\<close>); constraint violations and thrown exceptions are values of \<open>db_error\<close>, HTTP refusals of \<open>http_error\<close>
  and \<open>api_error\<close>. Generated ids, both clocks (\<open>now\<close> of the process, \<open>ct\<close> and \<open>clk\<close> of the statement) and the rows
  other sessions have locked are arguments. Emits, queue calls and Redis commands that follow a commit are lists of
  effects. A service that runs several transactions takes \<open>gap n\<close>, what other sessions commit before the \<open>n\<close>-th one.
  \<open>System\<close> composes the transactions into one relation \<open>db_step\<close>, in any order and on any arguments; \<open>reach db_init
  db_step\<close> are the databases that can occur, and \<open>sys_ok\<close> is their invariant.

  \<^bold>\<open>Theories and the code they model\<close> (files under src/apps/api/src/modules unless they say otherwise).

  \<^item> Foundations: \<open>Prelude\<close> (tables, transactions, transition systems, the collections of rewrite rules), \<open>Schema\<close>
    (db/schema.ts and migrations), \<open>Env_Config\<close> (common/utils/env.ts), \<open>Job_Ids\<close> (outbox/outbox.types.ts, outbox.jobs.ts).
  \<^item> Outbox: \<open>Outbox\<close> (outbox.writer.ts, outbox.repository.ts), \<open>Outbox_Relay\<close> (the drain pass of outbox.relay.ts),
    \<open>Relay_Loop\<close> (when it runs: timers, kicks, the shared drain), \<open>Reconciler\<close> (dispatch-reconciler.service.ts).
  \<^item> Dispatch: \<open>Trips\<close> (the two trip tables as dispatch sees them), \<open>Assignments\<close> and \<open>Offers\<close> (the repositories),
    \<open>Dispatch\<close> (dispatch.service.ts, dispatch-start.service.ts, dispatch.processor.ts, tx-retry.ts), \<open>Dispatch_Spec\<close> (the
    abstract machine: who drives, what can be offered, which offers live), \<open>Dispatch_Facts\<close>, \<open>Acceptance\<close>.
  \<^item> Solo and scheduled rides: \<open>Rides\<close> (rides.repository.ts, ride-state-machine.service.ts), \<open>Scheduled\<close>, \<open>Ride_Lifecycle\<close>.
  \<^item> Pools: \<open>Pools\<close> (pool-membership.repository.ts, shared-ride.repository.ts, pool-lifecycle.service.ts), \<open>Itinerary\<close>,
    \<open>Ride_Stops\<close>, \<open>Stop_Confirmation\<close> (ride-lifecycle.service.ts), \<open>Pool_Facts\<close>, \<open>Pool_Frames\<close>.
  \<^item> The system: \<open>Evolution\<close> and \<open>Frames\<close> (what transactions may change), \<open>Intents\<close> (the outbox guarantee), \<open>System\<close>,
    \<open>Trip_Facts\<close>, and \<open>Scenario\<close>, two concrete runs from which the examples are taken.
  \<^item> Prices and matching: \<open>Geohash\<close>, \<open>Pricing\<close> (pricing.service.ts, money.ts), \<open>Route_Similarity\<close>, \<open>Matching\<close>.
  \<^item> Requests: \<open>Idempotency\<close>, \<open>Tokens\<close> (quote and access tokens, the guard), \<open>Rides_Controller\<close>, \<open>Booking_Facts\<close>,
    \<open>Booking_Properties\<close>, \<open>Http_Edge\<close> (exception filter, request id, what the client reads).
  \<^item> Accounts: \<open>Sessions\<close> (auth), \<open>Session_Facts\<close> (their abstract machine), \<open>Session_Histories\<close> (histories of labelled calls
    against histories of that machine), \<open>Session_Properties\<close>, \<open>Auth_Config\<close>, \<open>Fleet\<close> (drivers, vehicles), \<open>Ratings\<close>.
  \<^item> Realtime: \<open>Protocol\<close>, \<open>Realtime\<close> (gateway and snapshots), \<open>Bus\<close> (rooms), \<open>Projections\<close> (Redis hashes), \<open>Live_View\<close>
    (what versions buy), \<open>Realtime_Properties\<close>, \<open>Wiring\<close> (event handlers and settings).
  \<^item> Web app (src/apps/web/src): \<open>Web_Client\<close> (lib/booking/ws.ts, store.ts), \<open>Web_Auth\<close> (lib/auth/store.ts, lib/booking/api.ts,
    intent.ts), \<open>Sign_In\<close>, \<open>Book_Page\<close> (effects and callbacks of app/book/book-client.tsx), \<open>Book_View\<close> (what it shows and
    sends), \<open>Ride_Panel\<close>, \<open>Address_Search\<close>.
  \<^item> Operation: \<open>Migrations\<close> (migrate.ts).

  \<^bold>\<open>What is shown.\<close> The properties carry numbers, in the order of their importance.

  \<^item> Who drives (C1 to C5): exclusivity in every reachable database, refinement of the abstract dispatch machine, and the
    accept decision on every branch, with its replay.
  \<^item> How rows change (C6 to C12): histories of rides, pools and seats, the durable intent of a dispatchable trip, shapes,
    capacity and itineraries.
  \<^item> Work and recovery (C13, C14, C19, C20, C28, C35): stale jobs, waves, the reconciler, the relay.
  \<^item> Life of a trip (C15 to C17) and of a session (C21 to C24, C34).
  \<^item> Booking (C18, C25 to C27, C36, C38): the fare from the screen through the token to the row, idempotent replay, refusals.
  \<^item> What others see (C29 to C32, C37, C39): convergence of the client and of the projections, privacy of rooms and
    snapshots, the tracking panel. Ratings are C33, migrations C40.

  Interfaces are locales, interpreted on the model of their provider: \<open>transition_system\<close> (initial states, steps,
  invariant) for the abstract dispatch machine, the database, the outbox table, the relay loop, the rooms, the ratings
  and the web session; \<open>refined_system\<close>, its extension by an abstract machine, and \<open>history_refinement\<close>, where each
  labelled call is the machine's step with that label, for the sessions; \<open>claim_store\<close> (who may use an idempotency key) for the claim table; \<open>versioned\<close> (one version names one content) for pool reports, pool rows
  and ride reports.

  \<^bold>\<open>Outside the program.\<close> JwtService is the argument \<open>j\<close> under \<open>jwt_laws\<close>; OSRM, PostGIS distance, the geo search of
  Redis, the states BullMQ reports, SHA-256, Firebase, Google's verifier, the URL parser and the network are arguments
  without laws. \<open>plain_jwt\<close> is a concrete token library that satisfies the laws.

  \<^bold>\<open>Numbers, bounds and fuel.\<close> Times are milliseconds and unbounded integers, as are counters, which Postgres bounds far
  above any reachable value; coordinates, distances and factors are reals where the code has doubles, so statements
  on fares and scores hold up to rounding of the doubles. No definition uses fuel: the geohash loop is a
  \<open>while_option\<close> that is proved to return (C18), retries recurse on the attempts left, at most two more after the
  first, the nearest neighbour and the resampling of a polyline have a measure, and every other loop is structural.

  \<^bold>\<open>Not modelled.\<close> The driver app (Dart); layout, fixed texts and the Leaflet map of the web app; construction of the
  clients of Redis, Postgres and Firebase, dependency injection, health probes, metrics and logging; scripts, load tests
  and the code-graph generator; throttling, cookie attributes and the range checks of request bodies other than
  ratings. Of schema.ts, display columns and indexes without a constraint are left out. Isolation is that of the
  locks the code takes: statements of one transaction run on one state, and other sessions commit between
  transactions (\<open>gap\<close>), except where a lemma looks at a snapshot that misses a concurrent commit.
\<close>

section \<open>Who drives\<close>

text \<open>C1: In every reachable database a driver drives at most one active trip, solo or shared.\<close>

lemma driver_drives_one_trip:
  assumes "reach db_init db_step s" "trip_driver s t = Some d" "trip_driver s u = Some d"
  shows "t = u"
  using sys.reach_inv [OF assms(1)] guard_inj [of s t d u] assms(2,3) by (simp add: sys_ok_def core_ok_def)

lemma driver_drives_one_trip_witness: "{t. trip_driver w_accepted t = Some drv} = {Solo rid}"
proof -
  have "trip_driver w_accepted (Solo rid) = Some drv" by (simp add: w_solo bind_ride_def solo_driver_def)
  then show ?thesis using driver_drives_one_trip [OF w_reach_accepted, of "Solo rid" drv] by auto
qed

text \<open>The exclusivity table binds exactly the active trips to exactly their drivers.\<close>

lemma guard_is_the_trip_tables:
  assumes "reach db_init db_step s"
  shows "guard_of s = trip_driver s \<and> distinct (map a_driverId (assignments s)) \<and> distinct (map a_trip (assignments s))"
  using sys.reach_inv [OF assms] by (simp add: sys_ok_def core_ok_def guard_keys_def)

text \<open>C2: Every run of the backend, seen through the trip tables and the live offers, is a run of the
  abstract dispatch machine from its initial state, and ends in a state where that machine's promises
  hold.\<close>

lemma runs_refine_dispatch:
  assumes "db_init s" "db_step\<^sup>*\<^sup>* s s'"
  shows "spec_init (abs_dispatch s) \<and> spec_step\<^sup>*\<^sup>* (abs_dispatch s) (abs_dispatch s') \<and> spec_ok (abs_dispatch s')"
proof -
  have "trip_driver s t = None \<and> disp s t = None" for t using assms(1) by (cases t) (simp_all add: db_init_def)
  then have i: "spec_init (abs_dispatch s)" using assms(1) by (simp add: spec_init_def live_set_def db_init_def)
  have r: "spec_step\<^sup>*\<^sup>* (abs_dispatch s) (abs_dispatch s')"
    using run_good [OF assms(2) init_sys_ok [OF assms(1)]] by (simp add: good_step_def refines_def)
  show ?thesis using i r spec.run_inv [OF r spec.init_inv [OF i]] by blast
qed

lemma runs_refine_dispatch_witness:
  "spec_step\<^sup>*\<^sup>* (abs_dispatch w_start) (abs_dispatch w_offered) \<and> spec_ok (abs_dispatch w_offered)"
proof -
  have "db_step\<^sup>*\<^sup>* w_start w_offered"
    using s_create [OF w_create] s_offer [OF w_make_offer] by (meson rtranclp.simps w_uuids(3))
  then show ?thesis using runs_refine_dispatch [OF w_init] by blast
qed

text \<open>A live offer is for the trip's current generation, and a driver holds at most one.\<close>

lemma live_offers_are_current:
  assumes "reach db_init db_step s" "x \<in> set (offers s)" "is_live x"
  shows "disp s (o_trip x) = Some (o_generation x) \<and> (\<forall>y \<in> set (offers s). is_live y \<and> o_driverId y = o_driverId x \<longrightarrow> y = x)"
proof -
  have "offer_keys s" "live_current s" using sys.reach_inv [OF assms(1)] by (simp_all add: sys_ok_def core_ok_def)
  then show ?thesis using assms(2,3) by (auto simp: offer_keys_def live_current_def distinct_map inj_on_def)
qed

section \<open>The accept decision\<close>

text \<open>C3: In every reachable database the accept of a live, unexpired offer commits, and its answer is
  the driver's account, vehicle and guard alone: an ineligible driver is told so, a busy one is told
  so, every other driver gets the trip. In particular the itinerary of a pool is never missing.\<close>

lemma live_offer_is_answered:
  assumes "reach db_init db_step s" "offer_row s i = Some x" "isUuid i" "is_live x" "\<not> lapsed ct x"
    and "d = o_driverId x" "t = o_trip x"
  shows "\<exists>revoked s'. acceptInTx i d t now ct s =
    Inr ((case eligibility_failure (driverEligibility s d (seats_needed s t)) of
            Some r \<Rightarrow> Inl r
          | None \<Rightarrow> if d \<in> ran (guard_of s) then Inl DriverBusy
                    else Inr \<lparr>ac_trip = t, ac_generation = o_generation x, ac_replay = False\<rparr>, revoked), s')"
proof -
  have ok: "core_ok s" "accept_inv s" "pools_ok s" "live_current s"
    using sys.reach_inv [OF assms(1)] by (simp_all add: sys_ok_def accepts_ok_def core_ok_def)
  have "disp s t = Some (o_generation x)"
    using ok(4) row_SomeD [OF assms(2)] assms(4,7) by (simp add: live_current_def)
  then have "itinerary_complete s t" by (rule pools_itinerary_complete [OF ok(3)])
  then have "live_answer s d t (o_generation x) =
      (case eligibility_failure (driverEligibility s d (seats_needed s t)) of
         Some r \<Rightarrow> Inl r
       | None \<Rightarrow> if d \<in> ran (guard_of s) then Inl DriverBusy
                 else Inr \<lparr>ac_trip = t, ac_generation = o_generation x, ac_replay = False\<rparr>)"
    unfolding assms(7) by (simp add: live_answer_def)
  then show ?thesis
    using accept_live_answer [OF ok(1,2) assms(2-5), of now] unfolding assms(6,7) by (simp only:)
qed

lemma live_offer_is_answered_witness:
  "\<exists>revoked s'. acceptInTx oid drv (Solo rid) 5 5 w_offered
     = Inr ((Inr \<lparr>ac_trip = Solo rid, ac_generation = 1, ac_replay = False\<rparr>, revoked), s')"
proof -
  have "driverEligibility w_offered drv (seats_needed w_offered (Solo rid)) = EligibleOk" "drv \<notin> ran (guard_of w_offered)"
    by (simp_all add: accept_code seats_needed_def guard_of_def ran_def w_solo)
  moreover have "offer_row w_offered oid = Some w_offer" "is_live w_offer" "\<not> lapsed 5 w_offer" "drv = o_driverId w_offer"
      "Solo rid = o_trip w_offer" "o_generation w_offer = 1"
    by (simp_all add: w_solo lapsed_def)
  ultimately show ?thesis
    using live_offer_is_answered [OF w_reach_offered, of oid w_offer 5 drv "Solo rid" 5] by simp
qed

text \<open>C4: Accepting again, at any later time, answers the same trip and generation as a replay and
  writes nothing.\<close>

lemma accept_is_idempotent:
  assumes "reach db_init db_step s" "acceptInTx i d t now ct s = Inr ((Inr r, revoked), s')"
  shows "acceptInTx i d t now' ct' s' = Inr ((Inr (r\<lparr>ac_replay := True\<rparr>), []), s')"
  using accept_replay [OF assms(2)] sys.reach_inv [OF assms(1)] by (simp add: sys_ok_def)

lemma accept_is_idempotent_witness:
  "acceptInTx oid drv (Solo rid) 90000 90000 w_accepted
   = Inr ((Inr \<lparr>ac_trip = Solo rid, ac_generation = 1, ac_replay = True\<rparr>, []), w_accepted)"
  using accept_is_idempotent [OF w_reach_offered w_accept, of 90000 90000] by simp

text \<open>C5: A successful first accept binds the driver, takes the trip off dispatch, revokes every other
  live offer on it and leaves every other trip as it was.\<close>

lemma accept_takes_the_trip:
  assumes "reach db_init db_step s" "acceptInTx i d t now ct s = Inr ((Inr r, revoked), s')" "\<not> ac_replay r"
    and "\<And>x. offer_row s i = Some x \<Longrightarrow> o_trip x = t"
  shows "trip_driver s' = (trip_driver s)(t \<mapsto> d) \<and> disp s' = (disp s)(t := None)
    \<and> (\<forall>x \<in> set (offers s'). o_trip x = t \<longrightarrow> \<not> is_live x)"
proof -
  note eff = accept_effect [OF assms(2,3)]
  have ok: "sys_ok s" by (rule sys.reach_inv [OF assms(1)])
  have "sys_ok s'" using accept_good [OF assms(2,4) ok] by (simp add: good_step_def)
  moreover have v: "trip_driver s' = (trip_driver s)(t \<mapsto> d)" "disp s' = (disp s)(t := None)"
    using eff ok by (simp_all add: sys_ok_def core_ok_def)
  ultimately show ?thesis by (auto simp: sys_ok_def core_ok_def live_current_def)
qed

lemma accept_takes_the_trip_witness:
  "trip_driver w_claimed = (trip_driver w_pool_offered)(Shared rid \<mapsto> drv) \<and> disp w_claimed (Shared rid) = None"
proof -
  have "\<And>x. offer_row w_pool_offered oid = Some x \<Longrightarrow> o_trip x = Shared rid" by (simp add: w_shared)
  then show ?thesis using accept_takes_the_trip [OF w_reach_pool_offered w_claim] by simp
qed

text \<open>Once an offer is accepted it stays so and its trip is never offered again, in any later
  database: no second driver can be found for it.\<close>

lemma accepted_trip_never_redispatched:
  assumes "reach db_init db_step s" "x \<in> set (offers s)" "o_state x = OfferAccepted" "db_step\<^sup>*\<^sup>* s s'"
  shows "x \<in> set (offers s') \<and> disp s' (o_trip x) = None"
proof -
  have g: "good_step s s'" by (rule run_good [OF assms(4) sys.reach_inv [OF assms(1)]])
  then have "x \<in> set (offers s')" using accepted_stays [of s s' x] assms(2,3) by (simp add: good_step_def)
  then show ?thesis using g assms(3) by (simp add: good_step_def sys_ok_def accepts_ok_def accept_inv_def)
qed

section \<open>How rows change\<close>

text \<open>C6: Whatever the services do, a ride keeps its booking, fare and idempotency scope; its dispatch
  generation and its status version never go back; a terminal status and a driver once set are final.\<close>

lemma ride_history:
  assumes "reach db_init db_step s" "db_step\<^sup>*\<^sup>* s s'" "ride_row s i = Some r"
  shows "\<exists>r'. ride_row s' i = Some r' \<and> ride_booking r' = ride_booking r
    \<and> r_dispatchGeneration r \<le> r_dispatchGeneration r'
    \<and> rideStatusVersion (r_status r) \<le> rideStatusVersion (r_status r')
    \<and> (terminal_ride (r_status r) \<longrightarrow> r_status r' = r_status r)
    \<and> (r_driverId r \<noteq> None \<longrightarrow> r_driverId r' = r_driverId r)"
proof -
  have g: "good_step s s'" by (rule run_good [OF assms(2) sys.reach_inv [OF assms(1)]])
  then obtain r' where "ride_row s' i = Some r'" "ride_evolves r r'"
    using evolves_ride_row [OF _ _ assms(3)] by (auto simp: good_step_def sys_ok_def)
  then show ?thesis unfolding ride_evolves_def by blast
qed

lemma ride_history_witness:
  "\<exists>r'. ride_row w_accepted rid = Some r' \<and> ride_booking r' = ride_booking w_ride \<and> 1 \<le> r_dispatchGeneration r'"
proof -
  have "db_step\<^sup>*\<^sup>* w_created w_accepted"
    using s_offer [OF w_make_offer] s_accept [OF w_accept] by (rule_tac converse_rtranclp_into_rtranclp) (auto simp: w_solo)
  moreover have "ride_row w_created rid = Some w_ride" "r_dispatchGeneration w_ride = 1" by (simp_all add: w_solo)
  ultimately show ?thesis using ride_history [OF w_reach_created, of w_accepted rid w_ride] by auto
qed

text \<open>C7: A pool keeps its route and capacity; its version, seat count, generation and stage never go
  back; an aborted or completed pool stays so, the driver who claimed it stays its driver, and as long as the
  version stays the row stays.\<close>

lemma pool_history:
  assumes "reach db_init db_step s" "db_step\<^sup>*\<^sup>* s s'" "pool_row s i = Some p"
  shows "\<exists>p'. pool_row s' i = Some p' \<and> pool_route p' = pool_route p \<and> p_stateVersion p \<le> p_stateVersion p'
    \<and> p_seatCount p \<le> p_seatCount p' \<and> p_dispatchGeneration p \<le> p_dispatchGeneration p'
    \<and> pool_rank (p_poolState p) \<le> pool_rank (p_poolState p')
    \<and> (terminal_pool (p_poolState p) \<longrightarrow> p_poolState p' = p_poolState p)
    \<and> (p_claimedByDriverId p \<noteq> None \<longrightarrow> p_claimedByDriverId p' = p_claimedByDriverId p)
    \<and> (p_stateVersion p' = p_stateVersion p \<longrightarrow> p' = p)"
proof -
  have g: "good_step s s'" by (rule run_good [OF assms(2) sys.reach_inv [OF assms(1)]])
  then obtain p' where "pool_row s' i = Some p'" "pool_evolves p p'"
    using evolves_pool_row [OF _ _ assms(3)] by (auto simp: good_step_def sys_ok_def)
  then show ?thesis unfolding pool_evolves_def by blast
qed

lemma pool_history_witness:
  "\<exists>p'. pool_row w_started rid = Some p' \<and> p_claimedByDriverId p' = Some drv \<and> 3 \<le> p_stateVersion p'"
proof -
  have "db_step\<^sup>*\<^sup>* w_claimed w_started" using s_confirm [OF w_pickup] by (rule r_into_rtranclp)
  moreover have "pool_row w_claimed rid = Some w_claimed_pool" "p_claimedByDriverId w_claimed_pool = Some drv"
      "p_stateVersion w_claimed_pool = 3" by (simp_all add: w_shared)
  ultimately show ?thesis using pool_history [OF w_reach_claimed, of w_started rid w_claimed_pool] by auto
qed

text \<open>C8: A passenger's seat is fixed at join: route, agreed fare and key never change, and a released
  seat never becomes active again.\<close>

lemma seat_is_fixed_at_join:
  assumes "reach db_init db_step s" "db_step\<^sup>*\<^sup>* s s'" "m \<in> set (pool_members s)"
  shows "\<exists>m' \<in> set (pool_members s'). seat m' = seat m \<and> m_agreedFareCents m' = m_agreedFareCents m \<and> (m_active m' \<longrightarrow> m_active m)"
proof -
  have "evolves s s'" using run_good [OF assms(2) sys.reach_inv [OF assms(1)]] by (simp add: good_step_def)
  then obtain m' where "m' \<in> set (pool_members s')" "member_evolves m m'"
    using grows_mem [of member_evolves "pool_members s" "pool_members s'" m] assms(3) by (auto simp: evolves_def)
  then show ?thesis by (auto simp: member_evolves_def seat_def intro!: bexI [of _ m'])
qed

lemma seat_is_fixed_at_join_witness: "\<exists>m \<in> set (pool_members w_started). m_agreedFareCents m = Some 9000"
proof -
  have "db_step\<^sup>*\<^sup>* w_claimed w_started" using s_confirm [OF w_pickup] by (rule r_into_rtranclp)
  moreover have "w_member \<in> set (pool_members w_claimed)" "m_agreedFareCents w_member = Some 9000" by (simp_all add: w_shared)
  ultimately show ?thesis using seat_is_fixed_at_join [OF w_reach_claimed, of w_started w_member] by auto
qed

text \<open>C9: A trip that can be dispatched always has its durable intent: the dispatch request of its
  generation, or a scheduled ride's wake-up.\<close>

lemma dispatchable_trip_has_intent:
  assumes "reach db_init db_step s" "disp s t = Some g"
  shows "intended (outbox s) t g"
  using sys.reach_inv [OF assms(1)] assms(2) by (simp add: sys_ok_def intents_ok_def)

lemma dispatchable_trip_has_intent_witness: "intended (outbox w_created) (Solo rid) 1 \<and> intended (outbox w_closed) (Shared rid) 1"
  using dispatchable_trip_has_intent [OF w_reach_created, of "Solo rid" 1]
    dispatchable_trip_has_intent [OF w_reach_closed, of "Shared rid" 1]
  by (simp add: w_solo solo_disp_def del: intended.simps) (simp add: w_shared pool_disp_def del: intended.simps)

text \<open>C10: Every reachable ride is well formed: never \<open>dispatching\<close>, a driver exactly from acceptance on,
  a scheduled time for a scheduled ride, and the timestamp of every stage it went through.\<close>

lemma reachable_rides_well_formed:
  assumes "reach db_init db_step s" "r \<in> set (rides s)"
  shows "ride_shape r \<and> r_status r \<noteq> Dispatching"
proof -
  have shape: "ride_shape r" using sys.reach_inv [OF assms(1)] assms(2) by (simp add: sys_ok_def rides_ok_def)
  moreover have "r_status r \<noteq> Dispatching" using shape by (simp add: ride_shape_def)
  ultimately show ?thesis ..
qed

lemma reachable_rides_well_formed_witness: "ride_shape (bind_ride drv 1 5 w_ride)"
  using reachable_rides_well_formed [OF w_reach_accepted, of "bind_ride drv 1 5 w_ride"] by (simp add: w_accepted_def)

text \<open>C11: A pool never holds more seats than its capacity: the seat count is the number of its members
  and at most \<open>max_seats\<close>; no passenger is active in two pools.\<close>

lemma pool_capacity:
  assumes "reach db_init db_step s" "pool_row s i = Some p"
  shows "p_seatCount p = int (length (members_of s i)) \<and> p_seatCount p \<le> p_maxSeats p
    \<and> distinct (map m_passengerId (filter m_active (pool_members s)))"
proof -
  have ok: "pools_ok s" using sys.reach_inv [OF assms(1)] by (simp add: sys_ok_def)
  show ?thesis using pools_ok_row [OF ok assms(2)] ok by (simp add: pool_shape_def pools_ok_def members_ok_def)
qed

lemma pool_capacity_witness: "length (members_of w_claimed rid) = 1 \<and> p_seatCount w_claimed_pool \<le> 3"
  using pool_capacity [OF w_reach_claimed, of rid w_claimed_pool] by (simp add: w_shared)

text \<open>C12: Once a pool is closed for dispatch its stored itinerary has, in sequence order from 0, one
  pickup for every member and then one dropoff for every member.\<close>

lemma closed_pool_itinerary:
  assumes "reach db_init db_step s" "pool_row s i = Some p" "p_poolState p \<notin> {PoolOpen, PoolAborted}"
  shows "members_of s i \<noteq> [] \<and> itinerary_shape (members_of s i) (findByRideId s i)"
proof -
  have ok: "pools_ok s" using sys.reach_inv [OF assms(1)] by (simp add: sys_ok_def)
  show ?thesis using pools_ok_row [OF ok assms(2)] assms(3) by (simp add: pool_shape_def split: if_splits)
qed

lemma closed_pool_itinerary_witness: "itinerary_shape [w_member] w_stops"
proof -
  have "pool_row w_closed rid = Some w_closed_pool" "p_poolState w_closed_pool = ClosedTimeout" by (simp_all add: w_shared)
  moreover have "members_of w_closed rid = [w_member]" "findByRideId w_closed rid = w_stops"
    by (simp_all add: members_of_def findByRideId_def w_shared)
  ultimately show ?thesis using closed_pool_itinerary [OF w_reach_closed, of rid w_closed_pool] by simp
qed

section \<open>Jobs and waves\<close>

text \<open>C13: A dispatch job that names another generation than the trip's current one, or a trip that can
  no longer be dispatched, changes nothing and emits nothing: late, duplicate and superseded jobs are
  harmless.\<close>

lemma stale_job_is_ignored:
  assumes "reach db_init db_step s" "disp s (trip_of k i) \<noteq> Some g"
    and "j \<in> {StartData k i g, Wave2Data k i g, HardFailData k i g}"
  shows "process_job c e x now ct j s = ((None, []), s)"
  using sys.reach_inv [OF assms(1)] assms(2,3) stale_start stale_wave stale_hardfail by (auto simp: sys_ok_def)

lemma stale_job_is_ignored_witness:
  "\<forall>c e. process_job c e xid 9 9 (HardFailData KindSolo rid 1) w_accepted = ((None, []), w_accepted)"
  by (intro allI stale_job_is_ignored [OF w_reach_accepted])
    (simp_all add: trip_of_def w_solo bind_ride_def solo_disp_def)

text \<open>C14: A solo wave offers the ride to at most the wave's \<open>k\<close> drivers, each once, each eligible with a
  free guard row, and none that already had an offer of this generation.\<close>

lemma solo_wave_is_bounded:
  "let ds = concat (map offered_to (snd (fst (runSoloWave c e r w g s))))
   in length ds \<le> fst (waveParams c w) \<and> distinct ds
    \<and> list_all (\<lambda>d. candidate_ok s 1 (e_ct e) d \<and> d \<notin> set (offeredDriverIds s (Solo (r_id r)) g)) ds"
proof (cases "g < 1")
  case True
  then show ?thesis by (simp add: runSoloWave_def)
next
  case False
  obtain k radius where wp: "waveParams c w = (k, radius)" by force
  let ?cs = "selectCandidates e s (Solo (r_id r)) g (r_originLat r) (r_originLng r) k radius 1"
  let ?ts = "if w = 1 then scheduleTimers c e (r_id r) KindSolo g (r_type r = Scheduled) else (None, [])"
  let ?ds = "concat (map offered_to (snd (fst (runSoloWave c e r w g s))))"
  obtain bs where bs: "length bs = length ?cs"
    "concat (map offered_to (snd (fst (offer_loop e (Solo (r_id r)) g w ?cs s)))) = map fst (filter snd (zip ?cs bs))"
    using offer_loop_sends by blast
  have "concat (map offered_to (snd ?ts)) = []"
    using scheduleTimers_no_offers by (auto simp del: concat_eq_Nil_conv)
  from with_timers_offers [OF this] have eq: "?ds = map fst (filter snd (zip ?cs bs))"
    using False bs(2) by (simp add: runSoloWave_def wp)
  have "length ?ds \<le> length ?cs" "set ?ds \<subseteq> set ?cs" "distinct ?ds"
    unfolding eq using selectCandidates_props(2) length_filter_le [of snd "zip ?cs bs"] bs(1)
    by (auto simp: distinct_map_fst_zip_filter dest: set_zip_leftD)
  then show ?thesis
    using selectCandidates_props(1) [of e s "Solo (r_id r)" g "r_originLat r" "r_originLng r" k radius 1]
      selectCandidates_props(3) [of _ e s "Solo (r_id r)" g "r_originLat r" "r_originLng r" k radius 1]
    unfolding Let_def list_all_iff wp fst_conv by (meson dual_order.trans subsetD)
qed

section \<open>Retries\<close>

text \<open>When every attempt of an accept dies of a deadlock or serialization failure, the driver is told
  to try again and nothing is written or emitted.\<close>

lemma accept_conflict_changes_nothing:
  assumes "findForDriver s i d = Some x" "\<And>n. n \<le> 2 \<Longrightarrow> \<exists>e. abort n = Some e \<and> isRetryableTxError e"
  shows "acceptOffer i d abort now ct s = (Inr (Inl Conflict, []), s)"
proof -
  have "isUuid i \<and> isUuid d" using assms(1) by (simp add: findForDriver_def split: if_splits)
  moreover have "withTxRetry (\<lambda>n s. case abort n of Some e \<Rightarrow> (Inl e, s) | None \<Rightarrow> transaction (acceptInTx i d (o_trip x) (now n) (ct n)) s)
      (rejected Conflict) 2 s = (Inr (rejected Conflict), s)"
    unfolding withTxRetry_def
  proof (rule retry_from_exhausted)
    show "\<exists>e. isRetryableTxError e \<and> (case abort m of Some e \<Rightarrow> (Inl e, s)
        | None \<Rightarrow> transaction (acceptInTx i d (o_trip x) (now m) (ct m)) s) = (Inl e, s)" if "m \<le> 0 + 2" for m
      using assms(2) [of m] that by force
  qed
  ultimately show ?thesis using assms(1) by (simp add: acceptOffer_def rejected_def)
qed

text \<open>An accept that survives at most two aborted attempts answers exactly as its one committed
  attempt, with that attempt's clock.\<close>

lemma accept_retry_is_transparent:
  assumes "findForDriver s i d = Some x" "j \<le> 2" "abort j = None"
    and "\<And>n. n < j \<Longrightarrow> \<exists>e. abort n = Some e \<and> isRetryableTxError e"
    and "acceptInTx i d (o_trip x) (now j) (ct j) s = Inr ((Inr r, revoked), s')"
  shows "acceptOffer i d abort now ct s = (Inr (Inr r, afterAccepted d i r revoked), s')"
proof -
  have "isUuid i \<and> isUuid d" using assms(1) by (simp add: findForDriver_def split: if_splits)
  moreover have "withTxRetry (\<lambda>n s. case abort n of Some e \<Rightarrow> (Inl e, s) | None \<Rightarrow> transaction (acceptInTx i d (o_trip x) (now n) (ct n)) s)
      (rejected Conflict) 2 s = (Inr (Inr r, revoked), s')"
    unfolding withTxRetry_def
  proof (rule retry_from_first [OF assms(2)])
    show "\<exists>e. isRetryableTxError e \<and> (case abort m of Some e \<Rightarrow> (Inl e, s)
        | None \<Rightarrow> transaction (acceptInTx i d (o_trip x) (now m) (ct m)) s) = (Inl e, s)" if "m < 0 + j" for m
      using assms(4) [of m] that by force
    show "(case abort (0 + j) of Some e \<Rightarrow> (Inl e, s)
        | None \<Rightarrow> transaction (acceptInTx i d (o_trip x) (now (0 + j)) (ct (0 + j))) s) = (Inr (Inr r, revoked), s')"
      using assms(3,5) by (simp add: transaction_commit)
  qed
  ultimately show ?thesis using assms(1) by (simp add: acceptOffer_def)
qed

section \<open>The life of a solo ride\<close>

text \<open>C15: A cancellation that succeeds ends the trip: the stored row is \<open>cancelled\<close> or \<open>no_show\<close>, the driver's
  exclusivity row is gone, no live offer for the ride is left, and every other trip is as it was.\<close>

lemma cancel_ends_the_trip:
  assumes "reach db_init db_step s" "cancel i who actorId isNoShow reason wait clk ct s = (Inr (r', revoked), s')"
  shows "ride_row s' i = Some r' \<and> r_status r' \<in> {Cancelled, No_show}
    \<and> guard_of s' = (guard_of s)(Solo i := None) \<and> disp s' = (disp s)(Solo i := None)
    \<and> (\<forall>x \<in> set (offers s'). o_trip x = Solo i \<longrightarrow> \<not> is_live x)"
proof -
  have ok: "core_ok s" "rides_ok s" using sys.reach_inv [OF assms(1)] by (simp_all add: sys_ok_def)
  have "core_ok s'" using cancel_ok [OF assms(2) ok] by (simp add: refines_def)
  then show ?thesis
    using cancel_effect [OF assms(2)] ok(1) by (auto simp: core_ok_def live_current_def)
qed

lemma cancel_ends_the_trip_witness: "guard_of (snd (cancel rid ActorClient pas False None 300000 9 9 w_accepted)) (Solo rid) = None"
proof -
  obtain x revoked s' where "cancel rid ActorClient pas False None 300000 9 9 w_accepted = (Inr (x, revoked), s')"
    by (simp add: cancel_def cancel_target_def CLIENT_CANCELLABLE_def revokeLiveForTrip_def w_solo bind_ride_def)
  from cancel_ends_the_trip [OF w_reach_accepted this] this show ?thesis by simp
qed

text \<open>A driver's no-show report on a ride succeeds exactly when it is that driver's, he has arrived, and
  the configured wait has passed since the arrival; otherwise nothing changes.\<close>

lemma no_show_needs_the_wait:
  assumes "reach db_init db_step s" "ride_row s i = Some r"
  shows "case cancel i ActorDriver d True reason wait clk ct s of
      (Inr (r', revoked), s') \<Rightarrow> r_driverId r = Some d \<and> r_status r = Arrived \<and> wait \<le> clk - the (r_arrivedAt r)
        \<and> r_status r' = No_show
    | (Inl e, s') \<Rightarrow> \<not> (r_driverId r = Some d \<and> r_status r = Arrived \<and> wait \<le> clk - the (r_arrivedAt r)) \<and> s' = s"
proof -
  have "ride_shape r" using rides_ok_row [OF _ assms(2)] sys.reach_inv [OF assms(1)] by (simp add: sys_ok_def)
  note a = arrived_at [OF this]
  show ?thesis
    using assms(2) a by (auto simp: cancel_def cancel_target_def Let_def split_beta split: if_splits)
qed

text \<open>A driver event moves the ride exactly one stage along accepted, en route, arrived, in progress,
  completed, for its own driver only; the last stage, and no other, frees the driver and clears his
  current ride.\<close>

lemma event_moves_one_stage:
  assumes "reach db_init db_step s" "applyEvent i d ev clk s = ((Inr r', eff), s')"
  shows "trip_driver s (Solo i) = Some d \<and> ride_row s' i = Some r'
    \<and> (map_option r_status (ride_row s i), r_status r') \<in>
        {(Some Accepted, En_route), (Some En_route, Arrived), (Some Arrived, In_progress), (Some In_progress, Completed)}
    \<and> guard_of s' = (guard_of s)(Solo i := if r_status r' = Completed then None else Some d)
    \<and> (ClearCurrentRide d i \<in> set eff \<longleftrightarrow> r_status r' = Completed)"
proof -
  have ok: "core_ok s" "rides_ok s" using sys.reach_inv [OF assms(1)] by (simp_all add: sys_ok_def)
  have "refines s (snd (applyEvent i d ev clk s))" using applyEvent_ok [OF ok] by blast
  then have ok': "core_ok s'" by (simp add: assms(2) refines_def)
  from assms(2) obtain r b where e: "ride_row s i = Some r" "r_driverId r = Some d" "transition_spec ev = Some (r_status r, b)"
    "r' = advance_ride b clk r" "ride_row s' i = Some r'" "shared_rides s' = shared_rides s"
    "rides s' = upd (\<lambda>r. r_id r = i) (advance_ride b clk) (rides s)"
    "eff = RideStateChanged i b ActorDriver # (if b = Completed then [ClearCurrentRide d i] else [])"
    by (rule event_effect)
  note st = event_stage [OF e(3)] transition_specD [OF e(3)]
  have "trip_driver s' = (trip_driver s)(Solo i := if b = Completed then None else Some d)"
    using trip_driver_ride [OF e(7,6) _ _ e(1)] row_key [OF e(1)] st(1) e(2) by (auto simp: solo_driver_def)
  then show ?thesis
    using e st ok(1) ok' by (auto simp: core_ok_def solo_driver_def)
qed

text \<open>Creation is idempotent for ever: any later create under the same passenger, operation and key,
  whatever else it asks for, returns the ride that the first one made with its stored fingerprint, and
  writes nothing.\<close>

lemma create_is_idempotent:
  assumes "reach db_init db_step s" "create p i x now s = Inr ((r, new, fp), s1)" "db_step\<^sup>*\<^sup>* s1 s2" "isUuid i"
    and "cp_passengerId q = cp_passengerId p" "cp_operation q = cp_operation p" "cp_idempotencyKey q = cp_idempotencyKey p"
  shows "\<exists>r'. create q i' x' now' s2 = Inr ((r', False, fp), s2) \<and> ride_booking r' = ride_booking r"
proof -
  obtain res where "create_tx p i x now s = Inr (res, s1)"
    using assms(2) by (auto simp: create_def split: sum.splits option.splits)
  then have "reach db_init db_step s1" using assms(1,4) by (intro run_step [OF assms(1)] s_create)
  then have g: "good_step s1 s2" by (intro run_good [OF assms(3)] sys.reach_inv)
  note c = create_scope [OF assms(2)]
  from g c obtain r' where r': "r' \<in> set (rides s2)" "ride_evolves r r'"
    using grows_mem [of ride_evolves "rides s1" "rides s2" r] by (auto simp: good_step_def evolves_def)
  then have b: "ride_booking r' = ride_booking r" by (simp add: ride_evolves_def)
  then have "in_scope (cp_passengerId q) (cp_operation q) (cp_idempotencyKey q) r'" "r_requestFingerprint r' = fp"
    using c assms(5-7) by (simp_all add: ride_booking_def in_scope_def scope_of_def)
  moreover have "rides_ok s2" using g by (simp add: good_step_def sys_ok_def)
  ultimately show ?thesis using create_again [OF _ r'(1), of q i' x' now'] c assms(6) b by auto
qed

section \<open>Driving a pool\<close>

text \<open>C16: The claiming driver can always confirm the front stop of the itinerary: the call commits, stamps
  that stop and no other, and reports the ride completed exactly when it was the last one.\<close>

lemma front_stop_confirms:
  assumes "reach db_init db_step s" "pool_row s i = Some p" "p_claimedByDriverId p = Some d"
    and "k = confirmed_count (findByRideId s i)" "k < length (findByRideId s i)"
  shows "\<exists>c s'. confirm_tx i d (int k) (s_type (findByRideId s i ! k)) now s = Inr (Inr c, s')
    \<and> \<not> cf_duplicate c \<and> cf_rideCompleted c = (Suc k = length (findByRideId s i))
    \<and> findByRideId s' i = (findByRideId s i)[k := stamp now (findByRideId s i ! k)]"
proof -
  have "pools_ok s" using sys.reach_inv [OF assms(1)] by (simp add: sys_ok_def)
  from front_confirm [OF this assms(2-5), of now] show ?thesis by metis
qed

lemma front_stop_confirms_witness:
  "\<exists>c s'. confirm_tx rid drv 0 Pickup 60010 w_claimed = Inr (Inr c, s') \<and> \<not> cf_duplicate c \<and> \<not> cf_rideCompleted c"
proof -
  have "findByRideId w_claimed rid = w_stops" by (simp add: findByRideId_def w_shared)
  moreover have "confirmed_count w_stops = 0" "length w_stops = 2" "s_type (w_stops ! 0) = Pickup"
    by (simp_all add: confirmed_count_def w_stops_def)
  moreover have "pool_row w_claimed rid = Some w_claimed_pool" "p_claimedByDriverId w_claimed_pool = Some drv"
    by (simp_all add: w_shared)
  ultimately show ?thesis
    using front_stop_confirms [OF w_reach_claimed, of rid w_claimed_pool drv 0 60010] by auto
qed

text \<open>C17: The confirmation of the front stop completes the pool exactly when it is the last stop of the itinerary:
  then the driver's exclusivity is taken away and every passenger's seat is released. Any earlier one leaves the pool
  started, the driver bound and every seat as it was.\<close>

lemma last_stop_ends_the_pool:
  assumes "reach db_init db_step s" "pool_row s i = Some p" "p_claimedByDriverId p = Some d"
    and "k = confirmed_count (findByRideId s i)" "k < length (findByRideId s i)"
  shows "\<exists>c s'. confirm_tx i d (int k) (s_type (findByRideId s i ! k)) now s = Inr (Inr c, s')
    \<and> cf_rideCompleted c = (Suc k = length (findByRideId s i))
    \<and> (if Suc k = length (findByRideId s i)
       then guard_of s' = (guard_of s)(Shared i := None)
         \<and> map_option p_poolState (pool_row s' i) = Some PoolCompleted
         \<and> (\<forall>m \<in> set (members_of s' i). \<not> m_active m)
       else guard_of s' = (guard_of s)(Shared i := Some d)
         \<and> map_option p_poolState (pool_row s' i) = Some ClosedStarted
         \<and> pool_members s' = pool_members s)"
proof -
  have ok: "core_ok s" "pools_ok s" using sys.reach_inv [OF assms(1)] by (simp_all add: sys_ok_def)
  obtain c s' where e: "confirm_tx i d (int k) (s_type (findByRideId s i ! k)) now s = Inr (Inr c, s')"
    "cf_rideCompleted c = (Suc k = length (findByRideId s i))"
    "pool_row s' i = Some (confirm_row k (length (findByRideId s i)) now p)"
    "pool_members s' = upd (\<lambda>m. Suc k = length (findByRideId s i) \<and> m_active m \<and> m_poolId m = i) (leave now) (pool_members s)"
    "trip_driver s' = (trip_driver s)(Shared i := (if Suc k = length (findByRideId s i) then None else Some d))"
    by (rule front_confirm [OF ok(2) assms(2-5), of now])
  have "core_ok s'" using confirm_tx_ok [OF e(1) ok] by (simp add: refines_def)
  then have g: "guard_of s' = trip_driver s'" "guard_of s = trip_driver s" using ok(1) by (simp_all add: core_ok_def)
  have "k \<noteq> 0 \<Longrightarrow> p_poolState p = ClosedStarted" using claimed_shape(5,6) [OF ok(2) assms(2,3)] assms(4,5) by auto
  then have row: "Suc k = length (findByRideId s i) \<Longrightarrow> map_option p_poolState (pool_row s' i) = Some PoolCompleted"
    "Suc k \<noteq> length (findByRideId s i) \<Longrightarrow> map_option p_poolState (pool_row s' i) = Some ClosedStarted"
    by (simp_all add: e(3))
  have "\<forall>m \<in> set (members_of s' i). \<not> m_active m" if "Suc k = length (findByRideId s i)"
    using left_members e(4) that by (fastforce simp: members_of_def)
  moreover have "pool_members s' = pool_members s" if "Suc k \<noteq> length (findByRideId s i)"
    using e(4) that by (simp add: upd_def)
  ultimately show ?thesis
    using e(1,2) row by (intro exI [of _ c] exI [of _ s']) (simp add: g e(5))
qed

text \<open>The pool of two stops: its pickup keeps the driver, its dropoff ends it.\<close>

lemma last_stop_ends_the_pool_witness:
  "guard_of w_started (Shared rid) = Some drv
   \<and> (\<exists>c s'. confirm_tx rid drv 1 Dropoff 60020 w_started = Inr (Inr c, s') \<and> cf_rideCompleted c
        \<and> guard_of s' (Shared rid) = None \<and> map_option p_poolState (pool_row s' rid) = Some PoolCompleted)"
proof -
  have s: "findByRideId w_claimed rid = w_stops" by (simp add: findByRideId_def w_shared)
  have c: "confirmed_count w_stops = 0" "length w_stops = 2" "s_type (w_stops ! 0) = Pickup"
    by (simp_all add: confirmed_count_def w_stops_def)
  have p: "pool_row w_claimed rid = Some w_claimed_pool" "p_claimedByDriverId w_claimed_pool = Some drv"
    by (simp_all add: w_shared)
  obtain q where q: "pool_row w_started rid = Some q" "p_claimedByDriverId q = Some drv" by (simp add: w_shared)
  have t: "confirmed_count (findByRideId w_started rid) = 1" "length (findByRideId w_started rid) = 2"
    "s_type (findByRideId w_started rid ! 1) = Dropoff"
    by (simp_all add: findByRideId_def confirmed_count_def w_shared)
  show ?thesis
    using last_stop_ends_the_pool [OF w_reach_claimed p, of 0 60010] s c w_pickup
      last_stop_ends_the_pool [OF w_reach_started q, of 1 60020] t by auto
qed

text \<open>A stop behind the front is refused as out of order and nothing changes; a stop that is already
  confirmed answers as a duplicate with its first time, and nothing changes.\<close>

lemma other_stops_change_nothing:
  assumes "reach db_init db_step s" "pool_row s i = Some p" "p_claimedByDriverId p = Some d"
    and "j < length (findByRideId s i)" "j \<noteq> confirmed_count (findByRideId s i)"
  shows "\<exists>res. confirm_tx i d (int j) (s_type (findByRideId s i ! j)) now s = Inr (res, s)
    \<and> (case res of Inl e \<Rightarrow> e = StopOutOfOrder \<and> confirmed_count (findByRideId s i) < j
        | Inr c \<Rightarrow> j < confirmed_count (findByRideId s i) \<and> cf_duplicate c \<and> cf_stop c = findByRideId s i ! j
            \<and> s_confirmedAt (cf_stop c) \<noteq> None)"
proof -
  have ok: "pools_ok s" using sys.reach_inv [OF assms(1)] by (simp add: sys_ok_def)
  note sh = claimed_shape [OF ok assms(2,3)]
  show ?thesis
    using confirm_decision [OF ok assms(2-4), of now] assms(5) in_order_nth [OF sh(2) assms(4)] by auto
qed

section \<open>Itineraries\<close>

text \<open>The itinerary does not depend on the order in which the members are listed.\<close>

lemma itinerary_ignores_member_order:
  assumes "mset ms = mset ns" "distinct (map mb_passengerId ms)"
  shows "computeStops lat lng ms = computeStops lat lng ns"
  unfolding computeStops_def by (rule computeStops_permute [OF assms])

text \<open>Every member of the pool gets one pickup and one dropoff, all pickups come first, and the stops
  are numbered from 0 without a gap.\<close>

lemma itinerary_serves_everyone:
  "map os_sequenceIndex (computeStops lat lng ms) = map int [0..<2 * length ms]
   \<and> map os_type (computeStops lat lng ms) = replicate (length ms) Pickup @ replicate (length ms) Dropoff
   \<and> mset (map os_passengerId (take (length ms) (computeStops lat lng ms))) = mset (map mb_passengerId ms)
   \<and> mset (map os_passengerId (drop (length ms) (computeStops lat lng ms))) = mset (map mb_passengerId ms)"
  unfolding computeStops_def
  by (simp only: stops_sequence stops_types stops_passengers [unfolded mset_map] mset_map simp_thms)

text \<open>The dropoff chosen next is the nearest to the current position among the members still aboard.\<close>

lemma next_dropoff_is_nearest:
  assumes "ms \<noteq> []" "nearest_neighbour dst lat lng ms = m # rest"
  shows "m \<in> set ms \<and> mset (m # rest) = mset ms
    \<and> list_all (\<lambda>x. dst lat lng (mb_destLat m) (mb_destLng m) \<le> dst lat lng (mb_destLat x) (mb_destLng x)) ms"
proof -
  let ?i = "nearest_index dst lat lng ms"
  have m: "m = ms ! ?i" using assms by (cases ms) (simp_all add: nearest_neighbour.simps Let_def)
  have "m \<in> set ms" unfolding m by (rule nth_mem [OF nearest_index_less [OF assms(1)]])
  moreover have "mset (m # rest) = mset ms" using mset_nearest_neighbour [of dst lat lng ms] assms(2) by simp
  ultimately show ?thesis using nearest_index_min [of _ ms dst lat lng] unfolding m list_all_iff by blast
qed

section \<open>Matching\<close>

text \<open>Every seat that matching returns, joined or opened, is stored in the pool it names, active, for
  the passenger who asked, under the request's key, at exactly the fare that was quoted for it.\<close>

lemma match_seats_at_the_quote:
  assumes "findOrCreatePool score mc near r t i tmo quote ik env other s = (Inr (MatchSeat out, eff), s')"
  shows "holds_seat s' (so_sharedRideId out) (rq_passengerId r) (sq_perSeatPrice (so_quote out)) (seat_key ik)
    \<and> (\<exists>ctx. quote ctx = Inr (so_quote out) \<and> fc_passengerId ctx = rq_passengerId r)"
  using assms
proof (cases rule: match_cases)
  case (join pool c x now clk s1)
  from join(5) show ?thesis by (rule join_tx_seat) (auto simp: join(1) slotted_def joiner_of_def)
next
  case (opened c o_p x now clk s1)
  from opened(5) opened(4) [symmetric] show ?thesis
    by (rule open_tx_seat) (auto simp: opened(1,2) joiner_of_def)
qed

definition w_request :: shared_request where
  "w_request = \<lparr>rq_passengerId = pas, rq_originLat = 12, rq_originLng = 77, rq_destLat = 13, rq_destLng = 77\<rparr>"

definition w_env :: tx_env where
  "w_env = \<lparr>te_xid = xid, te_abort = \<lambda>_. None, te_now = \<lambda>_. 0, te_clk = \<lambda>_. 0, te_reread = \<lambda>_ _. None\<rparr>"

lemma w_match:
  "\<exists>out eff. findOrCreatePool (\<lambda>_ _. Inr 1) \<lparr>mc_similarityThreshold = 7 / 10, mc_detourBudgetM = 800, mc_maxSeats = 3\<rparr>
     (\<lambda>_. True) w_request 0 rid 60000 (\<lambda>_. Inr w_quote) None (\<lambda>_. w_env) (\<lambda>_ s. s) w_start
   = (Inr (MatchSeat out, eff), w_open) \<and> so_sharedRideId out = rid \<and> so_quote out = w_quote"
proof -
  have "joiner_of w_request 0 = w_seat" by (simp add: joiner_of_def w_request_def w_seat_def)
  moreover have "findCandidates (\<lambda>_. True) w_start = []" by (simp add: findCandidates_def w_start_def)
  moreover have "as_integer 3 = Some 3" "as_integer 800 = Some 800" by (simp_all add: as_integer_def)
  moreover have "\<lparr>op_maxSeats = 3, op_detourBudgetM = 800, op_opener = w_seat\<rparr> = w_open_params" by (simp add: w_open_params_def)
  ultimately show ?thesis
    by (simp add: findOrCreatePool_def rank_def open_new_def openPool_def inTx_def retry_from.simps w_env_def
        transaction_def w_open_pool)
qed

text \<open>A joined pool was a candidate: open, with a free seat, similar enough, and both its ends within
  the pool's own detour budget; and under its row lock it still was open with a free seat.\<close>

lemma joined_pool_was_suitable:
  assumes "findOrCreatePool score mc near r t i tmo quote ik env other s = (Inr (MatchSeat out, eff), s')"
    and "so_mode out = SeatSlotted"
  shows "\<exists>pool \<in> set (findCandidates near s). p_rideId pool = so_sharedRideId out \<and> within_budget r pool
    \<and> (\<exists>x. score (request_route r) (pool_spec pool) = Inr x \<and> mc_similarityThreshold mc \<le> x)
    \<and> (\<exists>s1 p. pool_row s1 (p_rideId pool) = Some p \<and> p_poolState p = PoolOpen \<and> p_seatCount p < p_maxSeats p
         \<and> so_seatCount out = p_seatCount p + 1)"
  using assms(1)
proof (cases rule: match_cases)
  case (join pool c x now clk s1)
  from join(5) obtain p where "pool_row s1 (p_rideId pool) = Some p" "p_poolState p = PoolOpen" "p_seatCount p < p_maxSeats p"
    by (rule join_tx_seat)
  moreover from join(5) this have "jn_seatCount c = p_seatCount p + 1"
    by (auto elim!: join_tx_cases seat_joiner_cases dest: row_key)
  ultimately show ?thesis using join(1-4) by (intro bexI [of _ pool]) (auto simp: slotted_def)
next
  case (opened c o_p x now clk s1)
  then show ?thesis using assms(2) by simp
qed

text \<open>A match that ends without a seat (the passenger already has one, a conflict, no route, no fare,
  a database error) has written nothing.\<close>

lemma match_without_seat_writes_nothing:
  assumes "findOrCreatePool score mc near r t i tmo quote ik env (\<lambda>_ s. s) s = (res, s')"
    and "\<And>out eff. res \<noteq> Inr (MatchSeat out, eff)"
  shows "s' = s"
  using assms by (rule match_quiet)

section \<open>Fares\<close>

text \<open>Under any accepted configuration a seat never costs more than the solo fare of the same route,
  never less than the seat multiplier's share of it, and a lone passenger pays the solo fare.\<close>

lemma seat_fare_bounds:
  assumes "sharedFromConfig config = Inr p" "quoteSeatFromMetrics p solo n d r = Inr q" "0 \<le> mo_amount solo"
  shows "sq_perSeatPrice q \<le> mo_amount solo
    \<and> js_round (seatMultiplierFor p n * real_of_int (mo_amount solo)) \<le> sq_perSeatPrice q
    \<and> 0 \<le> sq_perSeatPrice q \<and> (n \<le> 1 \<longrightarrow> sq_perSeatPrice q = mo_amount solo)"
proof -
  have ok: "shared_ok p" by (rule sharedFromConfig_ok [OF assms(1)])
  note b = quoteSeat_bounds [OF ok assms(2,3)]
  have "sq_perSeatPrice q = mo_amount solo" if "n \<le> 1"
  proof -
    have "seatMultiplierFor p n = 1" using that by (simp add: seatMultiplierFor_def)
    then have "mo_amount solo \<le> sq_perSeatPrice q" using b(1) by simp
    then show ?thesis using b(2) by simp
  qed
  then show ?thesis using b by simp
qed

text \<open>C18: A geohash always ends with seven characters, and two points with the same one are at most
  180/2^17 degrees of latitude and 360/2^18 degrees of longitude apart: a cached route is used only for
  ends that close.\<close>

lemma geohash_ends_in_a_cell:
  "(\<exists>u. gh_loop lat lng = Some u \<and> length (gh_hash u) = 7)
   \<and> (geohash7 lat lng = geohash7 lat' lng' \<and> \<bar>lat\<bar> \<le> 90 \<and> \<bar>lng\<bar> \<le> 180 \<and> \<bar>lat'\<bar> \<le> 90 \<and> \<bar>lng'\<bar> \<le> 180
        \<longrightarrow> \<bar>lat - lat'\<bar> \<le> 180 / 2 ^ 17 \<and> \<bar>lng - lng'\<bar> \<le> 360 / 2 ^ 18)"
  using geohash7_cell [of lat lng lat' lng'] geohash7_length [of lat lng] gh_loop_run [of lat lng]
  by (auto simp: geohash7_def)

lemma geohash_ends_in_a_cell_witness:
  "geohash7 12 77 = geohash7 (120005 / 10000) 77 \<and> \<bar>12 - 120005 / 10000\<bar> \<le> (180 :: real) / 2 ^ 17"
proof -
  have "geohash7 12 77 = geohash7 (120005 / 10000) 77"
    by (simp add: geohash7_run gh_run_def eval_nat_numeral gh_step_def gh_halve_def gh_emit_def gh_init_def Let_def BASE32_def)
  then show ?thesis using geohash_ends_in_a_cell [of 12 77 "120005 / 10000" 77] by simp
qed

text \<open>The score of two routes is between 0 and 1, does not depend on which comes first, and is 1 for a
  route with itself.\<close>

lemma route_score_range:
  assumes "list_all coord_ok p1" "list_all coord_ok p2" "p1 \<noteq> []" "p2 \<noteq> []" "saturationFromConfig config = Inr saturation"
  shows "\<exists>x. score_polylines saturation p1 p2 = Inr x \<and> score_polylines saturation p2 p1 = Inr x
    \<and> 0 \<le> x \<and> x \<le> 1 \<and> (p1 = p2 \<longrightarrow> x = 1)"
proof -
  have "1 \<le> saturation" using assms(5) getNumber_in_range by (fastforce simp: saturationFromConfig_def)
  then have "0 < saturation" by simp
  from score_polylines_range [OF assms(1-4) this] show ?thesis
    using score_polylines_sym [of saturation p1 p2] by auto
qed

section \<open>Repair of lost work\<close>

text \<open>C19: A reconciler pass over a reachable database is a run of the backend's own transactions; whatever the
  queues report, it leaves every pool, seat, stop and assignment as it is, and every ride except a scheduled
  one that still waits for a driver.\<close>

lemma reconcile_never_decides:
  assumes "reach db_init db_step s"
  shows "db_step\<^sup>*\<^sup>* s (ps_db (reconcile_pass en s)) \<and> untouched s (ps_db (reconcile_pass en s))"
  using sys.reach_inv [OF assms] by (rule pass_run)

definition w_recon :: recon_env where
  "w_recon = \<lparr>rc_params = \<lparr>k1 = 5, k2 = 10, r1Meters = 3000, r2Meters = 6000, waveOneTimeoutMs = 30000, hardFailMs = 60000,
       scheduledWindow = (600000, 900000)\<rparr>, rc_poolTimeoutMs = 60000, rc_clk = 100000, rc_now = 100000,
     rc_jobs = \<lambda>_ _. None, rc_down = \<lambda>_. False, rc_xid = \<lambda>_. yid\<rparr>"

lemma reconcile_never_decides_witness: "assignments (ps_db (reconcile_pass (\<lambda>_. w_recon) w_offered)) = []"
  using reconcile_never_decides [OF w_reach_offered, of "\<lambda>_. w_recon"] by (simp add: untouched_def w_solo)

text \<open>C20: When the reconciler has examined a dispatchable trip without an error, work is in flight for it: a
  queued start or hard-fail job, a hard-fail job added in this visit, or an unsettled intent the relay will
  publish. The exception is a scheduled ride whose window has closed, which is rescheduled.\<close>

lemma reconcile_leaves_work_in_flight:
  assumes "reach db_init db_step (ps_db ps)" "isUuid i"
    and "reconcileDispatching e kind i g scheduled idleSince ps = (False, ps')"
  shows "work_in_flight e kind i g ps'
    \<or> scheduled \<and> (\<exists>res. rearmScheduledRide i (Some g) (rc_xid e i) (rc_now e) (rc_now e) (ps_db ps) = Inr (res, ps_db ps'))"
  using sys.reach_inv [OF assms(1)] by (rule dispatching_in_flight [OF assms(3) _ assms(2)])

lemma reconcile_leaves_work_in_flight_witness:
  "\<exists>ps'. reconcileDispatching w_recon KindSolo rid 1 False 0 \<lparr>ps_db = w_offered, ps_report = empty_report, ps_ops = []\<rparr> = (False, ps')
     \<and> work_in_flight w_recon KindSolo rid 1 ps'"
proof -
  let ?ps = "\<lparr>ps_db = w_offered, ps_report = empty_report, ps_ops = []\<rparr>"
  have "\<not> fst (reconcileDispatching w_recon KindSolo rid 1 False 0 ?ps)"
    by (simp add: reconcileDispatching_def w_recon_def hasLiveJob_def offerSummary_def restore_timers_def trip_of_def w_solo)
  then obtain ps' where r: "reconcileDispatching w_recon KindSolo rid 1 False 0 ?ps = (False, ps')"
    by (cases "reconcileDispatching w_recon KindSolo rid 1 False 0 ?ps") simp
  have "reach db_init db_step (ps_db ?ps)" by (simp add: w_reach_offered)
  from reconcile_leaves_work_in_flight [OF this _ r] r show ?thesis by simp
qed

end
